(* ===== verification/Prelude.thy ===== *)
theory Prelude
  imports Complex_Main
begin

text \<open>
  Shared vocabulary of the development: the result type of a JavaScript function that may
  throw, the lazy list iterations the source uses (\<open>every\<close>, \<open>some\<close>, \<open>map\<close>, \<open>find\<close>) with the
  congruence rules that let recursive definitions call them, insertion-ordered maps, and
  the named collections that carry the component proofs.
\<close>

named_theorems result_simps \<open>evaluation of the result combinators\<close>
named_theorems omap_simps \<open>lookup and update of insertion-ordered maps\<close>

section \<open>Results: a value, or a thrown error\<close>

type_synonym ('e, 'a) result = "'e + 'a"

definition bind_r :: "('e, 'a) result \<Rightarrow> ('a \<Rightarrow> ('e, 'b) result) \<Rightarrow> ('e, 'b) result" where
  "bind_r r f = (case r of Inl e \<Rightarrow> Inl e | Inr a \<Rightarrow> f a)"

lemma bind_r_simps [simp, result_simps]:
  "bind_r (Inl e) f = Inl e"
  "bind_r (Inr a) f = f a"
  by (simp_all add: bind_r_def)

lemma bind_r_cong [fundef_cong]:
  assumes "r = r'" and "\<And>a. r' = Inr a \<Longrightarrow> f a = g a"
  shows "bind_r r f = bind_r r' g"
  using assms by (cases r') simp_all

lemma bind_r_eq_Inr:
  "bind_r r f = Inr b \<longleftrightarrow> (\<exists>a. r = Inr a \<and> f a = Inr b)"
  by (cases r) simp_all

definition map_r :: "('a \<Rightarrow> 'b) \<Rightarrow> ('e, 'a) result \<Rightarrow> ('e, 'b) result" where
  "map_r f r = bind_r r (\<lambda>a. Inr (f a))"

lemma map_r_simps [simp, result_simps]:
  "map_r f (Inl e) = Inl e"
  "map_r f (Inr a) = Inr (f a)"
  by (simp_all add: map_r_def)

definition is_ok :: "('e, 'a) result \<Rightarrow> bool" where
  "is_ok r = (case r of Inl _ \<Rightarrow> False | Inr _ \<Rightarrow> True)"

lemma is_ok_simps [simp, result_simps]:
  "\<not> is_ok (Inl e)"
  "is_ok (Inr a)"
  by (simp_all add: is_ok_def)

lemma is_ok_bind [simp]:
  "is_ok (bind_r r f) \<longleftrightarrow> (\<exists>a. r = Inr a \<and> is_ok (f a))"
  by (cases r) simp_all

lemma is_ok_map [simp]: "is_ok (map_r f r) = is_ok r"
  by (cases r) simp_all

subsection \<open>\<open>Array.prototype.every\<close>, \<open>some\<close> and \<open>map\<close> with a throwing callback\<close>

fun every_r :: "('a \<Rightarrow> ('e, bool) result) \<Rightarrow> 'a list \<Rightarrow> ('e, bool) result" where
  "every_r p [] = Inr True"
| "every_r p (x # xs) = bind_r (p x) (\<lambda>b. if b then every_r p xs else Inr False)"

fun some_r :: "('a \<Rightarrow> ('e, bool) result) \<Rightarrow> 'a list \<Rightarrow> ('e, bool) result" where
  "some_r p [] = Inr False"
| "some_r p (x # xs) = bind_r (p x) (\<lambda>b. if b then Inr True else some_r p xs)"

fun mapM_r :: "('a \<Rightarrow> ('e, 'b) result) \<Rightarrow> 'a list \<Rightarrow> ('e, 'b list) result" where
  "mapM_r f [] = Inr []"
| "mapM_r f (x # xs) = bind_r (f x) (\<lambda>y. map_r (\<lambda>ys. y # ys) (mapM_r f xs))"

lemma every_r_cong [fundef_cong]:
  assumes "xs = ys" and "\<And>x. x \<in> set ys \<Longrightarrow> p x = q x"
  shows "every_r p xs = every_r q ys"
proof -
  have "every_r p ys = every_r q ys"
    using assms(2)
  proof (induction ys)
    case (Cons y ys)
    have "p y = q y" using Cons.prems by simp
    moreover have "every_r p ys = every_r q ys" by (rule Cons.IH) (simp add: Cons.prems)
    ultimately show ?case by (simp cong: if_cong)
  qed simp
  with assms(1) show ?thesis by simp
qed

lemma some_r_cong [fundef_cong]:
  assumes "xs = ys" and "\<And>x. x \<in> set ys \<Longrightarrow> p x = q x"
  shows "some_r p xs = some_r q ys"
proof -
  have "some_r p ys = some_r q ys"
    using assms(2)
  proof (induction ys)
    case (Cons y ys)
    have "p y = q y" using Cons.prems by simp
    moreover have "some_r p ys = some_r q ys" by (rule Cons.IH) (simp add: Cons.prems)
    ultimately show ?case by (simp cong: if_cong)
  qed simp
  with assms(1) show ?thesis by simp
qed

lemma mapM_r_cong [fundef_cong]:
  assumes "xs = ys" and "\<And>x. x \<in> set ys \<Longrightarrow> f x = g x"
  shows "mapM_r f xs = mapM_r g ys"
proof -
  have "mapM_r f ys = mapM_r g ys"
    using assms(2)
  proof (induction ys)
    case (Cons y ys)
    have "f y = g y" using Cons.prems by simp
    moreover have "mapM_r f ys = mapM_r g ys" by (rule Cons.IH) (simp add: Cons.prems)
    ultimately show ?case by (simp cong: if_cong)
  qed simp
  with assms(1) show ?thesis by simp
qed

lemma every_r_ok: "(\<And>x. x \<in> set xs \<Longrightarrow> is_ok (p x)) \<Longrightarrow> is_ok (every_r p xs)"
proof (induction xs)
  case (Cons x xs)
  have "is_ok (p x)" using Cons.prems by simp
  then obtain b where "p x = Inr b" by (cases "p x") auto
  moreover have "is_ok (every_r p xs)" by (rule Cons.IH) (simp add: Cons.prems)
  ultimately show ?case by simp
qed simp

lemma some_r_ok: "(\<And>x. x \<in> set xs \<Longrightarrow> is_ok (p x)) \<Longrightarrow> is_ok (some_r p xs)"
proof (induction xs)
  case (Cons x xs)
  have "is_ok (p x)" using Cons.prems by simp
  then obtain b where "p x = Inr b" by (cases "p x") auto
  moreover have "is_ok (some_r p xs)" by (rule Cons.IH) (simp add: Cons.prems)
  ultimately show ?case by simp
qed simp

lemma mapM_r_ok: "(\<And>x. x \<in> set xs \<Longrightarrow> is_ok (f x)) \<Longrightarrow> is_ok (mapM_r f xs)"
proof (induction xs)
  case (Cons x xs)
  have "is_ok (f x)" using Cons.prems by simp
  then obtain b where "f x = Inr b" by (cases "f x") auto
  moreover have "is_ok (mapM_r f xs)" by (rule Cons.IH) (simp add: Cons.prems)
  ultimately show ?case by simp
qed simp

lemma is_ok_E: "is_ok r \<Longrightarrow> (\<And>a. r = Inr a \<Longrightarrow> P) \<Longrightarrow> P"
  by (cases r) auto

section \<open>Lists\<close>

text \<open>\<open>Array.prototype.find\<close> and the drop-while shape of a \<open>for \<dots> break\<close> loop.\<close>

lemma find_Some_prefix:
  "find P xs = Some x \<Longrightarrow> \<exists>us vs. xs = us @ x # vs \<and> P x \<and> (\<forall>u \<in> set us. \<not> P u)"
proof (induction xs)
  case (Cons y ys)
  show ?case
  proof (cases "P y")
    case True
    with Cons.prems have "y # ys = [] @ x # ys \<and> P x" by simp
    then show ?thesis by fastforce
  next
    case False
    with Cons.prems have "find P ys = Some x" by simp
    then obtain us vs where "ys = us @ x # vs \<and> P x \<and> (\<forall>u \<in> set us. \<not> P u)"
      using Cons.IH by blast
    with False have "y # ys = (y # us) @ x # vs \<and> P x \<and> (\<forall>u \<in> set (y # us). \<not> P u)" by simp
    then show ?thesis by blast
  qed
qed simp

lemma find_in_set: "find P xs = Some x \<Longrightarrow> x \<in> set xs \<and> P x"
  by (induction xs) (auto split: if_splits)

lemma find_append_skip: "(\<forall>u \<in> set us. \<not> P u) \<Longrightarrow> find P (us @ vs) = find P vs"
  by (induction us) auto

lemma find_cong_set: "(\<And>x. x \<in> set xs \<Longrightarrow> P x = Q x) \<Longrightarrow> find P xs = find Q xs"
  by (induction xs) auto

lemma filter_drop_taken:
  assumes "distinct (us @ vs)"
  shows "filter (\<lambda>x. x \<notin> set us) (us @ vs) = vs"
proof -
  have "filter (\<lambda>x. x \<notin> set us) us = []" by (simp add: filter_empty_conv)
  moreover have "filter (\<lambda>x. x \<notin> set us) vs = vs" using assms by (auto simp: filter_id_conv)
  ultimately show ?thesis by simp
qed

lemma dropWhile_eq_filter_sorted:
  fixes f :: "'a \<Rightarrow> int"
  assumes "sorted (map f xs)"
  shows "dropWhile (\<lambda>x. f x < c) xs = filter (\<lambda>x. c \<le> f x) xs"
  using assms
proof (induction xs)
  case (Cons x xs)
  show ?case
  proof (cases "f x < c")
    case True
    with Cons show ?thesis by simp
  next
    case False
    with Cons.prems have "\<forall>y \<in> set xs. c \<le> f y" by fastforce
    with False show ?thesis by (simp add: filter_id_conv)
  qed
qed simp

text \<open>The elements of \<open>new Set(xs)\<close> in iteration order: first occurrences.\<close>

definition js_set :: "'a list \<Rightarrow> 'a list" where
  "js_set xs = rev (remdups (rev xs))"

lemma js_set_simps [simp]: "set (js_set xs) = set xs" "distinct (js_set xs)"
  by (simp_all add: js_set_def)

section \<open>Insertion-ordered maps\<close>

text \<open>
  A JavaScript \<open>Map\<close> iterates in insertion order: \<open>set\<close> on a present key keeps its place,
  \<open>set\<close> on a new key appends, \<open>delete\<close> removes. The model is an association list with
  distinct keys.
\<close>

type_synonym ('k, 'v) omap = "('k \<times> 'v) list"

definition om_keys :: "('k, 'v) omap \<Rightarrow> 'k list" where
  "om_keys m = map fst m"

definition om_get :: "('k, 'v) omap \<Rightarrow> 'k \<Rightarrow> 'v option" where
  "om_get m k = map_of m k"

fun om_set :: "'k \<Rightarrow> 'v \<Rightarrow> ('k, 'v) omap \<Rightarrow> ('k, 'v) omap" where
  "om_set k v [] = [(k, v)]"
| "om_set k v ((k', v') # m) = (if k' = k then (k, v) # m else (k', v') # om_set k v m)"

definition om_delete :: "'k \<Rightarrow> ('k, 'v) omap \<Rightarrow> ('k, 'v) omap" where
  "om_delete k m = filter (\<lambda>p. fst p \<noteq> k) m"

definition om_wf :: "('k, 'v) omap \<Rightarrow> bool" where
  "om_wf m = distinct (map fst m)"

lemma om_get_set [simp, omap_simps]:
  "om_get (om_set k v m) j = (if j = k then Some v else om_get m j)"
  by (induction m) (auto simp: om_get_def)

lemma om_get_delete [simp, omap_simps]:
  "om_get (om_delete k m) j = (if j = k then None else om_get m j)"
  by (induction m) (auto simp: om_get_def om_delete_def)

lemma om_keys_set [omap_simps]:
  "om_keys (om_set k v m) = (if k \<in> set (om_keys m) then om_keys m else om_keys m @ [k])"
  by (induction m) (force simp: om_keys_def)+

lemma om_keys_delete [omap_simps]: "om_keys (om_delete k m) = filter (\<lambda>j. j \<noteq> k) (om_keys m)"
  by (induction m) (auto simp: om_keys_def om_delete_def)

lemma om_wf_empty [simp]: "om_wf []"
  by (simp add: om_wf_def)

lemma om_wf_set [simp, intro]: "om_wf m \<Longrightarrow> om_wf (om_set k v m)"
  unfolding om_wf_def om_keys_def [symmetric] by (simp add: om_keys_set)

lemma om_wf_delete [simp, intro]: "om_wf m \<Longrightarrow> om_wf (om_delete k m)"
  unfolding om_wf_def om_delete_def by (rule distinct_map_filter)

lemma om_get_keys: "(k \<in> set (om_keys m)) = (om_get m k \<noteq> None)"
  by (induction m) (auto simp: om_get_def om_keys_def)

lemma om_get_empty [simp]: "om_get [] k = None"
  by (simp add: om_get_def)

lemma length_om_set [omap_simps]:
  "length (om_set k v m) = (if om_get m k = None then Suc (length m) else length m)"
  by (induction m) (auto simp: om_get_def)

lemma length_om_delete:
  "om_wf m \<Longrightarrow> length (om_delete k m) = (if om_get m k = None then length m else length m - 1)"
proof (induction m)
  case Nil
  then show ?case by (simp add: om_delete_def)
next
  case (Cons p m)
  obtain j v where p: "p = (j, v)" by (cases p)
  from Cons.prems have wf: "om_wf m" and j: "j \<notin> fst ` set m" by (auto simp: om_wf_def p)
  show ?case
  proof (cases "j = k")
    case True
    have "om_delete k m = m"
      using j True by (auto simp: om_delete_def filter_id_conv image_iff)
    then show ?thesis using True by (simp add: p om_delete_def om_get_def)
  next
    case False
    have "length (om_delete k m) = (if om_get m k = None then length m else length m - 1)"
      using wf by (rule Cons.IH)
    moreover have "om_get m k \<noteq> None \<Longrightarrow> 0 < length m" by (cases m) auto
    ultimately show ?thesis
      using False by (auto simp: p om_delete_def om_get_def)
  qed
qed

lemma om_get_filter_key: "om_get (filter (\<lambda>e. P (fst e)) m) k = (if P k then om_get m k else None)"
  by (induction m) (auto simp: om_get_def)

lemma om_wf_filter: "om_wf m \<Longrightarrow> om_wf (filter Q m)"
  unfolding om_wf_def by (rule distinct_map_filter)

lemma om_get_fold_set: "distinct (map fst fs) \<Longrightarrow>
    om_get (fold (\<lambda>(f, v). om_set f v) fs h) k = (case map_of fs k of Some v \<Rightarrow> Some v | None \<Rightarrow> om_get h k)"
proof (induction fs arbitrary: h)
  case (Cons e fs)
  obtain f v where e: "e = (f, v)" by (cases e)
  have "map_of fs f = None" using Cons.prems by (simp add: e map_of_eq_None_iff)
  then show ?case using Cons by (simp add: e split: option.split)
qed simp

lemma om_get_map_val: "om_get (map (\<lambda>(k, v). (k, f k v)) m) k = map_option (f k) (om_get m k)"
  by (induction m) (auto simp: om_get_def)

lemma om_wf_map_val: "om_wf (map (\<lambda>(k, v). (k, f k v)) m) = om_wf m"
  by (simp add: om_wf_def comp_def case_prod_beta)

text \<open>The interface a cache uses a map through, and its laws for insertion-ordered maps.\<close>

locale map_interface =
  fixes mget :: "'m \<Rightarrow> 'k \<Rightarrow> 'v option"
    and mset :: "'k \<Rightarrow> 'v \<Rightarrow> 'm \<Rightarrow> 'm"
    and mdelete :: "'k \<Rightarrow> 'm \<Rightarrow> 'm"
    and mwf :: "'m \<Rightarrow> bool"
  assumes get_set: "mget (mset k v m) j = (if j = k then Some v else mget m j)"
    and get_delete: "mget (mdelete k m) j = (if j = k then None else mget m j)"
    and wf_set: "mwf m \<Longrightarrow> mwf (mset k v m)"
    and wf_delete: "mwf m \<Longrightarrow> mwf (mdelete k m)"
begin

lemma get_set_same: "mget (mset k v m) k = Some v"
  by (simp add: get_set)

lemma get_refresh: "mget m k = Some v \<Longrightarrow> mget (mset k v (mdelete k m)) = mget m"
  by (rule ext) (simp add: get_set get_delete)

lemma get_evict_set:
  "mget (mset k v (mdelete d m)) j = (if j = k then Some v else if j = d then None else mget m j)"
  by (simp add: get_set get_delete)

end

interpretation omap: map_interface om_get om_set om_delete om_wf
  by unfold_locales auto

end
