(* ===== verification/JsValue.thy ===== *)
theory JsValue
  imports Prelude
begin

text \<open>
  JavaScript values as the source uses them: numbers with \<open>NaN\<close> and the infinities, the
  value type of decoded JSON and of rule operands, truthiness, \<open>Number(v)\<close>, \<open>String(v)\<close>,
  loose equality \<open>==\<close> and property access. A finite number is an exact real (rounding to
  53 bits is not modelled, overflow of a literal to \<open>Infinity\<close> is); \<open>-0\<close> is \<open>0\<close>. Characters
  are code units below 256. Properties are own properties: the inherited members of
  \<open>Object.prototype\<close> and \<open>String.prototype\<close> other than \<open>length\<close> are not modelled.
\<close>

section \<open>Numbers\<close>

datatype jnum = NaN | PInf | NInf | Fin real

fun num_eq :: "jnum \<Rightarrow> jnum \<Rightarrow> bool" where
  "num_eq (Fin a) (Fin b) = (a = b)"
| "num_eq PInf PInf = True"
| "num_eq NInf NInf = True"
| "num_eq _ _ = False"

fun num_lt :: "jnum \<Rightarrow> jnum \<Rightarrow> bool" where
  "num_lt NaN _ = False"
| "num_lt _ NaN = False"
| "num_lt (Fin a) (Fin b) = (a < b)"
| "num_lt NInf b = (b \<noteq> NInf)"
| "num_lt a NInf = False"
| "num_lt PInf b = False"
| "num_lt a PInf = True"

definition num_le :: "jnum \<Rightarrow> jnum \<Rightarrow> bool" where
  "num_le a b = (num_lt a b \<or> num_eq a b)"

fun is_finite_num :: "jnum \<Rightarrow> bool" where
  "is_finite_num (Fin _) = True"
| "is_finite_num _ = False"

lemma num_lt_irrefl [simp]: "\<not> num_lt a a"
  by (cases a) simp_all

lemma num_lt_asym: "num_lt a b \<Longrightarrow> \<not> num_lt b a"
  by (cases a; cases b) simp_all

lemma num_lt_trans: "num_lt a b \<Longrightarrow> num_lt b c \<Longrightarrow> num_lt a c"
  by (cases a; cases b; cases c) simp_all

lemma num_eq_sym: "num_eq a b = num_eq b a"
  by (cases a; cases b) auto

lemma num_le_Fin [simp]: "num_le (Fin a) (Fin b) = (a \<le> b)"
  by (auto simp: num_le_def)

section \<open>Strings\<close>

definition code :: "char \<Rightarrow> nat" where
  "code c = of_char c"

definition is_ws :: "char \<Rightarrow> bool" where
  "is_ws c = (code c \<in> {9, 10, 11, 12, 13, 32, 160})"

definition js_trim :: "string \<Rightarrow> string" where
  "js_trim s = rev (dropWhile is_ws (rev (dropWhile is_ws s)))"

definition is_digit :: "char \<Rightarrow> bool" where
  "is_digit c = (48 \<le> code c \<and> code c \<le> 57)"

definition to_upper_char :: "char \<Rightarrow> char" where
  "to_upper_char c = (if 97 \<le> code c \<and> code c \<le> 122 then char_of (code c - 32) else c)"

definition to_lower_char :: "char \<Rightarrow> char" where
  "to_lower_char c = (if 65 \<le> code c \<and> code c \<le> 90 then char_of (code c + 32) else c)"

definition to_upper :: "string \<Rightarrow> string" where
  "to_upper s = map to_upper_char s"

definition to_lower :: "string \<Rightarrow> string" where
  "to_lower s = map to_lower_char s"

fun starts_with :: "string \<Rightarrow> string \<Rightarrow> bool" where
  "starts_with s [] = True"
| "starts_with [] (p # ps) = False"
| "starts_with (c # cs) (p # ps) = (c = p \<and> starts_with cs ps)"

fun str_includes :: "string \<Rightarrow> string \<Rightarrow> bool" where
  "str_includes [] p = (p = [])"
| "str_includes (c # cs) p = (starts_with (c # cs) p \<or> str_includes cs p)"

text \<open>\<open>s.split(c)\<close> for a one-character separator: never empty, as in JavaScript.\<close>

fun split_on :: "char \<Rightarrow> string \<Rightarrow> string list" where
  "split_on d [] = [[]]"
| "split_on d (c # cs) =
     (if c = d then [] # split_on d cs
      else case split_on d cs of [] \<Rightarrow> [[c]] | w # ws \<Rightarrow> (c # w) # ws)"

fun join_with :: "string \<Rightarrow> string list \<Rightarrow> string" where
  "join_with d [] = []"
| "join_with d [w] = w"
| "join_with d (w # w' # ws) = w @ d @ join_with d (w' # ws)"

lemma split_on_nonempty [simp]: "split_on d s \<noteq> []"
  by (induction s) (auto split: list.splits)

lemma starts_with_append [simp]: "starts_with (p @ s) p"
  by (induction p) auto

lemma starts_with_prefix: "starts_with s p \<longleftrightarrow> (\<exists>r. s = p @ r)"
  by (induction s p rule: starts_with.induct) auto

lemma split_on_first:
  "d \<notin> set w \<Longrightarrow> split_on d (w @ d # s) = w # split_on d s"
  by (induction w) auto

lemma split_on_none: "d \<notin> set w \<Longrightarrow> split_on d w = [w]"
  by (induction w) auto

section \<open>Numbers from and to strings\<close>

fun digits_nat :: "nat \<Rightarrow> string \<Rightarrow> nat" where
  "digits_nat acc [] = acc"
| "digits_nat acc (c # cs) = digits_nat (10 * acc + (code c - 48)) cs"

definition radix_digit :: "char \<Rightarrow> nat option" where
  "radix_digit c =
     (if is_digit c then Some (code c - 48)
      else if 97 \<le> code (to_lower_char c) \<and> code (to_lower_char c) \<le> 102
           then Some (code (to_lower_char c) - 87) else None)"

fun radix_nat :: "nat \<Rightarrow> nat \<Rightarrow> string \<Rightarrow> nat option" where
  "radix_nat r acc [] = Some acc"
| "radix_nat r acc (c # cs) =
     (case radix_digit c of
        None \<Rightarrow> None
      | Some d \<Rightarrow> if d < r then radix_nat r (r * acc + d) cs else None)"

text \<open>A literal whose magnitude rounds past the largest double is \<open>Infinity\<close>.\<close>

definition to_double :: "real \<Rightarrow> jnum" where
  "to_double x =
     (if 2 ^ 1024 - 2 ^ 970 \<le> x then PInf
      else if x \<le> - (2 ^ 1024 - 2 ^ 970) then NInf else Fin x)"

definition decimal_value :: "string \<Rightarrow> string \<Rightarrow> real" where
  "decimal_value ip fp = real (digits_nat 0 ip) + real (digits_nat 0 fp) / 10 ^ length fp"

definition exponent_part :: "string \<Rightarrow> (bool \<times> nat) option" where
  "exponent_part s =
     (let neg = (case s of c # _ \<Rightarrow> c = CHR ''-'' | [] \<Rightarrow> False);
          ds = (case s of c # cs \<Rightarrow> if c = CHR ''-'' \<or> c = CHR ''+'' then cs else s | [] \<Rightarrow> [])
      in if ds \<noteq> [] \<and> list_all is_digit ds then Some (neg, digits_nat 0 ds) else None)"

definition unsigned_literal :: "string \<Rightarrow> real option" where
  "unsigned_literal s =
     (let ip = takeWhile is_digit s; r1 = dropWhile is_digit s;
          has_dot = (case r1 of c # _ \<Rightarrow> c = CHR ''.'' | [] \<Rightarrow> False);
          fp = (if has_dot then takeWhile is_digit (tl r1) else []);
          r2 = (if has_dot then dropWhile is_digit (tl r1) else r1)
      in if ip = [] \<and> fp = [] then None
         else case r2 of
                [] \<Rightarrow> Some (decimal_value ip fp)
              | c # cs \<Rightarrow>
                  if c = CHR ''e'' \<or> c = CHR ''E''
                  then map_option (\<lambda>(neg, n). if neg then decimal_value ip fp / 10 ^ n
                                              else decimal_value ip fp * 10 ^ n) (exponent_part cs)
                  else None)"

definition decimal_literal :: "string \<Rightarrow> jnum" where
  "decimal_literal s =
     (let neg = (case s of c # _ \<Rightarrow> c = CHR ''-'' | [] \<Rightarrow> False);
          u = (case s of c # cs \<Rightarrow> if c = CHR ''-'' \<or> c = CHR ''+'' then cs else s | [] \<Rightarrow> [])
      in if u = ''Infinity'' then (if neg then NInf else PInf)
         else case unsigned_literal u of
                None \<Rightarrow> NaN
              | Some x \<Rightarrow> to_double (if neg then - x else x))"

definition radix_literal :: "nat \<Rightarrow> string \<Rightarrow> jnum" where
  "radix_literal r ds =
     (if ds = [] then NaN
      else case radix_nat r 0 ds of None \<Rightarrow> NaN | Some n \<Rightarrow> to_double (real n))"

text \<open>\<open>Number(s)\<close> on a string.\<close>

definition str_to_num :: "string \<Rightarrow> jnum" where
  "str_to_num s =
     (let t = js_trim s
      in if t = [] then Fin 0
         else case t of
                a # b # ds \<Rightarrow>
                  if a = CHR ''0'' \<and> to_lower_char b = CHR ''x'' then radix_literal 16 ds
                  else if a = CHR ''0'' \<and> to_lower_char b = CHR ''o'' then radix_literal 8 ds
                  else if a = CHR ''0'' \<and> to_lower_char b = CHR ''b'' then radix_literal 2 ds
                  else decimal_literal t
              | _ \<Rightarrow> decimal_literal t)"

fun nat_to_str :: "nat \<Rightarrow> string" where
  "nat_to_str n =
     (if n < 10 then [char_of (48 + n)] else nat_to_str (n div 10) @ [char_of (48 + n mod 10)])"

declare nat_to_str.simps [simp del]

fun frac_digits :: "nat \<Rightarrow> real \<Rightarrow> string" where
  "frac_digits 0 f = []"
| "frac_digits (Suc k) f =
     (if f = 0 then [] else char_of (48 + nat \<lfloor>10 * f\<rfloor>) # frac_digits k (10 * f - of_int \<lfloor>10 * f\<rfloor>))"

text \<open>
  \<open>String(n)\<close>: exact for integers below \<open>10^21\<close> in magnitude and for decimals of at most
  17 fractional digits (the exponent notation of very large and very small numbers is not
  produced).
\<close>

fun num_to_str :: "jnum \<Rightarrow> string" where
  "num_to_str NaN = ''NaN''"
| "num_to_str PInf = ''Infinity''"
| "num_to_str NInf = ''-Infinity''"
| "num_to_str (Fin r) =
     (let a = \<bar>r\<bar>; i = nat \<lfloor>a\<rfloor>; fd = frac_digits 17 (a - real i)
      in (if r < 0 then ''-'' else []) @ nat_to_str i @ (if fd = [] then [] else CHR ''.'' # fd))"

section \<open>Values\<close>

datatype jval =
    JUndef
  | JNull
  | JBool bool
  | JNum jnum
  | JStr string
  | JArr "jval list"
  | JObj "(string \<times> jval) list"

datatype js_error = TypeError | RuleError string

fun truthy :: "jval \<Rightarrow> bool" where
  "truthy JUndef = False"
| "truthy JNull = False"
| "truthy (JBool b) = b"
| "truthy (JNum n) = (n \<noteq> NaN \<and> n \<noteq> Fin 0)"
| "truthy (JStr s) = (s \<noteq> [])"
| "truthy (JArr _) = True"
| "truthy (JObj _) = True"

text \<open>\<open>String(v)\<close>; an array joins its elements with commas, \<open>null\<close> and \<open>undefined\<close> as \<open>""\<close>.\<close>

fun js_to_string :: "jval \<Rightarrow> string" where
  "js_to_string JUndef = ''undefined''"
| "js_to_string JNull = ''null''"
| "js_to_string (JBool b) = (if b then ''true'' else ''false'')"
| "js_to_string (JNum n) = num_to_str n"
| "js_to_string (JStr s) = s"
| "js_to_string (JArr vs) =
     join_with '','' (map (\<lambda>v. if v = JUndef \<or> v = JNull then [] else js_to_string v) vs)"
| "js_to_string (JObj _) = ''[object Object]''"

fun js_to_num :: "jval \<Rightarrow> jnum" where
  "js_to_num JUndef = NaN"
| "js_to_num JNull = Fin 0"
| "js_to_num (JBool b) = Fin (if b then 1 else 0)"
| "js_to_num (JNum n) = n"
| "js_to_num (JStr s) = str_to_num s"
| "js_to_num (JArr vs) = str_to_num (js_to_string (JArr vs))"
| "js_to_num (JObj _) = NaN"

definition nullish :: "jval \<Rightarrow> bool" where
  "nullish v = (v = JUndef \<or> v = JNull)"

fun is_obj_like :: "jval \<Rightarrow> bool" where
  "is_obj_like (JArr _) = True"
| "is_obj_like (JObj _) = True"
| "is_obj_like _ = False"

text \<open>\<open>==\<close> between primitives.\<close>

fun prim_loose_eq :: "jval \<Rightarrow> jval \<Rightarrow> bool" where
  "prim_loose_eq (JNum a) (JNum b) = num_eq a b"
| "prim_loose_eq (JStr a) (JStr b) = (a = b)"
| "prim_loose_eq (JBool a) (JBool b) = (a = b)"
| "prim_loose_eq a b =
     (if nullish a \<or> nullish b then nullish a \<and> nullish b
      else num_eq (js_to_num a) (js_to_num b))"

text \<open>
  \<open>==\<close>: an object compared with a primitive is converted to a string first. The only object
  a rule context holds is its \<open>features\<close> record and every evaluated array is fresh, so two
  objects are the same reference exactly when they are that record.
\<close>

definition loose_eq :: "jval \<Rightarrow> jval \<Rightarrow> bool" where
  "loose_eq a b =
     (if is_obj_like a \<and> is_obj_like b
      then (case (a, b) of (JObj f, JObj g) \<Rightarrow> f = g | _ \<Rightarrow> False)
      else if is_obj_like a then \<not> nullish b \<and> prim_loose_eq (JStr (js_to_string a)) b
      else if is_obj_like b then \<not> nullish a \<and> prim_loose_eq a (JStr (js_to_string b))
      else prim_loose_eq a b)"

text \<open>\<open>===\<close> on primitives (objects are never identical to a fresh value).\<close>

fun strict_eq :: "jval \<Rightarrow> jval \<Rightarrow> bool" where
  "strict_eq (JNum a) (JNum b) = num_eq a b"
| "strict_eq (JArr _) _ = False"
| "strict_eq (JObj _) _ = False"
| "strict_eq a b = (a = b)"

definition field :: "(string \<times> jval) list \<Rightarrow> string \<Rightarrow> jval" where
  "field fs k = (case map_of fs k of None \<Rightarrow> JUndef | Some v \<Rightarrow> v)"

text \<open>A canonical array index: digits with no leading zero.\<close>

definition index_of_key :: "string \<Rightarrow> nat option" where
  "index_of_key p =
     (if p \<noteq> [] \<and> list_all is_digit p \<and> (hd p \<noteq> CHR ''0'' \<or> tl p = [])
      then Some (digits_nat 0 p) else None)"

text \<open>Property access \<open>v[p]\<close>; \<open>null\<close> and \<open>undefined\<close> throw.\<close>

fun js_get :: "jval \<Rightarrow> string \<Rightarrow> (js_error, jval) result" where
  "js_get JUndef p = Inl TypeError"
| "js_get JNull p = Inl TypeError"
| "js_get (JObj fs) p = Inr (field fs p)"
| "js_get (JArr vs) p =
     Inr (if p = ''length'' then JNum (Fin (real (length vs)))
          else case index_of_key p of
                 Some i \<Rightarrow> if i < length vs then vs ! i else JUndef
               | None \<Rightarrow> JUndef)"
| "js_get (JStr s) p =
     Inr (if p = ''length'' then JNum (Fin (real (length s)))
          else case index_of_key p of
                 Some i \<Rightarrow> if i < length s then JStr [s ! i] else JUndef
               | None \<Rightarrow> JUndef)"
| "js_get _ p = Inr JUndef"

text \<open>\<open>Math.round\<close>: the nearest integer, halves towards plus infinity.\<close>

definition js_round :: "real \<Rightarrow> int" where
  "js_round x = \<lfloor>x + 1 / 2\<rfloor>"

lemma js_round_int [simp]: "js_round (of_int i) = i"
  unfolding js_round_def by linarith

lemma js_round_error: "\<bar>of_int (js_round x) - x\<bar> \<le> 1 / 2"
  unfolding js_round_def by linarith

lemma js_round_mono: "x \<le> y \<Longrightarrow> js_round x \<le> js_round y"
  unfolding js_round_def by (intro floor_mono) simp

text \<open>\<open>getUTCHours\<close> of a time value.\<close>

definition utc_hour :: "int \<Rightarrow> int" where
  "utc_hour t = (t div 3600000) mod 24"

text \<open>\<open>round4\<close>: \<open>Math.round(n * 10000) / 10000\<close>.\<close>

definition round4 :: "real \<Rightarrow> real" where
  "round4 n = of_int (js_round (n * 10000)) / 10000"

lemma round4_error: "\<bar>round4 n - n\<bar> \<le> 1 / 20000"
proof -
  have "round4 n - n = (of_int (js_round (n * 10000)) - n * 10000) / 10000"
    by (simp add: round4_def diff_divide_distrib)
  then have "\<bar>round4 n - n\<bar> = \<bar>of_int (js_round (n * 10000)) - n * 10000\<bar> / 10000"
    by (simp only: abs_divide abs_numeral)
  then show ?thesis using js_round_error [of "n * 10000"] by simp
qed

lemma round4_mono: "x \<le> y \<Longrightarrow> round4 x \<le> round4 y"
  using js_round_mono [of "x * 10000" "y * 10000"] by (simp add: round4_def divide_right_mono)

lemma round4_bounds: "0 \<le> x \<Longrightarrow> x \<le> 1 \<Longrightarrow> 0 \<le> round4 x \<and> round4 x \<le> 1"
  using round4_mono [of 0 x] round4_mono [of x 1] js_round_int [of 0] js_round_int [of 10000]
  by (simp add: round4_def)

subsection \<open>Equality laws\<close>

lemma nullish_simps [simp]:
  "nullish JUndef" "nullish JNull" "\<not> nullish (JBool b)" "\<not> nullish (JNum n)"
  "\<not> nullish (JStr s)" "\<not> nullish (JArr vs)" "\<not> nullish (JObj fs)"
  by (simp_all add: nullish_def)

lemma prim_loose_eq_sym: "prim_loose_eq a b = prim_loose_eq b a"
  by (cases a; cases b) (auto simp: num_eq_sym)

lemma loose_eq_sym: "loose_eq a b = loose_eq b a"
  by (cases a; cases b) (auto simp: loose_eq_def prim_loose_eq_sym num_eq_sym)

lemma field_simps_cons [simp]:
  "field [] k = JUndef"
  "field ((k', v) # fs) k = (if k' = k then v else field fs k)"
  by (simp_all add: field_def)

end
