(* ===== verification/RuleEvaluator.thy ===== *)
theory RuleEvaluator
  imports JsValue
begin

text \<open>
  \<open>src/shared/rules/evaluator.ts\<close>: the JSON-Logic evaluator of the rules engine. An
  expression is decoded JSON (a \<open>jval\<close> without \<open>JUndef\<close>), the rule context is the list of
  own properties of \<open>RuleContext\<close>. A thrown exception is \<open>Inl\<close>.
\<close>

section \<open>Operands\<close>

text \<open>\<open>args[i]\<close>: element, character, property \<open>"i"\<close>, or \<open>undefined\<close>; \<open>null[i]\<close> throws.\<close>

definition nth_or_undef :: "jval list \<Rightarrow> nat \<Rightarrow> jval" where
  "nth_or_undef es i = (if i < length es then es ! i else JUndef)"

fun arg_at :: "jval \<Rightarrow> nat \<Rightarrow> (js_error, jval) result" where
  "arg_at JUndef i = Inl TypeError"
| "arg_at JNull i = Inl TypeError"
| "arg_at (JArr es) i = Inr (nth_or_undef es i)"
| "arg_at (JStr s) i = Inr (if i < length s then JStr [s ! i] else JUndef)"
| "arg_at (JObj fs) i = Inr (field fs (nat_to_str i))"
| "arg_at _ i = Inr JUndef"

text \<open>The array pattern \<open>const [needle, haystack] = args\<close> needs an iterable.\<close>

fun iter_at :: "jval \<Rightarrow> nat \<Rightarrow> (js_error, jval) result" where
  "iter_at (JArr es) i = Inr (nth_or_undef es i)"
| "iter_at (JStr s) i = Inr (if i < length s then JStr [s ! i] else JUndef)"
| "iter_at _ i = Inl TypeError"

text \<open>\<open>(args as RuleExpression[]).every\<close> and \<open>.some\<close> exist on arrays only.\<close>

fun as_array :: "jval \<Rightarrow> (js_error, jval list) result" where
  "as_array (JArr es) = Inr es"
| "as_array _ = Inl TypeError"

lemma size_in_list: "v \<in> set es \<Longrightarrow> size v < Suc (size_list size es)"
  by (induction es) auto

lemma size_in_fields: "map_of fs k = Some v \<Longrightarrow> size v < Suc (size_list (size_prod (\<lambda>_. 0) size) fs)"
  by (induction fs) (auto split: if_splits)

lemma size_arg_at: "arg_at a i = Inr v \<Longrightarrow> size v < Suc (size a)"
proof (cases a)
  case (JArr es)
  assume "arg_at a i = Inr v"
  with JArr have "v = nth_or_undef es i" by simp
  then show ?thesis
    using size_in_list [of v es] JArr by (auto simp: nth_or_undef_def split: if_splits)
next
  case (JObj fs)
  assume "arg_at a i = Inr v"
  with JObj have "v = field fs (nat_to_str i)" by simp
  then show ?thesis
    using size_in_fields [of fs "nat_to_str i" v] JObj
    by (auto simp: field_def split: option.splits)
qed (auto split: if_splits)

lemma size_iter_at: "iter_at a i = Inr v \<Longrightarrow> size v < Suc (size a)"
  using size_arg_at [of a i v] by (cases a) auto

lemma size_as_array: "as_array a = Inr es \<Longrightarrow> e \<in> set es \<Longrightarrow> size e < Suc (size a)"
  using size_in_list [of e es] by (cases a) auto

section \<open>Variables\<close>

text \<open>\<open>resolveVar\<close>: walk a dotted path; a nullish cursor before a step gives \<open>undefined\<close>.\<close>

fun walk_path :: "jval \<Rightarrow> string list \<Rightarrow> jval" where
  "walk_path cursor [] = cursor"
| "walk_path cursor (p # ps) =
     (case js_get cursor p of Inl _ \<Rightarrow> JUndef | Inr v \<Rightarrow> walk_path v ps)"

type_synonym rule_ctx = "(string \<times> jval) list"

definition resolveVar :: "string \<Rightarrow> rule_ctx \<Rightarrow> jval" where
  "resolveVar path ctx =
     (if path = [] then JUndef else walk_path (JObj ctx) (split_on (CHR ''.'') path))"

section \<open>Evaluation\<close>

function evaluateAny :: "rule_ctx \<Rightarrow> jval \<Rightarrow> (js_error, jval) result"
  and evalOp :: "rule_ctx \<Rightarrow> string \<Rightarrow> jval \<Rightarrow> (js_error, jval) result"
  and resolveBinary ::
    "rule_ctx \<Rightarrow> jval \<Rightarrow> (jval \<Rightarrow> jval \<Rightarrow> bool) \<Rightarrow> (js_error, jval) result"
where
  "evaluateAny ctx e =
     (case e of
        JArr es \<Rightarrow> map_r JArr (mapM_r (\<lambda>x. evaluateAny ctx x) es)
      | JObj fs \<Rightarrow>
          (case fs of
             [(op, args)] \<Rightarrow> evalOp ctx op args
           | _ \<Rightarrow> Inl (RuleError ''Invalid rule expression''))
      | _ \<Rightarrow> Inr e)"
| "evalOp ctx op args =
     (if op = ''var'' then Inr (resolveVar (js_to_string args) ctx)
      else if op = ''=='' then resolveBinary ctx args loose_eq
      else if op = ''!='' then resolveBinary ctx args (\<lambda>a b. \<not> loose_eq a b)
      else if op = ''>'' then resolveBinary ctx args (\<lambda>a b. num_lt (js_to_num b) (js_to_num a))
      else if op = ''>='' then resolveBinary ctx args (\<lambda>a b. num_le (js_to_num b) (js_to_num a))
      else if op = ''<'' then resolveBinary ctx args (\<lambda>a b. num_lt (js_to_num a) (js_to_num b))
      else if op = ''<='' then resolveBinary ctx args (\<lambda>a b. num_le (js_to_num a) (js_to_num b))
      else if op = ''and'' then
        bind_r (as_array args) (\<lambda>es.
          map_r JBool (every_r (\<lambda>e. map_r truthy (evaluateAny ctx e)) es))
      else if op = ''or'' then
        bind_r (as_array args) (\<lambda>es.
          map_r JBool (some_r (\<lambda>e. map_r truthy (evaluateAny ctx e)) es))
      else if op = ''not'' then map_r (\<lambda>v. JBool (\<not> truthy v)) (evaluateAny ctx args)
      else if op = ''in'' then
        bind_r (iter_at args 0) (\<lambda>needle.
        bind_r (iter_at args 1) (\<lambda>haystack.
        bind_r (evaluateAny ctx needle) (\<lambda>n.
        bind_r (evaluateAny ctx haystack) (\<lambda>h.
          Inr (JBool (case h of JArr vs \<Rightarrow> list_ex (\<lambda>v. loose_eq v n) vs | _ \<Rightarrow> False))))))
      else Inl (RuleError ''Unknown rule operator''))"
| "resolveBinary ctx args cmp =
     bind_r (arg_at args 0) (\<lambda>a0.
     bind_r (evaluateAny ctx a0) (\<lambda>a.
     bind_r (arg_at args 1) (\<lambda>a1.
     bind_r (evaluateAny ctx a1) (\<lambda>b.
       Inr (JBool (cmp a b))))))"
  by pat_completeness auto
termination
proof (relation "measures
    [\<lambda>x. (case x of Inl (_, e) \<Rightarrow> 3 * size e
                  | Inr (Inl (_, _, a)) \<Rightarrow> 3 * size a + 5
                  | Inr (Inr (_, a, _)) \<Rightarrow> 3 * size a + 4)]", goal_cases)
qed (auto dest: size_in_list size_arg_at size_iter_at size_as_array)

declare evaluateAny.simps [simp del] evalOp.simps [simp del] resolveBinary.simps [simp del]

lemma evaluateAny_eqs:
  "evaluateAny ctx JUndef = Inr JUndef"
  "evaluateAny ctx JNull = Inr JNull"
  "evaluateAny ctx (JBool b) = Inr (JBool b)"
  "evaluateAny ctx (JNum n) = Inr (JNum n)"
  "evaluateAny ctx (JStr s) = Inr (JStr s)"
  "evaluateAny ctx (JArr es) = map_r JArr (mapM_r (evaluateAny ctx) es)"
  "evaluateAny ctx (JObj [(op, args)]) = evalOp ctx op args"
  "length fs \<noteq> 1 \<Longrightarrow> evaluateAny ctx (JObj fs) = Inl (RuleError ''Invalid rule expression'')"
  by (subst evaluateAny.simps, force split: list.splits)+

text \<open>The operator table of \<open>evalOp\<close>, one equation per operator.\<close>

lemma evalOp_eqs:
  "evalOp ctx ''var'' args = Inr (resolveVar (js_to_string args) ctx)"
  "evalOp ctx ''=='' args = resolveBinary ctx args loose_eq"
  "evalOp ctx ''!='' args = resolveBinary ctx args (\<lambda>a b. \<not> loose_eq a b)"
  "evalOp ctx ''>'' args = resolveBinary ctx args (\<lambda>a b. num_lt (js_to_num b) (js_to_num a))"
  "evalOp ctx ''>='' args = resolveBinary ctx args (\<lambda>a b. num_le (js_to_num b) (js_to_num a))"
  "evalOp ctx ''<'' args = resolveBinary ctx args (\<lambda>a b. num_lt (js_to_num a) (js_to_num b))"
  "evalOp ctx ''<='' args = resolveBinary ctx args (\<lambda>a b. num_le (js_to_num a) (js_to_num b))"
  "evalOp ctx ''and'' args = bind_r (as_array args) (\<lambda>es.
     map_r JBool (every_r (\<lambda>e. map_r truthy (evaluateAny ctx e)) es))"
  "evalOp ctx ''or'' args = bind_r (as_array args) (\<lambda>es.
     map_r JBool (some_r (\<lambda>e. map_r truthy (evaluateAny ctx e)) es))"
  "evalOp ctx ''not'' args = map_r (\<lambda>v. JBool (\<not> truthy v)) (evaluateAny ctx args)"
  by (subst evalOp.simps, simp)+

lemma evalOp_in:
  "evalOp ctx ''in'' args =
     bind_r (iter_at args 0) (\<lambda>needle.
     bind_r (iter_at args 1) (\<lambda>haystack.
     bind_r (evaluateAny ctx needle) (\<lambda>n.
     bind_r (evaluateAny ctx haystack) (\<lambda>h.
       Inr (JBool (case h of JArr vs \<Rightarrow> list_ex (\<lambda>v. loose_eq v n) vs | _ \<Rightarrow> False))))))"
  by (subst evalOp.simps) simp

lemma evalOp_unknown:
  "op \<notin> {''var'', ''=='', ''!='', ''>'', ''>='', ''<'', ''<='', ''and'', ''or'', ''not'', ''in''} \<Longrightarrow>
     evalOp ctx op args = Inl (RuleError ''Unknown rule operator'')"
  by (subst evalOp.simps) simp

definition evaluate :: "jval \<Rightarrow> rule_ctx \<Rightarrow> (js_error, bool) result" where
  "evaluate e ctx = map_r truthy (evaluateAny ctx e)"

section \<open>Inspection of expressions\<close>

text \<open>\<open>hasStringHaystack\<close>: some \<open>in\<close> has a haystack that is not an array.\<close>

fun hasStringHaystack :: "jval \<Rightarrow> bool" where
  "hasStringHaystack (JArr es) = list_ex hasStringHaystack es"
| "hasStringHaystack (JObj fs) =
     list_ex (\<lambda>(op, args).
       if op = ''var'' then False
       else if op = ''in'' \<and> (case args of
                 JArr es \<Rightarrow> (case nth_or_undef es 1 of JArr _ \<Rightarrow> False | _ \<Rightarrow> True)
               | _ \<Rightarrow> False) then True
       else hasStringHaystack args) fs"
| "hasStringHaystack _ = False"

text \<open>\<open>collectVarPaths\<close>: every string argument of a \<open>var\<close>.\<close>

fun collectVarPaths :: "jval \<Rightarrow> string list" where
  "collectVarPaths (JArr es) = concat (map collectVarPaths es)"
| "collectVarPaths (JObj fs) =
     concat (map (\<lambda>(op, args).
       if op = ''var'' then (case args of JStr s \<Rightarrow> [s] | _ \<Rightarrow> [])
       else collectVarPaths args) fs)"
| "collectVarPaths _ = []"

text \<open>Every \<open>var\<close> takes a string (what save-time validation enforces).\<close>

fun string_vars :: "jval \<Rightarrow> bool" where
  "string_vars (JArr es) = list_all string_vars es"
| "string_vars (JObj fs) =
     list_all (\<lambda>(op, args).
       if op = ''var'' then (case args of JStr s \<Rightarrow> True | _ \<Rightarrow> False)
       else string_vars args) fs"
| "string_vars _ = True"

section \<open>An expression reads nothing but its collected paths\<close>

lemma sub_element:
  assumes "e \<in> set es"
  shows "set (collectVarPaths e) \<subseteq> set (collectVarPaths (JArr es))"
    and "string_vars (JArr es) \<Longrightarrow> string_vars e"
  using assms by (auto simp: list_all_iff)

lemma sub_field:
  assumes "map_of fs k = Some v" and "k \<noteq> ''var''"
  shows "set (collectVarPaths v) \<subseteq> set (collectVarPaths (JObj fs))"
    and "string_vars (JObj fs) \<Longrightarrow> string_vars v"
  using map_of_SomeD [OF assms(1)] assms(2) by (auto simp: list_all_iff)

lemma nat_to_str_last:
  obtains s and d :: nat where "nat_to_str n = s @ [char_of (48 + d)]" and "d < 10"
proof (cases "n < 10")
  case True
  then have "nat_to_str n = [] @ [char_of (48 + n)]" by (subst nat_to_str.simps) simp
  with True that show thesis by blast
next
  case False
  then have "nat_to_str n = nat_to_str (n div 10) @ [char_of (48 + n mod 10)]"
    by (subst nat_to_str.simps) simp
  moreover have "n mod 10 < 10" by simp
  ultimately show thesis using that by blast
qed

lemma nat_to_str_not_var: "nat_to_str n \<noteq> ''var''"
proof -
  obtain s and d :: nat where s: "nat_to_str n = s @ [char_of (48 + d)]" and d: "d < 10"
    by (rule nat_to_str_last)
  have "nat_to_str n = ''var'' \<Longrightarrow> of_char (char_of (48 + d) :: char) = (114 :: nat)"
    using s by simp
  with d show ?thesis by auto
qed

lemma sub_arg_at:
  assumes "arg_at a i = Inr v"
  shows "set (collectVarPaths v) \<subseteq> set (collectVarPaths a)"
    and "string_vars a \<Longrightarrow> string_vars v"
proof (atomize (full), cases a)
  case (JArr es)
  with assms have "v = nth_or_undef es i" by simp
  then have "v \<in> set es \<or> v = JUndef" by (auto simp: nth_or_undef_def)
  with JArr show "set (collectVarPaths v) \<subseteq> set (collectVarPaths a) \<and> (string_vars a \<longrightarrow> string_vars v)"
    using sub_element [of v es] by auto
next
  case (JObj fs)
  with assms have "v = field fs (nat_to_str i)" by simp
  then have "v = JUndef \<or> map_of fs (nat_to_str i) = Some v"
    by (auto simp: field_def split: option.splits)
  with JObj show "set (collectVarPaths v) \<subseteq> set (collectVarPaths a) \<and> (string_vars a \<longrightarrow> string_vars v)"
    using sub_field [of fs "nat_to_str i" v] nat_to_str_not_var [of i]
    by (elim disjE) (simp, simp only: HOL.simp_thms, blast)
qed (use assms in \<open>auto split: if_splits\<close>)

lemma sub_iter_at:
  assumes "iter_at a i = Inr v"
  shows "set (collectVarPaths v) \<subseteq> set (collectVarPaths a)"
    and "string_vars a \<Longrightarrow> string_vars v"
  using sub_arg_at [of a i v] assms by (cases a; auto)+

lemma sub_as_array:
  assumes "as_array a = Inr es" and "e \<in> set es"
  shows "set (collectVarPaths e) \<subseteq> set (collectVarPaths a)"
    and "string_vars a \<Longrightarrow> string_vars e"
  using assms sub_element [of e es] by (cases a; auto)+

abbreviation agree_on :: "rule_ctx \<Rightarrow> rule_ctx \<Rightarrow> string list \<Rightarrow> bool" where
  "agree_on c c' ps \<equiv> (\<forall>p \<in> set ps. resolveVar p c = resolveVar p c')"

text \<open>
  The operands of an operator are its argument itself and the elements it indexes: whatever
  an operator evaluates is one of these.
\<close>

definition operand :: "jval \<Rightarrow> jval \<Rightarrow> bool" where
  "operand args v = (v = args \<or> (\<exists>i. arg_at args i = Inr v))"

lemma operand_iter_at: "iter_at a i = Inr v \<Longrightarrow> operand a v"
proof -
  assume "iter_at a i = Inr v"
  then have "arg_at a i = Inr v" by (cases a) simp_all
  then show ?thesis unfolding operand_def by blast
qed

lemma operand_as_array: "as_array a = Inr es \<Longrightarrow> e \<in> set es \<Longrightarrow> operand a e"
  unfolding operand_def by (cases a) (auto simp: in_set_conv_nth nth_or_undef_def)

lemma operand_size: "operand a v \<Longrightarrow> size v < Suc (size a)"
  using size_arg_at [of a _ v] by (auto simp: operand_def)

lemma operand_paths:
  assumes "operand a v"
  shows "set (collectVarPaths v) \<subseteq> set (collectVarPaths a)"
    and "string_vars a \<Longrightarrow> string_vars v"
  using assms sub_arg_at [of a _ v] by (auto simp: operand_def)

lemma resolveBinary_cong_ctx:
  assumes "\<And>v. operand args v \<Longrightarrow> evaluateAny ctx v = evaluateAny ctx' v"
  shows "resolveBinary ctx args cmp = resolveBinary ctx' args cmp"
proof -
  have eq: "evaluateAny ctx v = evaluateAny ctx' v" if "arg_at args i = Inr v" for i v
    by (rule assms) (use that in \<open>auto simp: operand_def\<close>)
  show ?thesis
    by (cases "arg_at args 0"; cases "arg_at args 1") (simp_all add: resolveBinary.simps eq)
qed

lemma evalOp_cong_ctx:
  assumes "op \<noteq> ''var''" and eq: "\<And>v. operand args v \<Longrightarrow> evaluateAny ctx v = evaluateAny ctx' v"
  shows "evalOp ctx op args = evalOp ctx' op args"
proof -
  note bin = resolveBinary_cong_ctx [where ctx = ctx and ctx' = ctx' and args = args, OF eq]
  have junct: "bind_r (as_array args) (\<lambda>es. map_r JBool (q (\<lambda>e. map_r truthy (evaluateAny ctx e)) es)) =
      bind_r (as_array args) (\<lambda>es. map_r JBool (q (\<lambda>e. map_r truthy (evaluateAny ctx' e)) es))"
    if "\<And>es f g. (\<And>x. x \<in> set es \<Longrightarrow> f x = g x) \<Longrightarrow> q f es = q g es"
    for q :: "(jval \<Rightarrow> (js_error, bool) result) \<Rightarrow> jval list \<Rightarrow> (js_error, bool) result"
  proof (rule bind_r_cong [OF refl])
    fix es assume es: "as_array args = Inr es"
    have "q (\<lambda>e. map_r truthy (evaluateAny ctx e)) es = q (\<lambda>e. map_r truthy (evaluateAny ctx' e)) es"
      by (rule that) (simp add: eq operand_as_array [OF es])
    then show "map_r JBool (q (\<lambda>e. map_r truthy (evaluateAny ctx e)) es) =
        map_r JBool (q (\<lambda>e. map_r truthy (evaluateAny ctx' e)) es)" by simp
  qed
  have self: "evaluateAny ctx args = evaluateAny ctx' args" by (rule eq) (simp add: operand_def)
  have mem: "evalOp ctx ''in'' args = evalOp ctx' ''in'' args"
    unfolding evalOp_in by (intro bind_r_cong refl eq) (auto intro: operand_iter_at)
  have "evalOp ctx ''and'' args = evalOp ctx' ''and'' args"
    unfolding evalOp_eqs by (rule junct, rule every_r_cong [OF refl]) blast
  moreover have "evalOp ctx ''or'' args = evalOp ctx' ''or'' args"
    unfolding evalOp_eqs by (rule junct, rule some_r_cong [OF refl]) blast
  moreover have "evalOp ctx ''not'' args = evalOp ctx' ''not'' args"
    unfolding evalOp_eqs self ..
  moreover have "evalOp ctx ''=='' args = evalOp ctx' ''=='' args"
      and "evalOp ctx ''!='' args = evalOp ctx' ''!='' args"
      and "evalOp ctx ''>'' args = evalOp ctx' ''>'' args"
      and "evalOp ctx ''>='' args = evalOp ctx' ''>='' args"
      and "evalOp ctx ''<'' args = evalOp ctx' ''<'' args"
      and "evalOp ctx ''<='' args = evalOp ctx' ''<='' args"
    unfolding evalOp_eqs by (rule bin; assumption)+
  moreover have "op \<notin> {''and'', ''or'', ''not'', ''in'', ''=='', ''!='', ''>'', ''>='', ''<'', ''<=''} \<Longrightarrow>
      evalOp ctx op args = evalOp ctx' op args"
    using assms(1) by (simp only: evalOp_unknown insert_iff empty_iff de_Morgan_disj simp_thms)
  ultimately show ?thesis using mem by (simp only: insert_iff empty_iff de_Morgan_disj simp_thms) metis
qed

text \<open>Two contexts that agree on the collected paths give the same value.\<close>

lemma eval_agree:
  "string_vars e \<Longrightarrow> agree_on ctx ctx' (collectVarPaths e) \<Longrightarrow>
     evaluateAny ctx e = evaluateAny ctx' e"
proof (induction e rule: measure_induct_rule [of size])
  case (less e)
  show ?case
  proof (cases e)
    case (JArr es)
    have "evaluateAny ctx x = evaluateAny ctx' x" if x: "x \<in> set es" for x
      using less.IH [of x] less.prems sub_element [OF x] size_in_list [OF x] JArr by auto
    then have "mapM_r (evaluateAny ctx) es = mapM_r (evaluateAny ctx') es"
      by (intro mapM_r_cong) auto
    then show ?thesis by (simp add: evaluateAny_eqs JArr)
  next
    case (JObj fs)
    show ?thesis
    proof (cases "\<exists>op args. fs = [(op, args)]")
      case True
      then obtain op args where fs: "fs = [(op, args)]" by blast
      show ?thesis
      proof (cases "op = ''var''")
        case True
        then obtain s where "args = JStr s"
          using less.prems(1) JObj fs by (auto split: jval.splits)
        with True less.prems(2) show ?thesis by (simp add: JObj fs evaluateAny_eqs evalOp_eqs)
      next
        case False
        have "evaluateAny ctx v = evaluateAny ctx' v" if v: "operand args v" for v
          using less.IH [of v] less.prems operand_paths [OF v] operand_size [OF v] JObj fs False
          by auto
        with False have "evalOp ctx op args = evalOp ctx' op args" by (rule evalOp_cong_ctx)
        then show ?thesis by (simp add: evaluateAny_eqs JObj fs)
      qed
    next
      case False
      then have "length fs \<noteq> 1" by (auto simp: length_Suc_conv)
      then show ?thesis by (simp add: evaluateAny_eqs JObj)
    qed
  qed (simp_all add: evaluateAny_eqs)
qed

section \<open>Paths and the \<open>features\<close> property\<close>

definition feature_path :: "string \<Rightarrow> bool" where
  "feature_path p = (p = ''features'' \<or> starts_with p ''features.'')"

lemma hd_split_on: "hd (split_on d s) = takeWhile (\<lambda>c. c \<noteq> d) s"
  by (induction s) (auto split: list.splits dest: arg_cong [where f = hd])

lemma split_on_hd_features:
  assumes "hd (split_on (CHR ''.'') p) = ''features''"
  shows "feature_path p"
proof -
  have tw: "takeWhile (\<lambda>c. c \<noteq> CHR ''.'') p = ''features''" using assms by (simp add: hd_split_on)
  have p: "p = ''features'' @ dropWhile (\<lambda>c. c \<noteq> CHR ''.'') p"
    using takeWhile_dropWhile_id [of "\<lambda>c. c \<noteq> CHR ''.''" p] tw by simp
  show ?thesis
  proof (cases "dropWhile (\<lambda>c. c \<noteq> CHR ''.'') p")
    case Nil
    with p show ?thesis by (simp add: feature_path_def)
  next
    case (Cons c cs)
    then have "c = CHR ''.''" using hd_dropWhile [of "\<lambda>c. c \<noteq> CHR ''.''" p] by auto
    with p Cons have "p = ''features.'' @ cs" by simp
    then show ?thesis unfolding feature_path_def by (metis starts_with_append)
  qed
qed

text \<open>A path outside \<open>features\<close> resolves the same whatever that property holds.\<close>

lemma resolveVar_frame:
  assumes "\<not> feature_path p" and "\<And>k. k \<noteq> ''features'' \<Longrightarrow> field c k = field c' k"
  shows "resolveVar p c = resolveVar p c'"
proof -
  obtain w ws where sp: "split_on (CHR ''.'') p = w # ws"
    by (metis list.exhaust split_on_nonempty)
  then have "w \<noteq> ''features''"
    using assms(1) split_on_hd_features [of p] by auto
  then show ?thesis by (simp add: resolveVar_def sp assms(2))
qed

end
