(* ===== verification/RuleValidation.thy ===== *)
theory RuleValidation
  imports RuleEvaluator
begin

text \<open>
  \<open>src/shared/rules/rule-validation.ts\<close>: the check a rule expression passes before it is
  saved. \<open>walk\<close> threads the problem list and the node budget; messages are the constructors
  of \<open>rule_problem\<close>. The names of the feature catalogue are an argument.
\<close>

section \<open>The validator\<close>

datatype rule_stage = PRE | POST

datatype rule_problem =
    ExceedsNodes
  | TooDeep
  | NotSingleOperator "string list"
  | UnknownOperator string
  | VarTakesPath
  | UnknownFeature string
  | UnknownVariable string
  | InTakesPair
  | InArrayHaystack
  | HaystackTooLong

definition RULE_OPERATORS :: "string list" where
  "RULE_OPERATORS =
     [''var'', ''=='', ''!='', ''>'', ''>='', ''<'', ''<='', ''and'', ''or'', ''not'', ''in'']"

definition FEATURE_PREFIX :: string where "FEATURE_PREFIX = ''features.''"
definition MAX_DEPTH :: nat where "MAX_DEPTH = 32"
definition MAX_NODES :: nat where "MAX_NODES = 500"
definition MAX_HAYSTACK :: nat where "MAX_HAYSTACK = 200"

definition REQUEST_VARS :: "string list" where
  "REQUEST_VARS =
     [''transaction_id'', ''sender_id'', ''receiver_id'', ''amount'', ''transaction_type'',
      ''timestamp'', ''segment'', ''tenant_id'', ''ip_country'', ''transaction_country'',
      ''destination_country'', ''ip_is_vpn'', ''device_is_trusted'', ''is_authenticated'',
      ''session_to_txn_seconds'', ''account_age_days'', ''channel'', ''currency'']"

definition POST_ONLY_VARS :: "string list" where
  "POST_ONLY_VARS = [''ml_score'', ''ml_decision'']"

definition knownVars :: "string list \<Rightarrow> rule_stage \<Rightarrow> string list" where
  "knownVars catalog stage =
     REQUEST_VARS @ (if stage = POST then POST_ONLY_VARS else []) @
     map (\<lambda>n. FEATURE_PREFIX @ n) catalog"

definition var_problem :: "string \<Rightarrow> rule_problem" where
  "var_problem p =
     (if starts_with p FEATURE_PREFIX then UnknownFeature (drop (length FEATURE_PREFIX) p)
      else UnknownVariable p)"

type_synonym walk_state = "rule_problem list \<times> nat"

definition haystack_problems :: "jval \<Rightarrow> rule_problem list" where
  "haystack_problems h =
     (case h of
        JArr hs \<Rightarrow> if MAX_HAYSTACK < length hs then [HaystackTooLong] else []
      | _ \<Rightarrow> [InArrayHaystack])"

definition var_problems :: "string list \<Rightarrow> jval \<Rightarrow> rule_problem list" where
  "var_problems allowed args =
     (case args of
        JStr p \<Rightarrow> if p = [] then [VarTakesPath]
                  else if p \<in> set allowed then [] else [var_problem p]
      | _ \<Rightarrow> [VarTakesPath])"

fun walk :: "string list \<Rightarrow> nat \<Rightarrow> jval \<Rightarrow> walk_state \<Rightarrow> walk_state"
  and walk_each :: "string list \<Rightarrow> nat \<Rightarrow> jval list \<Rightarrow> walk_state \<Rightarrow> walk_state" where
  "walk allowed depth e (ps, n0) =
     (let n = Suc n0 in
      if MAX_NODES < n then (ps @ [ExceedsNodes], n)
      else if MAX_DEPTH < depth then (ps @ [TooDeep], n)
      else case e of
        JArr es \<Rightarrow> walk_each allowed depth es (ps, n)
      | JObj [(op, args)] \<Rightarrow>
          (if op \<notin> set RULE_OPERATORS then (ps @ [UnknownOperator op], n)
           else if op = ''var'' then (ps @ var_problems allowed args, n)
           else if op = ''in'' then
             (case args of
                JArr [needle, haystack] \<Rightarrow>
                  walk allowed (Suc depth) haystack
                    (walk allowed (Suc depth) needle (ps @ haystack_problems haystack, n))
              | _ \<Rightarrow> (ps @ [InTakesPair], n))
           else walk allowed (Suc depth) args (ps, n))
      | JObj fs \<Rightarrow> (ps @ [NotSingleOperator (map fst fs)], n)
      | _ \<Rightarrow> (ps, n))"
| "walk_each allowed depth [] st = st"
| "walk_each allowed depth (e # es) st = walk_each allowed depth es (walk allowed depth e st)"

declare walk.simps [simp del]

definition validateExpression ::
    "string list \<Rightarrow> jval \<Rightarrow> rule_stage \<Rightarrow> (rule_problem list, unit) result" where
  "validateExpression catalog e stage =
     (let (problems, _) = walk (knownVars catalog stage) 0 e ([], 0)
      in if problems \<noteq> [] then Inl problems else Inr ())"

section \<open>What validation promises\<close>

text \<open>
  The specification: a shape, a nesting depth and a node count, each defined on its own.
\<close>

fun wf_expr :: "string list \<Rightarrow> jval \<Rightarrow> bool" where
  "wf_expr allowed (JArr es) = list_all (wf_expr allowed) es"
| "wf_expr allowed (JObj [(op, args)]) =
     (op \<in> set RULE_OPERATORS \<and>
      (if op = ''var'' then (case args of JStr p \<Rightarrow> p \<noteq> [] \<and> p \<in> set allowed | _ \<Rightarrow> False)
       else if op = ''in'' then
         (case args of
            JArr [needle, JArr hs] \<Rightarrow>
              length hs \<le> MAX_HAYSTACK \<and> wf_expr allowed needle \<and> wf_expr allowed (JArr hs)
          | _ \<Rightarrow> False)
       else wf_expr allowed args))"
| "wf_expr allowed (JObj fs) = False"
| "wf_expr allowed _ = True"

fun expr_depth :: "jval \<Rightarrow> nat" where
  "expr_depth (JArr es) = fold max (map expr_depth es) 0"
| "expr_depth (JObj [(op, args)]) =
     (if op = ''var'' then 0
      else if op = ''in'' then
        (case args of JArr [a, b] \<Rightarrow> Suc (max (expr_depth a) (expr_depth b)) | _ \<Rightarrow> 0)
      else Suc (expr_depth args))"
| "expr_depth _ = 0"

fun node_count :: "jval \<Rightarrow> nat" where
  "node_count (JArr es) = Suc (sum_list (map node_count es))"
| "node_count (JObj [(op, args)]) =
     (if op = ''var'' then 1
      else if op = ''in'' then
        (case args of JArr [a, b] \<Rightarrow> Suc (node_count a + node_count b) | _ \<Rightarrow> 1)
      else Suc (node_count args))"
| "node_count _ = 1"

text \<open>
  A pass over an expression in an arbitrary state either adds problems, or adds none and
  advances the counter by the node count.
\<close>

definition clean_pass :: "walk_state \<Rightarrow> walk_state \<Rightarrow> bool \<Rightarrow> nat \<Rightarrow> bool" where
  "clean_pass st st' ok k =
     (if ok then st' = (fst st, snd st + k)
      else (\<exists>qs. qs \<noteq> [] \<and> fst st' = fst st @ qs))"

abbreviation accepts :: "string list \<Rightarrow> nat \<Rightarrow> jval \<Rightarrow> nat \<Rightarrow> bool" where
  "accepts allowed d e n \<equiv>
     wf_expr allowed e \<and> d + expr_depth e \<le> MAX_DEPTH \<and> n + node_count e \<le> MAX_NODES"

lemma clean_seq:
  assumes "clean_pass st st1 ok1 k1" and "clean_pass st1 st2 ok2 k2"
  shows "clean_pass st st2 (ok1 \<and> ok2) (k1 + k2)"
  using assms by (auto simp: clean_pass_def split: if_splits)

lemma clean_seqI:
  assumes "clean_pass st st1 ok1 k1" and "clean_pass st1 st2 ok2 k2"
    and "k = k1 + k2" and "ok1 \<Longrightarrow> st1 = (fst st, snd st + k1) \<Longrightarrow> ok = ok2" and "\<not> ok1 \<Longrightarrow> \<not> ok"
  shows "clean_pass st st2 ok k"
proof -
  have "clean_pass st st2 (ok1 \<and> ok2) k" using clean_seq [OF assms(1,2)] assms(3) by simp
  moreover have "ok1 \<Longrightarrow> st1 = (fst st, snd st + k1)" using assms(1) by (simp add: clean_pass_def)
  then have "(ok1 \<and> ok2) = ok" using assms(4,5) by blast
  ultimately show ?thesis by simp
qed

lemma clean_problem: "clean_pass (ps, n) (ps @ [p], n') False k"
  by (simp add: clean_pass_def)

lemma fold_max_le: "fold max xs (a::nat) \<le> m \<longleftrightarrow> a \<le> m \<and> (\<forall>x \<in> set xs. x \<le> m)"
  by (induction xs arbitrary: a) auto

lemma add_fold_max_le:
  "d \<le> m \<Longrightarrow> d + fold max xs 0 \<le> (m::nat) \<longleftrightarrow> (\<forall>x \<in> set xs. d + x \<le> m)"
  using fold_max_le [of xs 0 "m - d"] by (auto simp: le_diff_conv2 add.commute)

lemma walk_each_clean:
  assumes "\<And>e st. e \<in> set es \<Longrightarrow>
      clean_pass st (walk allowed d e st) (accepts allowed d e (snd st)) (node_count e)"
  shows "clean_pass st (walk_each allowed d es st)
     ((\<forall>e \<in> set es. wf_expr allowed e \<and> d + expr_depth e \<le> MAX_DEPTH) \<and>
      (es = [] \<or> snd st + sum_list (map node_count es) \<le> MAX_NODES))
     (sum_list (map node_count es))"
  using assms
proof (induction es arbitrary: st)
  case Nil
  then show ?case by (simp add: clean_pass_def)
next
  case (Cons e es)
  let ?st1 = "walk allowed d e st"
  have head: "clean_pass st ?st1 (accepts allowed d e (snd st)) (node_count e)"
    using Cons.prems by simp
  have tail: "clean_pass ?st1 (walk_each allowed d es ?st1)
     ((\<forall>e \<in> set es. wf_expr allowed e \<and> d + expr_depth e \<le> MAX_DEPTH) \<and>
      (es = [] \<or> snd ?st1 + sum_list (map node_count es) \<le> MAX_NODES))
     (sum_list (map node_count es))"
    by (rule Cons.IH) (use Cons.prems in simp)
  show ?case
    by (simp del: snd_conv, rule clean_seqI [OF head tail]) (auto simp: add.assoc)
qed

definition in_budget :: "nat \<Rightarrow> nat \<Rightarrow> bool" where
  "in_budget d n = (n < MAX_NODES \<and> d \<le> MAX_DEPTH)"

lemma operators_mem [simp]: "''var'' \<in> set RULE_OPERATORS" "''in'' \<in> set RULE_OPERATORS"
  by (simp_all add: RULE_OPERATORS_def)

lemma walk_leaf:
  assumes "in_budget d n" and "\<not> is_obj_like e"
  shows "walk allowed d e (ps, n) = (ps, Suc n)"
  using assms by (cases e) (simp_all add: in_budget_def walk.simps [of _ _ _ ps n])

lemma walk_array:
  "in_budget d n \<Longrightarrow> walk allowed d (JArr es) (ps, n) = walk_each allowed d es (ps, Suc n)"
  by (simp add: in_budget_def walk.simps [of _ _ _ ps n])

lemma walk_not_single:
  "in_budget d n \<Longrightarrow> length fs \<noteq> 1 \<Longrightarrow>
     walk allowed d (JObj fs) (ps, n) = (ps @ [NotSingleOperator (map fst fs)], Suc n)"
  by (cases fs rule: remdups_adj.cases) (simp_all add: in_budget_def walk.simps [of _ _ _ ps n] split: prod.splits)

lemma walk_operator:
  "in_budget d n \<Longrightarrow> walk allowed d (JObj [(op, args)]) (ps, n) =
     (if op \<notin> set RULE_OPERATORS then (ps @ [UnknownOperator op], Suc n)
      else if op = ''var'' then (ps @ var_problems allowed args, Suc n)
      else if op = ''in'' then
        (case args of
           JArr [needle, haystack] \<Rightarrow>
             walk allowed (Suc d) haystack
               (walk allowed (Suc d) needle (ps @ haystack_problems haystack, Suc n))
         | _ \<Rightarrow> (ps @ [InTakesPair], Suc n))
      else walk allowed (Suc d) args (ps, Suc n))"
  by (simp add: in_budget_def walk.simps [of _ _ _ ps n])

lemma node_count_pos: "1 \<le> node_count e"
  by (induction e rule: node_count.induct) (auto split: jval.splits list.splits)

lemma fold_max_attained: "fold max xs 0 \<le> (m::nat) \<longleftrightarrow> (\<forall>x \<in> set xs. x \<le> m)"
  using fold_max_le [of xs 0 m] by simp

lemma clean_in:
  assumes "\<And>st. clean_pass st (walk allowed d x st) (accepts allowed d x (snd st)) (node_count x)"
    and "\<And>st. clean_pass st (walk allowed d h st) (accepts allowed d h (snd st)) (node_count h)"
  shows "clean_pass (ps, n) (walk allowed d h (walk allowed d x (ps @ haystack_problems h, n)))
    (haystack_problems h = [] \<and> wf_expr allowed x \<and> wf_expr allowed h \<and>
     d + expr_depth x \<le> MAX_DEPTH \<and> d + expr_depth h \<le> MAX_DEPTH \<and>
     n + (node_count x + node_count h) \<le> MAX_NODES) (node_count x + node_count h)"
proof -
  let ?st1 = "walk allowed d x (ps @ haystack_problems h, n)"
  have hay: "clean_pass (ps, n) (ps @ haystack_problems h, n) (haystack_problems h = []) 0"
    by (simp add: clean_pass_def)
  have needle: "clean_pass (ps, n) ?st1 (haystack_problems h = [] \<and> accepts allowed d x n) (node_count x)"
    by (rule clean_seqI [OF hay assms(1)]) simp_all
  show ?thesis
    by (rule clean_seqI [OF needle assms(2)]) (auto simp: add.assoc)
qed

lemma clean_enter: "clean_pass (ps, Suc n) st' ok k \<Longrightarrow> clean_pass (ps, n) st' ok (Suc k)"
  by (simp add: clean_pass_def split: if_splits)

lemma haystack_ok: "haystack_problems h = [] \<longleftrightarrow> (\<exists>hs. h = JArr hs \<and> length hs \<le> MAX_HAYSTACK)"
  by (cases h) (auto simp: haystack_problems_def)

lemma wf_in: "wf_expr allowed (JObj [(''in'', JArr [x, h])]) \<longleftrightarrow>
    haystack_problems h = [] \<and> wf_expr allowed x \<and> wf_expr allowed h"
  by (cases h) (auto simp: haystack_problems_def)

lemma not_pair:
  assumes "\<nexists>x h. args = JArr [x, h]"
  shows "\<not> wf_expr allowed (JObj [(''in'', args)])"
    and "(case args of JArr [x, h] \<Rightarrow> f x h | _ \<Rightarrow> g) = g"
proof (atomize (full), cases args)
  case (JArr es)
  with assms consider "es = []" | x where "es = [x]" | x y z zs where "es = x # y # z # zs"
    by (metis list.exhaust)
  then show "\<not> wf_expr allowed (JObj [(''in'', args)]) \<and>
      (case args of JArr [x, h] \<Rightarrow> f x h | _ \<Rightarrow> g) = g"
    unfolding JArr by cases (simp_all split: jval.splits)
qed simp_all

lemma var_problems_ok: "var_problems allowed args = [] \<longleftrightarrow> wf_expr allowed (JObj [(''var'', args)])"
  by (cases args) (auto simp: var_problems_def)

lemma walk_clean:
  "clean_pass st (walk allowed d e st) (accepts allowed d e (snd st)) (node_count e)"
proof (induction e arbitrary: d st rule: measure_induct_rule [of size])
  case (less e)
  obtain ps n where st: "st = (ps, n)" by (cases st)
  show ?case
  proof (cases "in_budget d n")
    case False
    then have "\<not> accepts allowed d e (snd st)" using st node_count_pos [of e] by (auto simp: in_budget_def)
    with False show ?thesis by (auto simp: st walk.simps clean_pass_def Let_def in_budget_def)
  next
    case True
    then have bud: "n < MAX_NODES" "d \<le> MAX_DEPTH" by (simp_all add: in_budget_def)
    show ?thesis
    proof (cases "is_obj_like e")
      case False
      with bud walk_leaf [OF True False] show ?thesis
        by (cases e) (simp_all add: st clean_pass_def)
    next
      case True
      then consider (arr) es where "e = JArr es" | (multi) fs where "e = JObj fs" "length fs \<noteq> 1"
        | (op) op args where "e = JObj [(op, args)]"
        by (cases e) (auto simp: length_Suc_conv)
      then show ?thesis
      proof cases
        case arr
        have "clean_pass (ps, Suc n) (walk_each allowed d es (ps, Suc n))
          ((\<forall>e \<in> set es. wf_expr allowed e \<and> d + expr_depth e \<le> MAX_DEPTH) \<and>
           (es = [] \<or> snd (ps, Suc n) + sum_list (map node_count es) \<le> MAX_NODES))
          (sum_list (map node_count es))"
          by (rule walk_each_clean) (use less.IH size_in_list arr in force)
        moreover have "d + expr_depth e \<le> MAX_DEPTH \<longleftrightarrow> (\<forall>x \<in> set es. d + expr_depth x \<le> MAX_DEPTH)"
          using add_fold_max_le [OF bud(2), of "map expr_depth es"] arr by simp
        ultimately have "clean_pass (ps, Suc n) (walk_each allowed d es (ps, Suc n))
            (accepts allowed d e n) (sum_list (map node_count es))"
          using bud arr by (auto simp: clean_pass_def list_all_iff split: if_splits)
        then show ?thesis using clean_enter walk_array [OF \<open>in_budget d n\<close>] by (simp add: arr st)
      next
        case multi
        then have "\<not> wf_expr allowed e" by (cases fs rule: remdups_adj.cases) (auto split: prod.splits)
        then show ?thesis using multi walk_not_single [OF \<open>in_budget d n\<close> multi(2)]
          by (simp add: st clean_pass_def)
      next
        case op
        note w = walk_operator [OF \<open>in_budget d n\<close>, of allowed op args ps]
        consider "op \<notin> set RULE_OPERATORS" | (var) "op = ''var''"
          | (pair) x h where "op = ''in''" "args = JArr [x, h]"
          | (nopair) "op = ''in''" "\<nexists>x h. args = JArr [x, h]"
          | (other) "op \<in> set RULE_OPERATORS" "op \<noteq> ''var''" "op \<noteq> ''in''" by blast
        then show ?thesis
        proof cases
          case 1
          then show ?thesis using w op by (simp add: st clean_pass_def)
        next
          case var
          then show ?thesis using w op bud var_problems_ok [of allowed args]
            by (auto simp: st clean_pass_def)
        next
          case pair
          have sz: "size x < size e" "size h < size e" using op pair by simp_all
          have acc: "accepts allowed d e n \<longleftrightarrow>
              haystack_problems h = [] \<and> wf_expr allowed x \<and> wf_expr allowed h \<and>
              Suc d + expr_depth x \<le> MAX_DEPTH \<and> Suc d + expr_depth h \<le> MAX_DEPTH \<and>
              Suc n + (node_count x + node_count h) \<le> MAX_NODES"
            unfolding op pair wf_in by auto
          show ?thesis
            unfolding st snd_conv acc
            using clean_enter [of ps n, OF clean_in [OF less.IH [OF sz(1)] less.IH [OF sz(2)], of ps "Suc n" "Suc d"]]
              w op pair by simp
        next
          case nopair
          have "walk allowed d e (ps, n) = (ps @ [InTakesPair], Suc n)"
            unfolding op nopair(1) walk_operator [OF \<open>in_budget d n\<close>] not_pair(2) [OF nopair(2)]
            by simp
          moreover have "\<not> wf_expr allowed e" unfolding op nopair(1) by (rule not_pair(1) [OF nopair(2)])
          ultimately show ?thesis by (simp add: st clean_pass_def)
        next
          case other
          have "size args < size e" using op by simp
          from clean_enter [of ps n, OF less.IH [OF this, of "(ps, Suc n)" "Suc d", simplified]]
          show ?thesis using w op other by (simp add: st)
        qed
      qed
    qed
  qed
qed

text \<open>A saved expression is exactly one of the right shape inside both budgets.\<close>

lemma validateExpression_iff:
  "validateExpression catalog e stage = Inr () \<longleftrightarrow>
     wf_expr (knownVars catalog stage) e \<and> expr_depth e \<le> MAX_DEPTH \<and> node_count e \<le> MAX_NODES"
  using walk_clean [of "([], 0)" "knownVars catalog stage" 0 e]
  by (auto simp: validateExpression_def clean_pass_def split: prod.splits if_splits)

section \<open>A validated expression never throws\<close>

text \<open>
  The argument shapes of the \<open>RuleExpression\<close> type that validation does not look at:
  \<open>and\<close>/\<open>or\<close> take an array and a comparison an indexable value.
\<close>

fun shaped :: "jval \<Rightarrow> bool" where
  "shaped (JArr es) = list_all shaped es"
| "shaped (JObj fs) =
     list_all (\<lambda>(op, args).
       shaped args \<and>
       (op = ''and'' \<or> op = ''or'' \<longrightarrow> (case args of JArr _ \<Rightarrow> True | _ \<Rightarrow> False)) \<and>
       (op \<in> {''=='', ''!='', ''>'', ''>='', ''<'', ''<=''} \<longrightarrow> \<not> nullish args)) fs"
| "shaped _ = True"

lemma nat_to_str_no_operator: "nat_to_str n \<notin> set RULE_OPERATORS"
proof
  assume mem: "nat_to_str n \<in> set RULE_OPERATORS"
  obtain s and d :: nat where s: "nat_to_str n = s @ [char_of (48 + d)]" and d: "d < 10"
    by (rule nat_to_str_last)
  have "of_char (last (nat_to_str n)) = 48 + d"
    using d by (simp add: s)
  moreover have "of_char (last (nat_to_str n)) \<in> {114, 61, 62, 60, 100, 116, 110 :: nat} - {48..57}"
    using mem by (auto simp: RULE_OPERATORS_def)
  ultimately show False using d by simp
qed

lemma operand_wf:
  assumes "operand args v" and "wf_expr allowed args" and "shaped args"
  shows "wf_expr allowed v \<and> shaped v"
proof -
  consider "v = args" | i where "arg_at args i = Inr v"
    using assms(1) by (auto simp: operand_def)
  then show ?thesis
  proof cases
    case 2
    show ?thesis
    proof (cases args)
      case (JArr es)
      with 2 have "v \<in> set es \<or> v = JUndef" by (auto simp: nth_or_undef_def)
      then show ?thesis using assms(2,3) JArr by (auto simp: list_all_iff)
    next
      case (JObj fs)
      with assms(2) obtain op a where fs: "fs = [(op, a)]" "op \<in> set RULE_OPERATORS"
        by (cases fs rule: remdups_adj.cases) (auto split: prod.splits)
      with 2 JObj nat_to_str_no_operator [of i] have "v = JUndef" by auto
      then show ?thesis by simp
    qed (use 2 in \<open>auto split: if_splits\<close>)
  qed (use assms in simp)
qed

lemma arg_at_ok: "\<not> nullish args \<Longrightarrow> is_ok (arg_at args i)"
  by (cases args) simp_all

lemma resolveBinary_ok:
  assumes "\<not> nullish args" and "\<And>v. operand args v \<Longrightarrow> is_ok (evaluateAny ctx v)"
  shows "is_ok (resolveBinary ctx args cmp)"
proof -
  obtain a0 a1 where a: "arg_at args 0 = Inr a0" "arg_at args 1 = Inr a1"
    using arg_at_ok [OF assms(1)] by (meson is_ok_E)
  then have "operand args a0" "operand args a1" by (auto simp: operand_def)
  then have "is_ok (evaluateAny ctx a0)" "is_ok (evaluateAny ctx a1)" by (auto intro: assms(2))
  then show ?thesis using a by (auto simp: resolveBinary.simps elim!: is_ok_E)
qed

lemma evalOp_ok:
  assumes wf: "wf_expr allowed (JObj [(op, args)])" and sh: "shaped (JObj [(op, args)])"
    and ok: "\<And>v. operand args v \<Longrightarrow> is_ok (evaluateAny ctx v)"
  shows "is_ok (evalOp ctx op args)"
proof -
  have elems: "is_ok (evaluateAny ctx e)" if "args = JArr es" "e \<in> set es" for es e
    using that operand_as_array [of args es e] ok by simp
  consider "op = ''var''" | "op = ''in''" | "op = ''and''" | "op = ''or''" | "op = ''not''"
    | (bin) "op \<in> {''=='', ''!='', ''>'', ''>='', ''<'', ''<=''}"
  proof -
    have "op \<in> set RULE_OPERATORS" using wf by simp
    then have "op = ''var'' \<or> op = ''in'' \<or> op = ''and'' \<or> op = ''or'' \<or> op = ''not'' \<or>
        op \<in> {''=='', ''!='', ''>'', ''>='', ''<'', ''<=''}"
      by (simp only: RULE_OPERATORS_def list.set insert_iff empty_iff disj_ac simp_thms)
    then show ?thesis using that by (elim disjE) assumption+
  qed
  then show ?thesis
  proof cases
    case 1
    then show ?thesis by (simp add: evalOp_eqs)
  next
    case 2
    then obtain x h where "args = JArr [x, h]" using not_pair(1) wf by blast
    moreover from this have "is_ok (evaluateAny ctx x)" "is_ok (evaluateAny ctx h)"
      using elems by simp_all
    ultimately show ?thesis
      by (auto simp: 2 evalOp_in nth_or_undef_def elim!: is_ok_E)
  next
    case 3
    with sh obtain es where "args = JArr es" by (auto split: jval.splits)
    with 3 elems show ?thesis by (simp add: evalOp_eqs every_r_ok)
  next
    case 4
    with sh obtain es where "args = JArr es" by (auto split: jval.splits)
    with 4 elems show ?thesis by (simp add: evalOp_eqs some_r_ok)
  next
    case 5
    have "is_ok (evaluateAny ctx args)" by (rule ok) (simp add: operand_def)
    with 5 show ?thesis by (simp add: evalOp_eqs)
  next
    case bin
    with sh have "\<not> nullish args" by auto
    then have "is_ok (resolveBinary ctx args cmp)" for cmp by (rule resolveBinary_ok) (rule ok)
    with bin show ?thesis by (auto simp: evalOp_eqs)
  qed
qed

lemma wf_args:
  assumes "wf_expr allowed (JObj [(op, args)])" and "op \<noteq> ''var''"
  shows "wf_expr allowed args"
proof (cases "op = ''in''")
  case True
  then obtain x h where xh: "args = JArr [x, h]" using not_pair(1) assms(1) by blast
  with assms(1) True have "wf_expr allowed (JObj [(''in'', JArr [x, h])])" by blast
  then show ?thesis unfolding xh wf_in by simp
qed (use assms in simp)

lemma evaluateAny_ok: "wf_expr allowed e \<Longrightarrow> shaped e \<Longrightarrow> is_ok (evaluateAny ctx e)"
proof (induction e rule: measure_induct_rule [of size])
  case (less e)
  show ?case
  proof (cases e)
    case (JArr es)
    have "is_ok (evaluateAny ctx x)" if "x \<in> set es" for x
      using less.IH [of x] less.prems size_in_list [OF that] that JArr by (auto simp: list_all_iff)
    then show ?thesis by (simp add: JArr evaluateAny_eqs mapM_r_ok)
  next
    case (JObj fs)
    with less.prems(1) obtain op args where fs: "fs = [(op, args)]"
      by (cases fs rule: remdups_adj.cases) (auto split: prod.splits)
    have e: "wf_expr allowed (JObj [(op, args)])" "shaped (JObj [(op, args)])"
      using less.prems JObj fs by blast+
    have "is_ok (evalOp ctx op args)"
    proof (cases "op = ''var''")
      case False
      have "is_ok (evaluateAny ctx v)" if v: "operand args v" for v
        using less.IH [of v] operand_size [OF v] JObj fs
          operand_wf [OF v wf_args [OF e(1) False]] e(2) by simp
      then show ?thesis by (rule evalOp_ok [OF e])
    qed (simp add: evalOp_eqs)
    then show ?thesis by (simp add: JObj fs evaluateAny_eqs)
  qed (simp_all add: evaluateAny_eqs)
qed

section \<open>Variables of a validated expression\<close>

lemma wf_string_vars: "wf_expr allowed e \<Longrightarrow> string_vars e"
proof (induction e rule: measure_induct_rule [of size])
  case (less e)
  show ?case
  proof (cases e)
    case (JArr es)
    then show ?thesis using less.IH less.prems size_in_list by (force simp: list_all_iff)
  next
    case (JObj fs)
    with less.prems(1) obtain op args where fs: "fs = [(op, args)]"
      by (cases fs rule: remdups_adj.cases) (auto split: prod.splits)
    show ?thesis
    proof (cases "op = ''var''")
      case True
      then show ?thesis using less.prems by (auto simp: JObj fs split: jval.splits)
    next
      case False
      then have "string_vars args"
        using less.prems less.IH [of args] wf_args [of allowed op args] by (simp add: JObj fs)
      with False show ?thesis by (simp add: JObj fs)
    qed
  qed simp_all
qed

lemma wf_paths: "wf_expr allowed e \<Longrightarrow> set (collectVarPaths e) \<subseteq> set allowed"
proof (induction e rule: measure_induct_rule [of size])
  case (less e)
  show ?case
  proof (cases e)
    case (JArr es)
    then show ?thesis using less.IH less.prems size_in_list by (force simp: list_all_iff)
  next
    case (JObj fs)
    with less.prems(1) obtain op args where fs: "fs = [(op, args)]"
      by (cases fs rule: remdups_adj.cases) (auto split: prod.splits)
    show ?thesis
    proof (cases "op = ''var''")
      case True
      then show ?thesis using less.prems by (auto simp: JObj fs split: jval.splits)
    next
      case False
      then have "set (collectVarPaths args) \<subseteq> set allowed"
        using less.prems less.IH [of args] wf_args [of allowed op args] by (simp add: JObj fs)
      with False show ?thesis by (simp add: JObj fs)
    qed
  qed simp_all
qed

lemma known_feature_path:
  "p \<in> set (knownVars catalog stage) \<Longrightarrow> feature_path p \<Longrightarrow> starts_with p ''features.''"
  by (auto simp: knownVars_def feature_path_def REQUEST_VARS_def POST_ONLY_VARS_def
      FEATURE_PREFIX_def split: if_splits)

section \<open>Properties\<close>

text \<open>
  C21: The validator accepts an expression exactly when it has the right shape (single known
  operators, known non-empty variable paths, \<open>in\<close> with a bounded array haystack), nests at most
  32 levels and has at most 500 nodes.
\<close>

theorem validateExpression_exact:
  "validateExpression catalog e stage = Inr () \<longleftrightarrow>
     wf_expr (knownVars catalog stage) e \<and> expr_depth e \<le> 32 \<and> node_count e \<le> 500"
  unfolding validateExpression_iff MAX_DEPTH_def MAX_NODES_def ..

text \<open>
  C26: A validated expression whose comparison and \<open>and\<close>/\<open>or\<close> arguments have the declared
  shape evaluates to a boolean on every context: it never throws, so it is never skipped.
\<close>

theorem validated_expression_evaluates:
  assumes "validateExpression catalog e stage = Inr ()" and "shaped e"
  shows "\<exists>b. evaluate e ctx = Inr b"
proof -
  have "is_ok (evaluateAny ctx e)"
    using assms by (intro evaluateAny_ok [of "knownVars catalog stage"]) (simp_all add: validateExpression_iff)
  then show ?thesis by (auto simp: evaluate_def elim!: is_ok_E)
qed

theorem validated_expression_evaluates_witness:
  "\<exists>b. evaluate (JObj [(''and'', JArr [JObj [(''=='', JArr [JObj [(''var'', JStr ''channel'')], JStr ''web''])],
     JObj [(''not'', JObj [(''var'', JStr ''ip_is_vpn'')])]])]) [(''channel'', JStr ''web'')] = Inr b"
  by (rule validated_expression_evaluates [of "[]" _ POST]) code_simp+

text \<open>
  C27: The value of an expression with string variables depends only on the paths that
  \<open>collectVarPaths\<close> returns: contexts that resolve them alike give the same result, thrown
  errors included.
\<close>

theorem evaluation_reads_collected_paths:
  assumes "string_vars e" and "\<forall>p \<in> set (collectVarPaths e). resolveVar p ctx = resolveVar p ctx'"
  shows "evaluate e ctx = evaluate e ctx'"
  using eval_agree [OF assms] by (simp add: evaluate_def)

theorem evaluation_reads_collected_paths_witness:
  "evaluate (JObj [(''=='', JArr [JObj [(''var'', JStr ''channel'')], JStr ''web''])])
     [(''channel'', JStr ''web''), (''currency'', JStr ''EUR'')] =
   evaluate (JObj [(''=='', JArr [JObj [(''var'', JStr ''channel'')], JStr ''web''])])
     [(''channel'', JStr ''web'')]"
  by (rule evaluation_reads_collected_paths) code_simp+

end
