(* ===== verification/Json.thy ===== *)
theory Json
  imports JsValue
begin

text \<open>
  \<open>JSON.stringify\<close> and \<open>JSON.parse\<close> on values of the model. Text outside the modelled
  character range (an escape above \<open>u00FF\<close>) does not parse. A repeated object key keeps
  its first place and its last value.
\<close>

section \<open>Stringify\<close>

definition hex_digit :: "nat \<Rightarrow> char" where
  "hex_digit n = char_of (if n < 10 then 48 + n else 87 + n)"

definition escape_char :: "char \<Rightarrow> string" where
  "escape_char c =
     (let k = code c in
      if k = 34 then [CHR 0x5C, CHR 0x22]
      else if k = 92 then [CHR 0x5C, CHR 0x5C]
      else if k = 8 then [CHR 0x5C, CHR ''b'']
      else if k = 9 then [CHR 0x5C, CHR ''t'']
      else if k = 10 then [CHR 0x5C, CHR ''n'']
      else if k = 12 then [CHR 0x5C, CHR ''f'']
      else if k = 13 then [CHR 0x5C, CHR ''r'']
      else if k < 32 then [CHR 0x5C, CHR ''u'', CHR ''0'', CHR ''0'', hex_digit (k div 16), hex_digit (k mod 16)]
      else [c])"

definition json_string :: "string \<Rightarrow> string" where
  "json_string s = CHR 0x22 # concat (map escape_char s) @ [CHR 0x22]"

text \<open>
  \<open>json_text v\<close> is the text of \<open>v\<close> inside an array, where \<open>undefined\<close> prints as \<open>null\<close>;
  an object leaves out its \<open>undefined\<close> properties.
\<close>

fun json_text :: "jval \<Rightarrow> string" where
  "json_text JUndef = ''null''"
| "json_text JNull = ''null''"
| "json_text (JBool b) = (if b then ''true'' else ''false'')"
| "json_text (JNum n) = (if is_finite_num n then num_to_str n else ''null'')"
| "json_text (JStr s) = json_string s"
| "json_text (JArr vs) = ''['' @ join_with '','' (map json_text vs) @ '']''"
| "json_text (JObj fs) =
     CHR ''{'' # join_with '',''
       (concat (map (\<lambda>(k, v). if v = JUndef then [] else [json_string k @ '':'' @ json_text v]) fs))
     @ ''}''"

definition json_stringify :: "jval \<Rightarrow> string option" where
  "json_stringify v = (if v = JUndef then None else Some (json_text v))"

section \<open>Parse\<close>

definition json_ws :: "string \<Rightarrow> string" where
  "json_ws s = dropWhile (\<lambda>c. code c \<in> {9, 10, 13, 32}) s"

definition unescape :: "char \<Rightarrow> char option" where
  "unescape e =
     (if code e \<in> {34, 47, 92} then Some e
      else if e = CHR ''b'' then Some (char_of (8 :: nat))
      else if e = CHR ''t'' then Some (char_of (9 :: nat))
      else if e = CHR ''n'' then Some (char_of (10 :: nat))
      else if e = CHR ''f'' then Some (char_of (12 :: nat))
      else if e = CHR ''r'' then Some (char_of (13 :: nat))
      else None)"

definition push_char :: "char \<Rightarrow> (string \<times> string) option \<Rightarrow> (string \<times> string) option" where
  "push_char c r = map_option (\<lambda>(w, rest). (c # w, rest)) r"

text \<open>The characters after an opening quote, up to the closing one.\<close>

fun json_chars :: "string \<Rightarrow> (string \<times> string) option" where
  "json_chars [] = None"
| "json_chars (c # cs) =
     (if code c = 34 then Some ([], cs)
      else if code c = 92 then
        (case cs of
           e # r \<Rightarrow>
             (if e = CHR ''u'' then
                (case r of
                   a # b # x # y # r' \<Rightarrow>
                     (case radix_nat 16 0 [a, b, x, y] of
                        Some k \<Rightarrow> if k < 256 then push_char (char_of k) (json_chars r') else None
                      | None \<Rightarrow> None)
                 | _ \<Rightarrow> None)
              else (case unescape e of Some c' \<Rightarrow> push_char c' (json_chars r) | None \<Rightarrow> None))
         | [] \<Rightarrow> None)
      else if code c < 32 then None
      else push_char c (json_chars cs))"

definition is_num_char :: "char \<Rightarrow> bool" where
  "is_num_char c = (is_digit c \<or> c \<in> {CHR ''+'', CHR ''-'', CHR ''.'', CHR ''e'', CHR ''E''})"

text \<open>The number grammar: no leading zero, digits on both sides of the point.\<close>

definition json_num_ok :: "string \<Rightarrow> bool" where
  "json_num_ok t =
     (let u = (if t \<noteq> [] \<and> hd t = CHR ''-'' then tl t else t);
          ip = takeWhile is_digit u; r = dropWhile is_digit u;
          r' = (if r \<noteq> [] \<and> hd r = CHR ''.'' then dropWhile is_digit (tl r) else r)
      in ip \<noteq> [] \<and> (hd ip \<noteq> CHR ''0'' \<or> tl ip = []) \<and>
         (r \<noteq> [] \<and> hd r = CHR ''.'' \<longrightarrow> takeWhile is_digit (tl r) \<noteq> []) \<and>
         (r' = [] \<or> (hd r' \<in> {CHR ''e'', CHR ''E''} \<and> exponent_part (tl r') \<noteq> None)))"

text \<open>
  The comparisons of lengths make every recursive call visibly shorter; the text that
  follows a token is a proper suffix, so they never decide an outcome.
\<close>

function json_value :: "string \<Rightarrow> (jval \<times> string) option"
  and json_elems :: "string \<Rightarrow> (jval list \<times> string) option"
  and json_members :: "(string \<times> jval) list \<Rightarrow> string \<Rightarrow> ((string \<times> jval) list \<times> string) option"
where
  "json_value s =
     (case s of
        [] \<Rightarrow> None
      | c # cs \<Rightarrow>
          if starts_with s ''null'' then Some (JNull, drop 4 s)
          else if starts_with s ''true'' then Some (JBool True, drop 4 s)
          else if starts_with s ''false'' then Some (JBool False, drop 5 s)
          else if code c = 34 then map_option (\<lambda>(w, r). (JStr w, r)) (json_chars cs)
          else if c = CHR ''['' then
            (if starts_with (json_ws cs) '']'' then Some (JArr [], drop 1 (json_ws cs))
             else map_option (\<lambda>(vs, r). (JArr vs, r)) (json_elems cs))
          else if c = CHR ''{'' then
            (if starts_with (json_ws cs) ''}'' then Some (JObj [], drop 1 (json_ws cs))
             else map_option (\<lambda>(fs, r). (JObj fs, r)) (json_members [] cs))
          else if json_num_ok (takeWhile is_num_char s)
          then Some (JNum (decimal_literal (takeWhile is_num_char s)), dropWhile is_num_char s)
          else None)"
| "json_elems s =
     (if length (json_ws s) = 0 then None
      else case json_value (json_ws s) of
        None \<Rightarrow> None
      | Some (v, r) \<Rightarrow>
          (case json_ws r of
             [] \<Rightarrow> None
           | c # cs \<Rightarrow>
               if c = CHR '']'' then Some ([v], cs)
               else if c = CHR '','' \<and> length cs < length s
               then map_option (\<lambda>(vs, r'). (v # vs, r')) (json_elems cs)
               else None))"
| "json_members acc s =
     (case json_ws s of
        [] \<Rightarrow> None
      | q # cs \<Rightarrow>
          if code q \<noteq> 34 then None
          else case json_chars cs of
            None \<Rightarrow> None
          | Some (k, r) \<Rightarrow>
              (case json_ws r of
                 [] \<Rightarrow> None
               | c # cs' \<Rightarrow>
                   if c \<noteq> CHR '':'' \<or> length s \<le> length (json_ws cs') then None
                   else case json_value (json_ws cs') of
                     None \<Rightarrow> None
                   | Some (v, r') \<Rightarrow>
                       (case json_ws r' of
                          [] \<Rightarrow> None
                        | d # ds \<Rightarrow>
                            if d = CHR ''}'' then Some (om_set k v acc, ds)
                            else if d = CHR '','' \<and> length ds < length s
                            then json_members (om_set k v acc) ds
                            else None)))"
  by pat_completeness auto
termination
proof (relation "measures
    [\<lambda>x. (case x of Inl s \<Rightarrow> 2 * length s | Inr (Inl s) \<Rightarrow> 2 * length s + 1
                  | Inr (Inr (_, s)) \<Rightarrow> 2 * length s + 1)]", goal_cases)
  case (4 s)
  have "length (json_ws s) \<le> length s" by (simp add: json_ws_def length_dropWhile_le)
  then show ?case by simp
qed auto

declare json_value.simps [simp del] json_elems.simps [simp del] json_members.simps [simp del]

text \<open>\<open>JSON.parse\<close>: \<open>None\<close> stands for the \<open>SyntaxError\<close> it throws.\<close>

definition json_parse :: "string \<Rightarrow> jval option" where
  "json_parse s =
     (case json_value (json_ws s) of
        Some (v, r) \<Rightarrow> if json_ws r = [] then Some v else None
      | None \<Rightarrow> None)"

end
