(* ===== verification/RulesService.thy ===== *)
theory RulesService
  imports RuleValidation Json
begin

text \<open>
  \<open>src/shared/rules/rules.service.ts\<close> with its repository and model: the in-memory rule
  cache, the two evaluation passes and the administrative operations. The \<open>rules\<close> table is a
  list of rows in insertion order; the catalogue names, fresh ids, the clock and whether a
  reload's query succeeds are arguments. Logging is not modelled.
\<close>

section \<open>Data\<close>

datatype rule_action = ALLOW | DENY | REVIEW | NONE

record rule_row =
  row_id :: string
  row_name :: string
  row_description :: "string option"
  row_stage :: rule_stage
  row_priority :: int
  row_action :: rule_action
  row_expression :: jval
  row_isActive :: bool
  row_createdBy :: "string option"
  row_tenantId :: "string option"
  row_createdAt :: int

record rule_record =
  rule_id :: string
  rule_name :: string
  rule_description :: "string option"
  rule_stage :: rule_stage
  rule_priority :: int
  rule_action :: rule_action
  rule_expression :: jval
  rule_isActive :: bool
  rule_tenantId :: "string option"
  rule_requestOnly :: bool

type_synonym rule_hit = "rule_record \<times> rule_stage"

record rules_service =
  preRules :: "rule_record list"
  postRules :: "rule_record list"
  preFeatureBestPriorityShared :: "int option"
  preFeatureBestPriorityByTenant :: "(string, int) omap"
  rules_loaded :: bool

text \<open>The cache before the first load.\<close>

definition initial_service :: rules_service where
  "initial_service = \<lparr>preRules = [], postRules = [], preFeatureBestPriorityShared = None,
     preFeatureBestPriorityByTenant = [], rules_loaded = False\<rparr>"

text \<open>A best priority is an integer or \<open>Infinity\<close> (\<open>None\<close>).\<close>

fun min_inf :: "int option \<Rightarrow> int option \<Rightarrow> int option" where
  "min_inf None q = q"
| "min_inf p None = p"
| "min_inf (Some a) (Some b) = Some (min a b)"

fun below :: "int \<Rightarrow> int option \<Rightarrow> bool" where
  "below p None = True"
| "below p (Some c) = (p < c)"

text \<open>A string is truthy when it is present and not empty.\<close>

fun truthy_str :: "string option \<Rightarrow> string option" where
  "truthy_str (Some s) = (if s = [] then None else Some s)"
| "truthy_str None = None"

definition ctx_tenant :: "rule_ctx \<Rightarrow> string option" where
  "ctx_tenant ctx =
     (case field ctx ''tenant_id'' of JStr t \<Rightarrow> truthy_str (Some t) | _ \<Rightarrow> None)"

section \<open>The repository\<close>

definition listActiveOrdered :: "rule_row list \<Rightarrow> rule_row list" where
  "listActiveOrdered table =
     sort_key row_priority (sort_key row_createdAt (filter row_isActive table))"

definition stage_rank :: "rule_stage \<Rightarrow> nat" where
  "stage_rank s = (case s of POST \<Rightarrow> 0 | PRE \<Rightarrow> 1)"

definition listAll :: "rule_row list \<Rightarrow> rule_row list" where
  "listAll table = sort_key (\<lambda>r. stage_rank (row_stage r)) (sort_key row_priority table)"

definition rule_findById :: "string \<Rightarrow> rule_row list \<Rightarrow> rule_row option" where
  "rule_findById i table = find (\<lambda>r. row_id r = i) table"

definition rule_deleteById :: "string \<Rightarrow> rule_row list \<Rightarrow> nat \<times> rule_row list" where
  "rule_deleteById i table =
     (length (filter (\<lambda>r. row_id r = i) table), filter (\<lambda>r. row_id r \<noteq> i) table)"

section \<open>Loading the cache\<close>

definition toRecord :: "rule_row \<Rightarrow> (js_error, rule_record) result" where
  "toRecord row =
     bind_r (case row_expression row of
               JStr s \<Rightarrow> (case json_parse s of Some v \<Rightarrow> Inr v | None \<Rightarrow> Inl (RuleError ''SyntaxError''))
             | v \<Rightarrow> Inr v)
       (\<lambda>e. Inr \<lparr>rule_id = row_id row, rule_name = row_name row,
          rule_description = row_description row, rule_stage = row_stage row,
          rule_priority = row_priority row, rule_action = row_action row,
          rule_expression = e, rule_isActive = row_isActive row,
          rule_tenantId = row_tenantId row,
          rule_requestOnly = \<not> list_ex (\<lambda>v. starts_with v ''features.'') (collectVarPaths e)\<rparr>)"

text \<open>The loop that computes the best feature-dependent priorities.\<close>

definition best_step ::
    "rule_record \<Rightarrow> int option \<times> (string, int) omap \<Rightarrow> int option \<times> (string, int) omap" where
  "best_step r acc =
     (let (shared, by_tenant) = acc in
      if rule_requestOnly r then (shared, by_tenant)
      else case truthy_str (rule_tenantId r) of
             None \<Rightarrow> (min_inf shared (Some (rule_priority r)), by_tenant)
           | Some t \<Rightarrow>
               (shared,
                om_set t (case om_get by_tenant t of
                            None \<Rightarrow> rule_priority r
                          | Some c \<Rightarrow> min c (rule_priority r)) by_tenant))"

definition rebuild :: "rule_record list \<Rightarrow> rules_service" where
  "rebuild records =
     (let pre = filter (\<lambda>r. rule_stage r = PRE) records;
          post = filter (\<lambda>r. rule_stage r \<noteq> PRE) records;
          (shared, by_tenant) = fold best_step pre (None, [])
      in \<lparr>preRules = pre, postRules = post, preFeatureBestPriorityShared = shared,
          preFeatureBestPriorityByTenant = by_tenant, rules_loaded = True\<rparr>)"

text \<open>\<open>reload\<close>: a row that does not convert throws before any field is assigned.\<close>

definition reload :: "rule_row list \<Rightarrow> rules_service \<Rightarrow> (js_error, rules_service) result" where
  "reload table svc = map_r rebuild (mapM_r toRecord (listActiveOrdered table))"

definition counts :: "rules_service \<Rightarrow> nat \<times> nat" where
  "counts svc = (length (preRules svc), length (postRules svc))"

section \<open>Evaluation\<close>

definition tenantMismatch :: "rule_record \<Rightarrow> rule_ctx \<Rightarrow> bool" where
  "tenantMismatch r ctx =
     (case (truthy_str (rule_tenantId r), ctx_tenant ctx) of
        (Some a, Some b) \<Rightarrow> a \<noteq> b
      | _ \<Rightarrow> False)"

definition matches :: "rule_record \<Rightarrow> rule_ctx \<Rightarrow> bool" where
  "matches r ctx = (case evaluate (rule_expression r) ctx of Inl _ \<Rightarrow> False | Inr b \<Rightarrow> b)"

definition featureDependentCutoff :: "rules_service \<Rightarrow> string option \<Rightarrow> int option" where
  "featureDependentCutoff svc tenantId =
     (let tenantBest = (case tenantId of
                          Some t \<Rightarrow> om_get (preFeatureBestPriorityByTenant svc) t
                        | None \<Rightarrow> None)
      in min_inf (preFeatureBestPriorityShared svc) tenantBest)"

fun requestOnlyScan :: "int option \<Rightarrow> rule_ctx \<Rightarrow> rule_record list \<Rightarrow> rule_record option" where
  "requestOnlyScan cutoff ctx [] = None"
| "requestOnlyScan cutoff ctx (r # rs) =
     (if \<not> rule_requestOnly r then requestOnlyScan cutoff ctx rs
      else if \<not> below (rule_priority r) cutoff then None
      else if tenantMismatch r ctx then requestOnlyScan cutoff ctx rs
      else if matches r ctx then Some r
      else requestOnlyScan cutoff ctx rs)"

definition evaluateRequestOnlyPre :: "rules_service \<Rightarrow> rule_ctx \<Rightarrow> rule_hit option" where
  "evaluateRequestOnlyPre svc ctx =
     map_option (\<lambda>r. (r, PRE))
       (requestOnlyScan (featureDependentCutoff svc (ctx_tenant ctx)) ctx (preRules svc))"

definition evaluate_stage :: "rules_service \<Rightarrow> rule_stage \<Rightarrow> rule_ctx \<Rightarrow> rule_hit option" where
  "evaluate_stage svc stage ctx =
     map_option (\<lambda>r. (r, stage))
       (find (\<lambda>r. \<not> tenantMismatch r ctx \<and> matches r ctx)
          (if stage = PRE then preRules svc else postRules svc))"

text \<open>The rules \<open>warnOnDeadRules\<close> logs.\<close>

definition deadRules :: "rule_record list \<Rightarrow> rule_record list" where
  "deadRules rs = filter (\<lambda>r. hasStringHaystack (rule_expression r)) rs"

section \<open>Administration\<close>

text \<open>
  The service's world: table, cache and the number of invalidations broadcast.
\<close>

record rules_world =
  rw_table :: "rule_row list"
  rw_svc :: rules_service
  rw_published :: nat

record create_rule_input =
  ci_name :: string
  ci_action :: rule_action
  ci_expression :: jval
  ci_description :: "string option"
  ci_stage :: "rule_stage option"
  ci_priority :: "int option"
  ci_tenantId :: "string option"
  ci_isActive :: "bool option"
  ci_createdBy :: "string option"

text \<open>\<open>Some\<close> is a key present in the patch.\<close>

record update_rule_input =
  ui_name :: "string option"
  ui_description :: "string option"
  ui_stage :: "rule_stage option"
  ui_priority :: "int option"
  ui_action :: "rule_action option"
  ui_expression :: "jval option"
  ui_isActive :: "bool option"

definition or_else :: "'a option \<Rightarrow> 'a \<Rightarrow> 'a" where
  "or_else v d = (case v of None \<Rightarrow> d | Some a \<Rightarrow> a)"

text \<open>The reload after a write, whose failure is caught, and the broadcast after it.\<close>

definition refresh :: "bool \<Rightarrow> rules_world \<Rightarrow> rules_world" where
  "refresh query_ok w =
     (let svc = (if query_ok
                 then (case reload (rw_table w) (rw_svc w) of Inr s \<Rightarrow> s | Inl _ \<Rightarrow> rw_svc w)
                 else rw_svc w)
      in w\<lparr>rw_svc := svc, rw_published := Suc (rw_published w)\<rparr>)"

definition create_rule ::
    "string list \<Rightarrow> string \<Rightarrow> int \<Rightarrow> bool \<Rightarrow> create_rule_input \<Rightarrow> rules_world \<Rightarrow>
       (rule_problem list, rule_row) result \<times> rules_world" where
  "create_rule catalog new_id now query_ok inp w =
     (let stage = or_else (ci_stage inp) POST in
      case validateExpression catalog (ci_expression inp) stage of
        Inl problems \<Rightarrow> (Inl problems, w)
      | Inr _ \<Rightarrow>
          (let row = \<lparr>row_id = new_id, row_name = ci_name inp,
                 row_description = ci_description inp, row_stage = stage,
                 row_priority = or_else (ci_priority inp) 100, row_action = ci_action inp,
                 row_expression = ci_expression inp,
                 row_isActive = or_else (ci_isActive inp) False,
                 row_createdBy = ci_createdBy inp, row_tenantId = ci_tenantId inp,
                 row_createdAt = now\<rparr>
           in (Inr row, refresh query_ok (w\<lparr>rw_table := rw_table w @ [row]\<rparr>))))"

definition patch_row :: "update_rule_input \<Rightarrow> rule_row \<Rightarrow> rule_row" where
  "patch_row p r = r
     \<lparr>row_name := or_else (ui_name p) (row_name r),
      row_description := (case ui_description p of None \<Rightarrow> row_description r | Some d \<Rightarrow> Some d),
      row_stage := or_else (ui_stage p) (row_stage r),
      row_priority := or_else (ui_priority p) (row_priority r),
      row_action := or_else (ui_action p) (row_action r),
      row_expression := or_else (ui_expression p) (row_expression r),
      row_isActive := or_else (ui_isActive p) (row_isActive r)\<rparr>"

definition empty_patch :: "update_rule_input \<Rightarrow> bool" where
  "empty_patch p =
     (ui_name p = None \<and> ui_description p = None \<and> ui_stage p = None \<and> ui_priority p = None \<and>
      ui_action p = None \<and> ui_expression p = None \<and> ui_isActive p = None)"

definition patchById :: "string \<Rightarrow> update_rule_input \<Rightarrow> rule_row list \<Rightarrow> rule_row list" where
  "patchById i p table = map (\<lambda>r. if row_id r = i then patch_row p r else r) table"

definition update_rule ::
    "string list \<Rightarrow> bool \<Rightarrow> string \<Rightarrow> update_rule_input \<Rightarrow> rules_world \<Rightarrow>
       (rule_problem list, rule_row option) result \<times> rules_world" where
  "update_rule catalog query_ok i patch w =
     (if empty_patch patch then (Inr None, w)
      else
        let checked =
          (case ui_expression patch of
             None \<Rightarrow> Inr True
           | Some e \<Rightarrow>
               (case rule_findById i (rw_table w) of
                  None \<Rightarrow> Inr False
                | Some existing \<Rightarrow>
                    map_r (\<lambda>_. True)
                      (validateExpression catalog e (or_else (ui_stage patch) (row_stage existing)))))
        in case checked of
             Inl problems \<Rightarrow> (Inl problems, w)
           | Inr False \<Rightarrow> (Inr None, w)
           | Inr True \<Rightarrow>
               (let w' = refresh query_ok (w\<lparr>rw_table := patchById i patch (rw_table w)\<rparr>)
                in (Inr (rule_findById i (rw_table w')), w')))"

definition delete_rule :: "bool \<Rightarrow> string \<Rightarrow> rules_world \<Rightarrow> bool \<times> rules_world" where
  "delete_rule query_ok i w =
     (let (n, table') = rule_deleteById i (rw_table w);
          w' = w\<lparr>rw_table := table'\<rparr>
      in (0 < n, if 0 < n then refresh query_ok w' else w'))"

section \<open>Lemmas: the cutoff\<close>

lemma below_min_inf [simp]: "below p (min_inf a b) = (below p a \<and> below p b)"
  by (cases a; cases b) auto

lemma fold_best_shared:
  "below p (fst (fold best_step rs (s, m))) \<longleftrightarrow>
     below p s \<and> (\<forall>r \<in> set rs. \<not> rule_requestOnly r \<and> truthy_str (rule_tenantId r) = None \<longrightarrow>
       p < rule_priority r)"
  by (induction rs arbitrary: s m) (auto simp: best_step_def split: option.splits)

lemma fold_best_tenant:
  "below p (om_get (snd (fold best_step rs (s, m))) t) \<longleftrightarrow>
     below p (om_get m t) \<and> (\<forall>r \<in> set rs. \<not> rule_requestOnly r \<and> truthy_str (rule_tenantId r) = Some t \<longrightarrow>
       p < rule_priority r)"
  by (induction rs arbitrary: s m) (auto simp: best_step_def split: option.splits)

text \<open>
  For a request with a tenant, a priority is below the cutoff exactly when it outranks every
  feature rule that tenant can see.
\<close>

lemma below_cutoff:
  assumes "ctx_tenant ctx = Some t"
  shows "below p (featureDependentCutoff (rebuild rs) (ctx_tenant ctx)) \<longleftrightarrow>
     (\<forall>r \<in> set (preRules (rebuild rs)). \<not> rule_requestOnly r \<and> \<not> tenantMismatch r ctx \<longrightarrow>
        p < rule_priority r)"
proof -
  let ?pre = "filter (\<lambda>r. rule_stage r = PRE) rs"
  have "below p (featureDependentCutoff (rebuild rs) (Some t)) \<longleftrightarrow>
     below p (fst (fold best_step ?pre (None, []))) \<and>
     below p (om_get (snd (fold best_step ?pre (None, []))) t)"
    by (simp add: featureDependentCutoff_def rebuild_def split_beta Let_def)
  also have "\<dots> \<longleftrightarrow> (\<forall>r \<in> set ?pre. \<not> rule_requestOnly r \<and>
     (truthy_str (rule_tenantId r) = None \<or> truthy_str (rule_tenantId r) = Some t) \<longrightarrow> p < rule_priority r)"
    by (auto simp: fold_best_shared fold_best_tenant)
  also have "\<dots> \<longleftrightarrow> (\<forall>r \<in> set (preRules (rebuild rs)). \<not> rule_requestOnly r \<and>
     \<not> tenantMismatch r ctx \<longrightarrow> p < rule_priority r)"
    using assms by (auto simp: rebuild_def split_beta Let_def tenantMismatch_def split: option.splits)
  finally show ?thesis using assms by simp
qed

section \<open>Lemmas: the two passes\<close>

abbreviation visible_match :: "rule_ctx \<Rightarrow> rule_record \<Rightarrow> bool" where
  "visible_match ctx r \<equiv> \<not> tenantMismatch r ctx \<and> matches r ctx"

text \<open>
  On a list sorted by priority, with a cutoff that separates the visible feature rules, the
  scan finds exactly the hits of the ordered pass that outrank every visible feature rule.
\<close>

lemma requestOnlyScan_iff:
  assumes "sorted (map rule_priority rs)"
    and "\<And>p. below p cutoff \<longleftrightarrow> (\<forall>r \<in> F. p < rule_priority r)"
    and "\<And>r. r \<in> set rs \<Longrightarrow> \<not> rule_requestOnly r \<Longrightarrow> \<not> tenantMismatch r ctx \<Longrightarrow> r \<in> F"
  shows "requestOnlyScan cutoff ctx rs = Some h \<longleftrightarrow>
     find (visible_match ctx) rs = Some h \<and> rule_requestOnly h \<and> (\<forall>r \<in> F. rule_priority h < rule_priority r)"
  using assms(1,3)
proof (induction rs)
  case (Cons r rs)
  have IH: "requestOnlyScan cutoff ctx rs = Some h \<longleftrightarrow>
     find (visible_match ctx) rs = Some h \<and> rule_requestOnly h \<and> (\<forall>r \<in> F. rule_priority h < rule_priority r)"
    using Cons by simp
  have later: "rule_priority r \<le> rule_priority h" if "find (visible_match ctx) rs = Some h"
    using Cons.prems(1) find_in_set [OF that] by simp
  show ?case
  proof (cases "rule_requestOnly r")
    case False
    have "r \<in> F" if "visible_match ctx r" using Cons.prems(2) False that by simp
    then have "find (visible_match ctx) rs = Some h \<Longrightarrow> visible_match ctx r \<Longrightarrow>
        \<not> (\<forall>r \<in> F. rule_priority h < rule_priority r)"
      using later by force
    then show ?thesis using False IH by auto
  next
    case True
    show ?thesis
    proof (cases "below (rule_priority r) cutoff")
      case True
      then show ?thesis using IH \<open>rule_requestOnly r\<close> assms(2) [of "rule_priority r"] by auto
    next
      case False
      then obtain f where f: "f \<in> F" "rule_priority f \<le> rule_priority r"
        using assms(2) [of "rule_priority r"] by force
      then have "find (visible_match ctx) (r # rs) = Some h \<Longrightarrow> rule_priority f \<le> rule_priority h"
        using later by (auto split: if_splits)
      then have "\<not> (find (visible_match ctx) (r # rs) = Some h \<and>
          (\<forall>r \<in> F. rule_priority h < rule_priority r))"
        using f(1) by (meson leD)
      moreover have "requestOnlyScan cutoff ctx (r # rs) = None"
        using False \<open>rule_requestOnly r\<close> by simp
      ultimately show ?thesis by (metis option.distinct(1))
    qed
  qed
qed simp

lemma sorted_filter_stage:
  "sorted (map rule_priority rs) \<Longrightarrow> sorted (map rule_priority (filter P rs))"
  by (induction rs) auto

lemma toRecord_fields:
  "toRecord row = Inr r \<Longrightarrow>
     rule_priority r = row_priority row \<and> rule_stage r = row_stage row \<and> rule_id r = row_id row \<and>
     rule_tenantId r = row_tenantId row \<and> rule_isActive r = row_isActive row \<and>
     rule_action r = row_action row \<and>
     rule_requestOnly r = (\<not> list_ex (\<lambda>v. starts_with v ''features.'') (collectVarPaths (rule_expression r)))"
  by (auto simp: toRecord_def bind_r_eq_Inr)

lemma mapM_r_Inr: "mapM_r f xs = Inr ys \<longleftrightarrow> list_all2 (\<lambda>x y. f x = Inr y) xs ys"
proof (induction xs arbitrary: ys)
  case (Cons x xs)
  have "mapM_r f (x # xs) = Inr ys \<longleftrightarrow>
      (\<exists>z zs. ys = z # zs \<and> f x = Inr z \<and> mapM_r f xs = Inr zs)"
    by (cases "f x"; cases "mapM_r f xs") auto
  then show ?case unfolding Cons by (cases ys) auto
qed auto

lemma mapM_r_source: "mapM_r f xs = Inr ys \<Longrightarrow> y \<in> set ys \<Longrightarrow> \<exists>x \<in> set xs. f x = Inr y"
  unfolding mapM_r_Inr by (induction rule: list_all2_induct) auto

lemma loaded_priorities:
  "mapM_r toRecord rows = Inr rs \<Longrightarrow> map rule_priority rs = map row_priority rows"
  unfolding mapM_r_Inr by (induction rule: list_all2_induct) (auto dest: toRecord_fields)

lemma sorted_active: "sorted (map row_priority (listActiveOrdered table))"
  by (simp add: listActiveOrdered_def)

lemma reload_sorted:
  assumes "reload table svc0 = Inr svc"
  shows "sorted (map rule_priority (preRules svc))" and "sorted (map rule_priority (postRules svc))"
proof -
  obtain rs where rs: "mapM_r toRecord (listActiveOrdered table) = Inr rs" "svc = rebuild rs"
    using assms by (auto simp: reload_def map_r_def bind_r_eq_Inr)
  have "sorted (map rule_priority rs)"
    using loaded_priorities [OF rs(1)] sorted_active by simp
  then show "sorted (map rule_priority (preRules svc))" "sorted (map rule_priority (postRules svc))"
    using rs(2) by (simp_all add: rebuild_def split_beta Let_def sorted_filter_stage)
qed

text \<open>A rule that reads no feature evaluates the same before and after the feature load.\<close>

abbreviation same_request :: "rule_ctx \<Rightarrow> rule_ctx \<Rightarrow> bool" where
  "same_request ctx ctx' \<equiv> (\<forall>k. k \<noteq> ''features'' \<longrightarrow> field ctx k = field ctx' k)"

definition known_rule :: "string list \<Rightarrow> rule_record \<Rightarrow> bool" where
  "known_rule catalog r = wf_expr (knownVars catalog POST) (rule_expression r)"

definition validated_row :: "string list \<Rightarrow> rule_row \<Rightarrow> bool" where
  "validated_row catalog row =
     (validateExpression catalog (row_expression row) (row_stage row) = Inr () \<and>
      is_obj_like (row_expression row))"

lemma knownVars_mono: "set (knownVars catalog stage) \<subseteq> set (knownVars catalog POST)"
  by (auto simp: knownVars_def)

lemma wf_expr_mono: "wf_expr A e \<Longrightarrow> set A \<subseteq> set B \<Longrightarrow> wf_expr B e"
proof (induction e rule: measure_induct_rule [of size])
  case (less e)
  show ?case
  proof (cases e)
    case (JArr es)
    then show ?thesis using less size_in_list by (force simp: list_all_iff)
  next
    case (JObj fs)
    with less.prems(1) obtain op args where fs: "fs = [(op, args)]"
      by (cases fs rule: remdups_adj.cases) (auto split: prod.splits)
    consider "op = ''var''" | "op = ''in''" | "op \<noteq> ''var''" "op \<noteq> ''in''" by blast
    then show ?thesis
    proof cases
      case 1
      then show ?thesis using less.prems by (auto simp: JObj fs split: jval.splits)
    next
      case 2
      with less.prems(1) obtain x h where xh: "args = JArr [x, h]"
        using not_pair(1) unfolding JObj fs by blast
      have "wf_expr A x" "wf_expr A h" "haystack_problems h = []"
        using less.prems(1) wf_in [of A x h] unfolding JObj fs 2 xh by blast+
      then have "wf_expr B x" "wf_expr B h" "haystack_problems h = []"
        using less.IH [of x] less.IH [of h] less.prems(2) by (simp_all add: JObj fs xh)
      then show ?thesis using wf_in [of B x h] unfolding JObj fs 2 xh by blast
    next
      case 3
      then show ?thesis using less.prems less.IH [of args] by (simp add: JObj fs)
    qed
  qed simp_all
qed

lemma toRecord_object: "is_obj_like (row_expression row) \<Longrightarrow> toRecord row = Inr r \<Longrightarrow>
    rule_expression r = row_expression row"
  by (cases "row_expression row") (auto simp: toRecord_def)

lemma validated_known:
  assumes "validated_row catalog row" and "toRecord row = Inr r"
  shows "known_rule catalog r"
proof -
  have "wf_expr (knownVars catalog (row_stage row)) (row_expression row)"
    using assms(1) by (simp add: validated_row_def validateExpression_iff)
  then have "wf_expr (knownVars catalog POST) (row_expression row)"
    by (rule wf_expr_mono) (rule knownVars_mono)
  then show ?thesis
    using assms toRecord_object [of row r] by (simp add: known_rule_def validated_row_def)
qed

lemma requestOnly_matches:
  assumes "known_rule catalog r" and "same_request ctx ctx'"
    and "rule_requestOnly r = (\<not> list_ex (\<lambda>v. starts_with v ''features.'') (collectVarPaths (rule_expression r)))"
    and "rule_requestOnly r"
  shows "matches r ctx = matches r ctx'"
proof -
  let ?e = "rule_expression r"
  have "agree_on ctx ctx' (collectVarPaths ?e)"
  proof
    fix p assume p: "p \<in> set (collectVarPaths ?e)"
    then have "p \<in> set (knownVars catalog POST)"
      using wf_paths assms(1) by (auto simp: known_rule_def)
    moreover have "\<not> starts_with p ''features.''"
      using assms(3,4) p by (auto simp: list_ex_iff)
    ultimately have "\<not> feature_path p" using known_feature_path by blast
    then show "resolveVar p ctx = resolveVar p ctx'"
      using assms(2) by (intro resolveVar_frame) auto
  qed
  moreover have "string_vars ?e" using assms(1) wf_string_vars by (auto simp: known_rule_def)
  ultimately have "evaluateAny ctx ?e = evaluateAny ctx' ?e" by (intro eval_agree)
  then show ?thesis by (simp add: matches_def evaluate_def)
qed

lemma tenantMismatch_same: "same_request ctx ctx' \<Longrightarrow> tenantMismatch r ctx = tenantMismatch r ctx'"
  by (simp add: tenantMismatch_def ctx_tenant_def)

lemma requestOnlyScan_cong:
  assumes "\<And>r. r \<in> set rs \<Longrightarrow> rule_requestOnly r \<Longrightarrow> matches r ctx = matches r ctx'"
    and "\<And>r. tenantMismatch r ctx = tenantMismatch r ctx'"
  shows "requestOnlyScan c ctx rs = requestOnlyScan c ctx' rs"
  using assms(1) by (induction rs) (simp_all add: assms(2))

lemma loaded_rules:
  assumes "reload table svc0 = Inr svc" and "r \<in> set (preRules svc) \<union> set (postRules svc)"
  shows "\<exists>row \<in> set table. row_isActive row \<and> toRecord row = Inr r"
proof -
  obtain rs where rs: "mapM_r toRecord (listActiveOrdered table) = Inr rs" "svc = rebuild rs"
    using assms by (auto simp: reload_def map_r_def bind_r_eq_Inr)
  have "r \<in> set rs" using assms(2) rs(2) by (auto simp: rebuild_def split_beta Let_def)
  then obtain row where "row \<in> set (listActiveOrdered table)" "toRecord row = Inr r"
    using mapM_r_source [OF rs(1)] by blast
  then show ?thesis by (auto simp: listActiveOrdered_def)
qed

definition active_rules :: "rule_row list \<Rightarrow> rule_stage \<Rightarrow> rule_record set" where
  "active_rules table stage =
     {r. \<exists>row \<in> set table. row_isActive row \<and> row_stage row = stage \<and> toRecord row = Inr r}"

lemma mapM_r_target: "mapM_r f xs = Inr ys \<Longrightarrow> x \<in> set xs \<Longrightarrow> \<exists>y \<in> set ys. f x = Inr y"
  unfolding mapM_r_Inr by (induction rule: list_all2_induct) auto

lemma loaded_set:
  assumes "reload table svc0 = Inr svc"
  shows "set (if stage = PRE then preRules svc else postRules svc) = active_rules table stage"
proof -
  obtain rs where rs: "mapM_r toRecord (listActiveOrdered table) = Inr rs" "svc = rebuild rs"
    using assms by (auto simp: reload_def map_r_def bind_r_eq_Inr)
  have "set rs = {r. \<exists>row \<in> set (listActiveOrdered table). toRecord row = Inr r}"
  proof (intro set_eqI iffI)
    fix r assume "r \<in> {r. \<exists>row \<in> set (listActiveOrdered table). toRecord row = Inr r}"
    then obtain row where "row \<in> set (listActiveOrdered table)" "toRecord row = Inr r" by blast
    with mapM_r_target [OF rs(1)] show "r \<in> set rs" by force
  qed (use mapM_r_source [OF rs(1)] in blast)
  then have "r \<in> set rs \<and> rule_stage r = stage \<longleftrightarrow> r \<in> active_rules table stage" for r
    using toRecord_fields [of _ r] by (auto simp: active_rules_def listActiveOrdered_def)
  moreover have "set (if stage = PRE then preRules svc else postRules svc) = {r \<in> set rs. rule_stage r = stage}"
    unfolding rs(2) rebuild_def split_beta Let_def
    by (cases stage) (auto intro: rule_stage.exhaust)
  ultimately show ?thesis by blast
qed

lemma find_sorted_least:
  fixes f :: "'a \<Rightarrow> int"
  shows "sorted (map f xs) \<Longrightarrow> find P xs = Some h \<Longrightarrow> \<forall>r \<in> set xs. P r \<longrightarrow> f h \<le> f r"
  by (induction xs) (auto split: if_splits)

section \<open>Properties\<close>

lemma request_only_pass:
  assumes loaded: "reload table svc0 = Inr svc"
    and valid: "\<And>row. row \<in> set table \<Longrightarrow> validated_row catalog row"
    and tenant: "ctx_tenant ctx = Some t"
    and same: "same_request ctx ctx'"
  shows "evaluateRequestOnlyPre svc ctx = Some (h, PRE) \<longleftrightarrow>
     evaluate_stage svc PRE ctx' = Some (h, PRE) \<and> rule_requestOnly h \<and>
     (\<forall>r \<in> set (preRules svc). \<not> rule_requestOnly r \<and> \<not> tenantMismatch r ctx' \<longrightarrow>
        rule_priority h < rule_priority r)"
proof -
  let ?F = "{r \<in> set (preRules svc). \<not> rule_requestOnly r \<and> \<not> tenantMismatch r ctx'}"
  have mm: "tenantMismatch r ctx = tenantMismatch r ctx'" for r
    using same by (rule tenantMismatch_same)
  have "matches r ctx = matches r ctx'"
    if mem: "r \<in> set (preRules svc)" and ro: "rule_requestOnly r" for r
  proof -
    obtain row where "row \<in> set table" "toRecord row = Inr r"
      using loaded_rules [OF loaded, of r] mem by auto
    then show ?thesis
      using requestOnly_matches [OF validated_known [OF valid] same] ro toRecord_fields by blast
  qed
  then have scan: "requestOnlyScan c ctx (preRules svc) = requestOnlyScan c ctx' (preRules svc)" for c
    using mm by (rule requestOnlyScan_cong)
  obtain rs where rs: "svc = rebuild rs" using loaded by (auto simp: reload_def map_r_def bind_r_eq_Inr)
  have cut: "below p (featureDependentCutoff svc (ctx_tenant ctx)) \<longleftrightarrow> (\<forall>r \<in> ?F. p < rule_priority r)" for p
    using below_cutoff [OF tenant, of p rs] by (auto simp: rs mm)
  show ?thesis
    using requestOnlyScan_iff [OF reload_sorted(1) [OF loaded] cut, of ctx' h]
    by (auto simp: evaluateRequestOnlyPre_def evaluate_stage_def scan)
qed

text \<open>
  C18: The request-only PRE pass, run before the feature load, returns a hit exactly when the
  full ordered PRE pass (with any features) returns that same hit, the hit reads no feature
  and it strictly outranks every feature-dependent PRE rule the tenant can see.
\<close>

theorem request_only_pass_exact:
  assumes loaded: "reload table svc0 = Inr svc"
    and valid: "\<And>row. row \<in> set table \<Longrightarrow> validated_row catalog row"
    and tenant: "ctx_tenant ctx = Some t"
    and same: "same_request ctx ctx'"
  shows "evaluateRequestOnlyPre svc ctx = Some (h, PRE) \<longleftrightarrow>
     evaluate_stage svc PRE ctx' = Some (h, PRE) \<and> rule_requestOnly h \<and>
     (\<forall>r \<in> set (preRules svc). \<not> rule_requestOnly r \<and> \<not> tenantMismatch r ctx' \<longrightarrow>
        rule_priority h < rule_priority r)"
  using assms by (rule request_only_pass)

definition sample_row :: rule_row where
  "sample_row = \<lparr>row_id = ''r1'', row_name = ''embargo'', row_description = None,
     row_stage = PRE, row_priority = 10, row_action = DENY,
     row_expression = JObj [(''in'', JArr [JObj [(''var'', JStr ''ip_country'')], JArr [JStr ''KP'']])],
     row_isActive = True, row_createdBy = None, row_tenantId = None, row_createdAt = 0\<rparr>"

definition sample_feature_row :: rule_row where
  "sample_feature_row = sample_row
     \<lparr>row_id := ''r2'', row_priority := 20,
      row_expression := JObj [(''not'', JObj [(''var'', JStr ''features.hop_count'')])]\<rparr>"

definition sample_ctx :: rule_ctx where
  "sample_ctx = [(''tenant_id'', JStr ''acme''), (''ip_country'', JStr ''KP'')]"

definition sample_svc :: rules_service where
  "sample_svc = (case reload [sample_feature_row, sample_row] initial_service of
     Inr s \<Rightarrow> s | Inl _ \<Rightarrow> initial_service)"

lemma sample_rows_valid:
  "validated_row [''hop_count''] sample_row" "validated_row [''hop_count''] sample_feature_row"
  by code_simp+

lemma sample_loaded: "reload [sample_feature_row, sample_row] initial_service = Inr sample_svc"
  by code_simp

lemma sample_tenant: "ctx_tenant sample_ctx = Some ''acme''"
  by code_simp

theorem request_only_pass_exact_witness:
  "evaluateRequestOnlyPre sample_svc sample_ctx = Some (hd (preRules sample_svc), PRE) \<and>
   evaluate_stage sample_svc PRE (sample_ctx @ [(''features'', JObj [])])
     = Some (hd (preRules sample_svc), PRE)"
proof -
  have valid: "validated_row [''hop_count''] row" if "row \<in> set [sample_feature_row, sample_row]" for row
    using that sample_rows_valid by auto
  have same: "same_request sample_ctx (sample_ctx @ [(''features'', JObj [])])"
    by (simp add: sample_ctx_def)
  have "evaluateRequestOnlyPre sample_svc sample_ctx = Some (hd (preRules sample_svc), PRE)"
    by code_simp
  then show ?thesis
    using request_only_pass_exact [OF sample_loaded valid sample_tenant same] by blast
qed

text \<open>
  After a successful reload, a pass returns a visible matching active rule of its stage of
  least priority, whatever the order of the table; it returns nothing exactly when no active
  rule of the stage is visible and matches.
\<close>

theorem evaluate_stage_first:
  assumes "reload table svc0 = Inr svc"
  shows "case evaluate_stage svc stage ctx of
      None \<Rightarrow> \<forall>r \<in> active_rules table stage. \<not> visible_match ctx r
    | Some (h, s) \<Rightarrow> s = stage \<and> h \<in> active_rules table stage \<and> visible_match ctx h \<and>
        (\<forall>r \<in> active_rules table stage. visible_match ctx r \<longrightarrow> rule_priority h \<le> rule_priority r)"
proof -
  let ?rs = "if stage = PRE then preRules svc else postRules svc"
  have set: "set ?rs = active_rules table stage" using loaded_set [OF assms] by simp
  show ?thesis
  proof (cases "find (visible_match ctx) ?rs")
    case None
    then show ?thesis using set find_None_iff [of "visible_match ctx" ?rs]
      by (simp add: evaluate_stage_def)
  next
    case (Some h)
    have "\<forall>r \<in> set ?rs. visible_match ctx r \<longrightarrow> rule_priority h \<le> rule_priority r"
      by (rule find_sorted_least [OF _ Some]) (use reload_sorted [OF assms] in simp)
    then show ?thesis
      using find_in_set [OF Some] Some set by (simp add: evaluate_stage_def)
  qed
qed

theorem evaluate_stage_first_witness:
  "case evaluate_stage sample_svc PRE sample_ctx of
      None \<Rightarrow> \<forall>r \<in> active_rules [sample_feature_row, sample_row] PRE. \<not> visible_match sample_ctx r
    | Some (h, s) \<Rightarrow> s = PRE \<and> h \<in> active_rules [sample_feature_row, sample_row] PRE \<and>
        visible_match sample_ctx h \<and>
        (\<forall>r \<in> active_rules [sample_feature_row, sample_row] PRE.
           visible_match sample_ctx r \<longrightarrow> rule_priority h \<le> rule_priority r)"
  by (rule evaluate_stage_first [OF sample_loaded])

section \<open>Administration keeps the table valid\<close>

definition table_ok :: "string list \<Rightarrow> rule_row list \<Rightarrow> bool" where
  "table_ok catalog table =
     (distinct (map row_id table) \<and>
      list_all (\<lambda>r. validateExpression catalog (row_expression r) POST = Inr ()) table)"

text \<open>One administrative operation; ids come from a generator that does not repeat one.\<close>

inductive admin_step :: "string list \<Rightarrow> rules_world \<Rightarrow> rules_world \<Rightarrow> bool"
  for catalog :: "string list" where
  create: "new_id \<notin> row_id ` set (rw_table w) \<Longrightarrow>
     admin_step catalog w (snd (create_rule catalog new_id now query_ok inp w))"
| update: "admin_step catalog w (snd (update_rule catalog query_ok i patch w))"
| delete: "admin_step catalog w (snd (delete_rule query_ok i w))"
| reload: "reload (rw_table w) (rw_svc w) = Inr svc \<Longrightarrow> admin_step catalog w (w\<lparr>rw_svc := svc\<rparr>)"

inductive_cases admin_stepE: "admin_step catalog w w'"

lemma refresh_table [simp]:
  "rw_table (refresh q w) = rw_table w" "rw_published (refresh q w) = Suc (rw_published w)"
  by (simp_all add: refresh_def Let_def)

lemma refresh_cache:
  "reload (rw_table w) (rw_svc w) = Inr svc \<Longrightarrow> rw_svc (refresh True w) = svc"
  by (simp add: refresh_def Let_def)

lemma validate_POST:
  "validateExpression catalog e stage = Inr () \<Longrightarrow> validateExpression catalog e POST = Inr ()"
  using wf_expr_mono knownVars_mono by (auto simp: validateExpression_iff)

lemma create_rule_table_ok:
  assumes "table_ok catalog (rw_table w)" and "new_id \<notin> row_id ` set (rw_table w)"
  shows "table_ok catalog (rw_table (snd (create_rule catalog new_id now q inp w)))"
  using assms validate_POST
  by (auto simp: table_ok_def create_rule_def Let_def split: sum.splits)

lemma patch_ids: "map row_id (patchById i p table) = map row_id table"
  by (induction table) (auto simp: patchById_def patch_row_def)

lemma update_rule_table_ok:
  assumes "table_ok catalog (rw_table w)"
  shows "table_ok catalog (rw_table (snd (update_rule catalog q i patch w)))"
proof -
  have patched: "table_ok catalog (patchById i patch (rw_table w))"
    if ok: "\<And>e. ui_expression patch = Some e \<Longrightarrow> validateExpression catalog e POST = Inr ()"
  proof -
    have "validateExpression catalog (row_expression (patch_row patch r)) POST = Inr ()"
      if "r \<in> set (rw_table w)" for r
      using that assms ok
      by (auto simp: table_ok_def list_all_iff patch_row_def or_else_def split: option.splits)
    then show ?thesis
      using assms unfolding table_ok_def patch_ids by (auto simp: list_all_iff patchById_def)
  qed
  show ?thesis
  proof (cases "ui_expression patch")
    case None
    then show ?thesis using patched assms by (simp add: update_rule_def Let_def)
  next
    case (Some e)
    show ?thesis
    proof (cases "rule_findById i (rw_table w)")
      case None
      then show ?thesis using Some assms by (simp add: update_rule_def Let_def)
    next
      case (Some r)
      let ?v = "validateExpression catalog e (or_else (ui_stage patch) (row_stage r))"
      show ?thesis
        using patched validate_POST [of catalog e] assms Some \<open>ui_expression patch = Some e\<close>
        by (cases ?v) (auto simp: update_rule_def Let_def)
    qed
  qed
qed

lemma delete_rule_table_ok:
  assumes "table_ok catalog (rw_table w)"
  shows "table_ok catalog (rw_table (snd (delete_rule q i w)))"
  using assms
  by (auto simp: table_ok_def delete_rule_def rule_deleteById_def Let_def list_all_iff distinct_map_filter)

lemma admin_step_table_ok:
  "admin_step catalog w w' \<Longrightarrow> table_ok catalog (rw_table w) \<Longrightarrow> table_ok catalog (rw_table w')"
  by (induction rule: admin_step.induct)
    (simp_all add: create_rule_table_ok update_rule_table_ok delete_rule_table_ok)

text \<open>
  Whatever sequence of creates, updates, deletes and reloads an administrator runs from
  an empty table, every stored rule passes validation against the POST vocabulary (shape,
  depth and node bounds included) and ids stay distinct.
\<close>

theorem admin_keeps_table_valid:
  assumes "(admin_step catalog)\<^sup>*\<^sup>* \<lparr>rw_table = [], rw_svc = initial_service, rw_published = 0\<rparr> w"
  shows "table_ok catalog (rw_table w)"
  using assms by (induction rule: rtranclp_induct) (auto simp: admin_step_table_ok table_ok_def [of _ "[]"])

definition sample_create :: create_rule_input where
  "sample_create = \<lparr>ci_name = ''score floor'', ci_action = REVIEW,
     ci_expression = JObj [(''not'', JObj [(''var'', JStr ''ml_score'')])], ci_description = None,
     ci_stage = None, ci_priority = None, ci_tenantId = None, ci_isActive = Some True,
     ci_createdBy = None\<rparr>"

definition sample_world :: rules_world where
  "sample_world = snd (create_rule [] ''r9'' 0 True sample_create
     \<lparr>rw_table = [], rw_svc = initial_service, rw_published = 0\<rparr>)"

theorem admin_keeps_table_valid_witness:
  "table_ok [] (rw_table sample_world) \<and> length (rw_table sample_world) = 1"
proof -
  have "admin_step [] \<lparr>rw_table = [], rw_svc = initial_service, rw_published = 0\<rparr> sample_world"
    unfolding sample_world_def by (rule admin_step.create) simp
  then have "table_ok [] (rw_table sample_world)"
    using admin_keeps_table_valid [OF r_into_rtranclp] by blast
  moreover have "length (rw_table sample_world) = 1" by code_simp
  ultimately show ?thesis by simp
qed

text \<open>
  A create request either reports the validation problems and changes nothing, or stores
  one row with the documented defaults, broadcasts one invalidation and, when the reload after
  it succeeds, serves exactly the cache of the new table; a failed reload keeps the old cache.
\<close>

theorem create_rule_outcome:
  "case create_rule catalog new_id now query_ok inp w of
     (Inl problems, w') \<Rightarrow>
       w' = w \<and> problems \<noteq> [] \<and>
       Inl problems = validateExpression catalog (ci_expression inp) (or_else (ci_stage inp) POST)
   | (Inr row, w') \<Rightarrow>
       rw_table w' = rw_table w @ [row] \<and> rw_published w' = Suc (rw_published w) \<and>
       row_isActive row = (ci_isActive inp = Some True) \<and>
       (ci_stage inp = None \<longrightarrow> row_stage row = POST) \<and> (ci_priority inp = None \<longrightarrow> row_priority row = 100) \<and>
       rw_svc w' = (case reload (rw_table w') (rw_svc w) of
                      Inr svc \<Rightarrow> if query_ok then svc else rw_svc w
                    | Inl _ \<Rightarrow> rw_svc w)"
proof (cases "validateExpression catalog (ci_expression inp) (or_else (ci_stage inp) POST)")
  case (Inl ps)
  then show ?thesis by (auto simp: create_rule_def Let_def validateExpression_def split: prod.splits if_splits)
next
  case (Inr u)
  then show ?thesis
    by (auto simp: create_rule_def Let_def refresh_def or_else_def split: sum.splits option.splits)
qed

theorem create_rule_outcome_witness:
  "case create_rule [] ''r9'' 0 True sample_create sample_world of
     (Inl problems, w') \<Rightarrow> False
   | (Inr row, w') \<Rightarrow> rw_table w' = rw_table sample_world @ [row] \<and> row_priority row = 100"
proof -
  have "ci_priority sample_create = None" by code_simp
  moreover have "is_ok (fst (create_rule [] ''r9'' 0 True sample_create sample_world))" by code_simp
  ultimately show ?thesis
    using create_rule_outcome [where catalog = "[]" and new_id = "''r9''" and now = 0 and
        query_ok = True and inp = sample_create and w = sample_world]
    by (auto split: prod.splits sum.splits)
qed

section \<open>Where the code and its intent part\<close>

text \<open>
  A string expression passes validation, and when it is not the text of a JSON value the
  row that stores it makes every reload fail: the cache stays at its last content.
\<close>

theorem string_expression_stops_reload:
  assumes "row \<in> set table" and "row_isActive row" and "row_expression row = JStr s"
    and "json_parse s = None"
  shows "validateExpression catalog (row_expression row) (row_stage row) = Inr () \<and>
     (\<exists>e. reload table svc = Inl e)"
proof -
  have "toRecord row = Inl (RuleError ''SyntaxError'')" using assms(3,4) by (simp add: toRecord_def)
  moreover have "row \<in> set (listActiveOrdered table)" using assms(1,2) by (simp add: listActiveOrdered_def)
  ultimately have "\<not> (\<exists>rs. mapM_r toRecord (listActiveOrdered table) = Inr rs)"
    using mapM_r_target by fastforce
  then have "\<exists>e. reload table svc = Inl e"
    by (cases "mapM_r toRecord (listActiveOrdered table)") (auto simp: reload_def)
  then show ?thesis using assms(3)
    by (simp add: validateExpression_iff MAX_DEPTH_def MAX_NODES_def)
qed

theorem string_expression_stops_reload_witness:
  "\<exists>e. reload [sample_row, sample_row\<lparr>row_expression := JStr ''deny''\<rparr>] sample_svc = Inl e"
proof -
  have "json_parse ''deny'' = None" by code_simp
  then show ?thesis
    using string_expression_stops_reload [of "sample_row\<lparr>row_expression := JStr ''deny''\<rparr>"
      "[sample_row, sample_row\<lparr>row_expression := JStr ''deny''\<rparr>]" "''deny''" "[]" sample_svc]
    by (simp add: sample_row_def)
qed

text \<open>
  An \<open>and\<close> over something that is not an array passes validation, and the rule throws on
  every transaction: it is skipped and never matches.
\<close>

theorem unshaped_and_never_matches:
  "validateExpression catalog (JObj [(''and'', JObj [(''var'', JStr ''amount'')])]) stage = Inr () \<and>
   evaluate (JObj [(''and'', JObj [(''var'', JStr ''amount'')])]) ctx = Inl TypeError"
proof -
  have "wf_expr (knownVars catalog stage) (JObj [(''and'', JObj [(''var'', JStr ''amount'')])])"
    by (simp add: RULE_OPERATORS_def knownVars_def REQUEST_VARS_def)
  then show ?thesis
    by (simp add: validateExpression_iff evaluate_def evaluateAny_eqs evalOp_eqs MAX_DEPTH_def MAX_NODES_def)
qed

text \<open>
  An update that only moves a rule from POST to PRE is not validated again: a rule on
  \<open>ml_score\<close> becomes an active PRE rule that validation for PRE rejects.
\<close>

theorem stage_update_not_revalidated:
  "let (res, w) = update_rule [] True ''r9''
       \<lparr>ui_name = None, ui_description = None, ui_stage = Some PRE, ui_priority = None,
        ui_action = None, ui_expression = None, ui_isActive = None\<rparr> sample_world
   in map row_stage (rw_table w) = [PRE] \<and>
      map (\<lambda>r. validateExpression [] (row_expression r) (row_stage r)) (rw_table w)
        = [Inl [UnknownVariable ''ml_score'']] \<and>
      map rule_id (preRules (rw_svc w)) = [''r9'']"
  by code_simp

text \<open>
  Without a tenant in the request the short circuit ignores the feature rules of tenants,
  which the full pass does evaluate: the two passes then return different rules.
\<close>

theorem tenantless_short_circuit_differs:
  "let svc = (case reload [sample_row\<lparr>row_priority := 30\<rparr>,
                  sample_feature_row\<lparr>row_tenantId := Some ''acme''\<rparr>] initial_service of
                Inr s \<Rightarrow> s | Inl _ \<Rightarrow> initial_service);
       ctx = [(''ip_country'', JStr ''KP'')]
   in map_option (\<lambda>(r, _). rule_id r) (evaluateRequestOnlyPre svc ctx) = Some ''r1'' \<and>
      map_option (\<lambda>(r, _). rule_id r) (evaluate_stage svc PRE (ctx @ [(''features'', JObj [])])) = Some ''r2''"
  by code_simp

end
