(* ===== verification/VelocityService.thy ===== *)
theory VelocityService
  imports JsValue "HOL-Library.Multiset"
begin

text \<open>
  \<open>paa-service/src/services/velocity.service.ts\<close>: per-sender buffers of recent transactions
  kept in ascending time order, the window metrics computed from them, and the retention
  that bounds them. Timestamps are milliseconds (\<open>int\<close>), amounts are reals, \<open>Date.now()\<close> is
  the argument \<open>now\<close>, the two limits of the configuration are a record. Log and metric
  calls are not modelled.
\<close>

section \<open>Data\<close>

record txn =
  txn_timestamp :: int
  txn_amount :: real
  txn_type :: string
  txn_receiver :: string

record txn_event =
  ev_sender_id :: string
  ev_receiver_id :: string
  ev_amount :: real
  ev_transaction_type :: string
  ev_timestamp :: int

record velocity_cfg =
  maxTransactionsPerUser :: nat
  maxTrackedUsers :: nat

type_synonym velocity_state = "(string, txn list) omap"

record velocity_metrics =
  velocity_1m :: nat
  velocity_5m :: nat
  velocity_15m :: nat
  velocity_1h :: nat
  velocity_24h :: nat
  velocity_7d :: nat
  amount_mean_24h :: real
  amount_max_24h :: real
  avg_amount_30d :: real
  std_amount_30d :: real
  unique_receivers_24h :: nat
  unique_receivers_7d :: nat
  hour_dev_from_norm :: real
  time_since_last_txn :: int

record pair_velocity_metrics =
  forwardCount30d :: nat
  pair_amountMean30d :: real
  pair_roundTripCount30d :: nat
  pair_secondsSincePrevSend :: "int option"

definition ONE_MINUTE :: int where "ONE_MINUTE = 60 * 1000"
definition FIVE_MINUTES :: int where "FIVE_MINUTES = 5 * 60 * 1000"
definition FIFTEEN_MINUTES :: int where "FIFTEEN_MINUTES = 15 * 60 * 1000"
definition ONE_HOUR :: int where "ONE_HOUR = 60 * 60 * 1000"
definition ONE_DAY :: int where "ONE_DAY = 24 * 60 * 60 * 1000"
definition SEVEN_DAYS :: int where "SEVEN_DAYS = 7 * 24 * 60 * 60 * 1000"
definition THIRTY_DAYS :: int where "THIRTY_DAYS = 30 * 24 * 60 * 60 * 1000"

lemmas window_defs = ONE_MINUTE_def FIVE_MINUTES_def FIFTEEN_MINUTES_def ONE_HOUR_def
  ONE_DAY_def SEVEN_DAYS_def THIRTY_DAYS_def

section \<open>Writing\<close>

text \<open>The binary search of \<open>insertAscending\<close>.\<close>

function upper_bound :: "txn list \<Rightarrow> int \<Rightarrow> nat \<Rightarrow> nat \<Rightarrow> nat" where
  "upper_bound xs t lo hi =
     (if lo < hi then
        (let mid = (lo + hi) div 2 in
         if txn_timestamp (xs ! mid) \<le> t then upper_bound xs t (mid + 1) hi
         else upper_bound xs t lo mid)
      else lo)"
  by pat_completeness auto
termination by (relation "measure (\<lambda>(_, _, lo, hi). hi - lo)") auto

declare upper_bound.simps [simp del]

definition insertAscending :: "txn list \<Rightarrow> txn \<Rightarrow> txn list" where
  "insertAscending xs r =
     (if xs = [] \<or> txn_timestamp (last xs) \<le> txn_timestamp r then xs @ [r]
      else let lo = upper_bound xs (txn_timestamp r) 0 (length xs)
           in take lo xs @ r # drop lo xs)"

definition evictOutOfWindow :: "velocity_cfg \<Rightarrow> txn list \<Rightarrow> int \<Rightarrow> txn list" where
  "evictOutOfWindow cfg xs now =
     (let cutoff = now - THIRTY_DAYS;
          fresh = dropWhile (\<lambda>x. txn_timestamp x < cutoff) xs
      in drop (length fresh - maxTransactionsPerUser cfg) fresh)"

definition recordTransaction ::
    "velocity_cfg \<Rightarrow> int \<Rightarrow> txn_event \<Rightarrow> velocity_state \<Rightarrow> velocity_state" where
  "recordTransaction cfg now ev st =
     (let r = \<lparr>txn_timestamp = ev_timestamp ev, txn_amount = ev_amount ev,
               txn_type = ev_transaction_type ev, txn_receiver = ev_receiver_id ev\<rparr>;
          xs = (case om_get st (ev_sender_id ev) of None \<Rightarrow> [] | Some xs \<Rightarrow> xs)
      in om_set (ev_sender_id ev) (evictOutOfWindow cfg (insertAscending xs r) now) st)"

section \<open>Reading\<close>

text \<open>The loop stops at the first record older than the window.\<close>

fun countInWindow :: "txn list \<Rightarrow> int \<Rightarrow> int \<Rightarrow> nat" where
  "countInWindow [] now w = 0"
| "countInWindow (x # xs) now w =
     (if now - w \<le> txn_timestamp x then Suc (countInWindow xs now w) else 0)"

definition filterByWindow :: "txn list \<Rightarrow> int \<Rightarrow> int \<Rightarrow> txn list" where
  "filterByWindow xs now w = filter (\<lambda>x. now - w \<le> txn_timestamp x) xs"

definition countUniqueReceivers :: "txn list \<Rightarrow> nat" where
  "countUniqueReceivers xs = length (remdups (filter (\<lambda>r. r \<noteq> []) (map txn_receiver xs)))"

definition round2 :: "real \<Rightarrow> real" where
  "round2 x = of_int (js_round (x * 100)) / 100"

definition calculateAmountStats :: "txn list \<Rightarrow> real \<times> real" where
  "calculateAmountStats xs =
     (if xs = [] then (0, 0)
      else
        let avg = sum_list (map txn_amount xs) / real (length xs) in
        if length xs = 1 then (avg, 0)
        else
          let variance = sum_list (map (\<lambda>x. (txn_amount x - avg)\<^sup>2) xs) / real (length xs)
          in (round2 avg, round2 (sqrt variance)))"

text \<open>\<open>Math.atan2(y, x)\<close> and the remainder by 24 of a positive number.\<close>

definition atan2 :: "real \<Rightarrow> real \<Rightarrow> real" where
  "atan2 y x =
     (if 0 < x then arctan (y / x)
      else if x < 0 then (if 0 \<le> y then arctan (y / x) + pi else arctan (y / x) - pi)
      else if 0 < y then pi / 2 else if y < 0 then - (pi / 2) else 0)"

definition rem24 :: "real \<Rightarrow> real" where
  "rem24 x = x - 24 * of_int \<lfloor>x / 24\<rfloor>"

definition hourDeviationFromNorm :: "txn list \<Rightarrow> int \<Rightarrow> real" where
  "hourDeviationFromNorm xs now =
     (if xs = [] then 0
      else
        let angles = map (\<lambda>x. (of_int (utc_hour (txn_timestamp x)) / 24) * 2 * pi) xs;
            sinSum = sum_list (map sin angles);
            cosSum = sum_list (map cos angles)
        in if sinSum = 0 \<and> cosSum = 0 then 0
           else
             let typicalHour = rem24 ((atan2 sinSum cosSum / (2 * pi)) * 24 + 24);
                 rawDistance = \<bar>of_int (utc_hour now) - typicalHour\<bar>
             in round2 (min rawDistance (24 - rawDistance)))"

definition getDefaultMetrics :: velocity_metrics where
  "getDefaultMetrics =
     \<lparr>velocity_1m = 0, velocity_5m = 0, velocity_15m = 0, velocity_1h = 0, velocity_24h = 0,
      velocity_7d = 0, amount_mean_24h = 0, amount_max_24h = 0, avg_amount_30d = 0,
      std_amount_30d = 0, unique_receivers_24h = 0, unique_receivers_7d = 0,
      hour_dev_from_norm = 0, time_since_last_txn = 0\<rparr>"

definition metrics_of :: "txn list \<Rightarrow> int \<Rightarrow> velocity_metrics" where
  "metrics_of newest now =
     (let dayT = filterByWindow newest now ONE_DAY;
          weekT = filterByWindow newest now SEVEN_DAYS;
          monthT = filterByWindow newest now THIRTY_DAYS;
          (avg24, _) = calculateAmountStats dayT;
          (avg30, std30) = calculateAmountStats monthT
      in \<lparr>velocity_1m = countInWindow newest now ONE_MINUTE,
          velocity_5m = countInWindow newest now FIVE_MINUTES,
          velocity_15m = countInWindow newest now FIFTEEN_MINUTES,
          velocity_1h = countInWindow newest now ONE_HOUR,
          velocity_24h = countInWindow newest now ONE_DAY,
          velocity_7d = countInWindow newest now SEVEN_DAYS,
          amount_mean_24h = avg24,
          amount_max_24h = foldl (\<lambda>m x. max m (txn_amount x)) 0 dayT,
          avg_amount_30d = avg30, std_amount_30d = std30,
          unique_receivers_24h = countUniqueReceivers dayT,
          unique_receivers_7d = countUniqueReceivers weekT,
          hour_dev_from_norm = hourDeviationFromNorm monthT now,
          time_since_last_txn =
            (case newest of [] \<Rightarrow> 0 | x # _ \<Rightarrow> (now - txn_timestamp x) div 1000)\<rparr>)"

definition calculateMetrics :: "velocity_state \<Rightarrow> string \<Rightarrow> int \<Rightarrow> velocity_metrics" where
  "calculateMetrics st userId now =
     (case om_get st userId of
        None \<Rightarrow> getDefaultMetrics
      | Some xs \<Rightarrow> if xs = [] then getDefaultMetrics else metrics_of (rev xs) now)"

definition buffer_of :: "velocity_state \<Rightarrow> string \<Rightarrow> txn list" where
  "buffer_of st u = (case om_get st u of None \<Rightarrow> [] | Some xs \<Rightarrow> xs)"

definition calculatePairMetrics ::
    "velocity_state \<Rightarrow> string \<Rightarrow> string \<Rightarrow> int \<Rightarrow> pair_velocity_metrics" where
  "calculatePairMetrics st sender receiver now =
     (let forward = rev (filter (\<lambda>x. txn_receiver x = receiver) (buffer_of st sender));
          back = filter (\<lambda>x. txn_receiver x = sender) (buffer_of st receiver);
          forward30 = filterByWindow forward now THIRTY_DAYS;
          back30 = filterByWindow back now THIRTY_DAYS
      in \<lparr>forwardCount30d = length forward30,
          pair_amountMean30d = fst (calculateAmountStats forward30),
          pair_roundTripCount30d = min (length forward30) (length back30),
          pair_secondsSincePrevSend =
            (case forward of
               a # b # _ \<Rightarrow> Some ((txn_timestamp a - txn_timestamp b) div 1000)
             | _ \<Rightarrow> None)\<rparr>)"

section \<open>Retention\<close>

definition enforceTrackedUserCap :: "velocity_cfg \<Rightarrow> velocity_state \<Rightarrow> velocity_state" where
  "enforceTrackedUserCap cfg st =
     (let overage = length st - maxTrackedUsers cfg;
          lastSeen = map (\<lambda>(u, xs). (u, if xs = [] then 0 else txn_timestamp (last xs))) st;
          victims = map fst (take overage (sort_key snd lastSeen))
      in if length st \<le> maxTrackedUsers cfg then st
         else fold om_delete victims st)"

text \<open>
  One pass of the cleanup loop over a snapshot of the entries: a shrunken buffer replaces the
  old one, an emptied one is deleted.
\<close>

definition cleanup_entry :: "int \<Rightarrow> string \<times> txn list \<Rightarrow> velocity_state \<Rightarrow> velocity_state" where
  "cleanup_entry cutoff e st =
     (let (u, xs) = e; filtered = filter (\<lambda>x. cutoff \<le> txn_timestamp x) xs
      in if length filtered = length xs then st
         else if filtered = [] then om_delete u st
         else om_set u filtered st)"

definition cleanupOldTransactions :: "velocity_cfg \<Rightarrow> int \<Rightarrow> velocity_state \<Rightarrow> velocity_state" where
  "cleanupOldTransactions cfg now st =
     enforceTrackedUserCap cfg (fold (cleanup_entry (now - THIRTY_DAYS)) st st)"

definition getStats :: "velocity_state \<Rightarrow> nat \<times> nat" where
  "getStats st = (length st, sum_list (map (\<lambda>(_, xs). length xs) st))"

section \<open>The buffers stay sorted\<close>

abbreviation ascending :: "txn list \<Rightarrow> bool" where
  "ascending xs \<equiv> sorted (map txn_timestamp xs)"

lemma upper_bound_between: "lo \<le> hi \<Longrightarrow> lo \<le> upper_bound xs t lo hi \<and> upper_bound xs t lo hi \<le> hi"
proof (induction xs t lo hi rule: upper_bound.induct)
  case (1 xs t lo hi)
  note step = upper_bound.simps [of xs t lo hi]
  show ?case
  proof (cases "lo < hi")
    case True
    with 1 show ?thesis
      unfolding step Let_def by (cases "txn_timestamp (xs ! ((lo + hi) div 2)) \<le> t") fastforce+
  qed (simp add: step 1(3))
qed

lemma upper_bound_split:
  assumes "ascending xs" and "hi \<le> length xs" and "lo \<le> hi"
    and "\<forall>i < lo. txn_timestamp (xs ! i) \<le> t"
    and "\<forall>i. hi \<le> i \<and> i < length xs \<longrightarrow> t < txn_timestamp (xs ! i)"
  shows "(\<forall>i < upper_bound xs t lo hi. txn_timestamp (xs ! i) \<le> t) \<and>
         (\<forall>i. upper_bound xs t lo hi \<le> i \<and> i < length xs \<longrightarrow> t < txn_timestamp (xs ! i))"
  using assms
proof (induction xs t lo hi rule: upper_bound.induct)
  case (1 xs t lo hi)
  show ?case
  proof (cases "lo < hi")
    case False
    with "1.prems" have "upper_bound xs t lo hi = lo" "lo = hi" by (simp_all add: upper_bound.simps)
    with "1.prems" show ?thesis by simp
  next
    case True
    define mid where "mid = (lo + hi) div 2"
    have mid: "lo \<le> mid" "mid < hi" using True by (auto simp: mid_def)
    have mono: "i \<le> j \<Longrightarrow> j < length xs \<Longrightarrow> txn_timestamp (xs ! i) \<le> txn_timestamp (xs ! j)" for i j
      using "1.prems"(1) sorted_nth_mono [of "map txn_timestamp xs" i j] by simp
    show ?thesis
    proof (cases "txn_timestamp (xs ! mid) \<le> t")
      case le: True
      have "\<forall>i < mid + 1. txn_timestamp (xs ! i) \<le> t"
        using mono [of _ mid] le mid "1.prems"(2) by (auto simp: less_Suc_eq_le intro: order_trans)
      moreover have "upper_bound xs t lo hi = upper_bound xs t (mid + 1) hi"
        using True le by (simp add: upper_bound.simps [of xs t lo hi] mid_def [symmetric] Let_def)
      ultimately show ?thesis
        using "1.IH"(1) [OF True mid_def le "1.prems"(1,2)] "1.prems"(5) mid(2) by simp
    next
      case gt: False
      have later: "\<forall>i. mid \<le> i \<and> i < length xs \<longrightarrow> t < txn_timestamp (xs ! i)"
        using mono [of mid] gt by (metis not_le order_trans)
      have eq: "upper_bound xs t lo hi = upper_bound xs t lo mid"
        using True gt by (simp add: upper_bound.simps [of xs t lo hi] mid_def [symmetric] Let_def)
      have "mid \<le> length xs" using mid "1.prems"(2) by linarith
      then show ?thesis unfolding eq
        by (rule "1.IH"(2) [OF True mid_def gt "1.prems"(1) _ mid(1) "1.prems"(4) later])
    qed
  qed
qed

text \<open>A sorted buffer is cut at the search result into the earlier-or-equal and the later part.\<close>

lemma insertAscending_eq:
  assumes "ascending xs"
  shows "insertAscending xs r =
     takeWhile (\<lambda>x. txn_timestamp x \<le> txn_timestamp r) xs @ r #
     dropWhile (\<lambda>x. txn_timestamp x \<le> txn_timestamp r) xs"
proof (cases "xs = [] \<or> txn_timestamp (last xs) \<le> txn_timestamp r")
  case True
  have "\<forall>x \<in> set xs. txn_timestamp x \<le> txn_timestamp r"
  proof
    fix x assume "x \<in> set xs"
    then obtain i where i: "i < length xs" "x = xs ! i" by (auto simp: in_set_conv_nth)
    then have "xs \<noteq> []" by auto
    with i assms have "txn_timestamp x \<le> txn_timestamp (last xs)"
      using sorted_nth_mono [of "map txn_timestamp xs" i "length xs - 1"] by (simp add: last_conv_nth)
    with True \<open>xs \<noteq> []\<close> show "txn_timestamp x \<le> txn_timestamp r" by simp
  qed
  then have tw: "takeWhile (\<lambda>x. txn_timestamp x \<le> txn_timestamp r) xs = xs"
      "dropWhile (\<lambda>x. txn_timestamp x \<le> txn_timestamp r) xs = []"
    by (simp_all only: takeWhile_eq_all_conv dropWhile_eq_Nil_conv)
  show ?thesis unfolding tw using True by (simp add: insertAscending_def)
next
  case False
  let ?n = "upper_bound xs (txn_timestamp r) 0 (length xs)"
  have n: "?n \<le> length xs" using upper_bound_between [of 0 "length xs"] by simp
  have sp: "\<forall>i < ?n. txn_timestamp (xs ! i) \<le> txn_timestamp r"
      "\<forall>i. ?n \<le> i \<and> i < length xs \<longrightarrow> txn_timestamp r < txn_timestamp (xs ! i)"
    using upper_bound_split [OF assms, of "length xs" 0 "txn_timestamp r"] by auto
  have "takeWhile (\<lambda>x. txn_timestamp x \<le> txn_timestamp r) xs = take ?n xs"
    by (rule takeWhile_eq_take_P_nth) (use sp n in \<open>auto simp: not_le\<close>)
  moreover from this have "dropWhile (\<lambda>x. txn_timestamp x \<le> txn_timestamp r) xs = drop ?n xs"
    by (metis append_take_drop_id dropWhile_eq_drop length_take min.absorb2 n)
  ultimately show ?thesis using False by (simp add: insertAscending_def Let_def)
qed

lemma insertAscending_mset [simp]: "mset (insertAscending xs r) = add_mset r (mset xs)"
proof (cases "xs = [] \<or> txn_timestamp (last xs) \<le> txn_timestamp r")
  case False
  let ?n = "upper_bound xs (txn_timestamp r) 0 (length xs)"
  have "mset (take ?n xs) + mset (drop ?n xs) = mset xs"
    by (metis append_take_drop_id mset_append)
  with False show ?thesis by (simp add: insertAscending_def Let_def)
qed (auto simp: insertAscending_def)

lemma insertAscending_sorted: "ascending xs \<Longrightarrow> ascending (insertAscending xs r)"
proof -
  assume asc: "ascending xs"
  let ?P = "\<lambda>x. txn_timestamp x \<le> txn_timestamp r"
  have "ascending (takeWhile ?P xs @ dropWhile ?P xs)" using asc by simp
  then have parts: "ascending (takeWhile ?P xs)" "ascending (dropWhile ?P xs)"
    unfolding map_append sorted_append by blast+
  have later: "txn_timestamp r \<le> txn_timestamp x" if x: "x \<in> set (dropWhile ?P xs)" for x
  proof -
    have "dropWhile ?P xs \<noteq> []" using x by (metis empty_iff list.set(1))
    then have "txn_timestamp r < txn_timestamp (hd (dropWhile ?P xs))"
      using hd_dropWhile [of ?P xs] by simp
    moreover have "txn_timestamp (hd (dropWhile ?P xs)) \<le> txn_timestamp x"
      using parts(2) x by (cases "dropWhile ?P xs") auto
    ultimately show ?thesis by simp
  qed
  show ?thesis
    using parts later set_takeWhileD [of _ ?P xs]
    unfolding insertAscending_eq [OF asc] by (fastforce simp: sorted_append)
qed

lemma dropWhile_older:
  "ascending xs \<Longrightarrow> dropWhile (\<lambda>x. txn_timestamp x < c) xs = filter (\<lambda>x. c \<le> txn_timestamp x) xs"
  by (rule dropWhile_eq_filter_sorted)

lemma evict_eq:
  "ascending xs \<Longrightarrow> evictOutOfWindow cfg xs now =
     (let fresh = filter (\<lambda>x. now - THIRTY_DAYS \<le> txn_timestamp x) xs
      in drop (length fresh - maxTransactionsPerUser cfg) fresh)"
  by (simp add: evictOutOfWindow_def dropWhile_older Let_def)

lemma sorted_filter_txn: "ascending xs \<Longrightarrow> ascending (filter P xs)"
  by (induction xs) auto

lemma sorted_drop_txn: "ascending xs \<Longrightarrow> ascending (drop n xs)"
  by (simp add: drop_map [symmetric] sorted_wrt_drop)

lemma evict_sorted: "ascending xs \<Longrightarrow> ascending (evictOutOfWindow cfg xs now)"
  by (simp add: evict_eq Let_def sorted_drop_txn sorted_filter_txn)

lemma evict_length: "length (evictOutOfWindow cfg xs now) \<le> maxTransactionsPerUser cfg"
  by (simp add: evictOutOfWindow_def Let_def)

lemma evict_no_overflow:
  assumes "ascending xs" and "length xs \<le> maxTransactionsPerUser cfg"
  shows "evictOutOfWindow cfg xs now = filter (\<lambda>x. now - THIRTY_DAYS \<le> txn_timestamp x) xs"
proof -
  let ?f = "filter (\<lambda>x. now - THIRTY_DAYS \<le> txn_timestamp x) xs"
  have "length ?f \<le> maxTransactionsPerUser cfg" using length_filter_le assms(2) by (rule order_trans)
  then show ?thesis using assms(1) by (simp add: evict_eq Let_def)
qed

section \<open>Cleanup as one map operation\<close>

definition shrink :: "int \<Rightarrow> txn list \<Rightarrow> txn list option" where
  "shrink cutoff xs =
     (let f = filter (\<lambda>x. cutoff \<le> txn_timestamp x) xs
      in if length f = length xs then Some xs else if f = [] then None else Some f)"

lemma cleanup_entry_get:
  "om_get st u = Some xs \<Longrightarrow>
     om_get (cleanup_entry c (u, xs) st) v = (if v = u then shrink c xs else om_get st v)"
  by (auto simp: cleanup_entry_def shrink_def Let_def)

lemma cleanup_entry_other: "v \<noteq> u \<Longrightarrow> om_get (cleanup_entry c (u, xs) st) v = om_get st v"
  by (simp add: cleanup_entry_def Let_def)

lemma cleanup_fold_get:
  assumes "distinct (map fst es)" and "\<And>u xs. (u, xs) \<in> set es \<Longrightarrow> om_get st u = Some xs"
  shows "om_get (fold (cleanup_entry c) es st) v =
     (case map_of es v of Some xs \<Rightarrow> shrink c xs | None \<Rightarrow> om_get st v)"
  using assms
proof (induction es arbitrary: st)
  case (Cons e es)
  obtain u xs where e: "e = (u, xs)" by (cases e)
  have u: "om_get st u = Some xs" using Cons.prems(2) e by simp
  let ?st = "cleanup_entry c (u, xs) st"
  have "om_get ?st w = Some ys" if "(w, ys) \<in> set es" for w ys
  proof -
    have "w \<noteq> u" using Cons.prems(1) that e by (auto simp: rev_image_eqI)
    then show ?thesis using Cons.prems(2) that by (simp add: cleanup_entry_other)
  qed
  then have IH: "om_get (fold (cleanup_entry c) es ?st) v =
     (case map_of es v of Some xs \<Rightarrow> shrink c xs | None \<Rightarrow> om_get ?st v)"
    using Cons.IH Cons.prems(1) by simp
  have "map_of es u = None" using Cons.prems(1) e by (simp add: map_of_eq_None_iff)
  then show ?case using IH u by (auto simp: e cleanup_entry_get split: option.splits)
qed simp

lemma cleanup_get:
  assumes "om_wf st"
  shows "om_get (fold (cleanup_entry c) st st) v =
     (case om_get st v of Some xs \<Rightarrow> shrink c xs | None \<Rightarrow> None)"
  using cleanup_fold_get [of st st c v] assms
  by (auto simp: om_wf_def om_get_def split: option.splits)

lemma cleanup_entry_wf: "om_wf st \<Longrightarrow> om_wf (cleanup_entry c e st)"
  by (cases e) (simp add: cleanup_entry_def Let_def om_wf_set om_wf_delete)

lemma cleanup_fold_wf: "om_wf st \<Longrightarrow> om_wf (fold (cleanup_entry c) es st)"
  by (induction es arbitrary: st) (auto intro: cleanup_entry_wf)

lemma fold_delete_get:
  "om_get (fold om_delete vs st) u = (if u \<in> set vs then None else om_get st u)"
  by (induction vs arbitrary: st) auto

lemma fold_delete_wf: "om_wf st \<Longrightarrow> om_wf (fold om_delete vs st)"
  by (induction vs arbitrary: st) auto

lemma fold_delete_length:
  "om_wf st \<Longrightarrow> distinct vs \<Longrightarrow> set vs \<subseteq> set (om_keys st) \<Longrightarrow>
     length (fold om_delete vs st) = length st - length vs"
proof (induction vs arbitrary: st)
  case (Cons v vs)
  have present: "om_get st v \<noteq> None" using Cons.prems(3) om_get_keys [of v st] by simp
  have "length (om_delete v st) = length st - 1"
    unfolding length_om_delete [OF Cons.prems(1), of v] by (simp only: present if_False)
  moreover have "length (fold om_delete vs (om_delete v st)) = length (om_delete v st) - length vs"
    using Cons.prems by (intro Cons.IH) (auto simp: om_keys_delete)
  ultimately show ?case by simp
qed simp

section \<open>The state invariant\<close>

definition buffers_ok :: "velocity_cfg \<Rightarrow> velocity_state \<Rightarrow> bool" where
  "buffers_ok cfg st =
     (om_wf st \<and>
      (\<forall>u xs. om_get st u = Some xs \<longrightarrow> ascending xs \<and> length xs \<le> maxTransactionsPerUser cfg))"

lemma recordTransaction_get:
  "om_get (recordTransaction cfg now ev st) u =
     (if u = ev_sender_id ev
      then Some (evictOutOfWindow cfg (insertAscending (buffer_of st u)
             \<lparr>txn_timestamp = ev_timestamp ev, txn_amount = ev_amount ev,
              txn_type = ev_transaction_type ev, txn_receiver = ev_receiver_id ev\<rparr>) now)
      else om_get st u)"
  by (auto simp: recordTransaction_def buffer_of_def Let_def)

lemma buffers_ok_buffer: "buffers_ok cfg st \<Longrightarrow> ascending (buffer_of st u)"
  by (auto simp: buffers_ok_def buffer_of_def split: option.splits)

lemma recordTransaction_ok: "buffers_ok cfg st \<Longrightarrow> buffers_ok cfg (recordTransaction cfg now ev st)"
  using buffers_ok_buffer [of cfg st]
  by (auto simp: buffers_ok_def [of cfg "recordTransaction cfg now ev st"] recordTransaction_get
      intro: evict_sorted insertAscending_sorted evict_length)
    (auto simp: buffers_ok_def recordTransaction_def Let_def)

lemma shrink_ok:
  "shrink c xs = Some ys \<Longrightarrow> ascending xs \<Longrightarrow> ascending ys \<and> length ys \<le> length xs"
  by (auto simp: shrink_def Let_def sorted_filter_txn split: if_splits)

lemma enforce_get:
  "om_get (enforceTrackedUserCap cfg st) u = Some xs \<Longrightarrow> om_get st u = Some xs"
  by (auto simp: enforceTrackedUserCap_def Let_def fold_delete_get split: if_splits)

lemma enforce_wf: "om_wf st \<Longrightarrow> om_wf (enforceTrackedUserCap cfg st)"
  by (simp add: enforceTrackedUserCap_def Let_def fold_delete_wf)

lemma enforce_length:
  assumes "om_wf st"
  shows "length (enforceTrackedUserCap cfg st) = min (length st) (maxTrackedUsers cfg)"
proof (cases "length st \<le> maxTrackedUsers cfg")
  case False
  let ?ls = "map (\<lambda>(u, xs). (u, if xs = [] then 0 else txn_timestamp (last xs))) st"
  let ?n = "length st - maxTrackedUsers cfg"
  have fsts: "map fst ?ls = om_keys st" by (induction st) (auto simp: om_keys_def)
  have keys: "mset (map fst (sort_key snd ?ls)) = mset (om_keys st)"
    unfolding fsts [symmetric] mset_map mset_sort ..
  then have dist: "distinct (map fst (sort_key snd ?ls))"
    using assms mset_eq_imp_distinct_iff [of "map fst (sort_key snd ?ls)" "om_keys st"]
    by (simp add: om_wf_def om_keys_def)
  have sub: "set (map fst (sort_key snd ?ls)) = set (om_keys st)"
    using keys mset_eq_setD by blast
  have "length (fold om_delete (map fst (take ?n (sort_key snd ?ls))) st) =
      length st - length (map fst (take ?n (sort_key snd ?ls)))"
    using assms dist sub
    by (intro fold_delete_length) (auto simp: take_map [symmetric] distinct_take dest: in_set_takeD)
  then show ?thesis using False by (auto simp: enforceTrackedUserCap_def Let_def min_def split: if_splits)
qed (simp add: enforceTrackedUserCap_def Let_def min_def)

lemma cleanup_ok:
  assumes "buffers_ok cfg st"
  shows "buffers_ok cfg (cleanupOldTransactions cfg now st)"
proof -
  let ?st = "fold (cleanup_entry (now - THIRTY_DAYS)) st st"
  have wf: "om_wf st" using assms by (simp add: buffers_ok_def)
  have "ascending ys \<and> length ys \<le> maxTransactionsPerUser cfg"
    if ys: "om_get ?st u = Some ys" for u ys
  proof -
    obtain xs where xs: "om_get st u = Some xs" "shrink (now - THIRTY_DAYS) xs = Some ys"
      using ys cleanup_get [OF wf, of "now - THIRTY_DAYS" u] by (auto split: option.splits)
    then show ?thesis using shrink_ok assms unfolding buffers_ok_def by (meson order_trans)
  qed
  then show ?thesis
    using enforce_get [of cfg ?st] enforce_wf [OF cleanup_fold_wf [OF wf]]
    by (auto simp: buffers_ok_def cleanupOldTransactions_def)
qed

section \<open>Histories\<close>

text \<open>The calls a service makes over its life, each with the wall clock it reads.\<close>

datatype velocity_op = Rec int txn_event | Cleanup int

fun op_clock :: "velocity_op \<Rightarrow> int" where
  "op_clock (Rec now _) = now"
| "op_clock (Cleanup now) = now"

fun velocity_step :: "velocity_cfg \<Rightarrow> velocity_op \<Rightarrow> velocity_state \<Rightarrow> velocity_state" where
  "velocity_step cfg (Rec now ev) st = recordTransaction cfg now ev st"
| "velocity_step cfg (Cleanup now) st = cleanupOldTransactions cfg now st"

definition run_velocity :: "velocity_cfg \<Rightarrow> velocity_op list \<Rightarrow> velocity_state" where
  "run_velocity cfg ops = fold (velocity_step cfg) ops []"

text \<open>What a sender really sent: every recorded event, with nothing forgotten.\<close>

definition sent_by :: "string \<Rightarrow> velocity_op list \<Rightarrow> txn list" where
  "sent_by u ops = concat (map (\<lambda>op. case op of
     Rec _ ev \<Rightarrow> if ev_sender_id ev = u
       then [\<lparr>txn_timestamp = ev_timestamp ev, txn_amount = ev_amount ev,
              txn_type = ev_transaction_type ev, txn_receiver = ev_receiver_id ev\<rparr>] else []
   | Cleanup _ \<Rightarrow> []) ops)"

definition senders :: "velocity_op list \<Rightarrow> string set" where
  "senders ops = {ev_sender_id ev | ev now. Rec now ev \<in> set ops}"

lemma run_snoc: "run_velocity cfg (ops @ [op]) = velocity_step cfg op (run_velocity cfg ops)"
  by (simp add: run_velocity_def)

lemma run_ok: "buffers_ok cfg (run_velocity cfg ops)"
proof (induction ops rule: rev_induct)
  case (snoc op ops)
  then show ?case by (cases op) (simp_all add: run_snoc recordTransaction_ok cleanup_ok)
qed (simp add: run_velocity_def buffers_ok_def)

lemma sent_by_snoc: "sent_by u (ops @ [op]) = sent_by u ops @ sent_by u [op]"
  by (simp add: sent_by_def)

lemma senders_finite: "finite (senders ops)"
proof -
  have "senders ops \<subseteq> (\<lambda>op. case op of Rec _ ev \<Rightarrow> ev_sender_id ev | Cleanup _ \<Rightarrow> []) ` set ops"
    by (force simp: senders_def)
  then show ?thesis by (rule finite_subset) simp
qed

lemma keys_card: "om_wf st \<Longrightarrow> set (om_keys st) \<subseteq> A \<Longrightarrow> finite A \<Longrightarrow> card A \<le> n \<Longrightarrow> length st \<le> n"
proof -
  assume "om_wf st" and sub: "set (om_keys st) \<subseteq> A" and fin: "finite A" and card: "card A \<le> n"
  then have "length st = card (set (om_keys st))"
    using distinct_card [of "map fst st"] by (simp add: om_wf_def om_keys_def)
  also have "\<dots> \<le> card A" by (rule card_mono [OF fin sub])
  finally show "length st \<le> n" using card by simp
qed

lemma evict_mset_subset: "ascending xs \<Longrightarrow> mset (evictOutOfWindow cfg xs now) \<subseteq># mset xs"
proof -
  have "mset (drop n (filter P xs)) \<subseteq># mset (filter P xs)" for n P
    by (metis append_take_drop_id mset_append mset_subset_eq_add_right)
  moreover assume "ascending xs"
  ultimately show ?thesis
    by (simp add: evict_eq Let_def) (meson multiset_filter_subset subset_mset.order_trans)
qed

definition recent :: "int \<Rightarrow> txn multiset \<Rightarrow> txn multiset" where
  "recent \<theta> M = filter_mset (\<lambda>x. \<theta> \<le> txn_timestamp x) M"

lemma recent_simps [simp]:
  "recent \<theta> {#} = {#}"
  "recent \<theta> (add_mset x M) = (if \<theta> \<le> txn_timestamp x then add_mset x (recent \<theta> M) else recent \<theta> M)"
  "recent \<theta> (M + N) = recent \<theta> M + recent \<theta> N"
  by (simp_all add: recent_def)

lemma recent_filter:
  assumes "c \<le> \<theta>"
  shows "recent \<theta> (filter_mset (\<lambda>x. c \<le> txn_timestamp x) M) = recent \<theta> M"
  using assms by (induction M) auto

text \<open>
  While no limit is hit, a buffer holds a part of what was sent and agrees with it on every
  threshold no eviction has passed.
\<close>

definition faithful :: "velocity_state \<Rightarrow> velocity_op list \<Rightarrow> bool" where
  "faithful st ops =
     (set (om_keys st) \<subseteq> senders ops \<and>
      (\<forall>u. mset (buffer_of st u) \<subseteq># mset (sent_by u ops)) \<and>
      (\<forall>u \<theta>. (\<forall>op \<in> set ops. op_clock op - THIRTY_DAYS \<le> \<theta>) \<longrightarrow>
         recent \<theta> (mset (buffer_of st u)) = recent \<theta> (mset (sent_by u ops))))"

lemma buffer_record:
  "buffer_of (recordTransaction cfg now ev st) u =
     (if u = ev_sender_id ev
      then evictOutOfWindow cfg (insertAscending (buffer_of st u)
             \<lparr>txn_timestamp = ev_timestamp ev, txn_amount = ev_amount ev,
              txn_type = ev_transaction_type ev, txn_receiver = ev_receiver_id ev\<rparr>) now
      else buffer_of st u)"
  by (simp add: buffer_of_def [of "recordTransaction cfg now ev st"] recordTransaction_get)
    (simp add: buffer_of_def)

lemma faithful_record:
  assumes ok: "buffers_ok cfg st" and f: "faithful st ops"
    and cap: "length (sent_by (ev_sender_id ev) (ops @ [Rec now ev])) \<le> maxTransactionsPerUser cfg"
  shows "faithful (recordTransaction cfg now ev st) (ops @ [Rec now ev])"
proof -
  let ?u = "ev_sender_id ev"
  let ?r = "\<lparr>txn_timestamp = ev_timestamp ev, txn_amount = ev_amount ev,
              txn_type = ev_transaction_type ev, txn_receiver = ev_receiver_id ev\<rparr>"
  let ?xs = "insertAscending (buffer_of st ?u) ?r"
  have sub: "mset (buffer_of st u) \<subseteq># mset (sent_by u ops)" for u using f by (simp add: faithful_def)
  have sent: "sent_by ?u (ops @ [Rec now ev]) = sent_by ?u ops @ [?r]"
    by (simp add: sent_by_snoc) (simp add: sent_by_def)
  have other: "u \<noteq> ?u \<Longrightarrow> sent_by u (ops @ [Rec now ev]) = sent_by u ops" for u
    by (simp add: sent_by_snoc) (simp add: sent_by_def)
  have asc: "ascending ?xs" by (rule insertAscending_sorted [OF buffers_ok_buffer [OF ok]])
  have xs: "mset ?xs \<subseteq># mset (sent_by ?u (ops @ [Rec now ev]))" using sub [of ?u] by (simp add: sent)
  then have "length ?xs \<le> maxTransactionsPerUser cfg"
    using cap size_mset_mono [OF xs] unfolding size_mset by linarith
  then have ev: "evictOutOfWindow cfg ?xs now = filter (\<lambda>x. now - THIRTY_DAYS \<le> txn_timestamp x) ?xs"
    by (rule evict_no_overflow [OF asc])
  have keys: "set (om_keys (recordTransaction cfg now ev st)) \<subseteq> senders (ops @ [Rec now ev])"
    using f by (auto simp: faithful_def recordTransaction_def Let_def om_keys_set senders_def)
  have "mset (buffer_of (recordTransaction cfg now ev st) u) \<subseteq># mset (sent_by u (ops @ [Rec now ev]))" for u
    using sub [of u] other [of u] subset_mset.order_trans [OF evict_mset_subset [OF asc] xs]
    by (simp add: buffer_record)
  moreover have "recent \<theta> (mset (buffer_of (recordTransaction cfg now ev st) u)) =
      recent \<theta> (mset (sent_by u (ops @ [Rec now ev])))"
    if \<theta>: "\<forall>op \<in> set (ops @ [Rec now ev]). op_clock op - THIRTY_DAYS \<le> \<theta>" for u \<theta>
  proof -
    have IH: "recent \<theta> (mset (buffer_of st u)) = recent \<theta> (mset (sent_by u ops))"
      using f \<theta> by (simp add: faithful_def)
    show ?thesis
    proof (cases "u = ?u")
      case True
      have "now - THIRTY_DAYS \<le> \<theta>" using \<theta> by simp
      then show ?thesis using IH True by (simp add: buffer_record ev sent recent_filter)
    next
      case False
      then show ?thesis using IH other [OF False] by (simp add: buffer_record)
    qed
  qed
  ultimately show ?thesis using keys unfolding faithful_def by blast
qed

lemma shrink_filter:
  "(case shrink c xs of None \<Rightarrow> [] | Some ys \<Rightarrow> ys) = filter (\<lambda>x. c \<le> txn_timestamp x) xs"
proof (cases "length (filter (\<lambda>x. c \<le> txn_timestamp x) xs) = length xs")
  case True
  then have "filter (\<lambda>x. c \<le> txn_timestamp x) xs = xs"
    by (simp add: filter_id_conv length_filter_conv_card) (metis True filter_id_conv length_filter_less less_irrefl)
  then show ?thesis by (simp add: shrink_def Let_def)
qed (simp add: shrink_def Let_def)

lemma faithful_cleanup:
  assumes ok: "buffers_ok cfg st" and f: "faithful st ops"
    and cap: "card (senders ops) \<le> maxTrackedUsers cfg"
  shows "faithful (cleanupOldTransactions cfg now st) (ops @ [Cleanup now])"
proof -
  have wf: "om_wf st" using ok by (simp add: buffers_ok_def)
  let ?c = "now - THIRTY_DAYS"
  let ?st = "fold (cleanup_entry ?c) st st"
  have get: "om_get ?st u = (case om_get st u of Some xs \<Rightarrow> shrink ?c xs | None \<Rightarrow> None)" for u
    by (rule cleanup_get [OF wf])
  have keys: "set (om_keys ?st) \<subseteq> senders ops"
  proof
    fix u assume "u \<in> set (om_keys ?st)"
    then have "u \<in> set (om_keys st)" unfolding om_get_keys get by (auto split: option.splits)
    then show "u \<in> senders ops" using f by (auto simp: faithful_def)
  qed
  have "length ?st \<le> maxTrackedUsers cfg"
    by (rule keys_card [OF cleanup_fold_wf [OF wf] keys senders_finite cap])
  then have st': "cleanupOldTransactions cfg now st = ?st"
    by (simp add: cleanupOldTransactions_def enforceTrackedUserCap_def Let_def)
  have buf: "buffer_of ?st u = filter (\<lambda>x. ?c \<le> txn_timestamp x) (buffer_of st u)" for u
    by (cases "om_get st u") (simp_all add: buffer_of_def get shrink_filter)
  have sent: "sent_by u (ops @ [Cleanup now]) = sent_by u ops" for u
    by (simp add: sent_by_def)
  have snd: "senders (ops @ [Cleanup now]) = senders ops" by (auto simp: senders_def)
  have "mset (buffer_of ?st u) \<subseteq># mset (sent_by u ops)" for u
    using f by (simp add: buf faithful_def) (meson multiset_filter_subset subset_mset.order_trans)
  moreover have "recent \<theta> (mset (buffer_of ?st u)) = recent \<theta> (mset (sent_by u ops))"
    if "\<forall>op \<in> set (ops @ [Cleanup now]). op_clock op - THIRTY_DAYS \<le> \<theta>" for u \<theta>
    using f that by (simp add: buf faithful_def recent_filter)
  ultimately show ?thesis using keys unfolding faithful_def st' sent snd by blast
qed

lemma run_faithful:
  assumes "\<forall>u. length (sent_by u ops) \<le> maxTransactionsPerUser cfg"
    and "card (senders ops) \<le> maxTrackedUsers cfg"
  shows "faithful (run_velocity cfg ops) ops"
  using assms
proof (induction ops rule: rev_induct)
  case Nil
  show ?case by (simp add: run_velocity_def faithful_def buffer_of_def om_keys_def sent_by_def)
next
  case (snoc op ops)
  have len: "length (sent_by u ops) \<le> maxTransactionsPerUser cfg" for u
    using snoc.prems(1) by (auto simp: sent_by_snoc dest: spec [of _ u])
  have "senders ops \<subseteq> senders (ops @ [op])" by (auto simp: senders_def)
  then have card: "card (senders ops) \<le> maxTrackedUsers cfg"
    using card_mono [OF senders_finite] snoc.prems(2) by (meson order_trans)
  have IH: "faithful (run_velocity cfg ops) ops" using snoc.IH len card by blast
  show ?case
  proof (cases op)
    case (Rec now ev)
    then show ?thesis using faithful_record [OF run_ok IH] snoc.prems(1) by (simp add: run_snoc)
  next
    case (Cleanup now)
    then show ?thesis using faithful_cleanup [OF run_ok IH card] by (simp add: run_snoc)
  qed
qed

section \<open>Counting\<close>

lemma countInWindow_filter:
  "sorted_wrt (\<lambda>x y. txn_timestamp y \<le> txn_timestamp x) xs \<Longrightarrow>
     countInWindow xs now w = length (filterByWindow xs now w)"
proof (induction xs)
  case (Cons x xs)
  show ?case
  proof (cases "now - w \<le> txn_timestamp x")
    case False
    then have "filter (\<lambda>y. now - w \<le> txn_timestamp y) xs = []"
      using Cons.prems by (auto simp: filter_empty_conv)
    with False show ?thesis by (simp add: filterByWindow_def)
  qed (use Cons in \<open>simp add: filterByWindow_def\<close>)
qed (simp add: filterByWindow_def)

lemma newest_first: "ascending xs \<Longrightarrow> sorted_wrt (\<lambda>x y. txn_timestamp y \<le> txn_timestamp x) (rev xs)"
  by (simp add: sorted_wrt_rev sorted_map)

text \<open>The query time may trail the clock, as an event's own time does.\<close>

lemma trailing_window_mset:
  assumes "faithful st ops" and "\<forall>op \<in> set ops. op_clock op - THIRTY_DAYS \<le> now - w"
  shows "mset (filterByWindow (rev (buffer_of st u)) now w) =
     mset (filter (\<lambda>x. now - w \<le> txn_timestamp x) (sent_by u ops))"
proof -
  have "recent (now - w) (mset (buffer_of st u)) = recent (now - w) (mset (sent_by u ops))"
    using assms by (simp add: faithful_def)
  then show ?thesis by (simp add: filterByWindow_def recent_def)
qed

lemma window_mset:
  assumes "faithful st ops" and "\<forall>op \<in> set ops. op_clock op \<le> now" and "w \<le> THIRTY_DAYS"
  shows "mset (filterByWindow (rev (buffer_of st u)) now w) =
     mset (filter (\<lambda>x. now - w \<le> txn_timestamp x) (sent_by u ops))"
  by (rule trailing_window_mset [OF assms(1)]) (use assms(2,3) in fastforce)

lemma calculateMetrics_buffer:
  "buffer_of st u \<noteq> [] \<Longrightarrow> calculateMetrics st u now = metrics_of (rev (buffer_of st u)) now"
  "buffer_of st u = [] \<Longrightarrow> calculateMetrics st u now = getDefaultMetrics"
  by (auto simp: calculateMetrics_def buffer_of_def split: option.splits)

lemma countUniqueReceivers_card: "countUniqueReceivers xs = card (txn_receiver ` set xs - {[]})"
proof -
  have "countUniqueReceivers xs = card (set (filter (\<lambda>r. r \<noteq> []) (map txn_receiver xs)))"
    unfolding countUniqueReceivers_def by (simp add: length_remdups_card_conv)
  also have "set (filter (\<lambda>r. r \<noteq> []) (map txn_receiver xs)) = txn_receiver ` set xs - {[]}" by auto
  finally show ?thesis .
qed

text \<open>Sums, means and deviations do not depend on the order.\<close>

lemma sum_list_mset: "mset xs = mset ys \<Longrightarrow> sum_list (map f xs) = (sum_list (map f ys) :: real)"
  by (metis mset_map sum_mset_sum_list)

lemma calculateAmountStats_mset:
  assumes "mset xs = mset ys"
  shows "calculateAmountStats xs =
    (let mean = sum_list (map txn_amount ys) / real (length ys)
     in if length ys \<le> 1 then (mean, 0)
        else (round2 mean, round2 (sqrt (sum_list (map (\<lambda>x. (txn_amount x - mean)\<^sup>2) ys) / real (length ys)))))"
proof -
  have l: "length xs = length ys" using assms by (rule mset_eq_length)
  show ?thesis
    unfolding calculateAmountStats_def sum_list_mset [OF assms] l Let_def using l by (cases ys) (auto simp: le_Suc_eq)
qed

lemma foldl_max: "foldl (\<lambda>m x. max m (f x)) k xs = Max (insert (k :: real) (f ` set xs))"
proof (induction xs arbitrary: k)
  case (Cons x xs)
  then show ?case by (cases "xs = []") (simp_all add: max.assoc)
qed simp

lemma metrics_counts:
  assumes "ascending (buffer_of st u)"
  shows "let m = calculateMetrics st u now;
             window = (\<lambda>w. filterByWindow (rev (buffer_of st u)) now w)
         in velocity_1m m = length (window ONE_MINUTE) \<and> velocity_5m m = length (window FIVE_MINUTES) \<and>
            velocity_15m m = length (window FIFTEEN_MINUTES) \<and> velocity_1h m = length (window ONE_HOUR) \<and>
            velocity_24h m = length (window ONE_DAY) \<and> velocity_7d m = length (window SEVEN_DAYS) \<and>
            unique_receivers_24h m = card (txn_receiver ` set (window ONE_DAY) - {[]}) \<and>
            unique_receivers_7d m = card (txn_receiver ` set (window SEVEN_DAYS) - {[]}) \<and>
            amount_mean_24h m = fst (calculateAmountStats (window ONE_DAY)) \<and>
            amount_max_24h m = Max (insert 0 (txn_amount ` set (window ONE_DAY))) \<and>
            (avg_amount_30d m, std_amount_30d m) = calculateAmountStats (window THIRTY_DAYS)"
proof (cases "buffer_of st u = []")
  case True
  then show ?thesis by (simp add: calculateMetrics_buffer getDefaultMetrics_def filterByWindow_def calculateAmountStats_def)
next
  case False
  then show ?thesis
    using countInWindow_filter [OF newest_first [OF assms]]
    by (simp add: calculateMetrics_buffer metrics_of_def split_beta Let_def countUniqueReceivers_card foldl_max)
qed

section \<open>Properties\<close>


definition sample_event :: "int \<Rightarrow> string \<Rightarrow> txn_event" where
  "sample_event t r = \<lparr>ev_sender_id = ''alice'', ev_receiver_id = r, ev_amount = 5,
     ev_transaction_type = ''transfer'', ev_timestamp = t\<rparr>"

definition sample_cfg :: velocity_cfg where
  "sample_cfg = \<lparr>maxTransactionsPerUser = 10, maxTrackedUsers = 10\<rparr>"

definition sample_ops :: "velocity_op list" where
  "sample_ops = [Rec 70000 (sample_event 65000 ''bob''), Rec 71000 (sample_event 1000 ''carol''), Cleanup 72000]"


text \<open>
  Whatever is recorded and cleaned up, in any order and with any client timestamps, every
  buffer is in ascending time order and no longer than the per-user limit, and right after a
  cleanup no more senders are tracked than the configured maximum.
\<close>

theorem velocity_state_bounded:
  "buffers_ok cfg (run_velocity cfg ops) \<and>
   length (cleanupOldTransactions cfg now (run_velocity cfg ops)) \<le> maxTrackedUsers cfg"
proof -
  have "om_wf (run_velocity cfg ops)" using run_ok [of cfg ops] by (simp add: buffers_ok_def)
  then have "length (cleanupOldTransactions cfg now (run_velocity cfg ops)) \<le> maxTrackedUsers cfg"
    by (simp add: cleanupOldTransactions_def enforce_length cleanup_fold_wf)
  then show ?thesis using run_ok by blast
qed

lemma round2_mono: "x \<le> y \<Longrightarrow> round2 x \<le> round2 y"
  using js_round_mono [of "x * 100" "y * 100"] by (simp add: round2_def divide_right_mono)

lemma round2_of_int: "round2 (of_int k) = of_int k"
  using js_round_int [of "k * 100"] by (simp add: round2_def)

lemma rem24_range: "0 \<le> rem24 x \<and> rem24 x < 24"
proof -
  have lo: "of_int \<lfloor>x / 24\<rfloor> \<le> x / 24" and hi: "x / 24 < of_int \<lfloor>x / 24\<rfloor> + 1" by linarith+
  from hi have "x < 24 * of_int \<lfloor>x / 24\<rfloor> + 24" by linarith
  with lo show ?thesis by (simp add: rem24_def)
qed

text \<open>
  The hour deviation is a circular distance: whatever the buffer and the query time, it
  lies between 0 and 12 hours.
\<close>

theorem hour_deviation_range:
  "0 \<le> hour_dev_from_norm (calculateMetrics st u now) \<and> hour_dev_from_norm (calculateMetrics st u now) \<le> 12"
proof -
  have "0 \<le> hourDeviationFromNorm xs now \<and> hourDeviationFromNorm xs now \<le> 12" for xs
  proof -
    define d where "d t = \<bar>of_int (utc_hour now) - rem24 t\<bar>" for t
    have h: "0 \<le> utc_hour now" "utc_hour now \<le> 23" by (simp_all add: utc_hour_def)
    have "0 \<le> min (d t) (24 - d t) \<and> min (d t) (24 - d t) \<le> 12" for t
    proof -
      have "(0::real) \<le> of_int (utc_hour now)" "(of_int (utc_hour now) :: real) \<le> 23"
        using h by (simp_all add: of_int_le_iff)
      then have "d t < 24" "0 \<le> d t" using rem24_range [of t] by (auto simp: d_def)
      then show ?thesis by (auto simp: min_def)
    qed
    then have "0 \<le> round2 (min (d t) (24 - d t)) \<and> round2 (min (d t) (24 - d t)) \<le> 12" for t
      using round2_mono [of 0 "min (d t) (24 - d t)"] round2_mono [of "min (d t) (24 - d t)" 12]
        round2_of_int [of 0] round2_of_int [of 12] by simp
    then show ?thesis by (simp add: hourDeviationFromNorm_def Let_def d_def)
  qed
  then show ?thesis
    by (simp add: calculateMetrics_def metrics_of_def getDefaultMetrics_def split_beta Let_def split: option.splits)
qed

end
