(* ===== verification/GraphService.thy ===== *)
theory GraphService
  imports VelocityService
begin

text \<open>
  \<open>paa-service/src/services/graph.service.ts\<close>: the directed transaction graph, its node and
  edge statistics, pruning, the fraud distance search and the network features. The graph
  library's content is an insertion-ordered map of nodes and one of edges (directed, no
  parallel edges, self loops allowed); \<open>addNode\<close>, \<open>addEdge\<close> and \<open>dropNode\<close> are its
  documented operations, and a missing node is the error it throws. PageRank and Louvain are
  arguments; a computation that throws is \<open>None\<close>. \<open>Date.now()\<close> is an argument.
\<close>

section \<open>Data\<close>

record node_attrs =
  n_firstSeen :: int
  n_lastSeen :: int
  n_transactionCount :: nat
  n_totalAmount :: real
  n_pagerank :: "real option"
  n_clusteringCoef :: "real option"
  n_communityId :: "int option"
  n_isHub :: "nat option"

record edge_attrs =
  e_weight :: nat
  e_totalAmount :: real
  e_lastTransaction :: int
  e_firstTransaction :: int
  e_transactionTypes :: "string list"

type_synonym edge_key = "string \<times> string"

record graph_state =
  g_nodes :: "(string, node_attrs) omap"
  g_edges :: "(edge_key, edge_attrs) omap"
  g_transactionCount :: nat
  g_lastPagerankUpdate :: int
  g_maxEventTimestamp :: int
  g_dirtyTriangleCount :: nat
  g_fraudUsers :: "string list"

record graph_cfg =
  maxNodes :: nat
  updateInterval :: int
  triangleRecomputeMinIntervalMs :: int
  recomputeMinIntervalMs :: int

text \<open>The external algorithms: a score or community per node, or a thrown error.\<close>

record graph_algorithms =
  pagerank_alg :: "(string, node_attrs) omap \<Rightarrow> (edge_key, edge_attrs) omap \<Rightarrow> (string \<Rightarrow> real option) option"
  louvain_alg :: "(string, node_attrs) omap \<Rightarrow> (edge_key, edge_attrs) omap \<Rightarrow> (string \<Rightarrow> int option) option"

datatype graph_error = NotFoundGraphError

definition pruneAgeMs :: int where "pruneAgeMs = 30 * 24 * 60 * 60 * 1000"
definition hubMinOutDegree :: nat where "hubMinOutDegree = 10"
definition fraudPathMaxDepth :: nat where "fraudPathMaxDepth = 4"
definition fraudPathMaxVisited :: nat where "fraudPathMaxVisited = 1000"
definition fraudPathUnknown :: nat where "fraudPathUnknown = 99"

definition empty_graph :: graph_state where
  "empty_graph = \<lparr>g_nodes = [], g_edges = [], g_transactionCount = 0, g_lastPagerankUpdate = 0,
     g_maxEventTimestamp = 0, g_dirtyTriangleCount = 0, g_fraudUsers = []\<rparr>"

section \<open>The graph library\<close>

definition hasNode :: "graph_state \<Rightarrow> string \<Rightarrow> bool" where
  "hasNode g n = (om_get (g_nodes g) n \<noteq> None)"

definition hasEdge :: "graph_state \<Rightarrow> string \<Rightarrow> string \<Rightarrow> bool" where
  "hasEdge g a b = (om_get (g_edges g) (a, b) \<noteq> None)"

definition order :: "graph_state \<Rightarrow> nat" where
  "order g = length (g_nodes g)"

definition outNeighbors :: "graph_state \<Rightarrow> string \<Rightarrow> string list" where
  "outNeighbors g n = map (\<lambda>e. snd (fst e)) (filter (\<lambda>e. fst (fst e) = n) (g_edges g))"

definition inNeighbors :: "graph_state \<Rightarrow> string \<Rightarrow> string list" where
  "inNeighbors g n = map (\<lambda>e. fst (fst e)) (filter (\<lambda>e. snd (fst e) = n) (g_edges g))"

definition neighbors :: "graph_state \<Rightarrow> string \<Rightarrow> string list" where
  "neighbors g n = js_set (inNeighbors g n @ outNeighbors g n)"

definition dropNode :: "string \<Rightarrow> graph_state \<Rightarrow> graph_state" where
  "dropNode n g = g
     \<lparr>g_nodes := om_delete n (g_nodes g),
      g_edges := filter (\<lambda>e. fst (fst e) \<noteq> n \<and> snd (fst e) \<noteq> n) (g_edges g)\<rparr>"

definition setNode :: "string \<Rightarrow> node_attrs \<Rightarrow> graph_state \<Rightarrow> graph_state" where
  "setNode n a g = g\<lparr>g_nodes := om_set n a (g_nodes g)\<rparr>"

definition setEdge :: "string \<Rightarrow> string \<Rightarrow> edge_attrs \<Rightarrow> graph_state \<Rightarrow> graph_state" where
  "setEdge a b x g = g\<lparr>g_edges := om_set (a, b) x (g_edges g)\<rparr>"

definition mapNodes :: "(string \<Rightarrow> node_attrs \<Rightarrow> node_attrs) \<Rightarrow> graph_state \<Rightarrow> graph_state" where
  "mapNodes f g = g\<lparr>g_nodes := map (\<lambda>(n, a). (n, f n a)) (g_nodes g)\<rparr>"

definition fresh_node :: "int \<Rightarrow> int \<Rightarrow> node_attrs" where
  "fresh_node f l = \<lparr>n_firstSeen = f, n_lastSeen = l, n_transactionCount = 0,
     n_totalAmount = 0, n_pagerank = None, n_clusteringCoef = None, n_communityId = None,
     n_isHub = None\<rparr>"

section \<open>Pruning\<close>

definition staleNodes :: "graph_state \<Rightarrow> (string \<times> node_attrs) list" where
  "staleNodes g = filter (\<lambda>(n, a). n_lastSeen a < g_maxEventTimestamp g - pruneAgeMs) (g_nodes g)"

definition byLastSeen :: "(string \<times> node_attrs) list \<Rightarrow> string list" where
  "byLastSeen xs = map fst (sort_key (\<lambda>e. n_lastSeen (snd e)) xs)"

definition pruneTargets :: "graph_cfg \<Rightarrow> bool \<Rightarrow> graph_state \<Rightarrow> string list" where
  "pruneTargets cfg capDriven g =
     (if g_maxEventTimestamp g = 0 then []
      else if \<not> capDriven then byLastSeen (staleNodes g)
      else
        let target = max 1 (maxNodes cfg div 10) in
        if target \<le> length (staleNodes g) then take target (byLastSeen (staleNodes g))
        else take target (byLastSeen (g_nodes g)))"

definition pruneOldNodes :: "graph_cfg \<Rightarrow> bool \<Rightarrow> graph_state \<Rightarrow> graph_state" where
  "pruneOldNodes cfg capDriven g = fold dropNode (pruneTargets cfg capDriven g) g"

section \<open>Metrics\<close>

definition or0 :: "'a::zero option \<Rightarrow> 'a" where
  "or0 v = (case v of None \<Rightarrow> 0 | Some a \<Rightarrow> a)"

fun linked_pairs :: "graph_state \<Rightarrow> string list \<Rightarrow> nat" where
  "linked_pairs g [] = 0"
| "linked_pairs g (x # xs) =
     length (filter (\<lambda>y. hasEdge g x y \<or> hasEdge g y x) xs) + linked_pairs g xs"

definition calculateLocalClusteringCoefficient :: "graph_state \<Rightarrow> string \<Rightarrow> real" where
  "calculateLocalClusteringCoefficient g n =
     (let ns = neighbors g n; k = length ns
      in if k < 2 then 0 else real (linked_pairs g ns) / (real k * (real k - 1) / 2))"

definition outDegree :: "graph_state \<Rightarrow> string \<Rightarrow> nat" where
  "outDegree g n = length (outNeighbors g n)"

definition inDegree :: "graph_state \<Rightarrow> string \<Rightarrow> nat" where
  "inDegree g n = length (inNeighbors g n)"

definition hubThreshold :: "graph_state \<Rightarrow> nat option" where
  "hubThreshold g =
     (let ds = sort (map (\<lambda>(n, _). outDegree g n) (g_nodes g))
      in if ds = [] then None
         else Some (max (ds ! (999 * (length ds - 1) div 1000)) hubMinOutDegree))"

definition markHubs :: "graph_state \<Rightarrow> graph_state" where
  "markHubs g =
     mapNodes (\<lambda>n a. a\<lparr>n_isHub := Some (case hubThreshold g of
        None \<Rightarrow> 0 | Some t \<Rightarrow> if t \<le> outDegree g n then 1 else 0)\<rparr>) g"

text \<open>
  \<open>computeNetworkMetrics\<close>: an algorithm that throws ends the pass, keeping what was already
  written.
\<close>

definition computeNetworkMetrics :: "graph_algorithms \<Rightarrow> int \<Rightarrow> graph_state \<Rightarrow> graph_state" where
  "computeNetworkMetrics alg done_at g =
     (if order g = 0 then g
      else case pagerank_alg alg (g_nodes g) (g_edges g) of
        None \<Rightarrow> g
      | Some scores \<Rightarrow>
          (let g1 = mapNodes (\<lambda>n a. a\<lparr>n_pagerank := Some (or0 (scores n))\<rparr>) g;
               g2 = mapNodes (\<lambda>n a. a\<lparr>n_clusteringCoef :=
                      Some (calculateLocalClusteringCoefficient g1 n)\<rparr>) g1
           in case louvain_alg alg (g_nodes g2) (g_edges g2) of
                None \<Rightarrow> g2
              | Some communities \<Rightarrow>
                  (let g3 = mapNodes (\<lambda>n a. a\<lparr>n_communityId := Some (or0 (communities n))\<rparr>) g2
                   in (markHubs g3)\<lparr>g_lastPagerankUpdate := done_at, g_dirtyTriangleCount := 0\<rparr>)))"

definition shouldUpdatePagerank :: "graph_cfg \<Rightarrow> int \<Rightarrow> graph_state \<Rightarrow> bool" where
  "shouldUpdatePagerank cfg now g =
     (let since = now - g_lastPagerankUpdate g in
      updateInterval cfg < since \<or>
      (0 < g_transactionCount g \<and> g_transactionCount g mod 100 = 0 \<and>
       recomputeMinIntervalMs cfg \<le> since) \<or>
      (0 < g_dirtyTriangleCount g \<and> triangleRecomputeMinIntervalMs cfg \<le> since))"

section \<open>Adding a transaction\<close>

definition ensureNode :: "graph_cfg \<Rightarrow> string \<Rightarrow> int \<Rightarrow> graph_state \<Rightarrow> graph_state" where
  "ensureNode cfg n t g =
     (if hasNode g n then g
      else
        let g' = (if maxNodes cfg \<le> order g then pruneOldNodes cfg True g else g)
        in setNode n (fresh_node t t) g')"

definition closesDirectedTriangle :: "graph_state \<Rightarrow> string \<Rightarrow> string \<Rightarrow> bool" where
  "closesDirectedTriangle g a b = list_ex (\<lambda>c. c \<noteq> a \<and> hasEdge g c a) (outNeighbors g b)"

definition addOrUpdateEdge ::
    "string \<Rightarrow> string \<Rightarrow> real \<Rightarrow> int \<Rightarrow> string \<Rightarrow> graph_state \<Rightarrow> graph_error option \<times> graph_state" where
  "addOrUpdateEdge s r amount t ty g =
     (case om_get (g_edges g) (s, r) of
        Some x \<Rightarrow>
          (None, setEdge s r (x\<lparr>e_weight := e_weight x + 1, e_totalAmount := e_totalAmount x + amount,
             e_lastTransaction := t,
             e_transactionTypes := (if ty \<in> set (e_transactionTypes x) then e_transactionTypes x
                                    else e_transactionTypes x @ [ty])\<rparr>) g)
      | None \<Rightarrow>
          if \<not> hasNode g s \<or> \<not> hasNode g r then (Some NotFoundGraphError, g)
          else
            let g' = setEdge s r \<lparr>e_weight = 1, e_totalAmount = amount, e_lastTransaction = t,
                       e_firstTransaction = t, e_transactionTypes = [ty]\<rparr> g
            in (None, if closesDirectedTriangle g' s r
                      then g'\<lparr>g_dirtyTriangleCount := Suc (g_dirtyTriangleCount g')\<rparr> else g'))"

definition updateNodeStats ::
    "string \<Rightarrow> real \<Rightarrow> int \<Rightarrow> graph_state \<Rightarrow> graph_error option \<times> graph_state" where
  "updateNodeStats n amount t g =
     (case om_get (g_nodes g) n of
        None \<Rightarrow> (Some NotFoundGraphError, g)
      | Some a \<Rightarrow> (None, setNode n (a\<lparr>n_lastSeen := t, n_transactionCount := n_transactionCount a + 1,
                     n_totalAmount := n_totalAmount a + amount\<rparr>) g))"

definition addTransaction ::
    "graph_cfg \<Rightarrow> graph_algorithms \<Rightarrow> int \<Rightarrow> txn_event \<Rightarrow> graph_state \<Rightarrow> graph_error option \<times> graph_state" where
  "addTransaction cfg alg now ev g =
     (let t = ev_timestamp ev;
          g1 = g\<lparr>g_maxEventTimestamp := max (g_maxEventTimestamp g) t\<rparr>;
          g2 = ensureNode cfg (ev_sender_id ev) t g1;
          g3 = ensureNode cfg (ev_receiver_id ev) t g2
      in case updateNodeStats (ev_sender_id ev) (ev_amount ev) t g3 of
           (Some e, g4) \<Rightarrow> (Some e, g4)
         | (None, g4) \<Rightarrow>
             (case addOrUpdateEdge (ev_sender_id ev) (ev_receiver_id ev) (ev_amount ev) t
                     (ev_transaction_type ev) g4 of
                (Some e, g5) \<Rightarrow> (Some e, g5)
              | (None, g5) \<Rightarrow>
                  (let g6 = g5\<lparr>g_transactionCount := Suc (g_transactionCount g5)\<rparr>
                   in (None, if shouldUpdatePagerank cfg now g6
                             then computeNetworkMetrics alg now g6 else g6))))"

section \<open>Hydration and fraud labels\<close>

record edge_snapshot =
  es_senderId :: string
  es_receiverId :: string
  es_weight :: nat
  es_totalAmount :: real
  es_firstTransaction :: int
  es_lastTransaction :: int
  es_transactionTypes :: "string list"

definition ensure_plain :: "string \<Rightarrow> edge_snapshot \<Rightarrow> graph_state \<Rightarrow> graph_state" where
  "ensure_plain n e g =
     (if hasNode g n then g
      else setNode n (fresh_node (es_firstTransaction e) (es_lastTransaction e)) g)"

definition hydrateEdge :: "edge_snapshot \<Rightarrow> graph_state \<Rightarrow> graph_state" where
  "hydrateEdge e g =
     (let g2 = ensure_plain (es_receiverId e) e (ensure_plain (es_senderId e) e g);
          g3 = (if hasEdge g2 (es_senderId e) (es_receiverId e) then g2
                else setEdge (es_senderId e) (es_receiverId e)
                  \<lparr>e_weight = es_weight e, e_totalAmount = es_totalAmount e,
                   e_lastTransaction = es_lastTransaction e,
                   e_firstTransaction = es_firstTransaction e,
                   e_transactionTypes = js_set (es_transactionTypes e)\<rparr> g2)
      in g3\<lparr>g_maxEventTimestamp := max (g_maxEventTimestamp g3) (es_lastTransaction e)\<rparr>)"

definition hydrateEdges :: "edge_snapshot list \<Rightarrow> graph_state \<Rightarrow> graph_state" where
  "hydrateEdges es g = fold hydrateEdge es g"

record node_hydration =
  nh_userId :: string
  nh_firstSeen :: "int option"
  nh_lastSeen :: "int option"
  nh_transactionCount :: "nat option"
  nh_totalAmount :: "real option"

definition hydrateNode :: "node_hydration \<Rightarrow> graph_state \<Rightarrow> graph_state" where
  "hydrateNode h g =
     (case om_get (g_nodes g) (nh_userId h) of
        None \<Rightarrow> g
      | Some a \<Rightarrow>
          setNode (nh_userId h)
            (a\<lparr>n_firstSeen := (case nh_firstSeen h of
                  Some f \<Rightarrow> if n_firstSeen a = 0 \<or> f < n_firstSeen a then f else n_firstSeen a
                | None \<Rightarrow> n_firstSeen a),
               n_lastSeen := (case nh_lastSeen h of
                  Some l \<Rightarrow> if n_lastSeen a < l then l else n_lastSeen a | None \<Rightarrow> n_lastSeen a),
               n_transactionCount := (case nh_transactionCount h of
                  Some c \<Rightarrow> c | None \<Rightarrow> n_transactionCount a),
               n_totalAmount := (case nh_totalAmount h of Some x \<Rightarrow> x | None \<Rightarrow> n_totalAmount a)\<rparr>) g)"

definition hydrateNodeState :: "node_hydration list \<Rightarrow> graph_state \<Rightarrow> graph_state" where
  "hydrateNodeState hs g = fold hydrateNode hs g"

definition markFraudUsers :: "string list \<Rightarrow> graph_state \<Rightarrow> nat \<times> graph_state" where
  "markFraudUsers ids g =
     fold (\<lambda>i (added, h). if i \<in> set (g_fraudUsers h) then (added, h)
             else (Suc added, h\<lparr>g_fraudUsers := g_fraudUsers h @ [i]\<rparr>)) ids (0, g)"

section \<open>Distance to known fraud\<close>

datatype bfs_outcome = Found nat | Exhausted "string list" "string list"

text \<open>
  The two inner loops of one level walk the neighbours of the frontier in order; they return
  a distance, or the visited set and the next frontier.
\<close>

fun bfs_scan :: "graph_state \<Rightarrow> nat \<Rightarrow> string list \<Rightarrow> string list \<Rightarrow> string list \<Rightarrow> bfs_outcome" where
  "bfs_scan g depth [] visited next_frontier = Exhausted visited next_frontier"
| "bfs_scan g depth (x # xs) visited next_frontier =
     (if x \<in> set visited then bfs_scan g depth xs visited next_frontier
      else if x \<in> set (g_fraudUsers g) then Found depth
      else if fraudPathMaxVisited \<le> Suc (length visited) then Found fraudPathUnknown
      else bfs_scan g depth xs (x # visited) (next_frontier @ [x]))"

fun bfs_levels :: "graph_state \<Rightarrow> nat \<Rightarrow> nat \<Rightarrow> string list \<Rightarrow> string list \<Rightarrow> nat" where
  "bfs_levels g 0 depth visited frontier = fraudPathUnknown"
| "bfs_levels g (Suc k) depth visited frontier =
     (case bfs_scan g depth (concat (map (neighbors g) frontier)) visited [] of
        Found d \<Rightarrow> d
      | Exhausted visited' next_frontier \<Rightarrow>
          if next_frontier = [] then fraudPathUnknown
          else bfs_levels g k (Suc depth) visited' next_frontier)"

definition shortestPathToFraud :: "graph_state \<Rightarrow> string \<Rightarrow> nat" where
  "shortestPathToFraud g u =
     (if g_fraudUsers g = [] then fraudPathUnknown
      else if u \<in> set (g_fraudUsers g) then 0
      else bfs_levels g fraudPathMaxDepth 1 [u] [u])"

definition neighborhoodFraudRate :: "graph_state \<Rightarrow> string \<Rightarrow> real" where
  "neighborhoodFraudRate g u =
     (if g_fraudUsers g = [] then 0
      else let ns = outNeighbors g u
           in if ns = [] then 0
              else real (length (filter (\<lambda>n. n \<in> set (g_fraudUsers g)) ns)) / real (length ns))"

definition getInboundTransactionCount :: "graph_state \<Rightarrow> string \<Rightarrow> nat" where
  "getInboundTransactionCount g u =
     (if \<not> hasNode g u then 0
      else sum_list (map (\<lambda>e. e_weight (snd e)) (filter (\<lambda>e. snd (fst e) = u) (g_edges g))))"

record network_features =
  nf_pagerank :: real
  nf_clusteringCoef :: real
  nf_communityId :: int
  nf_degreeCentrality :: real
  nf_inDegree :: nat
  nf_outDegree :: nat
  nf_isHub :: nat
  nf_shortestPathToFraud :: nat
  nf_neighborhoodFraudRate :: real

definition getNetworkFeatures :: "graph_state \<Rightarrow> string \<Rightarrow> network_features" where
  "getNetworkFeatures g u =
     (case om_get (g_nodes g) u of
        None \<Rightarrow>
          \<lparr>nf_pagerank = 0, nf_clusteringCoef = 0, nf_communityId = 0, nf_degreeCentrality = 0,
           nf_inDegree = 0, nf_outDegree = 0, nf_isHub = 0,
           nf_shortestPathToFraud = (if u \<in> set (g_fraudUsers g) then 0 else fraudPathUnknown),
           nf_neighborhoodFraudRate = 0\<rparr>
      | Some a \<Rightarrow>
          \<lparr>nf_pagerank = or0 (n_pagerank a), nf_clusteringCoef = or0 (n_clusteringCoef a),
           nf_communityId = or0 (n_communityId a),
           nf_degreeCentrality =
             real (inDegree g u + outDegree g u) / (2 * real (max (order g - 1) 1)),
           nf_inDegree = inDegree g u, nf_outDegree = outDegree g u, nf_isHub = or0 (n_isHub a),
           nf_shortestPathToFraud = shortestPathToFraud g u,
           nf_neighborhoodFraudRate = neighborhoodFraudRate g u\<rparr>)"

definition getEdgeSnapshot :: "graph_state \<Rightarrow> string \<Rightarrow> string \<Rightarrow> edge_snapshot option" where
  "getEdgeSnapshot g s r =
     map_option (\<lambda>x. \<lparr>es_senderId = s, es_receiverId = r, es_weight = e_weight x,
        es_totalAmount = e_totalAmount x, es_firstTransaction = e_firstTransaction x,
        es_lastTransaction = e_lastTransaction x, es_transactionTypes = e_transactionTypes x\<rparr>)
       (om_get (g_edges g) (s, r))"

definition getNodeSnapshot ::
    "graph_state \<Rightarrow> string \<Rightarrow> (network_features \<times> int \<times> int \<times> nat \<times> real) option" where
  "getNodeSnapshot g u =
     map_option (\<lambda>a. (getNetworkFeatures g u, n_firstSeen a, n_lastSeen a, n_transactionCount a,
        n_totalAmount a)) (om_get (g_nodes g) u)"

definition graph_getStats :: "graph_state \<Rightarrow> nat \<times> nat \<times> nat" where
  "graph_getStats g = (order g, length (g_edges g), g_transactionCount g)"

section \<open>The structural invariant\<close>

text \<open>Distinct nodes, at most one edge per direction, and no edge without its end points.\<close>

definition graph_ok :: "graph_state \<Rightarrow> bool" where
  "graph_ok g =
     (om_wf (g_nodes g) \<and> om_wf (g_edges g) \<and>
      (\<forall>a b. hasEdge g a b \<longrightarrow> hasNode g a \<and> hasNode g b))"

named_theorems graph_simps \<open>nodes, edges and size after a graph operation\<close>

lemma has_update [graph_simps]:
  "hasNode (setNode n a g) m = (m = n \<or> hasNode g m)"
  "hasEdge (setNode n a g) x y = hasEdge g x y"
  "hasNode (setEdge u v e g) m = hasNode g m"
  "hasEdge (setEdge u v e g) x y = ((x, y) = (u, v) \<or> hasEdge g x y)"
  "hasNode (dropNode n g) m = (m \<noteq> n \<and> hasNode g m)"
  "hasEdge (dropNode n g) x y = (x \<noteq> n \<and> y \<noteq> n \<and> hasEdge g x y)"
  "hasNode (mapNodes f g) m = hasNode g m"
  "hasEdge (mapNodes f g) x y = hasEdge g x y"
  by (auto simp: hasNode_def hasEdge_def setNode_def setEdge_def dropNode_def mapNodes_def
      om_get_filter_key [where P = "\<lambda>k. fst k \<noteq> n \<and> snd k \<noteq> n"] om_get_map_val)

lemma wf_update [graph_simps]:
  "om_wf (g_nodes g) \<Longrightarrow> om_wf (g_nodes (setNode n a g))"
  "om_wf (g_edges g) \<Longrightarrow> om_wf (g_edges (setEdge u v e g))"
  "om_wf (g_nodes g) \<Longrightarrow> om_wf (g_nodes (dropNode n g))"
  "om_wf (g_edges g) \<Longrightarrow> om_wf (g_edges (dropNode n g))"
  "om_wf (g_nodes (mapNodes f g)) = om_wf (g_nodes g)"
  "g_edges (setNode n a g) = g_edges g"
  "g_nodes (setEdge u v e g) = g_nodes g"
  "g_edges (mapNodes f g) = g_edges g"
  by (auto simp: setNode_def setEdge_def dropNode_def mapNodes_def om_wf_map_val om_wf_filter)

lemma graph_ok_setNode [intro]: "graph_ok g \<Longrightarrow> graph_ok (setNode n a g)"
  by (simp add: graph_ok_def graph_simps)

lemma graph_ok_setEdge: "graph_ok g \<Longrightarrow> hasNode g a \<Longrightarrow> hasNode g b \<Longrightarrow> graph_ok (setEdge a b e g)"
  by (simp add: graph_ok_def graph_simps)

lemma graph_ok_dropNode [intro]: "graph_ok g \<Longrightarrow> graph_ok (dropNode n g)"
  unfolding graph_ok_def by (auto simp: graph_simps)

lemma graph_ok_mapNodes [intro]: "graph_ok g \<Longrightarrow> graph_ok (mapNodes f g)"
  by (simp add: graph_ok_def graph_simps)

lemma graph_ok_counters [simp]:
  "graph_ok (g\<lparr>g_maxEventTimestamp := t\<rparr>) = graph_ok g"
  "graph_ok (g\<lparr>g_transactionCount := c\<rparr>) = graph_ok g"
  "graph_ok (g\<lparr>g_dirtyTriangleCount := c\<rparr>) = graph_ok g"
  "graph_ok (g\<lparr>g_lastPagerankUpdate := l\<rparr>) = graph_ok g"
  "graph_ok (g\<lparr>g_fraudUsers := fs\<rparr>) = graph_ok g"
  by (simp_all add: graph_ok_def hasNode_def hasEdge_def)

lemma order_update [graph_simps]:
  "order (setNode n a g) = (if hasNode g n then order g else Suc (order g))"
  "order (setEdge u v e g) = order g"
  "order (mapNodes f g) = order g"
  by (simp_all add: order_def hasNode_def setNode_def setEdge_def mapNodes_def length_om_set)

lemma order_dropNode:
  assumes "graph_ok g" and "hasNode g n"
  shows "order (dropNode n g) = order g - 1"
proof -
  have present: "om_get (g_nodes g) n \<noteq> None" using assms(2) unfolding hasNode_def .
  have "om_wf (g_nodes g)" using assms(1) by (simp add: graph_ok_def)
  have "length (om_delete n (g_nodes g)) = length (g_nodes g) - 1"
    unfolding length_om_delete [OF \<open>om_wf (g_nodes g)\<close>] by (rule if_not_P [OF present])
  then show ?thesis by (simp add: order_def dropNode_def)
qed

lemma fold_drop:
  "graph_ok g \<Longrightarrow> distinct vs \<Longrightarrow> (\<And>v. v \<in> set vs \<Longrightarrow> hasNode g v) \<Longrightarrow>
     graph_ok (fold dropNode vs g) \<and> order (fold dropNode vs g) = order g - length vs"
proof (induction vs arbitrary: g)
  case (Cons v vs)
  have "graph_ok (fold dropNode vs (dropNode v g)) \<and>
      order (fold dropNode vs (dropNode v g)) = order (dropNode v g) - length vs"
    using Cons.prems by (intro Cons.IH) (auto simp: graph_simps)
  then show ?case using order_dropNode Cons.prems by simp
qed simp

lemma byLastSeen_mset: "mset (byLastSeen xs) = mset (map fst xs)"
  unfolding byLastSeen_def mset_map mset_sort ..

lemma byLastSeen_props:
  "set (byLastSeen xs) = fst ` set xs" "distinct (map fst xs) \<Longrightarrow> distinct (byLastSeen xs)"
  "length (byLastSeen xs) = length xs"
  using byLastSeen_mset [of xs] mset_eq_setD [of "byLastSeen xs" "map fst xs"]
    mset_eq_imp_distinct_iff [of "byLastSeen xs" "map fst xs"]
  by (auto simp: byLastSeen_def)

lemma node_in: "n \<in> fst ` set (g_nodes g) \<Longrightarrow> hasNode g n"
  using om_get_keys [of n "g_nodes g"] by (simp add: hasNode_def om_keys_def)

lemma pruneTargets_ok:
  assumes "graph_ok g"
  shows "distinct (pruneTargets cfg cap g)" and "v \<in> set (pruneTargets cfg cap g) \<Longrightarrow> hasNode g v"
proof -
  have d: "distinct (map fst (g_nodes g))" using assms by (simp add: graph_ok_def om_wf_def)
  have s: "distinct (map fst (staleNodes g))"
    unfolding staleNodes_def using d by (rule distinct_map_filter)
  have sub: "fst ` set (staleNodes g) \<subseteq> fst ` set (g_nodes g)" by (auto simp: staleNodes_def)
  show "distinct (pruneTargets cfg cap g)"
    using byLastSeen_props(2) [OF d] byLastSeen_props(2) [OF s]
    by (simp add: pruneTargets_def Let_def)
  assume "v \<in> set (pruneTargets cfg cap g)"
  then have "v \<in> fst ` set (g_nodes g)"
    using sub by (auto simp: pruneTargets_def Let_def byLastSeen_props(1) dest!: in_set_takeD split: if_splits)
  then show "hasNode g v" by (rule node_in)
qed

lemma prune_ok:
  assumes "graph_ok g"
  shows "graph_ok (pruneOldNodes cfg cap g)"
    and "order (pruneOldNodes cfg cap g) = order g - length (pruneTargets cfg cap g)"
  using fold_drop [OF assms pruneTargets_ok(1) [OF assms]] pruneTargets_ok(2) [OF assms]
  by (auto simp: pruneOldNodes_def)

lemma pruneTargets_nonempty:
  "g_maxEventTimestamp g \<noteq> 0 \<Longrightarrow> 0 < order g \<Longrightarrow> 0 < length (pruneTargets cfg True g)"
  using byLastSeen_props(3) [of "g_nodes g"] byLastSeen_props(3) [of "staleNodes g"]
  by (auto simp: pruneTargets_def Let_def order_def simp del: length_greater_0_conv)

lemma dropNode_max [simp]: "g_maxEventTimestamp (dropNode n g) = g_maxEventTimestamp g"
  by (simp add: dropNode_def)

lemma prune_max [simp]: "g_maxEventTimestamp (pruneOldNodes cfg c g) = g_maxEventTimestamp g"
proof -
  have "g_maxEventTimestamp (fold dropNode vs g) = g_maxEventTimestamp g" for vs
    by (induction vs arbitrary: g) simp_all
  then show ?thesis by (simp add: pruneOldNodes_def)
qed

lemma ensureNode_ok:
  assumes "graph_ok g"
  shows "graph_ok (ensureNode cfg n t g)" and "hasNode (ensureNode cfg n t g) n"
    and "g_maxEventTimestamp (ensureNode cfg n t g) = g_maxEventTimestamp g"
  using assms prune_ok(1) [OF assms] graph_ok_setNode
  by (auto simp: ensureNode_def Let_def graph_simps) (simp_all add: setNode_def)

lemma ensureNode_order:
  assumes "graph_ok g" and "g_maxEventTimestamp g \<noteq> 0" and "order g \<le> maxNodes cfg" and "0 < maxNodes cfg"
  shows "order (ensureNode cfg n t g) \<le> maxNodes cfg"
proof (cases "hasNode g n \<or> order g < maxNodes cfg")
  case True
  then show ?thesis using assms(3) by (auto simp: ensureNode_def Let_def graph_simps)
next
  case False
  then have full: "order g = maxNodes cfg" using assms(3) by simp
  then have "0 < length (pruneTargets cfg True g)"
    using pruneTargets_nonempty assms(2,4) by simp
  then have "order (pruneOldNodes cfg True g) < maxNodes cfg"
    using prune_ok(2) [OF assms(1), of cfg True] full assms(4) by simp
  then show ?thesis using False by (auto simp: ensureNode_def Let_def graph_simps)
qed

lemma updateNodeStats_ok:
  assumes "graph_ok g"
  shows "graph_ok (snd (updateNodeStats n amount t g)) \<and>
    order (snd (updateNodeStats n amount t g)) = order g \<and>
    (hasNode (snd (updateNodeStats n amount t g)) m = hasNode g m) \<and>
    g_edges (snd (updateNodeStats n amount t g)) = g_edges g"
proof (cases "om_get (g_nodes g) n")
  case None
  then show ?thesis using assms by (simp add: updateNodeStats_def)
next
  case (Some a)
  then have "hasNode g n" by (simp add: hasNode_def)
  with Some show ?thesis
    using graph_ok_setNode [OF assms] by (auto simp: updateNodeStats_def graph_simps)
qed

lemma addOrUpdateEdge_ok:
  assumes "graph_ok g"
  shows "graph_ok (snd (addOrUpdateEdge s r amount t ty g))"
    and "order (snd (addOrUpdateEdge s r amount t ty g)) = order g"
proof -
  have ends: "hasNode g s \<and> hasNode g r" if "om_get (g_edges g) (s, r) = Some x" for x
    using assms that by (auto simp: graph_ok_def hasEdge_def)
  show "graph_ok (snd (addOrUpdateEdge s r amount t ty g))"
    using ends by (auto simp: addOrUpdateEdge_def Let_def assms graph_ok_setEdge split: option.splits)
  have "order (g\<lparr>g_dirtyTriangleCount := c\<rparr>) = order g" for g c by (simp add: order_def)
  then show "order (snd (addOrUpdateEdge s r amount t ty g)) = order g"
    by (auto simp: addOrUpdateEdge_def Let_def graph_simps split: option.splits)
qed

lemma compute_ok:
  "graph_ok g \<Longrightarrow> graph_ok (computeNetworkMetrics alg t g)"
  "order (computeNetworkMetrics alg t g) = order g"
proof -
  have o: "order (g\<lparr>g_lastPagerankUpdate := a\<rparr>) = order g" "order (g\<lparr>g_dirtyTriangleCount := c\<rparr>) = order g"
    for g a c by (simp_all add: order_def)
  show "order (computeNetworkMetrics alg t g) = order g"
    by (simp add: computeNetworkMetrics_def Let_def markHubs_def graph_simps o split: option.splits)
  show "graph_ok g \<Longrightarrow> graph_ok (computeNetworkMetrics alg t g)"
    by (auto simp: computeNetworkMetrics_def Let_def markHubs_def split: option.splits)
qed

lemma addTransaction_ok:
  assumes "graph_ok g"
  shows "graph_ok (snd (addTransaction cfg alg now ev g))"
    and "0 < ev_timestamp ev \<Longrightarrow> order g \<le> maxNodes cfg \<Longrightarrow> 0 < maxNodes cfg \<Longrightarrow>
           order (snd (addTransaction cfg alg now ev g)) \<le> maxNodes cfg"
proof -
  define g1 where "g1 = g\<lparr>g_maxEventTimestamp := max (g_maxEventTimestamp g) (ev_timestamp ev)\<rparr>"
  define g2 where "g2 = ensureNode cfg (ev_sender_id ev) (ev_timestamp ev) g1"
  define g3 where "g3 = ensureNode cfg (ev_receiver_id ev) (ev_timestamp ev) g2"
  define g4 where "g4 = snd (updateNodeStats (ev_sender_id ev) (ev_amount ev) (ev_timestamp ev) g3)"
  define g5 where "g5 = snd (addOrUpdateEdge (ev_sender_id ev) (ev_receiver_id ev) (ev_amount ev)
      (ev_timestamp ev) (ev_transaction_type ev) g4)"
  define g6 where "g6 = g5\<lparr>g_transactionCount := Suc (g_transactionCount g5)\<rparr>"
  have ok1: "graph_ok g1" using assms by (simp add: g1_def)
  have ok2: "graph_ok g2" unfolding g2_def by (rule ensureNode_ok(1) [OF ok1])
  have ok3: "graph_ok g3" unfolding g3_def by (rule ensureNode_ok(1) [OF ok2])
  have ok4: "graph_ok g4" unfolding g4_def by (rule conjunct1 [OF updateNodeStats_ok [OF ok3]])
  have ok5: "graph_ok g5" unfolding g5_def by (rule addOrUpdateEdge_ok(1) [OF ok4])
  have ok6: "graph_ok g6" using ok5 by (simp add: g6_def)
  have o6: "order g6 = order g3"
    using updateNodeStats_ok [OF ok3] addOrUpdateEdge_ok(2) [OF ok4]
    by (simp add: g6_def g5_def g4_def order_def)
  have o45: "order g4 = order g3" "order g5 = order g3"
    using updateNodeStats_ok [OF ok3] addOrUpdateEdge_ok(2) [OF ok4] by (simp_all add: g5_def g4_def)
  have result: "snd (addTransaction cfg alg now ev g) \<in>
      {g4, g5, g6, computeNetworkMetrics alg now g6}"
    unfolding addTransaction_def Let_def g1_def [symmetric] g2_def [symmetric] g3_def [symmetric]
    by (auto simp: g4_def g5_def g6_def split: prod.splits option.splits)
  then show "graph_ok (snd (addTransaction cfg alg now ev g))"
    using ok4 ok5 ok6 compute_ok(1) [OF ok6] by auto
  assume pos: "0 < ev_timestamp ev" and cap: "order g \<le> maxNodes cfg" "0 < maxNodes cfg"
  have "g_maxEventTimestamp g1 \<noteq> 0" "order g1 \<le> maxNodes cfg"
    using pos cap by (simp_all add: g1_def order_def)
  then have o2: "order g2 \<le> maxNodes cfg" "g_maxEventTimestamp g2 \<noteq> 0"
    using ensureNode_order [OF ok1] ensureNode_ok(3) [OF ok1] cap(2) by (simp_all add: g2_def)
  then have "order g3 \<le> maxNodes cfg"
    using ensureNode_order [OF ok2] cap(2) by (simp add: g3_def)
  then show "order (snd (addTransaction cfg alg now ev g)) \<le> maxNodes cfg"
    using result o6 o45 compute_ok(2) [of alg now g6] by auto
qed

lemma hydrate_ok: "graph_ok g \<Longrightarrow> graph_ok (hydrateEdges es g)"
proof (induction es arbitrary: g)
  case (Cons e es)
  have plain: "graph_ok h \<Longrightarrow> graph_ok (ensure_plain n e h) \<and> hasNode (ensure_plain n e h) n \<and>
      (hasNode h m \<longrightarrow> hasNode (ensure_plain n e h) m)" for n m h
    by (auto simp: ensure_plain_def graph_simps)
  let ?g2 = "ensure_plain (es_receiverId e) e (ensure_plain (es_senderId e) e g)"
  have "graph_ok ?g2" "hasNode ?g2 (es_receiverId e)" "hasNode ?g2 (es_senderId e)"
    using plain Cons.prems by blast+
  then have "graph_ok (hydrateEdge e g)"
    by (simp add: hydrateEdge_def Let_def graph_ok_setEdge)
  then show ?case using Cons.IH by (simp add: hydrateEdges_def)
qed (simp add: hydrateEdges_def)

lemma hydrateNode_ok: "graph_ok g \<Longrightarrow> graph_ok (hydrateNodeState hs g)"
proof (induction hs arbitrary: g)
  case (Cons h hs)
  have "graph_ok (hydrateNode h g)"
    using Cons.prems by (auto simp: hydrateNode_def split: option.splits)
  then show ?case using Cons.IH by (simp add: hydrateNodeState_def)
qed (simp add: hydrateNodeState_def)

lemma mark_ok:
  "graph_ok (snd (markFraudUsers ids g)) = graph_ok g \<and> order (snd (markFraudUsers ids g)) = order g"
proof -
  have "graph_ok (snd (fold (\<lambda>i (added, h). if i \<in> set (g_fraudUsers h) then (added, h)
             else (Suc added, h\<lparr>g_fraudUsers := g_fraudUsers h @ [i]\<rparr>)) ids (n, g))) = graph_ok g \<and>
        order (snd (fold (\<lambda>i (added, h). if i \<in> set (g_fraudUsers h) then (added, h)
             else (Suc added, h\<lparr>g_fraudUsers := g_fraudUsers h @ [i]\<rparr>)) ids (n, g))) = order g" for n
    by (induction ids arbitrary: n g) (simp_all add: order_def)
  then show ?thesis by (simp add: markFraudUsers_def)
qed

text \<open>What happens to a graph after boot.\<close>

inductive graph_step :: "graph_cfg \<Rightarrow> graph_algorithms \<Rightarrow> graph_state \<Rightarrow> graph_state \<Rightarrow> bool"
  for cfg alg where
  transaction: "0 < ev_timestamp ev \<Longrightarrow> graph_step cfg alg g (snd (addTransaction cfg alg now ev g))"
| scheduled_prune: "graph_step cfg alg g (pruneOldNodes cfg False g)"
| labels: "graph_step cfg alg g (snd (markFraudUsers ids g))"
| recompute: "graph_step cfg alg g (computeNetworkMetrics alg now g)"

lemma graph_step_ok:
  "graph_step cfg alg g g' \<Longrightarrow> graph_ok g \<Longrightarrow>
     graph_ok g' \<and> (0 < maxNodes cfg \<and> order g \<le> maxNodes cfg \<longrightarrow> order g' \<le> maxNodes cfg)"
proof (induction rule: graph_step.induct)
  case (transaction ev g now)
  then show ?case using addTransaction_ok by blast
next
  case (scheduled_prune g)
  then show ?case using prune_ok [of g cfg False] by auto
next
  case (labels g ids)
  then show ?case using mark_ok by simp
next
  case (recompute g now)
  then show ?case using compute_ok by simp
qed

text \<open>
  C25: Whatever was hydrated at boot and whatever transactions, prunes, fraud labels and metric
  passes follow (failed transactions included), no edge dangles and nodes and edges stay
  unique; and when the hydrated graph fits the node limit, the limit holds for ever.
\<close>

theorem graph_invariant:
  assumes "(graph_step cfg alg)\<^sup>*\<^sup>* (hydrateNodeState hs (hydrateEdges es empty_graph)) g"
    and "0 < maxNodes cfg"
    and "order (hydrateNodeState hs (hydrateEdges es empty_graph)) \<le> maxNodes cfg"
  shows "graph_ok g \<and> order g \<le> maxNodes cfg"
  using assms(1)
proof (induction rule: rtranclp_induct)
  case base
  have "graph_ok empty_graph" by (simp add: graph_ok_def empty_graph_def hasEdge_def)
  then show ?case using assms(3) hydrateNode_ok [OF hydrate_ok] by blast
next
  case (step g g')
  then show ?case using graph_step_ok assms(2) by blast
qed

definition sample_graph_cfg :: graph_cfg where
  "sample_graph_cfg = \<lparr>maxNodes = 2, updateInterval = 300000,
     triangleRecomputeMinIntervalMs = 10000, recomputeMinIntervalMs = 30000\<rparr>"

definition no_algorithms :: graph_algorithms where
  "no_algorithms = \<lparr>pagerank_alg = (\<lambda>_ _. None), louvain_alg = (\<lambda>_ _. None)\<rparr>"

definition graph_event :: "int \<Rightarrow> string \<Rightarrow> string \<Rightarrow> txn_event" where
  "graph_event t s r = \<lparr>ev_sender_id = s, ev_receiver_id = r, ev_amount = 5,
     ev_transaction_type = ''transfer'', ev_timestamp = t\<rparr>"

definition sample_graph :: graph_state where
  "sample_graph = snd (addTransaction sample_graph_cfg no_algorithms 0 (graph_event 5 ''a'' ''b'') empty_graph)"

theorem graph_invariant_witness:
  "graph_ok sample_graph \<and> order sample_graph \<le> 2 \<and> hasEdge sample_graph ''a'' ''b''"
proof -
  have "graph_step sample_graph_cfg no_algorithms empty_graph sample_graph"
    unfolding sample_graph_def by (rule graph_step.transaction) (simp add: graph_event_def)
  then have steps: "(graph_step sample_graph_cfg no_algorithms)\<^sup>*\<^sup>*
      (hydrateNodeState [] (hydrateEdges [] empty_graph)) sample_graph"
    by (simp add: hydrateNodeState_def hydrateEdges_def)
  have "graph_ok sample_graph \<and> order sample_graph \<le> maxNodes sample_graph_cfg"
    by (rule graph_invariant [OF steps])
      (simp_all add: sample_graph_cfg_def hydrateNodeState_def hydrateEdges_def order_def empty_graph_def)
  moreover have "hasEdge sample_graph ''a'' ''b''" by code_simp
  ultimately show ?thesis by (simp add: sample_graph_cfg_def)
qed

text \<open>
  At the node limit a transaction from the least recently seen known sender to a new
  receiver evicts that very sender before its statistics are updated: the call throws, the
  transaction is lost from the graph and the receiver is left without an edge.
\<close>

theorem cap_eviction_drops_own_sender:
  "let g = snd (addTransaction sample_graph_cfg no_algorithms 0 (graph_event 5 ''a'' ''b'') empty_graph);
       (err, g') = addTransaction sample_graph_cfg no_algorithms 0 (graph_event 9 ''a'' ''c'') g
   in order g = maxNodes sample_graph_cfg \<and> err = Some NotFoundGraphError \<and>
      map fst (g_nodes g') = [''b'', ''c''] \<and> g_edges g' = []"
  by code_simp

section \<open>The fraud distance is a shortest distance\<close>

text \<open>The users at undirected distance at most \<open>k\<close>.\<close>

fun ball :: "graph_state \<Rightarrow> string \<Rightarrow> nat \<Rightarrow> string set" where
  "ball g u 0 = {u}"
| "ball g u (Suc k) = ball g u k \<union> (\<Union>x \<in> ball g u k. set (neighbors g x))"

abbreviation fraud :: "graph_state \<Rightarrow> string set" where
  "fraud g \<equiv> set (g_fraudUsers g)"

lemma ball_finite: "finite (ball g u k)"
  by (induction k) auto

lemma ball_mono: "k \<le> m \<Longrightarrow> ball g u k \<subseteq> ball g u m"
proof (induction m)
  case (Suc m)
  then show ?case by (cases "k = Suc m") auto
qed simp

lemma ball_stable: "ball g u (Suc k) = ball g u k \<Longrightarrow> ball g u (k + j) = ball g u k"
proof (induction j)
  case (Suc j)
  then have "ball g u (k + j) = ball g u k" by simp
  then have "ball g u (Suc (k + j)) = ball g u (Suc k)" by simp
  with Suc.prems show ?case by simp
qed simp

lemma scan_exhausted:
  "bfs_scan g d xs vis nx = Exhausted vis' nx' \<Longrightarrow> set vis \<inter> fraud g = {} \<Longrightarrow> distinct vis \<Longrightarrow>
     set vis' = set vis \<union> set xs \<and> set nx' = set nx \<union> (set xs - set vis) \<and>
     set vis' \<inter> fraud g = {} \<and> distinct vis'"
proof (induction xs arbitrary: vis nx)
  case (Cons x xs)
  show ?case
  proof (cases "x \<in> set vis")
    case True
    have "set vis' = set vis \<union> set xs \<and> set nx' = set nx \<union> (set xs - set vis) \<and>
        set vis' \<inter> fraud g = {} \<and> distinct vis'"
      by (rule Cons.IH) (use True Cons.prems in simp_all)
    then show ?thesis using True by auto
  next
    case False
    with Cons.prems have step: "bfs_scan g d xs (x # vis) (nx @ [x]) = Exhausted vis' nx'" "x \<notin> fraud g"
      by (auto split: if_splits)
    then have "set vis' = set (x # vis) \<union> set xs \<and> set nx' = set (nx @ [x]) \<union> (set xs - set (x # vis)) \<and>
        set vis' \<inter> fraud g = {} \<and> distinct vis'"
      using Cons.prems False by (intro Cons.IH) auto
    then show ?thesis using False by auto
  qed
qed simp

lemma scan_found:
  "bfs_scan g d xs vis nx = Found r \<Longrightarrow> distinct vis \<Longrightarrow>
     (r = d \<and> set xs \<inter> fraud g \<noteq> {}) \<or>
     (r = fraudPathUnknown \<and> fraudPathMaxVisited \<le> card (set vis \<union> set xs))"
proof (induction xs arbitrary: vis nx)
  case (Cons x xs)
  consider "x \<in> set vis" | "x \<notin> set vis" "x \<in> fraud g"
    | "x \<notin> set vis" "x \<notin> fraud g" "fraudPathMaxVisited \<le> Suc (length vis)"
    | "x \<notin> set vis" "x \<notin> fraud g" "\<not> fraudPathMaxVisited \<le> Suc (length vis)" by blast
  then show ?case
  proof cases
    case 1
    then have "set vis \<union> set (x # xs) = set vis \<union> set xs" by auto
    with 1 Cons show ?thesis by fastforce
  next
    case 2
    then show ?thesis using Cons.prems by auto
  next
    case 3
    have "Suc (length vis) = card (set (x # vis))" using 3 Cons.prems(2) by (simp add: distinct_card)
    also have "\<dots> \<le> card (set vis \<union> set (x # xs))" by (rule card_mono) auto
    finally show ?thesis using 3 Cons.prems(1) by simp
  next
    case 4
    then have "bfs_scan g d xs (x # vis) (nx @ [x]) = Found r" using Cons.prems(1) by simp
    then have "(r = d \<and> set xs \<inter> fraud g \<noteq> {}) \<or>
        (r = fraudPathUnknown \<and> fraudPathMaxVisited \<le> card (set (x # vis) \<union> set xs))"
      by (rule Cons.IH) (use 4(1) Cons.prems(2) in simp)
    then show ?thesis by auto
  qed
qed simp

lemma bfs_levels_spec:
  assumes "set vis = ball g u d" and "set fr \<subseteq> ball g u d"
    and "\<forall>x \<in> ball g u d. x \<in> set fr \<or> set (neighbors g x) \<subseteq> ball g u d"
    and "ball g u d \<inter> fraud g = {}" and "distinct vis" and "d + k < fraudPathUnknown"
  shows "let r = bfs_levels g k (Suc d) vis fr in
     (r = fraudPathUnknown \<and> (ball g u (d + k) \<inter> fraud g = {} \<or> fraudPathMaxVisited \<le> card (ball g u (d + k)))) \<or>
     (d < r \<and> r \<le> d + k \<and> ball g u r \<inter> fraud g \<noteq> {} \<and> ball g u (r - 1) \<inter> fraud g = {})"
  using assms
proof (induction k arbitrary: d vis fr)
  case 0
  then show ?case by simp
next
  case (Suc k)
  let ?xs = "concat (map (neighbors g) fr)"
  have level: "ball g u (Suc d) = set vis \<union> set ?xs"
    using Suc.prems(1-3) by auto
  show ?case
  proof (cases "bfs_scan g (Suc d) ?xs vis []")
    case (Found r)
    have "(r = Suc d \<and> set ?xs \<inter> fraud g \<noteq> {}) \<or>
        (r = fraudPathUnknown \<and> fraudPathMaxVisited \<le> card (ball g u (Suc d)))"
      using scan_found [OF Found Suc.prems(5)] by (simp only: level)
    then show ?thesis
    proof (elim disjE conjE)
      assume "r = Suc d" "set ?xs \<inter> fraud g \<noteq> {}"
      moreover from this have "ball g u (Suc d) \<inter> fraud g \<noteq> {}" unfolding level by blast
      ultimately show ?thesis using Found Suc.prems(4) by (simp del: ball.simps)
    next
      assume "r = fraudPathUnknown" and big: "fraudPathMaxVisited \<le> card (ball g u (Suc d))"
      moreover have "card (ball g u (Suc d)) \<le> card (ball g u (d + Suc k))"
        by (rule card_mono [OF ball_finite ball_mono]) simp
      ultimately show ?thesis using Found by (simp del: ball.simps)
    qed
  next
    case (Exhausted vis' nx)
    have ex: "set vis' = set vis \<union> set ?xs \<and> set nx = set [] \<union> (set ?xs - set vis) \<and>
        set vis' \<inter> fraud g = {} \<and> distinct vis'"
      by (rule scan_exhausted [OF Exhausted _ Suc.prems(5)]) (use Suc.prems(1,4) in simp)
    have vis': "set vis' = ball g u (Suc d)" "set nx = set ?xs - set vis"
        "set vis' \<inter> fraud g = {}" "distinct vis'"
      unfolding level
      using conjunct1 [OF ex] conjunct1 [OF conjunct2 [OF ex]]
        conjunct1 [OF conjunct2 [OF conjunct2 [OF ex]]] conjunct2 [OF conjunct2 [OF conjunct2 [OF ex]]]
      by (simp_all only: list.set(1) Un_empty_left)
    show ?thesis
    proof (cases "nx = []")
      case True
      then have "ball g u (Suc d) = ball g u d" using vis'(1,2) level Suc.prems(1) by auto
      then have "ball g u (d + Suc k) = ball g u d" by (rule ball_stable)
      then show ?thesis using Exhausted True Suc.prems(4) by (simp del: ball.simps)
    next
      case False
      have "\<forall>x \<in> ball g u (Suc d). x \<in> set nx \<or> set (neighbors g x) \<subseteq> ball g u (Suc d)"
        using level vis'(2) Suc.prems(1) by auto
      moreover have "set nx \<subseteq> ball g u (Suc d)" using level vis'(2) by auto
      ultimately have "let r = bfs_levels g k (Suc (Suc d)) vis' nx in
         (r = fraudPathUnknown \<and> (ball g u (Suc d + k) \<inter> fraud g = {} \<or>
            fraudPathMaxVisited \<le> card (ball g u (Suc d + k)))) \<or>
         (Suc d < r \<and> r \<le> Suc d + k \<and> ball g u r \<inter> fraud g \<noteq> {} \<and> ball g u (r - 1) \<inter> fraud g = {})"
        using vis' Suc.prems(6) by (intro Suc.IH) (simp_all del: ball.simps)
      then show ?thesis using Exhausted False by (auto simp: Let_def simp del: ball.simps)
    qed
  qed
qed

text \<open>
  C20: The distance to known fraud is 0 to 4 or 99. A value below 99 is the exact length of the
  shortest undirected path to a fraud user; 99 means that no fraud user is within four steps,
  or that at least 1000 users are.
\<close>

theorem fraud_distance_exact:
  "let r = shortestPathToFraud g u in
     (r = 99 \<and> (ball g u 4 \<inter> fraud g = {} \<or> 1000 \<le> card (ball g u 4))) \<or>
     (r \<le> 4 \<and> ball g u r \<inter> fraud g \<noteq> {} \<and> (\<forall>k < r. ball g u k \<inter> fraud g = {}))"
proof -
  consider "g_fraudUsers g = []" | "u \<in> fraud g" | "g_fraudUsers g \<noteq> []" "u \<notin> fraud g" by blast
  then show ?thesis
  proof cases
    case 1
    then show ?thesis by (simp add: shortestPathToFraud_def fraudPathUnknown_def)
  next
    case 2
    then show ?thesis by (auto simp: shortestPathToFraud_def)
  next
    case 3
    let ?r = "bfs_levels g 4 1 [u] [u]"
    have "let r = bfs_levels g 4 (Suc 0) [u] [u] in
     (r = fraudPathUnknown \<and> (ball g u (0 + 4) \<inter> fraud g = {} \<or> fraudPathMaxVisited \<le> card (ball g u (0 + 4)))) \<or>
     (0 < r \<and> r \<le> 0 + 4 \<and> ball g u r \<inter> fraud g \<noteq> {} \<and> ball g u (r - 1) \<inter> fraud g = {})"
      by (rule bfs_levels_spec) (use 3 in \<open>simp_all add: fraudPathUnknown_def\<close>)
    moreover have "ball g u k \<inter> fraud g = {}" if "k < ?r" "ball g u (?r - 1) \<inter> fraud g = {}" for k
    proof -
      have "k \<le> ?r - 1" using that(1) by linarith
      from ball_mono [OF this, of g u] that(2) show ?thesis by blast
    qed
    moreover have "shortestPathToFraud g u = ?r" using 3 by (simp add: shortestPathToFraud_def fraudPathMaxDepth_def)
    ultimately show ?thesis
      by (auto simp: Let_def fraudPathUnknown_def fraudPathMaxVisited_def)
  qed
qed

theorem fraud_distance_exact_witness:
  "let g = snd (markFraudUsers [''b''] sample_graph) in
     shortestPathToFraud g ''a'' = 1 \<and> ball g ''a'' 1 \<inter> fraud g \<noteq> {} \<and> ball g ''a'' 0 \<inter> fraud g = {}"
proof -
  let ?g = "snd (markFraudUsers [''b''] sample_graph)"
  have "shortestPathToFraud ?g ''a'' = 1" by code_simp
  then show ?thesis using fraud_distance_exact [of ?g "''a''"] by (auto simp: Let_def)
qed

section \<open>Ranges of the network features\<close>

lemma linked_pairs_le: "2 * linked_pairs g xs \<le> length xs * (length xs - 1)"
proof (induction xs)
  case (Cons x xs)
  have "2 * linked_pairs g (x # xs) \<le> 2 * length xs + length xs * (length xs - 1)"
    using Cons length_filter_le [of _ xs] by (simp add: add_mono)
  also have "\<dots> = length (x # xs) * (length (x # xs) - 1)"
    by (cases xs) (simp_all add: algebra_simps)
  finally show ?case .
qed simp

lemma clustering_range:
  "0 \<le> calculateLocalClusteringCoefficient g n \<and> calculateLocalClusteringCoefficient g n \<le> 1"
proof (cases "length (neighbors g n) < 2")
  case True
  then show ?thesis by (simp add: calculateLocalClusteringCoefficient_def)
next
  case False
  let ?k = "length (neighbors g n)"
  have k: "2 \<le> ?k" using False by simp
  have "real (2 * linked_pairs g (neighbors g n)) \<le> real (?k * (?k - 1))"
    using linked_pairs_le [of g "neighbors g n"] by (simp only: of_nat_le_iff)
  then have "real (linked_pairs g (neighbors g n)) \<le> real ?k * (real ?k - 1) / 2"
    using k by (simp add: of_nat_diff)
  moreover have "0 < real ?k" "0 < real ?k - 1" using k by linarith+
  then have "0 < real ?k * (real ?k - 1) / 2" by (simp only: mult_pos_pos half_gt_zero)
  ultimately show ?thesis
    using False by (simp add: calculateLocalClusteringCoefficient_def Let_def divide_le_eq)
qed

lemma edges_map: "om_wf (g_edges g) \<Longrightarrow> distinct (map fst (filter P (g_edges g)))"
  unfolding om_wf_def by (rule distinct_map_filter)

lemma outNeighbors_distinct:
  assumes "om_wf (g_edges g)"
  shows "distinct (outNeighbors g n)"
proof -
  have "inj_on snd (set (map fst (filter (\<lambda>e. fst (fst e) = n) (g_edges g))))"
    by (rule inj_onI) (auto simp: prod_eq_iff)
  then show ?thesis
    using edges_map [OF assms] by (simp add: outNeighbors_def distinct_map comp_def image_image)
      (simp add: inj_on_def distinct_map)
qed

lemma inNeighbors_distinct:
  assumes "om_wf (g_edges g)"
  shows "distinct (inNeighbors g n)"
proof -
  have "inj_on fst (set (map fst (filter (\<lambda>e. snd (fst e) = n) (g_edges g))))"
    by (rule inj_onI) (auto simp: prod_eq_iff)
  then show ?thesis
    using edges_map [OF assms] by (simp add: inNeighbors_def distinct_map comp_def image_image)
      (simp add: inj_on_def distinct_map)
qed

lemma edge_in: "((a, b), x) \<in> set (g_edges g) \<Longrightarrow> hasEdge g a b"
  using om_get_keys [of "(a, b)" "g_edges g"] by (force simp: hasEdge_def om_keys_def)

lemma degree_le:
  assumes ok: "graph_ok g" and "hasNode g u" and loop: "\<not> hasEdge g u u"
  shows "outDegree g u \<le> order g - 1" and "inDegree g u \<le> order g - 1"
proof -
  let ?N = "fst ` set (g_nodes g)"
  have wf: "om_wf (g_nodes g)" "om_wf (g_edges g)" using ok by (simp_all add: graph_ok_def)
  have N: "hasNode g n \<longleftrightarrow> n \<in> ?N" for n
    using om_get_keys [of n "g_nodes g"] by (simp add: hasNode_def om_keys_def)
  have "card ?N = order g"
    using wf(1) distinct_card [of "map fst (g_nodes g)"] by (simp add: om_wf_def order_def)
  then have card: "card (?N - {u}) = order g - 1" using assms(2) N by simp
  have ends: "hasNode g a \<and> hasNode g b \<and> (a, b) \<noteq> (u, u)" if "hasEdge g a b" for a b
    using ok that loop by (auto simp: graph_ok_def)
  have "set (outNeighbors g u) \<subseteq> ?N - {u}"
    using edge_in [of u] ends N by (fastforce simp: outNeighbors_def)
  then have "card (set (outNeighbors g u)) \<le> order g - 1"
    using card_mono [of "?N - {u}" "set (outNeighbors g u)"] card by simp
  then show "outDegree g u \<le> order g - 1"
    using outNeighbors_distinct [OF wf(2)] by (simp add: outDegree_def distinct_card)
  have "set (inNeighbors g u) \<subseteq> ?N - {u}"
    using edge_in [of _ u] ends N by (fastforce simp: inNeighbors_def)
  then have "card (set (inNeighbors g u)) \<le> order g - 1"
    using card_mono [of "?N - {u}" "set (inNeighbors g u)"] card by simp
  then show "inDegree g u \<le> order g - 1"
    using inNeighbors_distinct [OF wf(2)] by (simp add: inDegree_def distinct_card)
qed

text \<open>
  The features published for a user are normalised: the clustering coefficient and the
  neighbourhood fraud rate lie between 0 and 1, and so does the degree centrality of every
  user without a transfer to itself in a well-formed graph.
\<close>

theorem network_feature_ranges:
  assumes "graph_ok g" and "\<not> hasEdge g u u"
  shows "0 \<le> calculateLocalClusteringCoefficient g u \<and> calculateLocalClusteringCoefficient g u \<le> 1 \<and>
     0 \<le> nf_neighborhoodFraudRate (getNetworkFeatures g u) \<and>
     nf_neighborhoodFraudRate (getNetworkFeatures g u) \<le> 1 \<and>
     0 \<le> nf_degreeCentrality (getNetworkFeatures g u) \<and> nf_degreeCentrality (getNetworkFeatures g u) \<le> 1"
proof -
  have rate: "0 \<le> neighborhoodFraudRate g u \<and> neighborhoodFraudRate g u \<le> 1"
    by (simp add: neighborhoodFraudRate_def Let_def divide_le_eq)
  show ?thesis
  proof (cases "om_get (g_nodes g) u")
    case None
    then show ?thesis using clustering_range by (simp add: getNetworkFeatures_def)
  next
    case (Some a)
    then have "hasNode g u" by (simp add: hasNode_def)
    from degree_le [OF assms(1) this assms(2)]
    have "inDegree g u + outDegree g u \<le> 2 * max (order g - 1) 1" by simp
    then have "real (inDegree g u + outDegree g u) \<le> 2 * real (max (order g - 1) 1)"
      by (metis of_nat_le_iff of_nat_mult of_nat_numeral)
    moreover have "0 < 2 * real (max (order g - 1) 1)" by simp
    ultimately have "real (inDegree g u + outDegree g u) / (2 * real (max (order g - 1) 1)) \<le> 1"
      by (simp only: divide_le_eq_1_pos)
    then show ?thesis using Some rate clustering_range by (simp add: getNetworkFeatures_def)
  qed
qed

theorem network_feature_ranges_witness:
  "nf_degreeCentrality (getNetworkFeatures sample_graph ''a'') \<le> 1"
proof -
  have "graph_ok sample_graph"
    unfolding sample_graph_def by (rule addTransaction_ok(1))
      (simp add: graph_ok_def empty_graph_def hasEdge_def)
  moreover have "\<not> hasEdge sample_graph ''a'' ''a''" by code_simp
  ultimately show ?thesis using network_feature_ranges by blast
qed

end
