(* ===== verification/LeaderLease.thy ===== *)
theory LeaderLease
  imports Prelude
begin

text \<open>
  \<open>paa-service/src/services/leader-lease.service.ts\<close>: the Redis lease that keeps a single
  PAA instance consuming. The lease key of the server is its holder and expiry time, as set by
  \<open>SET \<dots> PX ttl NX\<close> and the two Lua scripts; every instance has the state of the service.
  Server and instances read one clock (milliseconds); an unreachable server is an argument.
\<close>

section \<open>The service\<close>

record lease_instance =
  li_held :: bool
  li_lastRenewOkAt :: int
  li_lost :: nat

text \<open>Holder and expiry of the key; an expired key counts as absent.\<close>

type_synonym lease_key = "(string \<times> int) option"

definition lease_get :: "lease_key \<Rightarrow> int \<Rightarrow> string option" where
  "lease_get k now = (case k of None \<Rightarrow> None | Some (h, expires) \<Rightarrow> if now < expires then Some h else None)"

definition renewIntervalMs :: "int \<Rightarrow> int" where
  "renewIntervalMs ttl = max 50 (ttl div 3)"

text \<open>\<open>acquire\<close>: \<open>SET NX\<close> sets an absent key only; an unreachable server fails closed.\<close>

definition acquire ::
    "int \<Rightarrow> string \<Rightarrow> bool \<Rightarrow> int \<Rightarrow> lease_key \<Rightarrow> lease_instance \<Rightarrow> bool \<times> lease_key \<times> lease_instance" where
  "acquire ttl i reachable now k s =
     (if \<not> reachable then (False, k, s\<lparr>li_held := False\<rparr>)
      else if lease_get k now = None
           then (True, Some (i, now + ttl), s\<lparr>li_held := True, li_lastRenewOkAt := now\<rparr>)
           else (False, k, s\<lparr>li_held := False\<rparr>))"

text \<open>The number of times \<open>onLost\<close> ran is kept in \<open>li_lost\<close>.\<close>

definition surrender :: "lease_instance \<Rightarrow> lease_instance" where
  "surrender s = (if \<not> li_held s then s else s\<lparr>li_held := False, li_lost := Suc (li_lost s)\<rparr>)"

definition renew ::
    "int \<Rightarrow> string \<Rightarrow> bool \<Rightarrow> int \<Rightarrow> lease_key \<Rightarrow> lease_instance \<Rightarrow> lease_key \<times> lease_instance" where
  "renew ttl i reachable now k s =
     (if \<not> li_held s then (k, s)
      else if \<not> reachable
           then (k, if ttl \<le> now - li_lastRenewOkAt s then surrender s else s)
      else if lease_get k now = Some i
           then (Some (i, now + ttl), s\<lparr>li_lastRenewOkAt := now\<rparr>)
      else (k, surrender s))"

definition release ::
    "string \<Rightarrow> bool \<Rightarrow> int \<Rightarrow> lease_key \<Rightarrow> lease_instance \<Rightarrow> lease_key \<times> lease_instance" where
  "release i reachable now k s =
     (if \<not> li_held s then (k, s)
      else (if reachable \<and> lease_get k now = Some i then None else k, s\<lparr>li_held := False\<rparr>))"

text \<open>
  \<open>acquireWithRetry\<close>: attempts a second apart until the deadline. \<open>attempt t\<close> is the outcome of
  the attempt that starts at \<open>t\<close>; an attempt takes no time beyond the delay after it.
\<close>

function acquireWithRetry :: "(int \<Rightarrow> bool) \<Rightarrow> int \<Rightarrow> int \<Rightarrow> bool" where
  "acquireWithRetry attempt now giveUpAt =
     (if now < giveUpAt then attempt now \<or> acquireWithRetry attempt (now + 1000) giveUpAt else False)"
  by pat_completeness auto
termination by (relation "measure (\<lambda>(_, now, g). nat (g - now))") auto

declare acquireWithRetry.simps [simp del]

section \<open>Several instances and one server\<close>

record lease_world =
  lw_now :: int
  lw_key :: lease_key
  lw_inst :: "string \<Rightarrow> lease_instance"

inductive lease_step :: "int \<Rightarrow> lease_world \<Rightarrow> lease_world \<Rightarrow> bool" for ttl :: int where
  tick: "0 \<le> d \<Longrightarrow> lease_step ttl w (w\<lparr>lw_now := lw_now w + d\<rparr>)"
| try_acquire: "acquire ttl i reachable (lw_now w) (lw_key w) (lw_inst w i) = (b, k, s) \<Longrightarrow>
     lease_step ttl w (w\<lparr>lw_key := k, lw_inst := (lw_inst w)(i := s)\<rparr>)"
| try_renew: "renew ttl i reachable (lw_now w) (lw_key w) (lw_inst w i) = (k, s) \<Longrightarrow>
     lease_step ttl w (w\<lparr>lw_key := k, lw_inst := (lw_inst w)(i := s)\<rparr>)"
| give_back: "release i reachable (lw_now w) (lw_key w) (lw_inst w i) = (k, s) \<Longrightarrow>
     lease_step ttl w (w\<lparr>lw_key := k, lw_inst := (lw_inst w)(i := s)\<rparr>)"

inductive_cases lease_stepE: "lease_step ttl w w'"

definition idle_world :: "int \<Rightarrow> lease_world" where
  "idle_world t = \<lparr>lw_now = t, lw_key = None,
     lw_inst = (\<lambda>_. \<lparr>li_held = False, li_lastRenewOkAt = 0, li_lost = 0\<rparr>)\<rparr>"

text \<open>An instance whose belief has not outlived its last confirmed renewal.\<close>

definition fresh_leader :: "int \<Rightarrow> lease_world \<Rightarrow> string \<Rightarrow> bool" where
  "fresh_leader ttl w i =
     (li_held (lw_inst w i) \<and> lw_now w < li_lastRenewOkAt (lw_inst w i) + ttl)"

definition lease_inv :: "int \<Rightarrow> lease_world \<Rightarrow> bool" where
  "lease_inv ttl w =
     (\<forall>i. fresh_leader ttl w i \<longrightarrow>
        (\<exists>expires. lw_key w = Some (i, expires) \<and> li_lastRenewOkAt (lw_inst w i) + ttl \<le> expires))"

lemma fresh_owns_key:
  "lease_inv ttl w \<Longrightarrow> fresh_leader ttl w i \<Longrightarrow> lease_get (lw_key w) (lw_now w) = Some i"
  by (fastforce simp: lease_inv_def fresh_leader_def lease_get_def)

lemma lease_inv_local:
  assumes inv: "lease_inv ttl w"
    and other: "\<And>j. j \<noteq> i \<Longrightarrow> fresh_leader ttl w j \<Longrightarrow> k = lw_key w"
    and own: "li_held s \<Longrightarrow> lw_now w < li_lastRenewOkAt s + ttl \<Longrightarrow>
      \<exists>e. k = Some (i, e) \<and> li_lastRenewOkAt s + ttl \<le> e"
  shows "lease_inv ttl (w\<lparr>lw_key := k, lw_inst := (lw_inst w)(i := s)\<rparr>)"
  using assms by (auto simp: lease_inv_def fresh_leader_def)

lemma lease_step_inv: "lease_step ttl w w' \<Longrightarrow> lease_inv ttl w \<Longrightarrow> lease_inv ttl w'"
proof (induction rule: lease_step.induct)
  case (tick d w)
  then show ?case by (auto simp: lease_inv_def fresh_leader_def)
next
  case (try_acquire i reachable w b k s)
  show ?case
  proof (rule lease_inv_local [OF try_acquire.prems])
    fix j assume "j \<noteq> i" "fresh_leader ttl w j"
    then have "lease_get (lw_key w) (lw_now w) = Some j" by (intro fresh_owns_key [OF try_acquire.prems])
    then show "k = lw_key w" using try_acquire.hyps by (auto simp: acquire_def split: if_splits)
  qed (use try_acquire.hyps in \<open>auto simp: acquire_def split: if_splits\<close>)
next
  case (try_renew i reachable w k s)
  show ?case
  proof (rule lease_inv_local [OF try_renew.prems])
    fix j assume "j \<noteq> i" "fresh_leader ttl w j"
    then have "lease_get (lw_key w) (lw_now w) = Some j" by (intro fresh_owns_key [OF try_renew.prems])
    then show "k = lw_key w"
      using try_renew.hyps \<open>j \<noteq> i\<close> by (auto simp: renew_def split: if_splits)
  next
    assume s: "li_held s" "lw_now w < li_lastRenewOkAt s + ttl"
    show "\<exists>e. k = Some (i, e) \<and> li_lastRenewOkAt s + ttl \<le> e"
    proof (cases "reachable \<and> lease_get (lw_key w) (lw_now w) = Some i \<and> li_held (lw_inst w i)")
      case True
      then show ?thesis using try_renew.hyps by (auto simp: renew_def)
    next
      case False
      then have "k = lw_key w" "s = lw_inst w i"
        using try_renew.hyps s(1) by (auto simp: renew_def surrender_def split: if_splits)
      then show ?thesis using try_renew.prems s by (auto simp: lease_inv_def fresh_leader_def)
    qed
  qed
next
  case (give_back i reachable w k s)
  show ?case
  proof (rule lease_inv_local [OF give_back.prems])
    fix j assume "j \<noteq> i" "fresh_leader ttl w j"
    then have "lease_get (lw_key w) (lw_now w) = Some j" by (intro fresh_owns_key [OF give_back.prems])
    then show "k = lw_key w"
      using give_back.hyps \<open>j \<noteq> i\<close> by (auto simp: release_def split: if_splits)
  qed (use give_back.hyps in \<open>auto simp: release_def split: if_splits\<close>)
qed

section \<open>Properties\<close>


definition led_world :: lease_world where
  "led_world = (let (b, k, s) = acquire 30000 ''p1'' True 5 None (lw_inst (idle_world 5) ''p1'')
     in (idle_world 5)\<lparr>lw_key := k, lw_inst := (lw_inst (idle_world 5))(''p1'' := s)\<rparr>)"


text \<open>
  A renewal tick at least a lease time after the last confirmed one that does not find the
  instance's own key ends its leadership and runs the loss handler once.
\<close>

lemma renewal_self_fences:
  assumes "li_held s" and "ttl \<le> now - li_lastRenewOkAt s" and "\<not> (reachable \<and> lease_get k now = Some i)"
  shows "let (k', s') = renew ttl i reachable now k s
     in k' = k \<and> \<not> li_held s' \<and> li_lost s' = Suc (li_lost s)"
  using assms by (auto simp: renew_def surrender_def)

end
