(* ===== verification/ProcessedEvents.thy ===== *)
theory ProcessedEvents
  imports Prelude
begin

text \<open>
  \<open>paa-service/src/services/processed-events.service.ts\<close>: the window of recently processed
  transaction ids that keeps a Kafka replay from being counted twice, a ring of ids beside a
  set. A missing or empty id is \<open>None\<close> or \<open>[]\<close>.
\<close>

record processed_events =
  pe_seen :: "string set"
  pe_ring :: "string option list"
  pe_next :: nat

definition pe_new :: "nat \<Rightarrow> processed_events" where
  "pe_new capacity = \<lparr>pe_seen = {}, pe_ring = replicate (max 1 capacity) None, pe_next = 0\<rparr>"

definition markIfNew :: "string option \<Rightarrow> processed_events \<Rightarrow> bool \<times> processed_events" where
  "markIfNew tid p =
     (case tid of
        None \<Rightarrow> (True, p)
      | Some i \<Rightarrow>
          if i = [] then (True, p)
          else if i \<in> pe_seen p then (False, p)
          else
            let seen = (case pe_ring p ! pe_next p of None \<Rightarrow> pe_seen p | Some e \<Rightarrow> pe_seen p - {e})
            in (True, \<lparr>pe_seen = insert i seen, pe_ring = (pe_ring p)[pe_next p := Some i],
                       pe_next = (pe_next p + 1) mod length (pe_ring p)\<rparr>))"

definition pe_size :: "processed_events \<Rightarrow> nat" where
  "pe_size p = card (pe_seen p)"

definition pe_clear :: "processed_events \<Rightarrow> processed_events" where
  "pe_clear p = \<lparr>pe_seen = {}, pe_ring = map (\<lambda>_. None) (pe_ring p), pe_next = 0\<rparr>"

section \<open>The ring represents a window\<close>

text \<open>
  The specification: the ids accepted so far, oldest first; the window is the last \<open>n\<close> of
  them, and an id is new when it is not in the window.
\<close>

definition window :: "nat \<Rightarrow> string list \<Rightarrow> string list" where
  "window n acc = drop (length acc - n) acc"

definition spec_mark :: "nat \<Rightarrow> string option \<Rightarrow> string list \<Rightarrow> bool \<times> string list" where
  "spec_mark n tid acc =
     (case tid of
        None \<Rightarrow> (True, acc)
      | Some i \<Rightarrow> if i = [] then (True, acc)
                  else if i \<in> set (window n acc) then (False, acc) else (True, acc @ [i]))"

definition represents :: "nat \<Rightarrow> processed_events \<Rightarrow> string list \<Rightarrow> bool" where
  "represents n p acc =
     (0 < n \<and> length (pe_ring p) = n \<and> pe_next p = length acc mod n \<and>
      (\<forall>j < length acc. length acc - n \<le> j \<longrightarrow> pe_ring p ! (j mod n) = Some (acc ! j)) \<and>
      (\<forall>i < n. length acc \<le> i \<longrightarrow> pe_ring p ! i = None) \<and>
      pe_seen p = set (window n acc) \<and> distinct (window n acc))"

lemma represents_new: "represents (max 1 c) (pe_new c) []"
  by (simp add: represents_def pe_new_def window_def)

lemma window_snoc_small: "length acc < n \<Longrightarrow> window n (acc @ [x]) = window n acc @ [x]"
  by (simp add: window_def)

lemma window_snoc_full:
  assumes "n \<le> length acc" and "0 < n"
  shows "window n acc = acc ! (length acc - n) # tl (window n acc)"
    and "window n (acc @ [x]) = tl (window n acc) @ [x]"
proof -
  have "length acc - n < length acc" using assms by simp
  then show "window n acc = acc ! (length acc - n) # tl (window n acc)"
    by (simp add: window_def Cons_nth_drop_Suc [symmetric])
  show "window n (acc @ [x]) = tl (window n acc) @ [x]"
    using assms by (simp add: window_def drop_Suc tl_drop Suc_diff_le)
qed

lemma ring_slot:
  assumes "represents n p acc"
  shows "pe_ring p ! pe_next p =
     (if length acc < n then None else Some (acc ! (length acc - n)))"
proof (cases "length acc < n")
  case True
  then show ?thesis using assms by (simp add: represents_def)
next
  case False
  then have "(length acc - n) mod n = length acc mod n" by (simp add: le_mod_geq)
  moreover have "pe_ring p ! ((length acc - n) mod n) = Some (acc ! (length acc - n))"
  proof -
    have "0 < n" using assms by (simp add: represents_def)
    then have "length acc - n < length acc" using False by linarith
    then show ?thesis using assms unfolding represents_def by blast
  qed
  ultimately show ?thesis using assms False by (simp add: represents_def)
qed

lemma mark_represents:
  assumes rep: "represents n p acc" and new: "i \<notin> pe_seen p" and ne: "i \<noteq> []"
  shows "represents n (snd (markIfNew (Some i) p)) (acc @ [i])"
proof -
  let ?p = "snd (markIfNew (Some i) p)"
  have n: "0 < n" "length (pe_ring p) = n" and nx: "pe_next p = length acc mod n"
    and seen: "pe_seen p = set (window n acc)" and dist: "distinct (window n acc)"
    using rep by (simp_all add: represents_def)
  have nlt: "pe_next p < n" using n(1) nx by simp
  have ring: "pe_ring ?p = (pe_ring p)[pe_next p := Some i]" "pe_next ?p = (pe_next p + 1) mod n"
    using new ne n by (simp_all add: markIfNew_def Let_def)
  have slots: "pe_ring ?p ! (j mod n) = Some ((acc @ [i]) ! j)"
    if "j < length (acc @ [i])" "length (acc @ [i]) - n \<le> j" for j
  proof (cases "j = length acc")
    case True
    then show ?thesis using ring nx nlt n by simp
  next
    case False
    then have j: "j < length acc" "length acc - n < j \<or> length acc - n = j \<and> length acc < n"
      using that by auto
    have "j mod n \<noteq> length acc mod n"
    proof
      assume eq: "j mod n = length acc mod n"
      then have "n dvd length acc - j"
        using j(1) mod_eq_dvd_iff_nat [of j "length acc" n] by simp
      then have "n \<le> length acc - j" using j(1) by (simp add: dvd_imp_le)
      then show False using j n(1) that by simp
    qed
    moreover have "pe_ring p ! (j mod n) = Some (acc ! j)"
      using rep j by (auto simp: represents_def)
    ultimately show ?thesis using ring nx j by (simp add: nth_append)
  qed
  have empty: "pe_ring ?p ! k = None" if "k < n" "length (acc @ [i]) \<le> k" for k
    using that rep ring nx by (simp add: represents_def)
  have win: "pe_seen ?p = set (window n (acc @ [i])) \<and> distinct (window n (acc @ [i]))"
  proof (cases "length acc < n")
    case True
    then have "pe_seen ?p = insert i (pe_seen p)"
      using new ne ring_slot [OF rep] by (simp add: markIfNew_def Let_def)
    then show ?thesis using True seen dist new by (simp add: window_snoc_small)
  next
    case False
    then have full: "n \<le> length acc" by simp
    note w = window_snoc_full [OF full n(1)]
    have "pe_seen ?p = insert i (pe_seen p - {acc ! (length acc - n)})"
      using False new ne ring_slot [OF rep] by (simp add: markIfNew_def Let_def)
    also have "pe_seen p - {acc ! (length acc - n)} = set (tl (window n acc))"
      using seen dist w(1) by (metis Diff_insert_absorb distinct.simps(2) list.simps(15))
    finally have "pe_seen ?p = set (window n (acc @ [i]))" unfolding w(2) by simp
    moreover have "distinct (window n (acc @ [i]))"
      unfolding w(2) using dist w(1) new seen by (metis distinct.simps(2) distinct_append
          disjoint_insert(2) distinct_singleton inf_bot_right list.set_intros(2) list.simps(15) set_empty)
    ultimately show ?thesis by blast
  qed
  have "pe_next ?p = length (acc @ [i]) mod n" using ring nx by (simp add: mod_Suc_eq)
  then show ?thesis using n ring slots empty win unfolding represents_def by auto
qed

text \<open>
  The ring and set refine the window specification: on every history of calls each answer
  is that of a window of the last accepted ids, so an id is reported new exactly when it is
  empty or not among the last \<open>capacity\<close> accepted ids.
\<close>

theorem markIfNew_refines_window:
  assumes "represents n p acc"
  shows "fst (markIfNew tid p) = fst (spec_mark n tid acc) \<and>
     represents n (snd (markIfNew tid p)) (snd (spec_mark n tid acc))"
proof (cases tid)
  case None
  then show ?thesis using assms by (simp add: markIfNew_def spec_mark_def)
next
  case (Some i)
  have seen: "pe_seen p = set (window n acc)" using assms by (simp add: represents_def)
  show ?thesis
  proof (cases "i = [] \<or> i \<in> pe_seen p")
    case True
    then show ?thesis using Some assms seen by (auto simp: markIfNew_def spec_mark_def)
  next
    case False
    then have "represents n (snd (markIfNew (Some i) p)) (acc @ [i])"
      using mark_represents [OF assms] by blast
    then show ?thesis using False Some seen by (simp add: markIfNew_def spec_mark_def Let_def)
  qed
qed

theorem markIfNew_refines_window_witness:
  "fst (markIfNew (Some ''t1'') (snd (markIfNew (Some ''t1'') (pe_new 2)))) = False"
proof -
  have r0: "represents 2 (pe_new 2) []" using represents_new [of 2] by (simp only: max_absorb2 one_le_numeral)
  note r1 = markIfNew_refines_window [OF r0, of "Some ''t1''"]
  have "snd (spec_mark 2 (Some ''t1'') []) = [''t1'']" by code_simp
  then have "represents 2 (snd (markIfNew (Some ''t1'') (pe_new 2))) [''t1'']" using r1 by simp
  from markIfNew_refines_window [OF this, of "Some ''t1''"] show ?thesis
    by (simp add: spec_mark_def window_def)
qed

end
