(* ===== verification/ModelRegistry.thy ===== *)
theory ModelRegistry
  imports JsValue Json
begin

text \<open>
  \<open>src/shared/models/model-registry.service.ts\<close> with its two repositories, and
  \<open>src/shared/settings/runtime-settings.service.ts\<close>: which model is champion, which shadow, the
  thresholds in force and the operator settings they fall back to. Tables are lists of rows;
  thresholds are reals; whether the carry-forward insert succeeds is an argument. Listeners,
  metrics, metadata, digests and the file clean-up of a deleted version are not modelled.
\<close>

section \<open>Runtime settings\<close>

record setting_row =
  set_key :: string
  set_type :: string
  set_value :: string

record settings_state =
  set_rows :: "setting_row list"
  set_cache :: "(string, jval) omap"

definition NUMERIC_BOUNDS :: "string \<Rightarrow> (real \<times> real) option" where
  "NUMERIC_BOUNDS key =
     (if key = ''fraud_threshold'' then Some (1 / 100, 99 / 100)
      else if key = ''review_margin'' then Some (0, 1 / 2) else None)"

definition parseTyped :: "string \<Rightarrow> string \<Rightarrow> jval" where
  "parseTyped type value =
     (if type = ''number'' then
        (if is_finite_num (str_to_num value) then JNum (str_to_num value) else JNull)
      else if type = ''bool'' then JBool (value = ''true'')
      else if type = ''json'' then (case json_parse value of Some v \<Rightarrow> v | None \<Rightarrow> JNull)
      else JStr value)"

definition settings_refresh :: "settings_state \<Rightarrow> settings_state" where
  "settings_refresh s = s\<lparr>set_cache :=
     fold (\<lambda>r c. om_set (set_key r) (parseTyped (set_type r) (set_value r)) c) (set_rows s) []\<rparr>"

definition getFraudThreshold :: "settings_state \<Rightarrow> real \<Rightarrow> real" where
  "getFraudThreshold s envFallback =
     (case om_get (set_cache s) ''fraud_threshold'' of Some (JNum (Fin v)) \<Rightarrow> v | _ \<Rightarrow> envFallback)"

definition getReviewMargin :: "settings_state \<Rightarrow> real \<Rightarrow> real" where
  "getReviewMargin s envFallback =
     (case om_get (set_cache s) ''review_margin'' of
        Some (JNum (Fin v)) \<Rightarrow> if 0 \<le> v then v else envFallback | _ \<Rightarrow> envFallback)"

definition write_setting :: "string \<Rightarrow> string \<Rightarrow> jval \<Rightarrow> settings_state \<Rightarrow> settings_state" where
  "write_setting key text v s =
     \<lparr>set_rows = map (\<lambda>r. if set_key r = key then r\<lparr>set_value := text\<rparr> else r) (set_rows s),
      set_cache = om_set key v (set_cache s)\<rparr>"

datatype setting_refusal = UnknownKey | NotFinite | OutOfBounds real real

definition settings_update ::
    "string \<Rightarrow> jval \<Rightarrow> settings_state \<Rightarrow> (setting_refusal, setting_row option) result \<times> settings_state" where
  "settings_update key raw s =
     (case find (\<lambda>r. set_key r = key) (set_rows s) of
        None \<Rightarrow> (Inl UnknownKey, s)
      | Some existing \<Rightarrow>
          let accept = (\<lambda>text v. let s' = write_setting key text v s
                        in (Inr (find (\<lambda>r. set_key r = key) (set_rows s')), s')) in
          if set_type existing = ''number'' then
            (case js_to_num raw of
               Fin n \<Rightarrow>
                 (case NUMERIC_BOUNDS key of
                    Some (lo, hi) \<Rightarrow>
                      if n < lo \<or> hi < n then (Inl (OutOfBounds lo hi), s)
                      else accept (num_to_str (Fin n)) (JNum (Fin n))
                  | None \<Rightarrow> accept (num_to_str (Fin n)) (JNum (Fin n)))
             | _ \<Rightarrow> (Inl NotFinite, s))
          else if set_type existing = ''bool'' then
            (let b = (raw = JBool True \<or> raw = JStr ''true'' \<or> raw = JNum (Fin 1) \<or> raw = JStr ''1'')
             in accept (if b then ''true'' else ''false'') (JBool b))
          else (let t = (case raw of JStr t \<Rightarrow> t | v \<Rightarrow> json_text v) in accept t (JStr t)))"

section \<open>Model versions and thresholds\<close>

datatype model_status = CANDIDATE | SHADOW | ACTIVE | RETIRED

record model_version =
  mv_version :: string
  mv_sourceUri :: string
  mv_status :: model_status
  mv_defaultThreshold :: real
  mv_activatedAt :: "int option"
  mv_retiredAt :: "int option"
  mv_createdAt :: int

record segment_threshold =
  st_segment :: string
  st_modelVersion :: string
  st_threshold :: real
  st_isActive :: bool

record registry_db =
  db_versions :: "model_version list"
  db_thresholds :: "segment_threshold list"

record registry_cache =
  champion :: "model_version option"
  shadow :: "model_version option"
  thresholdsBySegment :: "(string, (string, real) omap) omap"

record resolved =
  championVersion :: string
  shadowVersion :: "string option"
  threshold :: real
  reviewThreshold :: "real option"

definition findByVersion :: "string \<Rightarrow> registry_db \<Rightarrow> model_version option" where
  "findByVersion v db = find (\<lambda>r. mv_version r = v) (db_versions db)"

text \<open>\<open>transitionStatus\<close>: the statements of one transaction, in order.\<close>

definition transitionStatus :: "int \<Rightarrow> string \<Rightarrow> model_status \<Rightarrow> registry_db \<Rightarrow> registry_db" where
  "transitionStatus now v status db =
     (let demote = (\<lambda>r.
            if status = ACTIVE \<and> mv_status r = ACTIVE \<and> mv_version r \<noteq> v
            then r\<lparr>mv_status := RETIRED, mv_retiredAt := Some now\<rparr>
            else if status = SHADOW \<and> mv_status r = SHADOW \<and> mv_version r \<noteq> v
            then r\<lparr>mv_status := CANDIDATE\<rparr> else r);
          promote = (\<lambda>r.
            if mv_version r = v
            then r\<lparr>mv_status := status,
                   mv_activatedAt := (if status = ACTIVE then Some now else mv_activatedAt r),
                   mv_retiredAt := (if status = RETIRED then Some now else mv_retiredAt r)\<rparr>
            else r)
      in db\<lparr>db_versions := map promote (map demote (db_versions db))\<rparr>)"

definition listActive :: "registry_db \<Rightarrow> segment_threshold list" where
  "listActive db = filter st_isActive (db_thresholds db)"

text \<open>\<open>INSERT \<dots> ON CONFLICT (segment, modelVersion) DO NOTHING\<close>, row by row.\<close>

definition insert_ignore :: "segment_threshold \<Rightarrow> segment_threshold list \<Rightarrow> segment_threshold list" where
  "insert_ignore r rows =
     (if list_ex (\<lambda>x. st_segment x = st_segment r \<and> st_modelVersion x = st_modelVersion r) rows
      then rows else rows @ [r])"

definition carryForward :: "string \<Rightarrow> string \<Rightarrow> registry_db \<Rightarrow> registry_db" where
  "carryForward from_v to_v db =
     (let source = filter (\<lambda>r. st_modelVersion r = from_v \<and> st_isActive r) (db_thresholds db);
          rows = map (\<lambda>r. r\<lparr>st_modelVersion := to_v, st_isActive := True\<rparr>) source
      in db\<lparr>db_thresholds := fold insert_ignore rows (db_thresholds db)\<rparr>)"

definition upsert_threshold :: "string \<Rightarrow> string \<Rightarrow> real \<Rightarrow> registry_db \<Rightarrow> registry_db" where
  "upsert_threshold seg v t db =
     (if list_ex (\<lambda>x. st_segment x = seg \<and> st_modelVersion x = v) (db_thresholds db)
      then db\<lparr>db_thresholds := map (\<lambda>x. if st_segment x = seg \<and> st_modelVersion x = v
             then x\<lparr>st_threshold := t, st_isActive := True\<rparr> else x) (db_thresholds db)\<rparr>
      else db\<lparr>db_thresholds := db_thresholds db @
             [\<lparr>st_segment = seg, st_modelVersion = v, st_threshold = t, st_isActive = True\<rparr>]\<rparr>)"

section \<open>The service\<close>

definition segment_entry ::
    "segment_threshold \<Rightarrow> (string, (string, real) omap) omap \<Rightarrow> (string, (string, real) omap) omap" where
  "segment_entry t m =
     om_set (st_segment t)
       (om_set (st_modelVersion t) (st_threshold t)
          (case om_get m (st_segment t) of None \<Rightarrow> [] | Some inner \<Rightarrow> inner)) m"

definition registry_reload :: "registry_db \<Rightarrow> registry_cache" where
  "registry_reload db =
     \<lparr>champion = find (\<lambda>v. mv_status v = ACTIVE) (db_versions db),
      shadow = find (\<lambda>v. mv_status v = SHADOW) (db_versions db),
      thresholdsBySegment = fold segment_entry (listActive db) []\<rparr>"

text \<open>
  A string option that is present and not empty; the label of an empty registry comes from the
  environment.
\<close>

definition nonempty :: "string option \<Rightarrow> string option" where
  "nonempty v = (case v of Some s \<Rightarrow> if s = [] then None else Some s | None \<Rightarrow> None)"

record registry_env =
  env_version_label :: "string option"
  env_threshold :: real

definition resolve :: "registry_env \<Rightarrow> settings_state \<Rightarrow> registry_cache \<Rightarrow> string option \<Rightarrow> resolved" where
  "resolve env settings c segment =
     (let cv = (case nonempty (map_option mv_version (champion c)) of
                  Some v \<Rightarrow> v
                | None \<Rightarrow> (case nonempty (env_version_label env) of Some v \<Rightarrow> v | None \<Rightarrow> ''default''));
          segmentThresholds = (case nonempty segment of
                  Some s \<Rightarrow> om_get (thresholdsBySegment c) s | None \<Rightarrow> None);
          segmentSpecific = (case segmentThresholds of Some m \<Rightarrow> om_get m cv | None \<Rightarrow> None);
          runtime = getFraudThreshold settings (env_threshold env);
          t = (case segmentSpecific of
                 Some t \<Rightarrow> t
               | None \<Rightarrow> (case champion c of Some m \<Rightarrow> mv_defaultThreshold m | None \<Rightarrow> runtime));
          margin = getReviewMargin settings 0
      in \<lparr>championVersion = cv, shadowVersion = nonempty (map_option mv_version (shadow c)),
          threshold = t,
          reviewThreshold = (if 0 < margin then Some (max (1 / 100) (t - margin)) else None)\<rparr>)"

text \<open>\<open>register\<close>: a duplicate version violates the unique constraint and throws.\<close>

definition register ::
    "int \<Rightarrow> registry_env \<Rightarrow> settings_state \<Rightarrow> string \<Rightarrow> string \<Rightarrow> real option \<Rightarrow>
       registry_db \<times> registry_cache \<Rightarrow> model_version option \<times> registry_db \<times> registry_cache" where
  "register now env settings v uri t w =
     (let (db, c) = w in
      if findByVersion v db \<noteq> None then (None, db, c)
      else
        let row = \<lparr>mv_version = v, mv_sourceUri = uri, mv_status = CANDIDATE,
              mv_defaultThreshold = (case t of Some x \<Rightarrow> x | None \<Rightarrow> getFraudThreshold settings (env_threshold env)),
              mv_activatedAt = None, mv_retiredAt = None, mv_createdAt = now\<rparr>;
            db' = db\<lparr>db_versions := db_versions db @ [row]\<rparr>
        in (Some row, db', registry_reload db'))"

definition setStatus ::
    "int \<Rightarrow> bool \<Rightarrow> string \<Rightarrow> model_status \<Rightarrow> registry_db \<times> registry_cache \<Rightarrow>
       model_version option \<times> registry_db \<times> registry_cache" where
  "setStatus now carry_ok v status w =
     (let (db, c) = w;
          outgoing = (if status = ACTIVE then champion c else None);
          db1 = transitionStatus now v status db;
          row = findByVersion v db1;
          db2 = (case (row, outgoing) of
                   (Some _, Some old) \<Rightarrow>
                     if mv_version old \<noteq> v \<and> carry_ok then carryForward (mv_version old) v db1 else db1
                 | _ \<Rightarrow> db1)
      in (row, db2, registry_reload db2))"

definition update_version ::
    "string \<Rightarrow> real option \<Rightarrow> registry_db \<times> registry_cache \<Rightarrow>
       model_version option \<times> registry_db \<times> registry_cache" where
  "update_version v t w =
     (let (db, c) = w;
          db' = (case t of
                   None \<Rightarrow> db
                 | Some x \<Rightarrow> db\<lparr>db_versions := map (\<lambda>r. if mv_version r = v
                       then r\<lparr>mv_defaultThreshold := x\<rparr> else r) (db_versions db)\<rparr>)
      in (findByVersion v db', db', registry_reload db'))"

definition setSegmentThreshold ::
    "string \<Rightarrow> string \<Rightarrow> real \<Rightarrow> registry_db \<times> registry_cache \<Rightarrow> registry_db \<times> registry_cache" where
  "setSegmentThreshold seg v t w =
     (let db' = upsert_threshold seg v t (fst w) in (db', registry_reload db'))"

datatype delete_outcome = Deleted | NoSuchVersion | StillServing

definition deleteVersion ::
    "string \<Rightarrow> registry_db \<times> registry_cache \<Rightarrow> delete_outcome \<times> registry_db \<times> registry_cache" where
  "deleteVersion v w =
     (let (db, c) = w in
      case findByVersion v db of
        None \<Rightarrow> (NoSuchVersion, db, c)
      | Some row \<Rightarrow>
          if mv_status row = ACTIVE \<or> mv_status row = SHADOW then (StillServing, db, c)
          else let db' = db\<lparr>db_versions := filter (\<lambda>r. mv_version r \<noteq> v) (db_versions db)\<rparr>
               in (Deleted, db', registry_reload db'))"

section \<open>At most one champion and one shadow\<close>

definition one_of :: "model_status \<Rightarrow> model_version list \<Rightarrow> bool" where
  "one_of st rows = (\<forall>r \<in> set rows. \<forall>r' \<in> set rows.
     mv_status r = st \<and> mv_status r' = st \<longrightarrow> mv_version r = mv_version r')"

definition threshold_key :: "segment_threshold \<Rightarrow> string \<times> string" where
  "threshold_key t = (st_segment t, st_modelVersion t)"

definition registry_ok :: "registry_db \<Rightarrow> bool" where
  "registry_ok db =
     (distinct (map mv_version (db_versions db)) \<and> one_of ACTIVE (db_versions db) \<and>
      one_of SHADOW (db_versions db) \<and> distinct (map threshold_key (db_thresholds db)))"

definition transition_row :: "int \<Rightarrow> string \<Rightarrow> model_status \<Rightarrow> model_version \<Rightarrow> model_version" where
  "transition_row now v status r =
     (if mv_version r = v
      then r\<lparr>mv_status := status,
             mv_activatedAt := (if status = ACTIVE then Some now else mv_activatedAt r),
             mv_retiredAt := (if status = RETIRED then Some now else mv_retiredAt r)\<rparr>
      else if status = ACTIVE \<and> mv_status r = ACTIVE
      then r\<lparr>mv_status := RETIRED, mv_retiredAt := Some now\<rparr>
      else if status = SHADOW \<and> mv_status r = SHADOW then r\<lparr>mv_status := CANDIDATE\<rparr> else r)"

lemma transitionStatus_rows:
  "db_versions (transitionStatus now v status db) = map (transition_row now v status) (db_versions db)"
  by (auto simp: transitionStatus_def transition_row_def Let_def)

lemma transition_keeps [simp]:
  "mv_version (transition_row now v status r) = mv_version r"
  "mv_defaultThreshold (transition_row now v status r) = mv_defaultThreshold r"
  "db_thresholds (transitionStatus now v status db) = db_thresholds db"
  by (auto simp: transition_row_def transitionStatus_def Let_def)

lemma transition_status:
  "mv_status (transition_row now v status r) =
     (if mv_version r = v then status
      else if status = ACTIVE \<and> mv_status r = ACTIVE then RETIRED
      else if status = SHADOW \<and> mv_status r = SHADOW then CANDIDATE else mv_status r)"
  by (simp add: transition_row_def)

lemma one_of_transition:
  assumes "one_of st rows" and "st = ACTIVE \<or> st = SHADOW"
  shows "one_of st (map (transition_row now v status) rows)"
proof -
  have own: "mv_version r = v \<or> (mv_status r = st \<and> status \<noteq> st)"
    if "mv_status (transition_row now v status r) = st" for r
    using that assms(2) by (auto simp: transition_status split: if_splits)
  have v: "mv_version r = v \<Longrightarrow> mv_status (transition_row now v status r) = st \<Longrightarrow> status = st" for r
    by (simp add: transition_status)
  show ?thesis
    using own v assms(1) unfolding one_of_def by (auto; metis)
qed

lemma transition_ok: "registry_ok db \<Longrightarrow> registry_ok (transitionStatus now v status db)"
  by (simp add: registry_ok_def transitionStatus_rows one_of_transition comp_def)

lemma insert_ignore_keys:
  "distinct (map threshold_key rows) \<Longrightarrow> distinct (map threshold_key (insert_ignore r rows))"
  by (auto simp: insert_ignore_def threshold_key_def list_ex_iff)

lemma fold_insert_keys:
  "distinct (map threshold_key base) \<Longrightarrow> distinct (map threshold_key (fold insert_ignore rows base))"
  by (induction rows arbitrary: base) (simp_all add: insert_ignore_keys)

lemma carry_ok: "registry_ok db \<Longrightarrow> registry_ok (carryForward a b db)"
  by (simp add: registry_ok_def carryForward_def Let_def fold_insert_keys)

lemma upsert_ok: "registry_ok db \<Longrightarrow> registry_ok (upsert_threshold s v t db)"
proof -
  have "threshold_key (if st_segment x = s \<and> st_modelVersion x = v
      then x\<lparr>st_threshold := t, st_isActive := True\<rparr> else x) = threshold_key x" for x
    by (simp add: threshold_key_def)
  then show "registry_ok db \<Longrightarrow> registry_ok (upsert_threshold s v t db)"
    by (auto simp: registry_ok_def upsert_threshold_def list_ex_iff comp_def) (auto simp: threshold_key_def)
qed

inductive registry_step ::
    "registry_db \<times> registry_cache \<Rightarrow> registry_db \<times> registry_cache \<Rightarrow> bool" where
  "registry_step w (snd (register now env settings v uri t w))"
| "registry_step w (snd (setStatus now carry v status w))"
| "registry_step w (snd (update_version v t w))"
| "registry_step w (setSegmentThreshold seg v t w)"
| "registry_step w (snd (deleteVersion v w))"
| "registry_step w (fst w, registry_reload (fst w))"
| "registry_step w (fst w, other_replica)"

lemma one_of_snoc:
  assumes "one_of st rows" and "mv_status row \<noteq> st"
  shows "one_of st (rows @ [row])"
  unfolding one_of_def
proof (intro ballI impI)
  fix r r'
  assume m: "r \<in> set (rows @ [row])" "r' \<in> set (rows @ [row])"
    and st: "mv_status r = st \<and> mv_status r' = st"
  have "r \<noteq> row" "r' \<noteq> row" using st assms(2) by blast+
  then have "r \<in> set rows" "r' \<in> set rows" using m by simp_all
  then show "mv_version r = mv_version r'" using assms(1) st unfolding one_of_def by blast
qed

lemma register_ok:
  assumes "registry_ok db"
  shows "registry_ok (fst (snd (register now env settings v uri t (db, c))))"
proof (cases "findByVersion v db")
  case None
  then have new: "v \<notin> mv_version ` set (db_versions db)" by (auto simp: findByVersion_def find_None_iff)
  let ?row = "\<lparr>mv_version = v, mv_sourceUri = uri, mv_status = CANDIDATE,
      mv_defaultThreshold = (case t of Some x \<Rightarrow> x | None \<Rightarrow> getFraudThreshold settings (env_threshold env)),
      mv_activatedAt = None, mv_retiredAt = None, mv_createdAt = now\<rparr>"
  obtain row where row: "row = ?row" by blast
  have db: "fst (snd (register now env settings v uri t (db, c))) =
      db\<lparr>db_versions := db_versions db @ [row]\<rparr>"
    by (simp add: register_def None row Let_def)
  have fields: "mv_version row = v" "mv_status row = CANDIDATE" by (simp_all add: row)
  have "one_of ACTIVE (db_versions db @ [row])" "one_of SHADOW (db_versions db @ [row])"
    by (rule one_of_snoc; use assms fields(2) in \<open>simp add: registry_ok_def\<close>)+
  then show ?thesis unfolding db using assms new fields(1) by (simp add: registry_ok_def)
qed (use assms in \<open>simp add: register_def\<close>)

lemma setStatus_ok:
  assumes "registry_ok db"
  shows "registry_ok (fst (snd (setStatus now carry v status (db, c))))"
proof -
  let ?db1 = "transitionStatus now v status db"
  have "fst (snd (setStatus now carry v status (db, c))) = ?db1 \<or>
      (\<exists>a. fst (snd (setStatus now carry v status (db, c))) = carryForward a v ?db1)"
    by (auto simp: setStatus_def Let_def split: option.split)
  moreover have "registry_ok ?db1" by (rule transition_ok [OF assms])
  moreover have "registry_ok (carryForward a v ?db1)" for a by (rule carry_ok [OF transition_ok [OF assms]])
  ultimately show ?thesis by (metis (no_types))
qed

lemma update_version_ok:
  assumes "registry_ok db"
  shows "registry_ok (fst (snd (update_version v t (db, c))))"
proof -
  let ?f = "\<lambda>x r. if mv_version r = v then r\<lparr>mv_defaultThreshold := x\<rparr> else r"
  have keep: "mv_version (?f x r) = mv_version r" "mv_status (?f x r) = mv_status r" for x r by simp_all
  have "one_of st (map (?f x) rows) = one_of st rows" for st x rows
    unfolding one_of_def set_map ball_simps keep ..
  then show ?thesis using assms
    by (auto simp: update_version_def Let_def registry_ok_def comp_def keep split: option.splits)
qed

lemma deleteVersion_ok:
  assumes "registry_ok db"
  shows "registry_ok (fst (snd (deleteVersion v (db, c))))"
proof -
  let ?db = "db\<lparr>db_versions := filter (\<lambda>r. mv_version r \<noteq> v) (db_versions db)\<rparr>"
  have "fst (snd (deleteVersion v (db, c))) \<in> {db, ?db}"
    by (simp add: deleteVersion_def Let_def split: option.split)
  moreover have "registry_ok ?db" using assms
    by (simp add: registry_ok_def one_of_def distinct_map_filter)
  ultimately show ?thesis using assms by auto
qed

lemma registry_step_ok: "registry_step w w' \<Longrightarrow> registry_ok (fst w) \<Longrightarrow> registry_ok (fst w')"
proof (induction rule: registry_step.induct)
  case (1 w now env settings v uri t)
  then show ?case using register_ok by (cases w) simp
next
  case (2 w now carry v status)
  then show ?case using setStatus_ok by (cases w) simp
next
  case (3 w v t)
  then show ?case using update_version_ok by (cases w) simp
next
  case (4 w seg v t)
  then show ?case by (simp add: setSegmentThreshold_def Let_def upsert_ok)
next
  case (5 w v)
  then show ?case using deleteVersion_ok by (cases w) simp
qed simp_all

section \<open>Thresholds in the cache\<close>

definition cached_threshold :: "(string, (string, real) omap) omap \<Rightarrow> string \<Rightarrow> string \<Rightarrow> real option" where
  "cached_threshold m s v = (case om_get m s of None \<Rightarrow> None | Some i \<Rightarrow> om_get i v)"

lemma cached_entry:
  "cached_threshold (segment_entry t m) s v =
     (if (s, v) = threshold_key t then Some (st_threshold t) else cached_threshold m s v)"
  by (auto simp: cached_threshold_def segment_entry_def threshold_key_def split: option.splits)

lemma cached_fold:
  "cached_threshold (fold segment_entry rows m) s v =
     (case find (\<lambda>r. threshold_key r = (s, v)) (rev rows) of
        Some r \<Rightarrow> Some (st_threshold r) | None \<Rightarrow> cached_threshold m s v)"
proof (induction rows rule: rev_induct)
  case (snoc r rows)
  then show ?case by (auto simp: cached_entry)
qed simp

lemma find_unique:
  assumes "distinct (map f rows)" and "r \<in> set rows" and "f r = k"
  shows "find (\<lambda>x. f x = k) rows = Some r" and "find (\<lambda>x. f x = k) (rev rows) = Some r"
proof -
  have *: "find (\<lambda>x. f x = k) xs = Some r"
    if "distinct (map f xs)" "set xs = set rows" for xs
  proof (cases "find (\<lambda>x. f x = k) xs")
    case None
    then show ?thesis using assms(2,3) that by (auto simp: find_None_iff)
  next
    case (Some x)
    then have "x \<in> set xs" "f x = k" using find_in_set by fast+
    then show ?thesis using Some assms(2,3) that by (auto simp: distinct_map inj_on_def)
  qed
  show "find (\<lambda>x. f x = k) rows = Some r" by (rule *) (use assms in simp_all)
  show "find (\<lambda>x. f x = k) (rev rows) = Some r" by (rule *) (use assms in \<open>simp_all add: rev_map [symmetric]\<close>)
qed

text \<open>The cached threshold of a segment and version is that of its unique active row.\<close>

lemma reload_threshold:
  assumes "registry_ok db"
  shows "cached_threshold (thresholdsBySegment (registry_reload db)) s v = Some t \<longleftrightarrow>
     (\<exists>r \<in> set (db_thresholds db). st_isActive r \<and> threshold_key r = (s, v) \<and> st_threshold r = t)"
proof -
  have d: "distinct (map threshold_key (listActive db))"
    unfolding listActive_def using assms by (simp add: registry_ok_def distinct_map_filter)
  have c: "cached_threshold (thresholdsBySegment (registry_reload db)) s v =
      map_option st_threshold (find (\<lambda>r. threshold_key r = (s, v)) (rev (listActive db)))"
  proof -
    have "cached_threshold [] s v = None" by (simp add: cached_threshold_def)
    then show ?thesis
      by (cases "find (\<lambda>r. threshold_key r = (s, v)) (rev (listActive db))")
        (simp_all add: registry_reload_def cached_fold)
  qed
  show ?thesis
  proof
    assume "cached_threshold (thresholdsBySegment (registry_reload db)) s v = Some t"
    then obtain r where "find (\<lambda>r. threshold_key r = (s, v)) (rev (listActive db)) = Some r" "st_threshold r = t"
      unfolding c by auto
    then show "\<exists>r \<in> set (db_thresholds db). st_isActive r \<and> threshold_key r = (s, v) \<and> st_threshold r = t"
      using find_in_set by (fastforce simp: listActive_def)
  next
    assume "\<exists>r \<in> set (db_thresholds db). st_isActive r \<and> threshold_key r = (s, v) \<and> st_threshold r = t"
    then obtain r where "r \<in> set (listActive db)" "threshold_key r = (s, v)" "st_threshold r = t"
      by (auto simp: listActive_def)
    then show "cached_threshold (thresholdsBySegment (registry_reload db)) s v = Some t"
      unfolding c using find_unique(2) [OF d] by simp
  qed
qed

lemma fold_insert_mem:
  "r \<in> set base \<Longrightarrow> r \<in> set (fold insert_ignore rows base)"
  by (induction rows arbitrary: base) (auto simp: insert_ignore_def)

lemma fold_insert_from:
  "r \<in> set (fold insert_ignore rows base) \<Longrightarrow> r \<in> set base \<or> r \<in> set rows"
proof (induction rows arbitrary: base)
  case (Cons x rows)
  have "r \<in> set (insert_ignore x base) \<or> r \<in> set rows"
    by (rule Cons.IH) (use Cons.prems in simp)
  then show ?case by (auto simp: insert_ignore_def split: if_splits)
qed simp

lemma fold_insert_new:
  assumes "distinct (map threshold_key rows)" and "r \<in> set rows"
    and "threshold_key r \<notin> threshold_key ` set base"
  shows "r \<in> set (fold insert_ignore rows base)"
  using assms
proof (induction rows arbitrary: base)
  case (Cons x rows)
  show ?case
  proof (cases "r = x")
    case True
    have "insert_ignore x base = base @ [x]"
      using Cons.prems(3) True by (fastforce simp: insert_ignore_def list_ex_iff threshold_key_def image_iff)
    then show ?thesis using True by (simp add: fold_insert_mem)
  next
    case False
    then have r: "r \<in> set rows" using Cons.prems(2) by simp
    have "threshold_key x \<noteq> threshold_key r" using Cons.prems(1) r by force
    then have "threshold_key r \<notin> threshold_key ` set (insert_ignore x base)"
      using Cons.prems(3) by (auto simp: insert_ignore_def)
    then show ?thesis using Cons.IH [of "insert_ignore x base"] Cons.prems(1) r by simp
  qed
qed simp

lemma one_of_length:
  assumes "distinct (map mv_version rows)" and "one_of st rows"
  shows "length (filter (\<lambda>r. mv_status r = st) rows) \<le> 1"
proof (cases "filter (\<lambda>r. mv_status r = st) rows")
  case (Cons a as)
  have d: "distinct (map mv_version (a # as))"
    unfolding Cons [symmetric] using assms(1) by (rule distinct_map_filter)
  have "as = []"
  proof (cases as)
    case (Cons b bs)
    have "set (a # as) \<subseteq> {r \<in> set rows. mv_status r = st}" unfolding \<open>_ = a # as\<close> [symmetric] by auto
    then have "mv_version a = mv_version b" using assms(2) Cons unfolding one_of_def by auto
    then show ?thesis using d Cons by simp
  qed
  then show ?thesis by (simp add: Cons)
qed simp

lemma find_map_eq: "find P (map f xs) = map_option f (find (P \<circ> f) xs)"
  by (induction xs) simp_all

lemma find_only:
  assumes "r \<in> set rows" and "P r" and "\<And>x. x \<in> set rows \<Longrightarrow> P x \<Longrightarrow> x = r"
  shows "find P rows = Some r"
proof (cases "find P rows")
  case None
  then show ?thesis using assms(1,2) by (simp add: find_None_iff)
next
  case (Some x)
  then show ?thesis using find_in_set [OF Some] assms(3) by simp
qed

lemma reload_same_thresholds:
  "db_thresholds db = db_thresholds db' \<Longrightarrow>
     thresholdsBySegment (registry_reload db) = thresholdsBySegment (registry_reload db')"
  by (simp add: registry_reload_def listActive_def)

lemma champion_after:
  assumes ok: "registry_ok db" and new: "findByVersion v db = Some new"
  shows "champion (registry_reload (carryForward (mv_version old) v (transitionStatus now v ACTIVE db))) =
     Some (transition_row now v ACTIVE new)"
proof -
  let ?P = "\<lambda>r. mv_status (transition_row now v ACTIVE r) = ACTIVE"
  have v: "new \<in> set (db_versions db)" "mv_version new = v"
    using new by (auto simp: findByVersion_def dest: find_in_set)
  have "r = new" if "r \<in> set (db_versions db)" "?P r" for r
  proof -
    have "mv_version r = v" using that(2) by (simp add: transition_status split: if_splits)
    then show ?thesis using v that(1) ok by (auto simp: registry_ok_def distinct_map inj_on_def)
  qed
  then have "find ?P (db_versions db) = Some new"
    by (intro find_only) (simp_all add: v transition_status)
  then show ?thesis
    by (simp add: registry_reload_def carryForward_def Let_def transitionStatus_rows find_map_eq comp_def)
qed

lemma carry_threshold:
  assumes ok: "registry_ok db" and none: "(s, v) \<notin> threshold_key ` set (db_thresholds db)"
  shows "cached_threshold (thresholdsBySegment (registry_reload (carryForward w v db))) s v =
     cached_threshold (thresholdsBySegment (registry_reload db)) s w"
proof -
  let ?move = "\<lambda>r. r\<lparr>st_modelVersion := v, st_isActive := True\<rparr>"
  let ?src = "filter (\<lambda>r. st_modelVersion r = w \<and> st_isActive r) (db_thresholds db)"
  let ?db = "carryForward w v db"
  have rows: "db_thresholds ?db = fold insert_ignore (map ?move ?src) (db_thresholds db)"
    by (simp add: carryForward_def Let_def)
  have key: "threshold_key (?move r) = (st_segment r, v)" for r by (simp add: threshold_key_def)
  have d: "distinct (map threshold_key (map ?move ?src))"
  proof -
    have "distinct (map threshold_key ?src)"
      using ok unfolding registry_ok_def by (simp add: distinct_map_filter)
    moreover have "map threshold_key (map ?move ?src) = map (\<lambda>k. (fst k, v)) (map threshold_key ?src)"
      by (simp add: threshold_key_def)
    moreover have "inj_on (\<lambda>k. (fst k, v)) (set (map threshold_key ?src))"
      by (rule inj_onI) (auto simp: threshold_key_def)
    ultimately show ?thesis by (simp only: distinct_map)
  qed
  have "cached_threshold (thresholdsBySegment (registry_reload ?db)) s v = Some t \<longleftrightarrow>
      cached_threshold (thresholdsBySegment (registry_reload db)) s w = Some t" for t
    unfolding reload_threshold [OF ok] reload_threshold [OF carry_ok [OF ok]]
  proof
    assume "\<exists>r \<in> set (db_thresholds ?db). st_isActive r \<and> threshold_key r = (s, v) \<and> st_threshold r = t"
    then obtain r where r: "r \<in> set (db_thresholds ?db)" "threshold_key r = (s, v)" "st_threshold r = t" by blast
    then have "r \<notin> set (db_thresholds db)" using none by force
    then have "r \<in> set (map ?move ?src)" using r(1) fold_insert_from unfolding rows by fast
    then obtain r0 where "r0 \<in> set ?src" "r = ?move r0" unfolding set_map by blast
    then show "\<exists>r \<in> set (db_thresholds db). st_isActive r \<and> threshold_key r = (s, w) \<and> st_threshold r = t"
      using r(2,3) by (auto simp: threshold_key_def)
  next
    assume "\<exists>r \<in> set (db_thresholds db). st_isActive r \<and> threshold_key r = (s, w) \<and> st_threshold r = t"
    then obtain r where r: "r \<in> set (db_thresholds db)" "st_isActive r" "threshold_key r = (s, w)" "st_threshold r = t" by blast
    then have "r \<in> set ?src" by (simp add: threshold_key_def)
    then have "?move r \<in> set (map ?move ?src)" unfolding set_map by (rule imageI)
    moreover have k: "threshold_key (?move r) = (s, v)" using r(3) by (simp add: threshold_key_def)
    ultimately have "?move r \<in> set (db_thresholds ?db)"
      unfolding rows using d none by (intro fold_insert_new) simp_all
    then show "\<exists>r \<in> set (db_thresholds ?db). st_isActive r \<and> threshold_key r = (s, v) \<and> st_threshold r = t"
      using k r(4) by (intro bexI [of _ "?move r"]) simp_all
  qed
  then show ?thesis by (metis not_None_eq)
qed

section \<open>Properties\<close>


definition db_empty :: registry_db where
  "db_empty = \<lparr>db_versions = [], db_thresholds = []\<rparr>"

definition env_plain :: registry_env where
  "env_plain = \<lparr>env_version_label = None, env_threshold = 1 / 2\<rparr>"

definition settings_none :: settings_state where
  "settings_none = \<lparr>set_rows = [], set_cache = []\<rparr>"

definition demo_registry :: "registry_db \<times> registry_cache" where
  "demo_registry =
     snd (register 1 env_plain settings_none ''v2'' ''b'' (Some (7 / 10))
       (setSegmentThreshold ''high'' ''v1'' (3 / 10)
         (snd (setStatus 1 True ''v1'' ACTIVE
           (snd (register 0 env_plain settings_none ''v1'' ''a'' (Some (6 / 10))
             (db_empty, registry_reload db_empty)))))))"

lemma demo_registry_reachable: "registry_step\<^sup>*\<^sup>* (db_empty, registry_reload db_empty) demo_registry"
  unfolding demo_registry_def by (meson registry_step.intros rtranclp.intros)

lemma db_empty_ok: "registry_ok db_empty"
  by (simp add: registry_ok_def db_empty_def one_of_def)


text \<open>
  Activating a model is threshold-neutral. When a registered version takes over from another
  champion and has no threshold row of its own for a segment, the threshold resolved for that
  segment afterwards is the override the outgoing champion had, or the new model's default when
  there was none.
\<close>

theorem activation_carries_threshold:
  assumes ok: "registry_ok db"
    and old: "champion (registry_reload db) = Some old"
    and new: "findByVersion v db = Some new" and "mv_version old \<noteq> v" and v: "v \<noteq> []" and seg: "seg \<noteq> []"
    and none: "(seg, v) \<notin> threshold_key ` set (db_thresholds db)"
  shows "championVersion (resolve env st (snd (snd (setStatus now True v ACTIVE (db, registry_reload db)))) (Some seg)) = v \<and>
    threshold (resolve env st (snd (snd (setStatus now True v ACTIVE (db, registry_reload db)))) (Some seg)) =
      (case cached_threshold (thresholdsBySegment (registry_reload db)) seg (mv_version old) of
         Some t \<Rightarrow> t | None \<Rightarrow> mv_defaultThreshold new)"
proof (intro conjI)
  let ?db1 = "transitionStatus now v ACTIVE db"
  let ?db2 = "carryForward (mv_version old) v ?db1"
  have ok1: "registry_ok ?db1" and ok2: "registry_ok ?db2" by (simp_all add: ok transition_ok carry_ok)
  have row: "findByVersion v ?db1 = Some (transition_row now v ACTIVE new)"
    using new unfolding findByVersion_def transitionStatus_rows find_map_eq by (simp add: comp_def)
  have after: "snd (snd (setStatus now True v ACTIVE (db, registry_reload db))) = registry_reload ?db2"
    using assms(4) by (simp add: setStatus_def Let_def row old)
  have champ: "champion (registry_reload ?db2) = Some (transition_row now v ACTIVE new)"
    by (rule champion_after [OF ok new, where old = old])
  have carried: "cached_threshold (thresholdsBySegment (registry_reload ?db2)) seg v =
      cached_threshold (thresholdsBySegment (registry_reload db)) seg (mv_version old)"
    using carry_threshold [OF ok1, of seg v "mv_version old"] none
    by (simp add: reload_same_thresholds [of ?db1 db])
  have version: "mv_version new = v" using new by (auto simp: findByVersion_def dest: find_in_set)
  show "championVersion (resolve env st (snd (snd (setStatus now True v ACTIVE (db, registry_reload db)))) (Some seg)) = v"
    unfolding after resolve_def Let_def champ by (simp add: version nonempty_def v)
  show "threshold (resolve env st (snd (snd (setStatus now True v ACTIVE (db, registry_reload db)))) (Some seg)) =
      (case cached_threshold (thresholdsBySegment (registry_reload db)) seg (mv_version old) of
         Some t \<Rightarrow> t | None \<Rightarrow> mv_defaultThreshold new)"
    unfolding after resolve_def Let_def champ carried [symmetric]
    by (simp add: version nonempty_def v seg cached_threshold_def split: option.split)
qed

definition carry_db :: registry_db where
  "carry_db = \<lparr>db_versions =
      [\<lparr>mv_version = ''v1'', mv_sourceUri = ''a'', mv_status = ACTIVE, mv_defaultThreshold = 6 / 10,
        mv_activatedAt = Some 1, mv_retiredAt = None, mv_createdAt = 0\<rparr>,
       \<lparr>mv_version = ''v2'', mv_sourceUri = ''b'', mv_status = CANDIDATE, mv_defaultThreshold = 7 / 10,
        mv_activatedAt = None, mv_retiredAt = None, mv_createdAt = 1\<rparr>],
     db_thresholds = [\<lparr>st_segment = ''high'', st_modelVersion = ''v1'', st_threshold = 3 / 10, st_isActive = True\<rparr>]\<rparr>"

theorem activation_carries_threshold_witness:
  "threshold (resolve env_plain settings_none
     (snd (snd (setStatus 2 True ''v2'' ACTIVE (carry_db, registry_reload carry_db)))) (Some ''high'')) = 3 / 10"
proof -
  let ?old = "hd (db_versions carry_db)" and ?new = "db_versions carry_db ! 1"
  have "registry_ok carry_db" by (simp add: registry_ok_def carry_db_def one_of_def)
  moreover have "champion (registry_reload carry_db) = Some ?old"
    by (simp add: registry_reload_def carry_db_def)
  moreover have "findByVersion ''v2'' carry_db = Some ?new" by (simp add: findByVersion_def carry_db_def)
  moreover have "mv_version ?old \<noteq> ''v2''" "(''v2''::string) \<noteq> []" "(''high''::string) \<noteq> []"
    "(''high'', ''v2'') \<notin> threshold_key ` set (db_thresholds carry_db)"
    by (simp_all add: carry_db_def threshold_key_def)
  moreover have "cached_threshold (thresholdsBySegment (registry_reload carry_db)) ''high'' (mv_version ?old) = Some (3 / 10)"
    by (simp add: carry_db_def registry_reload_def listActive_def segment_entry_def cached_threshold_def om_get_def)
  ultimately show ?thesis using activation_carries_threshold [of carry_db ?old "''v2''" ?new "''high''" env_plain settings_none 2] by simp
qed

text \<open>
  A status change for a version label that does not exist is not rejected: activating it
  returns null, which the controller reports as 404, but retires the running champion, so that no
  model is champion afterwards.
\<close>

theorem activating_unknown_version_retires_champion:
  assumes "findByVersion v db = None"
  shows "fst (setStatus now carry v ACTIVE (db, c)) = None \<and>
    champion (snd (snd (setStatus now carry v ACTIVE (db, c)))) = None"
proof (intro conjI)
  let ?db1 = "transitionStatus now v ACTIVE db"
  have absent: "mv_version r \<noteq> v" if "r \<in> set (db_versions db)" for r
    using assms that by (auto simp: findByVersion_def find_None_iff)
  have row: "findByVersion v ?db1 = None"
    using absent by (auto simp: findByVersion_def transitionStatus_rows find_None_iff)
  have champ: "find (\<lambda>r. mv_status r = ACTIVE) (db_versions ?db1) = None"
    using absent by (auto simp: transitionStatus_rows find_None_iff transition_status)
  show "fst (setStatus now carry v ACTIVE (db, c)) = None"
    by (simp add: setStatus_def Let_def row)
  show "champion (snd (snd (setStatus now carry v ACTIVE (db, c)))) = None"
    by (simp add: setStatus_def Let_def row registry_reload_def champ)
qed

theorem activating_unknown_version_retires_champion_witness:
  "champion (registry_reload carry_db) \<noteq> None \<and>
   champion (snd (snd (setStatus 2 True ''typo'' ACTIVE (carry_db, registry_reload carry_db)))) = None"
proof
  show "champion (registry_reload carry_db) \<noteq> None" by (simp add: registry_reload_def carry_db_def)
  show "champion (snd (snd (setStatus 2 True ''typo'' ACTIVE (carry_db, registry_reload carry_db)))) = None"
    by (rule conjunct2 [OF activating_unknown_version_retires_champion]) (simp add: findByVersion_def carry_db_def)
qed

text \<open>
  A settings edit either is refused and changes nothing, or takes effect at once: an accepted
  \<open>fraud_threshold\<close> lies in the bounds of the settings page and is the threshold
  \<open>getFraudThreshold\<close> returns from then on, whatever the environment says, and an accepted edit of
  another key leaves the fraud threshold alone.
\<close>

theorem settings_update_effect:
  assumes row: "find (\<lambda>r. set_key r = ''fraud_threshold'') (set_rows s) = Some row" and "set_type row = ''number''"
  shows "case settings_update key raw s of
      (Inl _, s') \<Rightarrow> s' = s
    | (Inr _, s') \<Rightarrow>
        if key = ''fraud_threshold''
        then (\<exists>n. js_to_num raw = Fin n \<and> 1 / 100 \<le> n \<and> n \<le> 99 / 100 \<and> getFraudThreshold s' env = n)
        else getFraudThreshold s' env = getFraudThreshold s env"
proof (cases "key = ''fraud_threshold''")
  case True
  have b: "NUMERIC_BOUNDS ''fraud_threshold'' = Some (1 / 100, 99 / 100)" by (simp add: NUMERIC_BOUNDS_def)
  show ?thesis
    by (cases "js_to_num raw")
      (simp_all add: True settings_update_def row assms(2) b Let_def write_setting_def getFraudThreshold_def not_less)
next
  case False
  have keep: "getFraudThreshold (write_setting key txtval v s) env = getFraudThreshold s env" for txtval v
    using False by (simp add: write_setting_def getFraudThreshold_def)
  show ?thesis
    by (simp add: False settings_update_def Let_def keep split: option.split jnum.split)
qed

theorem settings_update_effect_witness:
  "getFraudThreshold (snd (settings_update ''fraud_threshold'' (JNum (Fin (1 / 2)))
      \<lparr>set_rows = [\<lparr>set_key = ''fraud_threshold'', set_type = ''number'', set_value = ''0.7''\<rparr>], set_cache = []\<rparr>)) 0 = 1 / 2"
  using settings_update_effect [of "\<lparr>set_rows = [\<lparr>set_key = ''fraud_threshold'', set_type = ''number'',
      set_value = ''0.7''\<rparr>], set_cache = []\<rparr>" "\<lparr>set_key = ''fraud_threshold'', set_type = ''number'',
      set_value = ''0.7''\<rparr>" "''fraud_threshold''" "JNum (Fin (1 / 2))" 0]
  by (simp add: settings_update_def NUMERIC_BOUNDS_def Let_def)

end
