(* ===== verification/Scoring.thy ===== *)
theory Scoring
  imports JsValue Json "HOL-Library.Multiset"
begin

text \<open>
  The pure scoring code of the decision service: \<open>src/shared/onnx/calibration.ts\<close> (reading the
  isotonic breakpoints next to a model and interpolating them), \<open>src/shared/onnx/reason-codes.ts\<close>
  (the top contributions returned with a decision) and the helpers of
  \<open>src/v1/modules/rda/utils\<close>. Files and digests are arguments.
\<close>

section \<open>Decisions\<close>

datatype decision = ACCEPT | DECLINE | REVIEW

definition bandDecision :: "real \<Rightarrow> real \<Rightarrow> real option \<Rightarrow> decision" where
  "bandDecision score threshold reviewThreshold =
     (if threshold \<le> score then DECLINE
      else case reviewThreshold of
             Some r \<Rightarrow> if r \<le> score then REVIEW else ACCEPT
           | None \<Rightarrow> ACCEPT)"

section \<open>Model metadata\<close>

text \<open>
  \<open>readModelMeta\<close>: the text of \<open>meta.json\<close> and the digest of the model file, \<open>None\<close> where the file
  does not exist. A syntax error, or \<open>null\<close> metadata, throws.
\<close>

definition readModelMeta :: "string option \<Rightarrow> string option \<Rightarrow> (js_error, jval option) result" where
  "readModelMeta metaText digest =
     (case (metaText, digest) of
        (Some t, Some actual) \<Rightarrow>
          (case json_parse t of
             None \<Rightarrow> Inl (RuleError ''SyntaxError'')
           | Some meta \<Rightarrow>
               if nullish meta then Inl TypeError
               else (case meta of
                   JObj fs \<Rightarrow>
                     (case field fs ''sha256'' of
                        JStr declared \<Rightarrow> Inr (if actual = declared then Some meta else None)
                      | _ \<Rightarrow> Inr (Some meta))
                 | _ \<Rightarrow> Inr (Some meta)))
      | _ \<Rightarrow> Inr None)"

text \<open>A property of a value that is neither \<open>undefined\<close> nor \<open>null\<close>.\<close>

definition member :: "jval \<Rightarrow> string \<Rightarrow> jval" where
  "member v k = (case v of JObj fs \<Rightarrow> field fs k | _ \<Rightarrow> JUndef)"

definition loadReasonWeights ::
    "string option \<Rightarrow> string option \<Rightarrow> (js_error, (string, real) omap option) result" where
  "loadReasonWeights metaText digest =
     map_r (\<lambda>meta.
       case (case meta of None \<Rightarrow> JUndef | Some m \<Rightarrow> member m ''reason_weights'') of
         JObj fs \<Rightarrow>
           (let entries = concat (map (\<lambda>(k, v). case v of JNum (Fin r) \<Rightarrow> [(k, r)] | _ \<Rightarrow> []) fs)
            in if entries = [] then None else Some entries)
       | JArr vs \<Rightarrow>
           (let entries = concat (map (\<lambda>(i, v). case v of JNum (Fin r) \<Rightarrow> [(nat_to_str i, r)] | _ \<Rightarrow> [])
                  (zip [0..<length vs] vs))
            in if entries = [] then None else Some entries)
       | _ \<Rightarrow> None) (readModelMeta metaText digest)"

section \<open>Calibration\<close>

record calibration_spec =
  xThresholds :: "real list"
  yThresholds :: "real list"

fun isNumberArray :: "jval \<Rightarrow> real list option" where
  "isNumberArray (JArr vs) =
     (if list_all (\<lambda>v. case v of JNum (Fin _) \<Rightarrow> True | _ \<Rightarrow> False) vs
      then Some (map (\<lambda>v. case v of JNum (Fin r) \<Rightarrow> r | _ \<Rightarrow> 0) vs) else None)"
| "isNumberArray _ = None"

fun nondecreasing :: "real list \<Rightarrow> bool" where
  "nondecreasing (x # y # xs) = (\<not> y < x \<and> nondecreasing (y # xs))"
| "nondecreasing _ = True"

definition calibration_of_meta :: "jval \<Rightarrow> calibration_spec option" where
  "calibration_of_meta meta =
     (let block = member meta ''calibration'' in
      if \<not> truthy block then None
      else (case (isNumberArray (member block ''x_thresholds''), isNumberArray (member block ''y_thresholds'')) of
          (Some xs, Some ys) \<Rightarrow>
            if length xs < 2 \<or> length xs \<noteq> length ys then None
            else if \<not> nondecreasing xs then None
            else Some \<lparr>xThresholds = xs, yThresholds = ys\<rparr>
        | _ \<Rightarrow> None))"

definition loadCalibration ::
    "string option \<Rightarrow> string option \<Rightarrow> (js_error, calibration_spec option) result" where
  "loadCalibration metaText digest =
     map_r (\<lambda>raw. case raw of None \<Rightarrow> None | Some meta \<Rightarrow> calibration_of_meta meta)
       (readModelMeta metaText digest)"

text \<open>The bisection of \<open>applyCalibration\<close>: the final \<open>(lo, hi)\<close>.\<close>

function bracket :: "real list \<Rightarrow> real \<Rightarrow> nat \<Rightarrow> nat \<Rightarrow> nat \<times> nat" where
  "bracket xs raw lo hi =
     (if 1 < hi - lo
      then let mid = (lo + hi) div 2
           in if xs ! mid \<le> raw then bracket xs raw mid hi else bracket xs raw lo mid
      else (lo, hi))"
  by pat_completeness auto
termination by (relation "measure (\<lambda>(xs, raw, lo, hi). hi - lo)") auto

declare bracket.simps [simp del]

definition applyCalibration :: "calibration_spec \<Rightarrow> real \<Rightarrow> real" where
  "applyCalibration spec raw =
     (let xs = xThresholds spec; ys = yThresholds spec in
      if raw \<le> xs ! 0 then ys ! 0
      else if xs ! (length xs - 1) \<le> raw then ys ! (length ys - 1)
      else
        let (lo, hi) = bracket xs raw 0 (length xs - 1);
            span = xs ! hi - xs ! lo
        in if span \<le> 0 then ys ! lo
           else ys ! lo + (raw - xs ! lo) / span * (ys ! hi - ys ! lo))"

section \<open>Reason codes\<close>

record reason_spec =
  rs_feature :: string
  rs_code :: string
  rs_baseline :: real
  rs_scale :: real
  rs_weight :: real

datatype reason_basis = HEURISTIC | MODEL_WEIGHTED

record reason_code =
  rc_code :: string
  rc_contribution :: real
  rc_value :: jnum
  rc_basis :: reason_basis

definition reason_spec_of :: "string \<Rightarrow> string \<Rightarrow> real \<Rightarrow> real \<Rightarrow> real \<Rightarrow> reason_spec" where
  "reason_spec_of f c b s w =
     \<lparr>rs_feature = f, rs_code = c, rs_baseline = b, rs_scale = s, rs_weight = w\<rparr>"

definition SPECS :: "reason_spec list" where
  "SPECS =
     [reason_spec_of ''velocity_1h'' ''VELOCITY_1H'' 1 5 (30 / 100),
      reason_spec_of ''velocity_24h'' ''VELOCITY_24H'' 5 25 (25 / 100),
      reason_spec_of ''velocity_7d'' ''VELOCITY_7D'' 20 80 (10 / 100),
      reason_spec_of ''amount_mean_30d'' ''AVG_AMOUNT_30D'' 100 1000 (- 5 / 100),
      reason_spec_of ''amount_std_30d'' ''STD_AMOUNT_30D'' 50 500 (10 / 100),
      reason_spec_of ''graph_pagerank'' ''PAGERANK'' (1 / 1000) (5 / 1000) (- 20 / 100),
      reason_spec_of ''graph_clustering_coef'' ''CLUSTERING_COEF'' (4 / 10) (4 / 10) (- 15 / 100),
      reason_spec_of ''pair_time_since_last_send'' ''TIME_SINCE_LAST'' 3600 7200 (10 / 100),
      reason_spec_of ''is_weekend'' ''WEEKEND'' 0 1 (5 / 100),
      reason_spec_of ''hour_of_day'' ''HOUR_OF_DAY'' 12 12 (5 / 100),
      reason_spec_of ''amount'' ''AMOUNT_HIGH'' 100 10000 (35 / 100),
      reason_spec_of ''transaction_type_code'' ''TRANSACTION_TYPE'' 0 4 (5 / 100)]"

text \<open>\<open>resolveSpecs\<close>: every spec with the vector index of its feature, or a throw.\<close>

definition resolveSpecs :: "(string \<Rightarrow> nat option) \<Rightarrow> (js_error, (reason_spec \<times> nat) list) result" where
  "resolveSpecs byName =
     mapM_r (\<lambda>s. case byName (rs_feature s) of
        None \<Rightarrow> Inl (RuleError (rs_feature s)) | Some i \<Rightarrow> Inr (s, i)) SPECS"

definition setModelWeights :: "(string \<times> jnum) list option \<Rightarrow> (string, real) omap option" where
  "setModelWeights weights =
     (case weights of
        None \<Rightarrow> None
      | Some ws \<Rightarrow>
          let usable = concat (map (\<lambda>(k, v). case v of Fin r \<Rightarrow> if 0 \<le> r then [(k, r)] else [] | _ \<Rightarrow> []) ws);
              mx = fold (\<lambda>(_, v) m. max m v) usable 0
          in if usable = [] \<or> mx \<le> 0 then None else Some (map (\<lambda>(k, v). (k, v / mx)) usable))"

definition weightFor :: "(string, real) omap option \<Rightarrow> reason_spec \<Rightarrow> real \<times> reason_basis" where
  "weightFor modelWeights spec =
     (case (case modelWeights of None \<Rightarrow> None | Some m \<Rightarrow> om_get m (rs_feature spec)) of
        None \<Rightarrow> (rs_weight spec, HEURISTIC)
      | Some learned \<Rightarrow> (sgn (rs_weight spec) * learned, MODEL_WEIGHTED))"

fun js_tanh :: "jnum \<Rightarrow> jnum" where
  "js_tanh NaN = NaN"
| "js_tanh PInf = Fin 1"
| "js_tanh NInf = Fin (- 1)"
| "js_tanh (Fin x) = Fin (tanh x)"

fun round4_num :: "jnum \<Rightarrow> jnum" where
  "round4_num (Fin x) = Fin (round4 x)"
| "round4_num n = n"

text \<open>\<open>(value - baseline) / (scale || 1)\<close> for a value that is not NaN and a finite scale.\<close>

fun deviation :: "reason_spec \<Rightarrow> jnum \<Rightarrow> jnum" where
  "deviation s (Fin v) = Fin ((v - rs_baseline s) / (if rs_scale s = 0 then 1 else rs_scale s))"
| "deviation s n = (if rs_scale s < 0 then (case n of PInf \<Rightarrow> NInf | NInf \<Rightarrow> PInf | m \<Rightarrow> m) else n)"

definition contribution_of ::
    "(string, real) omap option \<Rightarrow> jnum list \<Rightarrow> reason_spec \<times> nat \<Rightarrow> reason_code list" where
  "contribution_of modelWeights features si =
     (let (spec, i) = si in
      if i < length features \<and> features ! i \<noteq> NaN
      then let (w, basis) = weightFor modelWeights spec;
               t = (case js_tanh (deviation spec (features ! i)) of Fin t \<Rightarrow> t | _ \<Rightarrow> 0)
           in [\<lparr>rc_code = rs_code spec, rc_contribution = round4 (w * t),
                rc_value = round4_num (features ! i), rc_basis = basis\<rparr>]
      else [])"

definition by_magnitude :: "reason_code list \<Rightarrow> reason_code list" where
  "by_magnitude rs = sort_key (\<lambda>r. - \<bar>rc_contribution r\<bar>) rs"

definition explain ::
    "(string, real) omap option \<Rightarrow> (reason_spec \<times> nat) list \<Rightarrow> jnum list \<Rightarrow> nat \<Rightarrow> reason_code list" where
  "explain modelWeights specs features topN =
     take topN (by_magnitude (concat (map (contribution_of modelWeights features) specs)))"

section \<open>The interpolation\<close>

lemma bandDecision_mono:
  assumes "score \<le> score'"
  shows "bandDecision score t r = DECLINE \<longrightarrow> bandDecision score' t r = DECLINE"
    and "bandDecision score' t r = ACCEPT \<longrightarrow> bandDecision score t r = ACCEPT"
  using assms by (auto simp: bandDecision_def split: option.splits if_splits)

lemma nondecreasing_sorted: "nondecreasing xs = sorted xs"
proof (induction xs rule: nondecreasing.induct)
  case (1 x y xs)
  then show ?case by (simp add: not_less) (metis order_trans)
qed simp_all

lemma bracket_spec:
  assumes "lo < hi" and "xs ! lo \<le> raw" and "raw < xs ! hi"
  shows "\<exists>i. bracket xs raw lo hi = (i, Suc i) \<and> lo \<le> i \<and> i < hi \<and> xs ! i \<le> raw \<and> raw < xs ! Suc i"
  using assms
proof (induction xs raw lo hi rule: bracket.induct)
  case (1 xs raw lo hi)
  show ?case
  proof (cases "1 < hi - lo")
    case False
    then have "hi = Suc lo" using "1.prems"(1) by simp
    then show ?thesis using "1.prems" False by (subst bracket.simps) simp
  next
    case True
    let ?mid = "(lo + hi) div 2"
    have mid: "lo < ?mid" "?mid < hi" using True by auto
    show ?thesis
    proof (cases "xs ! ?mid \<le> raw")
      case right: True
      have "bracket xs raw lo hi = bracket xs raw ?mid hi"
        using right True by (simp add: bracket.simps [of xs raw lo hi])
      then show ?thesis using "1.IH"(1) [OF True refl right mid(2) right "1.prems"(3)] mid by force
    next
      case left: False
      have "bracket xs raw lo hi = bracket xs raw lo ?mid"
        using left True by (simp add: bracket.simps [of xs raw lo hi])
      then show ?thesis
        using "1.IH"(2) [OF True refl left mid(1) "1.prems"(2)] left mid by force
    qed
  qed
qed

text \<open>The line through the breakpoints \<open>i\<close> and \<open>i + 1\<close>.\<close>

definition segment_line :: "calibration_spec \<Rightarrow> nat \<Rightarrow> real \<Rightarrow> real" where
  "segment_line spec i raw =
     yThresholds spec ! i + (raw - xThresholds spec ! i) / (xThresholds spec ! Suc i - xThresholds spec ! i) *
       (yThresholds spec ! Suc i - yThresholds spec ! i)"

definition calibration_ok :: "calibration_spec \<Rightarrow> bool" where
  "calibration_ok spec =
     (sorted (xThresholds spec) \<and> length (xThresholds spec) = length (yThresholds spec) \<and>
      2 \<le> length (xThresholds spec))"

lemma calibration_of_meta_ok: "calibration_of_meta meta = Some spec \<Longrightarrow> calibration_ok spec"
  unfolding calibration_of_meta_def
  by (auto simp: calibration_ok_def nondecreasing_sorted Let_def not_less split: option.splits if_splits)

lemma bracket_unique:
  assumes "sorted xs" and "Suc i < length xs" "Suc j < length xs"
    and "xs ! i \<le> raw" "raw < xs ! Suc i" "xs ! j \<le> raw" "raw < xs ! Suc j"
  shows "i = j"
proof -
  have "\<not> i < j" using sorted_nth_mono [OF assms(1), of "Suc i" j] assms by auto
  moreover have "\<not> j < i" using sorted_nth_mono [OF assms(1), of "Suc j" i] assms by auto
  ultimately show ?thesis by simp
qed

lemma apply_inside:
  assumes ok: "calibration_ok spec" and raw: "xThresholds spec ! 0 < raw"
    "raw < xThresholds spec ! (length (xThresholds spec) - 1)"
  shows "\<exists>i. Suc i < length (xThresholds spec) \<and> xThresholds spec ! i \<le> raw \<and>
     raw < xThresholds spec ! Suc i \<and> applyCalibration spec raw = segment_line spec i raw"
proof -
  let ?xs = "xThresholds spec"
  obtain i where i: "bracket ?xs raw 0 (length ?xs - 1) = (i, Suc i)" "i < length ?xs - 1"
      "?xs ! i \<le> raw" "raw < ?xs ! Suc i"
    using bracket_spec [of 0 "length ?xs - 1" ?xs raw] ok raw by (auto simp: calibration_ok_def)
  have "applyCalibration spec raw = segment_line spec i raw"
    using raw i unfolding applyCalibration_def segment_line_def by (simp add: Let_def)
  then show ?thesis using i by (intro exI [of _ i]) simp
qed

lemma segment_line_bounds:
  assumes "xThresholds spec ! i \<le> raw" "raw < xThresholds spec ! Suc i"
    and "yThresholds spec ! i \<le> yThresholds spec ! Suc i"
  shows "yThresholds spec ! i \<le> segment_line spec i raw"
    and "segment_line spec i raw \<le> yThresholds spec ! Suc i"
proof -
  let ?t = "(raw - xThresholds spec ! i) / (xThresholds spec ! Suc i - xThresholds spec ! i)"
  have t: "0 \<le> ?t" "?t \<le> 1" using assms(1,2) by (simp_all add: divide_le_eq)
  show "yThresholds spec ! i \<le> segment_line spec i raw"
    unfolding segment_line_def using mult_nonneg_nonneg [OF t(1), of "yThresholds spec ! Suc i - yThresholds spec ! i"]
      assms(3) by linarith
  have "?t * (yThresholds spec ! Suc i - yThresholds spec ! i) \<le>
      1 * (yThresholds spec ! Suc i - yThresholds spec ! i)"
    by (rule mult_right_mono [OF t(2)]) (simp add: assms(3))
  then show "segment_line spec i raw \<le> yThresholds spec ! Suc i"
    unfolding segment_line_def by simp
qed

lemma segment_line_mono:
  assumes "xThresholds spec ! i < xThresholds spec ! Suc i" and "raw \<le> raw'"
    and "yThresholds spec ! i \<le> yThresholds spec ! Suc i"
  shows "segment_line spec i raw \<le> segment_line spec i raw'"
  unfolding segment_line_def using assms by (intro add_left_mono mult_right_mono divide_right_mono) simp_all

lemma apply_bounds:
  assumes ok: "calibration_ok spec" and ys: "sorted (yThresholds spec)"
  shows "yThresholds spec ! 0 \<le> applyCalibration spec raw"
    and "applyCalibration spec raw \<le> yThresholds spec ! (length (yThresholds spec) - 1)"
proof -
  let ?xs = "xThresholds spec" and ?ys = "yThresholds spec"
  have len: "length ?xs = length ?ys" "2 \<le> length ?ys" using ok by (simp_all add: calibration_ok_def)
  have ends: "?ys ! 0 \<le> ?ys ! (length ?ys - 1)" using len by (intro sorted_nth_mono [OF ys]) simp_all
  have "?ys ! 0 \<le> applyCalibration spec raw \<and> applyCalibration spec raw \<le> ?ys ! (length ?ys - 1)"
  proof (cases "?xs ! 0 < raw \<and> raw < ?xs ! (length ?xs - 1)")
    case True
    then obtain i where i: "Suc i < length ?xs" "?xs ! i \<le> raw" "raw < ?xs ! Suc i"
        "applyCalibration spec raw = segment_line spec i raw"
      using apply_inside [OF ok] by blast
    have y: "?ys ! 0 \<le> ?ys ! i" "?ys ! i \<le> ?ys ! Suc i" "?ys ! Suc i \<le> ?ys ! (length ?ys - 1)"
      using i(1) len by (auto intro!: sorted_nth_mono [OF ys])
    show ?thesis using segment_line_bounds [OF i(2,3) y(2)] y i(4) by simp
  next
    case False
    then show ?thesis using ends by (auto simp: applyCalibration_def Let_def not_less)
  qed
  then show "?ys ! 0 \<le> applyCalibration spec raw"
    "applyCalibration spec raw \<le> ?ys ! (length ?ys - 1)" by simp_all
qed

lemma apply_mono:
  assumes ok: "calibration_ok spec" and ys: "sorted (yThresholds spec)" and le: "raw \<le> raw'"
  shows "applyCalibration spec raw \<le> applyCalibration spec raw'"
proof -
  let ?xs = "xThresholds spec" and ?ys = "yThresholds spec"
  have len: "length ?xs = length ?ys" "2 \<le> length ?ys" using ok by (simp_all add: calibration_ok_def)
  consider "raw \<le> ?xs ! 0" | "?xs ! 0 < raw'" "?xs ! (length ?xs - 1) \<le> raw'"
    | "?xs ! 0 < raw" "raw' < ?xs ! (length ?xs - 1)"
    using le by linarith
  then show ?thesis
  proof cases
    case 1
    then have "applyCalibration spec raw = ?ys ! 0" by (simp add: applyCalibration_def Let_def)
    then show ?thesis using apply_bounds(1) [OF ok ys] by simp
  next
    case 2
    then have "applyCalibration spec raw' = ?ys ! (length ?ys - 1)"
      by (simp add: applyCalibration_def Let_def)
    then show ?thesis using apply_bounds(2) [OF ok ys] by simp
  next
    case 3
    then obtain i where i: "Suc i < length ?xs" "?xs ! i \<le> raw" "raw < ?xs ! Suc i"
        "applyCalibration spec raw = segment_line spec i raw"
      using apply_inside [OF ok, of raw] le by auto
    from 3 obtain j where j: "Suc j < length ?xs" "?xs ! j \<le> raw'" "raw' < ?xs ! Suc j"
        "applyCalibration spec raw' = segment_line spec j raw'"
      using apply_inside [OF ok, of raw'] le by auto
    have y: "?ys ! i \<le> ?ys ! Suc i" "?ys ! j \<le> ?ys ! Suc j"
      using i(1) j(1) len by (auto intro!: sorted_nth_mono [OF ys])
    have "\<not> j < i"
      using sorted_nth_mono [of ?xs "Suc j" i] i j le ok by (auto simp: calibration_ok_def)
    then consider "i = j" | "Suc i \<le> j" by linarith
    then show ?thesis
    proof cases
      case 1
      then show ?thesis using segment_line_mono [OF _ le y(1)] i j by simp
    next
      case 2
      then have "?ys ! Suc i \<le> ?ys ! j" using j(1) len by (intro sorted_nth_mono [OF ys]) simp_all
      then show ?thesis
        using segment_line_bounds(2) [OF i(2,3) y(1)] segment_line_bounds(1) [OF j(2,3) y(2)] i(4) j(4) by simp
    qed
  qed
qed

text \<open>
  C15: A calibration that \<open>meta.json\<close> supplies is applied as the piecewise-linear function through its breakpoints,
  clamped at both ends: the binary search finds the segment that contains the score, and no
  division by an empty segment happens, even when breakpoints repeat.
\<close>

theorem calibration_interpolates:
  assumes "calibration_of_meta meta = Some spec"
  shows "(raw \<le> xThresholds spec ! 0 \<longrightarrow> applyCalibration spec raw = yThresholds spec ! 0) \<and>
    (xThresholds spec ! 0 < raw \<and> xThresholds spec ! (length (xThresholds spec) - 1) \<le> raw \<longrightarrow>
      applyCalibration spec raw = yThresholds spec ! (length (yThresholds spec) - 1)) \<and>
    (\<forall>i. xThresholds spec ! 0 < raw \<and> Suc i < length (xThresholds spec) \<and>
      xThresholds spec ! i \<le> raw \<and> raw < xThresholds spec ! Suc i \<longrightarrow>
      applyCalibration spec raw = segment_line spec i raw)"
proof (intro conjI allI impI)
  let ?xs = "xThresholds spec"
  have ok: "calibration_ok spec" using assms by (rule calibration_of_meta_ok)
  then have mono: "sorted ?xs" by (simp add: calibration_ok_def)
  show "raw \<le> ?xs ! 0 \<Longrightarrow> applyCalibration spec raw = yThresholds spec ! 0"
    by (simp add: applyCalibration_def Let_def)
  show "?xs ! 0 < raw \<and> ?xs ! (length ?xs - 1) \<le> raw \<Longrightarrow>
      applyCalibration spec raw = yThresholds spec ! (length (yThresholds spec) - 1)"
    by (simp add: applyCalibration_def Let_def)
  fix i
  assume *: "?xs ! 0 < raw \<and> Suc i < length ?xs \<and> ?xs ! i \<le> raw \<and> raw < ?xs ! Suc i"
  then have raw: "?xs ! 0 < raw" and i: "Suc i < length ?xs" "?xs ! i \<le> raw" "raw < ?xs ! Suc i" by simp_all
  have "?xs ! Suc i \<le> ?xs ! (length ?xs - 1)" using i(1) by (intro sorted_nth_mono [OF mono]) simp_all
  then have "raw < ?xs ! (length ?xs - 1)" using i(3) by simp
  then obtain j where "Suc j < length ?xs" "?xs ! j \<le> raw" "raw < ?xs ! Suc j"
      "applyCalibration spec raw = segment_line spec j raw"
    using apply_inside [OF ok raw] by blast
  then show "applyCalibration spec raw = segment_line spec i raw"
    using bracket_unique [OF mono] i by metis
qed

definition sample_meta :: jval where
  "sample_meta = JObj [(''calibration'', JObj
     [(''x_thresholds'', JArr [JNum (Fin 0), JNum (Fin (1 / 2)), JNum (Fin (1 / 2)), JNum (Fin 1)]),
      (''y_thresholds'', JArr [JNum (Fin 0), JNum (Fin (1 / 10)), JNum (Fin (2 / 10)), JNum (Fin (9 / 10))])])]"

definition sample_spec :: calibration_spec where
  "sample_spec = \<lparr>xThresholds = [0, 1 / 2, 1 / 2, 1], yThresholds = [0, 1 / 10, 2 / 10, 9 / 10]\<rparr>"

lemma sample_meta_spec: "calibration_of_meta sample_meta = Some sample_spec"
  by (simp add: calibration_of_meta_def sample_meta_def sample_spec_def member_def field_def Let_def)

theorem calibration_interpolates_witness:
  "applyCalibration sample_spec (3 / 4) = 2 / 10 + 1 / 2 * (7 / 10)"
proof -
  have "applyCalibration sample_spec (3 / 4) = segment_line sample_spec 2 (3 / 4)"
    using calibration_interpolates [OF sample_meta_spec, of "3 / 4"] by (simp add: sample_spec_def)
  then show ?thesis by (simp add: sample_spec_def segment_line_def)
qed

text \<open>
  Calibration never reorders transactions. When the breakpoints' values are nondecreasing, as an
  isotonic regression produces them, a higher raw score never gets a lower calibrated score, and
  every calibrated score lies between the first and the last value, so that a decision banded on
  calibrated scores is monotone in the raw score as well.
\<close>

theorem calibration_monotone:
  assumes "calibration_of_meta meta = Some spec" and "sorted (yThresholds spec)" and "raw \<le> raw'"
  shows "applyCalibration spec raw \<le> applyCalibration spec raw' \<and>
    applyCalibration spec raw \<in> {yThresholds spec ! 0 .. yThresholds spec ! (length (yThresholds spec) - 1)} \<and>
    (bandDecision (applyCalibration spec raw) t r = DECLINE \<longrightarrow>
      bandDecision (applyCalibration spec raw') t r = DECLINE) \<and>
    (bandDecision (applyCalibration spec raw') t r = ACCEPT \<longrightarrow>
      bandDecision (applyCalibration spec raw) t r = ACCEPT)"
proof -
  have ok: "calibration_ok spec" using assms(1) by (rule calibration_of_meta_ok)
  have "applyCalibration spec raw \<le> applyCalibration spec raw'" using apply_mono [OF ok assms(2,3)] .
  then show ?thesis using apply_bounds [OF ok assms(2)] by (simp add: bandDecision_mono)
qed

theorem calibration_monotone_witness:
  "applyCalibration sample_spec (1 / 4) \<le> applyCalibration sample_spec (1 / 2)"
  by (rule conjunct1 [OF calibration_monotone [OF sample_meta_spec]]) (simp_all add: sample_spec_def)

section \<open>Reason codes in a response\<close>

lemma round4_fix [simp]: "round4 0 = 0" "round4 1 = 1" "round4 (- 1) = - 1"
  by (simp_all add: round4_def js_round_def floor_eq_iff)

definition model_weight_ok :: "(string, real) omap option \<Rightarrow> bool" where
  "model_weight_ok m = (\<forall>w. m = Some w \<longrightarrow> (\<forall>k v. om_get w k = Some v \<longrightarrow> 0 \<le> v \<and> v \<le> 1))"

lemma fold_max_ge:
  "m \<le> fold (\<lambda>(_, v) m. max m v) us m"
  "(k, v) \<in> set us \<Longrightarrow> v \<le> fold (\<lambda>(_, v) m. max m v) us (m :: real)"
proof (induction us arbitrary: m)
  case (Cons u us)
  { case 1 show ?case using Cons.IH(1) [of "max m (snd u)"] by (cases u) simp }
  { case 2
    then show ?case using Cons.IH(1) [of "max m (snd u)"] Cons.IH(2) [of "max m (snd u)"]
      by (cases u) auto }
qed simp_all

lemma normalised:
  assumes pos: "\<And>k v. (k, v) \<in> set us \<Longrightarrow> 0 \<le> v"
    and mx: "0 < fold (\<lambda>(_, v) m. max m v) us (0 :: real)"
    and v: "om_get (map (\<lambda>(k, v). (k, v / fold (\<lambda>(_, v) m. max m v) us 0)) us) k = Some v"
  shows "0 \<le> v \<and> v \<le> 1"
proof -
  from v have "(k, v) \<in> set (map (\<lambda>(k, v). (k, v / fold (\<lambda>(_, v) m. max m v) us 0)) us)"
    unfolding om_get_def by (rule map_of_SomeD)
  then obtain r where r: "(k, r) \<in> set us" and v: "v = r / fold (\<lambda>(_, v) m. max m v) us 0" by auto
  show ?thesis unfolding v using mx pos [OF r] fold_max_ge(2) [OF r, of 0]
    by (simp only: divide_le_eq_1_pos) simp
qed

lemma setModelWeights_ok: "model_weight_ok (setModelWeights ws)"
proof (cases ws)
  case (Some xs)
  let ?us = "concat (map (\<lambda>(k, v). case v of Fin r \<Rightarrow> if 0 \<le> r then [(k, r)] else [] | _ \<Rightarrow> []) xs)"
  let ?mx = "fold (\<lambda>(_, v) m. max m v) ?us 0"
  have pos: "0 \<le> v" if "(k, v) \<in> set ?us" for k v
    using that by (auto split: jnum.splits if_splits)
  show ?thesis
    unfolding model_weight_ok_def
  proof (intro allI impI)
    fix w k v
    assume w: "setModelWeights ws = Some w" and v: "om_get w k = Some v"
    have def: "setModelWeights ws =
        (if ?us = [] \<or> ?mx \<le> 0 then None else Some (map (\<lambda>(k, v). (k, v / ?mx)) ?us))"
      unfolding setModelWeights_def Some option.case Let_def by (rule refl)
    have mx: "0 < ?mx" and wdef: "w = map (\<lambda>(k, v). (k, v / ?mx)) ?us"
      using w unfolding def by (simp_all only: not_le option.inject option.distinct de_Morgan_disj split: if_splits)
    show "0 \<le> v \<and> v \<le> 1" by (rule normalised [OF pos mx v [unfolded wdef]])
  qed
qed (simp add: model_weight_ok_def setModelWeights_def)

lemma SPECS_all: "list_all (\<lambda>s. \<bar>rs_weight s\<bar> \<le> 1 \<and> 0 < rs_scale s) SPECS"
  by (simp add: SPECS_def reason_spec_of_def)

lemma SPECS_weights: "s \<in> set SPECS \<Longrightarrow> \<bar>rs_weight s\<bar> \<le> 1 \<and> 0 < rs_scale s"
  using SPECS_all by (simp only: list_all_iff)

lemma weightFor_bound:
  assumes "model_weight_ok m" and "\<bar>rs_weight s\<bar> \<le> 1"
  shows "\<bar>fst (weightFor m s)\<bar> \<le> 1" and "\<exists>c \<ge> 0. fst (weightFor m s) = c * rs_weight s"
proof -
  consider (own) "fst (weightFor m s) = rs_weight s"
    | (learned) v where "0 \<le> v" "v \<le> 1" "fst (weightFor m s) = sgn (rs_weight s) * v"
  proof (cases "case m of None \<Rightarrow> None | Some w \<Rightarrow> om_get w (rs_feature s)")
    case None
    then show ?thesis using own by (simp add: weightFor_def)
  next
    case (Some v)
    then have "0 \<le> v \<and> v \<le> 1" using assms(1) by (auto simp: model_weight_ok_def split: option.splits)
    then show ?thesis using learned [of v] Some by (simp add: weightFor_def)
  qed
  then have "\<bar>fst (weightFor m s)\<bar> \<le> 1 \<and> (\<exists>c \<ge> 0. fst (weightFor m s) = c * rs_weight s)"
  proof cases
    case own
    then show ?thesis using assms(2) by (intro conjI exI [of _ 1]) simp_all
  next
    case learned
    have "sgn (rs_weight s) * v = v / \<bar>rs_weight s\<bar> * rs_weight s"
      by (cases "rs_weight s = 0") (simp_all add: sgn_real_def)
    moreover have "\<bar>sgn (rs_weight s) * v\<bar> \<le> 1" using learned by (auto simp: sgn_real_def)
    moreover have "0 \<le> v / \<bar>rs_weight s\<bar>" using learned(1) by simp
    ultimately show ?thesis unfolding learned(3) by blast
  qed
  then show "\<bar>fst (weightFor m s)\<bar> \<le> 1" "\<exists>c \<ge> 0. fst (weightFor m s) = c * rs_weight s" by simp_all
qed

lemma tanh_case: "\<exists>t. (case js_tanh n of Fin t \<Rightarrow> t | _ \<Rightarrow> 0) = t \<and> \<bar>t\<bar> \<le> (1 :: real)"
  using tanh_real_bounds by (cases n) (auto simp: abs_le_iff less_imp_le)

lemma contribution_bound:
  assumes m: "model_weight_ok m" and s: "\<bar>rs_weight s\<bar> \<le> 1" and r: "r \<in> set (contribution_of m fs (s, i))"
  shows "\<bar>rc_contribution r\<bar> \<le> 1"
proof -
  obtain t :: real where t: "\<bar>t\<bar> \<le> 1" and c: "rc_contribution r = round4 (fst (weightFor m s) * t)"
    using r tanh_case [of "deviation s (fs ! i)"]
    by (auto simp: contribution_of_def Let_def case_prod_beta split: if_splits)
  have "\<bar>fst (weightFor m s) * t\<bar> \<le> 1 * 1"
    unfolding abs_mult by (rule mult_mono) (use t weightFor_bound(1) [OF m s] in simp_all)
  then have "- 1 \<le> fst (weightFor m s) * t" "fst (weightFor m s) * t \<le> 1" by linarith+
  from round4_mono [OF this(1)] round4_mono [OF this(2)] show ?thesis
    unfolding c by (simp add: abs_le_iff)
qed

text \<open>A contribution is the weight's sign, a magnitude of at most one and the saturated deviation.\<close>

lemma contribution_formula:
  assumes m: "model_weight_ok m" and s: "\<bar>rs_weight s\<bar> \<le> 1" "0 < rs_scale s"
    and r: "r \<in> set (contribution_of m fs (s, i))" and v: "fs ! i = Fin v"
  shows "rc_contribution r = round4 (sgn (rs_weight s) * \<bar>fst (weightFor m s)\<bar> * tanh ((v - rs_baseline s) / rs_scale s))"
    and "\<bar>fst (weightFor m s)\<bar> \<le> 1"
proof -
  obtain c where "0 \<le> c" "fst (weightFor m s) = c * rs_weight s" using weightFor_bound(2) [OF m s(1)] by blast
  then have "fst (weightFor m s) = sgn (rs_weight s) * \<bar>fst (weightFor m s)\<bar>"
    by (cases "rs_weight s" "0 :: real" rule: linorder_cases) (simp_all add: abs_mult sgn_real_def)
  moreover have "rc_contribution r = round4 (fst (weightFor m s) * tanh ((v - rs_baseline s) / rs_scale s))"
    using r v s(2) by (auto simp: contribution_of_def Let_def case_prod_beta split: if_splits)
  ultimately show "rc_contribution r = round4 (sgn (rs_weight s) * \<bar>fst (weightFor m s)\<bar> * tanh ((v - rs_baseline s) / rs_scale s))"
    by metis
  show "\<bar>fst (weightFor m s)\<bar> \<le> 1" by (rule weightFor_bound(1) [OF m s(1)])
qed

lemma round4_sign: "0 \<le> x \<Longrightarrow> 0 \<le> round4 x" "x \<le> 0 \<Longrightarrow> round4 x \<le> 0"
  using round4_mono [of 0 x] round4_mono [of x 0] by simp_all

lemma saturated_sign:
  assumes "0 < (k :: real)" and "0 \<le> u"
  shows "0 \<le> w * d \<Longrightarrow> 0 \<le> sgn w * u * tanh (d / k)" and "w * d \<le> 0 \<Longrightarrow> sgn w * u * tanh (d / k) \<le> 0"
  using assms
  by (cases w "0 :: real" rule: linorder_cases;
      auto simp: zero_le_mult_iff mult_le_0_iff divide_le_0_iff zero_le_divide_iff sgn_real_def)+

lemma by_magnitude_props:
  "mset (by_magnitude rs) = mset rs"
  "sorted_wrt (\<lambda>a b. \<bar>rc_contribution b\<bar> \<le> \<bar>rc_contribution a\<bar>) (by_magnitude rs)"
proof -
  show "mset (by_magnitude rs) = mset rs" by (simp add: by_magnitude_def)
  have "sorted (map (\<lambda>r. - \<bar>rc_contribution r\<bar>) (by_magnitude rs))" by (simp add: by_magnitude_def)
  then show "sorted_wrt (\<lambda>a b. \<bar>rc_contribution b\<bar> \<le> \<bar>rc_contribution a\<bar>) (by_magnitude rs)"
    by (simp add: sorted_map)
qed

lemma resolveSpecs_in: "resolveSpecs byName = Inr specs \<Longrightarrow> (s, i) \<in> set specs \<Longrightarrow> s \<in> set SPECS"
proof -
  have "(s, i) \<in> set ys \<Longrightarrow> s \<in> set xs"
    if "mapM_r (\<lambda>s. case byName (rs_feature s) of None \<Rightarrow> Inl (RuleError (rs_feature s)) | Some i \<Rightarrow> Inr (s, i)) xs = Inr ys"
    for xs ys
    using that
  proof (induction xs arbitrary: ys)
    case (Cons x xs)
    then obtain j zs where "mapM_r (\<lambda>s. case byName (rs_feature s) of
        None \<Rightarrow> Inl (RuleError (rs_feature s)) | Some i \<Rightarrow> Inr (s, i)) xs = Inr zs" "ys = (x, j) # zs"
      by (auto simp: bind_r_eq_Inr map_r_def split: option.splits)
    then show ?case using Cons.IH [of zs] Cons.prems(1) by auto
  qed simp
  then show "resolveSpecs byName = Inr specs \<Longrightarrow> (s, i) \<in> set specs \<Longrightarrow> s \<in> set SPECS"
    unfolding resolveSpecs_def by blast
qed

text \<open>
  C16: The reason codes of a response are the \<open>topN\<close> largest contributions in decreasing order:
  together with the omitted ones they are exactly the contributions of the features present, no
  omitted one exceeds a listed one, and every one lies in \<open>[-1, 1]\<close>, whichever importances the
  deployed model supplies. The contribution of a finite value is, to four decimals, the sign of the feature's built-in weight
  times an importance in \<open>[0, 1]\<close>, which is the weight's own magnitude when the model supplies none, times the
  hyperbolic tangent of the scaled deviation from the baseline; so a deviation that raises the risk never counts
  against it, nor one that lowers the risk towards it.
\<close>

theorem explain_top:
  fixes ws :: "(string \<times> jnum) list option" and features :: "jnum list" and topN :: nat
  assumes specs: "resolveSpecs byName = Inr specs"
  defines "rs \<equiv> explain (setModelWeights ws) specs features topN"
  shows "(\<exists>omitted. mset rs + mset omitted =
        mset (concat (map (contribution_of (setModelWeights ws) features) specs)) \<and>
      (omitted = [] \<or> length rs = topN) \<and>
      (\<forall>a \<in> set rs. \<forall>b \<in> set omitted. \<bar>rc_contribution b\<bar> \<le> \<bar>rc_contribution a\<bar>)) \<and>
    sorted_wrt (\<lambda>a b. \<bar>rc_contribution b\<bar> \<le> \<bar>rc_contribution a\<bar>) rs \<and>
    (\<forall>r \<in> set rs. \<bar>rc_contribution r\<bar> \<le> 1) \<and>
    (\<forall>(s, i) \<in> set specs. \<forall>v. features ! i = Fin v \<longrightarrow>
      (\<forall>r \<in> set (contribution_of (setModelWeights ws) features (s, i)).
        (\<exists>u. 0 \<le> u \<and> u \<le> 1 \<and> (ws = None \<longrightarrow> u = \<bar>rs_weight s\<bar>) \<and>
          \<bar>rc_contribution r - sgn (rs_weight s) * u * tanh ((v - rs_baseline s) / rs_scale s)\<bar> \<le> 1 / 20000) \<and>
        (0 \<le> rs_weight s * (v - rs_baseline s) \<longrightarrow> 0 \<le> rc_contribution r) \<and>
        (rs_weight s * (v - rs_baseline s) \<le> 0 \<longrightarrow> rc_contribution r \<le> 0)))"
proof (intro conjI)
  let ?all = "concat (map (contribution_of (setModelWeights ws) features) specs)"
  have rs: "rs = take topN (by_magnitude ?all)" by (simp add: rs_def explain_def)
  have ok: "model_weight_ok (setModelWeights ws)" by (rule setModelWeights_ok)
  have split: "by_magnitude ?all = rs @ drop topN (by_magnitude ?all)" by (simp add: rs)
  have ordered: "sorted_wrt (\<lambda>a b. \<bar>rc_contribution b\<bar> \<le> \<bar>rc_contribution a\<bar>) (rs @ drop topN (by_magnitude ?all))"
    using by_magnitude_props(2) [of ?all] split by metis
  have "mset rs + mset (drop topN (by_magnitude ?all)) = mset ?all"
    using by_magnitude_props(1) [of ?all] split by (metis mset_append)
  moreover have "drop topN (by_magnitude ?all) = [] \<or> length rs = topN" by (simp add: rs) linarith
  ultimately show "\<exists>omitted. mset rs + mset omitted = mset ?all \<and> (omitted = [] \<or> length rs = topN) \<and>
      (\<forall>a \<in> set rs. \<forall>b \<in> set omitted. \<bar>rc_contribution b\<bar> \<le> \<bar>rc_contribution a\<bar>)"
    using ordered by (intro exI [of _ "drop topN (by_magnitude ?all)"]) (simp add: sorted_wrt_append)
  show "sorted_wrt (\<lambda>a b. \<bar>rc_contribution b\<bar> \<le> \<bar>rc_contribution a\<bar>) rs"
    using ordered by (simp add: sorted_wrt_append)
  have w: "\<bar>rs_weight s\<bar> \<le> 1" "0 < rs_scale s" if "(s, i) \<in> set specs" for s i
    using SPECS_weights [OF resolveSpecs_in [OF specs that]] by simp_all
  show "\<forall>r \<in> set rs. \<bar>rc_contribution r\<bar> \<le> 1"
  proof
    fix r assume "r \<in> set rs"
    then have "r \<in> set ?all" using by_magnitude_props(1) [of ?all] unfolding rs
      by (metis in_set_takeD set_mset_mset)
    then obtain s i where "(s, i) \<in> set specs" "r \<in> set (contribution_of (setModelWeights ws) features (s, i))" by auto
    then show "\<bar>rc_contribution r\<bar> \<le> 1" using contribution_bound [OF ok] w by blast
  qed
  show "\<forall>(s, i) \<in> set specs. \<forall>v. features ! i = Fin v \<longrightarrow>
      (\<forall>r \<in> set (contribution_of (setModelWeights ws) features (s, i)).
        (\<exists>u. 0 \<le> u \<and> u \<le> 1 \<and> (ws = None \<longrightarrow> u = \<bar>rs_weight s\<bar>) \<and>
          \<bar>rc_contribution r - sgn (rs_weight s) * u * tanh ((v - rs_baseline s) / rs_scale s)\<bar> \<le> 1 / 20000) \<and>
        (0 \<le> rs_weight s * (v - rs_baseline s) \<longrightarrow> 0 \<le> rc_contribution r) \<and>
        (rs_weight s * (v - rs_baseline s) \<le> 0 \<longrightarrow> rc_contribution r \<le> 0))"
  proof (clarify, goal_cases)
    case (1 s i v r)
    let ?u = "\<bar>fst (weightFor (setModelWeights ws) s)\<bar>"
    note f = contribution_formula [OF ok w(1) [OF 1(1)] w(2) [OF 1(1)] 1(3) 1(2)]
    have "ws = None \<longrightarrow> ?u = \<bar>rs_weight s\<bar>" by (simp add: setModelWeights_def weightFor_def)
    then have "\<exists>u. 0 \<le> u \<and> u \<le> 1 \<and> (ws = None \<longrightarrow> u = \<bar>rs_weight s\<bar>) \<and>
        \<bar>rc_contribution r - sgn (rs_weight s) * u * tanh ((v - rs_baseline s) / rs_scale s)\<bar> \<le> 1 / 20000"
      using f(2) round4_error unfolding f(1) by (intro exI [of _ ?u]) (simp only: abs_ge_zero simp_thms)
    then show ?case
      using saturated_sign [OF w(2) [OF 1(1)] abs_ge_zero, of "rs_weight s" "v - rs_baseline s" "fst (weightFor (setModelWeights ws) s)"]
      unfolding f(1) by (blast intro: round4_sign)
  qed
qed

definition sample_index :: "string \<Rightarrow> nat option" where
  "sample_index f = (if f = ''amount'' then Some 0 else Some 1)"

theorem explain_top_witness:
  "\<exists>specs. resolveSpecs sample_index = Inr specs \<and> specs \<noteq> [] \<and> (\<forall>r \<in> set (explain None specs [Fin 5000] 3). \<bar>rc_contribution r\<bar> \<le> 1)"
proof -
  obtain specs where specs: "resolveSpecs sample_index = Inr specs" "specs \<noteq> []"
    by (simp add: resolveSpecs_def SPECS_def reason_spec_of_def sample_index_def)
  have "setModelWeights None = None" by (simp add: setModelWeights_def)
  with explain_top [OF specs(1), of None "[Fin 5000]" 3] specs show ?thesis by auto
qed

end
