(* ===== verification/JsonRoundTrip.thy ===== *)
theory JsonRoundTrip
  imports Json
begin

text \<open>
  \<open>JSON.parse(JSON.stringify(v))\<close> gives back \<open>v\<close> for the values the services store: no
  \<open>undefined\<close>, object keys distinct, numbers with at most 17 fractional digits. Every lemma
  states what the parser does with the printed text followed by an arbitrary rest.
\<close>

section \<open>Strings\<close>

lemma code_inject [simp]: "code c = code d \<longleftrightarrow> c = d"
  by (simp add: code_def)

lemma char_of_code [simp]: "char_of (code c) = c"
  by (simp add: code_def)

lemma code_char_of: "n < 256 \<Longrightarrow> code (char_of n) = n"
  by (simp add: code_def)

lemma radix_hex_digit: "n < 16 \<Longrightarrow> radix_digit (hex_digit n) = Some n"
  by (auto simp: radix_digit_def hex_digit_def is_digit_def to_lower_char_def code_char_of)

lemma hex_pair: "k < 32 \<Longrightarrow> radix_nat 16 0 [CHR ''0'', CHR ''0'', hex_digit (k div 16), hex_digit (k mod 16)] = Some k"
proof -
  assume "k < 32"
  then have "k div 16 < 16" by simp
  moreover have "radix_digit (CHR ''0'') = Some 0" by (simp add: radix_digit_def is_digit_def code_def)
  ultimately show ?thesis using radix_hex_digit [of "k div 16"] radix_hex_digit [of "k mod 16"] by simp
qed

lemma code_less: "code c < 256"
  by (simp add: code_def)

lemma char_eq: "code c = code d \<Longrightarrow> c = d"
  by simp

lemma control_chars:
  "char_of (8 :: nat) = CHR 0x08" "char_of (9 :: nat) = CHR 0x09" "char_of (10 :: nat) = CHR 0x0A"
  "char_of (12 :: nat) = CHR 0x0C" "char_of (13 :: nat) = CHR 0x0D"
  by (rule char_eq, simp add: code_def)+

lemma escape_char_parses: "json_chars (escape_char c @ t) = push_char c (json_chars t)"
proof -
  have plain: "json_chars (c # t) = push_char c (json_chars t)"
    if "code c \<noteq> 34" "code c \<noteq> 92" "\<not> code c < 32"
    using that by simp
  have hex: "json_chars (CHR 0x5C # CHR ''u'' # CHR ''0'' # CHR ''0'' # hex_digit (code c div 16) #
      hex_digit (code c mod 16) # t) = push_char c (json_chars t)" if "code c < 32"
    using hex_pair [OF that] code_less [of c] by (simp add: code_def [of "CHR 0x5C"] del: radix_nat.simps)
  consider "code c = 34" | "code c = 92" | "code c = 8" | "code c = 9" | "code c = 10" | "code c = 12"
    | "code c = 13" | "code c \<notin> {34, 92, 8, 9, 10, 12, 13}" by blast
  then show ?thesis
  proof cases
    case 1
    then have "c = CHR 0x22" by (intro char_eq) (simp add: code_def)
    then show ?thesis by (simp add: escape_char_def Let_def code_def unescape_def control_chars)
  next
    case 2
    then have "c = CHR 0x5C" by (intro char_eq) (simp add: code_def)
    then show ?thesis by (simp add: escape_char_def Let_def code_def unescape_def control_chars)
  next
    case 3
    then have "c = CHR 0x08" by (intro char_eq) (simp add: code_def)
    then show ?thesis by (simp add: escape_char_def Let_def code_def unescape_def control_chars)
  next
    case 4
    then have "c = CHR 0x09" by (intro char_eq) (simp add: code_def)
    then show ?thesis by (simp add: escape_char_def Let_def code_def unescape_def control_chars)
  next
    case 5
    then have "c = CHR 0x0A" by (intro char_eq) (simp add: code_def)
    then show ?thesis by (simp add: escape_char_def Let_def code_def unescape_def control_chars)
  next
    case 6
    then have "c = CHR 0x0C" by (intro char_eq) (simp add: code_def)
    then show ?thesis by (simp add: escape_char_def Let_def code_def unescape_def control_chars)
  next
    case 7
    then have "c = CHR 0x0D" by (intro char_eq) (simp add: code_def)
    then show ?thesis by (simp add: escape_char_def Let_def code_def unescape_def control_chars)
  next
    case 8
    then show ?thesis using plain hex by (simp add: escape_char_def Let_def)
  qed
qed

lemma json_chars_string: "json_chars (concat (map escape_char s) @ CHR 0x22 # r) = Some (s, r)"
  by (induction s) (simp_all add: escape_char_parses push_char_def code_def)

section \<open>Numbers\<close>

text \<open>A number the printer reproduces exactly.\<close>

definition short_decimal :: "real \<Rightarrow> bool" where
  "short_decimal r = (\<bar>r\<bar> < 10 ^ 21 \<and> r * 10 ^ 17 \<in> \<int>)"

lemma digits_nat_append: "digits_nat a (xs @ ys) = digits_nat (digits_nat a xs) ys"
  by (induction xs arbitrary: a) auto

lemma digit_char: "n < 10 \<Longrightarrow> code (char_of (48 + n)) = 48 + n" "n < 10 \<Longrightarrow> is_digit (char_of (48 + n))"
  by (simp_all add: code_def is_digit_def)

lemma nat_to_str_digits: "list_all is_digit (nat_to_str n) \<and> nat_to_str n \<noteq> [] \<and> digits_nat 0 (nat_to_str n) = n"
proof (induction n rule: nat_to_str.induct)
  case (1 n)
  show ?case
  proof (cases "n < 10")
    case True
    then show ?thesis using digit_char [of n] by (simp add: nat_to_str.simps [of n])
  next
    case False
    have "n mod 10 < 10" by simp
    then show ?thesis using 1 [OF False] False digit_char [of "n mod 10"]
      by (simp add: nat_to_str.simps [of n] digits_nat_append)
  qed
qed

lemma nat_to_str_no_zero: "0 < n \<Longrightarrow> hd (nat_to_str n) \<noteq> CHR ''0''"
proof (induction n rule: nat_to_str.induct)
  case (1 n)
  show ?case
  proof (cases "n < 10")
    case True
    have "code (char_of (48 + n)) \<noteq> code (CHR ''0'')"
      using digit_char(1) [OF True] 1(2) by (simp add: code_def)
    then show ?thesis using True by (auto simp: nat_to_str.simps [of n])
  next
    case False
    then have "hd (nat_to_str n) = hd (nat_to_str (n div 10))"
      using nat_to_str_digits [of "n div 10"] by (simp add: nat_to_str.simps [of n])
    then show ?thesis using 1(1) [OF False] False by simp
  qed
qed

lemma frac_digits_value:
  assumes "0 \<le> f" "f < 1" and "f * 10 ^ k \<in> \<int>"
  shows "list_all is_digit (frac_digits k f) \<and>
     real (digits_nat a (frac_digits k f)) / 10 ^ length (frac_digits k f) = real a + f"
  using assms
proof (induction k arbitrary: f a)
  case 0
  then obtain i :: int where "f = of_int i" by (auto elim: Ints_cases)
  then have "f = 0" using 0 by simp
  then show ?case by simp
next
  case (Suc k)
  show ?case
  proof (cases "f = 0")
    case False
    let ?d = "nat \<lfloor>10 * f\<rfloor>" and ?g = "10 * f - of_int \<lfloor>10 * f\<rfloor>"
    have d: "?d < 10" and dr: "real ?d = of_int \<lfloor>10 * f\<rfloor>" using Suc.prems(1,2) by linarith+
    have "10 * f * 10 ^ k \<in> \<int>" using Suc.prems(3) by (simp add: mult.assoc mult.left_commute)
    then have "?g * 10 ^ k \<in> \<int>" by (simp add: left_diff_distrib)
    moreover have "0 \<le> ?g" "?g < 1" by linarith+
    ultimately have IH: "list_all is_digit (frac_digits k ?g) \<and>
        real (digits_nat (10 * a + ?d) (frac_digits k ?g)) / 10 ^ length (frac_digits k ?g) = real (10 * a + ?d) + ?g"
      by (intro Suc.IH)
    have fd: "frac_digits (Suc k) f = char_of (48 + ?d) # frac_digits k ?g" using False by simp
    have "real (digits_nat a (frac_digits (Suc k) f)) / 10 ^ length (frac_digits (Suc k) f) =
        real (digits_nat (10 * a + ?d) (frac_digits k ?g)) / 10 ^ length (frac_digits k ?g) / 10"
      unfolding fd using digit_char(1) [OF d] by simp
    also have "\<dots> = (real (10 * a + ?d) + ?g) / 10" using IH by simp
    also have "\<dots> = real a + f" using dr by (simp add: field_simps)
    finally show ?thesis using IH digit_char(2) [OF d] unfolding fd by simp
  qed simp
qed

lemma digit_span:
  assumes "list_all is_digit xs" and "r = [] \<or> \<not> is_digit (hd r)"
  shows "takeWhile is_digit (xs @ r) = xs" and "dropWhile is_digit (xs @ r) = r"
proof -
  have all: "\<forall>x \<in> set xs. is_digit x" using assms(1) by (simp add: list_all_iff)
  show "takeWhile is_digit (xs @ r) = xs" "dropWhile is_digit (xs @ r) = r"
    using all assms(2) by (cases r; simp add: takeWhile_append2 dropWhile_append2)+
qed

lemma dot_not_digit [simp]: "\<not> is_digit (CHR ''.'')" "\<not> is_digit (CHR ''-'')"
  by (simp_all add: is_digit_def code_def)

lemma unsigned_literal_decimal:
  assumes ip: "ip \<noteq> []" "list_all is_digit ip" and fp: "list_all is_digit fp"
  shows "unsigned_literal (ip @ (if fp = [] then [] else CHR ''.'' # fp)) = Some (decimal_value ip fp)"
proof -
  have tw: "takeWhile is_digit ip = ip" "dropWhile is_digit ip = []"
    "takeWhile is_digit fp = fp" "dropWhile is_digit fp = []"
    using digit_span [OF ip(2), of "[]"] digit_span [OF fp, of "[]"] unfolding append_Nil2 by simp_all
  have dotted: "takeWhile is_digit (ip @ CHR ''.'' # fp) = ip" "dropWhile is_digit (ip @ CHR ''.'' # fp) = CHR ''.'' # fp"
    by (rule digit_span [OF ip(2)]; simp)+
  show ?thesis
    by (cases "fp = []") (simp_all add: unsigned_literal_def Let_def tw dotted ip(1))
qed

lemma num_ok_scan:
  assumes "t \<noteq> []" and "hd t \<noteq> CHR ''-''" and "takeWhile is_digit t = ip" and "dropWhile is_digit t = r"
    and "ip \<noteq> []" and "hd ip \<noteq> CHR ''0'' \<or> tl ip = []"
    and "r = [] \<or> (hd r = CHR ''.'' \<and> takeWhile is_digit (tl r) \<noteq> [] \<and> dropWhile is_digit (tl r) = [])"
  shows "json_num_ok t"
  using assms(5-7) unfolding json_num_ok_def
  by (cases "r = []") (auto simp only: assms(1-4) Let_def if_True if_False simp_thms)

lemma num_ok_decimal:
  assumes ip: "ip \<noteq> []" "list_all is_digit ip" and fp: "list_all is_digit fp"
    and zero: "hd ip \<noteq> CHR ''0'' \<or> tl ip = []" and "hd (ip @ (if fp = [] then [] else CHR ''.'' # fp)) \<noteq> CHR ''-''"
  shows "json_num_ok (ip @ (if fp = [] then [] else CHR ''.'' # fp))"
proof -
  have tw: "takeWhile is_digit ip = ip" "dropWhile is_digit ip = []"
    "takeWhile is_digit fp = fp" "dropWhile is_digit fp = []"
    using digit_span [OF ip(2), of "[]"] digit_span [OF fp, of "[]"] unfolding append_Nil2 by simp_all
  have dotted: "takeWhile is_digit (ip @ CHR ''.'' # fp) = ip" "dropWhile is_digit (ip @ CHR ''.'' # fp) = CHR ''.'' # fp"
    by (rule digit_span [OF ip(2)]; simp)+
  show ?thesis
  proof (cases "fp = []")
    case True
    have "json_num_ok ip" by (rule num_ok_scan [OF ip(1) _ tw(1,2) ip(1) zero]) (use assms(5) True in simp_all)
    then show ?thesis by (simp add: True)
  next
    case False
    have "json_num_ok (ip @ CHR ''.'' # fp)"
      by (rule num_ok_scan [OF _ _ dotted ip(1) zero]) (use assms(5) False in \<open>simp_all add: tw(3,4)\<close>)
    then show ?thesis by (simp add: False)
  qed
qed

lemma num_text_parses:
  assumes "short_decimal r"
  shows "list_all is_num_char (num_to_str (Fin r)) \<and> json_num_ok (num_to_str (Fin r)) \<and>
     decimal_literal (num_to_str (Fin r)) = Fin r"
proof -
  let ?i = "nat \<lfloor>\<bar>r\<bar>\<rfloor>"
  let ?f = "\<bar>r\<bar> - real ?i"
  let ?ip = "nat_to_str ?i" and ?fp = "frac_digits 17 ?f"
  let ?u = "?ip @ (if ?fp = [] then [] else CHR ''.'' # ?fp)"
  have i: "real ?i = of_int \<lfloor>\<bar>r\<bar>\<rfloor>" by simp
  have f: "0 \<le> ?f" "?f < 1" by linarith+
  have "\<bar>r\<bar> * 10 ^ 17 \<in> \<int>" using assms by (simp add: short_decimal_def abs_if)
  then have "?f * 10 ^ 17 \<in> \<int>" by (simp add: left_diff_distrib i)
  then have fp: "list_all is_digit ?fp" "real (digits_nat 0 ?fp) / 10 ^ length ?fp = ?f"
    using frac_digits_value [OF f, of 17 0] by simp_all
  have ip: "list_all is_digit ?ip" "?ip \<noteq> []" "digits_nat 0 ?ip = ?i" using nat_to_str_digits [of ?i] by simp_all
  have val: "decimal_value ?ip ?fp = \<bar>r\<bar>" using ip(3) fp(2) by (simp add: decimal_value_def)
  have printed: "num_to_str (Fin r) = (if r < 0 then ''-'' else []) @ ?u" by (simp add: Let_def)
  have hd: "is_digit (hd ?u)" "?u \<noteq> []" using ip(1,2) by (auto simp: list_all_iff hd_append)
  then have sign: "hd ?u \<noteq> CHR ''-''" "hd ?u \<noteq> CHR ''+''" "hd ?u \<noteq> CHR ''I''"
    by (auto simp: is_digit_def code_def)
  have "unsigned_literal ?u = Some \<bar>r\<bar>" using unsigned_literal_decimal [OF ip(2,1) fp(1)] val by simp
  moreover have "to_double r = Fin r"
  proof -
    have "(10 :: real) ^ 21 \<le> 2 ^ 1024 - 2 ^ 970" by simp
    moreover have "\<bar>r\<bar> < 10 ^ 21" using assms by (simp only: short_decimal_def)
    ultimately have "\<bar>r\<bar> < 2 ^ 1024 - 2 ^ 970" by (rule less_le_trans [rotated])
    then have "\<not> 2 ^ 1024 - 2 ^ 970 \<le> r" "\<not> r \<le> - (2 ^ 1024 - 2 ^ 970)" by (simp_all only: abs_less_iff not_le) linarith+
    then show ?thesis by (simp only: to_double_def if_False)
  qed
  ultimately have lit: "decimal_literal (num_to_str (Fin r)) = Fin r"
    using sign hd(2) unfolding printed decimal_literal_def
    by (cases ?u) (auto simp: Let_def)
  have num: "list_all is_num_char (num_to_str (Fin r))"
    using ip(1) fp(1) unfolding printed by (auto simp: list_all_iff is_num_char_def)
  have zero: "hd ?ip \<noteq> CHR ''0'' \<or> tl ?ip = []"
    using nat_to_str_no_zero [of ?i] by (cases "?i = 0") (simp_all add: nat_to_str.simps [of 0])
  have "json_num_ok ?u" using sign(1) by (intro num_ok_decimal [OF ip(2,1) fp(1) zero]) simp
  moreover have "json_num_ok (CHR ''-'' # w) = json_num_ok w" if "hd w \<noteq> CHR ''-''" for w
    using that by (simp add: json_num_ok_def)
  ultimately have "json_num_ok (num_to_str (Fin r))" using sign(1) unfolding printed by (cases "r < 0") simp_all
  then show ?thesis using lit num by simp
qed

section \<open>Values\<close>

fun json_plain :: "jval \<Rightarrow> bool" where
  "json_plain JUndef = False"
| "json_plain (JNum n) = (case n of Fin r \<Rightarrow> short_decimal r | _ \<Rightarrow> False)"
| "json_plain (JArr vs) = list_all json_plain vs"
| "json_plain (JObj fs) = (distinct (map fst fs) \<and> list_all (\<lambda>(k, v). json_plain v) fs)"
| "json_plain v = True"

definition delim :: "string \<Rightarrow> bool" where
  "delim r = (r = [] \<or> \<not> is_num_char (hd r))"

lemma delim_simps [simp]: "delim []" "delim (CHR '','' # r)" "delim (CHR '']'' # r)" "delim (CHR ''}'' # r)"
  by (simp_all add: delim_def is_num_char_def is_digit_def code_def)

lemma json_ws_simps [simp]: "json_ws (CHR '','' # r) = CHR '','' # r" "json_ws (CHR '']'' # r) = CHR '']'' # r"
  "json_ws (CHR ''}'' # r) = CHR ''}'' # r" "json_ws (CHR '':'' # r) = CHR '':'' # r" "json_ws (CHR 0x22 # r) = CHR 0x22 # r"
  by (simp_all add: json_ws_def code_def)

text \<open>How the text of a value starts.\<close>

definition starts_value :: "string \<Rightarrow> bool" where
  "starts_value t = (t \<noteq> [] \<and> code (hd t) \<notin> {9, 10, 13, 32} \<and> hd t \<noteq> CHR '']'')"

lemma starts_valueD: "starts_value t \<Longrightarrow> json_ws (t @ r) = t @ r \<and> t \<noteq> [] \<and> \<not> starts_with (t @ r) '']''"
  by (cases t) (auto simp: starts_value_def json_ws_def)

lemma num_head: "list_all is_num_char t \<Longrightarrow> t \<noteq> [] \<Longrightarrow> is_num_char (hd t)"
  by (cases t) auto

lemma num_text_nonempty: "num_to_str (Fin r) \<noteq> []"
  using nat_to_str_digits [of "nat \<lfloor>\<bar>r\<bar>\<rfloor>"] by (simp add: Let_def)

lemma is_num_char_head: "is_num_char c \<Longrightarrow> c \<noteq> CHR ''n'' \<and> c \<noteq> CHR ''t'' \<and> c \<noteq> CHR ''f'' \<and>
    code c \<noteq> 34 \<and> c \<noteq> CHR ''['' \<and> c \<noteq> CHR ''{'' \<and> code c \<notin> {9, 10, 13, 32} \<and> c \<noteq> CHR '']''"
  by (auto simp: is_num_char_def is_digit_def code_def)

lemma text_starts: "json_plain v \<Longrightarrow> starts_value (json_text v)"
proof (cases v)
  case (JNum n)
  assume "json_plain v"
  then obtain r where r: "n = Fin r" "short_decimal r" using JNum by (cases n) auto
  then have "is_num_char (hd (num_to_str (Fin r)))"
    using num_text_parses [OF r(2)] num_text_nonempty num_head by blast
  then show ?thesis using is_num_char_head num_text_nonempty [of r]
    by (simp add: JNum r(1) starts_value_def del: num_to_str.simps)
qed (auto simp: starts_value_def json_string_def code_def)

lemma num_value_parses:
  assumes "short_decimal r" and "delim rest"
  shows "json_value (num_to_str (Fin r) @ rest) = Some (JNum (Fin r), rest)"
proof -
  let ?t = "num_to_str (Fin r)"
  note t = num_text_parses [OF assms(1)]
  obtain c cs where c: "?t = c # cs" using num_text_nonempty by (meson list.exhaust)
  have head: "is_num_char c" using t c by simp
  have all: "\<forall>x \<in> set ?t. is_num_char x" using t by (simp add: list_all_iff del: num_to_str.simps)
  have "takeWhile is_num_char (?t @ rest) = ?t" "dropWhile is_num_char (?t @ rest) = rest"
    using all assms(2) by (cases rest; simp add: takeWhile_append2 dropWhile_append2 delim_def del: num_to_str.simps)+
  then show ?thesis using t is_num_char_head [OF head]
    unfolding c append_Cons by (subst json_value.simps) simp
qed

lemma join_cons: "join_with d (w # ws) = w @ (if ws = [] then [] else d @ join_with d ws)"
  by (cases ws) simp_all

lemma elems_parse:
  assumes "vs \<noteq> []" and "\<And>v. v \<in> set vs \<Longrightarrow> starts_value (json_text v)"
    and "\<And>v r. v \<in> set vs \<Longrightarrow> delim r \<Longrightarrow> json_value (json_text v @ r) = Some (v, r)"
  shows "json_elems (join_with '','' (map json_text vs) @ CHR '']'' # rest) = Some (vs, rest)"
  using assms
proof (induction vs)
  case (Cons v vs)
  let ?tail = "(if vs = [] then [] else '','' @ join_with '','' (map json_text vs)) @ CHR '']'' # rest"
  have whole: "join_with '','' (map json_text (v # vs)) @ CHR '']'' # rest = json_text v @ ?tail"
    by (simp add: join_cons)
  have start: "json_ws (json_text v @ ?tail) = json_text v @ ?tail" "json_text v \<noteq> []"
    using starts_valueD [OF Cons.prems(2) [of v]] by auto
  have "delim ?tail" by simp
  then have head: "json_value (json_text v @ ?tail) = Some (v, ?tail)" by (intro Cons.prems(3)) simp_all
  show ?case
  proof (cases "vs = []")
    case True
    then show ?thesis unfolding whole using start head by (subst json_elems.simps) simp
  next
    case False
    have IH: "json_elems (join_with '','' (map json_text vs) @ CHR '']'' # rest) = Some (vs, rest)"
      by (rule Cons.IH) (use False Cons.prems in simp_all)
    show ?thesis unfolding whole using start head IH False by (subst json_elems.simps) simp
  qed
qed simp

lemma om_set_fresh: "k \<notin> fst ` set m \<Longrightarrow> om_set k v m = m @ [(k, v)]"
  by (induction m) auto

lemma members_parse:
  assumes "fs \<noteq> []" and "distinct (map fst (acc @ fs))"
    and "\<And>k v. (k, v) \<in> set fs \<Longrightarrow> starts_value (json_text v)"
    and "\<And>k v r. (k, v) \<in> set fs \<Longrightarrow> delim r \<Longrightarrow> json_value (json_text v @ r) = Some (v, r)"
  shows "json_members acc (join_with '','' (map (\<lambda>(k, v). json_string k @ '':'' @ json_text v) fs) @ CHR ''}'' # rest) =
     Some (acc @ fs, rest)"
  using assms
proof (induction fs arbitrary: acc)
  case (Cons f fs)
  obtain k v where f: "f = (k, v)" by (cases f)
  let ?tail = "(if fs = [] then [] else '','' @ join_with '','' (map (\<lambda>(k, v). json_string k @ '':'' @ json_text v) fs))
     @ CHR ''}'' # rest"
  have whole: "join_with '','' (map (\<lambda>(k, v). json_string k @ '':'' @ json_text v) (f # fs)) @ CHR ''}'' # rest =
      CHR 0x22 # concat (map escape_char k) @ CHR 0x22 # CHR '':'' # json_text v @ ?tail"
    by (simp add: join_cons f json_string_def)
  have start: "json_ws (json_text v @ ?tail) = json_text v @ ?tail"
    using starts_valueD [OF Cons.prems(3) [of k v]] by (simp add: f)
  have "delim ?tail" by simp
  then have head: "json_value (json_text v @ ?tail) = Some (v, ?tail)" by (intro Cons.prems(4) [of k]) (simp_all add: f)
  have fresh: "om_set k v acc = acc @ [(k, v)]" using Cons.prems(2) by (intro om_set_fresh) (auto simp: f)
  show ?case
  proof (cases "fs = []")
    case True
    then show ?thesis unfolding whole using start head fresh
      by (subst json_members.simps) (simp add: json_chars_string code_def [of "CHR 0x22"] f)
  next
    case False
    have IH: "json_members (acc @ [(k, v)]) (join_with '','' (map (\<lambda>(k, v). json_string k @ '':'' @ json_text v) fs) @
        CHR ''}'' # rest) = Some ((acc @ [(k, v)]) @ fs, rest)"
    proof (rule Cons.IH [OF False])
      show "distinct (map fst ((acc @ [(k, v)]) @ fs))" using Cons.prems(2) by (simp add: f)
      fix j w r assume j: "(j, w) \<in> set fs"
      then show "starts_value (json_text w)" by (intro Cons.prems(3) [of j]) simp
      assume "delim r"
      then show "json_value (json_text w @ r) = Some (w, r)" using j by (intro Cons.prems(4) [of j]) simp_all
    qed
    show ?thesis unfolding whole using start head fresh IH False
      by (subst json_members.simps) (simp add: json_chars_string code_def [of "CHR 0x22"] f)
  qed
qed simp

lemma plain_fields: "list_all (\<lambda>(k, v). json_plain v) fs \<Longrightarrow>
    concat (map (\<lambda>(k, v). if v = JUndef then [] else [json_string k @ '':'' @ json_text v]) fs) =
    map (\<lambda>(k, v). json_string k @ '':'' @ json_text v) fs"
  by (induction fs) auto

lemma value_parses: "json_plain v \<Longrightarrow> delim rest \<Longrightarrow> json_value (json_text v @ rest) = Some (v, rest)"
proof (induction v arbitrary: rest)
  case (JNum n)
  then obtain r where "n = Fin r" "short_decimal r" by (cases n) auto
  then show ?case using num_value_parses JNum.prems(2) by (simp del: num_to_str.simps)
next
  case (JStr s)
  show ?case by (subst json_value.simps) (simp add: json_string_def json_chars_string code_def)
next
  case (JArr vs)
  show ?case
  proof (cases "vs = []")
    case True
    then show ?thesis by (subst json_value.simps) (simp add: code_def)
  next
    case False
    have plain: "\<And>v. v \<in> set vs \<Longrightarrow> json_plain v" using JArr.prems(1) by (simp add: list_all_iff)
    have elems: "json_elems (join_with '','' (map json_text vs) @ CHR '']'' # rest) = Some (vs, rest)"
      by (rule elems_parse [OF False]) (use plain JArr.IH text_starts in blast)+
    obtain w ws where vs: "vs = w # ws" using False by (cases vs) simp_all
    have "\<not> starts_with (json_ws (join_with '','' (map json_text vs) @ CHR '']'' # rest)) '']''"
      using starts_valueD [OF text_starts [OF plain [of w]]] by (simp add: vs join_cons)
    then show ?thesis using elems by (subst json_value.simps) (simp add: code_def)
  qed
next
  case (JObj fs)
  show ?case
  proof (cases "fs = []")
    case True
    then show ?thesis by (subst json_value.simps) (simp add: code_def)
  next
    case False
    have plain: "\<And>k v. (k, v) \<in> set fs \<Longrightarrow> json_plain v" using JObj.prems(1) by (auto simp: list_all_iff)
    let ?body = "join_with '','' (map (\<lambda>(k, v). json_string k @ '':'' @ json_text v) fs) @ CHR ''}'' # rest"
    have fields: "json_members [] ?body = Some ([] @ fs, rest)"
    proof (rule members_parse [OF False])
      fix k v r assume kv: "(k, v) \<in> set fs"
      then show "starts_value (json_text v)" using plain text_starts by blast
      assume "delim r"
      then show "json_value (json_text v @ r) = Some (v, r)" using kv plain JObj.IH [of "(k, v)" v] by auto
    qed (use JObj.prems in simp)
    obtain k v gs where fs: "fs = (k, v) # gs" using False by (cases fs) auto
    have "\<not> starts_with (json_ws ?body) ''}''" by (simp add: fs join_cons json_string_def)
    then show ?thesis using fields JObj.prems(1) by (subst json_value.simps) (simp add: plain_fields code_def)
  qed
qed (subst json_value.simps, simp)+

lemma parse_text:
  assumes "json_plain v"
  shows "json_parse (json_text v) = Some v"
proof -
  have "json_value (json_text v) = Some (v, [])" using value_parses [OF assms, of "[]"] by simp
  moreover have "json_ws (json_text v) = json_text v" using starts_valueD [OF text_starts [OF assms], of "[]"] by simp
  ultimately show ?thesis by (simp add: json_parse_def json_ws_def)
qed

end
