(* ===== verification/Idempotency.thy ===== *)
theory Idempotency
  imports JsonRoundTrip "HOL-Library.Multiset" "HOL-Library.Char_ord" "HOL-Library.List_Lexorder"
begin

text \<open>
  \<open>src/shared/idempotency/idempotency.service.ts\<close>. Redis is an argument: a record of the commands
  the service sends, on an abstract server state, with the documented behaviour it relies on as the
  locale \<open>redis_store\<close>; an in-memory server is its instance. SHA-256 and gzip are arguments. Times
  are milliseconds, TTLs seconds as in the commands. A call that cannot reach the server throws.
\<close>

section \<open>The server\<close>

record 'r redis_ops =
  rd_get :: "int \<Rightarrow> string \<Rightarrow> 'r \<Rightarrow> string option"
  rd_set :: "int \<Rightarrow> string \<Rightarrow> string \<Rightarrow> int \<Rightarrow> 'r \<Rightarrow> 'r"
  rd_set_nx :: "int \<Rightarrow> string \<Rightarrow> string \<Rightarrow> int \<Rightarrow> 'r \<Rightarrow> bool \<times> 'r"
  rd_del :: "string list \<Rightarrow> 'r \<Rightarrow> 'r"
  rd_zadd :: "string \<Rightarrow> int \<Rightarrow> string \<Rightarrow> 'r \<Rightarrow> 'r"
  rd_expire :: "int \<Rightarrow> string \<Rightarrow> int \<Rightarrow> 'r \<Rightarrow> 'r"
  rd_zremrangebyscore :: "int \<Rightarrow> string \<Rightarrow> int \<Rightarrow> int \<Rightarrow> 'r \<Rightarrow> 'r"
  rd_zrange :: "int \<Rightarrow> string \<Rightarrow> nat \<Rightarrow> 'r \<Rightarrow> string list"
  rd_zcard :: "int \<Rightarrow> string \<Rightarrow> 'r \<Rightarrow> nat"
  rd_zrem :: "string \<Rightarrow> string list \<Rightarrow> 'r \<Rightarrow> 'r"

text \<open>
  \<open>rd_zrange now k n\<close> is \<open>ZRANGE k 0 (n - 1)\<close>. The string commands and the sorted-set commands
  concern different keys of the server, as the service's key prefixes do.
\<close>

locale redis_store =
  fixes ops :: "'r redis_ops"
  assumes get_set: "now \<le> t \<Longrightarrow> rd_get ops t j (rd_set ops now k v ttl s) =
      (if j = k then (if t < now + 1000 * ttl then Some v else None) else rd_get ops t j s)"
    and set_nx: "rd_set_nx ops now k v ttl s =
      (if rd_get ops now k s = None then (True, rd_set ops now k v ttl s) else (False, s))"
    and get_del: "rd_get ops t j (rd_del ops ks s) = (if j \<in> set ks then None else rd_get ops t j s)"
    and get_zset: "rd_get ops t j (rd_zadd ops k x m s) = rd_get ops t j s"
      "rd_get ops t j (rd_expire ops now k ttl s) = rd_get ops t j s"
      "rd_get ops t j (rd_zremrangebyscore ops now k lo hi s) = rd_get ops t j s"
      "rd_get ops t j (rd_zrem ops k ms s) = rd_get ops t j s"
    and zrange: "rd_zrange ops now k n s = take n (rd_zrange ops now k (rd_zcard ops now k s) s)"
      "length (rd_zrange ops now k (rd_zcard ops now k s) s) = rd_zcard ops now k s"
      "distinct (rd_zrange ops now k n s)"
    and zrem: "rd_zrange ops now k (rd_zcard ops now k (rd_zrem ops k ms s)) (rd_zrem ops k ms s) =
      filter (\<lambda>m. m \<notin> set ms) (rd_zrange ops now k (rd_zcard ops now k s) s)"
    and zset_del: "rd_zcard ops now k (rd_del ops ks s) = (if k \<in> set ks then 0 else rd_zcard ops now k s)"
      "k \<notin> set ks \<Longrightarrow> rd_zrange ops now k n (rd_del ops ks s) = rd_zrange ops now k n s"
begin

lemma zcard_drop_oldest:
  "rd_zcard ops now k (rd_zrem ops k (rd_zrange ops now k n s) s) = rd_zcard ops now k s - n"
proof -
  let ?L = "rd_zrange ops now k (rd_zcard ops now k s) s"
  have d: "distinct ?L" by (rule zrange(3))
  have "filter (\<lambda>m. m \<notin> set (take n ?L)) ?L = drop n ?L"
    using filter_drop_taken [of "take n ?L" "drop n ?L"] d by simp
  moreover have "rd_zrange ops now k n s = take n ?L" by (rule zrange(1))
  ultimately have "rd_zrange ops now k (rd_zcard ops now k (rd_zrem ops k (rd_zrange ops now k n s) s))
      (rd_zrem ops k (rd_zrange ops now k n s) s) = drop n ?L" using zrem by simp
  then show ?thesis using zrange(2) [of now k "rd_zrem ops k (rd_zrange ops now k n s) s"] zrange(2) [of now k s]
    by simp
qed

end

section \<open>Keys\<close>

record idempotency_input =
  in_tenantId :: string
  in_apiKeyId :: "string option"
  in_key :: string

definition composeKey :: "idempotency_input \<Rightarrow> string" where
  "composeKey i = (case in_apiKeyId i of Some a \<Rightarrow> a | None \<Rightarrow> ''anon'') @ ''|'' @ in_key i"

definition respKey :: "idempotency_input \<Rightarrow> string" where
  "respKey i = ''ojuri:idem:resp:'' @ in_tenantId i @ '':'' @ composeKey i"

definition lockKey :: "idempotency_input \<Rightarrow> string" where
  "lockKey i = ''ojuri:idem:lock:'' @ in_tenantId i @ '':'' @ composeKey i"

definition tenantSetKey :: "string \<Rightarrow> string" where
  "tenantSetKey tenantId = ''ojuri:idem:tenant:'' @ tenantId"

definition txnKey :: "string \<Rightarrow> string \<Rightarrow> string" where
  "txnKey tenantId transactionId = ''ojuri:idem:txn:'' @ tenantId @ '':'' @ transactionId"

section \<open>Request hash\<close>

text \<open>
  \<open>Object.keys(source).sort()\<close> and the enumeration order of the object rebuilt from them:
  integer-like keys first. Assigning \<open>__proto__\<close> creates no property.
\<close>

definition is_index_key :: "string \<Rightarrow> bool" where
  "is_index_key k = (k \<noteq> [] \<and> list_all is_digit k \<and> (k = ''0'' \<or> hd k \<noteq> CHR ''0'') \<and>
     digits_nat 0 k < 2 ^ 32 - 1)"

definition own_order :: "(string \<times> 'v) list \<Rightarrow> (string \<times> 'v) list" where
  "own_order fs =
     sort_key (\<lambda>p. digits_nat 0 (fst p)) (filter (\<lambda>p. is_index_key (fst p)) fs) @
     filter (\<lambda>p. \<not> is_index_key (fst p)) fs"

definition sorted_own :: "(string \<times> 'v) list \<Rightarrow> (string \<times> 'v) list" where
  "sorted_own fs = own_order (sort_key fst (filter (\<lambda>p. fst p \<noteq> ''__proto__'') fs))"

fun canonical :: "jval \<Rightarrow> jval" where
  "canonical (JArr vs) = JArr (map canonical vs)"
| "canonical (JObj fs) = JObj (sorted_own (map (\<lambda>(k, v). (k, canonical v)) fs))"
| "canonical v = v"

definition hashRequest :: "(string \<Rightarrow> string) \<Rightarrow> jval \<Rightarrow> string" where
  "hashRequest sha256 body =
     sha256 (json_text (canonical (if nullish body then JNull else body)))"

section \<open>Stored entries\<close>

text \<open>\<open>gzip\<close> is \<open>gzipSync\<close> followed by base64, \<open>gunzip\<close> the inverse chain, \<open>None\<close> when it throws.\<close>

record idempotency_cfg =
  COMPRESS :: bool
  MAX_KEYS_PER_TENANT :: nat
  IDEMPOTENCY_TTL_MS :: int
  gzip :: "string \<Rightarrow> string"
  gunzip :: "string \<Rightarrow> string option"

definition COMPRESS_PREFIX :: string where "COMPRESS_PREFIX = ''gz:''"
definition LOCK_TTL_SECONDS :: int where "LOCK_TTL_SECONDS = 15"
definition LOCK_POLL_INTERVAL_MS :: int where "LOCK_POLL_INTERVAL_MS = 100"
definition LOCK_POLL_TIMEOUT_MS :: int where "LOCK_POLL_TIMEOUT_MS = 3000"

definition entry_json :: "string \<Rightarrow> jval \<Rightarrow> jval" where
  "entry_json requestHash response = JObj [(''requestHash'', JStr requestHash), (''response'', response)]"

definition encodeEntry :: "idempotency_cfg \<Rightarrow> jval \<Rightarrow> string" where
  "encodeEntry cfg entry =
     (if \<not> COMPRESS cfg then json_text entry else COMPRESS_PREFIX @ gzip cfg (json_text entry))"

definition decodeEntry :: "idempotency_cfg \<Rightarrow> string \<Rightarrow> jval option" where
  "decodeEntry cfg raw =
     (if starts_with raw COMPRESS_PREFIX
      then (case gunzip cfg (drop (length COMPRESS_PREFIX) raw) of None \<Rightarrow> None | Some t \<Rightarrow> json_parse t)
      else json_parse raw)"

section \<open>The service\<close>

datatype idempotency_outcome = Miss | Replay jval | Conflict | InFlight

text \<open>Property access on a decoded entry; a truthy entry is not \<open>null\<close>.\<close>

definition entry_prop :: "jval \<Rightarrow> string \<Rightarrow> jval" where
  "entry_prop e k = (case e of JObj fs \<Rightarrow> field fs k | _ \<Rightarrow> JUndef)"

definition lookup_idem ::
    "'r redis_ops \<Rightarrow> idempotency_cfg \<Rightarrow> int \<Rightarrow> idempotency_input \<Rightarrow> string \<Rightarrow> 'r \<Rightarrow> idempotency_outcome" where
  "lookup_idem ops cfg now i requestHash s =
     (case rd_get ops now (respKey i) s of
        None \<Rightarrow> Miss
      | Some raw \<Rightarrow>
          if raw = [] then Miss
          else (case decodeEntry cfg raw of
              None \<Rightarrow> Miss
            | Some entry \<Rightarrow>
                if \<not> truthy entry then Miss
                else if \<not> strict_eq (entry_prop entry ''requestHash'') (JStr requestHash) then Conflict
                else Replay (entry_prop entry ''response'')))"

definition enforceTenantCap :: "'r redis_ops \<Rightarrow> idempotency_cfg \<Rightarrow> int \<Rightarrow> string \<Rightarrow> 'r \<Rightarrow> 'r" where
  "enforceTenantCap ops cfg now tenantId s =
     (let tenantSet = tenantSetKey tenantId;
          s1 = rd_zremrangebyscore ops now tenantSet 0 (now - 1) s;
          size = rd_zcard ops now tenantSet s1
      in if size \<le> MAX_KEYS_PER_TENANT cfg then s1
         else
           let oldest = rd_zrange ops now tenantSet (size - MAX_KEYS_PER_TENANT cfg) s1
           in if oldest = [] then s1
              else rd_zrem ops tenantSet oldest
                (rd_del ops (map (\<lambda>c. ''ojuri:idem:resp:'' @ tenantId @ '':'' @ c) oldest) s1))"

definition ttl_seconds :: "int \<Rightarrow> int" where
  "ttl_seconds ttlMs = max 1 (ttlMs div 1000)"

text \<open>The transaction of \<open>store\<close>; then whether it, and the cap enforcement, reached the server.\<close>

definition store_write ::
    "'r redis_ops \<Rightarrow> idempotency_cfg \<Rightarrow> int \<Rightarrow> idempotency_input \<Rightarrow> string \<Rightarrow> jval \<Rightarrow> int \<Rightarrow> 'r \<Rightarrow> 'r" where
  "store_write ops cfg now i requestHash response ttlSec s =
     (let stored = encodeEntry cfg (entry_json requestHash response);
          tenantSet = tenantSetKey (in_tenantId i)
      in rd_expire ops now tenantSet (ttlSec + 60)
           (rd_zadd ops tenantSet (now + ttlSec * 1000) (composeKey i)
             (rd_set ops now (respKey i) stored ttlSec s)))"

definition store ::
    "'r redis_ops \<Rightarrow> idempotency_cfg \<Rightarrow> int \<Rightarrow> bool \<Rightarrow> bool \<Rightarrow> idempotency_input \<Rightarrow> string \<Rightarrow> jval \<Rightarrow>
       int option \<Rightarrow> 'r \<Rightarrow> 'r" where
  "store ops cfg now written enforced i requestHash response ttlMs s =
     (let ttlSec = ttl_seconds (case ttlMs of Some t \<Rightarrow> t | None \<Rightarrow> IDEMPOTENCY_TTL_MS cfg);
          s1 = store_write ops cfg now i requestHash response ttlSec s
      in if \<not> written then s
         else if enforced then enforceTenantCap ops cfg now (in_tenantId i) s1 else s1)"

definition acquireLock ::
    "'r redis_ops \<Rightarrow> int \<Rightarrow> idempotency_input \<Rightarrow> string \<Rightarrow> 'r \<Rightarrow> bool \<times> 'r" where
  "acquireLock ops now i value s = rd_set_nx ops now (lockKey i) value LOCK_TTL_SECONDS s"

text \<open>The release script, run when the server can be reached.\<close>

definition releaseLock ::
    "'r redis_ops \<Rightarrow> int \<Rightarrow> bool \<Rightarrow> idempotency_input \<Rightarrow> string \<Rightarrow> 'r \<Rightarrow> 'r" where
  "releaseLock ops now reachable i value s =
     (if reachable \<and> rd_get ops now (lockKey i) s = Some value then rd_del ops [lockKey i] s else s)"

text \<open>
  The polls of \<open>waitForReplay\<close> one after another; poll \<open>n\<close> finds the server as \<open>seen n\<close>. At
  most \<open>LOCK_POLL_TIMEOUT_MS / LOCK_POLL_INTERVAL_MS\<close> polls fit before the deadline, since each
  sleeps the interval first.
\<close>

fun poll :: "(int \<Rightarrow> idempotency_outcome) \<Rightarrow> int \<Rightarrow> int \<Rightarrow> nat \<Rightarrow> idempotency_outcome" where
  "poll look now deadline 0 = InFlight"
| "poll look now deadline (Suc n) =
     (if now < deadline
      then let t = now + LOCK_POLL_INTERVAL_MS
           in (case look t of Replay r \<Rightarrow> Replay r | Conflict \<Rightarrow> Conflict | _ \<Rightarrow> poll look t deadline n)
      else InFlight)"

definition waitForReplay ::
    "'r redis_ops \<Rightarrow> idempotency_cfg \<Rightarrow> int \<Rightarrow> idempotency_input \<Rightarrow> string \<Rightarrow> (int \<Rightarrow> 'r) \<Rightarrow> idempotency_outcome" where
  "waitForReplay ops cfg now i requestHash seen =
     poll (\<lambda>t. lookup_idem ops cfg t i requestHash (seen t)) now (now + LOCK_POLL_TIMEOUT_MS)
       (nat (LOCK_POLL_TIMEOUT_MS div LOCK_POLL_INTERVAL_MS) + 1)"

definition reserveTransactionId ::
    "'r redis_ops \<Rightarrow> idempotency_cfg \<Rightarrow> int \<Rightarrow> string \<Rightarrow> string \<Rightarrow> 'r \<Rightarrow> bool \<times> 'r" where
  "reserveTransactionId ops cfg now tenantId transactionId s =
     rd_set_nx ops now (txnKey tenantId transactionId) ''1''
       (max 60 (IDEMPOTENCY_TTL_MS cfg div 1000)) s"

definition releaseTransactionId ::
    "'r redis_ops \<Rightarrow> bool \<Rightarrow> string \<Rightarrow> string \<Rightarrow> 'r \<Rightarrow> 'r" where
  "releaseTransactionId ops reachable tenantId transactionId s =
     (if reachable then rd_del ops [txnKey tenantId transactionId] s else s)"

section \<open>An in-memory server\<close>

record memory =
  strings :: "(string, string \<times> int) omap"
  zsets :: "string \<Rightarrow> (string, int) omap"

definition mem_get :: "int \<Rightarrow> string \<Rightarrow> memory \<Rightarrow> string option" where
  "mem_get now k m = (case om_get (strings m) k of Some (v, e) \<Rightarrow> if now < e then Some v else None | None \<Rightarrow> None)"

definition mem_set :: "int \<Rightarrow> string \<Rightarrow> string \<Rightarrow> int \<Rightarrow> memory \<Rightarrow> memory" where
  "mem_set now k v ttl m = m\<lparr>strings := om_set k (v, now + 1000 * ttl) (strings m)\<rparr>"

definition mem_all :: "string \<Rightarrow> memory \<Rightarrow> string list" where
  "mem_all k m = remdups (map fst (sort_key snd (zsets m k)))"

definition memory_redis :: "memory redis_ops" where
  "memory_redis = \<lparr>rd_get = mem_get, rd_set = mem_set,
     rd_set_nx = (\<lambda>now k v ttl m. if mem_get now k m = None then (True, mem_set now k v ttl m) else (False, m)),
     rd_del = (\<lambda>ks m. \<lparr>strings = filter (\<lambda>p. fst p \<notin> set ks) (strings m),
                        zsets = (\<lambda>k. if k \<in> set ks then [] else zsets m k)\<rparr>),
     rd_zadd = (\<lambda>k x e m. m\<lparr>zsets := (zsets m)(k := om_set e x (zsets m k))\<rparr>),
     rd_expire = (\<lambda>_ _ _ m. m),
     rd_zremrangebyscore = (\<lambda>_ k lo hi m. m\<lparr>zsets := (zsets m)(k := filter (\<lambda>p. snd p < lo \<or> hi < snd p) (zsets m k))\<rparr>),
     rd_zrange = (\<lambda>_ k n m. take n (mem_all k m)),
     rd_zcard = (\<lambda>_ k m. length (mem_all k m)),
     rd_zrem = (\<lambda>k es m. m\<lparr>zsets := (zsets m)(k := filter (\<lambda>p. fst p \<notin> set es) (zsets m k))\<rparr>)\<rparr>"

lemma mem_all_filter:
  "remdups (map fst (sort_key snd (filter (\<lambda>p. fst p \<notin> es) xs))) =
   filter (\<lambda>e. e \<notin> es) (remdups (map fst (sort_key snd xs)))"
proof -
  have "map fst (sort_key snd (filter (\<lambda>p. fst p \<notin> es) xs)) = filter (\<lambda>e. e \<notin> es) (map fst (sort_key snd xs))"
    by (simp add: filter_sort [symmetric] filter_map comp_def)
  then show ?thesis by (simp add: remdups_filter)
qed

interpretation mem: redis_store memory_redis
proof
  show "rd_get memory_redis t j (rd_del memory_redis ks s) =
      (if j \<in> set ks then None else rd_get memory_redis t j s)" for t j ks s
    by (simp add: memory_redis_def mem_get_def om_get_filter_key [of "\<lambda>k. k \<notin> set ks"])
  show "rd_zrange memory_redis now k (rd_zcard memory_redis now k (rd_zrem memory_redis k ms s)) (rd_zrem memory_redis k ms s) =
      filter (\<lambda>m. m \<notin> set ms) (rd_zrange memory_redis now k (rd_zcard memory_redis now k s) s)" for now k ms s
    by (simp add: memory_redis_def mem_all_def mem_all_filter)
qed (simp_all add: memory_redis_def mem_get_def mem_set_def mem_all_def)

section \<open>Entries\<close>

lemma decode_encode:
  assumes "\<And>t. gunzip cfg (gzip cfg t) = Some t" and "json_plain response"
  shows "decodeEntry cfg (encodeEntry cfg (entry_json h response)) = Some (entry_json h response)"
proof -
  have "json_plain (entry_json h response)" using assms(2) by (simp add: entry_json_def)
  note parse = parse_text [OF this]
  obtain t where t: "json_text (entry_json h response) = CHR ''{'' # t" by (simp add: entry_json_def)
  show ?thesis
  proof (cases "COMPRESS cfg")
    case True
    then show ?thesis using assms(1) parse by (simp add: decodeEntry_def encodeEntry_def COMPRESS_PREFIX_def)
  next
    case False
    then have "\<not> starts_with (encodeEntry cfg (entry_json h response)) COMPRESS_PREFIX"
      by (simp add: encodeEntry_def COMPRESS_PREFIX_def t)
    then show ?thesis using False parse by (simp add: decodeEntry_def encodeEntry_def)
  qed
qed

context redis_store
begin

lemma enforce_size:
  "rd_zcard ops now (tenantSetKey tn) (enforceTenantCap ops cfg now tn s) \<le> MAX_KEYS_PER_TENANT cfg"
proof -
  let ?k = "tenantSetKey tn" and ?cap = "MAX_KEYS_PER_TENANT cfg"
  let ?s1 = "rd_zremrangebyscore ops now ?k 0 (now - 1) s"
  let ?old = "rd_zrange ops now ?k (rd_zcard ops now ?k ?s1 - ?cap) ?s1"
  let ?keys = "map (\<lambda>c. ''ojuri:idem:resp:'' @ tn @ '':'' @ c) ?old"
  show ?thesis
  proof (cases "rd_zcard ops now ?k ?s1 \<le> ?cap")
    case True
    then show ?thesis by (simp add: enforceTenantCap_def Let_def)
  next
    case False
    have len: "length ?old = rd_zcard ops now ?k ?s1 - ?cap"
      using zrange(1) [of now ?k "rd_zcard ops now ?k ?s1 - ?cap" ?s1] zrange(2) [of now ?k ?s1]
      by (metis diff_le_self length_take min.absorb2)
    have k: "?k \<notin> set ?keys" by (auto simp: tenantSetKey_def)
    have "rd_zcard ops now ?k (rd_zrem ops ?k (rd_zrange ops now ?k n (rd_del ops ?keys ?s1)) (rd_del ops ?keys ?s1)) =
        rd_zcard ops now ?k (rd_del ops ?keys ?s1) - n" for n
      by (rule zcard_drop_oldest)
    moreover have "rd_zrange ops now ?k n (rd_del ops ?keys ?s1) = rd_zrange ops now ?k n ?s1" for n
      using k by (rule zset_del(2))
    moreover have "rd_zcard ops now ?k (rd_del ops ?keys ?s1) = rd_zcard ops now ?k ?s1"
      using k zset_del(1) by simp
    moreover have "?old \<noteq> []" using False len by auto
    ultimately show ?thesis using False by (simp add: enforceTenantCap_def Let_def)
  qed
qed

lemma enforce_within_cap:
  assumes "rd_zcard ops now (tenantSetKey tn) (rd_zremrangebyscore ops now (tenantSetKey tn) 0 (now - 1) s)
     \<le> MAX_KEYS_PER_TENANT cfg"
  shows "rd_get ops t k (enforceTenantCap ops cfg now tn s) = rd_get ops t k s"
  using assms by (simp add: enforceTenantCap_def Let_def get_zset)

lemma store_write_get:
  "now \<le> t \<Longrightarrow> rd_get ops t k (store_write ops cfg now i h r ttl s) =
     (if k = respKey i then (if t < now + 1000 * ttl then Some (encodeEntry cfg (entry_json h r)) else None)
      else rd_get ops t k s)"
  by (simp add: store_write_def Let_def get_zset get_set)

lemma lookup_cong:
  "rd_get ops t (respKey i) s = rd_get ops t (respKey i) s' \<Longrightarrow>
     lookup_idem ops cfg t i h s = lookup_idem ops cfg t i h s'"
  by (simp add: lookup_idem_def)

lemma lookup_stored:
  assumes "rd_get ops t (respKey i) s = Some (encodeEntry cfg (entry_json h r))"
    and "\<And>t. gunzip cfg (gzip cfg t) = Some t" and "json_plain r"
  shows "lookup_idem ops cfg t i h' s = (if h' = h then Replay r else Conflict)"
proof -
  have "encodeEntry cfg (entry_json h r) \<noteq> []"
    by (simp add: encodeEntry_def COMPRESS_PREFIX_def entry_json_def)
  then show ?thesis using decode_encode [OF assms(2,3), of h] assms(1)
    by (auto simp: lookup_idem_def entry_json_def entry_prop_def field_def)
qed

lemma lock_taken:
  "acquireLock ops now i v s = (True, s1) \<Longrightarrow> now \<le> t \<Longrightarrow>
     rd_get ops t (lockKey i) s1 = (if t < now + 1000 * LOCK_TTL_SECONDS then Some v else None)"
  by (auto simp: acquireLock_def set_nx get_set split: if_splits)

lemma lock_release_gets:
  "rd_get ops t (lockKey i) (releaseLock ops t True i v s) =
     (if rd_get ops t (lockKey i) s = Some v then None else rd_get ops t (lockKey i) s)"
  by (simp add: releaseLock_def get_del)

lemma acquire_iff: "fst (acquireLock ops t i v s) \<longleftrightarrow> rd_get ops t (lockKey i) s = None"
  by (simp add: acquireLock_def set_nx)

end

section \<open>Properties\<close>

text \<open>
  A stored response is replayed. On any server with Redis' documented behaviour, for every later
  time before the entry's TTL, a lookup with the same key and request hash replays exactly the
  stored response (compressed or not), the same key with another hash is a conflict, and every key
  with another cache key is answered as before, provided the tenant is within its cap.
\<close>

theorem stored_response_is_replayed:
  assumes redis: "redis_store ops" and gz: "\<And>t. gunzip cfg (gzip cfg t) = Some t" and plain: "json_plain response"
    and cap: "rd_zcard ops now (tenantSetKey (in_tenantId i)) (rd_zremrangebyscore ops now (tenantSetKey (in_tenantId i))
       0 (now - 1) (store_write ops cfg now i h response (ttl_seconds ttl) s)) \<le> MAX_KEYS_PER_TENANT cfg"
    and now: "now \<le> t" and live: "t < now + 1000 * ttl_seconds ttl"
  shows "lookup_idem ops cfg t i h (store ops cfg now True enforced i h response (Some ttl) s) = Replay response \<and>
    (h' \<noteq> h \<longrightarrow> lookup_idem ops cfg t i h' (store ops cfg now True enforced i h response (Some ttl) s) = Conflict) \<and>
    (respKey j \<noteq> respKey i \<longrightarrow> lookup_idem ops cfg t j h' (store ops cfg now True enforced i h response (Some ttl) s) =
      lookup_idem ops cfg t j h' s)"
proof -
  let ?s1 = "store_write ops cfg now i h response (ttl_seconds ttl) s"
  let ?s2 = "store ops cfg now True enforced i h response (Some ttl) s"
  have same: "rd_get ops t k ?s2 = rd_get ops t k ?s1" for k
    using redis_store.enforce_within_cap [OF redis cap] by (simp add: store_def Let_def)
  have "lookup_idem ops cfg t i h'' ?s2 = (if h'' = h then Replay response else Conflict)" for h''
    by (rule redis_store.lookup_stored [OF redis _ gz plain])
      (simp add: same redis_store.store_write_get [OF redis now] live)
  moreover have "lookup_idem ops cfg t j h' ?s2 = lookup_idem ops cfg t j h' s" if "respKey j \<noteq> respKey i"
    by (rule redis_store.lookup_cong [OF redis]) (simp add: same redis_store.store_write_get [OF redis now] that)
  ultimately show ?thesis by simp
qed

text \<open>
  C40: Stored entries survive the codec. Whatever the compression setting, an entry whose response is
  plain JSON decodes to exactly the stored hash and response.
\<close>

theorem entry_roundtrip:
  assumes "\<And>t. gunzip cfg (gzip cfg t) = Some t" and "json_plain response"
  shows "decodeEntry cfg (encodeEntry cfg (entry_json requestHash response)) = Some (entry_json requestHash response)"
  using assms by (rule decode_encode)

definition plain_cfg :: idempotency_cfg where
  "plain_cfg = \<lparr>COMPRESS = True, MAX_KEYS_PER_TENANT = 2, IDEMPOTENCY_TTL_MS = 86400000,
     gzip = (\<lambda>t. t), gunzip = Some\<rparr>"

definition empty_memory :: memory where
  "empty_memory = \<lparr>strings = [], zsets = (\<lambda>_. [])\<rparr>"

definition sample_input :: idempotency_input where
  "sample_input = \<lparr>in_tenantId = ''default'', in_apiKeyId = Some ''k1'', in_key = ''order-7''\<rparr>"

theorem stored_response_is_replayed_witness:
  "lookup_idem memory_redis plain_cfg 5000 sample_input ''h''
     (store memory_redis plain_cfg 0 True True sample_input ''h'' (JObj [(''decision'', JStr ''ACCEPT'')]) (Some 60000)
       empty_memory) = Replay (JObj [(''decision'', JStr ''ACCEPT'')])"
proof -
  have "redis_store memory_redis" by unfold_locales
  moreover have "rd_zcard memory_redis 0 (tenantSetKey (in_tenantId sample_input))
      (rd_zremrangebyscore memory_redis 0 (tenantSetKey (in_tenantId sample_input)) 0 (0 - 1)
        (store_write memory_redis plain_cfg 0 sample_input ''h'' (JObj [(''decision'', JStr ''ACCEPT'')])
          (ttl_seconds 60000) empty_memory)) \<le> MAX_KEYS_PER_TENANT plain_cfg"
    by (simp add: store_write_def Let_def memory_redis_def mem_set_def mem_all_def empty_memory_def plain_cfg_def)
  ultimately show ?thesis
    using stored_response_is_replayed [of memory_redis plain_cfg "JObj [(''decision'', JStr ''ACCEPT'')]" 0 sample_input "''h''"
        60000 empty_memory 5000]
    by (simp add: plain_cfg_def ttl_seconds_def)
qed

text \<open>
  The per-key lock excludes. After one request has taken it, no other request with the same key
  takes it until the holder releases it or its TTL has passed, a release by a request that does not
  hold it changes nothing, and after the holder's release or the TTL the next request gets it.
\<close>

theorem lock_excludes:
  assumes redis: "redis_store ops" and got: "acquireLock ops t0 i a s = (True, s1)" and "a \<noteq> b" and "t0 \<le> t"
  shows "(fst (acquireLock ops t i b s1) \<longleftrightarrow> t0 + 15000 \<le> t) \<and>
    releaseLock ops t r i b s1 = s1 \<and>
    fst (acquireLock ops t i b (releaseLock ops t True i a s1))"
proof -
  have taken: "rd_get ops t (lockKey i) s1 = (if t < t0 + 15000 then Some a else None)"
    using redis_store.lock_taken [OF redis got assms(4)] by (simp add: LOCK_TTL_SECONDS_def)
  moreover have "releaseLock ops t r i b s1 = s1" using taken \<open>a \<noteq> b\<close> by (simp add: releaseLock_def)
  moreover have "fst (acquireLock ops t i b (releaseLock ops t True i a s1))"
    using taken by (simp add: redis_store.acquire_iff [OF redis] redis_store.lock_release_gets [OF redis])
  ultimately show ?thesis by (auto simp: redis_store.acquire_iff [OF redis])
qed

theorem lock_excludes_witness:
  "\<not> fst (acquireLock memory_redis 10 sample_input ''b'' (snd (acquireLock memory_redis 0 sample_input ''a'' empty_memory)))"
proof -
  have redis: "redis_store memory_redis" by unfold_locales
  have "acquireLock memory_redis 0 sample_input ''a'' empty_memory =
      (True, snd (acquireLock memory_redis 0 sample_input ''a'' empty_memory))"
    by (simp add: acquireLock_def memory_redis_def mem_get_def empty_memory_def)
  from lock_excludes [OF redis this, of "''b''" 10] show ?thesis by simp
qed

text \<open>
  The tenant's cache is bounded: after every store that reaches the server, the tenant has at
  most \<open>MAX_KEYS_PER_TENANT\<close> tracked entries, however many it had before.
\<close>

theorem tenant_cap_binds:
  assumes "redis_store ops"
  shows "rd_zcard ops now (tenantSetKey (in_tenantId i)) (store ops cfg now True True i h response ttl s)
    \<le> MAX_KEYS_PER_TENANT cfg"
  using redis_store.enforce_size [OF assms] by (simp add: store_def Let_def)

theorem tenant_cap_binds_witness:
  "rd_zcard memory_redis 0 ''ojuri:idem:tenant:default''
     (store memory_redis plain_cfg 0 True True sample_input ''h'' JNull None empty_memory) \<le> 2"
proof -
  have "redis_store memory_redis" by unfold_locales
  from tenant_cap_binds [OF this, of 0 sample_input plain_cfg "''h''" JNull None empty_memory]
  show ?thesis by (simp add: tenantSetKey_def sample_input_def plain_cfg_def)
qed

theorem entry_roundtrip_witness:
  "decodeEntry plain_cfg (encodeEntry plain_cfg (entry_json ''h'' (JArr [JNum (Fin (973 / 1000)), JNull]))) =
     Some (entry_json ''h'' (JArr [JNum (Fin (973 / 1000)), JNull]))"
proof (rule entry_roundtrip)
  have "(973 / 1000 :: real) * 10 ^ 17 = of_int 97300000000000000" by simp
  then have "(973 / 1000 :: real) * 10 ^ 17 \<in> \<int>" by (metis Ints_of_int)
  then show "json_plain (JArr [JNum (Fin (973 / 1000)), JNull])" by (simp add: short_decimal_def)
qed (simp add: plain_cfg_def)

section \<open>Waiting for the request in flight\<close>

fun decisive :: "idempotency_outcome \<Rightarrow> bool" where
  "decisive (Replay _) = True"
| "decisive Conflict = True"
| "decisive _ = False"

lemma poll_spec:
  assumes "deadline = now + LOCK_POLL_INTERVAL_MS * int n" and "n \<le> m"
  shows "poll look now deadline m =
    (case find decisive (map (\<lambda>k. look (now + LOCK_POLL_INTERVAL_MS * int k)) [1..<Suc n]) of
       Some o' \<Rightarrow> o' | None \<Rightarrow> InFlight)"
  using assms
proof (induction n arbitrary: now m)
  case 0
  then show ?case by (cases m) simp_all
next
  case (Suc n)
  then obtain m' where m: "m = Suc m'" "n \<le> m'" by (cases m) auto
  let ?t = "now + LOCK_POLL_INTERVAL_MS"
  have later: "map (\<lambda>k. look (?t + LOCK_POLL_INTERVAL_MS * int k)) [1..<Suc n] =
      map (\<lambda>k. look (now + LOCK_POLL_INTERVAL_MS * int k)) [Suc 1..<Suc (Suc n)]"
    by (rule nth_equalityI) (simp_all add: algebra_simps del: upt_Suc)
  have IH: "poll look ?t deadline m' =
      (case find decisive (map (\<lambda>k. look (?t + LOCK_POLL_INTERVAL_MS * int k)) [1..<Suc n]) of
         Some o' \<Rightarrow> o' | None \<Rightarrow> InFlight)"
    using Suc.prems(1) m(2) by (intro Suc.IH) (simp_all add: algebra_simps)
  have "now < deadline" using Suc.prems(1) by (simp add: LOCK_POLL_INTERVAL_MS_def)
  moreover have "[1..<Suc (Suc n)] = 1 # [Suc 1..<Suc (Suc n)]" by (simp add: upt_conv_Cons)
  ultimately show ?case unfolding m(1) using IH later
    by (cases "look ?t") (simp_all add: Let_def del: upt_Suc)
qed

text \<open>
  Waiting for the request in flight ends after at most 30 polls, one every 100 ms up to 3 s:
  the result is the first replay or conflict any of them sees, and \<open>in_flight\<close> exactly when none
  does.
\<close>

theorem wait_first_decisive:
  "waitForReplay ops cfg now i h seen =
     (case find decisive (map (\<lambda>k. lookup_idem ops cfg (now + 100 * int k) i h (seen (now + 100 * int k))) [1..<31]) of
        Some o' \<Rightarrow> o' | None \<Rightarrow> InFlight)"
  using poll_spec [of "now + LOCK_POLL_TIMEOUT_MS" now 30 31 "\<lambda>t. lookup_idem ops cfg t i h (seen t)"]
  by (simp add: waitForReplay_def LOCK_POLL_TIMEOUT_MS_def LOCK_POLL_INTERVAL_MS_def del: upt_Suc upt_conv_Cons)

section \<open>Key isolation\<close>

lemma append_sep_eq:
  "c \<notin> set a \<Longrightarrow> c \<notin> set b \<Longrightarrow> a @ c # x = b @ c # y \<longleftrightarrow> a = b \<and> x = y"
proof (induction a arbitrary: b)
  case Nil
  then show ?case by (cases b) auto
next
  case (Cons d a)
  then show ?case by (cases b) auto
qed

definition well_named :: "idempotency_input \<Rightarrow> bool" where
  "well_named i = (CHR '':'' \<notin> set (in_tenantId i) \<and> in_apiKeyId i \<noteq> Some ''anon'' \<and>
     (case in_apiKeyId i of Some a \<Rightarrow> CHR ''|'' \<notin> set a | None \<Rightarrow> True))"

text \<open>
  Callers are isolated. For tenants without a colon and API key ids without a bar (and other
  than \<open>anon\<close>), two cache keys are equal only for the same tenant, API key and Idempotency-Key, and
  likewise the transaction reservations, whatever the client puts into the Idempotency-Key or the
  transaction id; cache, lock, reservation and tenant-set keys never coincide.
\<close>

theorem idempotency_keys_isolated:
  assumes "well_named i" and "well_named j"
  shows "(respKey i = respKey j \<longleftrightarrow> i = j) \<and> (lockKey i = lockKey j \<longleftrightarrow> i = j) \<and>
    (txnKey (in_tenantId i) x = txnKey (in_tenantId j) y \<longleftrightarrow> in_tenantId i = in_tenantId j \<and> x = y) \<and>
    distinct [respKey i, lockKey j, txnKey a b, tenantSetKey c]"
proof -
  have parts: "i = j \<longleftrightarrow> in_tenantId i = in_tenantId j \<and> composeKey i = composeKey j"
  proof (cases i; cases j)
    fix t a k t' a' k'
    assume i: "i = \<lparr>in_tenantId = t, in_apiKeyId = a, in_key = k\<rparr>" and j: "j = \<lparr>in_tenantId = t', in_apiKeyId = a', in_key = k'\<rparr>"
    let ?id = "\<lambda>a. case a of Some a \<Rightarrow> a | None \<Rightarrow> ''anon''"
    have bar: "CHR ''|'' \<notin> set (?id a)" "CHR ''|'' \<notin> set (?id a')"
      using assms by (auto simp: well_named_def i j split: option.splits)
    have "composeKey i = composeKey j \<longleftrightarrow> ?id a = ?id a' \<and> k = k'"
      using append_sep_eq [OF bar] by (simp add: composeKey_def i j)
    moreover have "?id a = ?id a' \<longleftrightarrow> a = a'" using assms by (cases a; cases a') (auto simp: well_named_def i j)
    ultimately show "i = j \<longleftrightarrow> in_tenantId i = in_tenantId j \<and> composeKey i = composeKey j" by (auto simp: i j)
  qed
  have colon: "CHR '':'' \<notin> set (in_tenantId i)" "CHR '':'' \<notin> set (in_tenantId j)"
    using assms by (simp_all add: well_named_def)
  show ?thesis
    using append_sep_eq [OF colon] parts by (auto simp: respKey_def lockKey_def txnKey_def tenantSetKey_def)
qed

theorem idempotency_keys_isolated_witness:
  "respKey sample_input \<noteq> respKey (sample_input\<lparr>in_tenantId := ''acme''\<rparr>)"
  using idempotency_keys_isolated [of sample_input "sample_input\<lparr>in_tenantId := ''acme''\<rparr>"]
  by (simp add: well_named_def sample_input_def)

text \<open>
  A tenant label with a colon is not isolated: the reservation of a transaction id by tenant
  \<open>a:b\<close> blocks another transaction id of tenant \<open>a\<close>.
\<close>

theorem reservation_crosses_tenants:
  assumes "redis_store ops" and "fst (reserveTransactionId ops cfg now ''a:b'' ''c'' s)"
  shows "\<not> fst (reserveTransactionId ops cfg now ''a'' ''b:c'' (snd (reserveTransactionId ops cfg now ''a:b'' ''c'' s)))"
proof -
  have same: "txnKey ''a:b'' ''c'' = txnKey ''a'' ''b:c''" by (simp add: txnKey_def)
  show ?thesis using assms(2)
    by (auto simp: reserveTransactionId_def same redis_store.set_nx [OF assms(1)] redis_store.get_set [OF assms(1)]
      split: if_splits)
qed

theorem reservation_crosses_tenants_witness:
  "\<not> fst (reserveTransactionId memory_redis plain_cfg 0 ''a'' ''b:c''
     (snd (reserveTransactionId memory_redis plain_cfg 0 ''a:b'' ''c'' empty_memory)))"
proof (rule reservation_crosses_tenants)
  show "redis_store memory_redis" by unfold_locales
  show "fst (reserveTransactionId memory_redis plain_cfg 0 ''a:b'' ''c'' empty_memory)"
    by (simp add: reserveTransactionId_def memory_redis_def mem_get_def empty_memory_def)
qed

section \<open>The request hash\<close>

text \<open>Two bodies with the same content: equal up to the order of object fields, at every level.\<close>

inductive same_content :: "jval \<Rightarrow> jval \<Rightarrow> bool" where
  same_atom: "\<not> is_obj_like v \<Longrightarrow> same_content v v"
| same_array: "list_all2 same_content vs ws \<Longrightarrow> same_content (JArr vs) (JArr ws)"
| same_object: "map fst fs = map fst gs \<Longrightarrow> list_all2 same_content (map snd fs) (map snd gs) \<Longrightarrow>
    mset gs = mset hs \<Longrightarrow> same_content (JObj fs) (JObj hs)"

fun no_proto :: "jval \<Rightarrow> bool" where
  "no_proto (JArr vs) = list_all no_proto vs"
| "no_proto (JObj fs) = (''__proto__'' \<notin> fst ` set fs \<and> list_all (\<lambda>(k, v). no_proto v) fs)"
| "no_proto v = True"

lemma own_order_mset: "mset (own_order fs) = mset fs"
  by (simp add: own_order_def)

lemma sorted_own_mset: "''__proto__'' \<notin> fst ` set fs \<Longrightarrow> mset (sorted_own fs) = mset fs"
proof -
  assume "''__proto__'' \<notin> fst ` set fs"
  then have "filter (\<lambda>p. fst p \<noteq> ''__proto__'') fs = fs" unfolding filter_id_conv by force
  then show ?thesis by (simp add: sorted_own_def own_order_mset)
qed

lemma sorted_own_perm:
  assumes "mset fs = mset gs" and "distinct (map fst fs)"
  shows "sorted_own fs = sorted_own gs"
proof -
  let ?P = "\<lambda>p. fst p \<noteq> ''__proto__''"
  have "mset (filter ?P fs) = mset (filter ?P gs)" using assms(1) by simp
  then have "mset (filter ?P fs) = mset (sort_key fst (filter ?P gs))" unfolding mset_sort .
  moreover have "inj_on fst (set (filter ?P fs))"
    using assms(2) unfolding distinct_map by (auto intro: inj_on_subset)
  ultimately have "sort_key fst (filter ?P fs) = sort_key fst (filter ?P gs)"
    by (intro sort_key_inj_key_eq) simp_all
  then show ?thesis by (simp add: sorted_own_def)
qed

lemma map_mset_source:
  "image_mset f (mset gs) = mset zs \<Longrightarrow> \<exists>hs. mset hs = mset gs \<and> map f hs = zs"
proof (induction zs arbitrary: gs)
  case (Cons z zs)
  then have "z \<in> set_mset (image_mset f (mset gs))" by simp
  then obtain g where g: "g \<in> set gs" "f g = z" by auto
  define gs' where "gs' = remove1 g gs"
  have gs': "mset gs = add_mset g (mset gs')" using g(1) by (simp add: gs'_def)
  then have "image_mset f (mset gs') = mset zs" using Cons.prems g(2) by simp
  then obtain hs where "mset hs = mset gs'" "map f hs = zs" using Cons.IH by blast
  then show ?case using g(2) gs' by (intro exI [of _ "g # hs"]) simp
qed simp

lemma list_all2_mono_in:
  assumes "list_all2 P xs ys" and "\<And>x y. x \<in> set xs \<Longrightarrow> P x y \<Longrightarrow> Q x y"
  shows "list_all2 Q xs ys"
  using assms by (auto simp: list_all2_conv_all_nth)

lemma canonical_same: "same_content v w \<Longrightarrow> json_plain v \<Longrightarrow> canonical v = canonical w"
proof (induction rule: same_content.induct)
  case (same_atom v)
  then show ?case by simp
next
  case (same_array vs ws)
  have "list_all2 (\<lambda>v w. canonical v = canonical w) vs ws"
    by (rule list_all2_mono_in [OF same_array.IH]) (use same_array.prems in \<open>simp add: list_all_iff\<close>)
  then show ?case by (auto simp: list_all2_conv_all_nth intro: nth_equalityI)
next
  case (same_object fs gs hs)
  let ?c = "\<lambda>(k, v). (k, canonical v)"
  have plain: "json_plain v" if "v \<in> set (map snd fs)" for v
    using same_object.prems that by (auto simp: list_all_iff)
  have "list_all2 (\<lambda>v w. canonical v = canonical w) (map snd fs) (map snd gs)"
    by (rule list_all2_mono_in [OF same_object.IH(1)]) (use plain in blast)
  then have vals: "map canonical (map snd fs) = map canonical (map snd gs)"
    by (auto simp: list_all2_conv_all_nth intro: nth_equalityI)
  have zip: "map ?c xs = zip (map fst xs) (map canonical (map snd xs))" for xs :: "(string \<times> jval) list"
    by (induction xs) auto
  have "mset (map ?c fs) = mset (map ?c gs)" unfolding zip vals same_object.hyps(1) ..
  also have "\<dots> = mset (map ?c hs)" using same_object.hyps(2) unfolding mset_map by simp
  finally have "mset (map ?c fs) = mset (map ?c hs)" .
  moreover have "distinct (map fst (map ?c fs))"
    using same_object.prems by (simp add: comp_def case_prod_beta)
  ultimately have "sorted_own (map ?c fs) = sorted_own (map ?c hs)" by (rule sorted_own_perm)
  then show ?case by simp
qed

lemma canonical_kind:
  "canonical w = JArr vs \<Longrightarrow> \<exists>ws. w = JArr ws \<and> map canonical ws = vs"
  "canonical w = JObj fs \<Longrightarrow> \<exists>gs. w = JObj gs \<and> sorted_own (map (\<lambda>(k, v). (k, canonical v)) gs) = fs"
  "\<not> is_obj_like v \<Longrightarrow> canonical w = v \<Longrightarrow> w = v"
  by (cases w; auto)+

lemma canonical_mset:
  "''__proto__'' \<notin> fst ` set fs \<Longrightarrow>
     mset (sorted_own (map (\<lambda>(k, v). (k, canonical v)) fs)) = image_mset (\<lambda>(k, v). (k, canonical v)) (mset fs)"
  by (subst sorted_own_mset) force+

lemma same_canonical_atom:
  assumes "canonical v = canonical w" and "\<not> is_obj_like v"
  shows "same_content v w"
proof -
  have "canonical v = v" using assms(2) by (cases v) simp_all
  then have "w = v" using canonical_kind(3) [OF assms(2)] assms(1) by simp
  then show ?thesis using same_atom [OF assms(2)] by simp
qed

lemma same_canonical: "canonical v = canonical w \<Longrightarrow> no_proto v \<Longrightarrow> no_proto w \<Longrightarrow> same_content v w"
proof (induction v arbitrary: w)
  case (JArr vs)
  then obtain ws where w: "w = JArr ws" "map canonical vs = map canonical ws"
    using canonical_kind(1) [of w "map canonical vs"] by auto
  have "list_all2 same_content vs ws"
  proof (rule list_all2_all_nthI)
    show len: "length vs = length ws" using w(2) by (rule map_eq_imp_length_eq)
    fix i assume i: "i < length vs"
    have "canonical (vs ! i) = canonical (ws ! i)" using w(2) i len by (metis nth_map)
    moreover have "no_proto (vs ! i)" "no_proto (ws ! i)"
      using JArr.prems(2,3) i len unfolding w(1) by (simp_all add: list_all_length)
    ultimately show "same_content (vs ! i) (ws ! i)" using JArr.IH i by simp
  qed
  then show ?case unfolding w(1) by (rule same_array)
next
  case (JObj fs)
  let ?c = "\<lambda>(k, v). (k, canonical v)"
  obtain gs where w: "w = JObj gs" "sorted_own (map ?c gs) = sorted_own (map ?c fs)"
    using canonical_kind(2) [of w "sorted_own (map ?c fs)"] JObj.prems(1) by auto
  have "image_mset ?c (mset gs) = mset (map ?c fs)"
    using canonical_mset [of fs] canonical_mset [of gs] w JObj.prems(2,3) by simp
  then obtain hs where hs: "mset hs = mset gs" "map ?c hs = map ?c fs" using map_mset_source by blast
  have len: "length hs = length fs" using hs(2) by (metis length_map)
  have same: "?c (hs ! i) = ?c (fs ! i)" if "i < length fs" for i
  proof -
    have "map ?c hs ! i = map ?c fs ! i" using hs(2) by (rule arg_cong)
    then show ?thesis using that len by (simp only: nth_map)
  qed
  have np: "no_proto v" if "(k, v) \<in> set fs \<or> (k, v) \<in> set hs" for k v
  proof -
    have "set hs = set gs" using hs(1) by (rule mset_eq_setD)
    then show ?thesis using that JObj.prems(2,3) w(1) by (auto simp: list_all_iff)
  qed
  have "map fst fs = map fst hs"
    using same len by (intro nth_equalityI) (auto simp: case_prod_beta prod_eq_iff)
  moreover have "list_all2 same_content (map snd fs) (map snd hs)"
  proof (rule list_all2_all_nthI)
    fix i assume i: "i < length (map snd fs)"
    then have "fs ! i \<in> set fs" "hs ! i \<in> set hs" using len by simp_all
    then have "no_proto (snd (fs ! i))" "no_proto (snd (hs ! i))"
      using np [of "fst (fs ! i)" "snd (fs ! i)"] np [of "fst (hs ! i)" "snd (hs ! i)"] by simp_all
    moreover have "canonical (snd (fs ! i)) = canonical (snd (hs ! i))" using same [of i] i by (simp add: case_prod_beta)
    moreover have "snd (fs ! i) \<in> Basic_BNFs.snds (fs ! i)" by (simp add: prod_set_simps snds.simps)
    ultimately show "same_content (map snd fs ! i) (map snd hs ! i)"
      using JObj.IH [OF \<open>fs ! i \<in> set fs\<close>] i len by simp
  qed (simp add: len)
  ultimately show ?case unfolding w(1) using hs(1) by (rule same_object)
qed (erule same_canonical_atom; simp only: is_obj_like.simps not_False_eq_True)+

lemma canonical_plain: "json_plain v \<Longrightarrow> no_proto v \<Longrightarrow> json_plain (canonical v)"
proof (induction v)
  case (JArr vs)
  then show ?case by (simp add: list_all_iff)
next
  case (JObj fs)
  let ?c = "\<lambda>(k, v). (k, canonical v)"
  have m: "mset (sorted_own (map ?c fs)) = image_mset ?c (mset fs)"
    using JObj.prems(2) by (intro canonical_mset) simp
  then have "mset (map fst (sorted_own (map ?c fs))) = mset (map fst fs)"
    by (simp add: multiset.map_comp comp_def case_prod_beta)
  then have "distinct (map fst (sorted_own (map ?c fs)))"
    using JObj.prems(1) mset_eq_imp_distinct_iff by fastforce
  moreover have "set (sorted_own (map ?c fs)) = ?c ` set fs" using m by (metis set_image_mset set_mset_mset)
  moreover have "json_plain (canonical v)" if "(k, v) \<in> set fs" for k v
  proof -
    have "json_plain v" "no_proto v" using JObj.prems that by (fastforce simp: list_all_iff)+
    then show ?thesis using JObj.IH [OF that, of v] by simp
  qed
  ultimately show ?case by (auto simp: list_all_iff)
qed simp_all

text \<open>
  The request hash identifies the content of a body. With a collision-free digest, two bodies
  hash alike exactly when they have the same content, that is, when they are equal up to the order
  of the fields of their objects at every level: a retry that lists the fields in another order is
  replayed, and any changed, added or dropped value is a conflict.
\<close>

theorem hash_identifies_content:
  assumes "inj sha256" and "json_plain a" "json_plain b" and "no_proto a" "no_proto b"
  shows "hashRequest sha256 a = hashRequest sha256 b \<longleftrightarrow> same_content a b"
proof -
  have body: "(if nullish v then JNull else v) = v" if "json_plain v" for v
    using that by (cases v) (simp_all add: nullish_def)
  have "hashRequest sha256 a = hashRequest sha256 b \<longleftrightarrow> json_text (canonical a) = json_text (canonical b)"
    using assms(1) by (simp add: hashRequest_def body assms(2,3) inj_eq)
  also have "\<dots> \<longleftrightarrow> canonical a = canonical b"
    using parse_text [OF canonical_plain] assms(2-5) by (metis option.inject)
  also have "\<dots> \<longleftrightarrow> same_content a b" using canonical_same same_canonical assms(2-5) by blast
  finally show ?thesis .
qed

theorem hash_identifies_content_witness:
  "hashRequest id (JObj [(''amount'', JStr ''5''), (''to'', JArr [JNull])]) =
     hashRequest id (JObj [(''to'', JArr [JNull]), (''amount'', JStr ''5'')])"
proof -
  have "same_content (JObj [(''amount'', JStr ''5''), (''to'', JArr [JNull])])
      (JObj [(''to'', JArr [JNull]), (''amount'', JStr ''5'')])"
    by (rule same_object [where gs = "[(''amount'', JStr ''5''), (''to'', JArr [JNull])]"])
      (auto intro!: same_atom same_array)
  then show ?thesis
    by (intro iffD2 [OF hash_identifies_content]) simp_all
qed

end
