(* ===== verification/Encoders.thy ===== *)
theory Encoders
  imports JsValue
begin

text \<open>
  \<open>src/shared/features/encoders.ts\<close>: categorical codes, tolerant scalar coercions, great-circle
  distance and ages. \<open>Date.parse\<close> is an argument (its result for a string, \<open>None\<close> for \<open>NaN\<close>);
  \<open>toUpperCase\<close> maps ASCII letters. Calling a string method on another type throws.
\<close>

section \<open>Categorical codes\<close>

definition encode_with :: "(string \<times> nat) list \<Rightarrow> nat \<Rightarrow> jval \<Rightarrow> (js_error, jnum) result" where
  "encode_with table other v =
     (if \<not> truthy v then Inr (Fin 0)
      else case v of
        JStr s \<Rightarrow> Inr (Fin (real (case map_of table (to_upper s) of Some n \<Rightarrow> n | None \<Rightarrow> other)))
      | _ \<Rightarrow> Inl TypeError)"

definition TRANSACTION_TYPES :: "(string \<times> nat) list" where
  "TRANSACTION_TYPES = [(''CASH_IN'', 1), (''CASH_OUT'', 2), (''PAYMENT'', 3), (''TRANSFER'', 4),
     (''DEBIT'', 5), (''PAYOUT'', 6), (''WITHDRAWAL'', 7)]"

definition CHANNELS :: "(string \<times> nat) list" where
  "CHANNELS = [(''USSD'', 1), (''MOBILE'', 2), (''WEB'', 3), (''AGENT'', 4), (''POS'', 5), (''ATM'', 6), (''API'', 7)]"

definition CURRENCIES :: "(string \<times> nat) list" where
  "CURRENCIES = [(''NGN'', 1), (''USD'', 2), (''EUR'', 3), (''GBP'', 4), (''ZAR'', 5), (''KES'', 6), (''GHS'', 7)]"

definition ID_TYPES :: "(string \<times> nat) list" where
  "ID_TYPES = [(''BVN'', 1), (''NIN'', 2), (''PASSPORT'', 3), (''DRIVERS_LICENSE'', 4), (''NATIONAL_ID'', 5),
     (''VOTERS_CARD'', 6), (''OTHER_ID'', 7)]"

definition COUNTRY_TO_CODE :: "(string \<times> nat) list" where
  "COUNTRY_TO_CODE = [(''NG'', 1), (''GH'', 2), (''KE'', 3), (''ZA'', 4), (''EG'', 5), (''US'', 6), (''GB'', 7),
     (''DE'', 8), (''FR'', 9), (''IN'', 10), (''CN'', 11), (''AE'', 12)]"

definition DEVICE_TYPES :: "(string \<times> nat) list" where
  "DEVICE_TYPES = [(''MOBILE'', 1), (''WEB'', 2), (''USSD'', 3), (''POS'', 4), (''AGENT_TERMINAL'', 5), (''ATM'', 6)]"

definition encodeTransactionType :: "jval \<Rightarrow> (js_error, jnum) result" where
  "encodeTransactionType = encode_with TRANSACTION_TYPES 0"

definition encodeChannel :: "jval \<Rightarrow> (js_error, jnum) result" where
  "encodeChannel = encode_with CHANNELS 0"

definition encodeCurrency :: "jval \<Rightarrow> (js_error, jnum) result" where
  "encodeCurrency = encode_with CURRENCIES 0"

definition encodeIdType :: "jval \<Rightarrow> (js_error, jnum) result" where
  "encodeIdType = encode_with ID_TYPES 0"

definition encodeCountry :: "jval \<Rightarrow> (js_error, jnum) result" where
  "encodeCountry = encode_with COUNTRY_TO_CODE 255"

definition encodeDeviceType :: "jval \<Rightarrow> (js_error, jnum) result" where
  "encodeDeviceType = encode_with DEVICE_TYPES 0"

section \<open>Scalars\<close>

definition safeNumber :: "jval \<Rightarrow> jnum \<Rightarrow> jnum" where
  "safeNumber v fallback =
     (case v of
        JNum n \<Rightarrow> if is_finite_num n then n else fallback
      | JStr s \<Rightarrow> if is_finite_num (str_to_num s) then str_to_num s else fallback
      | JBool b \<Rightarrow> Fin (if b then 1 else 0)
      | _ \<Rightarrow> fallback)"

definition safeBool :: "jval \<Rightarrow> jnum" where
  "safeBool v =
     Fin (case v of
        JBool b \<Rightarrow> if b then 1 else 0
      | JNum n \<Rightarrow> if num_lt (Fin 0) n then 1 else 0
      | JStr s \<Rightarrow> if to_lower (js_trim s) \<in> {''true'', ''yes'', ''y'', ''1''} then 1 else 0
      | _ \<Rightarrow> 0)"

text \<open>\<open>Math.sqrt\<close> and \<open>Math.asin\<close> outside their domain are \<open>NaN\<close>.\<close>

fun haversineKm :: "jnum \<Rightarrow> jnum \<Rightarrow> jnum \<Rightarrow> jnum \<Rightarrow> jnum" where
  "haversineKm (Fin lat1) (Fin lng1) (Fin lat2) (Fin lng2) =
     (let toRad = (\<lambda>d. d * pi / 180);
          dLat = toRad (lat2 - lat1); dLng = toRad (lng2 - lng1);
          a = (sin (dLat / 2))\<^sup>2 + cos (toRad lat1) * cos (toRad lat2) * (sin (dLng / 2))\<^sup>2
      in if a < 0 \<or> 1 < a then NaN else Fin (2 * 6371 * arcsin (sqrt a)))"
| "haversineKm _ _ _ _ = Fin 0"

definition ageDays :: "(string \<Rightarrow> int option) \<Rightarrow> jval \<Rightarrow> int \<Rightarrow> jnum" where
  "ageDays date_parse v now =
     (if \<not> truthy v then Fin 0
      else case date_parse (js_to_string v) of
        None \<Rightarrow> Fin 0
      | Some t \<Rightarrow> Fin (of_int (max 0 ((now - t) div (1000 * 60 * 60 * 24)))))"

section \<open>Ranges\<close>

lemma safeNumber_finite: "is_finite_num fallback \<Longrightarrow> is_finite_num (safeNumber v fallback)"
  by (cases v) (simp_all add: safeNumber_def)

lemma safeBool_range: "safeBool v = Fin 0 \<or> safeBool v = Fin 1"
  by (cases v) (simp_all add: safeBool_def)

lemma finite_simps [simp]: "is_finite_num (safeBool v)" "is_finite_num (ageDays dp v now)"
  by (cases v; simp add: safeBool_def) (simp add: ageDays_def split: option.split)

lemma encode_with_range:
  assumes "encode_with table other v = Inr n" and "\<forall>(k, c) \<in> set table. c \<le> 255" and "other \<le> 255"
  shows "\<exists>c \<le> 255. n = Fin (real c)"
  using assms by (auto simp: encode_with_def split: if_splits jval.splits option.splits dest!: map_of_SomeD)

lemma haversine_arg:
  assumes "\<bar>lat1\<bar> \<le> 90" and "\<bar>lat2\<bar> \<le> 90"
  defines "r d \<equiv> d * pi / 180"
  shows "0 \<le> (sin (r (lat2 - lat1) / 2))\<^sup>2 + cos (r lat1) * cos (r lat2) * (sin (r (lng2 - lng1) / 2))\<^sup>2"
    and "(sin (r (lat2 - lat1) / 2))\<^sup>2 + cos (r lat1) * cos (r lat2) * (sin (r (lng2 - lng1) / 2))\<^sup>2 \<le> 1"
proof -
  have half: "\<bar>r d\<bar> \<le> pi / 2" if "\<bar>d\<bar> \<le> 90" for d
  proof -
    have "\<bar>r d\<bar> = \<bar>d\<bar> * (pi / 180)" by (simp add: r_def abs_mult)
    also have "\<dots> \<le> 90 * (pi / 180)" by (rule mult_right_mono [OF that]) simp
    finally show ?thesis by simp
  qed
  let ?c = "cos (r lat1) * cos (r lat2)"
  have c: "0 \<le> cos (r lat1)" "0 \<le> cos (r lat2)"
    using half [OF assms(1)] half [OF assms(2)] by (auto intro!: cos_ge_zero simp: abs_le_iff)
  then have pos: "0 \<le> ?c" by simp
  then show "0 \<le> (sin (r (lat2 - lat1) / 2))\<^sup>2 + ?c * (sin (r (lng2 - lng1) / 2))\<^sup>2" by simp
  have diff: "r (lat2 - lat1) = r lat2 - r lat1" by (simp add: r_def left_diff_distrib diff_divide_distrib)
  have "2 * (sin (r (lat2 - lat1) / 2))\<^sup>2 = 1 - cos (r lat2 - r lat1)"
    using cos_double_sin [of "(r lat2 - r lat1) / 2"] unfolding diff by (simp only: mult_2 field_sum_of_halves)
  moreover have "cos (r lat2 - r lat1) = ?c + sin (r lat1) * sin (r lat2)" by (simp add: cos_diff)
  moreover have "cos (r lat2 + r lat1) = ?c - sin (r lat1) * sin (r lat2)" by (simp add: cos_add)
  moreover have "cos (r lat2 + r lat1) \<le> 1" by simp
  ultimately have "(sin (r (lat2 - lat1) / 2))\<^sup>2 + ?c \<le> 1" by linarith
  moreover have "?c * (sin (r (lng2 - lng1) / 2))\<^sup>2 \<le> ?c * 1"
    by (rule mult_left_mono [OF _ pos]) (simp add: abs_square_le_1)
  ultimately show "(sin (r (lat2 - lat1) / 2))\<^sup>2 + ?c * (sin (r (lng2 - lng1) / 2))\<^sup>2 \<le> 1" by simp
qed

text \<open>Between valid latitudes the distance is at most half the circumference of the sphere.\<close>

lemma haversine_range:
  assumes "\<bar>lat1\<bar> \<le> 90" and "\<bar>lat2\<bar> \<le> 90"
  shows "\<exists>d. haversineKm (Fin lat1) (Fin lng1) (Fin lat2) (Fin lng2) = Fin d \<and> 0 \<le> d \<and> d \<le> 6371 * pi"
proof -
  let ?a = "(sin ((lat2 - lat1) * pi / 180 / 2))\<^sup>2 +
    cos (lat1 * pi / 180) * cos (lat2 * pi / 180) * (sin ((lng2 - lng1) * pi / 180 / 2))\<^sup>2"
  have a: "0 \<le> ?a" "?a \<le> 1" using haversine_arg [OF assms, of lng2 lng1] by simp_all
  have arc: "0 \<le> arcsin (sqrt x) \<and> arcsin (sqrt x) \<le> pi / 2" if "0 \<le> x" "x \<le> 1" for x
  proof -
    have s: "0 \<le> sqrt x" "sqrt x \<le> 1" using that by simp_all
    then have "- 1 \<le> sqrt x" by linarith
    then have "arcsin (sqrt x) \<le> pi / 2" using arcsin_bounded s(2) by blast
    moreover have "0 \<le> arcsin (sqrt x)" using arcsin_le_arcsin [of 0 "sqrt x"] s by simp
    ultimately show ?thesis by simp
  qed
  from a arc [OF a] show ?thesis by (simp add: Let_def)
qed

end
