(* ===== verification/FeatureBuilder.thy ===== *)
theory FeatureBuilder
  imports Encoders Json
begin

text \<open>
  \<open>src/shared/features/feature-builder.ts\<close>, \<open>compute-op-executor.ts\<close>, \<open>lookup-table.ts\<close> and
  \<open>custom-features.ts\<close>: the model's input vector from a request and the Redis snapshot. Lookup
  files, registered custom resolvers, \<open>Date.parse\<close> and the rounding of a \<open>Float32Array\<close> slot are
  arguments. The one-time warnings about custom resolvers are not modelled.
\<close>

section \<open>Catalogue entries\<close>

datatype feature_source = SrcRequest | SrcDerived | SrcRedis | SrcConfig

datatype feature_dtype = Float32 | Uint8 | BoolType

datatype feature_default = DefNum real | DefBool bool

datatype compute_op =
    FromField string
  | EqualsOp string jval
  | NotEquals string jval
  | IsOneOf string "jval list"
  | Ratio string string "real option"
  | Lookup string string jval
  | NumericBucket string "real list"
  | BoolAnd "string list"
  | BoolOr "string list"
  | FromRedis string
  | Custom string

record feature_spec =
  fs_index :: nat
  fs_name :: string
  fs_source :: feature_source
  fs_dtype :: feature_dtype
  fs_default :: feature_default
  fs_description :: string
  fs_compute :: "compute_op option"

type_synonym fields = "(string \<times> jval) list"

record compute_context =
  cc_request :: fields
  cc_redis :: fields
  cc_prior :: "(string, jnum) omap"

text \<open>Files by name; resolvers by name, which may throw; \<open>Date.parse\<close>; rounding to 32 bits.\<close>

record feature_env =
  fe_file :: "string \<Rightarrow> string option"
  fe_custom :: "string \<Rightarrow> (compute_context \<Rightarrow> feature_spec \<Rightarrow> (js_error, jnum) result) option"
  fe_date_parse :: "string \<Rightarrow> int option"
  fe_f32 :: "jnum \<Rightarrow> jnum"

definition numericDefault :: "feature_spec \<Rightarrow> jnum" where
  "numericDefault spec = Fin (case fs_default spec of DefBool b \<Rightarrow> if b then 1 else 0 | DefNum r \<Rightarrow> r)"

section \<open>Lookup tables\<close>

definition loadLookupTable :: "feature_env \<Rightarrow> string \<Rightarrow> fields option" where
  "loadLookupTable env name =
     (case fe_file env name of
        None \<Rightarrow> None
      | Some t \<Rightarrow> (case json_parse t of Some (JObj fs) \<Rightarrow> Some fs | _ \<Rightarrow> None))"

definition lookupValue :: "feature_env \<Rightarrow> string \<Rightarrow> jval \<Rightarrow> jnum \<Rightarrow> jnum" where
  "lookupValue env tableName key fallback =
     (if nullish key then fallback
      else case loadLookupTable env tableName of
        None \<Rightarrow> fallback
      | Some table \<Rightarrow>
          (case field table (js_to_string key) of
             JNum n \<Rightarrow> if is_finite_num n then n else fallback
           | JStr s \<Rightarrow> if is_finite_num (str_to_num s) then str_to_num s else fallback
           | _ \<Rightarrow> fallback))"

section \<open>The compute algebra\<close>

definition coerceToFeatureValue :: "jval \<Rightarrow> feature_spec \<Rightarrow> jnum" where
  "coerceToFeatureValue raw spec =
     (if nullish raw then numericDefault spec
      else if fs_dtype spec = BoolType then safeBool raw
      else safeNumber raw (numericDefault spec))"

definition flag :: "bool \<Rightarrow> jnum" where
  "flag b = Fin (if b then 1 else 0)"

text \<open>\<open>Array.prototype.includes\<close> compares with SameValueZero.\<close>

definition same_value_zero :: "jval \<Rightarrow> jval \<Rightarrow> bool" where
  "same_value_zero a b = (strict_eq a b \<or> (a = JNum NaN \<and> b = JNum NaN))"

fun bucket :: "jnum \<Rightarrow> real list \<Rightarrow> nat \<Rightarrow> nat" where
  "bucket v [] i = i"
| "bucket v (b # bs) i = (if num_le v (Fin b) then i else bucket v bs (Suc i))"

text \<open>Quotient of two finite numbers: \<open>0 / 0\<close> is \<open>NaN\<close>, \<open>x / 0\<close> an infinity.\<close>

fun num_div :: "jnum \<Rightarrow> jnum \<Rightarrow> jnum" where
  "num_div (Fin a) (Fin b) =
     (if b \<noteq> 0 then Fin (a / b) else if a = 0 then NaN else if 0 < a then PInf else NInf)"
| "num_div _ _ = NaN"

fun executeComputeOp :: "feature_env \<Rightarrow> feature_spec \<Rightarrow> compute_op \<Rightarrow> compute_context \<Rightarrow> jnum" where
  "executeComputeOp env spec (FromField f) ctx = coerceToFeatureValue (field (cc_request ctx) f) spec"
| "executeComputeOp env spec (EqualsOp f v) ctx = flag (strict_eq (field (cc_request ctx) f) v)"
| "executeComputeOp env spec (NotEquals f v) ctx = flag (\<not> strict_eq (field (cc_request ctx) f) v)"
| "executeComputeOp env spec (IsOneOf f vs) ctx =
     flag (list_ex (\<lambda>v. same_value_zero v (field (cc_request ctx) f)) vs)"
| "executeComputeOp env spec (Ratio num den min_denominator) ctx =
     (let n = safeNumber (field (cc_request ctx) num) (Fin 0);
          d = safeNumber (field (cc_request ctx) den) (Fin 0)
      in if num_le d (Fin (case min_denominator of Some m \<Rightarrow> m | None \<Rightarrow> 0)) then numericDefault spec
         else num_div n d)"
| "executeComputeOp env spec (Lookup f table dflt) ctx =
     lookupValue env table (field (cc_request ctx) f) (case dflt of JNum n \<Rightarrow> n | _ \<Rightarrow> numericDefault spec)"
| "executeComputeOp env spec (NumericBucket f boundaries) ctx =
     Fin (real (bucket (safeNumber (field (cc_request ctx) f) (Fin 0)) boundaries 0))"
| "executeComputeOp env spec (BoolAnd refs) ctx =
     flag (list_all (\<lambda>r. num_lt (Fin 0) (case om_get (cc_prior ctx) r of Some v \<Rightarrow> v | None \<Rightarrow> Fin 0)) refs)"
| "executeComputeOp env spec (BoolOr refs) ctx =
     flag (list_ex (\<lambda>r. num_lt (Fin 0) (case om_get (cc_prior ctx) r of Some v \<Rightarrow> v | None \<Rightarrow> Fin 0)) refs)"
| "executeComputeOp env spec (FromRedis k) ctx = coerceToFeatureValue (field (cc_redis ctx) k) spec"
| "executeComputeOp env spec (Custom resolver) ctx =
     (case fe_custom env resolver of
        None \<Rightarrow> numericDefault spec
      | Some fn \<Rightarrow>
          (case fn ctx spec of
             Inl _ \<Rightarrow> numericDefault spec
           | Inr v \<Rightarrow> if is_finite_num v then v else numericDefault spec))"

section \<open>Base features\<close>

definition coalesce :: "jval \<Rightarrow> string \<Rightarrow> jval" where
  "coalesce v d = (if nullish v then JStr d else v)"

text \<open>\<open>String(v ?? d).toUpperCase()\<close>\<close>

definition upper_or :: "jval \<Rightarrow> string \<Rightarrow> string" where
  "upper_or v d = to_upper (js_to_string (coalesce v d))"

definition resolveRequestField :: "feature_spec \<Rightarrow> fields \<Rightarrow> jnum" where
  "resolveRequestField spec request =
     (let name = fs_name spec; get = field request in
      if name = ''amount'' then safeNumber (get ''amount'') (numericDefault spec)
      else if name = ''is_inflow'' then
        (if get ''is_inflow'' \<noteq> JUndef then safeBool (get ''is_inflow'')
         else flag (to_upper (js_to_string (get ''transaction_type'')) = ''CASH_IN''))
      else if name = ''is_recurring'' then safeBool (get ''is_recurring'')
      else if name = ''customer_is_corporate'' then flag (upper_or (get ''customer_type'') '''' = ''CORPORATE'')
      else if name = ''is_authenticated'' then safeBool (get ''is_authenticated'')
      else if name = ''ip_is_vpn'' then safeBool (get ''ip_is_vpn'')
      else if name = ''device_is_trusted'' then safeBool (get ''device_is_trusted'')
      else if name = ''session_to_txn_seconds'' then safeNumber (get ''session_to_txn_seconds'') (numericDefault spec)
      else safeNumber (get name) (numericDefault spec))"

text \<open>
  \<open>eventDate\<close>: the time value of \<open>new Date(n)\<close>, truncated to whole milliseconds, or \<open>None\<close> for an
  invalid date, on which every calendar getter is \<open>NaN\<close>.
\<close>

definition eventDate :: "fields \<Rightarrow> int \<Rightarrow> int option" where
  "eventDate request now =
     (case safeNumber (field request ''timestamp'') (Fin (of_int now)) of
        Fin r \<Rightarrow> if \<bar>r\<bar> \<le> 8640000000000000 then Some (if 0 \<le> r then \<lfloor>r\<rfloor> else \<lceil>r\<rceil>) else None
      | _ \<Rightarrow> None)"

definition utc_day :: "int \<Rightarrow> int" where
  "utc_day ms = (ms div 86400000 + 4) mod 7"

text \<open>The day of the month in the proleptic Gregorian calendar, from the days since 1970-01-01.\<close>

definition utc_date :: "int \<Rightarrow> int" where
  "utc_date ms =
     (let z = ms div 86400000 + 719468;
          doe = z mod 146097;
          yoe = (doe - doe div 1460 + doe div 36524 - doe div 146096) div 365;
          doy = doe - (365 * yoe + yoe div 4 - yoe div 100);
          mp = (5 * doy + 2) div 153
      in doy - (153 * mp + 2) div 5 + 1)"

text \<open>A calendar getter and a flag computed from it.\<close>

definition on_date :: "int option \<Rightarrow> (int \<Rightarrow> int) \<Rightarrow> jnum" where
  "on_date d g = (case d of Some ms \<Rightarrow> Fin (of_int (g ms)) | None \<Rightarrow> NaN)"

definition date_flag :: "int option \<Rightarrow> (int \<Rightarrow> bool) \<Rightarrow> jnum" where
  "date_flag d P = flag (case d of Some ms \<Rightarrow> P ms | None \<Rightarrow> False)"

text \<open>Arithmetic on finite numbers (the arguments are results of \<open>safeNumber\<close>).\<close>

fun num_sub :: "jnum \<Rightarrow> jnum \<Rightarrow> jnum" where
  "num_sub (Fin a) (Fin b) = Fin (a - b)"
| "num_sub _ _ = NaN"

text \<open>\<open>a && b && a !== b\<close> on two strings.\<close>

definition differ :: "string \<Rightarrow> string \<Rightarrow> jnum" where
  "differ a b = flag (a \<noteq> [] \<and> b \<noteq> [] \<and> a \<noteq> b)"

definition agree :: "string \<Rightarrow> string \<Rightarrow> jnum" where
  "agree a b = flag (a \<noteq> [] \<and> b \<noteq> [] \<and> a = b)"

definition resolveDerived ::
  "feature_env \<Rightarrow> feature_spec \<Rightarrow> fields \<Rightarrow> fields \<Rightarrow> int \<Rightarrow> (js_error, jnum) result" where
  "resolveDerived env spec request redis now =
     (let name = fs_name spec; get = field request; num = (\<lambda>k d. safeNumber (field request k) d);
          rnum = (\<lambda>k. safeNumber (field redis k) (Fin 0)); date = eventDate request now
      in
      if name = ''pair_amount_ratio_to_pair_mean'' then
        (let amount = num ''amount'' (Fin 0); mean = rnum ''pair_amount_mean_30d''
         in Inr (if num_lt (Fin 0) mean then num_div amount mean else Fin 1))
      else if name = ''amount_zscore_vs_sender'' then
        (let amount = num ''amount'' (Fin 0); mean = rnum ''amount_mean_30d''; std = rnum ''amount_std_30d''
         in Inr (if num_lt (Fin 0) std then num_div (num_sub amount mean) std else Fin 0))
      else if name = ''transaction_type_code'' then encodeTransactionType (get ''transaction_type'')
      else if name = ''channel_code'' then encodeChannel (get ''channel'')
      else if name = ''is_cross_border'' then
        (let home = upper_or (get ''customer_nationality'') '''';
             txn = upper_or (get ''transaction_country'') home
         in Inr (differ home txn))
      else if name = ''currency_code'' then encodeCurrency (get ''currency'')
      else if name = ''customer_age_days'' then Inr (ageDays (fe_date_parse env) (get ''customer_dob'') now)
      else if name = ''account_age_days'' then Inr (num ''account_age_days'' (numericDefault spec))
      else if name = ''has_kyc_id'' then
        Inr (flag (truthy (get ''customer_id_type'') \<and> truthy (get ''customer_id_number'')))
      else if name = ''id_type_code'' then encodeIdType (get ''customer_id_type'')
      else if name = ''recipient_has_kyc_id'' then
        Inr (flag (truthy (get ''recipient_id_type'') \<and> truthy (get ''recipient_id_number'')))
      else if name = ''recipient_same_fi'' then
        Inr (agree (js_to_string (coalesce (get ''customer_fi'') '''')) (js_to_string (coalesce (get ''recipient_fi'') '''')))
      else if name = ''recipient_nationality_match'' then
        (let a = upper_or (get ''customer_nationality'') ''''
         in Inr (agree a (upper_or (get ''recipient_nationality'') a)))
      else if name = ''recipient_age_days'' then Inr (ageDays (fe_date_parse env) (get ''recipient_dob'') now)
      else if name = ''customer_to_txn_distance_km'' then
        Inr (haversineKm (num ''customer_latitude'' NaN) (num ''customer_longitude'' NaN)
               (num ''transaction_lat'' NaN) (num ''transaction_lng'' NaN))
      else if name = ''customer_to_agent_distance_km'' then
        Inr (haversineKm (num ''customer_latitude'' NaN) (num ''customer_longitude'' NaN)
               (num ''agent_latitude'' NaN) (num ''agent_longitude'' NaN))
      else if name = ''ip_country_mismatch'' then
        (let home = upper_or (get ''customer_nationality'') ''''
         in Inr (differ home (upper_or (get ''ip_country'') home)))
      else if name = ''txn_country_risk_band'' then
        Inr (lookupValue env ''country_risk.json'' (get ''transaction_country'') (numericDefault spec))
      else if name = ''is_cross_border_dest'' then
        (let txn = upper_or (get ''transaction_country'') ''''
         in Inr (differ txn (upper_or (get ''destination_country'') txn)))
      else if name = ''sender_country_code'' then encodeCountry (get ''customer_nationality'')
      else if name = ''device_type_code'' then encodeDeviceType (get ''device_type'')
      else if name = ''is_agent_assisted'' then Inr (flag (truthy (get ''agent_id'')))
      else if name = ''agent_battery_low'' then
        (let level = num ''agent_battery_level'' (Fin 100)
         in Inr (flag (num_lt (Fin 0) level \<and> num_lt level (Fin 20))))
      else if name = ''hour_of_day'' then Inr (on_date date utc_hour)
      else if name = ''day_of_week'' then Inr (on_date date utc_day)
      else if name = ''is_weekend'' then Inr (date_flag date (\<lambda>ms. utc_day ms = 0 \<or> utc_day ms = 6))
      else if name = ''is_payday_window'' then
        Inr (date_flag date (\<lambda>ms. (23 \<le> utc_date ms \<and> utc_date ms \<le> 27) \<or> 28 \<le> utc_date ms))
      else if name = ''is_off_hours'' then Inr (date_flag date (\<lambda>ms. utc_hour ms \<le> 5 \<or> utc_hour ms = 23))
      else Inr (numericDefault spec))"

definition resolveBaseFeature ::
  "feature_env \<Rightarrow> feature_spec \<Rightarrow> fields \<Rightarrow> fields \<Rightarrow> int \<Rightarrow> (js_error, jnum) result" where
  "resolveBaseFeature env spec request redis now =
     (case fs_source spec of
        SrcRedis \<Rightarrow>
          (let raw = field redis (fs_name spec)
           in Inr (if nullish raw \<or> raw = JStr [] then numericDefault spec
                   else if fs_dtype spec = BoolType then safeBool raw
                   else safeNumber raw (numericDefault spec)))
      | SrcRequest \<Rightarrow> Inr (resolveRequestField spec request)
      | SrcDerived \<Rightarrow> resolveDerived env spec request redis now
      | SrcConfig \<Rightarrow> Inr (numericDefault spec))"

section \<open>The vector\<close>

text \<open>
  A store to a \<open>Float32Array\<close> slot rounds to 32 bits and is dropped past the end; the snapshot and
  the prior features are keyed by name.
\<close>

record feature_build =
  fb_vector :: "jnum list"
  fb_snapshot :: "(string, jnum) omap"

definition feature_value ::
  "feature_env \<Rightarrow> feature_spec \<Rightarrow> fields \<Rightarrow> fields \<Rightarrow> (string, jnum) omap \<Rightarrow> int \<Rightarrow> (js_error, jnum) result" where
  "feature_value env spec request redis prior now =
     (case fs_compute spec of
        Some op \<Rightarrow> Inr (executeComputeOp env spec op \<lparr>cc_request = request, cc_redis = redis, cc_prior = prior\<rparr>)
      | None \<Rightarrow> resolveBaseFeature env spec request redis now)"

fun build_loop ::
  "feature_env \<Rightarrow> fields \<Rightarrow> fields \<Rightarrow> int \<Rightarrow> feature_spec list \<Rightarrow> feature_build \<Rightarrow> (js_error, feature_build) result" where
  "build_loop env request redis now [] b = Inr b"
| "build_loop env request redis now (spec # specs) b =
     bind_r (feature_value env spec request redis (fb_snapshot b) now) (\<lambda>v.
       build_loop env request redis now specs
         \<lparr>fb_vector = (fb_vector b)[fs_index spec := fe_f32 env v],
          fb_snapshot = om_set (fs_name spec) v (fb_snapshot b)\<rparr>)"

record resolved_catalog =
  rc_baseVersion :: string
  rc_schemaVersion :: string
  rc_inputDimension :: nat
  rc_features :: "feature_spec list"
  rc_byIndex :: "(nat, feature_spec) omap"
  rc_byName :: "(string, feature_spec) omap"
  rc_adopterSha256 :: "string option"

definition buildFeatures ::
  "feature_env \<Rightarrow> resolved_catalog \<Rightarrow> fields \<Rightarrow> fields \<Rightarrow> int \<Rightarrow> (js_error, feature_build) result" where
  "buildFeatures env catalog request redis now =
     build_loop env request redis now (rc_features catalog)
       \<lparr>fb_vector = replicate (rc_inputDimension catalog) (Fin 0), fb_snapshot = []\<rparr>"

section \<open>Every feature is finite\<close>

lemma numericDefault_finite [simp]: "is_finite_num (numericDefault spec)"
  by (simp add: numericDefault_def)

lemma flag_finite [simp]: "is_finite_num (flag b)" "is_finite_num (differ x y)" "is_finite_num (agree x y)"
    "is_finite_num (date_flag d P)"
  by (simp_all add: flag_def differ_def agree_def date_flag_def)

lemma safeNumber_default_finite [simp]:
  "is_finite_num (safeNumber v (Fin r))" "is_finite_num (safeNumber v (numericDefault spec))"
  by (simp_all add: safeNumber_finite)

lemma lookup_finite [simp]: "is_finite_num d \<Longrightarrow> is_finite_num (lookupValue env t k d)"
  by (auto simp: lookupValue_def split: option.split jval.split)

lemma num_div_finite: "is_finite_num a \<Longrightarrow> is_finite_num b \<Longrightarrow> num_lt (Fin 0) b \<Longrightarrow> is_finite_num (num_div a b)"
  by (cases a; cases b) simp_all

lemma num_sub_finite: "is_finite_num a \<Longrightarrow> is_finite_num b \<Longrightarrow> is_finite_num (num_sub a b)"
  by (cases a; cases b) simp_all

lemma encode_with_ok:
  "\<not> truthy v \<or> (\<exists>s. v = JStr s) \<Longrightarrow> \<exists>n. encode_with table d v = Inr n \<and> is_finite_num n"
  by (auto simp: encode_with_def)

definition categorical :: "jval \<Rightarrow> bool" where
  "categorical v = (\<not> truthy v \<or> (case v of JStr _ \<Rightarrow> True | _ \<Rightarrow> False))"

lemma categorical_encodes:
  assumes "categorical v"
  shows "\<exists>n. encode_with table d v = Inr n \<and> is_finite_num n"
  using assms by (intro encode_with_ok) (auto simp: categorical_def split: jval.splits)

text \<open>A request whose coded fields are strings, whose date is valid and whose latitudes are latitudes.\<close>

definition latitude_ok :: "jval \<Rightarrow> bool" where
  "latitude_ok v = (case safeNumber v NaN of Fin r \<Rightarrow> \<bar>r\<bar> \<le> 90 | _ \<Rightarrow> True)"

definition request_ok :: "fields \<Rightarrow> int \<Rightarrow> bool" where
  "request_ok request now =
     (list_all (\<lambda>k. categorical (field request k))
        [''transaction_type'', ''channel'', ''currency'', ''customer_id_type'', ''customer_nationality'', ''device_type'']
      \<and> list_all (\<lambda>k. latitude_ok (field request k)) [''customer_latitude'', ''transaction_lat'', ''agent_latitude'']
      \<and> eventDate request now \<noteq> None)"

text \<open>Constants of the compute block that are in range.\<close>

definition compute_ok :: "feature_spec \<Rightarrow> bool" where
  "compute_ok spec = (case fs_compute spec of
     Some (Ratio _ _ (Some m)) \<Rightarrow> 0 \<le> m
   | Some (Lookup _ _ (JNum n)) \<Rightarrow> is_finite_num n
   | _ \<Rightarrow> True)"

lemma haversine_finite:
  assumes "latitude_ok v" and "latitude_ok w"
  shows "is_finite_num (haversineKm (safeNumber v NaN) x (safeNumber w NaN) y)"
proof (cases "safeNumber v NaN")
  case v: (Fin a)
  show ?thesis
  proof (cases "safeNumber w NaN")
    case w: (Fin b)
    have ab: "\<bar>a\<bar> \<le> 90" "\<bar>b\<bar> \<le> 90" using assms v w by (simp_all add: latitude_ok_def)
    show ?thesis
    proof (cases x)
      case x: (Fin p)
      show ?thesis
      proof (cases y)
        case (Fin q)
        then show ?thesis using haversine_range [OF ab, of p q] by (auto simp: v w x)
      qed (simp_all add: v w x)
    qed (simp_all add: v w)
  qed (simp_all add: v)
qed simp_all

lemma on_date_finite: "d \<noteq> None \<Longrightarrow> is_finite_num (on_date d g)"
  by (auto simp: on_date_def)

lemma resolveRequestField_finite: "is_finite_num (resolveRequestField spec request)"
  unfolding resolveRequestField_def Let_def by simp

lemma resolveDerived_finite:
  assumes "request_ok request now"
  shows "\<exists>v. resolveDerived env spec request redis now = Inr v \<and> is_finite_num v"
proof -
  show ?thesis
    unfolding resolveDerived_def Let_def encodeTransactionType_def encodeChannel_def encodeCurrency_def
      encodeIdType_def encodeCountry_def encodeDeviceType_def
    using assms unfolding request_ok_def
    by (simp add: categorical_encodes haversine_finite on_date_finite num_div_finite num_sub_finite)
qed

lemma executeComputeOp_finite:
  assumes "fs_compute spec = Some op" and "compute_ok spec"
  shows "is_finite_num (executeComputeOp env spec op ctx)"
proof (cases op)
  case (Ratio n d m)
  then show ?thesis
  proof (cases "safeNumber (field (cc_request ctx) d) (Fin 0)")
    case (Fin r)
    have "0 \<le> (case m of Some x \<Rightarrow> x | None \<Rightarrow> 0)"
      using assms Ratio by (auto simp: compute_ok_def split: option.split)
    then show ?thesis
      using Ratio Fin by (auto simp: Let_def intro!: num_div_finite split: option.splits)
  qed (use safeNumber_default_finite(1) [of "field (cc_request ctx) d" 0] in simp_all)
qed (use assms in \<open>auto simp: compute_ok_def coerceToFeatureValue_def split: option.split sum.split jval.split\<close>)

lemma feature_value_finite:
  assumes "request_ok request now" and "compute_ok spec"
  shows "\<exists>v. feature_value env spec request redis prior now = Inr v \<and> is_finite_num v"
  using resolveDerived_finite [OF assms(1)] executeComputeOp_finite [OF _ assms(2)]
  by (auto simp: feature_value_def resolveBaseFeature_def Let_def resolveRequestField_finite
      split: option.split feature_source.split)

section \<open>The layout of the vector\<close>

lemma build_loop_append:
  "build_loop env request redis now (xs @ ys) b =
     bind_r (build_loop env request redis now xs b) (build_loop env request redis now ys)"
proof (induction xs arbitrary: b)
  case (Cons s xs)
  then show ?case by (cases "feature_value env s request redis (fb_snapshot b) now") simp_all
qed simp

lemma build_loop_frame:
  assumes "build_loop env request redis now specs b = Inr b'"
  shows "length (fb_vector b') = length (fb_vector b)"
    and "k \<notin> fs_name ` set specs \<Longrightarrow> om_get (fb_snapshot b') k = om_get (fb_snapshot b) k"
    and "i \<notin> fs_index ` set specs \<Longrightarrow> fb_vector b' ! i = fb_vector b ! i"
proof -
  have "length (fb_vector b') = length (fb_vector b)
      \<and> (\<forall>k. k \<notin> fs_name ` set specs \<longrightarrow> om_get (fb_snapshot b') k = om_get (fb_snapshot b) k)
      \<and> (\<forall>i. i \<notin> fs_index ` set specs \<longrightarrow> fb_vector b' ! i = fb_vector b ! i)"
    using assms
  proof (induction specs arbitrary: b)
    case (Cons s specs)
    then show ?case
      by (cases "feature_value env s request redis (fb_snapshot b) now") fastforce+
  qed simp
  then show "length (fb_vector b') = length (fb_vector b)"
    and "k \<notin> fs_name ` set specs \<Longrightarrow> om_get (fb_snapshot b') k = om_get (fb_snapshot b) k"
    and "i \<notin> fs_index ` set specs \<Longrightarrow> fb_vector b' ! i = fb_vector b ! i" by simp_all
qed

text \<open>A feature at its place: computed from the features before it, stored under its name and at its index.\<close>

lemma build_loop_at:
  assumes "build_loop env request redis now (xs @ s # ys) b = Inr b'"
    and "distinct (map fs_name (xs @ s # ys))" and "distinct (map fs_index (xs @ s # ys))"
    and "fs_index s < length (fb_vector b)"
  obtains m v where "build_loop env request redis now xs b = Inr m"
    and "feature_value env s request redis (fb_snapshot m) now = Inr v"
    and "om_get (fb_snapshot b') (fs_name s) = Some v" and "fb_vector b' ! fs_index s = fe_f32 env v"
    and "\<forall>t \<in> set xs. om_get (fb_snapshot b') (fs_name t) = om_get (fb_snapshot m) (fs_name t)"
proof -
  from assms(1) obtain m where m: "build_loop env request redis now xs b = Inr m"
    and r: "build_loop env request redis now (s # ys) m = Inr b'"
    by (auto simp: build_loop_append bind_r_eq_Inr)
  from r obtain v where v: "feature_value env s request redis (fb_snapshot m) now = Inr v"
    and l: "build_loop env request redis now ys
      \<lparr>fb_vector = (fb_vector m)[fs_index s := fe_f32 env v], fb_snapshot = om_set (fs_name s) v (fb_snapshot m)\<rparr> = Inr b'"
    by (auto simp: bind_r_eq_Inr)
  have "fs_name s \<notin> fs_name ` set ys" "fs_index s \<notin> fs_index ` set ys" using assms(2,3) by auto
  with build_loop_frame [OF l] build_loop_frame(1) [OF m] assms(4)
  have "om_get (fb_snapshot b') (fs_name s) = Some v" "fb_vector b' ! fs_index s = fe_f32 env v" by simp_all
  moreover have "om_get (fb_snapshot b') (fs_name t) = om_get (fb_snapshot m) (fs_name t)" if "t \<in> set xs" for t
  proof -
    have "fs_name t \<in> set (map fs_name xs)" using that by simp
    moreover have "set (map fs_name xs) \<inter> set (fs_name s # map fs_name ys) = {}" using assms(2) by simp
    ultimately have "fs_name t \<notin> fs_name ` set ys" "fs_name t \<noteq> fs_name s" by auto
    then show ?thesis using build_loop_frame(2) [OF l] by simp
  qed
  ultimately show thesis using that m v by blast
qed

lemma build_loop_ok:
  assumes "request_ok request now" and "\<forall>s \<in> set specs. compute_ok s"
  shows "\<exists>b'. build_loop env request redis now specs b = Inr b'"
  using assms(2)
proof (induction specs arbitrary: b)
  case (Cons s specs)
  have "compute_ok s" using Cons.prems by simp
  from feature_value_finite [OF assms(1) this, of env redis "fb_snapshot b"] Cons show ?case by auto
qed simp

lemma build_loop_keys:
  assumes "build_loop env request redis now specs b = Inr b'"
    and "distinct (om_keys (fb_snapshot b) @ map fs_name specs)"
  shows "om_keys (fb_snapshot b') = om_keys (fb_snapshot b) @ map fs_name specs"
  using assms
proof (induction specs arbitrary: b)
  case (Cons s specs)
  from Cons.prems(1) obtain v where l:
    "build_loop env request redis now specs
      \<lparr>fb_vector = (fb_vector b)[fs_index s := fe_f32 env v], fb_snapshot = om_set (fs_name s) v (fb_snapshot b)\<rparr> = Inr b'"
    unfolding build_loop.simps bind_r_eq_Inr by blast
  from Cons.IH [OF l]
  have "distinct ((om_keys (fb_snapshot b) @ [fs_name s]) @ map fs_name specs) \<Longrightarrow>
      om_keys (fb_snapshot b') = (om_keys (fb_snapshot b) @ [fs_name s]) @ map fs_name specs"
    using Cons.prems(2) by (simp add: om_keys_set)
  then show ?case using Cons.prems(2) by simp
qed simp

definition well_indexed :: "resolved_catalog \<Rightarrow> bool" where
  "well_indexed c = (distinct (map fs_name (rc_features c))
     \<and> distinct (map fs_index (rc_features c))
     \<and> list_all (\<lambda>s. fs_index s < rc_inputDimension c) (rc_features c))"

lemma well_indexed_simps:
  assumes "well_indexed c"
  shows "distinct (map fs_name (rc_features c))" and "distinct (map fs_index (rc_features c))"
    and "s \<in> set (rc_features c) \<Longrightarrow> fs_index s < rc_inputDimension c"
  using assms by (auto simp: well_indexed_def list_all_iff)


text \<open>A concrete catalogue: an amount, a ratio that reads it and two flags that compose.\<close>

definition sample_env :: feature_env where
  "sample_env = \<lparr>fe_file = (\<lambda>_. None), fe_custom = (\<lambda>_. None), fe_date_parse = (\<lambda>_. None), fe_f32 = id\<rparr>"

definition sample_spec :: "nat \<Rightarrow> string \<Rightarrow> compute_op option \<Rightarrow> feature_spec" where
  "sample_spec i n op = \<lparr>fs_index = i, fs_name = n, fs_source = SrcRequest, fs_dtype = Float32,
     fs_default = DefNum 0, fs_description = [], fs_compute = op\<rparr>"

definition sample_catalog :: resolved_catalog where
  "sample_catalog = \<lparr>rc_baseVersion = ''v1'', rc_schemaVersion = ''v1'', rc_inputDimension = 4,
     rc_features = [sample_spec 1 ''amount'' None,
       sample_spec 0 ''per_item'' (Some (Ratio ''amount'' ''items'' None)),
       sample_spec 2 ''is_web'' (Some (EqualsOp ''channel'' (JStr ''WEB''))),
       sample_spec 3 ''both'' (Some (BoolAnd [''is_web'', ''amount'']))],
     rc_byIndex = [], rc_byName = [], rc_adopterSha256 = None\<rparr>"

definition sample_request :: fields where
  "sample_request = [(''amount'', JNum (Fin 90)), (''items'', JNum (Fin 3)), (''channel'', JStr ''WEB''),
     (''timestamp'', JNum (Fin 1000))]"

lemma sample_ok: "well_indexed sample_catalog" "\<forall>s \<in> set (rc_features sample_catalog). compute_ok s"
    "request_ok sample_request 0"
  by (simp_all add: well_indexed_def sample_catalog_def sample_spec_def compute_ok_def request_ok_def sample_request_def
      field_def categorical_def latitude_ok_def safeNumber_def eventDate_def)


text \<open>
  Features are computed in catalogue order, so a \<open>bool_and\<close> feature is set exactly when
  every referenced name is an \<open>earlier\<close> feature with a positive value: a reference to a later feature
  or to an unknown name makes it \<open>0\<close>, and the catalogue loader does not check for either.
\<close>

theorem bool_and_reads_earlier_features:
  assumes "well_indexed c" and "rc_features c = xs @ s # ys" and "fs_compute s = Some (BoolAnd refs)"
    and "buildFeatures env c request redis now = Inr b"
  shows "om_get (fb_snapshot b) (fs_name s) =
    Some (flag (list_all (\<lambda>r. r \<in> fs_name ` set xs
      \<and> (case om_get (fb_snapshot b) r of Some v \<Rightarrow> num_lt (Fin 0) v | None \<Rightarrow> False)) refs))"
proof -
  let ?b0 = "\<lparr>fb_vector = replicate (rc_inputDimension c) (Fin 0), fb_snapshot = []\<rparr>"
  note w = well_indexed_simps [OF assms(1), unfolded assms(2)]
  have lt: "fs_index s < length (fb_vector ?b0)" using w(3) [of s] by simp
  obtain m v where m: "build_loop env request redis now xs ?b0 = Inr m"
    and v: "feature_value env s request redis (fb_snapshot m) now = Inr v"
    and r: "om_get (fb_snapshot b) (fs_name s) = Some v" and "fb_vector b ! fs_index s = fe_f32 env v"
    and same: "\<forall>t \<in> set xs. om_get (fb_snapshot b) (fs_name t) = om_get (fb_snapshot m) (fs_name t)"
    by (rule build_loop_at [OF assms(4) [unfolded buildFeatures_def assms(2)] w(1,2) lt])
  have get: "om_get (fb_snapshot m) k = (if k \<in> fs_name ` set xs then om_get (fb_snapshot b) k else None)" for k
    using build_loop_frame(2) [OF m, of k] same by auto
  have "num_lt (Fin 0) (case om_get (fb_snapshot m) k of Some v \<Rightarrow> v | None \<Rightarrow> Fin 0)
      = (k \<in> fs_name ` set xs \<and> (case om_get (fb_snapshot b) k of Some v \<Rightarrow> num_lt (Fin 0) v | None \<Rightarrow> False))" for k
    by (simp add: get split: option.split)
  then have "v = flag (list_all (\<lambda>r. r \<in> fs_name ` set xs
      \<and> (case om_get (fb_snapshot b) r of Some v \<Rightarrow> num_lt (Fin 0) v | None \<Rightarrow> False)) refs)"
    using v assms(3) by (simp add: feature_value_def)
  with r show ?thesis by simp
qed

theorem bool_and_reads_earlier_features_witness:
  "\<exists>b. buildFeatures sample_env sample_catalog sample_request [] 0 = Inr b
    \<and> om_get (fb_snapshot b) ''both'' = Some (Fin 1)"
proof -
  have split: "rc_features sample_catalog =
      [sample_spec 1 ''amount'' None, sample_spec 0 ''per_item'' (Some (Ratio ''amount'' ''items'' None)),
       sample_spec 2 ''is_web'' (Some (EqualsOp ''channel'' (JStr ''WEB'')))]
      @ sample_spec 3 ''both'' (Some (BoolAnd [''is_web'', ''amount''])) # []"
    by (simp add: sample_catalog_def)
  have op: "fs_compute (sample_spec 3 ''both'' (Some (BoolAnd [''is_web'', ''amount'']))) = Some (BoolAnd [''is_web'', ''amount''])"
    by (simp add: sample_spec_def)
  have b: "buildFeatures sample_env sample_catalog sample_request [] 0 = Inr
      \<lparr>fb_vector = [Fin 30, Fin 90, Fin 1, Fin 1],
       fb_snapshot = [(''amount'', Fin 90), (''per_item'', Fin 30), (''is_web'', Fin 1), (''both'', Fin 1)]\<rparr>"
    by (simp add: buildFeatures_def sample_catalog_def sample_spec_def sample_env_def sample_request_def feature_value_def
        resolveBaseFeature_def resolveRequestField_def field_def safeNumber_def Let_def flag_def numericDefault_def
        numeral_eq_Suc om_get_def)
  show ?thesis
    using bool_and_reads_earlier_features [OF sample_ok(1) split op b]
    by (simp add: b sample_spec_def om_get_def flag_def)
qed

end
