(* ===== verification/FeatureCatalog.thy ===== *)
theory FeatureCatalog
  imports FeatureBuilder JsonRoundTrip "HOL-Library.Multiset" "HOL-Library.Char_ord" "HOL-Library.List_Lexorder" "HOL-Library.Monad_Syntax"
begin

text \<open>
  \<open>src/shared/features/feature-catalog.ts\<close>: reading, validating and merging the base catalogue
  and the adopter overlay, and the schema version. The two files' contents and SHA-256 are
  arguments. A document that passes the run-time checks is then read through its TypeScript
  interface; one that does not conform to the interface ends in \<open>CatUntyped\<close> (the code goes on
  with whatever values it has).
\<close>

section \<open>Documents\<close>

datatype catalog_error =
    CatMissing | CatNotJson | CatTypeError | CatFields | CatDimension | CatCompute string | CatName string
  | OverlayNotJson | OverlayExtends | OverlayFeatures | OverlayTooMany nat | OverlayIndex string nat
  | OverlayCollision string | OverlayNoCompute string
  | MergedLength nat nat | MergedIndex nat | MergedName string | MergedGap nat | CatUntyped

record catalog_file =
  cf_version :: string
  cf_input_dimension :: nat
  cf_features :: "feature_spec list"

record overlay_file =
  of_json :: fields
  of_features :: "feature_spec list"

subsection \<open>The interfaces\<close>

definition as_string :: "jval \<Rightarrow> string option" where
  "as_string v = (case v of JStr s \<Rightarrow> Some s | _ \<Rightarrow> None)"

definition as_real :: "jval \<Rightarrow> real option" where
  "as_real v = (case v of JNum (Fin r) \<Rightarrow> Some r | _ \<Rightarrow> None)"

definition as_nat :: "jval \<Rightarrow> nat option" where
  "as_nat v = (case v of JNum (Fin r) \<Rightarrow> if 0 \<le> r \<and> of_int \<lfloor>r\<rfloor> = r then Some (nat \<lfloor>r\<rfloor>) else None | _ \<Rightarrow> None)"

fun all_some :: "'a option list \<Rightarrow> 'a list option" where
  "all_some [] = Some []"
| "all_some (Some x # xs) = map_option (\<lambda>ys. x # ys) (all_some xs)"
| "all_some (None # xs) = None"

definition as_list :: "(jval \<Rightarrow> 'a option) \<Rightarrow> jval \<Rightarrow> 'a list option" where
  "as_list f v = (case v of JArr vs \<Rightarrow> all_some (map f vs) | _ \<Rightarrow> None)"

definition as_field_ref :: "jval \<Rightarrow> string option" where
  "as_field_ref v = (case v of JObj fs \<Rightarrow> as_string (field fs ''field'') | _ \<Rightarrow> None)"

definition compute_op_of :: "fields \<Rightarrow> compute_op option" where
  "compute_op_of fs = do {
     t \<leftarrow> as_string (field fs ''type'');
     if t = ''from_field'' then do { f \<leftarrow> as_string (field fs ''field''); Some (FromField f) }
     else if t = ''equals'' then do { f \<leftarrow> as_string (field fs ''field''); Some (EqualsOp f (field fs ''value'')) }
     else if t = ''not_equals'' then do { f \<leftarrow> as_string (field fs ''field''); Some (NotEquals f (field fs ''value'')) }
     else if t = ''is_one_of'' then do {
       f \<leftarrow> as_string (field fs ''field''); vs \<leftarrow> as_list Some (field fs ''values''); Some (IsOneOf f vs) }
     else if t = ''ratio'' then do {
       n \<leftarrow> as_field_ref (field fs ''numerator''); d \<leftarrow> as_field_ref (field fs ''denominator'');
       if nullish (field fs ''min_denominator'') then Some (Ratio n d None)
       else do { m \<leftarrow> as_real (field fs ''min_denominator''); Some (Ratio n d (Some m)) } }
     else if t = ''lookup'' then do {
       f \<leftarrow> as_string (field fs ''field''); tab \<leftarrow> as_string (field fs ''table'');
       Some (Lookup f tab (field fs ''default'')) }
     else if t = ''numeric_bucket'' then do {
       f \<leftarrow> as_string (field fs ''field''); bs \<leftarrow> as_list as_real (field fs ''boundaries''); Some (NumericBucket f bs) }
     else if t = ''bool_and'' then do { rs \<leftarrow> as_list as_string (field fs ''refs''); Some (BoolAnd rs) }
     else if t = ''bool_or'' then do { rs \<leftarrow> as_list as_string (field fs ''refs''); Some (BoolOr rs) }
     else if t = ''from_redis'' then do { k \<leftarrow> as_string (field fs ''key''); Some (FromRedis k) }
     else if t = ''custom'' then do { r \<leftarrow> as_string (field fs ''resolver''); Some (Custom r) }
     else None }"

definition source_of :: "string \<Rightarrow> feature_source option" where
  "source_of s =
     (if s = ''rda:request'' then Some SrcRequest else if s = ''rda:derived'' then Some SrcDerived
      else if s = ''paa:redis'' then Some SrcRedis else if s = ''config:lookup'' then Some SrcConfig else None)"

definition dtype_of :: "string \<Rightarrow> feature_dtype option" where
  "dtype_of s =
     (if s = ''float32'' then Some Float32 else if s = ''uint8'' then Some Uint8
      else if s = ''bool'' then Some BoolType else None)"

definition default_of :: "jval \<Rightarrow> feature_default option" where
  "default_of v = (case v of JBool b \<Rightarrow> Some (DefBool b) | JNum (Fin r) \<Rightarrow> Some (DefNum r) | _ \<Rightarrow> None)"

text \<open>\<open>compute\<close> is absent or an object.\<close>

definition compute_of :: "jval \<Rightarrow> compute_op option option" where
  "compute_of v = (case v of JUndef \<Rightarrow> Some None | JObj fs \<Rightarrow> map_option Some (compute_op_of fs) | _ \<Rightarrow> None)"

definition spec_of :: "jval \<Rightarrow> feature_spec option" where
  "spec_of v =
     (case v of
        JObj fs \<Rightarrow> do {
          i \<leftarrow> as_nat (field fs ''index''); n \<leftarrow> as_string (field fs ''name'');
          src \<leftarrow> as_string (field fs ''source'') \<bind> source_of;
          dt \<leftarrow> as_string (field fs ''dtype'') \<bind> dtype_of;
          d \<leftarrow> default_of (field fs ''default''); desc \<leftarrow> as_string (field fs ''description'');
          op \<leftarrow> compute_of (field fs ''compute'');
          Some \<lparr>fs_index = i, fs_name = n, fs_source = src, fs_dtype = dt, fs_default = d,
                fs_description = desc, fs_compute = op\<rparr> }
      | _ \<Rightarrow> None)"

definition specs_of :: "jval list \<Rightarrow> (catalog_error, feature_spec list) result" where
  "specs_of vs = (case all_some (map spec_of vs) of Some fs \<Rightarrow> Inr fs | None \<Rightarrow> Inl CatUntyped)"

section \<open>Validation\<close>

definition is_lower :: "char \<Rightarrow> bool" where
  "is_lower c = (97 \<le> code c \<and> code c \<le> 122)"

definition name_pattern :: "string \<Rightarrow> bool" where
  "name_pattern s =
     (case s of [] \<Rightarrow> False | c # cs \<Rightarrow> is_lower c \<and> list_all (\<lambda>d. is_lower d \<or> is_digit d \<or> d = CHR ''_'') cs)"

definition assertNameIsLegal :: "string \<Rightarrow> (catalog_error, unit) result" where
  "assertNameIsLegal name = (if name_pattern name then Inr () else Inl (CatName name))"

fun validateBase :: "feature_spec list \<Rightarrow> (catalog_error, unit) result" where
  "validateBase [] = Inr ()"
| "validateBase (f # fs) =
     (if fs_compute f \<noteq> None then Inl (CatCompute (fs_name f))
      else bind_r (assertNameIsLegal (fs_name f)) (\<lambda>_. validateBase fs))"

definition ADOPTER_INDEX_START :: nat where
  "ADOPTER_INDEX_START = 64"

definition ADOPTER_INDEX_END_EXCLUSIVE :: nat where
  "ADOPTER_INDEX_END_EXCLUSIVE = 96"

fun overlay_loop :: "nat \<Rightarrow> string list \<Rightarrow> feature_spec list \<Rightarrow> (catalog_error, unit) result" where
  "overlay_loop baseDim baseNames [] = Inr ()"
| "overlay_loop baseDim baseNames (f # fs) =
     (if fs_index f < baseDim \<or> ADOPTER_INDEX_END_EXCLUSIVE \<le> fs_index f then Inl (OverlayIndex (fs_name f) (fs_index f))
      else if fs_name f \<in> set baseNames then Inl (OverlayCollision (fs_name f))
      else if fs_compute f = None then Inl (OverlayNoCompute (fs_name f))
      else bind_r (assertNameIsLegal (fs_name f)) (\<lambda>_. overlay_loop baseDim baseNames fs))"

definition validateOverlay :: "overlay_file \<Rightarrow> catalog_file \<Rightarrow> (catalog_error, unit) result" where
  "validateOverlay overlay base =
     (if ADOPTER_INDEX_END_EXCLUSIVE - ADOPTER_INDEX_START < length (of_features overlay)
      then Inl (OverlayTooMany (length (of_features overlay)))
      else overlay_loop (cf_input_dimension base) (map fs_name (cf_features base)) (of_features overlay))"

fun seen_loop :: "nat list \<Rightarrow> string list \<Rightarrow> feature_spec list \<Rightarrow> (catalog_error, nat list) result" where
  "seen_loop seenIdx seenName [] = Inr seenIdx"
| "seen_loop seenIdx seenName (f # fs) =
     (if fs_index f \<in> set seenIdx then Inl (MergedIndex (fs_index f))
      else if fs_name f \<in> set seenName then Inl (MergedName (fs_name f))
      else seen_loop (fs_index f # seenIdx) (fs_name f # seenName) fs)"

fun gap_loop :: "nat list \<Rightarrow> nat list \<Rightarrow> (catalog_error, unit) result" where
  "gap_loop seenIdx [] = Inr ()"
| "gap_loop seenIdx (i # is) = (if i \<in> set seenIdx then gap_loop seenIdx is else Inl (MergedGap i))"

definition validateMerged :: "feature_spec list \<Rightarrow> nat \<Rightarrow> (catalog_error, unit) result" where
  "validateMerged features expected =
     (if length features \<noteq> expected then Inl (MergedLength (length features) expected)
      else bind_r (seen_loop [] [] features) (\<lambda>seenIdx. gap_loop seenIdx [0..<length features]))"

section \<open>Loading\<close>

definition readBase :: "string option \<Rightarrow> (catalog_error, catalog_file) result" where
  "readBase file =
     (case file of
        None \<Rightarrow> Inl CatMissing
      | Some raw \<Rightarrow>
          (case json_parse raw of
             None \<Rightarrow> Inl CatNotJson
           | Some parsed \<Rightarrow>
               (case (js_get parsed ''version'', js_get parsed ''input_dimension'', js_get parsed ''features'') of
                  (Inr version, Inr dimension, Inr feats) \<Rightarrow>
                    (if \<not> truthy version \<or> \<not> truthy dimension then Inl CatFields
                     else case feats of
                       JArr vs \<Rightarrow>
                         (if \<not> strict_eq (JNum (Fin (real (length vs)))) dimension then Inl CatDimension
                          else bind_r (specs_of vs) (\<lambda>fs.
                            bind_r (validateBase fs) (\<lambda>_.
                              case version of
                                JStr s \<Rightarrow> Inr \<lparr>cf_version = s, cf_input_dimension = length vs, cf_features = fs\<rparr>
                              | _ \<Rightarrow> Inl CatUntyped)))
                     | _ \<Rightarrow> Inl CatFields)
                | _ \<Rightarrow> Inl CatTypeError)))"

definition readAdopterOverlayIfPresent :: "string option \<Rightarrow> (catalog_error, overlay_file option) result" where
  "readAdopterOverlayIfPresent file =
     (case file of
        None \<Rightarrow> Inr None
      | Some raw \<Rightarrow>
          (case json_parse raw of
             None \<Rightarrow> Inl OverlayNotJson
           | Some parsed \<Rightarrow>
               (case (js_get parsed ''extends'', js_get parsed ''features'') of
                  (Inr ext, Inr feats) \<Rightarrow>
                    (if \<not> strict_eq ext (JStr ''v1'') then Inl OverlayExtends
                     else case (feats, parsed) of
                       (JArr vs, JObj fs) \<Rightarrow>
                         map_r (\<lambda>specs. Some \<lparr>of_json = fs, of_features = specs\<rparr>) (specs_of vs)
                     | _ \<Rightarrow> Inl OverlayFeatures)
                | _ \<Rightarrow> Inl CatTypeError)))"

text \<open>
  \<open>JSON.stringify(v, ks)\<close> with an array of keys: every object, at every depth, prints the listed
  keys it has, in the order of the list.
\<close>

fun keep_keys :: "string list \<Rightarrow> jval \<Rightarrow> jval" where
  "keep_keys ks (JArr vs) = JArr (map (keep_keys ks) vs)"
| "keep_keys ks (JObj fs) =
     JObj (let gs = map (\<lambda>(k, v). (k, keep_keys ks v)) fs
           in concat (map (\<lambda>k. case map_of gs k of Some v \<Rightarrow> [(k, v)] | None \<Rightarrow> []) ks))"
| "keep_keys ks v = v"

definition hashJson :: "(string \<Rightarrow> string) \<Rightarrow> fields \<Rightarrow> string" where
  "hashJson sha256 fs = sha256 (json_text (keep_keys (sort (map fst fs)) (JObj fs)))"

definition map_of_list :: "('a \<Rightarrow> 'k) \<Rightarrow> 'a list \<Rightarrow> ('k, 'a) omap" where
  "map_of_list key xs = foldl (\<lambda>m x. om_set (key x) x m) [] xs"

definition resolve_catalog ::
  "(string \<Rightarrow> string) \<Rightarrow> catalog_file \<Rightarrow> overlay_file option \<Rightarrow> (catalog_error, resolved_catalog) result" where
  "resolve_catalog sha256 base overlay =
     (let merged = cf_features base @ (case overlay of Some o' \<Rightarrow> of_features o' | None \<Rightarrow> []);
          sha = map_option (\<lambda>o'. hashJson sha256 (of_json o')) overlay
      in bind_r (case overlay of Some o' \<Rightarrow> validateOverlay o' base | None \<Rightarrow> Inr ()) (\<lambda>_.
         bind_r (validateMerged merged
                   (cf_input_dimension base + (case overlay of Some o' \<Rightarrow> length (of_features o') | None \<Rightarrow> 0))) (\<lambda>_.
           Inr \<lparr>rc_baseVersion = cf_version base,
                rc_schemaVersion =
                  (case sha of
                     Some h \<Rightarrow> if h = [] then cf_version base else cf_version base @ ''+adopter:'' @ take 12 h
                   | None \<Rightarrow> cf_version base),
                rc_inputDimension = length merged, rc_features = merged,
                rc_byIndex = map_of_list fs_index merged, rc_byName = map_of_list fs_name merged,
                rc_adopterSha256 = sha\<rparr>)))"

text \<open>The module's cache is the state: the first success is kept, a failure is retried.\<close>

definition loadCatalog ::
  "(string \<Rightarrow> string) \<Rightarrow> string option \<Rightarrow> string option \<Rightarrow> resolved_catalog option
    \<Rightarrow> (catalog_error, resolved_catalog) result \<times> resolved_catalog option" where
  "loadCatalog sha256 base_file overlay_text cached =
     (case cached of
        Some c \<Rightarrow> (Inr c, cached)
      | None \<Rightarrow>
          (case bind_r (readBase base_file) (\<lambda>base.
                  bind_r (readAdopterOverlayIfPresent overlay_text) (resolve_catalog sha256 base)) of
             Inl e \<Rightarrow> (Inl e, None)
           | Inr c \<Rightarrow> (Inr c, Some c)))"

section \<open>What validation establishes\<close>

lemma seen_loop_ok:
  "seen_loop si sn fs = Inr r \<longleftrightarrow>
     r = rev (map fs_index fs) @ si \<and> distinct (map fs_index fs) \<and> distinct (map fs_name fs)
       \<and> set (map fs_index fs) \<inter> set si = {} \<and> set (map fs_name fs) \<inter> set sn = {}"
proof (induction fs arbitrary: si sn)
  case (Cons f fs)
  show ?case unfolding seen_loop.simps by (simp add: Cons.IH del: set_map) blast
qed auto

lemma gap_loop_ok: "gap_loop seen is = Inr () \<longleftrightarrow> set is \<subseteq> set seen"
  by (induction "is") auto

lemma indices_contiguous:
  assumes "distinct (map f xs)"
  shows "{0..<length xs} \<subseteq> f ` set xs \<longleftrightarrow> mset (map f xs) = mset [0..<length xs]"
proof
  assume l: "{0..<length xs} \<subseteq> f ` set xs"
  have "card (f ` set xs) = length xs" using distinct_card [OF assms] by simp
  then have "f ` set xs = {0..<length xs}" using card_subset_eq [OF _ l] by simp
  then show "mset (map f xs) = mset [0..<length xs]"
    using assms by (intro set_eq_iff_mset_eq_distinct [THEN iffD1]) simp_all
next
  assume "mset (map f xs) = mset [0..<length xs]"
  then have "set (map f xs) = set [0..<length xs]" by (rule mset_eq_setD)
  then show "{0..<length xs} \<subseteq> f ` set xs" by simp
qed

lemma validateMerged_ok:
  "validateMerged fs n = Inr () \<longleftrightarrow>
     length fs = n \<and> distinct (map fs_name fs) \<and> mset (map fs_index fs) = mset [0..<n]"
proof -
  have d: "mset (map fs_index fs) = mset [0..<length fs] \<Longrightarrow> distinct (map fs_index fs)"
    using mset_eq_imp_distinct_iff [of "map fs_index fs" "[0..<length fs]"] by simp
  show ?thesis
    using indices_contiguous [of fs_index fs] d
    by (auto simp: validateMerged_def bind_r_eq_Inr seen_loop_ok gap_loop_ok)
qed

lemma validateBase_ok:
  "validateBase fs = Inr () \<longleftrightarrow> (\<forall>f \<in> set fs. fs_compute f = None \<and> name_pattern (fs_name f))"
  by (induction fs) (auto simp: assertNameIsLegal_def)

lemma overlay_loop_ok:
  "overlay_loop n names fs = Inr () \<longleftrightarrow>
     (\<forall>f \<in> set fs. n \<le> fs_index f \<and> fs_index f < 96 \<and> fs_name f \<notin> set names \<and> fs_compute f \<noteq> None
        \<and> name_pattern (fs_name f))"
  by (induction fs) (auto simp: assertNameIsLegal_def ADOPTER_INDEX_END_EXCLUSIVE_def)

lemma om_get_foldl_key:
  assumes "distinct (map key xs)"
  shows "om_get (foldl (\<lambda>m x. om_set (key x) x m) m xs) k = Some x \<longleftrightarrow>
    (x \<in> set xs \<and> key x = k) \<or> (k \<notin> key ` set xs \<and> om_get m k = Some x)"
  using assms by (induction xs arbitrary: m) auto

lemma map_of_list_get:
  "distinct (map key xs) \<Longrightarrow> om_get (map_of_list key xs) k = Some x \<longleftrightarrow> x \<in> set xs \<and> key x = k"
  by (simp add: map_of_list_def om_get_foldl_key)

section \<open>A loaded catalogue\<close>

lemma all_some_length: "all_some xs = Some ys \<Longrightarrow> length ys = length xs"
  by (induction xs arbitrary: ys rule: all_some.induct) auto

lemma readBase_ok:
  assumes "readBase file = Inr base"
  shows "length (cf_features base) = cf_input_dimension base"
    and "\<forall>f \<in> set (cf_features base). fs_compute f = None \<and> name_pattern (fs_name f)"
  using assms
  by (auto simp: readBase_def specs_of_def bind_r_eq_Inr validateBase_ok dest: all_some_length
      split: option.splits if_splits sum.splits jval.splits)

lemma resolve_catalog_ok:
  assumes "resolve_catalog sha base ov = Inr c"
  defines "os \<equiv> (case ov of Some v \<Rightarrow> of_features v | None \<Rightarrow> [])"
  shows "rc_features c = cf_features base @ os" and "rc_inputDimension c = length (rc_features c)"
    and "rc_byIndex c = map_of_list fs_index (rc_features c)" and "rc_byName c = map_of_list fs_name (rc_features c)"
    and "distinct (map fs_name (rc_features c))"
    and "mset (map fs_index (rc_features c)) = mset [0..<length (rc_features c)]"
    and "\<forall>f \<in> set os. cf_input_dimension base \<le> fs_index f \<and> fs_index f < 96 \<and> fs_compute f \<noteq> None \<and> name_pattern (fs_name f)"
    and "length os \<le> 32"
  using assms(1) unfolding os_def
  by (auto simp: resolve_catalog_def Let_def bind_r_eq_Inr validateMerged_ok validateOverlay_def overlay_loop_ok
      ADOPTER_INDEX_END_EXCLUSIVE_def ADOPTER_INDEX_START_def split: option.splits if_splits)

lemma base_below_overlay:
  fixes B W :: "nat list"
  assumes "mset (B @ W) = mset [0..<length B + length W]" and "\<forall>w \<in> set W. length B \<le> w" and "b \<in> set B"
  shows "b < length B"
proof -
  have d: "distinct (B @ W)" using assms(1) mset_eq_imp_distinct_iff by (metis distinct_upt)
  have all: "set B \<union> set W = {0..<length B + length W}" using mset_eq_setD [OF assms(1)] by simp
  have "set W \<subseteq> {length B..<length B + length W}" using assms(2) all by auto
  moreover have "card (set W) = length W" using d distinct_card by auto
  ultimately have "set W = {length B..<length B + length W}" by (intro card_subset_eq) simp_all
  moreover have "b \<notin> set W" using d assms(3) by auto
  moreover have "b < length B + length W" using all assms(3) by auto
  ultimately show ?thesis by auto
qed

lemma loadCatalog_fresh:
  "loadCatalog sha b ov None = (Inr c, c') \<longleftrightarrow>
     c' = Some c \<and> (\<exists>base. readBase b = Inr base
       \<and> (\<exists>o'. readAdopterOverlayIfPresent ov = Inr o' \<and> resolve_catalog sha base o' = Inr c))"
  by (auto simp: loadCatalog_def bind_r_eq_Inr split: sum.splits)

text \<open>
  A catalogue that loads is a sound layout of the model's input: names are distinct and
  legal, the indices are exactly \<open>0 \<dots> inputDimension - 1\<close>, both lookup maps find every feature
  and only it, the features without a \<open>compute\<close> block are exactly those below the base
  dimension, and at most 32 adopter features follow, all below index 96.
\<close>

theorem loaded_catalog_is_sound:
  assumes "loadCatalog sha b ov None = (Inr c, c')"
  shows "c' = Some c \<and> well_indexed c
    \<and> rc_inputDimension c = length (rc_features c)
    \<and> fs_index ` set (rc_features c) = {0..<rc_inputDimension c}
    \<and> (\<forall>i s. om_get (rc_byIndex c) i = Some s \<longleftrightarrow> s \<in> set (rc_features c) \<and> fs_index s = i)
    \<and> (\<forall>n s. om_get (rc_byName c) n = Some s \<longleftrightarrow> s \<in> set (rc_features c) \<and> fs_name s = n)
    \<and> list_all (\<lambda>s. name_pattern (fs_name s)) (rc_features c)
    \<and> (\<exists>n. rc_inputDimension c \<le> n + 32
         \<and> list_all (\<lambda>s. (fs_compute s = None) = (fs_index s < n) \<and> (fs_index s < n \<or> fs_index s < 96)) (rc_features c))"
proof -
  from assms obtain base o' where c': "c' = Some c" and base: "readBase b = Inr base"
    and res: "resolve_catalog sha base o' = Inr c"
    unfolding loadCatalog_fresh by blast
  define os where "os = (case o' of Some v \<Rightarrow> of_features v | None \<Rightarrow> [])"
  note r = resolve_catalog_ok [OF res, folded os_def] and b = readBase_ok [OF base]
  have ix: "fs_index ` set (rc_features c) = {0..<rc_inputDimension c}"
    using mset_eq_setD [OF r(6)] r(2) by simp
  have d: "distinct (map fs_index (rc_features c))"
    using mset_eq_imp_distinct_iff [OF r(6)] by simp
  have "fs_index s < rc_inputDimension c" if "s \<in> set (rc_features c)" for s
    using that ix by (metis atLeastLessThan_iff image_eqI)
  then have w: "well_indexed c"
    using r(5) d by (simp add: well_indexed_def list_all_iff)
  let ?n = "cf_input_dimension base"
  have lt: "fs_index s < ?n" if "s \<in> set (cf_features base)" for s
    using base_below_overlay [of "map fs_index (cf_features base)" "map fs_index os" "fs_index s"] that r(1,6,7) b(1)
    by auto
  have "list_all (\<lambda>s. (fs_compute s = None) = (fs_index s < ?n) \<and> (fs_index s < ?n \<or> fs_index s < 96)) (rc_features c)"
    unfolding list_all_iff using r(1,7) b(2) lt by fastforce
  moreover have "rc_inputDimension c \<le> ?n + 32" using r(1,2,8) b(1) by simp
  moreover have "list_all (\<lambda>s. name_pattern (fs_name s)) (rc_features c)"
    unfolding list_all_iff using r(1,7) b(2) by auto
  ultimately show ?thesis
    using c' w r(2) ix by (auto simp: r(3,4) map_of_list_get [OF r(5)] map_of_list_get [OF d])
qed

section \<open>The overlay's hash\<close>

text \<open>Two documents that agree on the listed keys.\<close>

definition same_under :: "string list \<Rightarrow> jval \<Rightarrow> jval \<Rightarrow> bool" where
  "same_under ks v w =
     (case (v, w) of (JObj a, JObj b) \<Rightarrow> list_all (\<lambda>k. map_of a k = map_of b k) ks | _ \<Rightarrow> False)"

lemma kept_fields:
  "map_of (map (\<lambda>(k, v). (k, keep_keys ks v)) fs) k = map_option (keep_keys ks) (map_of fs k)"
  by (induction fs) auto

lemma keep_keys_agree: "same_under ks v w \<Longrightarrow> keep_keys ks v = keep_keys ks w"
  by (auto simp: same_under_def kept_fields list_all_iff Let_def intro!: arg_cong [where f = concat]
      split: jval.splits)

lemma field_of_key: "k \<in> set (map fst fs) \<Longrightarrow> map_of fs k = Some (field fs k)"
  by (auto simp: field_def weak_map_of_SomeI split: option.split dest: map_of_eq_None_iff [THEN iffD1])

lemma hashJson_agree:
  assumes "map fst fs = map fst gs" and "\<And>k. k \<noteq> ''features'' \<Longrightarrow> field fs k = field gs k"
    and "field fs ''features'' = JArr vs" and "field gs ''features'' = JArr ws"
    and "list_all2 (same_under (map fst fs)) vs ws"
  shows "hashJson sha fs = hashJson sha gs"
proof -
  let ?ks = "sort (map fst fs)"
  have "list_all2 (same_under ?ks) vs ws"
    using assms(5) by (rule list_all2_mono) (simp add: same_under_def list_all_iff split: jval.splits)
  then have "map (keep_keys ?ks) vs = map (keep_keys ?ks) ws"
    by (induction rule: list_all2_induct) (simp_all add: keep_keys_agree)
  then have "keep_keys ?ks (field fs k) = keep_keys ?ks (field gs k)" for k
    using assms(2-4) by (cases "k = ''features''") simp_all
  moreover have "map_of fs k = Some (field fs k) \<and> map_of gs k = Some (field gs k)" if "k \<in> set ?ks" for k
    using that assms(1) field_of_key [of k fs] field_of_key [of k gs] by simp
  ultimately have "keep_keys ?ks (JObj fs) = keep_keys ?ks (JObj gs)"
    by (auto simp: kept_fields Let_def intro!: arg_cong [where f = concat] split: option.split)
  then show ?thesis unfolding hashJson_def assms(1) by simp
qed

lemma loadCatalog_version:
  assumes "loadCatalog sha b (Some t) None = (Inr c, c')" and "json_parse t = Some (JObj fs)"
  obtains base where "readBase b = Inr base"
    and "rc_schemaVersion c = (if hashJson sha fs = [] then cf_version base
      else cf_version base @ ''+adopter:'' @ take 12 (hashJson sha fs))"
proof -
  from assms(1) obtain base o' where base: "readBase b = Inr base"
    and ov: "readAdopterOverlayIfPresent (Some t) = Inr o'" and res: "resolve_catalog sha base o' = Inr c"
    unfolding loadCatalog_fresh by blast
  obtain v where v: "o' = Some v" "of_json v = fs"
    using ov assms(2)
    by (auto simp: readAdopterOverlayIfPresent_def map_r_def bind_r_eq_Inr split: if_splits jval.splits)
  show thesis
    by (rule that [OF base]) (use res v in \<open>auto simp: resolve_catalog_def Let_def bind_r_eq_Inr\<close>)
qed

text \<open>
  The schema version does not identify the adopter overlay. \<open>hashJson\<close> passes the overlay's
  sorted top-level keys to \<open>JSON.stringify\<close> as its replacer, which keeps only those keys at
  every depth: two overlays that differ only in their features, where corresponding features agree
  on the keys that are also top-level keys (\<open>extends\<close>, \<open>features\<close>, \<open>description\<close>), get the same
  version, whatever their indices, names, types and computes are.
\<close>

theorem schema_version_ignores_computes:
  assumes "json_parse t = Some (JObj fs)" and "json_parse u = Some (JObj gs)"
    and "map fst fs = map fst gs" and "\<And>k. k \<noteq> ''features'' \<Longrightarrow> field fs k = field gs k"
    and "field fs ''features'' = JArr vs" and "field gs ''features'' = JArr ws"
    and "list_all2 (same_under (map fst fs)) vs ws"
    and "loadCatalog sha b (Some t) None = (Inr c, c')" and "loadCatalog sha b (Some u) None = (Inr d, d')"
  shows "rc_schemaVersion c = rc_schemaVersion d"
proof -
  obtain base where base: "readBase b = Inr base" "rc_schemaVersion c = (if hashJson sha fs = [] then cf_version base
      else cf_version base @ ''+adopter:'' @ take 12 (hashJson sha fs))"
    by (rule loadCatalog_version [OF assms(8,1)])
  obtain base' where "readBase b = Inr base'" "rc_schemaVersion d = (if hashJson sha gs = [] then cf_version base'
      else cf_version base' @ ''+adopter:'' @ take 12 (hashJson sha gs))"
    by (rule loadCatalog_version [OF assms(9,2)])
  with base hashJson_agree [OF assms(3-7)] show ?thesis by simp
qed

subsection \<open>Two overlays with one version\<close>

definition feature_json :: "nat \<Rightarrow> string \<Rightarrow> fields \<Rightarrow> jval" where
  "feature_json i name extra = JObj ([(''index'', JNum (Fin (real i))), (''name'', JStr name),
     (''source'', JStr ''rda:request''), (''dtype'', JStr ''float32''), (''default'', JNum (Fin 0)),
     (''description'', JStr [])] @ extra)"

definition base_json :: jval where
  "base_json = JObj [(''version'', JStr ''v1''), (''input_dimension'', JNum (Fin 1)),
     (''features'', JArr [feature_json 0 ''amount'' []])]"

text \<open>An overlay with one feature, \<open>ratio\<close> of two fields.\<close>

definition overlay_fields :: "string \<Rightarrow> string \<Rightarrow> fields" where
  "overlay_fields n d = [(''extends'', JStr ''v1''), (''features'', JArr [feature_json 1 ''wallet_ratio''
     [(''compute'', JObj [(''type'', JStr ''ratio''), (''numerator'', JObj [(''field'', JStr n)]),
       (''denominator'', JObj [(''field'', JStr d)])])]])]"

definition ratio_spec :: "string \<Rightarrow> string \<Rightarrow> feature_spec" where
  "ratio_spec n d = \<lparr>fs_index = 1, fs_name = ''wallet_ratio'', fs_source = SrcRequest, fs_dtype = Float32,
     fs_default = DefNum 0, fs_description = [], fs_compute = Some (Ratio n d None)\<rparr>"

definition amount_spec :: feature_spec where
  "amount_spec = \<lparr>fs_index = 0, fs_name = ''amount'', fs_source = SrcRequest, fs_dtype = Float32,
     fs_default = DefNum 0, fs_description = [], fs_compute = None\<rparr>"

lemma sample_texts:
  "json_parse (json_text base_json) = Some base_json"
  "json_parse (json_text (JObj (overlay_fields n d))) = Some (JObj (overlay_fields n d))"
  by (rule parse_text; simp add: base_json_def overlay_fields_def feature_json_def short_decimal_def)+

lemma sample_base: "readBase (Some (json_text base_json)) =
    Inr \<lparr>cf_version = ''v1'', cf_input_dimension = 1, cf_features = [amount_spec]\<rparr>"
  unfolding readBase_def sample_texts option.case
  by (simp add: base_json_def feature_json_def field_def specs_of_def spec_of_def as_nat_def as_string_def source_of_def
      dtype_of_def default_of_def compute_of_def amount_spec_def assertNameIsLegal_def name_pattern_def is_lower_def code_def)

lemma sample_overlay: "readAdopterOverlayIfPresent (Some (json_text (JObj (overlay_fields n d)))) =
    Inr (Some \<lparr>of_json = overlay_fields n d, of_features = [ratio_spec n d]\<rparr>)"
  unfolding readAdopterOverlayIfPresent_def sample_texts option.case
  by (simp add: overlay_fields_def feature_json_def field_def specs_of_def spec_of_def as_nat_def as_string_def source_of_def
      dtype_of_def default_of_def compute_of_def compute_op_of_def as_field_ref_def nullish_def ratio_spec_def)

definition sample_loaded :: "(string \<Rightarrow> string) \<Rightarrow> string \<Rightarrow> string \<Rightarrow> resolved_catalog" where
  "sample_loaded sha n d =
     (let h = hashJson sha (overlay_fields n d); fs = [amount_spec, ratio_spec n d] in
      \<lparr>rc_baseVersion = ''v1'',
       rc_schemaVersion = (if h = [] then ''v1'' else ''v1+adopter:'' @ take 12 h),
       rc_inputDimension = 2, rc_features = fs, rc_byIndex = map_of_list fs_index fs,
       rc_byName = map_of_list fs_name fs, rc_adopterSha256 = Some h\<rparr>)"

lemma sample_loads:
  "loadCatalog sha (Some (json_text base_json)) (Some (json_text (JObj (overlay_fields n d)))) None =
     (Inr (sample_loaded sha n d), Some (sample_loaded sha n d))"
  unfolding loadCatalog_def sample_base sample_overlay option.case bind_r_simps
  by (simp add: resolve_catalog_def validateOverlay_def validateMerged_def assertNameIsLegal_def name_pattern_def
      is_lower_def code_def is_digit_def ADOPTER_INDEX_END_EXCLUSIVE_def ADOPTER_INDEX_START_def amount_spec_def
      ratio_spec_def sample_loaded_def Let_def)

theorem schema_version_ignores_computes_witness:
  "rc_schemaVersion (sample_loaded id ''amount'' ''balance'') = rc_schemaVersion (sample_loaded id ''balance'' ''amount'')
    \<and> rc_features (sample_loaded id ''amount'' ''balance'') \<noteq> rc_features (sample_loaded id ''balance'' ''amount'')"
proof
  let ?a = "overlay_fields ''amount'' ''balance''" and ?b = "overlay_fields ''balance'' ''amount''"
  obtain vs ws where v: "field ?a ''features'' = JArr vs" "field ?b ''features'' = JArr ws"
    "list_all2 (same_under (map fst ?a)) vs ws"
    by (auto simp: overlay_fields_def field_def same_under_def feature_json_def)
  show "rc_schemaVersion (sample_loaded id ''amount'' ''balance'') = rc_schemaVersion (sample_loaded id ''balance'' ''amount'')"
    by (rule schema_version_ignores_computes [OF sample_texts(2) sample_texts(2) _ _ v sample_loads sample_loads])
      (simp_all add: overlay_fields_def field_def)
  show "rc_features (sample_loaded id ''amount'' ''balance'') \<noteq> rc_features (sample_loaded id ''balance'' ''amount'')"
    by (simp add: sample_loaded_def ratio_spec_def Let_def)
qed

theorem loaded_catalog_is_sound_witness:
  "well_indexed (sample_loaded id ''amount'' ''balance'')
    \<and> fs_index ` set (rc_features (sample_loaded id ''amount'' ''balance'')) = {0..<2}"
  using loaded_catalog_is_sound [OF sample_loads [of id "''amount''" "''balance''"]]
  by (simp add: sample_loaded_def Let_def)

end
