(* ===== verification/FeatureService.thy ===== *)
theory FeatureService
  imports FeatureBuilder
begin

text \<open>
  \<open>src/v1/modules/rda/services/feature.service.ts\<close>: the Redis snapshot of a prediction, merged
  from the sender's, the pair's and the receiver's hash. The pipeline's replies, the race against
  the timeout and the circuit breaker are arguments; logs and metrics are not modelled.
\<close>

section \<open>Fetching\<close>

datatype fetch_error = PipelineEmpty | PipelineError string | FetchTimeout | BreakerError

type_synonym hash_reply = "(string \<times> string) list"

text \<open>\<open>pipeline.exec()\<close>: \<open>None\<close>, or per command an error or a reply.\<close>

type_synonym pipeline_exec = "string list \<Rightarrow> (string option \<times> hash_reply option) list option"

fun take_replies :: "(string option \<times> hash_reply option) list \<Rightarrow> (fetch_error, hash_reply option list) result" where
  "take_replies [] = Inr []"
| "take_replies ((Some e, v) # rs) = Inl (PipelineError e)"
| "take_replies ((None, v) # rs) = map_r (\<lambda>vs. v # vs) (take_replies rs)"

definition pipelinedHashes :: "pipeline_exec \<Rightarrow> string list \<Rightarrow> (fetch_error, hash_reply option list) result" where
  "pipelinedHashes exec keys = (case exec keys of None \<Rightarrow> Inl PipelineEmpty | Some rs \<Rightarrow> take_replies rs)"

definition DEFAULT_REDIS_SNAPSHOT :: fields where
  "DEFAULT_REDIS_SNAPSHOT =
     [(''velocity_1h'', JNum (Fin (5 / 2))), (''velocity_24h'', JNum (Fin 15)), (''velocity_7d'', JNum (Fin 75)),
      (''amount_mean_30d'', JNum (Fin 25000)), (''amount_std_30d'', JNum (Fin 15000)),
      (''graph_pagerank'', JNum (Fin (15 / 100))), (''graph_clustering_coef'', JNum (Fin (35 / 100))),
      (''pair_time_since_last_send'', JNum (Fin 3600))]"

definition merge_hash :: "(string \<Rightarrow> bool) \<Rightarrow> fields \<Rightarrow> hash_reply option \<Rightarrow> fields" where
  "merge_hash keep snap h =
     (case h of
        None \<Rightarrow> snap
      | Some es \<Rightarrow> foldl (\<lambda>m (f, v). if keep f then om_set f (JStr v) m else m) snap es)"

definition snapshot_of :: "hash_reply option \<Rightarrow> hash_reply option \<Rightarrow> hash_reply option \<Rightarrow> fields" where
  "snapshot_of senderHash pairHash receiverHash =
     (let base = (case senderHash of
                    Some (e # es) \<Rightarrow> map (\<lambda>(f, v). (f, JStr v)) (e # es)
                  | _ \<Rightarrow> DEFAULT_REDIS_SNAPSHOT)
      in merge_hash (\<lambda>f. starts_with f ''recipient_'') (merge_hash (\<lambda>_. True) base pairHash) receiverHash)"

definition feature_keys :: "string \<Rightarrow> string \<Rightarrow> string list" where
  "feature_keys senderId receiverId =
     [''features:'' @ senderId, ''features:pair:'' @ senderId @ '':'' @ receiverId, ''features:'' @ receiverId]"

definition fetchFeaturesFromRedis ::
  "pipeline_exec \<Rightarrow> bool \<Rightarrow> string \<Rightarrow> string \<Rightarrow> (fetch_error, fields) result" where
  "fetchFeaturesFromRedis exec timed_out senderId receiverId =
     (if timed_out then Inl FetchTimeout
      else bind_r (pipelinedHashes exec (feature_keys senderId receiverId))
           (\<lambda>hs. case hs of
              [senderHash, pairHash, receiverHash] \<Rightarrow> Inr (snapshot_of senderHash pairHash receiverHash)
            | _ \<Rightarrow> Inl PipelineEmpty))"

definition isDefaultSnapshot :: "fields \<Rightarrow> bool" where
  "isDefaultSnapshot snap =
     (num_eq (js_to_num (field snap ''velocity_1h'')) (Fin (5 / 2)) \<and>
      num_eq (js_to_num (field snap ''velocity_24h'')) (Fin 15))"

text \<open>The breaker runs the fetch, and answers its result, the fallback or an error.\<close>

definition getFeatures ::
  "((fetch_error, fields) result \<Rightarrow> (fetch_error, fields) result) \<Rightarrow> pipeline_exec \<Rightarrow> bool \<Rightarrow> string \<Rightarrow> string
    \<Rightarrow> fields \<times> bool" where
  "getFeatures fire exec timed_out senderId receiverId =
     (case fire (fetchFeaturesFromRedis exec timed_out senderId receiverId) of
        Inr snap \<Rightarrow> (snap, isDefaultSnapshot snap)
      | Inl _ \<Rightarrow> (DEFAULT_REDIS_SNAPSHOT, True))"

definition breaker_ok :: "((fetch_error, fields) result \<Rightarrow> (fetch_error, fields) result) \<Rightarrow> bool" where
  "breaker_ok fire = (\<forall>r. fire r = Inr DEFAULT_REDIS_SNAPSHOT \<or> fire r = r \<or> fire r = Inl BreakerError)"

section \<open>Who contributes what\<close>

lemma field_om_get: "field m k = (case om_get m k of None \<Rightarrow> JUndef | Some v \<Rightarrow> v)"
  by (simp add: field_def om_get_def)

lemma field_om_set [simp]: "field (om_set k v m) j = (if j = k then v else field m j)"
  by (simp add: field_om_get)

lemma fold_merge:
  assumes "distinct (map fst es)"
  shows "field (foldl (\<lambda>m (f, v). if keep f then om_set f (JStr v) m else m) snap es) k =
    (case map_of es k of Some v \<Rightarrow> if keep k then JStr v else field snap k | None \<Rightarrow> field snap k)"
  using assms
proof (induction es arbitrary: snap)
  case (Cons e es)
  obtain f v where e: "e = (f, v)" by (cases e)
  have "map_of es f = None" using Cons.prems by (simp add: e map_of_eq_None_iff image_iff)
  then show ?case using Cons by (simp add: e split: option.split)
qed simp

definition reply_ok :: "hash_reply option \<Rightarrow> bool" where
  "reply_ok h = (case h of None \<Rightarrow> True | Some es \<Rightarrow> distinct (map fst es))"

definition reply_field :: "hash_reply option \<Rightarrow> string \<Rightarrow> string option" where
  "reply_field h k = (case h of None \<Rightarrow> None | Some es \<Rightarrow> map_of es k)"

lemma merge_hash_field:
  "reply_ok h \<Longrightarrow> field (merge_hash keep snap h) k =
    (case reply_field h k of Some v \<Rightarrow> if keep k then JStr v else field snap k | None \<Rightarrow> field snap k)"
  by (simp add: merge_hash_def reply_ok_def reply_field_def fold_merge split: option.splits)

lemma sender_base:
  "field (map (\<lambda>(f, v). (f, JStr v)) es) k = (case map_of es k of Some v \<Rightarrow> JStr v | None \<Rightarrow> JUndef)"
  by (induction es) (auto simp: field_def)

lemma base_field:
  "field (case S of Some (e # es) \<Rightarrow> map (\<lambda>(f, v). (f, JStr v)) (e # es) | _ \<Rightarrow> DEFAULT_REDIS_SNAPSHOT) k =
    (if S = None \<or> S = Some [] then field DEFAULT_REDIS_SNAPSHOT k
     else case reply_field S k of Some v \<Rightarrow> JStr v | None \<Rightarrow> JUndef)"
proof (cases "case S of Some (e # es) \<Rightarrow> True | _ \<Rightarrow> False")
  case True
  then obtain e es where "S = Some (e # es)" by (auto split: option.splits list.splits)
  then show ?thesis using sender_base [of "e # es" k] by (simp add: reply_field_def)
qed (auto split: option.splits list.splits)

lemma snapshot_of_field:
  assumes "reply_ok P" and "reply_ok R"
  shows "field (snapshot_of S P R) k =
    (if starts_with k ''recipient_'' \<and> reply_field R k \<noteq> None then JStr (the (reply_field R k))
     else case reply_field P k of
       Some v \<Rightarrow> JStr v
     | None \<Rightarrow> if S = None \<or> S = Some [] then field DEFAULT_REDIS_SNAPSHOT k
               else case reply_field S k of Some v \<Rightarrow> JStr v | None \<Rightarrow> JUndef)"
  unfolding snapshot_of_def Let_def merge_hash_field [OF assms(2)] merge_hash_field [OF assms(1)] base_field
  by (simp split: option.split)

text \<open>
  When Redis answers the pipeline, a field of the snapshot is the receiver's only if its name starts with
  \<open>recipient_\<close>, otherwise the pair's when the pair hash has it, otherwise the sender's (the
  population default when the sender has no hash at all): the receiver's velocity and graph values
  never replace the sender's. When the fetch times out or the breaker answers for it, the
  snapshot is the default one and is reported as such.
\<close>

theorem snapshot_contributions:
  assumes "breaker_ok fire" and "exec (feature_keys s r) = Some [(None, S), (None, P), (None, R)]"
    and "reply_ok P" and "reply_ok R"
    and "getFeatures fire exec timed_out s r = (snap, dflt)"
  shows "(snap = DEFAULT_REDIS_SNAPSHOT \<and> dflt)
    \<or> (\<forall>k. field snap k =
         (if starts_with k ''recipient_'' \<and> reply_field R k \<noteq> None then JStr (the (reply_field R k))
          else case reply_field P k of
            Some v \<Rightarrow> JStr v
          | None \<Rightarrow> if S = None \<or> S = Some [] then field DEFAULT_REDIS_SNAPSHOT k
                    else case reply_field S k of Some v \<Rightarrow> JStr v | None \<Rightarrow> JUndef))"
proof (cases "fire (fetchFeaturesFromRedis exec timed_out s r) = fetchFeaturesFromRedis exec timed_out s r
    \<and> fetchFeaturesFromRedis exec timed_out s r = Inr snap")
  case True
  then have "\<not> timed_out" by (auto simp: fetchFeaturesFromRedis_def)
  with True assms(2) have snap: "snap = snapshot_of S P R"
    by (auto simp: fetchFeaturesFromRedis_def pipelinedHashes_def)
  show ?thesis unfolding snap snapshot_of_field [OF assms(3,4)] by blast
next
  case False
  have "isDefaultSnapshot DEFAULT_REDIS_SNAPSHOT"
    by (simp add: isDefaultSnapshot_def DEFAULT_REDIS_SNAPSHOT_def field_def)
  moreover have "fire (fetchFeaturesFromRedis exec timed_out s r) = Inr DEFAULT_REDIS_SNAPSHOT
      \<or> fire (fetchFeaturesFromRedis exec timed_out s r) = fetchFeaturesFromRedis exec timed_out s r
      \<or> fire (fetchFeaturesFromRedis exec timed_out s r) = Inl BreakerError"
    using assms(1) unfolding breaker_ok_def by blast
  ultimately show ?thesis
    using False assms(5) by (auto simp: getFeatures_def split: sum.splits)
qed

text \<open>A store holding one sender, one pair and a receiver with velocities of its own.\<close>

definition sample_exec :: pipeline_exec where
  "sample_exec ks = (if length ks = 3
     then Some [(None, Some [(''velocity_1h'', ''7'')]), (None, Some [(''pair_count_24h'', ''2'')]),
                (None, Some [(''velocity_1h'', ''99''), (''recipient_age'', ''3'')])]
     else None)"

theorem snapshot_contributions_witness:
  "getFeatures id sample_exec False ''s'' ''r'' =
     ([(''velocity_1h'', JStr ''7''), (''pair_count_24h'', JStr ''2''), (''recipient_age'', JStr ''3'')], False)
   \<and> field [(''velocity_1h'', JStr ''7''), (''pair_count_24h'', JStr ''2''), (''recipient_age'', JStr ''3'')] ''velocity_1h'' = JStr ''7''"
proof -
  let ?snap = "[(''velocity_1h'', JStr ''7''), (''pair_count_24h'', JStr ''2''), (''recipient_age'', JStr ''3'')]"
  have g: "getFeatures id sample_exec False ''s'' ''r'' = (?snap, False)"
    by (simp add: getFeatures_def fetchFeaturesFromRedis_def pipelinedHashes_def sample_exec_def feature_keys_def
        snapshot_of_def merge_hash_def isDefaultSnapshot_def field_def str_to_num_def js_trim_def is_ws_def code_def
        decimal_literal_def unsigned_literal_def is_digit_def decimal_value_def to_double_def)
  have "?snap \<noteq> DEFAULT_REDIS_SNAPSHOT" by (simp add: DEFAULT_REDIS_SNAPSHOT_def)
  moreover have "breaker_ok id" by (simp add: breaker_ok_def)
  moreover have "sample_exec (feature_keys ''s'' ''r'') = Some [(None, Some [(''velocity_1h'', ''7'')]),
      (None, Some [(''pair_count_24h'', ''2'')]), (None, Some [(''velocity_1h'', ''99''), (''recipient_age'', ''3'')])]"
    by (simp add: sample_exec_def feature_keys_def)
  moreover have "reply_ok (Some [(''pair_count_24h'', ''2'')])"
      "reply_ok (Some [(''velocity_1h'', ''99''), (''recipient_age'', ''3'')])" by (simp_all add: reply_ok_def)
  ultimately have "field ?snap ''velocity_1h'' = JStr ''7''"
    using snapshot_contributions [OF _ _ _ _ g, of "Some [(''velocity_1h'', ''7'')]" "Some [(''pair_count_24h'', ''2'')]"
        "Some [(''velocity_1h'', ''99''), (''recipient_age'', ''3'')]"]
    by (simp add: reply_field_def)
  with g show ?thesis by simp
qed

end
