(* ===== verification/AuditPipeline.thy ===== *)
theory AuditPipeline
  imports RulesService Scoring "HOL-Library.Multiset"
begin

text \<open>
  \<open>src/shared/audit\<close>: audit records and rows, the in-memory write queue, the synchronous write, the
  reviewer override and the consumer that materialises the table from the event log. The
  \<open>decisionAuditLog\<close> table is a list of rows; \<open>jsonb\<close> columns hold the value itself. Absent and
  \<open>null\<close> optional fields are both \<open>None\<close>. Timers, logs and metric counters are not modelled;
  dropped rows are kept in the state so that they can be counted.
\<close>

section \<open>Records and rows\<close>

datatype decision_source = MlSource | PreRule | PostRule | BreakerFallback

record audit_record =
  ar_transactionId :: string
  ar_tenantId :: "string option"
  ar_apiKeyId :: "string option"
  ar_correlationId :: "string option"
  ar_idempotencyKey :: "string option"
  ar_senderId :: string
  ar_receiverId :: "string option"
  ar_amount :: jval
  ar_transactionType :: "string option"
  ar_segment :: "string option"
  ar_championModelVersion :: string
  ar_shadowModelVersion :: "string option"
  ar_championScore :: real
  ar_calibratedScore :: "real option"
  ar_shadowScore :: "real option"
  ar_threshold :: real
  ar_mlDecision :: decision
  ar_finalDecision :: decision
  ar_decisionSource :: decision_source
  ar_ruleId :: "string option"
  ar_ruleName :: "string option"
  ar_ruleStage :: "rule_stage option"
  ar_ruleExpression :: "jval option"
  ar_ruleAction :: "rule_action option"
  ar_reasonCodes :: "reason_code list option"
  ar_featuresSnapshot :: "(string, jnum) omap option"
  ar_featuresDefault :: bool
  ar_latencyMs :: int

record queued_record = audit_record +
  qr_id :: string

record audit_row =
  rw_id :: string
  rw_transactionId :: string
  rw_tenantId :: "string option"
  rw_apiKeyId :: "string option"
  rw_correlationId :: "string option"
  rw_idempotencyKey :: "string option"
  rw_senderId :: string
  rw_receiverId :: "string option"
  rw_amount :: jval
  rw_transactionType :: "string option"
  rw_segment :: "string option"
  rw_championModelVersion :: string
  rw_shadowModelVersion :: "string option"
  rw_championScore :: real
  rw_calibratedScore :: "real option"
  rw_shadowScore :: "real option"
  rw_threshold :: real
  rw_mlDecision :: decision
  rw_finalDecision :: decision
  rw_decisionSource :: decision_source
  rw_ruleId :: "string option"
  rw_ruleName :: "string option"
  rw_ruleStage :: "rule_stage option"
  rw_ruleExpression :: "jval option"
  rw_ruleAction :: "rule_action option"
  rw_reasonCodes :: "reason_code list option"
  rw_featuresSnapshot :: "(string, jnum) omap option"
  rw_featuresDefault :: bool
  rw_latencyMs :: int
  rw_reviewedBy :: "string option"
  rw_overrideDecision :: "decision option"
  rw_overrideReason :: "string option"

definition toInsertRow :: "queued_record \<Rightarrow> audit_row" where
  "toInsertRow rec =
     \<lparr>rw_id = qr_id rec,
      rw_transactionId = ar_transactionId rec,
      rw_tenantId = ar_tenantId rec,
      rw_apiKeyId = ar_apiKeyId rec,
      rw_correlationId = ar_correlationId rec,
      rw_idempotencyKey = ar_idempotencyKey rec,
      rw_senderId = ar_senderId rec,
      rw_receiverId = ar_receiverId rec,
      rw_amount = ar_amount rec,
      rw_transactionType = ar_transactionType rec,
      rw_segment = ar_segment rec,
      rw_championModelVersion = ar_championModelVersion rec,
      rw_shadowModelVersion = ar_shadowModelVersion rec,
      rw_championScore = ar_championScore rec,
      rw_calibratedScore = ar_calibratedScore rec,
      rw_shadowScore = ar_shadowScore rec,
      rw_threshold = ar_threshold rec,
      rw_mlDecision = ar_mlDecision rec,
      rw_finalDecision = ar_finalDecision rec,
      rw_decisionSource = ar_decisionSource rec,
      rw_ruleId = ar_ruleId rec,
      rw_ruleName = ar_ruleName rec,
      rw_ruleStage = ar_ruleStage rec,
      rw_ruleExpression = ar_ruleExpression rec,
      rw_ruleAction = ar_ruleAction rec,
      rw_reasonCodes = ar_reasonCodes rec,
      rw_featuresSnapshot = ar_featuresSnapshot rec,
      rw_featuresDefault = ar_featuresDefault rec,
      rw_latencyMs = ar_latencyMs rec,
      rw_reviewedBy = None, rw_overrideDecision = None, rw_overrideReason = None\<rparr>"

text \<open>The unique constraint on \<open>(tenantId, transactionId)\<close>, in which nulls differ.\<close>

definition row_key :: "audit_row \<Rightarrow> (string \<times> string) option" where
  "row_key r = map_option (\<lambda>t. (t, rw_transactionId r)) (rw_tenantId r)"

definition conflicts :: "audit_row \<Rightarrow> audit_row list \<Rightarrow> bool" where
  "conflicts r table = (row_key r \<noteq> None \<and> row_key r \<in> row_key ` set table)"

text \<open>\<open>insert(rows).onConflict(...).ignore()\<close>\<close>

fun insert_ignore_rows :: "audit_row list \<Rightarrow> audit_row list \<Rightarrow> audit_row list" where
  "insert_ignore_rows table [] = table"
| "insert_ignore_rows table (r # rs) =
     insert_ignore_rows (if conflicts r table then table else table @ [r]) rs"

section \<open>Late fields\<close>

text \<open>A partial record: \<open>None\<close> where the field is not assigned.\<close>

record late_fields =
  lf_shadowScore :: "real option option"
  lf_featuresSnapshot :: "(string, jnum) omap option option"
  lf_featuresDefault :: "bool option"
  lf_reasonCodes :: "reason_code list option option"

definition no_late :: late_fields where
  "no_late = \<lparr>lf_shadowScore = None, lf_featuresSnapshot = None, lf_featuresDefault = None, lf_reasonCodes = None\<rparr>"

text \<open>\<open>Object.assign(record, fields)\<close>\<close>

definition assign_late :: "late_fields \<Rightarrow> 'a audit_record_scheme \<Rightarrow> 'a audit_record_scheme" where
  "assign_late f r = r
     \<lparr>ar_shadowScore := case_option (ar_shadowScore r) id (lf_shadowScore f),
      ar_featuresSnapshot := case_option (ar_featuresSnapshot r) id (lf_featuresSnapshot f),
      ar_featuresDefault := case_option (ar_featuresDefault r) id (lf_featuresDefault f),
      ar_reasonCodes := case_option (ar_reasonCodes r) id (lf_reasonCodes f)\<rparr>"

definition toEnrichmentUpdate :: "late_fields \<Rightarrow> audit_row \<Rightarrow> audit_row" where
  "toEnrichmentUpdate f r = r
     \<lparr>rw_shadowScore := case_option (rw_shadowScore r) id (lf_shadowScore f),
      rw_featuresDefault := case_option (rw_featuresDefault r) id (lf_featuresDefault f),
      rw_reasonCodes := case_option (rw_reasonCodes r) id (lf_reasonCodes f),
      rw_featuresSnapshot := case_option (rw_featuresSnapshot r) id (lf_featuresSnapshot f)\<rparr>"

section \<open>The write queue\<close>

record queue_opts =
  qo_capacity :: nat
  qo_batchSize :: nat

record audit_queue =
  aq_buffer :: "queued_record list"
  aq_flushing :: bool
  aq_failures :: nat

definition TRANSIENT_SQLSTATE_CLASSES :: "string list" where
  "TRANSIENT_SQLSTATE_CLASSES = [''08'', ''53'', ''57'', ''40'']"

definition isTransient :: "string option \<Rightarrow> bool" where
  "isTransient sqlstate =
     (case sqlstate of None \<Rightarrow> True | Some c \<Rightarrow> list_ex (\<lambda>cls. starts_with c cls) TRANSIENT_SQLSTATE_CLASSES)"

text \<open>\<open>None\<close> is the \<open>AuditQueueBackpressureError\<close>.\<close>

definition aq_enqueue :: "queue_opts \<Rightarrow> queued_record \<Rightarrow> audit_queue \<Rightarrow> audit_queue option" where
  "aq_enqueue opts rec q =
     (if qo_capacity opts \<le> length (aq_buffer q) then None
      else Some (q\<lparr>aq_buffer := aq_buffer q @ [rec]\<rparr>))"

fun patch_first :: "string \<Rightarrow> late_fields \<Rightarrow> queued_record list \<Rightarrow> queued_record list" where
  "patch_first i f [] = []"
| "patch_first i f (r # rs) = (if qr_id r = i then assign_late f r # rs else r # patch_first i f rs)"

definition aq_patch :: "string \<Rightarrow> late_fields \<Rightarrow> audit_queue \<Rightarrow> bool \<times> audit_queue" where
  "aq_patch i f q =
     (if list_ex (\<lambda>r. qr_id r = i) (aq_buffer q)
      then (True, q\<lparr>aq_buffer := patch_first i f (aq_buffer q)\<rparr>) else (False, q))"

text \<open>\<open>requeue\<close>; the rows it drops are the second component.\<close>

definition requeue :: "queue_opts \<Rightarrow> queued_record list \<Rightarrow> audit_queue \<Rightarrow> audit_queue \<times> queued_record list" where
  "requeue opts batch q =
     (let room = int (qo_capacity opts) - int (length (aq_buffer q));
          dropped = int (length batch) - room;
          k = nat (max 0 dropped)
      in (q\<lparr>aq_buffer := drop k batch @ aq_buffer q\<rparr>, take k batch))"

text \<open>
  \<open>flush\<close>: what it does before the insert is awaited, and after. The insert is written, or fails
  with an SQLSTATE or none.
\<close>

datatype flush_outcome = Written | Rejected "string option"

definition begin_flush :: "queue_opts \<Rightarrow> audit_queue \<Rightarrow> (queued_record list \<times> audit_queue) option" where
  "begin_flush opts q =
     (if aq_flushing q \<or> aq_buffer q = [] then None
      else Some (take (qo_batchSize opts) (aq_buffer q),
                 q\<lparr>aq_buffer := drop (qo_batchSize opts) (aq_buffer q), aq_flushing := True\<rparr>))"

definition end_flush ::
  "queue_opts \<Rightarrow> queued_record list \<Rightarrow> flush_outcome \<Rightarrow> audit_queue \<Rightarrow> audit_row list
    \<Rightarrow> audit_queue \<times> audit_row list \<times> queued_record list" where
  "end_flush opts batch out q table =
     (case out of
        Written \<Rightarrow>
          (q\<lparr>aq_failures := 0, aq_flushing := False\<rparr>, insert_ignore_rows table (map toInsertRow batch), [])
      | Rejected sqlstate \<Rightarrow>
          (let q1 = q\<lparr>aq_failures := Suc (aq_failures q)\<rparr> in
           if isTransient sqlstate
           then (let (q2, lost) = requeue opts batch q1 in (q2\<lparr>aq_flushing := False\<rparr>, table, lost))
           else (q1\<lparr>aq_flushing := False\<rparr>, table, batch)))"

text \<open>A flush with nothing happening while it waits.\<close>

definition flush ::
  "queue_opts \<Rightarrow> flush_outcome \<Rightarrow> audit_queue \<times> audit_row list \<times> queued_record list
    \<Rightarrow> audit_queue \<times> audit_row list \<times> queued_record list" where
  "flush opts out s =
     (let (q, table, lost) = s in
      case begin_flush opts q of
        None \<Rightarrow> s
      | Some (batch, q1) \<Rightarrow>
          (let (q2, table2, lost2) = end_flush opts batch out q1 table in (q2, table2, lost @ lost2)))"

text \<open>\<open>stop\<close>: attempt \<open>i\<close> of the loop meets the outcome \<open>outs i\<close>.\<close>

fun stop_loop ::
  "queue_opts \<Rightarrow> (nat \<Rightarrow> flush_outcome) \<Rightarrow> nat \<Rightarrow> nat \<Rightarrow> audit_queue \<times> audit_row list \<times> queued_record list
    \<Rightarrow> audit_queue \<times> audit_row list \<times> queued_record list" where
  "stop_loop opts outs i 0 s = s"
| "stop_loop opts outs i (Suc n) s =
     (if aq_buffer (fst s) = [] then s
      else let before = length (aq_buffer (fst s)); s' = flush opts (outs i) s
           in if before \<le> length (aq_buffer (fst s')) then s' else stop_loop opts outs (Suc i) n s')"

definition ceil_div :: "nat \<Rightarrow> nat \<Rightarrow> nat" where
  "ceil_div a b = (a + b - 1) div b"

definition stop ::
  "queue_opts \<Rightarrow> (nat \<Rightarrow> flush_outcome) \<Rightarrow> audit_queue \<times> audit_row list \<times> queued_record list
    \<Rightarrow> audit_queue \<times> audit_row list \<times> queued_record list" where
  "stop opts outs s =
     stop_loop opts outs 0 (ceil_div (length (aq_buffer (fst s))) (qo_batchSize opts) + 3) s"

section \<open>The service\<close>

datatype record_result = RecOk string | RecDuplicate | RecFailed

text \<open>\<open>record\<close> saves one row under a fresh id; it does not pass the calibrated score.\<close>

definition saved_row :: "string \<Rightarrow> audit_record \<Rightarrow> audit_row" where
  "saved_row i rec =
     \<lparr>rw_id = i,
      rw_transactionId = ar_transactionId rec,
      rw_tenantId = ar_tenantId rec,
      rw_apiKeyId = ar_apiKeyId rec,
      rw_correlationId = ar_correlationId rec,
      rw_idempotencyKey = ar_idempotencyKey rec,
      rw_senderId = ar_senderId rec,
      rw_receiverId = ar_receiverId rec,
      rw_amount = ar_amount rec,
      rw_transactionType = ar_transactionType rec,
      rw_segment = ar_segment rec,
      rw_championModelVersion = ar_championModelVersion rec,
      rw_shadowModelVersion = ar_shadowModelVersion rec,
      rw_championScore = ar_championScore rec,
      rw_calibratedScore = None,
      rw_shadowScore = ar_shadowScore rec,
      rw_threshold = ar_threshold rec,
      rw_mlDecision = ar_mlDecision rec,
      rw_finalDecision = ar_finalDecision rec,
      rw_decisionSource = ar_decisionSource rec,
      rw_ruleId = ar_ruleId rec,
      rw_ruleName = ar_ruleName rec,
      rw_ruleStage = ar_ruleStage rec,
      rw_ruleExpression = ar_ruleExpression rec,
      rw_ruleAction = ar_ruleAction rec,
      rw_reasonCodes = ar_reasonCodes rec,
      rw_featuresSnapshot = ar_featuresSnapshot rec,
      rw_featuresDefault = ar_featuresDefault rec,
      rw_latencyMs = ar_latencyMs rec,
      rw_reviewedBy = None, rw_overrideDecision = None, rw_overrideReason = None\<rparr>"

definition record_audit ::
  "bool \<Rightarrow> string \<Rightarrow> audit_record \<Rightarrow> audit_row list \<Rightarrow> record_result \<times> audit_row list" where
  "record_audit db_up i rec table =
     (if \<not> db_up then (RecFailed, table)
      else if conflicts (saved_row i rec) table then (RecDuplicate, table)
      else (RecOk i, table @ [saved_row i rec]))"

definition findIdByTenantAndTransaction :: "string option \<Rightarrow> string \<Rightarrow> audit_row list \<Rightarrow> string option" where
  "findIdByTenantAndTransaction tenantId transactionId table =
     map_option rw_id (find (\<lambda>r. rw_tenantId r = tenantId \<and> rw_transactionId r = transactionId) table)"

text \<open>\<open>None\<close> is the \<open>AuditPersistenceError\<close>.\<close>

definition recordDurable :: "bool \<Rightarrow> string \<Rightarrow> audit_record \<Rightarrow> audit_row list \<Rightarrow> string option \<times> audit_row list" where
  "recordDurable db_up i rec table =
     (let (result, table') = record_audit db_up i rec table in
      case result of
        RecOk j \<Rightarrow> (Some j, table')
      | RecDuplicate \<Rightarrow> (findIdByTenantAndTransaction (ar_tenantId rec) (ar_transactionId rec) table', table')
      | RecFailed \<Rightarrow> (None, table'))"

section \<open>Reviewer override\<close>

record transaction_label =
  tl_transactionId :: string
  tl_groundTruthFraud :: "bool option"
  tl_source :: "string option"
  tl_recordedBy :: "string option"

record override_input =
  ov_auditId :: string
  ov_reviewer :: string
  ov_decision :: decision
  ov_reason :: "string option"

definition applyOverride :: "override_input \<Rightarrow> audit_row list \<Rightarrow> bool \<times> audit_row option \<times> audit_row list" where
  "applyOverride inp table =
     (let hit = (\<lambda>r. rw_id r = ov_auditId inp \<and> rw_reviewedBy r = None);
          table' = map (\<lambda>r. if hit r
            then r\<lparr>rw_reviewedBy := Some (ov_reviewer inp), rw_overrideDecision := Some (ov_decision inp),
                   rw_overrideReason := ov_reason inp\<rparr> else r) table
      in (list_ex hit table, find (\<lambda>r. rw_id r = ov_auditId inp) table', table'))"

definition writeGroundTruth :: "string \<Rightarrow> bool \<Rightarrow> string \<Rightarrow> string \<Rightarrow> transaction_label list \<Rightarrow> transaction_label list" where
  "writeGroundTruth transactionId fraud source recordedBy labels =
     map (\<lambda>t. if tl_transactionId t = transactionId
       then t\<lparr>tl_groundTruthFraud := Some fraud, tl_source := Some source, tl_recordedBy := Some recordedBy\<rparr> else t) labels"

datatype override_outcome = Applied audit_row | AlreadyReviewed audit_row | OverrideNotFound

text \<open>The label write may fail; the override stands.\<close>

definition override ::
  "bool \<Rightarrow> override_input \<Rightarrow> audit_row list \<times> transaction_label list
    \<Rightarrow> override_outcome \<times> audit_row list \<times> transaction_label list" where
  "override label_up inp db =
     (let (table, labels) = db; (applied, row, table') = applyOverride inp table in
      case row of
        None \<Rightarrow> (OverrideNotFound, table', labels)
      | Some r \<Rightarrow>
          if \<not> applied then (AlreadyReviewed r, table', labels)
          else (Applied r, table',
                if label_up then writeGroundTruth (rw_transactionId r) (ov_decision inp = DECLINE)
                  ''REVIEWER_OVERRIDE'' (ov_reviewer inp) labels
                else labels))"

section \<open>The stream consumer\<close>

text \<open>
  A decision message carries an audit payload or not; an enrichment message an id and fields. The
  consumer state holds the parked enrichments with the time they were first seen. The database
  answers or fails, per statement.
\<close>

record parked =
  pk_id :: string
  pk_fields :: late_fields
  pk_firstSeen :: int

record consumer =
  sc_table :: "audit_row list"
  sc_pending :: "parked list"

definition PENDING_TTL_MS :: int where "PENDING_TTL_MS = 60000"
definition PENDING_CAP :: nat where "PENDING_CAP = 10000"

text \<open>The result lists the resolved offsets; \<open>False\<close> is the failure of the insert.\<close>

definition handleDecisionBatch ::
  "bool \<Rightarrow> (queued_record option \<times> nat) list \<Rightarrow> consumer \<Rightarrow> bool \<times> nat list \<times> consumer" where
  "handleDecisionBatch db_up messages st =
     (let rows = concat (map (\<lambda>(p, _). case p of Some rec \<Rightarrow> [toInsertRow rec] | None \<Rightarrow> []) messages);
          resolved = map snd messages
      in if rows = [] then (True, resolved, st)
         else if db_up then (True, resolved, st\<lparr>sc_table := insert_ignore_rows (sc_table st) rows\<rparr>)
         else (False, resolved, st))"

definition empty_update :: "late_fields \<Rightarrow> bool" where
  "empty_update f = (f = no_late)"

text \<open>\<open>applyEnrichment\<close>: \<open>None\<close> when the database fails, otherwise whether it applied.\<close>

definition applyEnrichment :: "bool \<Rightarrow> string \<Rightarrow> late_fields \<Rightarrow> audit_row list \<Rightarrow> (bool \<times> audit_row list) option" where
  "applyEnrichment db_up i f table =
     (if empty_update f then Some (True, table)
      else if \<not> db_up then None
      else Some (list_ex (\<lambda>r. rw_id r = i) table,
                 map (\<lambda>r. if rw_id r = i then toEnrichmentUpdate f r else r) table))"

definition park :: "int \<Rightarrow> string \<Rightarrow> late_fields \<Rightarrow> parked list \<Rightarrow> parked list" where
  "park now i f pending =
     (if PENDING_CAP \<le> length pending then tl pending else pending)
       @ [\<lparr>pk_id = i, pk_fields = f, pk_firstSeen = now\<rparr>]"

fun handleEnrichmentBatch ::
  "(nat \<Rightarrow> bool) \<Rightarrow> int \<Rightarrow> ((string \<times> late_fields) option \<times> nat) list \<Rightarrow> consumer \<Rightarrow> bool \<times> nat list \<times> consumer" where
  "handleEnrichmentBatch db_up now [] st = (True, [], st)"
| "handleEnrichmentBatch db_up now ((m, offset) # ms) st =
     (let next = (\<lambda>st'. case handleEnrichmentBatch db_up now ms st' of (ok, rs, st'') \<Rightarrow> (ok, offset # rs, st'')) in
      case m of
        None \<Rightarrow> next st
      | Some (i, f) \<Rightarrow>
          if i = [] then next st
          else case applyEnrichment (db_up offset) i f (sc_table st) of
            None \<Rightarrow> (False, [], st)
          | Some (applied, table') \<Rightarrow>
              next (st\<lparr>sc_table := table',
                       sc_pending := (if applied then sc_pending st else park now i f (sc_pending st))\<rparr>))"

fun retry_loop :: "(nat \<Rightarrow> bool) \<Rightarrow> int \<Rightarrow> nat \<Rightarrow> parked list \<Rightarrow> consumer \<Rightarrow> bool \<times> consumer" where
  "retry_loop db_up now k [] st = (True, st)"
| "retry_loop db_up now k (p # ps) st =
     (case applyEnrichment (db_up k) (pk_id p) (pk_fields p) (sc_table st) of
        None \<Rightarrow> (False, st)
      | Some (applied, table') \<Rightarrow>
          retry_loop db_up now (Suc k) ps
            (st\<lparr>sc_table := table',
                sc_pending := (if applied \<or> PENDING_TTL_MS < now - pk_firstSeen p then sc_pending st
                               else sc_pending st @ [p])\<rparr>))"

definition retryPending :: "(nat \<Rightarrow> bool) \<Rightarrow> int \<Rightarrow> consumer \<Rightarrow> bool \<times> consumer" where
  "retryPending db_up now st = retry_loop db_up now 0 (sc_pending st) (st\<lparr>sc_pending := []\<rparr>)"

section \<open>Insertion\<close>

lemma row_key_insert [simp]:
  "row_key (toInsertRow r) = map_option (\<lambda>t. (t, ar_transactionId r)) (ar_tenantId r)"
  by (simp add: row_key_def toInsertRow_def)

lemma insert_ignore_append:
  "insert_ignore_rows table (xs @ ys) = insert_ignore_rows (insert_ignore_rows table xs) ys"
  by (induction xs arbitrary: table) simp_all

lemma insert_ignore_keeps: "set table \<subseteq> set (insert_ignore_rows table rs)"
proof (induction rs arbitrary: table)
  case (Cons r rs)
  show ?case using Cons [of "if conflicts r table then table else table @ [r]"] by (auto split: if_splits)
qed simp

definition same_subject :: "audit_row \<Rightarrow> audit_row \<Rightarrow> bool" where
  "same_subject r r' = (rw_tenantId r = rw_tenantId r' \<and> rw_transactionId r = rw_transactionId r')"

lemma same_subject_refl [simp]: "same_subject r r"
  by (simp add: same_subject_def)

lemma conflicts_subject: "conflicts r table \<Longrightarrow> \<exists>r' \<in> set table. same_subject r r'"
proof -
  assume "conflicts r table"
  then obtain r' where "r' \<in> set table" "row_key r \<noteq> None" "row_key r = row_key r'"
    unfolding conflicts_def by blast
  moreover from this(2,3) have "same_subject r r'"
    by (cases "rw_tenantId r"; cases "rw_tenantId r'") (auto simp: row_key_def same_subject_def)
  ultimately show ?thesis by blast
qed

lemma insert_ignore_covers:
  assumes "r \<in> set rs"
  shows "\<exists>r' \<in> set (insert_ignore_rows table rs). same_subject r r'"
  using assms
proof (induction rs arbitrary: table)
  case (Cons a rs)
  let ?t = "if conflicts a table then table else table @ [a]"
  show ?case
  proof (cases "r \<in> set rs")
    case True
    then show ?thesis using Cons.IH [of ?t] by simp
  next
    case False
    then have "\<exists>r' \<in> set ?t. same_subject r r'" using Cons.prems conflicts_subject [of a table] by auto
    then show ?thesis unfolding insert_ignore_rows.simps using insert_ignore_keeps [of ?t rs] by blast
  qed
qed simp

section \<open>The queue under interleaving\<close>

text \<open>
  Requests enqueue and late values patch while a flush waits for its insert. What identifies a
  record, and the history of what was accepted, written and dropped.
\<close>

type_synonym stamp = "string \<times> string option \<times> string"

definition stamp_of :: "queued_record \<Rightarrow> stamp" where
  "stamp_of r = (qr_id r, ar_tenantId r, ar_transactionId r)"

record audit_sys =
  sy_queue :: audit_queue
  sy_inflight :: "queued_record list"
  sy_table :: "audit_row list"
  sy_accepted :: "stamp list"
  sy_written :: "stamp list"
  sy_dropped :: "stamp list"

inductive audit_step :: "queue_opts \<Rightarrow> audit_sys \<Rightarrow> audit_sys \<Rightarrow> bool" for opts where
  step_enqueue: "aq_enqueue opts r (sy_queue s) = Some q \<Longrightarrow>
    audit_step opts s (s\<lparr>sy_queue := q, sy_accepted := sy_accepted s @ [stamp_of r]\<rparr>)"
| step_patch: "aq_patch i f (sy_queue s) = (b, q) \<Longrightarrow> audit_step opts s (s\<lparr>sy_queue := q\<rparr>)"
| step_begin: "begin_flush opts (sy_queue s) = Some (batch, q) \<Longrightarrow>
    audit_step opts s (s\<lparr>sy_queue := q, sy_inflight := batch\<rparr>)"
| step_end: "aq_flushing (sy_queue s) \<Longrightarrow>
    end_flush opts (sy_inflight s) out (sy_queue s) (sy_table s) = (q, table, lost) \<Longrightarrow>
    audit_step opts s
      (s\<lparr>sy_queue := q, sy_table := table, sy_inflight := [],
         sy_written := sy_written s @ (if out = Written then map stamp_of (sy_inflight s) else []),
         sy_dropped := sy_dropped s @ map stamp_of lost\<rparr>)"

definition sys_init :: "audit_row list \<Rightarrow> audit_sys" where
  "sys_init table = \<lparr>sy_queue = \<lparr>aq_buffer = [], aq_flushing = False, aq_failures = 0\<rparr>, sy_inflight = [],
     sy_table = table, sy_accepted = [], sy_written = [], sy_dropped = []\<rparr>"

inductive audit_reach :: "queue_opts \<Rightarrow> audit_sys \<Rightarrow> bool" for opts where
  reach_init: "audit_reach opts (sys_init table)"
| reach_step: "audit_reach opts s \<Longrightarrow> audit_step opts s s' \<Longrightarrow> audit_reach opts s'"

definition pending :: "audit_sys \<Rightarrow> stamp list" where
  "pending s = map stamp_of (sy_inflight s @ aq_buffer (sy_queue s))"

text \<open>The table holds a row for the record's tenant and transaction.\<close>

definition covered :: "audit_row list \<Rightarrow> stamp \<Rightarrow> bool" where
  "covered table st = list_ex (\<lambda>r. rw_tenantId r = fst (snd st) \<and> rw_transactionId r = snd (snd st)) table"

lemma covered_mono: "covered table st \<Longrightarrow> covered (insert_ignore_rows table rs) st"
  using insert_ignore_keeps [of table rs] unfolding covered_def list_ex_iff by blast

lemma covered_insert:
  assumes "b \<in> set batch"
  shows "covered (insert_ignore_rows table (map toInsertRow batch)) (stamp_of b)"
proof -
  have "toInsertRow b \<in> set (map toInsertRow batch)" using assms by simp
  then obtain r where "r \<in> set (insert_ignore_rows table (map toInsertRow batch))" "same_subject (toInsertRow b) r"
    using insert_ignore_covers by blast
  moreover from this(2) have "rw_tenantId r = ar_tenantId b" "rw_transactionId r = ar_transactionId b"
    by (simp_all add: same_subject_def toInsertRow_def)
  ultimately show ?thesis unfolding covered_def list_ex_iff stamp_of_def by auto
qed

definition audit_inv :: "queue_opts \<Rightarrow> audit_sys \<Rightarrow> bool" where
  "audit_inv opts s =
     (length (aq_buffer (sy_queue s)) \<le> qo_capacity opts
      \<and> (\<not> aq_flushing (sy_queue s) \<longrightarrow> sy_inflight s = [])
      \<and> (\<exists>settled. sy_accepted s = settled @ pending s
           \<and> mset settled = mset (sy_written s) + mset (sy_dropped s))
      \<and> list_all (covered (sy_table s)) (sy_written s))"

lemma patch_first_stamps [simp]: "map stamp_of (patch_first i f rs) = map stamp_of rs"
    "length (patch_first i f rs) = length rs"
  by (induction rs) (simp_all add: stamp_of_def assign_late_def)

lemma requeue_parts:
  assumes "requeue opts batch q = (q', lost)" and "length (aq_buffer q) \<le> qo_capacity opts"
  shows "aq_buffer q' = drop (length lost) batch @ aq_buffer q" and "lost = take (length lost) batch"
    and "length (aq_buffer q') \<le> qo_capacity opts"
    and "lost \<noteq> [] \<Longrightarrow> length (aq_buffer q') = qo_capacity opts"
  using assms by (auto simp: requeue_def Let_def)

lemma end_flush_cases:
  assumes "end_flush opts batch out q table = (q', table', lost)" and "length (aq_buffer q) \<le> qo_capacity opts"
  obtains (written) "out = Written" "aq_buffer q' = aq_buffer q" "lost = []"
      "table' = insert_ignore_rows table (map toInsertRow batch)" "\<not> aq_flushing q'"
    | (kept) "out \<noteq> Written" "aq_buffer q' = drop (length lost) batch @ aq_buffer q" "lost = take (length lost) batch"
      "length (aq_buffer q') \<le> qo_capacity opts" "table' = table" "\<not> aq_flushing q'"
proof (cases out)
  case Written
  then show thesis using written assms(1) by (auto simp: end_flush_def)
next
  case (Rejected c)
  show thesis
  proof (cases "isTransient c")
    case True
    let ?q = "q\<lparr>aq_failures := Suc (aq_failures q)\<rparr>"
    obtain q2 l2 where r: "requeue opts batch ?q = (q2, l2)" by (cases "requeue opts batch ?q")
    have "q' = q2\<lparr>aq_flushing := False\<rparr>" "table' = table" "lost = l2"
      using assms(1) Rejected True r by (auto simp: end_flush_def Let_def)
    then show thesis using requeue_parts [OF r] assms(2) Rejected kept by auto
  next
    case False
    then show thesis using assms Rejected kept by (auto simp: end_flush_def Let_def)
  qed
qed

lemma begin_flush_parts:
  assumes "begin_flush opts q = Some (batch, q')"
  shows "batch @ aq_buffer q' = aq_buffer q" and "aq_flushing q'" and "\<not> aq_flushing q"
    and "length (aq_buffer q') \<le> length (aq_buffer q)"
  using assms by (auto simp: begin_flush_def split: if_splits)

lemma audit_inv_step:
  assumes "audit_step opts s s'" and "audit_inv opts s"
  shows "audit_inv opts s'"
  using assms(1)
proof cases
  case (step_enqueue r q)
  then show ?thesis
    using assms(2) by (auto simp: audit_inv_def aq_enqueue_def pending_def split: if_splits)
next
  case (step_patch i f b q)
  have "map stamp_of (aq_buffer q) = map stamp_of (aq_buffer (sy_queue s))"
      "length (aq_buffer q) = length (aq_buffer (sy_queue s))" "aq_flushing q = aq_flushing (sy_queue s)"
    using step_patch(2) by (auto simp: aq_patch_def split: if_splits)
  then show ?thesis using assms(2) step_patch(1) by (simp add: audit_inv_def pending_def)
next
  case (step_begin batch q)
  note b = begin_flush_parts [OF step_begin(2)]
  have "sy_inflight s = []" using assms(2) b(3) by (simp add: audit_inv_def)
  moreover have "map stamp_of batch @ map stamp_of (aq_buffer q) = map stamp_of (aq_buffer (sy_queue s))"
    unfolding b(1) [symmetric] by simp
  ultimately show ?thesis
    using assms(2) step_begin(1) b(2,4) by (simp add: audit_inv_def pending_def)
next
  case (step_end out q table lost)
  from assms(2) obtain settled where cap: "length (aq_buffer (sy_queue s)) \<le> qo_capacity opts"
    and acc: "sy_accepted s = settled @ pending s"
    and bal: "mset settled = mset (sy_written s) + mset (sy_dropped s)"
    and wr: "list_all (covered (sy_table s)) (sy_written s)"
    unfolding audit_inv_def by blast
  from step_end(3) cap show ?thesis
  proof (cases rule: end_flush_cases)
    case written
    have "list_all (covered table) (map stamp_of (sy_inflight s))" "list_all (covered table) (sy_written s)"
      using wr covered_insert covered_mono unfolding written(4) list_all_iff by auto
    then have "list_all (covered table) (sy_written s')" by (simp add: step_end(1) written(1))
    moreover have "sy_accepted s' = (settled @ map stamp_of (sy_inflight s)) @ pending s'"
      using acc by (simp add: step_end(1) pending_def written(2))
    moreover have "mset (settled @ map stamp_of (sy_inflight s)) = mset (sy_written s') + mset (sy_dropped s')"
      using bal by (simp add: step_end(1) written(1,3))
    ultimately show ?thesis
      unfolding audit_inv_def using cap by (auto simp: step_end(1) written(2))
  next
    case kept
    have "lost @ drop (length lost) (sy_inflight s) = sy_inflight s"
      by (subst kept(3)) (rule append_take_drop_id)
    from arg_cong [OF this, of "map stamp_of"]
    have "map stamp_of lost @ map stamp_of (drop (length lost) (sy_inflight s)) = map stamp_of (sy_inflight s)"
      by (simp only: map_append)
    then have p: "pending s = map stamp_of lost @ pending s'"
      unfolding pending_def by (simp add: step_end(1) kept(2) drop_map)
    have "sy_accepted s' = (settled @ map stamp_of lost) @ pending s'"
      using acc p by (simp add: step_end(1))
    moreover have "mset (settled @ map stamp_of lost) = mset (sy_written s') + mset (sy_dropped s')"
      using bal kept(1) by (simp add: step_end(1))
    ultimately show ?thesis
      unfolding audit_inv_def using kept(1,4,5) wr by (auto simp: step_end(1))
  qed
qed

lemma audit_reach_inv: "audit_reach opts s \<Longrightarrow> audit_inv opts s"
proof (induction rule: audit_reach.induct)
  case (reach_init table)
  show ?case by (simp add: audit_inv_def sys_init_def pending_def)
next
  case (reach_step s s')
  then show ?case using audit_inv_step by blast
qed

section \<open>Properties\<close>

definition sample_record :: audit_record where
  "sample_record = \<lparr>ar_transactionId = ''tx-1'', ar_tenantId = Some ''a'', ar_apiKeyId = None, ar_correlationId = None,
     ar_idempotencyKey = None, ar_senderId = ''s'', ar_receiverId = Some ''r'', ar_amount = JNum (Fin 5),
     ar_transactionType = None, ar_segment = None, ar_championModelVersion = ''v1'', ar_shadowModelVersion = None,
     ar_championScore = 1 / 2, ar_calibratedScore = Some (1 / 4), ar_shadowScore = None, ar_threshold = 4 / 5,
     ar_mlDecision = decision.ACCEPT, ar_finalDecision = decision.ACCEPT, ar_decisionSource = MlSource,
     ar_ruleId = None, ar_ruleName = None, ar_ruleStage = None, ar_ruleExpression = None, ar_ruleAction = None,
     ar_reasonCodes = None, ar_featuresSnapshot = None, ar_featuresDefault = False, ar_latencyMs = 3\<rparr>"

definition queued :: "string \<Rightarrow> audit_record \<Rightarrow> queued_record" where
  "queued i rec = audit_record.extend rec \<lparr>qr_id = i\<rparr>"

text \<open>
  C7: the write queue loses no decision silently. However enqueues, late patches and the two
  halves of a flush interleave, the buffer stays within its capacity, the records not yet
  settled are exactly the latest accepted ones, still in order, every settled record was either
  written or dropped by a failed flush, and for every written one the table has a row of its tenant
  and transaction.
\<close>

theorem audit_rows_conserved:
  assumes "audit_reach opts s"
  shows "length (aq_buffer (sy_queue s)) \<le> qo_capacity opts
    \<and> (\<exists>settled. sy_accepted s = settled @ pending s
         \<and> mset settled = mset (sy_written s) + mset (sy_dropped s))
    \<and> list_all (covered (sy_table s)) (sy_written s)"
  using audit_reach_inv [OF assms] by (simp add: audit_inv_def)

theorem audit_rows_conserved_witness:
  "\<exists>s. audit_reach \<lparr>qo_capacity = 1, qo_batchSize = 1\<rparr> s
    \<and> sy_accepted s = [stamp_of (queued ''1'' sample_record)]
    \<and> mset [stamp_of (queued ''1'' sample_record)] = mset (sy_written s) + mset (sy_dropped s)"
proof -
  let ?o = "\<lparr>qo_capacity = 1, qo_batchSize = 1\<rparr>" and ?r = "queued ''1'' sample_record"
  let ?s0 = "sys_init []"
  let ?q1 = "\<lparr>aq_buffer = [?r], aq_flushing = False, aq_failures = 0\<rparr>"
  let ?s1 = "?s0\<lparr>sy_queue := ?q1, sy_accepted := sy_accepted ?s0 @ [stamp_of ?r]\<rparr>"
  let ?q2 = "\<lparr>aq_buffer = [], aq_flushing = True, aq_failures = 0\<rparr>"
  let ?s2 = "?s1\<lparr>sy_queue := ?q2, sy_inflight := [?r]\<rparr>"
  let ?q3 = "\<lparr>aq_buffer = [], aq_flushing = False, aq_failures = 0\<rparr>"
  let ?s3 = "?s2\<lparr>sy_queue := ?q3, sy_table := insert_ignore_rows (sy_table ?s2) (map toInsertRow [?r]),
    sy_inflight := [], sy_written := sy_written ?s2 @ map stamp_of (sy_inflight ?s2), sy_dropped := sy_dropped ?s2 @ map stamp_of []\<rparr>"
  have 1: "audit_step ?o ?s0 ?s1" by (rule step_enqueue) (simp add: aq_enqueue_def sys_init_def)
  have 2: "audit_step ?o ?s1 ?s2" by (rule step_begin) (simp add: begin_flush_def)
  have 3: "audit_step ?o ?s2 ?s3"
    using step_end [of ?s2 ?o Written ?q3 "insert_ignore_rows (sy_table ?s2) (map toInsertRow [?r])" "[]"]
    by (simp add: end_flush_def)
  have r: "audit_reach ?o ?s3" by (rule reach_step [OF reach_step [OF reach_step [OF reach_init 1] 2] 3])
  have acc: "sy_accepted ?s3 = [stamp_of ?r]" by (simp add: sys_init_def)
  have "pending ?s3 = []" by (simp add: pending_def)
  with audit_rows_conserved [OF r] acc
  have "mset [stamp_of ?r] = mset (sy_written ?s3) + mset (sy_dropped ?s3)" by auto
  then show ?thesis using r acc by blast
qed

lemma flush_written:
  assumes "\<not> aq_flushing q" and "aq_buffer q \<noteq> []"
  shows "flush opts Written (q, table, lost) =
    (q\<lparr>aq_buffer := drop (qo_batchSize opts) (aq_buffer q), aq_failures := 0, aq_flushing := False\<rparr>,
     insert_ignore_rows table (map toInsertRow (take (qo_batchSize opts) (aq_buffer q))), lost)"
  using assms by (simp add: flush_def begin_flush_def end_flush_def)

lemma stop_loop_drains:
  assumes "\<not> aq_flushing q" and "0 < qo_batchSize opts" and "\<forall>i. outs i = Written"
    and "length (aq_buffer q) \<le> n * qo_batchSize opts"
  shows "\<exists>q'. stop_loop opts outs i n (q, table, lost) =
    (q', insert_ignore_rows table (map toInsertRow (aq_buffer q)), lost) \<and> aq_buffer q' = []"
  using assms(1,4)
proof (induction n arbitrary: q table i)
  case (Suc n)
  show ?case
  proof (cases "aq_buffer q = []")
    case False
    let ?b = "qo_batchSize opts"
    let ?q = "q\<lparr>aq_buffer := drop ?b (aq_buffer q), aq_failures := 0, aq_flushing := False\<rparr>"
    let ?t = "insert_ignore_rows table (map toInsertRow (take ?b (aq_buffer q)))"
    have f: "flush opts (outs i) (q, table, lost) = (?q, ?t, lost)"
      using flush_written [OF Suc.prems(1) False] assms(3) by simp
    have "length (aq_buffer ?q) < length (aq_buffer q)" using False assms(2) by simp
    then have "stop_loop opts outs i (Suc n) (q, table, lost) = stop_loop opts outs (Suc i) n (?q, ?t, lost)"
      using False f by simp
    moreover have "length (aq_buffer ?q) \<le> n * ?b" using Suc.prems(2) by simp
    moreover have "insert_ignore_rows ?t (map toInsertRow (aq_buffer ?q)) = insert_ignore_rows table (map toInsertRow (aq_buffer q))"
      unfolding insert_ignore_append [symmetric] map_append [symmetric] by simp
    ultimately show ?thesis using Suc.IH [of ?q "Suc i" ?t] by simp
  qed simp
qed simp

lemma ceil_div_covers: "0 < b \<Longrightarrow> a \<le> (ceil_div a b + 3) * b"
proof -
  assume "0 < b"
  then have "a + b - 1 < (a + b - 1) div b * b + b" using dividend_less_div_times [of b "a + b - 1"] by (simp add: ac_simps)
  then show ?thesis unfolding ceil_div_def by (simp add: algebra_simps)
qed

text \<open>
  With the database accepting writes, \<open>stop\<close> empties the buffer into the table: the loop's
  attempts are enough. But if the timer's flush is in flight when \<open>stop\<close> is called, the first
  \<open>flush\<close> returns at once, the buffer has not shrunk, and \<open>stop\<close> gives up with every buffered
  record unwritten, although the database is healthy.
\<close>

theorem stop_drains_unless_flushing:
  assumes "0 < qo_batchSize opts" and "\<forall>i. outs i = Written"
  shows "if aq_flushing q then stop opts outs (q, table, lost) = (q, table, lost)
    else \<exists>q'. stop opts outs (q, table, lost) =
           (q', insert_ignore_rows table (map toInsertRow (aq_buffer q)), lost) \<and> aq_buffer q' = []"
proof (cases "aq_flushing q")
  case True
  then have "flush opts Written (q, table, lost) = (q, table, lost)" by (simp add: flush_def begin_flush_def)
  then show ?thesis using True assms(2) by (simp add: stop_def numeral_eq_Suc)
next
  case False
  then show ?thesis
    using stop_loop_drains [OF False assms ceil_div_covers [OF assms(1)]] by (simp add: stop_def)
qed

theorem stop_drains_unless_flushing_witness:
  "stop \<lparr>qo_capacity = 9, qo_batchSize = 1\<rparr> (\<lambda>_. Written)
      (\<lparr>aq_buffer = [queued ''1'' sample_record], aq_flushing = True, aq_failures = 0\<rparr>, [], []) =
      (\<lparr>aq_buffer = [queued ''1'' sample_record], aq_flushing = True, aq_failures = 0\<rparr>, [], [])"
  using stop_drains_unless_flushing [of "\<lparr>qo_capacity = 9, qo_batchSize = 1\<rparr>" "\<lambda>_. Written"
      "\<lparr>aq_buffer = [queued ''1'' sample_record], aq_flushing = True, aq_failures = 0\<rparr>" "[]" "[]"]
  by simp

lemma recordDurable_persists:
  "case recordDurable db_up i rec table of
     (Some j, table') \<Rightarrow>
       list_ex (\<lambda>r. rw_id r = j \<and> rw_tenantId r = ar_tenantId rec \<and> rw_transactionId r = ar_transactionId rec) table'
       \<and> table' = (if conflicts (toInsertRow (queued i rec)) table then table
                   else table @ [(toInsertRow (queued i rec))\<lparr>rw_calibratedScore := None\<rparr>])
   | (None, table') \<Rightarrow> table' = table"
proof -
  have row: "saved_row i rec = (toInsertRow (queued i rec))\<lparr>rw_calibratedScore := None\<rparr>"
    by (simp add: saved_row_def toInsertRow_def queued_def audit_record.defs queued_record.defs)
  have key: "conflicts (saved_row i rec) table = conflicts (toInsertRow (queued i rec)) table"
    by (simp add: row conflicts_def row_key_def)
  have "list_ex (\<lambda>r. rw_id r = j \<and> rw_tenantId r = t \<and> rw_transactionId r = x) table"
    if "findIdByTenantAndTransaction t x table = Some j" for t x j
    using that by (auto simp: findIdByTenantAndTransaction_def find_Some_iff list_ex_iff)
  moreover have "rw_id (saved_row i rec) = i \<and> rw_tenantId (saved_row i rec) = ar_tenantId rec
      \<and> rw_transactionId (saved_row i rec) = ar_transactionId rec" by (simp add: saved_row_def)
  ultimately show ?thesis
    by (auto simp: recordDurable_def record_audit_def key row [symmetric] split: option.split)
qed

text \<open>
  Persist before respond. When \<open>recordDurable\<close> returns an id, the table has the row of that
  id for the record's tenant and transaction: the record's own row, without its calibrated score,
  which \<open>record\<close> does not pass on and a queued row keeps, or the row already there. When it
  throws, the table is as it was.
\<close>

theorem durable_write_is_persisted:
  "case recordDurable db_up i rec table of
     (Some j, table') \<Rightarrow>
       list_ex (\<lambda>r. rw_id r = j \<and> rw_tenantId r = ar_tenantId rec \<and> rw_transactionId r = ar_transactionId rec) table'
       \<and> table' = (if conflicts (toInsertRow (queued i rec)) table then table
                   else table @ [(toInsertRow (queued i rec))\<lparr>rw_calibratedScore := None\<rparr>])
   | (None, table') \<Rightarrow> table' = table"
  by (rule recordDurable_persists)

text \<open>
  The first reviewer's verdict stands. After an override of a row has been applied, any
  other override of the same row answers \<open>AlreadyReviewed\<close> with that verdict and changes neither the
  audit table nor the training labels.
\<close>

theorem first_review_stands:
  assumes "override up a (table, labels) = (Applied r0, table', labels')"
    and "ov_auditId b = ov_auditId a" and "distinct (map rw_id table)"
  shows "\<exists>r. override up' b (table', labels') = (AlreadyReviewed r, table', labels')
    \<and> rw_id r = ov_auditId a \<and> rw_reviewedBy r = Some (ov_reviewer a)
    \<and> rw_overrideDecision r = Some (ov_decision a)"
proof -
  let ?hit = "\<lambda>r. rw_id r = ov_auditId a \<and> rw_reviewedBy r = None"
  let ?mark = "\<lambda>r. if ?hit r then r\<lparr>rw_reviewedBy := Some (ov_reviewer a), rw_overrideDecision := Some (ov_decision a),
      rw_overrideReason := ov_reason a\<rparr> else r"
  have t': "table' = map ?mark table" and ex: "list_ex ?hit table"
    using assms(1) by (auto simp: override_def applyOverride_def Let_def split: option.splits if_splits)
  from ex obtain r1 where r1: "r1 \<in> set table" "?hit r1" by (auto simp: list_ex_iff)
  have none: "\<not> list_ex ?hit table'" by (auto simp: t' list_ex_iff)
  have in': "?mark r1 \<in> set table'" "rw_id (?mark r1) = ov_auditId a" using r1 by (auto simp: t')
  then obtain r where r: "find (\<lambda>r. rw_id r = ov_auditId a) table' = Some r"
    by (cases "find (\<lambda>r. rw_id r = ov_auditId a) table'") (auto simp: find_None_iff)
  then have "r \<in> set table'" "rw_id r = ov_auditId a" by (auto simp: find_Some_iff)
  moreover have "map rw_id table' = map rw_id table" unfolding t' map_map by (rule map_cong) auto
  then have "distinct (map rw_id table')" using assms(3) by simp
  ultimately have "r = ?mark r1"
    using in' eq_key_imp_eq_value [of "map (\<lambda>r. (rw_id r, r)) table'" "ov_auditId a" r "?mark r1"]
    by (force simp: comp_def)
  moreover have "map (\<lambda>r. if ?hit r then r\<lparr>rw_reviewedBy := Some (ov_reviewer b),
      rw_overrideDecision := Some (ov_decision b), rw_overrideReason := ov_reason b\<rparr> else r) table' = table'"
    using none by (intro map_idI) (auto simp: list_ex_iff)
  ultimately show ?thesis
    using none r r1 by (auto simp: override_def applyOverride_def assms(2))
qed

theorem first_review_stands_witness:
  "\<exists>r. override True \<lparr>ov_auditId = ''1'', ov_reviewer = ''bob'', ov_decision = decision.DECLINE, ov_reason = None\<rparr>
      ([(toInsertRow (queued ''1'' sample_record))\<lparr>rw_reviewedBy := Some ''ann'', rw_overrideDecision := Some decision.ACCEPT\<rparr>], [])
      = (AlreadyReviewed r, [(toInsertRow (queued ''1'' sample_record))
          \<lparr>rw_reviewedBy := Some ''ann'', rw_overrideDecision := Some decision.ACCEPT\<rparr>], [])
    \<and> rw_reviewedBy r = Some ''ann''"
proof -
  let ?a = "\<lparr>ov_auditId = ''1'', ov_reviewer = ''ann'', ov_decision = decision.ACCEPT, ov_reason = None\<rparr>"
  let ?b = "\<lparr>ov_auditId = ''1'', ov_reviewer = ''bob'', ov_decision = decision.DECLINE, ov_reason = None\<rparr>"
  let ?row = "toInsertRow (queued ''1'' sample_record)"
  let ?row' = "?row\<lparr>rw_reviewedBy := Some ''ann'', rw_overrideDecision := Some decision.ACCEPT\<rparr>"
  have "override True ?a ([?row], []) = (Applied ?row', [?row'], [])"
    by (simp add: override_def applyOverride_def Let_def writeGroundTruth_def toInsertRow_def queued_def
        audit_record.defs queued_record.defs)
  from first_review_stands [OF this, of ?b True] show ?thesis by auto
qed

text \<open>
  An insert that fails loses decisions from the audit table. \<open>handleDecisionBatch\<close> resolves
  every offset of the batch before it inserts, and offsets resolved when a batch handler
  throws are committed: when the insert fails, none of the batch's rows is in the table, and
  every one of its messages counts as processed. When it succeeds, every audited message has
  a row of its subject.
\<close>

theorem failed_insert_resolves_batch:
  assumes "handleDecisionBatch db_up ms st = (ok, resolved, st')"
  shows "resolved = map snd ms
    \<and> (\<not> ok \<longrightarrow> st' = st \<and> (\<exists>p \<in> set ms. fst p \<noteq> None))
    \<and> (ok \<longrightarrow> (\<forall>rec o'. (Some rec, o') \<in> set ms \<longrightarrow> covered (sc_table st') (stamp_of rec)))"
proof -
  define recs where "recs = concat (map (\<lambda>(p, _). case p of Some rec \<Rightarrow> [rec] | None \<Rightarrow> []) ms)"
  have rows: "concat (map (\<lambda>(p, _). case p of Some rec \<Rightarrow> [toInsertRow rec] | None \<Rightarrow> []) ms) = map toInsertRow recs"
    unfolding recs_def by (induction ms) (auto split: option.splits)
  have mem: "rec \<in> set recs" if "(Some rec, o') \<in> set ms" for rec o'
    using that unfolding recs_def by (force split: option.splits)
  have "\<forall>p \<in> set ms. fst p = None \<Longrightarrow> recs = []" unfolding recs_def by (induction ms) auto
  then have some: "recs \<noteq> [] \<Longrightarrow> \<exists>p \<in> set ms. fst p \<noteq> None" by blast
  have h: "resolved = map snd ms" "ok = (recs = [] \<or> db_up)"
      "st' = (if recs \<noteq> [] \<and> db_up then st\<lparr>sc_table := insert_ignore_rows (sc_table st) (map toInsertRow recs)\<rparr> else st)"
    using assms unfolding handleDecisionBatch_def rows Let_def by (auto split: if_splits)
  have "covered (sc_table st') (stamp_of rec)" if "ok" "(Some rec, o') \<in> set ms" for rec o'
  proof -
    have "rec \<in> set recs" by (rule mem [OF that(2)])
    then show ?thesis using h(2,3) that(1) covered_insert by auto
  qed
  moreover have "st' = st \<and> (\<exists>p \<in> set ms. fst p \<noteq> None)" if "\<not> ok"
    using h(2,3) that some by auto
  ultimately show ?thesis using h(1) by blast
qed

theorem failed_insert_resolves_batch_witness:
  "snd (handleDecisionBatch False [(Some (queued ''1'' sample_record), 7)] \<lparr>sc_table = [], sc_pending = []\<rparr>)
    = ([7], \<lparr>sc_table = [], sc_pending = []\<rparr>)"
proof -
  have h: "handleDecisionBatch False [(Some (queued ''1'' sample_record), 7)] \<lparr>sc_table = [], sc_pending = []\<rparr>
      = (False, [7], \<lparr>sc_table = [], sc_pending = []\<rparr>)"
    by (simp add: handleDecisionBatch_def)
  show ?thesis using failed_insert_resolves_batch [OF h] by (simp add: h)
qed

end
