(* ===== verification/PredictService.thy ===== *)
theory PredictService
  imports FeatureCatalog FeatureService AuditPipeline ModelRegistry Idempotency
begin

text \<open>
  \<open>src/v1/modules/rda\<close>: the decision path from an invocation to its response, its audit record
  and its published events, composed from the rule, feature, registry, scoring, audit and
  idempotency models. What the outside answers (the clock, Redis features, the inference breaker,
  the broker, the database, random ids) is an environment; publications that the code defers are
  appended to a list of effects in the order they are issued. Metrics and logs are not modelled.
\<close>

section \<open>Types\<close>

record predict_invocation =
  pi_request :: fields
  pi_traceId :: string
  pi_tenantId :: "string option"
  pi_apiKeyId :: "string option"
  pi_idempotencyKey :: "string option"

record model_meta =
  mm_championVersion :: string
  mm_shadowVersion :: "string option"
  mm_threshold :: real
  mm_reviewThreshold :: "real option"

record features_payload =
  fp_vector :: "jnum list"
  fp_snapshot :: "(string, jnum) omap"
  fp_isDefault :: bool

record inference_outcome =
  io_score :: real
  io_calibratedScore :: "real option"
  io_degraded :: bool

record ml_outcome =
  ml_score :: real
  ml_calibratedScore :: "real option"
  ml_decision :: decision
  ml_degraded :: bool

record final_verdict =
  fv_postRule :: "rule_hit option"
  fv_finalDecision :: decision
  fv_decisionSource :: decision_source

record decision_ctx =
  dc_invocation :: predict_invocation
  dc_startTime :: int
  dc_finalDecision :: decision
  dc_decisionSource :: decision_source
  dc_rule :: "rule_hit option"
  dc_mlScore :: real
  dc_calibratedScore :: "real option"
  dc_mlDecision :: decision
  dc_threshold :: real
  dc_championVersion :: string
  dc_shadowVersion :: "string option"
  dc_shadowScore :: "real option"
  dc_reasonCodes :: "reason_code list option"
  dc_featuresSnapshot :: "(string, jnum) omap option"
  dc_isDefault :: bool

abbreviation dc_request :: "decision_ctx \<Rightarrow> fields" where
  "dc_request ctx \<equiv> pi_request (dc_invocation ctx)"

record predict_response =
  pr_transaction_id :: string
  pr_fraud :: bool
  pr_fraud_probability :: real
  pr_decision :: decision
  pr_decision_source :: decision_source
  pr_reason_codes :: "reason_code list"
  pr_model_version :: string
  pr_threshold :: real
  pr_rule :: "(string \<times> string \<times> rule_stage) option"
  pr_audit_id :: "string option"
  pr_latency_ms :: int
  pr_timestamp :: int

record transaction_event =
  te_transaction_id :: string
  te_sender_id :: string
  te_receiver_id :: string
  te_amount :: jval
  te_fraud :: bool
  te_fraud_probability :: real
  te_decision :: decision
  te_decision_source :: decision_source
  te_rule_name :: "string option"
  te_audit_id :: "string option"
  te_processed_at :: int
  te_context :: fields
  te_audit :: "queued_record option"

record webhook_payload =
  wp_transaction_id :: string
  wp_sender_id :: string
  wp_receiver_id :: string
  wp_amount :: jval
  wp_decision :: decision
  wp_decision_source :: decision_source
  wp_model_version :: string
  wp_fraud_probability :: real
  wp_reason_codes :: "reason_code list option"
  wp_audit_id :: string

datatype effect =
    Publish transaction_event
  | PublishBlocked transaction_event string
  | PublishDurable transaction_event
  | Enrichment string late_fields
  | Webhook webhook_payload "string option"
  | PatchRow string late_fields

datatype predict_error = Backpressure nat | AuditPersistence string | DecisionPublish string | Internal

text \<open>The environment: configuration and the answers of the outside during one prediction.\<close>

record predict_env =
  pe_now :: int
  pe_end :: int
  pe_uuid :: string
  pe_rules :: rules_service
  pe_registry :: registry_env
  pe_settings :: settings_state
  pe_models :: registry_cache
  pe_catalog :: "(catalog_error, resolved_catalog) result"
  pe_getFeatures :: "string \<Rightarrow> string \<Rightarrow> fields \<times> bool"
  pe_fenv :: feature_env
  pe_weights :: "(string, real) omap option"
  pe_specs :: "(reason_spec \<times> nat) list"
  pe_onnx :: "jnum list \<Rightarrow> inference_outcome"
  pe_shadow :: "jnum list \<Rightarrow> real option"
  pe_sampled :: bool
  pe_enforce :: bool
  pe_fallbackDecision :: decision
  pe_stream :: bool
  pe_syncWrite :: bool
  pe_queue_opts :: queue_opts
  pe_db_up :: bool
  pe_broker_up :: bool

record predict_world =
  pw_queue :: audit_queue
  pw_table :: "audit_row list"
  pw_effects :: "effect list"

text \<open>A field the DTO types as a string; an optional one.\<close>

definition rq :: "fields \<Rightarrow> string \<Rightarrow> string" where
  "rq request k = js_to_string (field request k)"

definition rq_opt :: "fields \<Rightarrow> string \<Rightarrow> string option" where
  "rq_opt request k = (if nullish (field request k) then None else Some (rq request k))"

section \<open>Factories\<close>

text \<open>\<open>NONE\<close> is excluded by the argument's type.\<close>

definition ruleActionToDecision :: "rule_action \<Rightarrow> decision" where
  "ruleActionToDecision a =
     (case a of ALLOW \<Rightarrow> decision.ACCEPT | DENY \<Rightarrow> decision.DECLINE | rule_action.REVIEW \<Rightarrow> decision.REVIEW
      | NONE \<Rightarrow> undefined)"

definition fromPreRule ::
  "predict_invocation \<Rightarrow> int \<Rightarrow> rule_hit \<Rightarrow> model_meta \<Rightarrow> reason_code list option \<Rightarrow> (string, jnum) omap option
    \<Rightarrow> bool \<Rightarrow> decision_ctx" where
  "fromPreRule invn startTime hit meta reasonCodes featuresSnapshot isDefault =
     \<lparr>dc_invocation = invn,
      dc_startTime = startTime,
      dc_finalDecision = ruleActionToDecision (rule_action (fst hit)),
      dc_decisionSource = PreRule,
      dc_rule = Some hit,
      dc_mlScore = 0,
      dc_calibratedScore = None,
      dc_mlDecision = decision.ACCEPT,
      dc_threshold = mm_threshold meta,
      dc_championVersion = mm_championVersion meta,
      dc_shadowVersion = mm_shadowVersion meta,
      dc_shadowScore = None,
      dc_reasonCodes = reasonCodes,
      dc_featuresSnapshot = featuresSnapshot,
      dc_isDefault = isDefault\<rparr>"

definition fromMlDecision ::
  "predict_invocation \<Rightarrow> int \<Rightarrow> final_verdict \<Rightarrow> ml_outcome \<Rightarrow> model_meta \<Rightarrow> reason_code list
    \<Rightarrow> (string, jnum) omap \<Rightarrow> bool \<Rightarrow> decision_ctx" where
  "fromMlDecision invn startTime verdict ml meta reasonCodes featuresSnapshot isDefault =
     \<lparr>dc_invocation = invn,
      dc_startTime = startTime,
      dc_finalDecision = fv_finalDecision verdict,
      dc_decisionSource = fv_decisionSource verdict,
      dc_rule = fv_postRule verdict,
      dc_mlScore = ml_score ml,
      dc_calibratedScore = ml_calibratedScore ml,
      dc_mlDecision = ml_decision ml,
      dc_threshold = mm_threshold meta,
      dc_championVersion = mm_championVersion meta,
      dc_shadowVersion = mm_shadowVersion meta,
      dc_shadowScore = None,
      dc_reasonCodes = Some reasonCodes,
      dc_featuresSnapshot = Some featuresSnapshot,
      dc_isDefault = isDefault\<rparr>"

definition createRecord :: "decision_ctx \<Rightarrow> int \<Rightarrow> audit_record" where
  "createRecord ctx latencyMs =
     (let invn = dc_invocation ctx; request = dc_request ctx; rule = map_option fst (dc_rule ctx) in
     \<lparr>ar_transactionId = rq request ''transaction_id'',
      ar_tenantId = pi_tenantId invn,
      ar_apiKeyId = pi_apiKeyId invn,
      ar_correlationId = Some (pi_traceId invn),
      ar_idempotencyKey = pi_idempotencyKey invn,
      ar_senderId = rq request ''sender_id'',
      ar_receiverId = Some (rq request ''receiver_id''),
      ar_amount = field request ''amount'',
      ar_transactionType = Some (rq request ''transaction_type''),
      ar_segment = rq_opt request ''segment'',
      ar_championModelVersion = dc_championVersion ctx,
      ar_shadowModelVersion = dc_shadowVersion ctx,
      ar_championScore = dc_mlScore ctx,
      ar_calibratedScore = dc_calibratedScore ctx,
      ar_shadowScore = dc_shadowScore ctx,
      ar_threshold = dc_threshold ctx,
      ar_mlDecision = dc_mlDecision ctx,
      ar_finalDecision = dc_finalDecision ctx,
      ar_decisionSource = dc_decisionSource ctx,
      ar_ruleId = map_option rule_id rule,
      ar_ruleName = map_option rule_name rule,
      ar_ruleStage = map_option snd (dc_rule ctx),
      ar_ruleExpression = map_option rule_expression rule,
      ar_ruleAction = map_option rule_action rule,
      ar_reasonCodes = dc_reasonCodes ctx,
      ar_featuresSnapshot = dc_featuresSnapshot ctx,
      ar_featuresDefault = dc_isDefault ctx,
      ar_latencyMs = latencyMs\<rparr>)"

definition createResponse :: "int \<Rightarrow> decision_ctx \<Rightarrow> string option \<Rightarrow> int \<Rightarrow> predict_response" where
  "createResponse now ctx auditId latencyMs =
     \<lparr>pr_transaction_id = rq (dc_request ctx) ''transaction_id'',
      pr_fraud = (dc_finalDecision ctx = decision.DECLINE),
      pr_fraud_probability = round4 (dc_mlScore ctx),
      pr_decision = dc_finalDecision ctx,
      pr_decision_source = dc_decisionSource ctx,
      pr_reason_codes = (case dc_reasonCodes ctx of Some rs \<Rightarrow> rs | None \<Rightarrow> []),
      pr_model_version = dc_championVersion ctx,
      pr_threshold = dc_threshold ctx,
      pr_rule = map_option (\<lambda>(r, stage). (rule_id r, rule_name r, stage)) (dc_rule ctx),
      pr_audit_id = auditId,
      pr_latency_ms = latencyMs,
      pr_timestamp = now\<rparr>"

definition EVENT_CONTEXT :: "string list" where
  "EVENT_CONTEXT =
     [''transaction_type'', ''timestamp'', ''device_fingerprint'',
      ''customer_dob'', ''customer_nationality'', ''customer_type'', ''customer_id_type'', ''account_age_days'',
      ''is_authenticated'', ''channel'', ''currency'', ''is_inflow'', ''is_recurring'', ''wallet_balance'',
      ''customer_latitude'', ''customer_longitude'', ''transaction_country'', ''destination_country'', ''ip_country'',
      ''transaction_lat'', ''transaction_lng'', ''ip_is_vpn'', ''device_is_trusted'', ''device_type'',
      ''session_to_txn_seconds'', ''agent_id'', ''recipient_nationality'', ''recipient_id_type'', ''customer_fi'',
      ''recipient_fi'', ''request_context'', ''customer_account_name'', ''beneficiary_account_name'']"

definition fromDecisionContext :: "int \<Rightarrow> decision_ctx \<Rightarrow> string option \<Rightarrow> transaction_event" where
  "fromDecisionContext now ctx auditId =
     (let request = dc_request ctx in
     \<lparr>te_transaction_id = rq request ''transaction_id'',
      te_sender_id = rq request ''sender_id'',
      te_receiver_id = rq request ''receiver_id'',
      te_amount = field request ''amount'',
      te_fraud = (dc_finalDecision ctx = decision.DECLINE),
      te_fraud_probability = dc_mlScore ctx,
      te_decision = dc_finalDecision ctx,
      te_decision_source = dc_decisionSource ctx,
      te_rule_name = map_option (\<lambda>h. rule_name (fst h)) (dc_rule ctx),
      te_audit_id = auditId,
      te_processed_at = now,
      te_context = map (\<lambda>k. (k, field request k)) EVENT_CONTEXT,
      te_audit = None\<rparr>)"

section \<open>The steps\<close>

definition feature_object :: "(string, jnum) omap \<Rightarrow> jval" where
  "feature_object m = JObj (map (\<lambda>(k, v). (k, JNum v)) m)"

definition opt_jval :: "string option \<Rightarrow> jval" where
  "opt_jval t = (case t of Some s \<Rightarrow> JStr s | None \<Rightarrow> JUndef)"

definition buildRuleContext :: "fields \<Rightarrow> string option \<Rightarrow> (string, jnum) omap \<Rightarrow> rule_ctx" where
  "buildRuleContext request tenantId features =
     map (\<lambda>k. (k, field request k))
       [''transaction_id'', ''sender_id'', ''receiver_id'', ''amount'', ''transaction_type'', ''timestamp'', ''segment'']
     @ [(''tenant_id'', opt_jval tenantId)]
     @ map (\<lambda>k. (k, field request k))
       [''ip_country'', ''transaction_country'', ''destination_country'', ''ip_is_vpn'', ''device_is_trusted'',
        ''is_authenticated'', ''session_to_txn_seconds'', ''account_age_days'', ''channel'', ''currency'']
     @ [(''features'', feature_object features)]"

definition isHardRuleDecision :: "rule_hit option \<Rightarrow> rule_hit option" where
  "isHardRuleDecision hit =
     (case hit of Some h \<Rightarrow> if rule_action (fst h) \<noteq> NONE then Some h else None | None \<Rightarrow> None)"

definition resolveModel :: "predict_env \<Rightarrow> string option \<Rightarrow> model_meta" where
  "resolveModel env segment =
     (let r = resolve (pe_registry env) (pe_settings env) (pe_models env) segment in
     \<lparr>mm_championVersion = championVersion r, mm_shadowVersion = shadowVersion r, mm_threshold = threshold r,
      mm_reviewThreshold = reviewThreshold r\<rparr>)"

text \<open>A catalogue that does not load, or a builder that throws, is an \<open>Internal\<close> error.\<close>

definition loadFeatures :: "predict_env \<Rightarrow> fields \<Rightarrow> (predict_error, features_payload) result" where
  "loadFeatures env request =
     (case pe_catalog env of
        Inl _ \<Rightarrow> Inl Internal
      | Inr catalog \<Rightarrow>
          (let (redisSnapshot, isDefault) = pe_getFeatures env (rq request ''sender_id'') (rq request ''receiver_id'') in
           case buildFeatures (pe_fenv env) catalog request redisSnapshot (pe_now env) of
             Inl _ \<Rightarrow> Inl Internal
           | Inr b \<Rightarrow> Inr \<lparr>fp_vector = fb_vector b, fp_snapshot = fb_snapshot b, fp_isDefault = isDefault\<rparr>))"

definition explain_vector :: "predict_env \<Rightarrow> jnum list \<Rightarrow> reason_code list" where
  "explain_vector env v = explain (pe_weights env) (pe_specs env) v 3"

definition runInference :: "predict_env \<Rightarrow> jnum list \<Rightarrow> real \<Rightarrow> real option \<Rightarrow> ml_outcome" where
  "runInference env v thr review =
     (let outcome = pe_onnx env v in
      if io_degraded outcome
      then \<lparr>ml_score = io_score outcome, ml_calibratedScore = None, ml_decision = pe_fallbackDecision env,
            ml_degraded = True\<rparr>
      else let decisionScore = (if pe_enforce env then (case io_calibratedScore outcome of
                                  Some c \<Rightarrow> c | None \<Rightarrow> io_score outcome) else io_score outcome)
           in \<lparr>ml_score = io_score outcome, ml_calibratedScore = io_calibratedScore outcome,
               ml_decision = bandDecision decisionScore thr review, ml_degraded = False\<rparr>)"

definition decision_text :: "decision \<Rightarrow> string" where
  "decision_text d = (case d of decision.ACCEPT \<Rightarrow> ''ACCEPT'' | decision.DECLINE \<Rightarrow> ''DECLINE''
     | decision.REVIEW \<Rightarrow> ''REVIEW'')"

definition evaluatePostRules :: "predict_env \<Rightarrow> rule_ctx \<Rightarrow> ml_outcome \<Rightarrow> final_verdict" where
  "evaluatePostRules env baseCtx ml =
     (let postCtx = om_set ''ml_decision'' (JStr (decision_text (ml_decision ml)))
                      (om_set ''ml_score'' (JNum (Fin (ml_score ml))) baseCtx) in
      case isHardRuleDecision (evaluate_stage (pe_rules env) POST postCtx) of
        Some hit \<Rightarrow> \<lparr>fv_postRule = Some hit, fv_finalDecision = ruleActionToDecision (rule_action (fst hit)),
                     fv_decisionSource = PostRule\<rparr>
      | None \<Rightarrow> \<lparr>fv_postRule = None, fv_finalDecision = ml_decision ml,
                  fv_decisionSource = (if ml_degraded ml then BreakerFallback else MlSource)\<rparr>)"

text \<open>\<open>None\<close>: no late promise; \<open>Some None\<close>: it rejects, which is caught.\<close>

definition loadFeaturesForAudit :: "predict_env \<Rightarrow> fields \<Rightarrow> late_fields option" where
  "loadFeaturesForAudit env request =
     (case loadFeatures env request of
        Inl _ \<Rightarrow> None
      | Inr fp \<Rightarrow> Some (no_late\<lparr>lf_featuresSnapshot := Some (Some (fp_snapshot fp)),
                  lf_featuresDefault := Some (fp_isDefault fp),
                  lf_reasonCodes := Some (Some (explain_vector env (fp_vector fp)))\<rparr>))"

definition scoreShadow :: "predict_env \<Rightarrow> model_meta \<Rightarrow> jnum list \<Rightarrow> late_fields option option" where
  "scoreShadow env meta v =
     (if mm_shadowVersion meta = None \<or> \<not> pe_sampled env then None
      else Some (Some (no_late\<lparr>lf_shadowScore := Some (pe_shadow env v)\<rparr>)))"

section \<open>Finalising\<close>

definition emit :: "effect list \<Rightarrow> predict_world \<Rightarrow> predict_world" where
  "emit es w = w\<lparr>pw_effects := pw_effects w @ es\<rparr>"

definition publishBlockedEvent :: "decision_ctx \<Rightarrow> transaction_event \<Rightarrow> effect list" where
  "publishBlockedEvent ctx event =
     (if dc_finalDecision ctx = decision.DECLINE \<and> dc_decisionSource ctx \<noteq> BreakerFallback
      then [PublishBlocked event (te_transaction_id event)] else [])"

definition publishTransactionEvent :: "int \<Rightarrow> decision_ctx \<Rightarrow> string \<Rightarrow> effect list" where
  "publishTransactionEvent now ctx auditId =
     (let event = fromDecisionContext now ctx (Some auditId)
      in Publish event # publishBlockedEvent ctx event)"

definition publishDecisionWebhook :: "decision_ctx \<Rightarrow> string \<Rightarrow> effect list" where
  "publishDecisionWebhook ctx auditId =
     (let request = dc_request ctx in
      [Webhook
        \<lparr>wp_transaction_id = rq request ''transaction_id'',
         wp_sender_id = rq request ''sender_id'',
         wp_receiver_id = rq request ''receiver_id'',
         wp_amount = field request ''amount'',
         wp_decision = dc_finalDecision ctx,
         wp_decision_source = dc_decisionSource ctx,
         wp_model_version = dc_championVersion ctx,
         wp_fraud_probability = round4 (dc_mlScore ctx),
         wp_reason_codes = dc_reasonCodes ctx,
         wp_audit_id = auditId\<rparr>
        (pi_tenantId (dc_invocation ctx))])"

definition dispatchAsyncEffects :: "int \<Rightarrow> decision_ctx \<Rightarrow> string \<Rightarrow> effect list" where
  "dispatchAsyncEffects now ctx auditId =
     publishTransactionEvent now ctx auditId @ publishDecisionWebhook ctx auditId"

definition finalizeStream ::
  "predict_env \<Rightarrow> decision_ctx \<Rightarrow> audit_record \<Rightarrow> late_fields option option \<Rightarrow> int \<Rightarrow> predict_world
    \<Rightarrow> (predict_error, predict_response) result \<times> predict_world" where
  "finalizeStream env ctx rec late latencyMs w =
     (let auditId = pe_uuid env;
          event = (fromDecisionContext (pe_end env) ctx (Some auditId))\<lparr>te_audit := Some (queued auditId rec)\<rparr> in
      if \<not> pe_broker_up env then (Inl (DecisionPublish (rq (dc_request ctx) ''transaction_id'')), w)
      else (Inr (createResponse (pe_end env) ctx (Some auditId) latencyMs),
            emit (PublishDurable event
              # (case late of Some (Some f) \<Rightarrow> if f \<noteq> no_late then [Enrichment auditId f] else [] | _ \<Rightarrow> [])
              @ publishBlockedEvent ctx event @ publishDecisionWebhook ctx auditId) w))"

definition persistAudit ::
  "predict_env \<Rightarrow> audit_record \<Rightarrow> predict_world \<Rightarrow> (predict_error, string) result \<times> predict_world" where
  "persistAudit env rec w =
     (if \<not> pe_syncWrite env
      then (case aq_enqueue (pe_queue_opts env) (queued (pe_uuid env) rec) (pw_queue w) of
              None \<Rightarrow> (Inl (Backpressure (qo_capacity (pe_queue_opts env))), w)
            | Some q \<Rightarrow> (Inr (pe_uuid env), w\<lparr>pw_queue := q\<rparr>))
      else (let (i, table) = recordDurable (pe_db_up env) (pe_uuid env) rec (pw_table w) in
            case i of
              None \<Rightarrow> (Inl (AuditPersistence (ar_transactionId rec)), w\<lparr>pw_table := table\<rparr>)
            | Some j \<Rightarrow> (Inr j, w\<lparr>pw_table := table\<rparr>)))"

definition finalize ::
  "predict_env \<Rightarrow> decision_ctx \<Rightarrow> late_fields option option \<Rightarrow> predict_world
    \<Rightarrow> (predict_error, predict_response) result \<times> predict_world" where
  "finalize env ctx late w =
     (let latencyMs = pe_end env - dc_startTime ctx; rec = createRecord ctx latencyMs in
      if pe_stream env then finalizeStream env ctx rec late latencyMs w
      else
        let rec' = (if pe_syncWrite env
                    then (case late of Some (Some f) \<Rightarrow> assign_late f rec | _ \<Rightarrow> rec) else rec);
            (audit, w1) = persistAudit env rec' w in
        case audit of
          Inl e \<Rightarrow> (Inl e, w1)
        | Inr auditId \<Rightarrow>
            (Inr (createResponse (pe_end env) ctx (Some auditId) latencyMs),
             emit ((case late of Some (Some f) \<Rightarrow> if pe_syncWrite env then [] else [PatchRow auditId f] | _ \<Rightarrow> [])
                   @ dispatchAsyncEffects (pe_end env) ctx auditId) w1))"

section \<open>The prediction\<close>

definition model_segment :: "fields \<Rightarrow> string option" where
  "model_segment request =
     (if nullish (field request ''segment'') then rq_opt request ''transaction_type'' else rq_opt request ''segment'')"

definition predict ::
  "predict_env \<Rightarrow> predict_invocation \<Rightarrow> int \<Rightarrow> predict_world
    \<Rightarrow> (predict_error, predict_response) result \<times> predict_world" where
  "predict env invn startTime w =
     (let request = pi_request invn;
          modelMeta = resolveModel env (model_segment request);
          requestCtx = buildRuleContext request (pi_tenantId invn) []
      in case isHardRuleDecision (evaluateRequestOnlyPre (pe_rules env) requestCtx) of
        Some hit \<Rightarrow> finalize env (fromPreRule invn startTime hit modelMeta None None False)
                      (Some (loadFeaturesForAudit env request)) w
      | None \<Rightarrow>
          (case loadFeatures env request of
             Inl e \<Rightarrow> (Inl e, w)
           | Inr fp \<Rightarrow>
               (let ruleCtx = om_set ''features'' (feature_object (fp_snapshot fp)) requestCtx in
                case isHardRuleDecision (evaluate_stage (pe_rules env) PRE ruleCtx) of
                  Some hit \<Rightarrow> finalize env (fromPreRule invn startTime hit modelMeta
                                (Some (explain_vector env (fp_vector fp))) (Some (fp_snapshot fp)) (fp_isDefault fp)) None w
                | None \<Rightarrow>
                    (let ml = runInference env (fp_vector fp) (mm_threshold modelMeta) (mm_reviewThreshold modelMeta);
                         late = scoreShadow env modelMeta (fp_vector fp);
                         verdict = evaluatePostRules env ruleCtx ml
                     in finalize env (fromMlDecision invn startTime verdict ml modelMeta
                          (explain_vector env (fp_vector fp)) (fp_snapshot fp) (fp_isDefault fp)) late w))))"

section \<open>The rule context\<close>

lemma ctx_tenant_request: "ctx_tenant (buildRuleContext request tenant features) =
    (case tenant of Some t \<Rightarrow> truthy_str (Some t) | None \<Rightarrow> None)"
  by (simp add: ctx_tenant_def buildRuleContext_def field_def opt_jval_def split: option.split)

lemma same_request_features: "same_request ctx (om_set ''features'' v ctx)"
  by simp

section \<open>What a prediction decides\<close>

text \<open>
  The reference: rules and model in their documented order, with the features loaded. The PRE
  rules decide first, then the model, which the POST rules may overrule.
\<close>

definition decide ::
  "predict_env \<Rightarrow> predict_invocation \<Rightarrow> features_payload \<Rightarrow> decision \<times> decision_source \<times> rule_hit option" where
  "decide env invn fp =
     (let request = pi_request invn; meta = resolveModel env (model_segment request);
          ctx = om_set ''features'' (feature_object (fp_snapshot fp)) (buildRuleContext request (pi_tenantId invn) [])
      in case isHardRuleDecision (evaluate_stage (pe_rules env) PRE ctx) of
        Some hit \<Rightarrow> (ruleActionToDecision (rule_action (fst hit)), PreRule, Some hit)
      | None \<Rightarrow>
          (let v = evaluatePostRules env ctx (runInference env (fp_vector fp) (mm_threshold meta) (mm_reviewThreshold meta))
           in (fv_finalDecision v, fv_decisionSource v, fv_postRule v)))"

definition rule_ref :: "rule_hit \<Rightarrow> string \<times> string \<times> rule_stage" where
  "rule_ref = (\<lambda>(r, stage). (rule_id r, rule_name r, stage))"

definition outcome_of :: "predict_response \<Rightarrow> decision \<times> decision_source \<times> (string \<times> string \<times> rule_stage) option" where
  "outcome_of r = (pr_decision r, pr_decision_source r, pr_rule r)"

definition outcome_of_ctx :: "decision_ctx \<Rightarrow> decision \<times> decision_source \<times> (string \<times> string \<times> rule_stage) option" where
  "outcome_of_ctx ctx = (dc_finalDecision ctx, dc_decisionSource ctx, map_option rule_ref (dc_rule ctx))"

lemma outcome_createResponse [simp]: "outcome_of (createResponse now ctx i l) = outcome_of_ctx ctx"
  by (simp add: outcome_of_def outcome_of_ctx_def createResponse_def rule_ref_def)

lemma finalize_outcome: "finalize env ctx late w = (Inr resp, w') \<Longrightarrow> outcome_of resp = outcome_of_ctx ctx"
  by (auto simp: finalize_def finalizeStream_def Let_def split: if_splits sum.splits prod.splits)

text \<open>
  C2: the shortcut before the feature load is invisible in the answer. For a service loaded from
  validated rules and a request with a tenant, whenever \<open>predict\<close> answers and the features can be
  loaded, the decision, its source and the rule it names are those of the reference, which always
  loads the features and runs the full PRE pass first.
\<close>

theorem early_pass_is_invisible:
  assumes "reload table svc0 = Inr (pe_rules env)"
    and "\<And>row. row \<in> set table \<Longrightarrow> validated_row catalog row"
    and "pi_tenantId invn = Some t" and "t \<noteq> []"
    and "loadFeatures env (pi_request invn) = Inr fp"
    and "predict env invn startTime w = (Inr resp, w')"
  shows "outcome_of resp = (case decide env invn fp of (d, source, hit) \<Rightarrow> (d, source, map_option rule_ref hit))"
proof -
  let ?ctx = "buildRuleContext (pi_request invn) (pi_tenantId invn) []"
  let ?ctx' = "om_set ''features'' (feature_object (fp_snapshot fp)) ?ctx"
  have tenant: "ctx_tenant ?ctx = Some t" using assms(3,4) by (simp add: ctx_tenant_request)
  show ?thesis
  proof (cases "isHardRuleDecision (evaluateRequestOnlyPre (pe_rules env) ?ctx)")
    case (Some hit)
    then have early: "evaluateRequestOnlyPre (pe_rules env) ?ctx = Some hit"
      by (auto simp: isHardRuleDecision_def split: option.splits if_splits)
    then obtain h where hit: "hit = (h, PRE)" by (auto simp: evaluateRequestOnlyPre_def)
    have full: "evaluate_stage (pe_rules env) PRE ?ctx' = Some hit"
      using request_only_pass [OF assms(1,2) tenant same_request_features, of h] early unfolding hit by blast
    then have "decide env invn fp = (ruleActionToDecision (rule_action (fst hit)), PreRule, Some hit)"
      using Some early by (simp add: decide_def Let_def)
    moreover have "outcome_of resp =
        outcome_of_ctx (fromPreRule invn startTime hit (resolveModel env (model_segment (pi_request invn))) None None False)"
      using assms(6) Some finalize_outcome by (simp add: predict_def Let_def)
    ultimately show ?thesis by (simp add: outcome_of_ctx_def fromPreRule_def)
  next
    case None
    show ?thesis
    proof (cases "isHardRuleDecision (evaluate_stage (pe_rules env) PRE ?ctx')")
      case (Some hit)
      then have "outcome_of resp = outcome_of_ctx (fromPreRule invn startTime hit
          (resolveModel env (model_segment (pi_request invn))) (Some (explain_vector env (fp_vector fp)))
          (Some (fp_snapshot fp)) (fp_isDefault fp))"
        using assms(5,6) None finalize_outcome by (simp add: predict_def Let_def)
      then show ?thesis using Some by (simp add: decide_def Let_def outcome_of_ctx_def fromPreRule_def)
    next
      case none: None
      let ?meta = "resolveModel env (model_segment (pi_request invn))"
      let ?ml = "runInference env (fp_vector fp) (mm_threshold ?meta) (mm_reviewThreshold ?meta)"
      have "outcome_of resp = outcome_of_ctx (fromMlDecision invn startTime (evaluatePostRules env ?ctx' ?ml) ?ml ?meta
          (explain_vector env (fp_vector fp)) (fp_snapshot fp) (fp_isDefault fp))"
        using assms(5,6) None none finalize_outcome by (simp add: predict_def Let_def)
      then show ?thesis using none by (simp add: decide_def Let_def outcome_of_ctx_def fromMlDecision_def)
    qed
  qed
qed

section \<open>What a prediction leaves behind\<close>

definition event_agrees :: "predict_response \<Rightarrow> transaction_event \<Rightarrow> bool" where
  "event_agrees resp e =
     (te_transaction_id e = pr_transaction_id resp \<and> te_decision e = pr_decision resp
      \<and> te_decision_source e = pr_decision_source resp \<and> te_fraud e = pr_fraud resp \<and> te_audit_id e = pr_audit_id resp)"

definition record_agrees :: "predict_response \<Rightarrow> 'a audit_record_scheme \<Rightarrow> bool" where
  "record_agrees resp r =
     (ar_transactionId r = pr_transaction_id resp \<and> ar_finalDecision r = pr_decision resp
      \<and> ar_decisionSource r = pr_decision_source resp \<and> ar_championModelVersion r = pr_model_version resp
      \<and> ar_latencyMs r = pr_latency_ms resp)"

definition investigable :: "predict_response \<Rightarrow> bool" where
  "investigable resp = (pr_decision resp = decision.DECLINE \<and> pr_decision_source resp \<noteq> BreakerFallback)"

text \<open>Each publication carries the answer; a blocked event is only issued for an investigable one.\<close>

definition effect_agrees :: "predict_response \<Rightarrow> effect \<Rightarrow> bool" where
  "effect_agrees resp e =
     (case e of
        Publish ev \<Rightarrow> event_agrees resp ev
      | PublishBlocked ev k \<Rightarrow> event_agrees resp ev \<and> investigable resp \<and> k = pr_transaction_id resp
      | PublishDurable ev \<Rightarrow> event_agrees resp ev \<and>
          (case te_audit ev of Some r \<Rightarrow> record_agrees resp r \<and> Some (qr_id r) = pr_audit_id resp | None \<Rightarrow> False)
      | Webhook p t \<Rightarrow> wp_decision p = pr_decision resp \<and> wp_transaction_id p = pr_transaction_id resp
          \<and> Some (wp_audit_id p) = pr_audit_id resp
      | Enrichment i f \<Rightarrow> Some i = pr_audit_id resp
      | PatchRow i f \<Rightarrow> Some i = pr_audit_id resp)"

definition is_blocked :: "effect \<Rightarrow> bool" where
  "is_blocked e = (case e of PublishBlocked _ _ \<Rightarrow> True | _ \<Rightarrow> False)"

definition is_publish :: "effect \<Rightarrow> bool" where
  "is_publish e = (case e of Publish _ \<Rightarrow> True | PublishDurable _ \<Rightarrow> True | _ \<Rightarrow> False)"

text \<open>The answer is audited: in the log, in the queue, or in the table.\<close>

definition audited :: "predict_env \<Rightarrow> predict_response \<Rightarrow> predict_world \<Rightarrow> effect list \<Rightarrow> predict_world \<Rightarrow> bool" where
  "audited env resp w new w' =
     (if pe_stream env
      then list_ex (\<lambda>e. case e of PublishDurable _ \<Rightarrow> True | _ \<Rightarrow> False) new \<and> pw_queue w' = pw_queue w \<and> pw_table w' = pw_table w
      else if pe_syncWrite env
      then list_ex (\<lambda>r. Some (rw_id r) = pr_audit_id resp \<and> rw_transactionId r = pr_transaction_id resp) (pw_table w')
           \<and> pw_queue w' = pw_queue w
      else pw_table w' = pw_table w \<and>
        (case rev (aq_buffer (pw_queue w')) of
           [] \<Rightarrow> False
         | r # rs \<Rightarrow> rs = rev (aq_buffer (pw_queue w)) \<and> record_agrees resp r \<and> Some (qr_id r) = pr_audit_id resp))"

definition answer_ok :: "predict_env \<Rightarrow> predict_world \<Rightarrow> predict_response \<Rightarrow> predict_world \<Rightarrow> bool" where
  "answer_ok env w resp w' =
     (let new = drop (length (pw_effects w)) (pw_effects w') in
      take (length (pw_effects w)) (pw_effects w') = pw_effects w
      \<and> pr_fraud resp = (pr_decision resp = decision.DECLINE)
      \<and> list_all (effect_agrees resp) new
      \<and> length (filter is_publish new) = 1
      \<and> length (filter is_blocked new) = (if investigable resp then 1 else 0)
      \<and> audited env resp w new w')"

lemma queued_fields [simp]:
  "qr_id (queued i rec) = i" "record_agrees resp (queued i rec) = record_agrees resp rec"
  by (simp_all add: queued_def record_agrees_def audit_record.defs queued_record.defs)

lemma assign_late_agrees [simp]: "record_agrees resp (assign_late f rec) = record_agrees resp rec"
  by (simp add: record_agrees_def assign_late_def)

lemma created_agree:
  "record_agrees (createResponse now ctx i l) (createRecord ctx l)"
  "event_agrees (createResponse now ctx i l) (fromDecisionContext now' ctx i)"
  "te_transaction_id (fromDecisionContext now' ctx i) = pr_transaction_id (createResponse now ctx i l)"
  "event_agrees (createResponse now ctx i l) (e\<lparr>te_audit := a\<rparr>) = event_agrees (createResponse now ctx i l) e"
  "investigable (createResponse now ctx i l) =
     (dc_finalDecision ctx = decision.DECLINE \<and> dc_decisionSource ctx \<noteq> BreakerFallback)"
  "pr_fraud (createResponse now ctx i l) = (pr_decision (createResponse now ctx i l) = decision.DECLINE)"
  "pr_audit_id (createResponse now ctx i l) = i"
  by (simp_all add: record_agrees_def event_agrees_def investigable_def createResponse_def createRecord_def
      fromDecisionContext_def Let_def)

lemma blocked_agrees:
  assumes "event_agrees (createResponse now ctx i l) ev" and "te_transaction_id ev = pr_transaction_id (createResponse now ctx i l)"
  shows "list_all (effect_agrees (createResponse now ctx i l)) (publishBlockedEvent ctx ev)"
    and "filter is_publish (publishBlockedEvent ctx ev) = []"
    and "length (filter is_blocked (publishBlockedEvent ctx ev)) = (if investigable (createResponse now ctx i l) then 1 else 0)"
  using assms by (simp_all add: publishBlockedEvent_def effect_agrees_def is_publish_def is_blocked_def created_agree)

lemma webhook_agrees:
  "list_all (effect_agrees (createResponse now ctx (Some i) l)) (publishDecisionWebhook ctx i)"
  "filter is_publish (publishDecisionWebhook ctx i) = []" "filter is_blocked (publishDecisionWebhook ctx i) = []"
  by (simp_all add: publishDecisionWebhook_def effect_agrees_def is_publish_def is_blocked_def createResponse_def Let_def)

lemma finalizeStream_ok:
  assumes "pe_stream env"
  shows "case finalizeStream env ctx (createRecord ctx l) late l w of
      (Inl e, w') \<Rightarrow> w' = w | (Inr resp, w') \<Rightarrow> answer_ok env w resp w'"
proof (cases "pe_broker_up env")
  case True
  let ?i = "pe_uuid env"
  let ?r = "createResponse (pe_end env) ctx (Some ?i) l"
  let ?ev = "(fromDecisionContext (pe_end env) ctx (Some ?i))\<lparr>te_audit := Some (queued ?i (createRecord ctx l))\<rparr>"
  let ?late = "case late of Some (Some f) \<Rightarrow> if f \<noteq> no_late then [Enrichment ?i f] else [] | _ \<Rightarrow> []"
  have ev: "event_agrees ?r ?ev" "te_transaction_id ?ev = pr_transaction_id ?r" by (simp_all add: created_agree)
  have late: "list_all (effect_agrees ?r) ?late" "filter is_publish ?late = []" "filter is_blocked ?late = []"
    by (simp_all add: effect_agrees_def is_publish_def is_blocked_def created_agree split: option.split)
  have head: "effect_agrees ?r (PublishDurable ?ev)" using ev(1) by (simp add: effect_agrees_def created_agree)
  have f: "finalizeStream env ctx (createRecord ctx l) late l w =
      (Inr ?r, emit (PublishDurable ?ev # ?late @ publishBlockedEvent ctx ?ev @ publishDecisionWebhook ctx ?i) w)"
    using True by (simp add: finalizeStream_def Let_def)
  show ?thesis
    unfolding f prod.case sum.case answer_ok_def Let_def emit_def
    using assms late head blocked_agrees [OF ev] webhook_agrees
    by (simp add: created_agree audited_def is_publish_def is_blocked_def)
qed (simp add: finalizeStream_def Let_def)

lemma persistAudit_ok:
  assumes "\<not> pe_stream env" and "persistAudit env rec w = (r, w')"
  shows "pw_effects w' = pw_effects w"
    and "r = Inl e \<Longrightarrow> w' = w"
    and "r = Inr i \<Longrightarrow> record_agrees resp rec \<Longrightarrow> pr_audit_id resp = Some i \<Longrightarrow> audited env resp w new w'"
proof -
  show "pw_effects w' = pw_effects w"
    using assms(2) by (auto simp: persistAudit_def split: if_splits option.splits prod.splits)
  show "w' = w" if "r = Inl e"
    using assms(2) that recordDurable_persists [where db_up = "pe_db_up env" and i = "pe_uuid env" and rec = rec and table = "pw_table w"]
    by (auto simp: persistAudit_def split: if_splits option.splits prod.splits)
  show "audited env resp w new w'" if r: "r = Inr i" and agrees: "record_agrees resp rec" "pr_audit_id resp = Some i"
  proof (cases "pe_syncWrite env")
    case True
    then obtain table' where "recordDurable (pe_db_up env) (pe_uuid env) rec (pw_table w) = (Some i, table')"
      and w': "w' = w\<lparr>pw_table := table'\<rparr>"
      using assms(2) r by (auto simp: persistAudit_def split: option.splits prod.splits)
    then show ?thesis
      using recordDurable_persists [where db_up = "pe_db_up env" and i = "pe_uuid env" and rec = rec and table = "pw_table w"] agrees assms(1) True
      by (auto simp: audited_def record_agrees_def list_ex_iff)
  next
    case False
    then show ?thesis
      using assms r agrees by (auto simp: persistAudit_def audited_def aq_enqueue_def split: option.splits if_splits)
  qed
qed

lemma finalize_ok:
  "case finalize env ctx late w of (Inl e, w') \<Rightarrow> w' = w | (Inr resp, w') \<Rightarrow> answer_ok env w resp w'"
proof (cases "pe_stream env")
  case True
  then show ?thesis using finalizeStream_ok [OF True] by (simp add: finalize_def Let_def)
next
  case False
  define l where "l = pe_end env - dc_startTime ctx"
  define rec where "rec = (if pe_syncWrite env then (case late of Some (Some f) \<Rightarrow> assign_late f (createRecord ctx l)
      | _ \<Rightarrow> createRecord ctx l) else createRecord ctx l)"
  obtain a w1 where p: "persistAudit env rec w = (a, w1)" by (cases "persistAudit env rec w")
  note ok = persistAudit_ok [OF False p]
  have fin: "finalize env ctx late w =
      (case persistAudit env rec w of
         (Inl e, w1) \<Rightarrow> (Inl e, w1)
       | (Inr i, w1) \<Rightarrow> (Inr (createResponse (pe_end env) ctx (Some i) l),
           emit ((case late of Some (Some f) \<Rightarrow> if pe_syncWrite env then [] else [PatchRow i f] | _ \<Rightarrow> [])
                 @ dispatchAsyncEffects (pe_end env) ctx i) w1))"
    unfolding finalize_def Let_def rec_def l_def
    by (simp only: False if_False prod.case_distrib sum.case_distrib) (simp split: prod.split sum.split)
  show ?thesis
  proof (cases a)
    case (Inl e)
    then have "finalize env ctx late w = (Inl e, w1)"
      by (simp add: fin p)
    then show ?thesis using ok(2) Inl by simp
  next
    case (Inr i)
    let ?r = "createResponse (pe_end env) ctx (Some i) l"
    let ?ev = "fromDecisionContext (pe_end env) ctx (Some i)"
    let ?late = "case late of Some (Some f) \<Rightarrow> if pe_syncWrite env then [] else [PatchRow i f] | _ \<Rightarrow> []"
    have f: "finalize env ctx late w = (Inr ?r, emit (?late @ dispatchAsyncEffects (pe_end env) ctx i) w1)"
      by (simp add: fin p Inr)
    have ev: "event_agrees ?r ?ev" "te_transaction_id ?ev = pr_transaction_id ?r" by (simp_all add: created_agree)
    have late: "list_all (effect_agrees ?r) ?late" "filter is_publish ?late = []" "filter is_blocked ?late = []"
      by (simp_all add: effect_agrees_def is_publish_def is_blocked_def created_agree split: option.split)
    have head: "effect_agrees ?r (Publish ?ev)" using ev(1) by (simp add: effect_agrees_def)
    have "record_agrees ?r rec" by (simp add: rec_def created_agree split: option.split)
    then have "audited env ?r w new w1" for new using ok(3) Inr by (simp add: created_agree)
    then have aud: "audited env ?r w new (w1\<lparr>pw_effects := es\<rparr>)" for new es
      using False by (simp add: audited_def)
    show ?thesis
      unfolding f prod.case sum.case answer_ok_def Let_def emit_def dispatchAsyncEffects_def publishTransactionEvent_def
      using late head blocked_agrees [OF ev] webhook_agrees ok(1) aud
      by (simp add: created_agree is_publish_def is_blocked_def)
  qed
qed

lemma predict_ok:
  "case predict env invn startTime w of (Inl e, w') \<Rightarrow> w' = w | (Inr resp, w') \<Rightarrow> answer_ok env w resp w'"
  using finalize_ok by (auto simp: predict_def Let_def split: option.split sum.split)

lemma predict_failure: "predict env invn t w = (Inl e, w') \<Longrightarrow> w' = w"
  using predict_ok [where env = env and invn = invn and startTime = t and w = w] by simp


section \<open>A sample\<close>

text \<open>A tenant's payment from an embargoed country, which the first rule denies.\<close>

definition sample_payment :: fields where
  "sample_payment = sample_request @ [(''transaction_id'', JStr ''txn-000001''), (''sender_id'', JStr ''s1''),
     (''receiver_id'', JStr ''s2''), (''transaction_type'', JStr ''TRANSFER''), (''ip_country'', JStr ''KP'')]"

definition sample_invocation :: predict_invocation where
  "sample_invocation = \<lparr>pi_request = sample_payment, pi_traceId = ''req-1'', pi_tenantId = Some ''acme'',
     pi_apiKeyId = None, pi_idempotencyKey = Some ''k''\<rparr>"

definition sample_predict_env :: predict_env where
  "sample_predict_env = \<lparr>pe_now = 0, pe_end = 5, pe_uuid = ''a1'', pe_rules = sample_svc, pe_registry = env_plain,
     pe_settings = settings_none, pe_models = registry_reload db_empty, pe_catalog = Inr sample_catalog,
     pe_getFeatures = (\<lambda>_ _. ([], True)), pe_fenv = sample_env, pe_weights = None, pe_specs = [],
     pe_onnx = (\<lambda>_. \<lparr>io_score = 0, io_calibratedScore = None, io_degraded = True\<rparr>), pe_shadow = (\<lambda>_. None),
     pe_sampled = False, pe_enforce = False, pe_fallbackDecision = decision.REVIEW, pe_stream = False,
     pe_syncWrite = False,
     pe_queue_opts = \<lparr>qo_capacity = 10, qo_batchSize = 2\<rparr>,
     pe_db_up = True, pe_broker_up = True\<rparr>"

lemma sample_fields: "field sample_payment ''transaction_id'' = JStr ''txn-000001''" "field sample_payment ''ip_country'' = JStr ''KP''"
  "field sample_payment ''sender_id'' = JStr ''s1''" "field sample_payment ''segment'' = JUndef"
  by (simp_all add: sample_payment_def sample_request_def field_def)

lemma sample_early:
  "evaluateRequestOnlyPre sample_svc (buildRuleContext sample_payment (Some ''acme'') []) = Some (hd (preRules sample_svc), PRE)"
  by code_simp

definition sample_ctx_of :: "int \<Rightarrow> decision_ctx" where
  "sample_ctx_of t = fromPreRule sample_invocation t (hd (preRules sample_svc), PRE)
     (resolveModel sample_predict_env (model_segment sample_payment)) None None False"

definition sample_answer :: predict_response where
  "sample_answer = createResponse 5 (sample_ctx_of 0) (Some ''a1'') 5"

definition sample_predict_world :: predict_world where
  "sample_predict_world = \<lparr>pw_queue = \<lparr>aq_buffer = [], aq_flushing = False, aq_failures = 0\<rparr>, pw_table = [], pw_effects = []\<rparr>"

lemma sample_action: "rule_action (hd (preRules sample_svc)) = DENY"
  by code_simp

lemma sample_loads_features: "\<exists>fp. loadFeatures sample_predict_env sample_payment = Inr fp"
proof -
  have "request_ok sample_payment 0"
    by (simp add: request_ok_def sample_payment_def sample_request_def field_def categorical_def latitude_ok_def
        safeNumber_def eventDate_def)
  then have "\<exists>b. buildFeatures sample_env sample_catalog sample_payment [] 0 = Inr b"
    unfolding buildFeatures_def using build_loop_ok sample_ok(2) by blast
  then show ?thesis by (auto simp: loadFeatures_def sample_predict_env_def)
qed

lemma sample_predicts:
  assumes "length (aq_buffer (pw_queue w)) < 10"
  obtains w' where "predict sample_predict_env sample_invocation 0 w = (Inr sample_answer, w')"
    and "length (aq_buffer (pw_queue w')) = Suc (length (aq_buffer (pw_queue w)))"
proof -
  have early: "isHardRuleDecision (evaluateRequestOnlyPre (pe_rules sample_predict_env)
      (buildRuleContext (pi_request sample_invocation) (pi_tenantId sample_invocation) [])) = Some (hd (preRules sample_svc), PRE)"
    using sample_early sample_action by (simp add: isHardRuleDecision_def sample_predict_env_def sample_invocation_def)
  define late where "late = Some (loadFeaturesForAudit sample_predict_env sample_payment)"
  have "predict sample_predict_env sample_invocation 0 w = finalize sample_predict_env (sample_ctx_of 0) late w"
    unfolding predict_def Let_def early by (simp add: sample_ctx_of_def late_def sample_invocation_def)
  moreover have "\<exists>w'. finalize sample_predict_env (sample_ctx_of 0) late w = (Inr sample_answer, w')
      \<and> length (aq_buffer (pw_queue w')) = Suc (length (aq_buffer (pw_queue w)))"
    using assms by (simp add: finalize_def persistAudit_def aq_enqueue_def sample_predict_env_def emit_def Let_def
        sample_answer_def) (simp add: sample_ctx_of_def fromPreRule_def sample_predict_env_def)
  ultimately show thesis using that by auto
qed

theorem early_pass_is_invisible_witness:
  "\<exists>fp. outcome_of sample_answer = (case decide sample_predict_env sample_invocation fp of
      (d, source, hit) \<Rightarrow> (d, source, map_option rule_ref hit))"
proof -
  have loaded: "reload [sample_feature_row, sample_row] initial_service = Inr (pe_rules sample_predict_env)"
    using sample_loaded by (simp add: sample_predict_env_def)
  have valid: "validated_row [''hop_count''] row" if "row \<in> set [sample_feature_row, sample_row]" for row
    using that sample_rows_valid by auto
  have tenant: "pi_tenantId sample_invocation = Some ''acme''" by (simp add: sample_invocation_def)
  obtain fp where fp: "loadFeatures sample_predict_env (pi_request sample_invocation) = Inr fp"
    using sample_loads_features by (auto simp: sample_invocation_def)
  obtain w' where "predict sample_predict_env sample_invocation 0 sample_predict_world = (Inr sample_answer, w')"
    by (rule sample_predicts [of sample_predict_world]) (simp add: sample_predict_world_def)
  from early_pass_is_invisible [OF loaded valid tenant _ fp this] show ?thesis by auto
qed

end
