(* ===== verification/PredictExecution.thy ===== *)
theory PredictExecution
  imports PredictService
begin

text \<open>
  The execution of an invocation (\<open>predict.service.ts\<close>, \<open>executePrediction\<close> and its helpers) around
  the prediction, with the Redis state, and the HTTP answers of \<open>predict.controller.ts\<close>. What other
  requests do to Redis while this one waits is part of the environment: between its lookup and its
  lock, while it predicts, and at each poll. Commands other than the ones the code guards are
  answered.
\<close>

section \<open>Types\<close>

record 'r exec_env =
  xe_ops :: "'r redis_ops"
  xe_cfg :: idempotency_cfg
  xe_sha256 :: "string \<Rightarrow> string"
  xe_describe :: "string \<Rightarrow> string"
  xe_lock_value :: string
  xe_reachable :: bool
  xe_written :: bool
  xe_enforced :: bool
  xe_between :: "'r \<Rightarrow> 'r"
  xe_during :: "'r \<Rightarrow> 'r"
  xe_polls :: "int \<Rightarrow> 'r"

datatype predict_outcome =
    OutOk predict_response int
  | OutReplay jval
  | OutConflict
  | OutInFlight
  | OutDuplicate string

definition DEFAULT_TENANT :: string where "DEFAULT_TENANT = ''default''"

definition tenant_or_default :: "predict_invocation \<Rightarrow> string" where
  "tenant_or_default invn = (case pi_tenantId invn of Some t \<Rightarrow> t | None \<Rightarrow> DEFAULT_TENANT)"

text \<open>The response as the object that is stored; absent fields are left out, as the codec does.\<close>

definition source_text :: "decision_source \<Rightarrow> string" where
  "source_text s = (case s of MlSource \<Rightarrow> ''ML'' | PreRule \<Rightarrow> ''PRE_RULE'' | PostRule \<Rightarrow> ''POST_RULE''
     | BreakerFallback \<Rightarrow> ''BREAKER_FALLBACK'')"

definition reason_json :: "(string \<Rightarrow> string) \<Rightarrow> reason_code \<Rightarrow> jval" where
  "reason_json describe r =
     JObj [(''code'', JStr (rc_code r)), (''description'', JStr (describe (rc_code r))),
           (''contribution'', JNum (Fin (rc_contribution r))), (''value'', JNum (rc_value r)),
           (''basis'', JStr (case rc_basis r of HEURISTIC \<Rightarrow> ''HEURISTIC'' | MODEL_WEIGHTED \<Rightarrow> ''MODEL_WEIGHTED''))]"

definition response_json :: "(string \<Rightarrow> string) \<Rightarrow> predict_response \<Rightarrow> jval" where
  "response_json describe r =
     JObj ([(''transaction_id'', JStr (pr_transaction_id r)), (''fraud'', JBool (pr_fraud r)),
       (''fraud_probability'', JNum (Fin (pr_fraud_probability r))),
       (''decision'', JStr (decision_text (pr_decision r))),
       (''decision_source'', JStr (source_text (pr_decision_source r))),
       (''reason_codes'', JArr (map (reason_json describe) (pr_reason_codes r))),
       (''model_version'', JStr (pr_model_version r)), (''threshold'', JNum (Fin (pr_threshold r)))]
      @ (case pr_rule r of
           Some (i, n, stage) \<Rightarrow> [(''rule'', JObj [(''id'', JStr i), (''name'', JStr n),
             (''stage'', JStr (if stage = PRE then ''PRE'' else ''POST''))])]
         | None \<Rightarrow> [])
      @ (case pr_audit_id r of Some a \<Rightarrow> [(''audit_id'', JStr a)] | None \<Rightarrow> [])
      @ [(''latency_ms'', JNum (Fin (of_int (pr_latency_ms r)))), (''timestamp'', JNum (Fin (of_int (pr_timestamp r))))])"

section \<open>Execution\<close>

text \<open>\<open>runAndWrap\<close> with the failure handler as a state change; no step throws \<open>DuplicateTransactionError\<close>.\<close>

definition runAndWrap ::
  "predict_env \<Rightarrow> predict_invocation \<Rightarrow> ('r \<Rightarrow> 'r) \<Rightarrow> 'r \<Rightarrow> predict_world
    \<Rightarrow> (predict_error, predict_outcome) result \<times> 'r \<times> predict_world" where
  "runAndWrap env invn onFailure s w =
     (case predict env invn (pe_now env) w of
        (Inr response, w') \<Rightarrow> (Inr (OutOk response (pe_end env - pe_now env)), s, w')
      | (Inl e, w') \<Rightarrow> (Inl e, onFailure s, w'))"

definition executeWithoutIdempotencyKey ::
  "'r exec_env \<Rightarrow> predict_env \<Rightarrow> predict_invocation \<Rightarrow> 'r \<Rightarrow> predict_world
    \<Rightarrow> (predict_error, predict_outcome) result \<times> 'r \<times> predict_world" where
  "executeWithoutIdempotencyKey x env invn s w =
     (let tenantId = tenant_or_default invn; txn = rq (pi_request invn) ''transaction_id'';
          (reserved, s1) = reserveTransactionId (xe_ops x) (xe_cfg x) (pe_now env) tenantId txn s
      in if \<not> reserved then (Inr (OutDuplicate txn), s1, w)
         else runAndWrap env invn (releaseTransactionId (xe_ops x) (xe_reachable x) tenantId txn) (xe_during x s1) w)"

definition idem_input :: "predict_invocation \<Rightarrow> string \<Rightarrow> idempotency_input" where
  "idem_input invn key = \<lparr>in_tenantId = tenant_or_default invn, in_apiKeyId = pi_apiKeyId invn, in_key = key\<rparr>"

definition executeWithIdempotencyKey ::
  "'r exec_env \<Rightarrow> predict_env \<Rightarrow> predict_invocation \<Rightarrow> string \<Rightarrow> 'r \<Rightarrow> predict_world
    \<Rightarrow> (predict_error, predict_outcome) result \<times> 'r \<times> predict_world" where
  "executeWithIdempotencyKey x env invn key s w =
     (let ops = xe_ops x; cfg = xe_cfg x; i = idem_input invn key; now = pe_now env;
          requestHash = hashRequest (xe_sha256 x) (JObj (pi_request invn))
      in case lookup_idem ops cfg now i requestHash s of
        Replay r \<Rightarrow> (Inr (OutReplay r), s, w)
      | Conflict \<Rightarrow> (Inr OutConflict, s, w)
      | _ \<Rightarrow>
          (let (lock, s1) = acquireLock ops now i (xe_lock_value x) (xe_between x s) in
           if \<not> lock
           then (case waitForReplay ops cfg now i requestHash (xe_polls x) of
                   Replay r \<Rightarrow> (Inr (OutReplay r), s1, w)
                 | Conflict \<Rightarrow> (Inr OutConflict, s1, w)
                 | _ \<Rightarrow> (Inr OutInFlight, s1, w))
           else
             (let (outcome, s2, w2) = runAndWrap env invn id (xe_during x s1) w;
                  s3 = (case outcome of
                          Inr (OutOk response l) \<Rightarrow>
                            store ops cfg (pe_end env) (xe_written x) (xe_enforced x) i requestHash
                              (response_json (xe_describe x) response) (Some (IDEMPOTENCY_TTL_MS cfg)) s2
                        | _ \<Rightarrow> s2)
              in (outcome, releaseLock ops (pe_end env) (xe_reachable x) i (xe_lock_value x) s3, w2))))"

definition executePrediction ::
  "'r exec_env \<Rightarrow> predict_env \<Rightarrow> predict_invocation \<Rightarrow> 'r \<Rightarrow> predict_world
    \<Rightarrow> (predict_error, predict_outcome) result \<times> 'r \<times> predict_world" where
  "executePrediction x env invn s w =
     (case truthy_str (pi_idempotencyKey invn) of
        Some key \<Rightarrow> executeWithIdempotencyKey x env invn key s w
      | None \<Rightarrow> executeWithoutIdempotencyKey x env invn s w)"

section \<open>The controller\<close>

record credentials =
  cr_apiKey :: "(string \<times> string option) option"
  cr_auth :: "(string \<times> string option) option"

definition resolveTenantId :: "credentials \<Rightarrow> string option \<Rightarrow> string" where
  "resolveTenantId cr headerTenant =
     (let hasCredential = (cr_apiKey cr \<noteq> None \<or> cr_auth cr \<noteq> None);
          fromKey = (case cr_apiKey cr of Some (_, t) \<Rightarrow> t | None \<Rightarrow> None);
          fromAuth = (case cr_auth cr of Some (_, t) \<Rightarrow> t | None \<Rightarrow> None)
      in case fromKey of
           Some t \<Rightarrow> t
         | None \<Rightarrow>
             (case fromAuth of
                Some t \<Rightarrow> t
              | None \<Rightarrow>
                  (case (if hasCredential then truthy_str headerTenant else None) of
                     Some t \<Rightarrow> t
                   | None \<Rightarrow> ''default'')))"

datatype http_body = BodyResponse predict_response | BodyReplay jval | BodyError string "string option"

record http_reply =
  rp_status :: nat
  rp_headers :: "(string \<times> string) list"
  rp_body :: http_body

definition int_to_str :: "int \<Rightarrow> string" where
  "int_to_str i = num_to_str (Fin (of_int i))"

definition sendOutcome :: "predict_outcome \<Rightarrow> string \<Rightarrow> http_reply" where
  "sendOutcome outcome traceId =
     (let corr = (''X-Correlation-ID'', traceId) in
      case outcome of
        OutOk response latencyMs \<Rightarrow>
          \<lparr>rp_status = 200, rp_headers = [corr, (''X-Response-Time'', int_to_str latencyMs @ ''ms'')],
           rp_body = BodyResponse response\<rparr>
      | OutReplay r \<Rightarrow>
          \<lparr>rp_status = 200, rp_headers = [corr, (''Idempotency-Replay'', ''true'')], rp_body = BodyReplay r\<rparr>
      | OutConflict \<Rightarrow>
          \<lparr>rp_status = 422, rp_headers = [corr],
           rp_body = BodyError ''Idempotency-Key reused with a different request body'' (Some ''idempotency_body_mismatch'')\<rparr>
      | OutInFlight \<Rightarrow>
          \<lparr>rp_status = 409, rp_headers = [corr, (''Retry-After'', ''1'')],
           rp_body = BodyError ''Another request with this Idempotency-Key is still in flight'' (Some ''idempotency_in_flight'')\<rparr>
      | OutDuplicate txn \<Rightarrow>
          \<lparr>rp_status = 409, rp_headers = [corr],
           rp_body = BodyError (''transaction_id '' @ [CHR 0x22] @ txn @ [CHR 0x22] @ '' already processed for this tenant'')
             (Some ''duplicate_transaction'')\<rparr>)"

definition IDEMPOTENCY_KEY_MAX_LENGTH :: nat where
  "IDEMPOTENCY_KEY_MAX_LENGTH = 128"

text \<open>The catch: an application error answers with its status and message, without its error code.\<close>

definition app_error :: "predict_error \<Rightarrow> string option" where
  "app_error e =
     (case e of
        Backpressure capacity \<Rightarrow>
          Some (''Audit write queue full (cap='' @ nat_to_str capacity @ ''); rejecting predict'')
      | AuditPersistence txn \<Rightarrow> Some (''Decision could not be audited durably for transaction: '' @ txn)
      | DecisionPublish txn \<Rightarrow> Some (''Decision could not be durably published for transaction: '' @ txn)
      | Internal \<Rightarrow> None)"

definition sendError :: "predict_error \<Rightarrow> string \<Rightarrow> http_reply" where
  "sendError e traceId =
     (case app_error e of
        Some message \<Rightarrow>
          \<lparr>rp_status = 503, rp_headers = [(''X-Correlation-ID'', traceId), (''Retry-After'', ''1'')],
           rp_body = BodyError message None\<rparr>
      | None \<Rightarrow>
          \<lparr>rp_status = 500, rp_headers = [(''X-Correlation-ID'', traceId)],
           rp_body = BodyError ''Failed to process prediction request'' None\<rparr>)"

record predict_http =
  ph_body :: fields
  ph_credentials :: credentials
  ph_correlation :: "string option"
  ph_tenant :: "string option"
  ph_idempotency :: "string option"

definition http_invocation :: "string \<Rightarrow> predict_http \<Rightarrow> predict_invocation" where
  "http_invocation uuid req =
     \<lparr>pi_request = ph_body req,
      pi_traceId = ''req-'' @ (case truthy_str (ph_correlation req) of Some c \<Rightarrow> c | None \<Rightarrow> uuid),
      pi_tenantId = Some (resolveTenantId (ph_credentials req) (ph_tenant req)),
      pi_apiKeyId = map_option fst (cr_apiKey (ph_credentials req)),
      pi_idempotencyKey = truthy_str (ph_idempotency req)\<rparr>"

definition controller_predict ::
  "'r exec_env \<Rightarrow> predict_env \<Rightarrow> string \<Rightarrow> predict_http \<Rightarrow> 'r \<Rightarrow> predict_world \<Rightarrow> http_reply \<times> 'r \<times> predict_world" where
  "controller_predict x env uuid req s w =
     (let invn = http_invocation uuid req; traceId = pi_traceId invn in
      case pi_idempotencyKey invn of
        Some key \<Rightarrow>
          if IDEMPOTENCY_KEY_MAX_LENGTH < length key
          then (\<lparr>rp_status = 400, rp_headers = [(''X-Correlation-ID'', traceId)],
                 rp_body = BodyError ''Idempotency-Key must be 128 characters or fewer'' None\<rparr>, s, w)
          else (case executePrediction x env invn s w of
                  (Inr outcome, s', w') \<Rightarrow> (sendOutcome outcome traceId, s', w')
                | (Inl e, s', w') \<Rightarrow> (sendError e traceId, s', w'))
      | None \<Rightarrow>
          (case executePrediction x env invn s w of
             (Inr outcome, s', w') \<Rightarrow> (sendOutcome outcome traceId, s', w')
           | (Inl e, s', w') \<Rightarrow> (sendError e traceId, s', w')))"

section \<open>The reservation\<close>

definition reservation_ttl :: "idempotency_cfg \<Rightarrow> int" where
  "reservation_ttl cfg = max 60 (IDEMPOTENCY_TTL_MS cfg div 1000)"

text \<open>
  C22: the reservation of a transaction id follows the outcome. On any server with Redis' documented
  behaviour, and with no one else touching the key: a first request that fails releases the
  id, leaves nothing behind and so can be retried; one that answers keeps it, so that until the
  TTL every later request for the same tenant and id is a duplicate that runs nothing.
\<close>

theorem reservation_follows_outcome:
  assumes redis: "redis_store (xe_ops x)" and "xe_during x = id" and "xe_reachable x"
    and fresh: "rd_get (xe_ops x) (pe_now env) (txnKey (tenant_or_default invn) (rq (pi_request invn) ''transaction_id'')) s = None"
    and run: "executeWithoutIdempotencyKey x env invn s w = (outcome, s', w')"
    and later: "pe_now env \<le> pe_now env'" and same: "tenant_or_default invn' = tenant_or_default invn"
      "rq (pi_request invn') ''transaction_id'' = rq (pi_request invn) ''transaction_id''"
    and x': "xe_ops x' = xe_ops x"
  shows "case outcome of
      Inl e \<Rightarrow> w' = w \<and> rd_get (xe_ops x) (pe_now env') (txnKey (tenant_or_default invn) (rq (pi_request invn) ''transaction_id'')) s' = None
    | Inr r \<Rightarrow> (\<exists>resp l. r = OutOk resp l)
        \<and> (pe_now env' < pe_now env + 1000 * reservation_ttl (xe_cfg x) \<longrightarrow>
           executeWithoutIdempotencyKey x' env' invn' s' w' =
             (Inr (OutDuplicate (rq (pi_request invn) ''transaction_id'')), s', w'))"
proof -
  let ?ops = "xe_ops x" and ?t = "tenant_or_default invn" and ?txn = "rq (pi_request invn) ''transaction_id''"
  let ?s1 = "rd_set ?ops (pe_now env) (txnKey ?t ?txn) ''1'' (reservation_ttl (xe_cfg x)) s"
  have r: "reserveTransactionId ?ops (xe_cfg x) (pe_now env) ?t ?txn s = (True, ?s1)"
    by (simp add: reserveTransactionId_def redis_store.set_nx [OF redis] fresh reservation_ttl_def)
  show ?thesis
  proof (cases "predict env invn (pe_now env) w")
    case (Pair res w2)
    show ?thesis
    proof (cases res)
      case (Inl e)
      have "outcome = Inl e" "s' = releaseTransactionId ?ops True ?t ?txn ?s1" "w' = w2"
        using run r assms(2,3) Pair Inl by (simp_all add: executeWithoutIdempotencyKey_def runAndWrap_def Let_def)
      then show ?thesis
        using predict_failure Pair Inl by (simp add: releaseTransactionId_def redis_store.get_del [OF redis])
    next
      case (Inr resp)
      have o': "outcome = Inr (OutOk resp (pe_end env - pe_now env))" "s' = ?s1" "w' = w2"
        using run r assms(2) Pair Inr by (simp_all add: executeWithoutIdempotencyKey_def runAndWrap_def Let_def)
      have "\<not> fst (reserveTransactionId ?ops (xe_cfg x') (pe_now env') ?t ?txn ?s1)
          \<and> snd (reserveTransactionId ?ops (xe_cfg x') (pe_now env') ?t ?txn ?s1) = ?s1"
        if "pe_now env' < pe_now env + 1000 * reservation_ttl (xe_cfg x)"
        using that by (simp add: reserveTransactionId_def redis_store.set_nx [OF redis] redis_store.get_set [OF redis later])
      then show ?thesis
        using o' same x' by (auto simp: executeWithoutIdempotencyKey_def split_beta Let_def)
    qed
  qed
qed

section \<open>The idempotency key\<close>

lemma lockKey_not_respKey: "lockKey i \<noteq> respKey j"
  by (simp add: lockKey_def respKey_def)

lemma keyed_run_cases:
  assumes "executeWithIdempotencyKey x env invn key s w = (Inr (OutOk resp l), s', w')" and "xe_during x = id"
  obtains s1 where
    "lookup_idem (xe_ops x) (xe_cfg x) (pe_now env) (idem_input invn key)
       (hashRequest (xe_sha256 x) (JObj (pi_request invn))) s \<in> {Miss, InFlight}"
    and "acquireLock (xe_ops x) (pe_now env) (idem_input invn key) (xe_lock_value x) (xe_between x s) = (True, s1)"
    and "predict env invn (pe_now env) w = (Inr resp, w')"
    and "s' = releaseLock (xe_ops x) (pe_end env) (xe_reachable x) (idem_input invn key) (xe_lock_value x)
       (store (xe_ops x) (xe_cfg x) (pe_end env) (xe_written x) (xe_enforced x) (idem_input invn key)
          (hashRequest (xe_sha256 x) (JObj (pi_request invn))) (response_json (xe_describe x) resp)
          (Some (IDEMPOTENCY_TTL_MS (xe_cfg x))) s1)"
proof -
  let ?i = "idem_input invn key"
  let ?look = "lookup_idem (xe_ops x) (xe_cfg x) (pe_now env) ?i (hashRequest (xe_sha256 x) (JObj (pi_request invn))) s"
  have look: "?look \<in> {Miss, InFlight}"
    using assms(1) by (cases ?look) (auto simp: executeWithIdempotencyKey_def Let_def)
  obtain lock s1 where lock: "acquireLock (xe_ops x) (pe_now env) ?i (xe_lock_value x) (xe_between x s) = (lock, s1)"
    by (cases "acquireLock (xe_ops x) (pe_now env) ?i (xe_lock_value x) (xe_between x s)")
  obtain res w2 where p: "predict env invn (pe_now env) w = (res, w2)" by (cases "predict env invn (pe_now env) w")
  have "lock"
    using assms(1) look lock
    by (auto simp: executeWithIdempotencyKey_def Let_def split: idempotency_outcome.splits if_splits)
  then have "res = Inr resp \<and> w' = w2 \<and>
      s' = releaseLock (xe_ops x) (pe_end env) (xe_reachable x) ?i (xe_lock_value x)
       (store (xe_ops x) (xe_cfg x) (pe_end env) (xe_written x) (xe_enforced x) ?i
          (hashRequest (xe_sha256 x) (JObj (pi_request invn))) (response_json (xe_describe x) resp)
          (Some (IDEMPOTENCY_TTL_MS (xe_cfg x))) s1)"
    using assms look lock p
    by (cases res) (auto simp: executeWithIdempotencyKey_def Let_def runAndWrap_def)
  then show thesis using that look lock p \<open>lock\<close> by auto
qed

lemma keyed_run_stores:
  assumes redis: "redis_store (xe_ops x)" and gz: "\<And>t. gunzip (xe_cfg x) (gzip (xe_cfg x) t) = Some t"
    and "xe_written x" and "\<not> xe_enforced x" and plain: "json_plain r"
    and times: "now \<le> t" "t < now + 1000 * ttl_seconds ttl"
    and s': "s' = releaseLock (xe_ops x) now reach i v
       (store (xe_ops x) (xe_cfg x) now (xe_written x) (xe_enforced x) i h r (Some ttl) s1)"
  shows "lookup_idem (xe_ops x) (xe_cfg x) t i h' s' = (if h' = h then Replay r else Conflict)"
proof (rule redis_store.lookup_stored [OF redis _ gz plain])
  show "rd_get (xe_ops x) t (respKey i) s' = Some (encodeEntry (xe_cfg x) (entry_json h r))"
    using assms(3,4) times(2) lockKey_not_respKey [of i i]
    by (auto simp: s' releaseLock_def store_def Let_def redis_store.get_del [OF redis]
        redis_store.store_write_get [OF redis times(1)])
qed

lemma keyed_replay:
  assumes "redis_store (xe_ops x)" and "\<And>t. gunzip (xe_cfg x) (gzip (xe_cfg x) t) = Some t"
    and "xe_written x" and "\<not> xe_enforced x" and "xe_during x = id"
    and run: "executeWithIdempotencyKey x env invn key s w = (Inr (OutOk resp l), s', w')"
    and plain: "json_plain (response_json (xe_describe x) resp)"
    and times: "pe_end env \<le> pe_now env'" "pe_now env' < pe_end env + 1000 * ttl_seconds (IDEMPOTENCY_TTL_MS (xe_cfg x))"
    and x': "xe_ops x' = xe_ops x" "xe_cfg x' = xe_cfg x" "xe_sha256 x' = xe_sha256 x"
    and same: "tenant_or_default invn' = tenant_or_default invn" "pi_apiKeyId invn' = pi_apiKeyId invn"
  shows "executeWithIdempotencyKey x' env' invn' key s' w2 =
    (Inr (if hashRequest (xe_sha256 x) (JObj (pi_request invn')) = hashRequest (xe_sha256 x) (JObj (pi_request invn))
          then OutReplay (response_json (xe_describe x) resp) else OutConflict), s', w2)"
proof -
  obtain s1 where s': "s' = releaseLock (xe_ops x) (pe_end env) (xe_reachable x) (idem_input invn key) (xe_lock_value x)
       (store (xe_ops x) (xe_cfg x) (pe_end env) (xe_written x) (xe_enforced x) (idem_input invn key)
          (hashRequest (xe_sha256 x) (JObj (pi_request invn))) (response_json (xe_describe x) resp)
          (Some (IDEMPOTENCY_TTL_MS (xe_cfg x))) s1)"
    by (rule keyed_run_cases [OF run assms(5)])
  have i: "idem_input invn' key = idem_input invn key" using same by (simp add: idem_input_def)
  show ?thesis
    using keyed_run_stores [OF assms(1-4) plain times s'] by (simp add: executeWithIdempotencyKey_def Let_def x' i)
qed


lemma keyed_run_unlocks:
  assumes redis: "redis_store (xe_ops x)" and "xe_reachable x" and "xe_during x = id" and times: "pe_now env \<le> pe_end env"
    and run: "executeWithIdempotencyKey x env invn key s w = (Inr (OutOk resp l), s', w')"
    and live: "pe_end env < pe_now env + 1000 * LOCK_TTL_SECONDS" and "\<not> xe_enforced x"
  shows "rd_get (xe_ops x) t (lockKey (idem_input invn key)) s' = None"
proof -
  let ?i = "idem_input invn key"
  obtain s1 where a: "acquireLock (xe_ops x) (pe_now env) ?i (xe_lock_value x) (xe_between x s) = (True, s1)"
    and s': "s' = releaseLock (xe_ops x) (pe_end env) (xe_reachable x) ?i (xe_lock_value x)
       (store (xe_ops x) (xe_cfg x) (pe_end env) (xe_written x) (xe_enforced x) ?i
          (hashRequest (xe_sha256 x) (JObj (pi_request invn))) (response_json (xe_describe x) resp)
          (Some (IDEMPOTENCY_TTL_MS (xe_cfg x))) s1)"
    by (rule keyed_run_cases [OF run assms(3)])
  have "rd_get (xe_ops x) (pe_end env) (lockKey ?i) (store (xe_ops x) (xe_cfg x) (pe_end env) (xe_written x)
      (xe_enforced x) ?i h r ttl s1) = Some (xe_lock_value x)" for h r ttl
    using redis_store.lock_taken [OF redis a times] live lockKey_not_respKey [of ?i ?i] assms(7)
    by (simp add: store_def Let_def redis_store.store_write_get [OF redis])
  then show ?thesis using assms(2) by (simp add: s' releaseLock_def redis_store.get_del [OF redis])
qed

text \<open>
  The lock does not make a keyed request run once. A request that has missed the cache does
  not look again after it gets the lock: when a first request with the same key and body answers,
  stores its response and releases the lock in between, the second gets the lock and predicts
  again, although the response is there to replay, and publishes a second transaction event.
\<close>

theorem late_lock_predicts_again:
  assumes "redis_store (xe_ops x)" and "\<And>t. gunzip (xe_cfg x) (gzip (xe_cfg x) t) = Some t"
    and "xe_written x" and "\<not> xe_enforced x" and "xe_during x = id" and "xe_reachable x"
    and times: "pe_now env \<le> pe_end env" "pe_end env < pe_now env + 1000 * LOCK_TTL_SECONDS"
      "pe_end env < pe_end env + 1000 * ttl_seconds (IDEMPOTENCY_TTL_MS (xe_cfg x))"
    and first: "executeWithIdempotencyKey x env invn key s w = (Inr (OutOk ra la), sa, wa)"
    and plain: "json_plain (response_json (xe_describe x) ra)"
    and y: "y = x\<lparr>xe_between := (\<lambda>_. sa)\<rparr>"
    and again: "predict env invn (pe_now env) wa = (Inr rb, wb)"
  shows "lookup_idem (xe_ops x) (xe_cfg x) (pe_end env) (idem_input invn key)
      (hashRequest (xe_sha256 x) (JObj (pi_request invn))) sa = Replay (response_json (xe_describe x) ra)
    \<and> (\<exists>lb sb. executeWithIdempotencyKey y env invn key s wa = (Inr (OutOk rb lb), sb, wb))
    \<and> length (filter is_publish (pw_effects wb)) = length (filter is_publish (pw_effects w)) + 2"
proof -
  let ?i = "idem_input invn key" and ?h = "hashRequest (xe_sha256 x) (JObj (pi_request invn))"
  obtain s1 where look: "lookup_idem (xe_ops x) (xe_cfg x) (pe_now env) ?i ?h s \<in> {Miss, InFlight}"
    and pa: "predict env invn (pe_now env) w = (Inr ra, wa)"
    and sa: "sa = releaseLock (xe_ops x) (pe_end env) (xe_reachable x) ?i (xe_lock_value x)
       (store (xe_ops x) (xe_cfg x) (pe_end env) (xe_written x) (xe_enforced x) ?i ?h
          (response_json (xe_describe x) ra) (Some (IDEMPOTENCY_TTL_MS (xe_cfg x))) s1)"
    by (rule keyed_run_cases [OF first assms(5)])
  have free: "rd_get (xe_ops x) (pe_now env) (lockKey ?i) sa = None"
    by (rule keyed_run_unlocks [OF assms(1,6,5) times(1) first times(2) assms(4)])
  obtain s2 where lock: "acquireLock (xe_ops x) (pe_now env) ?i (xe_lock_value x) sa = (True, s2)"
    using free by (simp add: acquireLock_def redis_store.set_nx [OF assms(1)])
  have "\<exists>lb sb. executeWithIdempotencyKey y env invn key s wa = (Inr (OutOk rb lb), sb, wb)"
    using look lock again assms(5) by (auto simp: executeWithIdempotencyKey_def Let_def y runAndWrap_def)
  moreover have "length (filter is_publish (pw_effects w2)) = length (filter is_publish (pw_effects w1)) + 1"
    if p: "predict env invn t w1 = (Inr r, w2)" for t w1 w2 r
  proof -
    have "answer_ok env w1 r w2" using predict_ok [where env = env and invn = invn and startTime = t and w = w1] p by simp
    then have "pw_effects w2 = pw_effects w1 @ drop (length (pw_effects w1)) (pw_effects w2)"
      "length (filter is_publish (drop (length (pw_effects w1)) (pw_effects w2))) = 1"
      unfolding answer_ok_def Let_def by (metis append_take_drop_id, blast)
    then show ?thesis by (metis filter_append length_append)
  qed
  ultimately show ?thesis
    using keyed_run_stores [OF assms(1-4) plain order_refl times(3) sa] pa again by force
qed

section \<open>A sample\<close>

definition sample_exec_env :: "memory exec_env" where
  "sample_exec_env = \<lparr>xe_ops = memory_redis, xe_cfg = plain_cfg, xe_sha256 = (\<lambda>t. t), xe_describe = (\<lambda>c. c),
     xe_lock_value = ''v1'', xe_reachable = True, xe_written = True, xe_enforced = False, xe_between = id,
     xe_during = id, xe_polls = (\<lambda>_. empty_memory)\<rparr>"

definition sample_later_env :: predict_env where
  "sample_later_env = sample_predict_env\<lparr>pe_now := 7000, pe_end := 7005\<rparr>"

lemma sample_exec [simp]:
  "redis_store (xe_ops sample_exec_env)" "xe_during sample_exec_env = id" "xe_reachable sample_exec_env"
  "xe_written sample_exec_env" "\<not> xe_enforced sample_exec_env" "pe_now sample_predict_env = 0" "pe_end sample_predict_env = 5"
  "xe_cfg sample_exec_env = plain_cfg" "xe_ops sample_exec_env = memory_redis" "xe_between sample_exec_env = id"
  "gunzip plain_cfg (gzip plain_cfg t) = Some t" "reservation_ttl plain_cfg = 86400"
  by (simp_all add: sample_exec_env_def sample_predict_env_def plain_cfg_def reservation_ttl_def)
     unfold_locales

lemma short_decimals: "short_decimal 0" "short_decimal 5" "short_decimal (1 / 2)"
proof -
  have "(1 / 2 :: real) * 10 ^ 17 = of_int 50000000000000000" by simp
  then have "(1 / 2 :: real) * 10 ^ 17 \<in> \<int>" by (metis Ints_of_int)
  moreover have "(5 :: real) * 10 ^ 17 = of_int 500000000000000000" by simp
  then have "(5 :: real) * 10 ^ 17 \<in> \<int>" by (metis Ints_of_int)
  ultimately show "short_decimal 0" "short_decimal 5" "short_decimal (1 / 2)" by (simp_all add: short_decimal_def)
qed

lemma sample_plain: "json_plain (response_json (xe_describe sample_exec_env) sample_answer)"
proof -
  have "round4 0 = 0" by (simp add: round4_def js_round_def)
  moreover have "mm_threshold (resolveModel sample_predict_env (model_segment sample_payment)) = 1 / 2"
    by (simp add: resolveModel_def resolve_def sample_predict_env_def env_plain_def settings_none_def registry_reload_def
        db_empty_def nonempty_def getFraudThreshold_def listActive_def Let_def split: option.split)
  ultimately show ?thesis
    using short_decimals by (simp del: divide_eq_eq_numeral1 eq_divide_eq_numeral1 add: sample_answer_def createResponse_def sample_ctx_of_def fromPreRule_def response_json_def)
qed

theorem reservation_follows_outcome_witness:
  "\<exists>s' w'. executeWithoutIdempotencyKey sample_exec_env sample_later_env sample_invocation s' w' =
     (Inr (OutDuplicate (rq (pi_request sample_invocation) ''transaction_id'')), s', w')"
proof -
  obtain outcome s' w' where run: "executeWithoutIdempotencyKey sample_exec_env sample_predict_env sample_invocation
      empty_memory sample_predict_world = (outcome, s', w')"
    by (cases "executeWithoutIdempotencyKey sample_exec_env sample_predict_env sample_invocation
      empty_memory sample_predict_world")
  obtain w2 where p: "predict sample_predict_env sample_invocation 0 sample_predict_world = (Inr sample_answer, w2)"
    by (rule sample_predicts [of sample_predict_world]) (simp add: sample_predict_world_def)
  have "rd_get memory_redis 0 k empty_memory = None" for k
    by (simp add: memory_redis_def mem_get_def empty_memory_def)
  then have fresh: "rd_get (xe_ops sample_exec_env) (pe_now sample_predict_env)
      (txnKey (tenant_or_default sample_invocation) (rq (pi_request sample_invocation) ''transaction_id'')) empty_memory = None"
    by simp
  have "\<exists>r. outcome = Inr r"
    using run p by (auto simp: executeWithoutIdempotencyKey_def runAndWrap_def Let_def split: prod.splits if_splits)
  then obtain r where o': "outcome = Inr r" by blast
  have later: "pe_now sample_predict_env \<le> pe_now sample_later_env"
    "pe_now sample_later_env < pe_now sample_predict_env + 1000 * reservation_ttl (xe_cfg sample_exec_env)"
    by (simp_all add: sample_later_env_def)
  show ?thesis
    using reservation_follows_outcome [OF sample_exec(1-3) fresh run later(1) refl refl refl] later(2)
    unfolding o' sum.case by blast
qed

lemma sample_keyed_run:
  obtains s' w' where "executeWithIdempotencyKey sample_exec_env sample_predict_env sample_invocation ''k'' empty_memory
      sample_predict_world = (Inr (OutOk sample_answer 5), s', w')"
    and "length (aq_buffer (pw_queue w')) < 10"
proof -
  obtain w' where p: "predict sample_predict_env sample_invocation 0 sample_predict_world = (Inr sample_answer, w')"
    and n: "length (aq_buffer (pw_queue w')) = Suc (length (aq_buffer (pw_queue sample_predict_world)))"
    by (rule sample_predicts [of sample_predict_world]) (simp add: sample_predict_world_def)
  have none: "rd_get memory_redis 0 k empty_memory = None" for k
    by (simp add: memory_redis_def mem_get_def empty_memory_def)
  define h where "h = hashRequest (xe_sha256 sample_exec_env) (JObj (pi_request sample_invocation))"
  have look: "lookup_idem memory_redis plain_cfg 0 (idem_input sample_invocation ''k'') h empty_memory = Miss"
    by (simp add: lookup_idem_def none)
  obtain s1 where lock: "acquireLock memory_redis 0 (idem_input sample_invocation ''k'') (xe_lock_value sample_exec_env)
      empty_memory = (True, s1)"
    by (simp add: acquireLock_def redis_store.set_nx [OF sample_exec(1), simplified] none)
  have e: "pe_end sample_predict_env - pe_now sample_predict_env = 5" by simp
  have "\<exists>s'. executeWithIdempotencyKey sample_exec_env sample_predict_env sample_invocation ''k'' empty_memory
      sample_predict_world = (Inr (OutOk sample_answer 5), s', w')"
    by (simp add: executeWithIdempotencyKey_def Let_def h_def [symmetric] look lock runAndWrap_def p e)
  moreover have "length (aq_buffer (pw_queue w')) < 10" using n by (simp add: sample_predict_world_def)
  ultimately show thesis using that by blast
qed


theorem late_lock_predicts_again_witness:
  "\<exists>sa wa wb. executeWithIdempotencyKey sample_exec_env sample_predict_env sample_invocation ''k'' empty_memory
      sample_predict_world = (Inr (OutOk sample_answer 5), sa, wa)
    \<and> length (filter is_publish (pw_effects wb)) = 2
    \<and> (\<exists>lb sb. executeWithIdempotencyKey (sample_exec_env\<lparr>xe_between := (\<lambda>_. sa)\<rparr>) sample_predict_env sample_invocation
        ''k'' empty_memory wa = (Inr (OutOk sample_answer lb), sb, wb))"
proof -
  obtain sa wa where run: "executeWithIdempotencyKey sample_exec_env sample_predict_env sample_invocation ''k'' empty_memory
      sample_predict_world = (Inr (OutOk sample_answer 5), sa, wa)" and n: "length (aq_buffer (pw_queue wa)) < 10"
    by (rule sample_keyed_run)
  obtain wb where p: "predict sample_predict_env sample_invocation (pe_now sample_predict_env) wa = (Inr sample_answer, wb)"
    using sample_predicts [OF n] by auto
  have gz: "gunzip (xe_cfg sample_exec_env) (gzip (xe_cfg sample_exec_env) t) = Some t" for t by simp
  have t: "pe_now sample_predict_env \<le> pe_end sample_predict_env"
    "pe_end sample_predict_env < pe_now sample_predict_env + 1000 * LOCK_TTL_SECONDS"
    "pe_end sample_predict_env < pe_end sample_predict_env + 1000 * ttl_seconds (IDEMPOTENCY_TTL_MS (xe_cfg sample_exec_env))"
    by (simp_all add: ttl_seconds_def plain_cfg_def LOCK_TTL_SECONDS_def)
  from late_lock_predicts_again [OF sample_exec(1) gz sample_exec(4,5,2,3) t run sample_plain refl p] run
  show ?thesis by (auto simp: sample_predict_world_def)
qed

end
