(* ===== verification/PaaFeatures.thy ===== *)
theory PaaFeatures
  imports FeatureService GraphService JsonRoundTrip
begin

text \<open>
  \<open>paa-service/src/services/redis-update.service.ts\<close>: the buffer of feature updates and the batch
  that writes them to Redis, and what the decision path reads back of it. Redis' hash commands are
  an argument with documented laws; the interval timer, logs and metrics are not modelled.
\<close>

section \<open>Redis hashes\<close>

record 'r hash_ops =
  ho_hset :: "int \<Rightarrow> string \<Rightarrow> (string \<times> string) list \<Rightarrow> 'r \<Rightarrow> 'r"
  ho_expire :: "int \<Rightarrow> string \<Rightarrow> int \<Rightarrow> 'r \<Rightarrow> 'r"
  ho_hgetall :: "int \<Rightarrow> string \<Rightarrow> 'r \<Rightarrow> (string \<times> string) list"

definition hget :: "'r hash_ops \<Rightarrow> int \<Rightarrow> string \<Rightarrow> string \<Rightarrow> 'r \<Rightarrow> string option" where
  "hget ops now k f s = map_of (ho_hgetall ops now k s) f"

text \<open>
  \<open>HSET\<close> sets fields and keeps the others, \<open>EXPIRE\<close> replaces the deadline of a key in seconds, a
  reply has each field once; a key does not influence another one.
\<close>

locale redis_hashes =
  fixes ops :: "'r hash_ops"
  assumes reply_distinct: "distinct (map fst (ho_hgetall ops now k s))"
    and hset_now: "distinct (map fst fs) \<Longrightarrow>
      hget ops now k f (ho_hset ops now k fs s) = (case map_of fs f of Some v \<Rightarrow> Some v | None \<Rightarrow> hget ops now k f s)"
    and hset_other: "j \<noteq> k \<Longrightarrow> ho_hgetall ops t j (ho_hset ops now k fs s) = ho_hgetall ops t j s"
    and expire_self: "now \<le> t \<Longrightarrow> 0 < ttl \<Longrightarrow>
      hget ops t k f (ho_expire ops now k ttl s) = (if t < now + 1000 * ttl then hget ops now k f s else None)"
    and expire_other: "j \<noteq> k \<Longrightarrow> ho_hgetall ops t j (ho_expire ops now k ttl s) = ho_hgetall ops t j s"
begin

text \<open>What one \<open>HSET\<close> and \<open>EXPIRE\<close> of a pipeline do to a field.\<close>

lemma write_self:
  assumes "distinct (map fst fs)" and "now \<le> t" and "0 < ttl" and "t < now + 1000 * ttl"
  shows "hget ops t k f (ho_expire ops now k ttl (ho_hset ops now k fs s)) =
    (case map_of fs f of Some v \<Rightarrow> Some v | None \<Rightarrow> hget ops now k f s)"
  using assms by (simp add: expire_self hset_now)

lemma write_other:
  "j \<noteq> k \<Longrightarrow> ho_hgetall ops t j (ho_expire ops now k ttl (ho_hset ops now k fs s)) = ho_hgetall ops t j s"
  by (simp add: expire_other hset_other)

end

section \<open>Buffered updates\<close>

record combined_features =
  cf_velocity :: velocity_metrics
  cf_network :: network_features
  cf_recipientLifetimeTxCount :: nat
  cf_updated_at :: int

record pair_features =
  pf_priorSendCount :: nat
  pf_secondsSincePrevSend :: int
  pf_roundTripCount30d :: nat
  pf_amountMean30d :: real

record pending_updates =
  pu_updates :: "(string, combined_features) omap"
  pu_pairs :: "(string, string \<times> string \<times> pair_features) omap"
  pu_receivers :: "(string, nat) omap"

text \<open>The buffer, and the batches handed to Redis so far.\<close>

record redis_updates =
  ru_pending :: pending_updates
  ru_batches :: "pending_updates list"

definition featureTTL :: int where "featureTTL = 604800"
definition pairFeatureTTL :: int where "pairFeatureTTL = 2592000"
definition REDIS_BATCH_SIZE :: nat where "REDIS_BATCH_SIZE = 100"

definition no_updates :: pending_updates where
  "no_updates = \<lparr>pu_updates = [], pu_pairs = [], pu_receivers = []\<rparr>"

definition pending_count :: "pending_updates \<Rightarrow> nat" where
  "pending_count p = length (pu_updates p) + length (pu_pairs p) + length (pu_receivers p)"

definition flushUpdates :: "redis_updates \<Rightarrow> redis_updates" where
  "flushUpdates u =
     (if pu_updates (ru_pending u) = [] \<and> pu_pairs (ru_pending u) = [] \<and> pu_receivers (ru_pending u) = [] then u
      else \<lparr>ru_pending = no_updates, ru_batches = ru_batches u @ [ru_pending u]\<rparr>)"

definition maybeFlush :: "redis_updates \<Rightarrow> redis_updates" where
  "maybeFlush u = (if REDIS_BATCH_SIZE \<le> pending_count (ru_pending u) then flushUpdates u else u)"

definition queueUpdate :: "string \<Rightarrow> combined_features \<Rightarrow> redis_updates \<Rightarrow> redis_updates" where
  "queueUpdate userId features u =
     maybeFlush (u\<lparr>ru_pending := (ru_pending u)\<lparr>pu_updates := om_set userId features (pu_updates (ru_pending u))\<rparr>\<rparr>)"

definition queuePairUpdate :: "string \<Rightarrow> string \<Rightarrow> pair_features \<Rightarrow> redis_updates \<Rightarrow> redis_updates" where
  "queuePairUpdate senderId receiverId features u =
     maybeFlush (u\<lparr>ru_pending := (ru_pending u)
       \<lparr>pu_pairs := om_set (senderId @ '':'' @ receiverId) (senderId, receiverId, features) (pu_pairs (ru_pending u))\<rparr>\<rparr>)"

definition queueReceiverCount :: "string \<Rightarrow> nat \<Rightarrow> redis_updates \<Rightarrow> redis_updates" where
  "queueReceiverCount receiverId n u =
     maybeFlush (u\<lparr>ru_pending := (ru_pending u)\<lparr>pu_receivers := om_set receiverId n (pu_receivers (ru_pending u))\<rparr>\<rparr>)"

definition redis_stop :: "bool \<Rightarrow> redis_updates \<Rightarrow> redis_updates" where
  "redis_stop discard u = (if \<not> discard then flushUpdates u else u\<lparr>ru_pending := no_updates\<rparr>)"

section \<open>The batch\<close>

text \<open>\<open>String(n)\<close>, and the numbers under the names of the catalogue.\<close>

definition num_text :: "real \<Rightarrow> string" where
  "num_text r = num_to_str (Fin r)"

definition feature_values :: "combined_features \<Rightarrow> (string \<times> real) list" where
  "feature_values cf =
     (let v = cf_velocity cf; n = cf_network cf in
      [(''velocity_1m'', real (velocity_1m v)), (''velocity_5m'', real (velocity_5m v)),
       (''velocity_15m'', real (velocity_15m v)), (''velocity_1h'', real (velocity_1h v)),
       (''velocity_24h'', real (velocity_24h v)), (''velocity_7d'', real (velocity_7d v)),
       (''amount_mean_24h'', amount_mean_24h v), (''amount_max_24h'', amount_max_24h v),
       (''amount_mean_30d'', avg_amount_30d v), (''amount_std_30d'', std_amount_30d v),
       (''unique_receivers_24h'', real (unique_receivers_24h v)), (''unique_receivers_7d'', real (unique_receivers_7d v)),
       (''graph_pagerank'', nf_pagerank n), (''graph_clustering_coef'', nf_clusteringCoef n),
       (''graph_community_id'', of_int (nf_communityId n)), (''graph_in_degree'', real (nf_inDegree n)),
       (''graph_out_degree'', real (nf_outDegree n)), (''graph_is_hub'', real (nf_isHub n)),
       (''graph_shortest_path_to_fraud'', real (nf_shortestPathToFraud n)),
       (''graph_neighborhood_fraud_rate'', nf_neighborhoodFraudRate n),
       (''recipient_lifetime_tx_count'', real (cf_recipientLifetimeTxCount cf)),
       (''hour_dev_from_sender_norm'', hour_dev_from_norm v),
       (''updated_at'', of_int (cf_updated_at cf))])"

definition featuresToHash :: "combined_features \<Rightarrow> (string \<times> string) list" where
  "featuresToHash cf = map (\<lambda>(f, r). (f, num_text r)) (feature_values cf)"

definition pairFeaturesToHash :: "pair_features \<Rightarrow> (string \<times> string) list" where
  "pairFeaturesToHash pf =
     [(''pair_is_first_send'', ''0''),
      (''pair_prior_send_count'', num_text (real (pf_priorSendCount pf))),
      (''pair_time_since_last_send'', num_text (of_int (pf_secondsSincePrevSend pf))),
      (''pair_round_trip_count_30d'', num_text (real (pf_roundTripCount30d pf))),
      (''pair_amount_mean_30d'', num_text (pf_amountMean30d pf))]"

definition user_key :: "string \<Rightarrow> string" where
  "user_key u = ''features:'' @ u"

definition pair_key :: "string \<Rightarrow> string \<Rightarrow> string" where
  "pair_key s r = ''features:pair:'' @ s @ '':'' @ r"

text \<open>\<open>pipeline.hset(...)\<close> and \<open>pipeline.expire(...)\<close> of one entry.\<close>

definition write_hash :: "'r hash_ops \<Rightarrow> int \<Rightarrow> int \<Rightarrow> string \<times> (string \<times> string) list \<Rightarrow> 'r \<Rightarrow> 'r" where
  "write_hash ops now ttl e s = ho_expire ops now (fst e) ttl (ho_hset ops now (fst e) (snd e) s)"

text \<open>A pipeline that cannot be executed writes nothing, and the batch is not queued again.\<close>

definition batchUpdateFeatures :: "'r hash_ops \<Rightarrow> bool \<Rightarrow> int \<Rightarrow> pending_updates \<Rightarrow> 'r \<Rightarrow> 'r" where
  "batchUpdateFeatures ops reachable now p s =
     (if \<not> reachable then s
      else fold (write_hash ops now featureTTL)
             (map (\<lambda>(r, n). (user_key r, [(''recipient_lifetime_tx_count'', num_text (real n))])) (pu_receivers p))
          (fold (write_hash ops now pairFeatureTTL)
             (map (\<lambda>(_, s, r, pf). (pair_key s r, pairFeaturesToHash pf)) (pu_pairs p))
          (fold (write_hash ops now featureTTL)
             (map (\<lambda>(u, cf). (user_key u, featuresToHash cf)) (pu_updates p)) s)))"

section \<open>Numbers on the wire\<close>

lemma num_char_facts:
  assumes "is_num_char c"
  shows "\<not> is_ws c" and "to_lower_char c \<noteq> CHR ''x''" and "to_lower_char c \<noteq> CHR ''o''" and "to_lower_char c \<noteq> CHR ''b''"
proof -
  have "code c \<in> {48..57} \<union> {43, 45, 46, 69, 101}" using assms by (auto simp: is_num_char_def is_digit_def code_def)
  then show "\<not> is_ws c" by (auto simp: is_ws_def code_def)
  have "to_lower_char c = d \<Longrightarrow> code (to_lower_char c) = code d" for d by simp
  moreover have "code (to_lower_char c) \<in> {48..57} \<union> {43, 45, 46, 101}"
    using assms by (auto simp: to_lower_char_def is_num_char_def is_digit_def code_def)
  ultimately show "to_lower_char c \<noteq> CHR ''x''" "to_lower_char c \<noteq> CHR ''o''" "to_lower_char c \<noteq> CHR ''b''"
    by (force simp: code_def)+
qed

lemma trim_none: "list_all (\<lambda>c. \<not> is_ws c) s \<Longrightarrow> js_trim s = s"
proof -
  assume "list_all (\<lambda>c. \<not> is_ws c) s"
  then have "dropWhile is_ws s = s" "dropWhile is_ws (rev s) = rev s"
    by (auto simp: dropWhile_eq_self_iff list_all_iff hd_rev)
  then show ?thesis by (simp add: js_trim_def)
qed

lemma num_text_reads:
  assumes "short_decimal r"
  shows "str_to_num (num_text r) = Fin r"
proof -
  note p = num_text_parses [OF assms]
  have ne: "num_text r \<noteq> []" by (simp add: num_text_def num_text_nonempty del: num_to_str.simps)
  have "list_all (\<lambda>c. \<not> is_ws c) (num_text r)"
    using p num_char_facts(1) by (auto simp: num_text_def list_all_iff simp del: num_to_str.simps)
  then have t: "js_trim (num_text r) = num_text r" by (rule trim_none)
  have "decimal_literal (num_text r) = Fin r" using p by (simp add: num_text_def del: num_to_str.simps)
  moreover have "to_lower_char b \<noteq> CHR ''x'' \<and> to_lower_char b \<noteq> CHR ''o'' \<and> to_lower_char b \<noteq> CHR ''b''"
    if "num_text r = a # b # ds" for a b ds
    using p that num_char_facts by (auto simp: num_text_def simp del: num_to_str.simps)
  ultimately show ?thesis
    using ne unfolding str_to_num_def t Let_def by (auto split: list.splits)
qed

section \<open>What a batch writes\<close>

lemma feature_names: "distinct (map fst (featuresToHash cf))" "distinct (map fst (pairFeaturesToHash pf))"
  "map fst (featuresToHash cf) = map fst (feature_values cf)"
  by (simp_all add: featuresToHash_def feature_values_def pairFeaturesToHash_def Let_def comp_def)

lemma feature_text: "(f, r) \<in> set (feature_values cf) \<Longrightarrow> map_of (featuresToHash cf) f = Some (num_text r)"
proof -
  assume "(f, r) \<in> set (feature_values cf)"
  then have "(f, num_text r) \<in> set (featuresToHash cf)" by (auto simp: featuresToHash_def)
  then show ?thesis using feature_names(1) by (rule map_of_is_SomeI [rotated])
qed

lemma key_inject [simp]: "user_key u = user_key v \<longleftrightarrow> u = v"
  by (simp add: user_key_def)

lemma pair_not_user: "\<not> starts_with u ''pair:'' \<Longrightarrow> pair_key s r \<noteq> user_key u"
  by (auto simp: pair_key_def user_key_def starts_with_prefix)

lemma write_hash_pair: "write_hash ops now ttl (k, fs) s = ho_expire ops now k ttl (ho_hset ops now k fs s)"
  by (simp add: write_hash_def)

lemma distinct_prefixed: "distinct (map (\<lambda>k. a @ k) xs) = distinct xs"
  by (simp add: distinct_map inj_on_def)

context redis_hashes
begin

lemma fold_write_other:
  "k \<notin> fst ` set es \<Longrightarrow> ho_hgetall ops t k (fold (write_hash ops now ttl) es s) = ho_hgetall ops t k s"
  by (induction es arbitrary: s) (auto simp: write_hash_def write_other)

lemma fold_write_self:
  assumes "distinct (map fst es)" and "(k, fs) \<in> set es" and "distinct (map fst fs)"
    and "now \<le> t" and "t < now + 1000 * ttl" and "0 < ttl"
  shows "hget ops t k f (fold (write_hash ops now ttl) es s) =
    (case map_of fs f of Some v \<Rightarrow> Some v | None \<Rightarrow> hget ops now k f s)"
  using assms(1,2)
proof (induction es arbitrary: s)
  case (Cons e es)
  show ?case
  proof (cases "fst e = k")
    case True
    then have e: "e = (k, fs)" "k \<notin> fst ` set es" using Cons.prems by (auto simp: image_iff)
    have "hget ops t k f (fold (write_hash ops now ttl) es (write_hash ops now ttl e s)) =
        hget ops t k f (write_hash ops now ttl e s)" by (simp only: hget_def fold_write_other [OF e(2)])
    then show ?thesis using write_self [OF assms(3,4,6,5)] by (simp add: e(1) write_hash_pair)
  next
    case False
    then have "(k, fs) \<in> set es" "distinct (map fst es)" using Cons.prems by auto
    moreover have "hget ops now k f (write_hash ops now ttl e s) = hget ops now k f s"
      using False by (cases e) (simp add: hget_def write_hash_pair write_other)
    ultimately show ?thesis using Cons.IH by (simp split: option.split)
  qed
qed simp

end

text \<open>The three parts of a batch.\<close>

definition user_writes :: "pending_updates \<Rightarrow> (string \<times> (string \<times> string) list) list" where
  "user_writes p = map (\<lambda>(u, cf). (user_key u, featuresToHash cf)) (pu_updates p)"

definition pair_writes :: "pending_updates \<Rightarrow> (string \<times> (string \<times> string) list) list" where
  "pair_writes p = map (\<lambda>(_, s, r, pf). (pair_key s r, pairFeaturesToHash pf)) (pu_pairs p)"

definition receiver_writes :: "pending_updates \<Rightarrow> (string \<times> (string \<times> string) list) list" where
  "receiver_writes p = map (\<lambda>(r, n). (user_key r, [(''recipient_lifetime_tx_count'', num_text (real n))])) (pu_receivers p)"

lemma batch_eq:
  "batchUpdateFeatures ops True now p s =
     fold (write_hash ops now featureTTL) (receiver_writes p)
       (fold (write_hash ops now pairFeatureTTL) (pair_writes p)
         (fold (write_hash ops now featureTTL) (user_writes p) s))"
  by (simp add: batchUpdateFeatures_def user_writes_def pair_writes_def receiver_writes_def)

definition pending_ok :: "pending_updates \<Rightarrow> bool" where
  "pending_ok p = (om_wf (pu_updates p) \<and> om_wf (pu_pairs p) \<and> om_wf (pu_receivers p)
     \<and> (\<forall>(k, s, r, pf) \<in> set (pu_pairs p). k = s @ '':'' @ r))"

lemma keys_written:
  "fst ` set (user_writes p) = user_key ` set (om_keys (pu_updates p))"
  "fst ` set (receiver_writes p) = user_key ` set (om_keys (pu_receivers p))"
  by (simp_all add: user_writes_def receiver_writes_def om_keys_def image_image split_beta)

lemma writes_distinct:
  assumes "pending_ok p"
  shows "distinct (map fst (user_writes p))" "distinct (map fst (pair_writes p))" "distinct (map fst (receiver_writes p))"
proof -
  have u: "map fst (user_writes p) = map (\<lambda>k. ''features:'' @ k) (om_keys (pu_updates p))"
    by (simp add: user_writes_def om_keys_def user_key_def comp_def split_beta)
  have r: "map fst (receiver_writes p) = map (\<lambda>k. ''features:'' @ k) (om_keys (pu_receivers p))"
    by (simp add: receiver_writes_def om_keys_def user_key_def comp_def split_beta)
  have "fst (case e of (_, s, r, pf) \<Rightarrow> (pair_key s r, pairFeaturesToHash pf)) = ''features:'' @ ''pair:'' @ fst e"
    if "e \<in> set (pu_pairs p)" for e
    using that assms by (auto simp: pending_ok_def pair_key_def)
  then have "map fst (pair_writes p) = map (\<lambda>k. ''features:'' @ k) (map (\<lambda>k. ''pair:'' @ k) (om_keys (pu_pairs p)))"
    by (simp add: pair_writes_def om_keys_def)
  moreover have "distinct (om_keys (pu_updates p))" "distinct (om_keys (pu_pairs p))" "distinct (om_keys (pu_receivers p))"
    using assms by (simp_all add: pending_ok_def om_wf_def om_keys_def)
  ultimately show "distinct (map fst (user_writes p))" "distinct (map fst (pair_writes p))" "distinct (map fst (receiver_writes p))"
    unfolding u r by (simp_all only: distinct_prefixed)
qed


text \<open>What a field of a user's hash is after the batch.\<close>

definition field_after :: "'r hash_ops \<Rightarrow> int \<Rightarrow> pending_updates \<Rightarrow> string \<Rightarrow> string \<Rightarrow> 'r \<Rightarrow> string option" where
  "field_after ops now p u f s =
     (case om_get (pu_receivers p) u of
        Some n \<Rightarrow> if f = ''recipient_lifetime_tx_count'' then Some (num_text (real n))
                  else (case om_get (pu_updates p) u of
                     Some cf \<Rightarrow> (case map_of (featuresToHash cf) f of Some v \<Rightarrow> Some v | None \<Rightarrow> hget ops now (user_key u) f s)
                   | None \<Rightarrow> hget ops now (user_key u) f s)
      | None \<Rightarrow>
          (case om_get (pu_updates p) u of
             Some cf \<Rightarrow> (case map_of (featuresToHash cf) f of Some v \<Rightarrow> Some v | None \<Rightarrow> hget ops now (user_key u) f s)
           | None \<Rightarrow> hget ops now (user_key u) f s))"

definition touches :: "pending_updates \<Rightarrow> string \<Rightarrow> bool" where
  "touches p u = (om_get (pu_updates p) u \<noteq> None \<or> om_get (pu_receivers p) u \<noteq> None)"

context redis_hashes
begin

lemma user_part:
  assumes "pending_ok p" and "om_get (pu_updates p) u = Some cf" and "now \<le> t" and "t < now + 604800000"
  shows "hget ops t (user_key u) f (fold (write_hash ops now featureTTL) (user_writes p) s) =
    (case map_of (featuresToHash cf) f of Some v \<Rightarrow> Some v | None \<Rightarrow> hget ops now (user_key u) f s)"
proof (rule fold_write_self)
  show "(user_key u, featuresToHash cf) \<in> set (user_writes p)"
    using assms(2) by (force simp: user_writes_def om_get_def dest: map_of_SomeD)
qed (use assms writes_distinct(1) feature_names in \<open>auto simp: featureTTL_def\<close>)

lemma receiver_part:
  assumes "pending_ok p" and "om_get (pu_receivers p) u = Some n" and "now \<le> t" and "t < now + 604800000"
  shows "hget ops t (user_key u) f (fold (write_hash ops now featureTTL) (receiver_writes p) s) =
    (if f = ''recipient_lifetime_tx_count'' then Some (num_text (real n)) else hget ops now (user_key u) f s)"
proof -
  have "hget ops t (user_key u) f (fold (write_hash ops now featureTTL) (receiver_writes p) s) =
    (case map_of [(''recipient_lifetime_tx_count'', num_text (real n))] f of Some v \<Rightarrow> Some v
     | None \<Rightarrow> hget ops now (user_key u) f s)"
  proof (rule fold_write_self)
    show "(user_key u, [(''recipient_lifetime_tx_count'', num_text (real n))]) \<in> set (receiver_writes p)"
      using assms(2) by (force simp: receiver_writes_def om_get_def dest: map_of_SomeD)
  qed (use assms writes_distinct(3) in \<open>auto simp: featureTTL_def\<close>)
  then show ?thesis by simp
qed

lemma not_written:
  "om_get (pu_updates p) u = None \<Longrightarrow> user_key u \<notin> fst ` set (user_writes p)"
  "om_get (pu_receivers p) u = None \<Longrightarrow> user_key u \<notin> fst ` set (receiver_writes p)"
  "\<not> starts_with u ''pair:'' \<Longrightarrow> user_key u \<notin> fst ` set (pair_writes p)"
proof -
  show "om_get (pu_updates p) u = None \<Longrightarrow> user_key u \<notin> fst ` set (user_writes p)"
    "om_get (pu_receivers p) u = None \<Longrightarrow> user_key u \<notin> fst ` set (receiver_writes p)"
    using om_get_keys [of u "pu_updates p"] om_get_keys [of u "pu_receivers p"] by (auto simp: keys_written)
  show "\<not> starts_with u ''pair:'' \<Longrightarrow> user_key u \<notin> fst ` set (pair_writes p)"
    using pair_not_user by (auto simp: pair_writes_def) metis
qed

lemma batch_user:
  assumes "pending_ok p" and "\<not> starts_with u ''pair:''" and "touches p u" and "now \<le> t" and "t < now + 604800000"
  shows "hget ops t (user_key u) f (batchUpdateFeatures ops True now p s) = field_after ops now p u f s"
proof -
  define s1 where "s1 = fold (write_hash ops now featureTTL) (user_writes p) s"
  define s2 where "s2 = fold (write_hash ops now pairFeatureTTL) (pair_writes p) s1"
  have b: "batchUpdateFeatures ops True now p s = fold (write_hash ops now featureTTL) (receiver_writes p) s2"
    by (simp add: batch_eq s1_def s2_def)
  have pass: "hget ops t' (user_key u) f s2 = hget ops t' (user_key u) f s1" for t'
    unfolding s2_def hget_def by (subst fold_write_other [OF not_written(3) [OF assms(2)]]) simp
  have upd: "hget ops t' (user_key u) f s1 = (case map_of (featuresToHash cf) f of Some v \<Rightarrow> Some v
      | None \<Rightarrow> hget ops now (user_key u) f s)"
    if "om_get (pu_updates p) u = Some cf" "now \<le> t'" "t' < now + 604800000" for cf t'
    unfolding s1_def using user_part [OF assms(1) that] .
  have keep: "hget ops t' (user_key u) f s1 = hget ops t' (user_key u) f s" if "om_get (pu_updates p) u = None" for t'
    unfolding s1_def hget_def by (subst fold_write_other [OF not_written(1) [OF that]]) simp
  show ?thesis
  proof (cases "om_get (pu_receivers p) u")
    case (Some n)
    have "hget ops t (user_key u) f (batchUpdateFeatures ops True now p s) =
        (if f = ''recipient_lifetime_tx_count'' then Some (num_text (real n)) else hget ops now (user_key u) f s1)"
      unfolding b receiver_part [OF assms(1) Some assms(4,5)] pass by (rule refl)
    then show ?thesis
      using upd [of _ now] keep Some by (simp add: field_after_def split: option.split)
  next
    case None
    have "hget ops t (user_key u) f (batchUpdateFeatures ops True now p s) = hget ops t (user_key u) f s2"
      unfolding b hget_def by (subst fold_write_other [OF not_written(2) [OF None]]) simp
    moreover obtain cf where "om_get (pu_updates p) u = Some cf" using assms(3) None by (auto simp: touches_def)
    ultimately show ?thesis using upd [OF _ assms(4,5)] pass None by (simp add: field_after_def)
  qed
qed

lemma batch_pair:
  assumes "pending_ok p" and "om_get (pu_pairs p) (a @ '':'' @ b) = Some (a, b, pf)"
    and "\<And>u. touches p u \<Longrightarrow> \<not> starts_with u ''pair:''" and "now \<le> t" and "t < now + 604800000"
  shows "hget ops t (pair_key a b) f (batchUpdateFeatures ops True now p s) =
    (case map_of (pairFeaturesToHash pf) f of Some v \<Rightarrow> Some v | None \<Rightarrow> hget ops now (pair_key a b) f s)"
proof -
  define s1 where "s1 = fold (write_hash ops now featureTTL) (user_writes p) s"
  have away: "pair_key a b \<notin> fst ` set (user_writes p)" "pair_key a b \<notin> fst ` set (receiver_writes p)"
    using assms(3) pair_not_user
    by (auto simp: user_writes_def receiver_writes_def touches_def om_get_def map_of_eq_None_iff image_iff split_beta)
  have "hget ops t (pair_key a b) f (batchUpdateFeatures ops True now p s) =
      hget ops t (pair_key a b) f (fold (write_hash ops now pairFeatureTTL) (pair_writes p) s1)"
    unfolding batch_eq s1_def hget_def by (subst fold_write_other [OF away(2)]) simp
  also have "\<dots> = (case map_of (pairFeaturesToHash pf) f of Some v \<Rightarrow> Some v | None \<Rightarrow> hget ops now (pair_key a b) f s1)"
  proof (rule fold_write_self)
    show "(pair_key a b, pairFeaturesToHash pf) \<in> set (pair_writes p)"
      using assms(2) by (force simp: pair_writes_def om_get_def dest: map_of_SomeD)
  qed (use assms writes_distinct(2) feature_names in \<open>auto simp: pairFeatureTTL_def\<close>)
  also have "hget ops now (pair_key a b) f s1 = hget ops now (pair_key a b) f s"
    unfolding s1_def hget_def by (subst fold_write_other [OF away(1)]) simp
  finally show ?thesis .
qed

end

section \<open>What the decision path reads\<close>

text \<open>The replies of the feature service's pipeline on the same store.\<close>

definition rda_exec :: "'r hash_ops \<Rightarrow> int \<Rightarrow> 'r \<Rightarrow> pipeline_exec" where
  "rda_exec ops t s = (\<lambda>keys. Some (map (\<lambda>k. (None, Some (ho_hgetall ops t k s))) keys))"

definition rda_reads :: "'r hash_ops \<Rightarrow> int \<Rightarrow> 'r \<Rightarrow> string \<Rightarrow> string \<Rightarrow> fields \<times> bool" where
  "rda_reads ops t s sender receiver = getFeatures id (rda_exec ops t s) False sender receiver"

lemma rda_reads_eq:
  "rda_reads ops t s a b = (let snap = snapshot_of (Some (ho_hgetall ops t (user_key a) s))
       (Some (ho_hgetall ops t (pair_key a b) s)) (Some (ho_hgetall ops t (user_key b) s))
     in (snap, isDefaultSnapshot snap))"
  by (simp add: rda_reads_def getFeatures_def fetchFeaturesFromRedis_def pipelinedHashes_def rda_exec_def feature_keys_def
      user_key_def pair_key_def Let_def)

lemma feature_fields_not_pair: "(f, x) \<in> set (feature_values cf) \<Longrightarrow> \<not> starts_with f ''pair_''"
  by (auto simp: feature_values_def Let_def)

lemma pair_fields_pair: "map_of (pairFeaturesToHash pf) f = Some v \<Longrightarrow> starts_with f ''pair_'' \<and> \<not> starts_with f ''recipient_''"
  by (auto simp: pairFeaturesToHash_def split: if_splits)

context redis_hashes
begin

lemma rda_field:
  "field (fst (rda_reads ops t s a b)) k =
    (if starts_with k ''recipient_'' \<and> hget ops t (user_key b) k s \<noteq> None then JStr (the (hget ops t (user_key b) k s))
     else case hget ops t (pair_key a b) k s of
       Some v \<Rightarrow> JStr v
     | None \<Rightarrow> if ho_hgetall ops t (user_key a) s = [] then field DEFAULT_REDIS_SNAPSHOT k
               else case hget ops t (user_key a) k s of Some v \<Rightarrow> JStr v | None \<Rightarrow> JUndef)"
proof -
  have r: "reply_field (Some (ho_hgetall ops t j s)) k = hget ops t j k s" for j by (simp add: reply_field_def hget_def)
  have ok: "reply_ok (Some (ho_hgetall ops t j s))" for j by (simp add: reply_ok_def reply_distinct)
  show ?thesis unfolding rda_reads_eq Let_def fst_conv snapshot_of_field [OF ok ok] r by auto
qed

lemma written_nonempty: "hget ops t k f s \<noteq> None \<Longrightarrow> ho_hgetall ops t k s \<noteq> []"
  by (auto simp: hget_def)

end

text \<open>
  What the pattern analyser queues is what the decision path reads, number for number. After a
  batch that holds a payment's sender, pair and receiver, and for seven days unless a
  later batch rewrites them, the feature service's snapshot of the same pair has every feature of the
  sender with the value that was queued, every field of the pair, and the receiver's inbound
  count, whatever was in Redis before; user ids do not start with \<open>pair:\<close>.
\<close>

lemma features_cross_the_wire:
  assumes redis: "redis_hashes ops" and ok: "pending_ok p" and ids: "\<And>u. touches p u \<Longrightarrow> \<not> starts_with u ''pair:''"
    and "om_get (pu_updates p) a = Some cf" and "om_get (pu_pairs p) (a @ '':'' @ b) = Some (a, b, pf)"
    and "om_get (pu_receivers p) b = Some n"
    and clean: "\<And>f v. hget ops now (pair_key a b) f s = Some v \<Longrightarrow> starts_with f ''pair_''"
    and "now \<le> t" and "t < now + 604800000"
  shows "let snap = fst (rda_reads ops t (batchUpdateFeatures ops True now p s) a b) in
    (\<forall>(f, x) \<in> set (feature_values cf). \<not> starts_with f ''recipient_'' \<and> short_decimal x \<longrightarrow> js_to_num (field snap f) = Fin x)
    \<and> (\<forall>(f, v) \<in> set (pairFeaturesToHash pf). field snap f = JStr v)
    \<and> (n < 10 ^ 21 \<longrightarrow> js_to_num (field snap ''recipient_lifetime_tx_count'') = Fin (real n))"
proof -
  let ?s = "batchUpdateFeatures ops True now p s"
  have t: "touches p a" "touches p b" using assms(4,6) by (simp_all add: touches_def)
  have user: "hget ops t (user_key a) f ?s = field_after ops now p a f s"
    "hget ops t (user_key b) f ?s = field_after ops now p b f s" for f
    by (rule redis_hashes.batch_user [OF redis ok ids [OF t(1)] t(1) assms(8,9)]
          redis_hashes.batch_user [OF redis ok ids [OF t(2)] t(2) assms(8,9)])+
  have pair: "hget ops t (pair_key a b) f ?s =
      (case map_of (pairFeaturesToHash pf) f of Some v \<Rightarrow> Some v | None \<Rightarrow> hget ops now (pair_key a b) f s)" for f
    by (rule redis_hashes.batch_pair [OF redis ok assms(5) ids assms(8,9)])
  have "field_after ops now p a ''velocity_1m'' s \<noteq> None"
    using assms(4) by (simp add: field_after_def featuresToHash_def feature_values_def Let_def split: option.split)
  then have ne: "ho_hgetall ops t (user_key a) ?s \<noteq> []"
    using redis_hashes.written_nonempty [OF redis] user(1) by metis
  note rd = redis_hashes.rda_field [OF redis, of t ?s a b, unfolded user pair]
  have "js_to_num (field (fst (rda_reads ops t ?s a b)) f) = Fin x"
    if "(f, x) \<in> set (feature_values cf)" "\<not> starts_with f ''recipient_''" "short_decimal x" for f x
  proof -
    have np: "\<not> starts_with f ''pair_''" by (rule feature_fields_not_pair [OF that(1)])
    then have "hget ops now (pair_key a b) f s = None" "map_of (pairFeaturesToHash pf) f = None"
      using clean pair_fields_pair by (metis option.exhaust)+
    moreover have "field_after ops now p a f s = Some (num_text x)"
      using feature_text [OF that(1)] assms(4) that(2) by (auto simp: field_after_def split: option.split)
    ultimately show ?thesis using that(2) ne num_text_reads [OF that(3)] by (simp add: rd)
  qed
  moreover have "field (fst (rda_reads ops t ?s a b)) f = JStr v" if "(f, v) \<in> set (pairFeaturesToHash pf)" for f v
  proof -
    have "map_of (pairFeaturesToHash pf) f = Some v" using that feature_names(2) by (rule map_of_is_SomeI [rotated])
    then show ?thesis using pair_fields_pair [of pf f v] by (simp add: rd)
  qed
  moreover have "js_to_num (field (fst (rda_reads ops t ?s a b)) ''recipient_lifetime_tx_count'') = Fin (real n)" if "n < 10 ^ 21"
  proof -
    have "real n < 10 ^ 21" using that by (metis of_nat_less_iff of_nat_numeral of_nat_power)
    moreover have "real n * 10 ^ 17 \<in> \<int>" by simp
    ultimately have "short_decimal (real n)" by (simp only: short_decimal_def abs_of_nat)
    then show ?thesis using assms(6) num_text_reads by (simp add: rd field_after_def)
  qed
  ultimately show ?thesis unfolding Let_def by blast
qed

section \<open>An in-memory store\<close>

type_synonym hash_memory = "(string, (string, string) omap \<times> int option) omap"

definition live_hash :: "int \<Rightarrow> string \<Rightarrow> hash_memory \<Rightarrow> ((string, string) omap \<times> int option) option" where
  "live_hash now k m =
     (case om_get m k of
        Some (h, d) \<Rightarrow> if (case d of None \<Rightarrow> True | Some e \<Rightarrow> now < e) then Some (h, d) else None
      | None \<Rightarrow> None)"

definition memory_hashes :: "hash_memory hash_ops" where
  "memory_hashes =
     \<lparr>ho_hset = (\<lambda>now k fs m.
        (let (h, d) = (case live_hash now k m of Some e \<Rightarrow> e | None \<Rightarrow> ([], None))
         in om_set k (fold (\<lambda>(f, v). om_set f v) fs h, d) m)),
      ho_expire = (\<lambda>now k ttl m. case live_hash now k m of Some (h, d) \<Rightarrow> om_set k (h, Some (now + 1000 * ttl)) m | None \<Rightarrow> m),
      ho_hgetall = (\<lambda>now k m. case live_hash now k m of
        Some (h, d) \<Rightarrow> map (\<lambda>f. (f, the (om_get h f))) (remdups (om_keys h)) | None \<Rightarrow> [])\<rparr>"

lemma memory_ops:
  "ho_hset memory_hashes now k fs m = (let (h, d) = (case live_hash now k m of Some e \<Rightarrow> e | None \<Rightarrow> ([], None))
     in om_set k (fold (\<lambda>(f, v). om_set f v) fs h, d) m)"
  "ho_expire memory_hashes now k ttl m =
     (case live_hash now k m of Some (h, d) \<Rightarrow> om_set k (h, Some (now + 1000 * ttl)) m | None \<Rightarrow> m)"
  "ho_hgetall memory_hashes now k m = (case live_hash now k m of
     Some (h, d) \<Rightarrow> map (\<lambda>f. (f, the (om_get h f))) (remdups (om_keys h)) | None \<Rightarrow> [])"
  by (simp_all add: memory_hashes_def)

lemma live_set: "live_hash t k (om_set j (h, d) m) =
    (if k = j then (if (case d of None \<Rightarrow> True | Some e \<Rightarrow> t < e) then Some (h, d) else None) else live_hash t k m)"
  by (simp add: live_hash_def)

lemma live_later: "now \<le> t \<Longrightarrow> live_hash now k m = None \<Longrightarrow> live_hash t k m = None"
  by (auto simp: live_hash_def split: option.splits if_splits)

lemma getall_map: "map_of (map (\<lambda>f. (f, the (om_get h f))) (remdups (om_keys h))) f = om_get h f"
  using om_get_keys [of f h] by (auto simp: map_of_map_restrict restrict_map_def)

lemma memory_hget: "hget memory_hashes now k f m = (case live_hash now k m of Some (h, d) \<Rightarrow> om_get h f | None \<Rightarrow> None)"
  by (auto simp: hget_def memory_ops getall_map split: option.split)

interpretation hash_mem: redis_hashes memory_hashes
proof
  show "distinct (map fst (ho_hgetall memory_hashes now k s))" for now k s
    by (simp add: memory_ops comp_def split: option.split)
  show "hget memory_hashes now k f (ho_hset memory_hashes now k fs s) =
      (case map_of fs f of Some v \<Rightarrow> Some v | None \<Rightarrow> hget memory_hashes now k f s)"
    if "distinct (map fst fs)" for fs now k f s
  proof (cases "live_hash now k s")
    case None
    then show ?thesis using om_get_fold_set [OF that] by (simp add: memory_hget memory_ops live_set split: option.split)
  next
    case (Some e)
    obtain h d where e: "e = (h, d)" by (cases e)
    then have "case d of None \<Rightarrow> True | Some x \<Rightarrow> now < x"
      using Some by (auto simp: live_hash_def split: option.splits if_splits prod.splits)
    then show ?thesis using Some e om_get_fold_set [OF that]
      by (simp add: memory_hget memory_ops live_set split: option.split)
  qed
  show "ho_hgetall memory_hashes t j (ho_hset memory_hashes now k fs s) = ho_hgetall memory_hashes t j s"
    if "j \<noteq> k" for j k t now fs s
    using that by (auto simp: memory_ops live_set split_beta)
  show "hget memory_hashes t k f (ho_expire memory_hashes now k ttl s) =
      (if t < now + 1000 * ttl then hget memory_hashes now k f s else None)" if "now \<le> t" "0 < ttl" for now t ttl k f s
    using live_later [OF that(1)] by (auto simp: memory_hget memory_ops live_set split: option.splits)
  show "ho_hgetall memory_hashes t j (ho_expire memory_hashes now k ttl s) = ho_hgetall memory_hashes t j s"
    if "j \<noteq> k" for j k t now ttl s
    using that by (auto simp: memory_ops live_set split: option.splits)
qed

text \<open>
  A user who has only received is not treated as new. Their hash exists with the inbound count
  alone, so the feature service finds a sender hash, skips the population defaults it uses for an
  unknown sender, leaves the sender's velocity undefined, and still reports that the
  features are not the default ones.
\<close>

theorem receive_only_sender_is_not_default:
  assumes redis: "redis_hashes ops" and ok: "pending_ok p" and id: "\<not> starts_with u ''pair:''"
    and "om_get (pu_updates p) u = None" and "om_get (pu_receivers p) u = Some n"
    and new: "\<And>f. hget ops now (user_key u) f s = None"
    and fresh: "\<And>f. hget ops t (pair_key u b) f (batchUpdateFeatures ops True now p s) = None"
      "\<And>f. hget ops t (pair_key v b) f (batchUpdateFeatures ops True now p s) = None"
      "ho_hgetall ops t (user_key v) (batchUpdateFeatures ops True now p s) = []"
    and "now \<le> t" and "t < now + 604800000"
  shows "let s' = batchUpdateFeatures ops True now p s in
    field (fst (rda_reads ops t s' u b)) ''velocity_1h'' = JUndef \<and> \<not> snd (rda_reads ops t s' u b)
    \<and> field (fst (rda_reads ops t s' v b)) ''velocity_1h'' = JNum (Fin (5 / 2)) \<and> snd (rda_reads ops t s' v b)"
proof -
  let ?s = "batchUpdateFeatures ops True now p s"
  have u: "hget ops t (user_key u) f ?s = (if f = ''recipient_lifetime_tx_count'' then Some (num_text (real n)) else None)" for f
    using redis_hashes.batch_user [OF redis ok id _ assms(10,11), of f s] assms(4,5) new
    by (simp add: touches_def field_after_def)
  then have ne: "ho_hgetall ops t (user_key u) ?s \<noteq> []"
    using redis_hashes.written_nonempty [OF redis] by (metis option.distinct(1))
  have "field (fst (rda_reads ops t ?s u b)) ''velocity_1h'' = JUndef"
    using ne by (simp add: redis_hashes.rda_field [OF redis] fresh u)
  moreover have "snd (rda_reads ops t ?s u b) = isDefaultSnapshot (fst (rda_reads ops t ?s u b))"
    "snd (rda_reads ops t ?s v b) = isDefaultSnapshot (fst (rda_reads ops t ?s v b))"
    by (simp_all add: rda_reads_eq Let_def)
  moreover have "field (fst (rda_reads ops t ?s v b)) k = field DEFAULT_REDIS_SNAPSHOT k" if "\<not> starts_with k ''recipient_''" for k
    using that by (simp add: redis_hashes.rda_field [OF redis] fresh)
  ultimately show ?thesis
    by (simp add: isDefaultSnapshot_def DEFAULT_REDIS_SNAPSHOT_def field_def [of "[_, _, _, _, _, _, _, _]"])
qed

theorem receive_only_sender_is_not_default_witness:
  "\<not> snd (rda_reads memory_hashes 5000 (batchUpdateFeatures memory_hashes True 0
      \<lparr>pu_updates = [], pu_pairs = [], pu_receivers = [(''r1'', 7)]\<rparr> []) ''r1'' ''b'')"
proof -
  let ?p = "\<lparr>pu_updates = [], pu_pairs = [], pu_receivers = [(''r1'', 7)]\<rparr>"
  have redis: "redis_hashes memory_hashes" by unfold_locales
  have ok: "pending_ok ?p" by (simp add: pending_ok_def om_wf_def)
  have id: "\<not> starts_with ''r1'' ''pair:''" by simp
  have get: "om_get (pu_updates ?p) ''r1'' = None" "om_get (pu_receivers ?p) ''r1'' = Some 7" by (simp_all add: om_get_def)
  have new: "hget memory_hashes 0 (user_key ''r1'') f [] = None" for f by (simp add: memory_hget live_hash_def)
  have pairs: "hget memory_hashes 5000 (pair_key a ''b'') f (batchUpdateFeatures memory_hashes True 0 ?p []) = None" for a f
    by (simp add: batchUpdateFeatures_def write_hash_pair memory_hget)
       (simp add: memory_ops live_hash_def om_get_def pair_key_def user_key_def)
  have "ho_hgetall memory_hashes 5000 (user_key ''zz'') (batchUpdateFeatures memory_hashes True 0 ?p []) = []"
    by (simp add: batchUpdateFeatures_def write_hash_pair memory_ops live_hash_def om_get_def user_key_def)
  from receive_only_sender_is_not_default [OF redis ok id get new pairs pairs this]
  show ?thesis by (simp add: Let_def)
qed

end
