(* ===== verification/PaaStore.thy ===== *)
theory PaaStore
  imports GraphService FeatureBuilder
begin

text \<open>
  \<open>paa-service/src/services/postgres.service.ts\<close>: the buffers of transactions, node snapshots and
  edges, their flushes, and what is loaded from the tables at start-up. A flush is split at
  its \<open>await\<close>: it takes the buffer, which is then in flight, and completes when the insert has succeeded
  or failed; several may be in flight. \<open>jsonb\<close> columns hold the value, big integers a number; times
  of labels are microseconds, as the database keeps them. Timers, logs and metrics are not modelled.
\<close>

section \<open>Events, rows and tables\<close>

text \<open>An event: the part the graph and the velocities read, its id, and its other fields.\<close>

record paa_event =
  pv_core :: txn_event
  pv_transaction_id :: string
  pv_fraud :: bool
  pv_fraud_probability :: real
  pv_decision :: string
  pv_fields :: fields

record txn_row =
  tr_transactionId :: string
  tr_senderId :: string
  tr_receiverId :: string
  tr_amount :: real
  tr_transactionType :: string
  tr_timestamp :: int
  tr_fraudLabel :: "bool option"
  tr_fraudProbability :: real
  tr_columns :: fields
  tr_groundTruthFraud :: "bool option"
  tr_groundTruthRecordedAt :: "int option"

text \<open>The optional columns, and the field of the event each one keeps.\<close>

definition CONTEXT_COLUMNS :: "(string \<times> string) list" where
  "CONTEXT_COLUMNS =
     [(''decisionSource'', ''decision_source''), (''ruleName'', ''rule_name''),
      (''customerDob'', ''customer_dob''), (''customerNationality'', ''customer_nationality''),
      (''customerType'', ''customer_type''), (''customerIdType'', ''customer_id_type''),
      (''accountAgeDays'', ''account_age_days''), (''isAuthenticated'', ''is_authenticated''),
      (''channel'', ''channel''), (''currency'', ''currency''), (''isInflow'', ''is_inflow''),
      (''isRecurring'', ''is_recurring''), (''walletBalance'', ''wallet_balance''),
      (''customerLatitude'', ''customer_latitude''), (''customerLongitude'', ''customer_longitude''),
      (''transactionCountry'', ''transaction_country''), (''destinationCountry'', ''destination_country''),
      (''ipCountry'', ''ip_country''), (''transactionLat'', ''transaction_lat''), (''transactionLng'', ''transaction_lng''),
      (''ipIsVpn'', ''ip_is_vpn''), (''deviceIsTrusted'', ''device_is_trusted''), (''deviceType'', ''device_type''),
      (''sessionToTxnSeconds'', ''session_to_txn_seconds''), (''agentId'', ''agent_id''),
      (''recipientNationality'', ''recipient_nationality''), (''recipientIdType'', ''recipient_id_type''),
      (''customerFi'', ''customer_fi''), (''recipientFi'', ''recipient_fi''),
      (''customerAccountName'', ''customer_account_name''), (''beneficiaryAccountName'', ''beneficiary_account_name'')]"

definition null_or :: "jval \<Rightarrow> jval" where
  "null_or v = (if nullish v then JNull else v)"

definition fingerprint_column :: "fields \<Rightarrow> jval" where
  "fingerprint_column fs =
     (case field fs ''device_fingerprint'' of JObj (e # es) \<Rightarrow> JObj (e # es) | _ \<Rightarrow> JNull)"

definition context_column :: "fields \<Rightarrow> jval" where
  "context_column fs = (if truthy (field fs ''request_context'') then field fs ''request_context'' else JNull)"

definition row_of_event :: "paa_event \<Rightarrow> txn_row" where
  "row_of_event e =
     \<lparr>tr_transactionId = pv_transaction_id e,
      tr_senderId = ev_sender_id (pv_core e),
      tr_receiverId = ev_receiver_id (pv_core e),
      tr_amount = ev_amount (pv_core e),
      tr_transactionType = ev_transaction_type (pv_core e),
      tr_timestamp = ev_timestamp (pv_core e),
      tr_fraudLabel = None,
      tr_fraudProbability = pv_fraud_probability e,
      tr_columns = map (\<lambda>(c, k). (c, null_or (field (pv_fields e) k))) CONTEXT_COLUMNS
        @ [(''deviceFingerprint'', fingerprint_column (pv_fields e)), (''requestContext'', context_column (pv_fields e))],
      tr_groundTruthFraud = None,
      tr_groundTruthRecordedAt = None\<rparr>"

text \<open>A node snapshot: network features, first and last seen, transaction count and total.\<close>

type_synonym node_snapshot = "network_features \<times> int \<times> int \<times> nat \<times> real"

record meta_row =
  mr_pagerank :: real
  mr_clusteringCoefficient :: real
  mr_communityId :: int
  mr_degreeCentrality :: real
  mr_inDegree :: nat
  mr_outDegree :: nat
  mr_firstSeen :: int
  mr_lastSeen :: int
  mr_transactionCount :: nat
  mr_totalAmount :: real

record pg_tables =
  pt_transactions :: "txn_row list"
  pt_metadata :: "(string, meta_row) omap"
  pt_edges :: "(edge_key, edge_snapshot) omap"

text \<open>The buffers, and the batches whose insert is in flight.\<close>

record pg_writer =
  pb_transactions :: "paa_event list"
  pb_metadata :: "(string, node_snapshot) omap"
  pb_edges :: "(string, edge_snapshot) omap"
  fl_transactions :: "paa_event list list"
  fl_metadata :: "(string, node_snapshot) omap list"
  fl_edges :: "(string, edge_snapshot) omap list"

definition new_writer :: pg_writer where
  "new_writer = \<lparr>pb_transactions = [], pb_metadata = [], pb_edges = [], fl_transactions = [], fl_metadata = [], fl_edges = []\<rparr>"

definition PG_BATCH_SIZE :: nat where "PG_BATCH_SIZE = 100"

section \<open>Flushes\<close>

text \<open>The \<open>i\<close>-th batch in flight completes.\<close>

definition without :: "nat \<Rightarrow> 'a list \<Rightarrow> 'a list" where
  "without i xs = take i xs @ drop (Suc i) xs"

text \<open>\<open>insert(...).onConflict("transactionId").ignore()\<close>\<close>

fun insert_txn_rows :: "txn_row list \<Rightarrow> txn_row list \<Rightarrow> txn_row list" where
  "insert_txn_rows table [] = table"
| "insert_txn_rows table (r # rs) =
     insert_txn_rows (if tr_transactionId r \<in> tr_transactionId ` set table then table else table @ [r]) rs"

definition flushTransactions :: "pg_writer \<Rightarrow> pg_writer" where
  "flushTransactions w =
     (if pb_transactions w = [] then w
      else w\<lparr>pb_transactions := [], fl_transactions := fl_transactions w @ [pb_transactions w]\<rparr>)"

definition complete_transactions :: "bool \<Rightarrow> nat \<Rightarrow> pg_writer \<times> pg_tables \<Rightarrow> pg_writer \<times> pg_tables" where
  "complete_transactions ok i s =
     (let (w, t) = s; batch = fl_transactions w ! i; w' = w\<lparr>fl_transactions := without i (fl_transactions w)\<rparr> in
      if length (fl_transactions w) \<le> i then s
      else if ok then (w', t\<lparr>pt_transactions := insert_txn_rows (pt_transactions t) (map row_of_event batch)\<rparr>)
      else (w'\<lparr>pb_transactions := pb_transactions w @ batch\<rparr>, t))"

definition meta_of :: "node_snapshot \<Rightarrow> meta_row" where
  "meta_of s =
     (let (n, firstSeen, lastSeen, cnt, total) = s in
      \<lparr>mr_pagerank = nf_pagerank n, mr_clusteringCoefficient = nf_clusteringCoef n, mr_communityId = nf_communityId n,
       mr_degreeCentrality = nf_degreeCentrality n, mr_inDegree = nf_inDegree n, mr_outDegree = nf_outDegree n,
       mr_firstSeen = firstSeen, mr_lastSeen = lastSeen, mr_transactionCount = cnt, mr_totalAmount = total\<rparr>)"

definition flushGraphMetadata :: "pg_writer \<Rightarrow> pg_writer" where
  "flushGraphMetadata w =
     (if pb_metadata w = [] then w
      else w\<lparr>pb_metadata := [], fl_metadata := fl_metadata w @ [pb_metadata w]\<rparr>)"

text \<open>\<open>onConflict(...).merge()\<close> on success; on failure every snapshot is set in the buffer again.\<close>

definition complete_metadata :: "bool \<Rightarrow> nat \<Rightarrow> pg_writer \<times> pg_tables \<Rightarrow> pg_writer \<times> pg_tables" where
  "complete_metadata ok i s =
     (let (w, t) = s; batch = fl_metadata w ! i; w' = w\<lparr>fl_metadata := without i (fl_metadata w)\<rparr> in
      if length (fl_metadata w) \<le> i then s
      else if ok then (w', t\<lparr>pt_metadata := fold (\<lambda>(u, x). om_set u (meta_of x)) batch (pt_metadata t)\<rparr>)
      else (w'\<lparr>pb_metadata := fold (\<lambda>(u, x). om_set u x) batch (pb_metadata w)\<rparr>, t))"

definition flushEdges :: "pg_writer \<Rightarrow> pg_writer" where
  "flushEdges w =
     (if pb_edges w = [] then w else w\<lparr>pb_edges := [], fl_edges := fl_edges w @ [pb_edges w]\<rparr>)"

definition complete_edges :: "bool \<Rightarrow> nat \<Rightarrow> pg_writer \<times> pg_tables \<Rightarrow> pg_writer \<times> pg_tables" where
  "complete_edges ok i s =
     (let (w, t) = s; batch = fl_edges w ! i; w' = w\<lparr>fl_edges := without i (fl_edges w)\<rparr> in
      if length (fl_edges w) \<le> i then s
      else if ok then (w', t\<lparr>pt_edges := fold (\<lambda>(_, e). om_set (es_senderId e, es_receiverId e) e) batch (pt_edges t)\<rparr>)
      else (w'\<lparr>pb_edges := fold (\<lambda>(k, e). om_set k e) batch (pb_edges w)\<rparr>, t))"

section \<open>Queueing\<close>

text \<open>A full buffer starts a flush at once.\<close>

definition queueTransaction :: "paa_event \<Rightarrow> pg_writer \<Rightarrow> pg_writer" where
  "queueTransaction e w =
     (let w' = w\<lparr>pb_transactions := pb_transactions w @ [e]\<rparr>
      in if PG_BATCH_SIZE \<le> length (pb_transactions w') then flushTransactions w' else w')"

definition queueGraphMetadata :: "string \<Rightarrow> node_snapshot \<Rightarrow> pg_writer \<Rightarrow> pg_writer" where
  "queueGraphMetadata u x w =
     (let w' = w\<lparr>pb_metadata := om_set u x (pb_metadata w)\<rparr>
      in if PG_BATCH_SIZE \<le> length (pb_metadata w') then flushGraphMetadata w' else w')"

definition edge_buffer_key :: "edge_snapshot \<Rightarrow> string" where
  "edge_buffer_key e = es_senderId e @ ''|'' @ es_receiverId e"

definition queueEdge :: "edge_snapshot \<Rightarrow> pg_writer \<Rightarrow> pg_writer" where
  "queueEdge e w =
     (let w' = w\<lparr>pb_edges := om_set (edge_buffer_key e) e (pb_edges w)\<rparr>
      in if PG_BATCH_SIZE \<le> length (pb_edges w') then flushEdges w' else w')"

text \<open>\<open>stop\<close> waits for the three flushes it starts; each insert has an outcome.\<close>

definition pg_stop :: "bool \<Rightarrow> bool \<Rightarrow> bool \<Rightarrow> bool \<Rightarrow> pg_writer \<times> pg_tables \<Rightarrow> pg_writer \<times> pg_tables" where
  "pg_stop discard ok_txn ok_meta ok_edge s =
     (let (w, t) = s in
      if discard then (w\<lparr>pb_transactions := [], pb_metadata := [], pb_edges := []\<rparr>, t)
      else complete_edges ok_edge (length (fl_edges w))
            (complete_metadata ok_meta (length (fl_metadata w))
             (complete_transactions ok_txn (length (fl_transactions w))
              (flushEdges (flushGraphMetadata (flushTransactions w)), t))))"

section \<open>Loading\<close>

definition node_state_of :: "string \<times> meta_row \<Rightarrow> node_hydration" where
  "node_state_of e =
     \<lparr>nh_userId = fst e, nh_firstSeen = Some (mr_firstSeen (snd e)), nh_lastSeen = Some (mr_lastSeen (snd e)),
      nh_transactionCount = Some (mr_transactionCount (snd e)), nh_totalAmount = Some (mr_totalAmount (snd e))\<rparr>"

text \<open>\<open>None\<close>: a query failed; the result is then empty.\<close>

definition loadGraphState :: "bool \<Rightarrow> pg_tables \<Rightarrow> edge_snapshot list \<times> node_hydration list \<times> int" where
  "loadGraphState ok t =
     (if \<not> ok then ([], [], 0)
      else let edges = map snd (pt_edges t) in
        (edges, map node_state_of (pt_metadata t), fold (\<lambda>e m. if m < es_lastTransaction e then es_lastTransaction e else m) edges 0))"

text \<open>Rows from the cutoff on in time order, at most \<open>limit\<close>; equal times stay in table order.\<close>

definition event_of_row :: "txn_row \<Rightarrow> paa_event" where
  "event_of_row r =
     \<lparr>pv_core = \<lparr>ev_sender_id = tr_senderId r, ev_receiver_id = tr_receiverId r, ev_amount = tr_amount r,
        ev_transaction_type = tr_transactionType r, ev_timestamp = tr_timestamp r\<rparr>,
      pv_transaction_id = tr_transactionId r,
      pv_fraud = (tr_fraudLabel r = Some True), pv_fraud_probability = tr_fraudProbability r,
      pv_decision = (if tr_fraudLabel r = Some True then ''DECLINE'' else ''ACCEPT''),
      pv_fields = [(''device_fingerprint'', field (tr_columns r) ''deviceFingerprint'')]\<rparr>"

definition historicalLimit :: "nat \<Rightarrow> nat" where
  "historicalLimit configured = max (if configured = 0 then 100000 else configured) 1000"

definition loadGraphData :: "bool \<Rightarrow> int \<Rightarrow> nat \<Rightarrow> int option \<Rightarrow> pg_tables \<Rightarrow> paa_event list" where
  "loadGraphData ok now configured sinceTimestamp t =
     (if \<not> ok then []
      else let cutoff = (case sinceTimestamp of Some s \<Rightarrow> s | None \<Rightarrow> now - 30 * 24 * 60 * 60 * 1000)
        in map event_of_row (take (historicalLimit configured)
             (sort_key tr_timestamp (filter (\<lambda>r. cutoff \<le> tr_timestamp r) (pt_transactions t)))))"

definition FLAGGED_LIMIT :: nat where "FLAGGED_LIMIT = 50000"

text \<open>Milliseconds of a label's time; rows without a time sort last.\<close>

definition recorded_ms :: "txn_row \<Rightarrow> int" where
  "recorded_ms r = (case tr_groundTruthRecordedAt r of Some x \<Rightarrow> x div 1000 | None \<Rightarrow> 0)"

definition label_since :: "int option \<Rightarrow> txn_row \<Rightarrow> bool" where
  "label_since sinceMs r =
     (tr_groundTruthFraud r = Some True \<and>
      (case sinceMs of
         Some s \<Rightarrow> if s = 0 then True else (case tr_groundTruthRecordedAt r of Some x \<Rightarrow> 1000 * s < x | None \<Rightarrow> False)
       | None \<Rightarrow> True))"

definition by_label_time :: "txn_row list \<Rightarrow> txn_row list" where
  "by_label_time rows =
     sort_key (\<lambda>r. the (tr_groundTruthRecordedAt r)) (filter (\<lambda>r. tr_groundTruthRecordedAt r \<noteq> None) rows)
       @ filter (\<lambda>r. tr_groundTruthRecordedAt r = None) rows"

definition loadFraudFlaggedUsers :: "bool \<Rightarrow> int option \<Rightarrow> pg_tables \<Rightarrow> string list \<times> int" where
  "loadFraudFlaggedUsers ok sinceMs t =
     (let since = (case sinceMs of Some s \<Rightarrow> s | None \<Rightarrow> 0) in
      if \<not> ok then ([], since)
      else
        let rows = take FLAGGED_LIMIT (by_label_time (filter (label_since sinceMs) (pt_transactions t)))
        in (js_set (concat (map (\<lambda>r. filter (\<lambda>u. u \<noteq> []) [tr_senderId r, tr_receiverId r]) rows)),
            fold (\<lambda>r m. if m < recorded_ms r then recorded_ms r else m) rows since))"

section \<open>No transaction is lost\<close>

datatype store_op = QueueTxn paa_event | FlushTxn | CompleteTxn bool nat

fun store_step :: "store_op \<Rightarrow> pg_writer \<times> pg_tables \<Rightarrow> pg_writer \<times> pg_tables" where
  "store_step (QueueTxn e) (w, t) = (queueTransaction e w, t)"
| "store_step FlushTxn (w, t) = (flushTransactions w, t)"
| "store_step (CompleteTxn ok i) s = complete_transactions ok i s"

definition run_store :: "store_op list \<Rightarrow> pg_tables \<Rightarrow> pg_writer \<times> pg_tables" where
  "run_store ops t = fold store_step ops (new_writer, t)"

definition queued_events :: "store_op list \<Rightarrow> paa_event set" where
  "queued_events ops = {e. QueueTxn e \<in> set ops}"

definition waiting :: "pg_writer \<Rightarrow> paa_event set" where
  "waiting w = set (pb_transactions w) \<union> \<Union> (set ` set (fl_transactions w))"

definition table_ids :: "pg_tables \<Rightarrow> string set" where
  "table_ids t = tr_transactionId ` set (pt_transactions t)"

lemma waiting_flush [simp]: "waiting (flushTransactions w) = waiting w"
  by (auto simp: waiting_def flushTransactions_def)

lemma waiting_queue [simp]: "waiting (queueTransaction e w) = insert e (waiting w)"
proof -
  have "waiting (w\<lparr>pb_transactions := pb_transactions w @ [e]\<rparr>) = insert e (waiting w)" by (auto simp: waiting_def)
  then show ?thesis by (simp add: queueTransaction_def Let_def)
qed

lemma set_without: "i < length xs \<Longrightarrow> set xs = insert (xs ! i) (set (without i xs))"
  using id_take_nth_drop [of i xs] by (metis without_def list.set(2) set_append Un_insert_right)

lemma insert_txn_ids: "tr_transactionId ` set (insert_txn_rows table rs) = tr_transactionId ` (set table \<union> set rs)"
  by (induction rs arbitrary: table) auto

lemma insert_txn_sub: "set (insert_txn_rows table rs) \<subseteq> set table \<union> set rs"
  by (induction rs arbitrary: table) (auto split: if_splits, fastforce)

lemma insert_txn_distinct: "distinct (map tr_transactionId table) \<Longrightarrow> distinct (map tr_transactionId (insert_txn_rows table rs))"
  by (induction rs arbitrary: table) auto

definition store_inv :: "pg_tables \<Rightarrow> store_op list \<Rightarrow> pg_writer \<times> pg_tables \<Rightarrow> bool" where
  "store_inv t0 ops s =
     (pv_transaction_id ` waiting (fst s) \<union> table_ids (snd s) = table_ids t0 \<union> pv_transaction_id ` queued_events ops
      \<and> waiting (fst s) \<subseteq> queued_events ops
      \<and> set (pt_transactions (snd s)) \<subseteq> set (pt_transactions t0) \<union> row_of_event ` queued_events ops
      \<and> distinct (map tr_transactionId (pt_transactions (snd s))))"

lemma queued_snoc: "queued_events (ops @ [op]) = (case op of QueueTxn e \<Rightarrow> insert e (queued_events ops) | _ \<Rightarrow> queued_events ops)"
  by (auto simp: queued_events_def split: store_op.split)

lemma row_id [simp]: "tr_transactionId (row_of_event e) = pv_transaction_id e"
  by (simp add: row_of_event_def)

lemma complete_inv:
  assumes "store_inv t0 ops (w, t)"
  shows "store_inv t0 ops (complete_transactions ok i (w, t))"
proof (cases "i < length (fl_transactions w)")
  case True
  let ?batch = "fl_transactions w ! i" and ?w = "w\<lparr>fl_transactions := without i (fl_transactions w)\<rparr>"
  have w: "waiting w = set ?batch \<union> waiting ?w"
    using set_without [OF True] by (auto simp: waiting_def)
  show ?thesis
  proof (cases ok)
    case True
    have ids: "table_ids (t\<lparr>pt_transactions := insert_txn_rows (pt_transactions t) (map row_of_event ?batch)\<rparr>) =
        table_ids t \<union> pv_transaction_id ` set ?batch"
      using insert_txn_ids [of "pt_transactions t" "map row_of_event ?batch"] by (simp add: table_ids_def image_Un image_image)
    have "set (insert_txn_rows (pt_transactions t) (map row_of_event ?batch)) \<subseteq> set (pt_transactions t) \<union> row_of_event ` set ?batch"
      using insert_txn_sub [of "pt_transactions t" "map row_of_event ?batch"] by simp
    moreover have "set ?batch \<subseteq> queued_events ops" using assms w by (simp add: store_inv_def)
    moreover have "set (pt_transactions t) \<subseteq> set (pt_transactions t0) \<union> row_of_event ` queued_events ops"
      using assms by (simp add: store_inv_def)
    ultimately have rows: "set (insert_txn_rows (pt_transactions t) (map row_of_event ?batch))
        \<subseteq> set (pt_transactions t0) \<union> row_of_event ` queued_events ops"
      by blast
    have "pv_transaction_id ` waiting ?w \<union> (table_ids t \<union> pv_transaction_id ` set ?batch) =
        pv_transaction_id ` waiting w \<union> table_ids t" unfolding w by auto
    moreover have "waiting ?w \<subseteq> queued_events ops" using assms w by (simp add: store_inv_def)
    ultimately show ?thesis
      using assms True \<open>i < _\<close> ids rows insert_txn_distinct
      by (simp add: store_inv_def complete_transactions_def Let_def)
  next
    case False
    have "waiting (?w\<lparr>pb_transactions := pb_transactions w @ ?batch\<rparr>) = waiting w"
      unfolding w by (auto simp: waiting_def)
    then show ?thesis using assms False \<open>i < _\<close> by (simp add: store_inv_def complete_transactions_def Let_def)
  qed
qed (use assms in \<open>simp add: complete_transactions_def Let_def\<close>)

lemma run_store_inv:
  assumes "distinct (map tr_transactionId (pt_transactions t0))"
  shows "store_inv t0 ops (run_store ops t0)"
proof (induction ops rule: rev_induct)
  case Nil
  then show ?case using assms by (simp add: store_inv_def run_store_def waiting_def new_writer_def queued_events_def table_ids_def)
next
  case (snoc op ops)
  obtain w t where s: "run_store ops t0 = (w, t)" by (cases "run_store ops t0")
  show ?case
  proof (cases op)
    case (CompleteTxn ok i)
    then show ?thesis using complete_inv [of t0 ops w t ok i] snoc s
      by (simp add: run_store_def store_inv_def queued_snoc)
  qed (use snoc s in \<open>auto simp: run_store_def store_inv_def queued_snoc\<close>)
qed

text \<open>
  C9: no transaction is lost between the event and the table, and none is stored twice. Whatever the
  order of queueing, timer flushes, inserts that succeed and inserts that fail, with any number in
  flight: every queued id is in the table, in the buffer or in flight; what waits was queued; the
  table holds one row per id, and every row it did not hold before is the row of a queued event.
\<close>

theorem paa_transactions_conserved:
  assumes "distinct (map tr_transactionId (pt_transactions t0))" and "run_store ops t0 = (w, t)"
  shows "pv_transaction_id ` waiting w \<union> table_ids t = table_ids t0 \<union> pv_transaction_id ` queued_events ops
    \<and> waiting w \<subseteq> queued_events ops
    \<and> set (pt_transactions t) \<subseteq> set (pt_transactions t0) \<union> row_of_event ` queued_events ops
    \<and> distinct (map tr_transactionId (pt_transactions t))"
  using run_store_inv [OF assms(1), of ops] assms(2) by (simp add: store_inv_def)

text \<open>
  A failed edge flush puts the past back. The edges a failed insert carried are set in
  the buffer again, over snapshots of the same edges queued while the insert was in flight; the
  next flush that succeeds stores the older weight, and the newer snapshot is gone.
\<close>

theorem failed_flush_restores_stale_edge:
  assumes "i < length (fl_edges w)" and "om_get (fl_edges w ! i) k = Some old" and "om_wf (fl_edges w ! i)"
    and "om_get (pb_edges w) k = Some new"
  shows "om_get (pb_edges (fst (complete_edges False i (w, t)))) k = Some old
    \<and> snd (complete_edges False i (w, t)) = t"
  using assms om_get_fold_set [of "fl_edges w ! i" "pb_edges w" k]
  by (simp add: complete_edges_def Let_def om_wf_def) (simp add: om_get_def)

text \<open>
  What is stored is what is replayed: the event rebuilt from a stored row has the id, sender,
  receiver, amount, type and time of the original, so graph and velocities see the same transaction;
  the system's own verdict is not replayed as a fraud label.
\<close>

theorem stored_event_roundtrip:
  "pv_core (event_of_row (row_of_event e)) = pv_core e
   \<and> pv_transaction_id (event_of_row (row_of_event e)) = pv_transaction_id e
   \<and> \<not> pv_fraud (event_of_row (row_of_event e))"
  by (simp add: event_of_row_def row_of_event_def)

section \<open>Instances\<close>

definition sample_stored :: paa_event where
  "sample_stored = \<lparr>pv_core = \<lparr>ev_sender_id = ''a'', ev_receiver_id = ''b'', ev_amount = 5, ev_transaction_type = ''transfer'',
     ev_timestamp = 1000\<rparr>, pv_transaction_id = ''t1'', pv_fraud = False, pv_fraud_probability = 0, pv_decision = ''ACCEPT'', pv_fields = []\<rparr>"

theorem paa_transactions_conserved_witness:
  "pv_transaction_id ` waiting (fst (run_store [QueueTxn sample_stored, FlushTxn, CompleteTxn False 0, FlushTxn, CompleteTxn True 0]
      \<lparr>pt_transactions = [], pt_metadata = [], pt_edges = []\<rparr>)) \<union>
    table_ids (snd (run_store [QueueTxn sample_stored, FlushTxn, CompleteTxn False 0, FlushTxn, CompleteTxn True 0]
      \<lparr>pt_transactions = [], pt_metadata = [], pt_edges = []\<rparr>)) = {''t1''}"
proof -
  let ?ops = "[QueueTxn sample_stored, FlushTxn, CompleteTxn False 0, FlushTxn, CompleteTxn True 0]"
  let ?t = "\<lparr>pt_transactions = [], pt_metadata = [], pt_edges = []\<rparr> :: pg_tables"
  have "run_store ?ops ?t = (fst (run_store ?ops ?t), snd (run_store ?ops ?t))" by simp
  moreover have "distinct (map tr_transactionId (pt_transactions ?t))" by simp
  moreover have "queued_events ?ops = {sample_stored}" by (auto simp: queued_events_def)
  ultimately show ?thesis
    using paa_transactions_conserved [of ?t ?ops "fst (run_store ?ops ?t)" "snd (run_store ?ops ?t)"]
    by (simp add: table_ids_def sample_stored_def)
qed

definition sample_edge :: "nat \<Rightarrow> edge_snapshot" where
  "sample_edge n = \<lparr>es_senderId = ''a'', es_receiverId = ''b'', es_weight = n, es_totalAmount = 5 * real n,
     es_firstTransaction = 1000, es_lastTransaction = 2000, es_transactionTypes = [''transfer'']\<rparr>"

theorem failed_flush_restores_stale_edge_witness:
  "om_get (pb_edges (fst (complete_edges False 0 (queueEdge (sample_edge 4) (flushEdges (queueEdge (sample_edge 3) new_writer)), t))))
     ''a|b'' = Some (sample_edge 3)"
proof -
  let ?w = "queueEdge (sample_edge 4) (flushEdges (queueEdge (sample_edge 3) new_writer))"
  have q: "queueEdge (sample_edge 3) new_writer = new_writer\<lparr>pb_edges := [(''a|b'', sample_edge 3)]\<rparr>"
    by (simp add: queueEdge_def new_writer_def edge_buffer_key_def sample_edge_def PG_BATCH_SIZE_def)
  have w: "?w = new_writer\<lparr>pb_edges := [(''a|b'', sample_edge 4)], fl_edges := [[(''a|b'', sample_edge 3)]]\<rparr>"
    unfolding q by (simp add: flushEdges_def queueEdge_def new_writer_def edge_buffer_key_def sample_edge_def PG_BATCH_SIZE_def)
  have "0 < length (fl_edges ?w)" "om_get (fl_edges ?w ! 0) ''a|b'' = Some (sample_edge 3)" "om_wf (fl_edges ?w ! 0)"
    "om_get (pb_edges ?w) ''a|b'' = Some (sample_edge 4)"
    unfolding w by (simp_all add: om_get_def om_wf_def)
  from failed_flush_restores_stale_edge [OF this, of t] show ?thesis by blast
qed

end
