(* ===== verification/PaaWorker.thy ===== *)
theory PaaWorker
  imports PaaFeatures PaaStore ProcessedEvents
begin

text \<open>
  \<open>paa-service/src/worker.ts\<close> and the message loop of \<open>paa-service/src/services/kafka-consumer.ts\<close>:
  the state of one worker, what it does with a delivered message, how it loads its state at
  start-up, follows the fraud labels and shuts down. The clock stands still inside one run of the
  handler; the HTTP server, the timers that call these operations, logs and metrics are not modelled.
\<close>

section \<open>State\<close>

record paa_cfg =
  pc_velocity :: velocity_cfg
  pc_graph :: graph_cfg
  pc_algorithms :: graph_algorithms
  pc_historicalLimit :: nat

record paa_worker =
  w_graph :: graph_state
  w_velocity :: velocity_state
  w_seen :: processed_events
  w_redis :: redis_updates
  w_store :: pg_writer
  w_processedCount :: nat
  w_fraudLabelWatermarkMs :: int

definition new_worker :: "nat \<Rightarrow> paa_worker" where
  "new_worker capacity =
     \<lparr>w_graph = empty_graph, w_velocity = [], w_seen = pe_new capacity,
      w_redis = \<lparr>ru_pending = no_updates, ru_batches = []\<rparr>, w_store = new_writer,
      w_processedCount = 0, w_fraudLabelWatermarkMs = 0\<rparr>"

section \<open>One transaction\<close>

definition no_network_features :: network_features where
  "no_network_features =
     \<lparr>nf_pagerank = 0, nf_clusteringCoef = 0, nf_communityId = 0, nf_degreeCentrality = 0, nf_inDegree = 0,
      nf_outDegree = 0, nf_isHub = 0, nf_shortestPathToFraud = 99, nf_neighborhoodFraudRate = 0\<rparr>"

definition combined_of :: "graph_state \<Rightarrow> velocity_state \<Rightarrow> int \<Rightarrow> txn_event \<Rightarrow> combined_features" where
  "combined_of g v now ev =
     \<lparr>cf_velocity = calculateMetrics v (ev_sender_id ev) (ev_timestamp ev),
      cf_network = (case getNodeSnapshot g (ev_sender_id ev) of Some s \<Rightarrow> fst s | None \<Rightarrow> no_network_features),
      cf_recipientLifetimeTxCount = getInboundTransactionCount g (ev_sender_id ev),
      cf_updated_at = now\<rparr>"

definition pair_of :: "graph_state \<Rightarrow> velocity_state \<Rightarrow> txn_event \<Rightarrow> pair_features" where
  "pair_of g v ev =
     (let m = calculatePairMetrics v (ev_sender_id ev) (ev_receiver_id ev) (ev_timestamp ev) in
      \<lparr>pf_priorSendCount = (case getEdgeSnapshot g (ev_sender_id ev) (ev_receiver_id ev) of
         Some e \<Rightarrow> es_weight e | None \<Rightarrow> forwardCount30d m),
       pf_secondsSincePrevSend = (case pair_secondsSincePrevSend m of Some s \<Rightarrow> s | None \<Rightarrow> 999999),
       pf_roundTripCount30d = pair_roundTripCount30d m,
       pf_amountMean30d = pair_amountMean30d m\<rparr>)"

definition queue_features :: "graph_state \<Rightarrow> velocity_state \<Rightarrow> int \<Rightarrow> txn_event \<Rightarrow> redis_updates \<Rightarrow> redis_updates" where
  "queue_features g v now ev r =
     queueReceiverCount (ev_receiver_id ev) (getInboundTransactionCount g (ev_receiver_id ev))
       (queuePairUpdate (ev_sender_id ev) (ev_receiver_id ev) (pair_of g v ev)
         (queueUpdate (ev_sender_id ev) (combined_of g v now ev) r))"

definition queue_rows :: "graph_state \<Rightarrow> paa_event \<Rightarrow> pg_writer \<Rightarrow> pg_writer" where
  "queue_rows g e p =
     (let ev = pv_core e;
          meta = (\<lambda>u p. case getNodeSnapshot g u of Some s \<Rightarrow> queueGraphMetadata u s p | None \<Rightarrow> p);
          p' = meta (ev_receiver_id ev) (meta (ev_sender_id ev) (queueTransaction e p))
      in case getEdgeSnapshot g (ev_sender_id ev) (ev_receiver_id ev) of Some s \<Rightarrow> queueEdge s p' | None \<Rightarrow> p')"

definition processTransaction :: "paa_cfg \<Rightarrow> int \<Rightarrow> paa_event \<Rightarrow> paa_worker \<Rightarrow> graph_error option \<times> paa_worker" where
  "processTransaction cfg now e w =
     (case addTransaction (pc_graph cfg) (pc_algorithms cfg) now (pv_core e) (w_graph w) of
        (Some err, g) \<Rightarrow> (Some err, w\<lparr>w_graph := g\<rparr>)
      | (None, g) \<Rightarrow>
          (let v = recordTransaction (pc_velocity cfg) now (pv_core e) (w_velocity w) in
           (None, w\<lparr>w_graph := g, w_velocity := v,
              w_redis := queue_features g v now (pv_core e) (w_redis w),
              w_store := queue_rows g e (w_store w),
              w_processedCount := Suc (w_processedCount w)\<rparr>)))"

section \<open>One message\<close>

definition paa_maxRetries :: nat where "paa_maxRetries = 3"

text \<open>
  The handler may behave differently in each attempt (the clock moves on). The result holds
  whether an attempt succeeded, the delays slept and the state.
\<close>

function processWithRetry :: "(nat \<Rightarrow> 's \<Rightarrow> bool \<times> 's) \<Rightarrow> nat \<Rightarrow> 's \<Rightarrow> bool \<times> int list \<times> 's" where
  "processWithRetry handler attempt s =
     (case handler attempt s of
        (True, s') \<Rightarrow> (True, [], s')
      | (False, s') \<Rightarrow>
          if attempt < paa_maxRetries then
            (let (ok, delays, s'') = processWithRetry handler (attempt + 1) s'
             in (ok, 100 * 2 ^ attempt # delays, s''))
          else (False, [], s'))"
  by pat_completeness auto
termination by (relation "measure (\<lambda>(_, attempt, _). paa_maxRetries - attempt)") auto

declare processWithRetry.simps [simp del]

datatype kafka_value = NullValue | Unparsable | Event paa_event

text \<open>A delivery: the offset, the value, the clock of each attempt, whether each commit call succeeds.\<close>

record delivery =
  d_offset :: nat
  d_value :: kafka_value
  d_clock :: "nat \<Rightarrow> int"
  d_commits :: "nat \<Rightarrow> bool"

definition commitOffset :: "delivery \<Rightarrow> nat \<Rightarrow> nat option" where
  "commitOffset d call = (if d_commits d call then Some (d_offset d + 1) else None)"

definition handle :: "paa_cfg \<Rightarrow> delivery \<Rightarrow> paa_event \<Rightarrow> nat \<Rightarrow> paa_worker \<Rightarrow> bool \<times> paa_worker" where
  "handle cfg d e attempt w = (let (err, w') = processTransaction cfg (d_clock d attempt) e w in (err = None, w'))"

text \<open>The committed offset; \<open>None\<close> when the last commit call failed and the error leaves the handler.\<close>

definition processMessage :: "paa_cfg \<Rightarrow> delivery \<Rightarrow> paa_worker \<Rightarrow> nat option \<times> paa_worker" where
  "processMessage cfg d w =
     (let (failed, w') =
        (case d_value d of
           NullValue \<Rightarrow> (False, w)
         | Unparsable \<Rightarrow> (True, w)
         | Event e \<Rightarrow>
             (let (is_new, seen) = markIfNew (Some (pv_transaction_id e)) (w_seen w); w1 = w\<lparr>w_seen := seen\<rparr> in
              if is_new then (let (ok, _, w2) = processWithRetry (handle cfg d e) 0 w1 in (\<not> ok, w2))
              else (False, w1)))
      in (if failed then commitOffset d 0
          else (case commitOffset d 0 of None \<Rightarrow> commitOffset d 1 | Some n \<Rightarrow> Some n), w'))"

definition deliver :: "paa_cfg \<Rightarrow> delivery list \<Rightarrow> paa_worker \<Rightarrow> paa_worker" where
  "deliver cfg ds w = fold (\<lambda>d w. snd (processMessage cfg d w)) ds w"

section \<open>Start-up, labels and shutdown\<close>

text \<open>The replay of stored transactions; an error ends it.\<close>

fun replay :: "paa_cfg \<Rightarrow> int \<Rightarrow> paa_event list \<Rightarrow> paa_worker \<Rightarrow> bool \<times> paa_worker" where
  "replay cfg now [] w = (True, w)"
| "replay cfg now (e # es) w =
     (let w1 = w\<lparr>w_seen := snd (markIfNew (Some (pv_transaction_id e)) (w_seen w))\<rparr> in
      case addTransaction (pc_graph cfg) (pc_algorithms cfg) now (pv_core e) (w_graph w1) of
        (Some err, g) \<Rightarrow> (False, w1\<lparr>w_graph := g\<rparr>)
      | (None, g) \<Rightarrow>
          replay cfg now es (w1\<lparr>w_graph := g, w_velocity := recordTransaction (pc_velocity cfg) now (pv_core e) (w_velocity w1)\<rparr>))"

definition loadHistoricalData :: "paa_cfg \<Rightarrow> bool \<Rightarrow> bool \<Rightarrow> int \<Rightarrow> pg_tables \<Rightarrow> paa_worker \<Rightarrow> paa_worker" where
  "loadHistoricalData cfg ok_state ok_rows now t w =
     (let (edges, nodeState, latestEdgeTimestamp) = loadGraphState ok_state t;
          w1 = (if edges \<noteq> [] then w\<lparr>w_graph := hydrateNodeState nodeState (hydrateEdges edges (w_graph w))\<rparr> else w);
          tailSince = (if edges \<noteq> [] then Some (latestEdgeTimestamp + 1) else None);
          (ok, w2) = replay cfg now (loadGraphData ok_rows now (pc_historicalLimit cfg) tailSince t) w1
      in if ok then w2\<lparr>w_graph := computeNetworkMetrics (pc_algorithms cfg) now (w_graph w2)\<rparr> else w2)"

definition syncFraudLabels :: "bool \<Rightarrow> pg_tables \<Rightarrow> paa_worker \<Rightarrow> paa_worker" where
  "syncFraudLabels ok t w =
     (let since = (if w_fraudLabelWatermarkMs w = 0 then None else Some (w_fraudLabelWatermarkMs w));
          (userIds, latestRecordedAtMs) = loadFraudFlaggedUsers ok since t
      in w\<lparr>w_graph := snd (markFraudUsers userIds (w_graph w)),
           w_fraudLabelWatermarkMs := (if w_fraudLabelWatermarkMs w < latestRecordedAtMs then latestRecordedAtMs
             else w_fraudLabelWatermarkMs w)\<rparr>)"

text \<open>\<open>detached\<close>: the consumer disconnected and the lease was released; otherwise nothing more happens.\<close>

definition worker_shutdown ::
    "bool \<Rightarrow> bool \<Rightarrow> bool \<Rightarrow> bool \<Rightarrow> bool \<Rightarrow> paa_worker \<times> pg_tables \<Rightarrow> paa_worker \<times> pg_tables" where
  "worker_shutdown detached fenced ok_txn ok_meta ok_edge s =
     (let (w, t) = s in
      if \<not> detached then s
      else let (p, t') = pg_stop fenced ok_txn ok_meta ok_edge (w_store w, t)
           in (w\<lparr>w_redis := redis_stop fenced (w_redis w), w_store := p\<rparr>, t'))"

section \<open>Redelivery\<close>

definition delivery_id :: "delivery \<Rightarrow> string option" where
  "delivery_id d = (case d_value d of Event e \<Rightarrow> if pv_transaction_id e = [] then None else Some (pv_transaction_id e) | _ \<Rightarrow> None)"

text \<open>The deliveries without the repetitions of an id.\<close>

fun first_deliveries :: "string set \<Rightarrow> delivery list \<Rightarrow> delivery list" where
  "first_deliveries ids [] = []"
| "first_deliveries ids (d # ds) =
     (case delivery_id d of
        None \<Rightarrow> d # first_deliveries ids ds
      | Some i \<Rightarrow> if i \<in> ids then first_deliveries ids ds else d # first_deliveries (insert i ids) ds)"

definition delivered_ids :: "delivery list \<Rightarrow> string set" where
  "delivered_ids ds = {i. Some i \<in> delivery_id ` set ds}"

lemma processTransaction_seen [simp]: "w_seen (snd (processTransaction cfg now e w)) = w_seen w"
  by (simp add: processTransaction_def Let_def split: prod.split option.split)

lemma retry_keeps:
  assumes "\<And>k s. P s \<Longrightarrow> P (snd (handler k s))" and "P s"
  shows "P (snd (snd (processWithRetry handler a s)))"
  using assms
proof (induction handler a s rule: processWithRetry.induct)
  case (1 handler a s)
  obtain ok s' where h: "handler a s = (ok, s')" by (cases "handler a s")
  have s': "P s'" using "1.prems"(1) [OF "1.prems"(2), of a] h by simp
  show ?case
  proof (cases "\<not> ok \<and> a < paa_maxRetries")
    case True
    then have "P (snd (snd (processWithRetry handler (a + 1) s')))"
      using "1.IH" [of False s'] h "1.prems"(1) s' by simp
    then show ?thesis using True h by (simp add: processWithRetry.simps [of handler a s] split_beta Let_def)
  next
    case False
    then show ?thesis using h s' by (cases ok) (simp_all add: processWithRetry.simps [of handler a s])
  qed
qed

lemma handle_seen: "w_seen (snd (handle cfg d e k w)) = w_seen w"
  by (simp add: handle_def Let_def split_beta)

lemma retry_seen: "w_seen (snd (snd (processWithRetry (handle cfg d e) a w))) = w_seen w"
  by (rule retry_keeps [where P = "\<lambda>x. w_seen x = w_seen w"]) (simp_all add: handle_seen)

text \<open>What a delivery does to the window of ids, and a repetition to the whole state.\<close>

lemma message_seen: "w_seen (snd (processMessage cfg d w)) =
    (case delivery_id d of None \<Rightarrow> w_seen w | Some i \<Rightarrow> snd (markIfNew (Some i) (w_seen w)))"
  by (simp add: processMessage_def delivery_id_def Let_def split_beta retry_seen markIfNew_def split: kafka_value.split)

lemma repetition_changes_nothing:
  assumes "delivery_id d = Some i" and "i \<in> pe_seen (w_seen w)"
  shows "snd (processMessage cfg d w) = w"
proof -
  obtain e where e: "d_value d = Event e" "pv_transaction_id e = i" "i \<noteq> []"
    using assms(1) by (auto simp: delivery_id_def split: kafka_value.splits if_splits)
  then have "markIfNew (Some (pv_transaction_id e)) (w_seen w) = (False, w_seen w)" using assms(2) by (simp add: markIfNew_def)
  then show ?thesis using e by (simp add: processMessage_def Let_def)
qed

lemma delivered_cons: "delivered_ids (d # ds) = (case delivery_id d of None \<Rightarrow> delivered_ids ds | Some i \<Rightarrow> insert i (delivered_ids ds))"
  by (auto simp: delivered_ids_def split: option.split)

lemma delivered_finite: "finite (delivered_ids ds)"
  by (induction ds) (simp add: delivered_ids_def, simp add: delivered_cons split: option.split)

lemma deliver_first:
  assumes "represents n (w_seen w) acc" and "distinct acc" and "card (set acc \<union> delivered_ids ds) \<le> n"
  shows "deliver cfg ds w = deliver cfg (first_deliveries (set acc) ds) w"
  using assms
proof (induction ds arbitrary: w acc)
  case (Cons d ds)
  have sub: "card (set acc \<union> delivered_ids ds) \<le> n"
    using Cons.prems(3) card_mono [of "set acc \<union> delivered_ids (d # ds)" "set acc \<union> delivered_ids ds"] delivered_finite [of "d # ds"]
    by (force simp: delivered_cons split: option.splits)
  have "card (set acc) \<le> card (set acc \<union> delivered_ids (d # ds))" by (rule card_mono) (simp_all add: delivered_finite)
  then have acc: "length acc \<le> n" using Cons.prems(2,3) by (simp add: distinct_card)
  then have seen: "pe_seen (w_seen w) = set acc" using Cons.prems(1) by (simp add: represents_def window_def)
  show ?case
  proof (cases "delivery_id d")
    case None
    then have "w_seen (snd (processMessage cfg d w)) = w_seen w" by (simp add: message_seen)
    then show ?thesis using Cons.IH [of "snd (processMessage cfg d w)" acc] Cons.prems(1,2) sub None by (simp add: deliver_def)
  next
    case (Some i)
    show ?thesis
    proof (cases "i \<in> set acc")
      case True
      then have "snd (processMessage cfg d w) = w" using repetition_changes_nothing Some seen by simp
      then show ?thesis using Cons.IH [of w acc] Cons.prems(1,2) sub Some True by (simp add: deliver_def)
    next
      case False
      let ?w = "snd (processMessage cfg d w)"
      have "i \<noteq> []" using Some by (auto simp: delivery_id_def split: kafka_value.splits if_splits)
      then have "represents n (w_seen ?w) (acc @ [i])"
        using mark_represents [OF Cons.prems(1), of i] False Some seen by (simp add: message_seen)
      moreover have "insert i (set acc \<union> delivered_ids ds) = set acc \<union> delivered_ids (d # ds)"
        using Some by (simp add: delivered_cons)
      then have "card (set (acc @ [i]) \<union> delivered_ids ds) \<le> n" using Cons.prems(3) by simp
      ultimately have "deliver cfg ds ?w = deliver cfg (first_deliveries (set (acc @ [i])) ds) ?w"
        using Cons.IH Cons.prems(2) False by simp
      then show ?thesis using Some False by (simp add: deliver_def)
    qed
  qed
qed simp

text \<open>
  C4: at-least-once delivery has the effect of exactly-once. However often and in
  whatever order Kafka repeats messages, as long as the distinct transaction ids fit the window
  of processed ids, the worker's whole state (graph, velocities, queued features
  and rows, count) is that of delivering each id once, at its first delivery, retries and failed attempts included.
\<close>

theorem redelivery_is_exactly_once:
  assumes "card (delivered_ids ds) \<le> max 1 capacity"
  shows "deliver cfg ds (new_worker capacity) = deliver cfg (first_deliveries {} ds) (new_worker capacity)"
  using deliver_first [of "max 1 capacity" "new_worker capacity" "[]" ds cfg] represents_new assms by (simp add: new_worker_def)

section \<open>Eviction and retry\<close>

lemma prune_size:
  assumes "g_maxEventTimestamp g \<noteq> 0" and "max 1 (maxNodes cfg div 10) \<le> order g"
  shows "length (pruneTargets cfg True g) = max 1 (maxNodes cfg div 10)"
  using assms by (simp add: pruneTargets_def Let_def byLastSeen_def order_def)

text \<open>A transaction fails only when adding its receiver has evicted its sender.\<close>

lemma addTransaction_cases:
  fixes ev g cfg
  defines "g1 \<equiv> g\<lparr>g_maxEventTimestamp := max (g_maxEventTimestamp g) (ev_timestamp ev)\<rparr>"
  defines "g2 \<equiv> ensureNode cfg (ev_sender_id ev) (ev_timestamp ev) g1"
  defines "g3 \<equiv> ensureNode cfg (ev_receiver_id ev) (ev_timestamp ev) g2"
  assumes ok: "graph_ok g"
  shows "hasNode g3 (ev_receiver_id ev)"
    and "hasNode g3 (ev_sender_id ev) \<Longrightarrow> fst (addTransaction cfg alg now ev g) = None"
    and "\<not> hasNode g3 (ev_sender_id ev) \<Longrightarrow> addTransaction cfg alg now ev g = (Some NotFoundGraphError, g3)"
proof -
  have ok1: "graph_ok g1" using ok by (simp add: g1_def)
  note e2 = ensureNode_ok [OF ok1, of cfg "ev_sender_id ev" "ev_timestamp ev", folded g2_def]
  note e3 = ensureNode_ok [OF e2(1), of cfg "ev_receiver_id ev" "ev_timestamp ev", folded g3_def]
  show r: "hasNode g3 (ev_receiver_id ev)" by (rule e3(2))
  show "addTransaction cfg alg now ev g = (Some NotFoundGraphError, g3)" if "\<not> hasNode g3 (ev_sender_id ev)"
    using that by (simp add: addTransaction_def Let_def updateNodeStats_def hasNode_def flip: g1_def g2_def g3_def)
  assume s: "hasNode g3 (ev_sender_id ev)"
  then obtain a where a: "om_get (g_nodes g3) (ev_sender_id ev) = Some a" by (auto simp: hasNode_def)
  define g4 where "g4 = snd (updateNodeStats (ev_sender_id ev) (ev_amount ev) (ev_timestamp ev) g3)"
  have u: "updateNodeStats (ev_sender_id ev) (ev_amount ev) (ev_timestamp ev) g3 = (None, g4)"
    using a by (simp add: updateNodeStats_def g4_def)
  have "hasNode g4 (ev_sender_id ev)" "hasNode g4 (ev_receiver_id ev)"
    using updateNodeStats_ok [OF e3(1)] s r unfolding g4_def by blast+
  then have "fst (addOrUpdateEdge (ev_sender_id ev) (ev_receiver_id ev) (ev_amount ev) (ev_timestamp ev) (ev_transaction_type ev) g4) = None"
    by (simp add: addOrUpdateEdge_def Let_def split: option.split)
  then show "fst (addTransaction cfg alg now ev g) = None"
    using u by (auto simp: addTransaction_def Let_def simp flip: g1_def g2_def g3_def split: prod.split option.split)
qed

lemma second_attempt:
  assumes ok: "graph_ok g" and cap: "order g \<le> maxNodes cfg" "20 \<le> maxNodes cfg" and time: "0 < ev_timestamp ev"
    and fail: "addTransaction cfg alg now ev g = (Some err, g')"
  shows "fst (addTransaction cfg alg now' ev g') = None"
proof -
  define g1 where "g1 = g\<lparr>g_maxEventTimestamp := max (g_maxEventTimestamp g) (ev_timestamp ev)\<rparr>"
  define g2 where "g2 = ensureNode cfg (ev_sender_id ev) (ev_timestamp ev) g1"
  define g3 where "g3 = ensureNode cfg (ev_receiver_id ev) (ev_timestamp ev) g2"
  note c = addTransaction_cases [OF ok, of cfg ev, folded g1_def, folded g2_def, folded g3_def]
  have ok1: "graph_ok g1" using ok by (simp add: g1_def)
  note e2 = ensureNode_ok [OF ok1, of cfg "ev_sender_id ev" "ev_timestamp ev", folded g2_def]
  note e3 = ensureNode_ok [OF e2(1), of cfg "ev_receiver_id ev" "ev_timestamp ev", folded g3_def]
  have gone: "\<not> hasNode g3 (ev_sender_id ev)" using c(2) [of alg now] fail by auto
  then have g': "g' = g3" using c(3) [of alg now] fail by simp
  have m: "g_maxEventTimestamp g1 \<noteq> 0" using time by (simp add: g1_def)
  have o2: "order g2 \<le> maxNodes cfg"
    using ensureNode_order [OF ok1 m, of cfg "ev_sender_id ev" "ev_timestamp ev"] cap by (simp add: g2_def g1_def order_def)
  have pruned: "\<not> hasNode g2 (ev_receiver_id ev)" "maxNodes cfg \<le> order g2"
    using gone e2(2) by (auto simp: g3_def ensureNode_def Let_def graph_simps split: if_splits)
  have "length (pruneTargets cfg True g2) = max 1 (maxNodes cfg div 10)"
    by (rule prune_size) (use m e2(3) pruned(2) cap(2) in \<open>auto\<close>)
  then have "order (pruneOldNodes cfg True g2) \<le> maxNodes cfg - 2"
    using prune_ok(2) [OF e2(1), of cfg True] o2 cap(2) by linarith
  then have small: "order g3 < maxNodes cfg"
    using pruned cap(2) by (auto simp: g3_def ensureNode_def Let_def graph_simps)
  let ?h1 = "g3\<lparr>g_maxEventTimestamp := max (g_maxEventTimestamp g3) (ev_timestamp ev)\<rparr>"
  let ?h2 = "ensureNode cfg (ev_sender_id ev) (ev_timestamp ev) ?h1"
  have h: "order ?h1 = order g3" "\<And>n. hasNode ?h1 n = hasNode g3 n" by (simp_all add: order_def hasNode_def)
  have "?h2 = setNode (ev_sender_id ev) (fresh_node (ev_timestamp ev) (ev_timestamp ev)) ?h1"
    using gone small h by (simp add: ensureNode_def)
  then have "hasNode ?h2 (ev_receiver_id ev)" "hasNode ?h2 (ev_sender_id ev)" using c(1) h by (simp_all add: graph_simps)
  then have "hasNode (ensureNode cfg (ev_receiver_id ev) (ev_timestamp ev) ?h2) (ev_sender_id ev)" by (simp add: ensureNode_def)
  then show "fst (addTransaction cfg alg now' ev g') = None" unfolding g' by (rule addTransaction_cases(2) [OF e3(1)])
qed

lemma waiting_metadata [simp]: "waiting (queueGraphMetadata u x w) = waiting w"
  by (simp add: queueGraphMetadata_def flushGraphMetadata_def Let_def waiting_def)

lemma waiting_edge [simp]: "waiting (queueEdge e w) = waiting w"
  by (simp add: queueEdge_def flushEdges_def Let_def waiting_def)

lemma waiting_rows: "waiting (queue_rows g e p) = insert e (waiting p)"
  by (simp add: queue_rows_def Let_def split: option.split)

lemma applied:
  assumes "fst (addTransaction (pc_graph cfg) (pc_algorithms cfg) (d_clock d k) (pv_core e) (w_graph w)) = None"
  shows "fst (handle cfg d e k w)"
    and "w_velocity (snd (handle cfg d e k w)) = recordTransaction (pc_velocity cfg) (d_clock d k) (pv_core e) (w_velocity w)"
    and "waiting (w_store (snd (handle cfg d e k w))) = insert e (waiting (w_store w))"
    and "w_processedCount (snd (handle cfg d e k w)) = Suc (w_processedCount w)"
  using assms by (auto simp: handle_def processTransaction_def Let_def waiting_rows split: prod.split option.split)


definition sample_paa_event :: "string \<Rightarrow> int \<Rightarrow> string \<Rightarrow> string \<Rightarrow> paa_event" where
  "sample_paa_event tid t s r = \<lparr>pv_core = graph_event t s r, pv_transaction_id = tid, pv_fraud = False,
     pv_fraud_probability = 0, pv_decision = ''ACCEPT'', pv_fields = []\<rparr>"

definition sample_paa_cfg :: paa_cfg where
  "sample_paa_cfg = \<lparr>pc_velocity = sample_cfg, pc_graph = sample_graph_cfg\<lparr>maxNodes := 100\<rparr>,
     pc_algorithms = no_algorithms, pc_historicalLimit = 0\<rparr>"

definition sample_delivery :: "nat \<Rightarrow> paa_event \<Rightarrow> delivery" where
  "sample_delivery n e = \<lparr>d_offset = n, d_value = Event e, d_clock = (\<lambda>_. 5000), d_commits = (\<lambda>_. True)\<rparr>"


section \<open>From the event to the decision path\<close>

lemma queue_small:
  "pending_count (ru_pending r) + 1 < REDIS_BATCH_SIZE \<Longrightarrow>
    queueUpdate u cf r = r\<lparr>ru_pending := (ru_pending r)\<lparr>pu_updates := om_set u cf (pu_updates (ru_pending r))\<rparr>\<rparr>"
  "pending_count (ru_pending r) + 1 < REDIS_BATCH_SIZE \<Longrightarrow>
    queuePairUpdate a b pf r = r\<lparr>ru_pending := (ru_pending r)\<lparr>pu_pairs := om_set (a @ '':'' @ b) (a, b, pf) (pu_pairs (ru_pending r))\<rparr>\<rparr>"
  "pending_count (ru_pending r) + 1 < REDIS_BATCH_SIZE \<Longrightarrow>
    queueReceiverCount b n r = r\<lparr>ru_pending := (ru_pending r)\<lparr>pu_receivers := om_set b n (pu_receivers (ru_pending r))\<rparr>\<rparr>"
  by (auto simp: queueUpdate_def queuePairUpdate_def queueReceiverCount_def maybeFlush_def pending_count_def length_om_set)

lemma queue_features_pending:
  assumes "pending_count (ru_pending r) + 3 < REDIS_BATCH_SIZE"
  shows "ru_pending (queue_features g v now ev r) =
    \<lparr>pu_updates = om_set (ev_sender_id ev) (combined_of g v now ev) (pu_updates (ru_pending r)),
     pu_pairs = om_set (ev_sender_id ev @ '':'' @ ev_receiver_id ev) (ev_sender_id ev, ev_receiver_id ev, pair_of g v ev) (pu_pairs (ru_pending r)),
     pu_receivers = om_set (ev_receiver_id ev) (getInboundTransactionCount g (ev_receiver_id ev)) (pu_receivers (ru_pending r))\<rparr>"
proof -
  let ?r1 = "r\<lparr>ru_pending := (ru_pending r)\<lparr>pu_updates := om_set (ev_sender_id ev) (combined_of g v now ev) (pu_updates (ru_pending r))\<rparr>\<rparr>"
  let ?r2 = "?r1\<lparr>ru_pending := (ru_pending ?r1)\<lparr>pu_pairs := om_set (ev_sender_id ev @ '':'' @ ev_receiver_id ev)
     (ev_sender_id ev, ev_receiver_id ev, pair_of g v ev) (pu_pairs (ru_pending ?r1))\<rparr>\<rparr>"
  have "pending_count (ru_pending ?r1) + 2 < REDIS_BATCH_SIZE" using assms by (simp add: pending_count_def length_om_set)
  moreover from this have "pending_count (ru_pending ?r2) + 1 < REDIS_BATCH_SIZE" by (simp add: pending_count_def length_om_set)
  moreover have "queueUpdate (ev_sender_id ev) (combined_of g v now ev) r = ?r1" using assms by (simp add: queue_small)
  ultimately show ?thesis by (simp add: queue_features_def queue_small)
qed

lemma om_set_mem: "e \<in> set (om_set k v m) \<Longrightarrow> e = (k, v) \<or> e \<in> set m"
  by (induction m) (auto split: if_splits)

lemma queued_pending_ok:
  assumes "pending_ok (ru_pending r)" and "pending_count (ru_pending r) + 3 < REDIS_BATCH_SIZE"
  shows "pending_ok (ru_pending (queue_features g v now ev r))"
  using assms(1) by (auto simp: queue_features_pending [OF assms(2)] pending_ok_def dest!: om_set_mem)

definition velocity_windows :: "(string \<times> int) set" where
  "velocity_windows = {(''velocity_1m'', 60000), (''velocity_5m'', 300000), (''velocity_15m'', 900000),
     (''velocity_1h'', 3600000), (''velocity_24h'', 86400000), (''velocity_7d'', 604800000)}"

lemma short_nat: "n < 10 ^ 21 \<Longrightarrow> short_decimal (real n)"
proof -
  assume "n < 10 ^ 21"
  then have "real n < 10 ^ 21" by (metis of_nat_less_iff of_nat_numeral of_nat_power)
  moreover have "real n * 10 ^ 17 \<in> \<int>" by simp
  ultimately show ?thesis by (simp only: short_decimal_def abs_of_nat)
qed

text \<open>The counts of the metrics at the event's own time, with a clock that is ahead of it.\<close>

lemma trailing_counts:
  assumes "buffers_ok cfg st" and f: "faithful st ops"
    and ahead: "\<forall>op \<in> set ops. op_clock op \<le> now + 1987200000"
    and vel: "(f, width) \<in> velocity_windows"
  shows "(f, real (length (filter (\<lambda>x. now - width \<le> txn_timestamp x) (sent_by u ops)))) \<in>
    set (feature_values \<lparr>cf_velocity = calculateMetrics st u now, cf_network = n, cf_recipientLifetimeTxCount = c, cf_updated_at = t\<rparr>)"
proof -
  have len: "length (filterByWindow (rev (buffer_of st u)) now w) = length (filter (\<lambda>x. now - w \<le> txn_timestamp x) (sent_by u ops))"
    if "w \<le> SEVEN_DAYS" for w
  proof (rule mset_eq_length, rule trailing_window_mset [OF f])
    show "\<forall>op \<in> set ops. op_clock op - THIRTY_DAYS \<le> now - w" using ahead that by (fastforce simp: window_defs)
  qed
  show ?thesis
    using metrics_counts [OF buffers_ok_buffer [OF assms(1)], of u now] len vel
    by (auto simp: velocity_windows_def feature_values_def Let_def window_defs)
qed


section \<open>Restart\<close>

definition edge_of_snapshot :: "edge_snapshot \<Rightarrow> edge_attrs" where
  "edge_of_snapshot e = \<lparr>e_weight = es_weight e, e_totalAmount = es_totalAmount e, e_lastTransaction = es_lastTransaction e,
     e_firstTransaction = es_firstTransaction e, e_transactionTypes = js_set (es_transactionTypes e)\<rparr>"

lemma setNode_edges [simp]: "g_edges (setNode n a g) = g_edges g"
  by (simp add: setNode_def)

lemma ensure_plain_edges [simp]: "g_edges (ensure_plain n e g) = g_edges g"
  by (simp add: ensure_plain_def)

lemma hydrateEdge_get: "om_get (g_edges (hydrateEdge e g)) k =
    (case om_get (g_edges g) k of Some x \<Rightarrow> Some x
     | None \<Rightarrow> if (es_senderId e, es_receiverId e) = k then Some (edge_of_snapshot e) else None)"
  by (auto simp: hydrateEdge_def Let_def hasEdge_def setEdge_def edge_of_snapshot_def split: option.split)

lemma hydrateEdges_get: "om_get (g_edges (hydrateEdges es g)) k =
    (case om_get (g_edges g) k of Some x \<Rightarrow> Some x
     | None \<Rightarrow> map_option edge_of_snapshot (find (\<lambda>e. (es_senderId e, es_receiverId e) = k) es))"
proof (induction es arbitrary: g)
  case (Cons e es)
  have "hydrateEdges (e # es) g = hydrateEdges es (hydrateEdge e g)" by (simp add: hydrateEdges_def)
  then show ?case using Cons.IH [of "hydrateEdge e g"] by (auto simp: hydrateEdge_get split: option.split)
qed (simp add: hydrateEdges_def split: option.split)

lemma hydrateNodeState_edges [simp]: "g_edges (hydrateNodeState hs g) = g_edges g"
proof -
  have "g_edges (hydrateNode h g) = g_edges g" for h g by (simp add: hydrateNode_def split: option.split)
  then show ?thesis unfolding hydrateNodeState_def by (induction hs arbitrary: g) simp_all
qed

lemma mapNodes_edges [simp]: "g_edges (mapNodes f g) = g_edges g"
  by (simp add: mapNodes_def)

lemma compute_edges [simp]: "g_edges (computeNetworkMetrics alg t g) = g_edges g"
  by (simp add: computeNetworkMetrics_def Let_def markHubs_def split: option.split)

text \<open>A payment over a known edge adds one to its weight and evicts nobody.\<close>

lemma known_edge_counts:
  assumes "graph_ok g" and x: "om_get (g_edges g) (ev_sender_id ev, ev_receiver_id ev) = Some x"
  shows "\<exists>g' y. addTransaction cfg alg now ev g = (None, g')
    \<and> om_get (g_edges g') (ev_sender_id ev, ev_receiver_id ev) = Some y \<and> e_weight y = Suc (e_weight x)"
proof -
  have ends: "hasNode g (ev_sender_id ev)" "hasNode g (ev_receiver_id ev)"
    using assms by (auto simp: graph_ok_def hasEdge_def)
  then obtain a where a: "om_get (g_nodes g) (ev_sender_id ev) = Some a" by (auto simp: hasNode_def)
  let ?g1 = "g\<lparr>g_maxEventTimestamp := max (g_maxEventTimestamp g) (ev_timestamp ev)\<rparr>"
  have "hasNode ?g1 n = hasNode g n" for n by (simp add: hasNode_def)
  then have e: "ensureNode cfg (ev_sender_id ev) (ev_timestamp ev) ?g1 = ?g1" "ensureNode cfg (ev_receiver_id ev) (ev_timestamp ev) ?g1 = ?g1"
    using ends by (simp_all add: ensureNode_def)
  show ?thesis
    using a x by (simp add: addTransaction_def Let_def e updateNodeStats_def addOrUpdateEdge_def setEdge_def)
qed

definition newest_edge :: "pg_tables \<Rightarrow> int" where
  "newest_edge t = snd (snd (loadGraphState True t))"

text \<open>The load when no stored transaction is newer than the newest stored edge.\<close>

lemma load_without_tail:
  assumes "pt_edges t \<noteq> []" and "\<forall>r \<in> set (pt_transactions t). tr_timestamp r \<le> newest_edge t"
  shows "loadHistoricalData cfg True ok now t w =
    w\<lparr>w_graph := computeNetworkMetrics (pc_algorithms cfg) now
        (hydrateNodeState (map node_state_of (pt_metadata t)) (hydrateEdges (map snd (pt_edges t)) (w_graph w)))\<rparr>"
proof -
  have "filter (\<lambda>r. newest_edge t + 1 \<le> tr_timestamp r) (pt_transactions t) = []"
    using assms(2) by (fastforce simp: filter_empty_conv)
  then have "loadGraphData ok now (pc_historicalLimit cfg) (Some (newest_edge t + 1)) t = []" by (simp add: loadGraphData_def)
  then show ?thesis using assms(1) by (simp add: loadHistoricalData_def Let_def newest_edge_def loadGraphState_def)
qed

definition edges_keyed :: "pg_tables \<Rightarrow> bool" where
  "edges_keyed t = (om_wf (pt_edges t) \<and> (\<forall>(k, e) \<in> set (pt_edges t). k = (es_senderId e, es_receiverId e)))"

lemma find_keyed:
  assumes "edges_keyed t" and "om_get (pt_edges t) k = Some e"
  shows "find (\<lambda>e. (es_senderId e, es_receiverId e) = k) (map snd (pt_edges t)) = Some e"
proof -
  have "\<forall>(j, e) \<in> set m. j = (es_senderId e, es_receiverId e) \<Longrightarrow> map_of m k = Some e \<Longrightarrow>
      find (\<lambda>e. (es_senderId e, es_receiverId e) = k) (map snd m) = Some e" for m :: "(edge_key, edge_snapshot) omap"
    by (induction m) (auto split: if_splits)
  then show ?thesis using assms by (simp add: edges_keyed_def om_get_def)
qed

lemma loaded_edges:
  assumes "pt_edges t \<noteq> []" and "\<forall>r \<in> set (pt_transactions t). tr_timestamp r \<le> newest_edge t"
    and "edges_keyed t" and "om_get (pt_edges t) k = Some e"
  shows "om_get (g_edges (w_graph (loadHistoricalData cfg True ok now t (new_worker c)))) k = Some (edge_of_snapshot e)"
  using find_keyed [OF assms(3,4)]
  by (simp add: load_without_tail [OF assms(1,2)] hydrateEdges_get new_worker_def empty_graph_def)

text \<open>
  A restart forgets every velocity. When the newest stored edge is as new as the
  newest stored transaction, as after every orderly shutdown, the replay starts behind the last
  transaction: the graph comes back with every stored edge, but no buffer is
  rebuilt, and each sender's velocities and amounts read as if the sender had never paid.
\<close>

theorem restart_forgets_velocity:
  assumes "pt_edges t \<noteq> []" and "\<forall>r \<in> set (pt_transactions t). tr_timestamp r \<le> newest_edge t"
    and "edges_keyed t" and "om_get (pt_edges t) k = Some e"
  shows "let w = loadHistoricalData cfg True ok now t (new_worker c) in
    om_get (g_edges (w_graph w)) k = Some (edge_of_snapshot e) \<and> calculateMetrics (w_velocity w) u later = getDefaultMetrics"
  using loaded_edges [OF assms] by (simp add: Let_def load_without_tail [OF assms(1,2)] calculateMetrics_def new_worker_def)

text \<open>
  An event that the stored edge already counts is counted again after a restart.
  Its row is in the table and its edge's weight includes it, but only rows newer than the newest
  edge are marked as processed; when Kafka delivers it again, because its offset was not
  committed, the weight grows by one more.
\<close>

theorem restart_counts_redelivery_twice:
  assumes "edges_keyed t" and "\<forall>r \<in> set (pt_transactions t). tr_timestamp r \<le> newest_edge t"
    and "row_of_event e \<in> set (pt_transactions t)" and "d_value d = Event e"
    and "om_get (pt_edges t) (ev_sender_id (pv_core e), ev_receiver_id (pv_core e)) = Some x"
  shows "map_option e_weight (om_get (g_edges (w_graph
      (snd (processMessage cfg d (loadHistoricalData cfg True ok now t (new_worker c))))))
        (ev_sender_id (pv_core e), ev_receiver_id (pv_core e))) = Some (es_weight x + 1)"
proof -
  have ne: "pt_edges t \<noteq> []" using assms(5) by auto
  let ?w = "loadHistoricalData cfg True ok now t (new_worker c)"
  let ?k = "(ev_sender_id (pv_core e), ev_receiver_id (pv_core e))"
  have "fst (markIfNew (Some (pv_transaction_id e)) (w_seen ?w))"
    by (simp add: load_without_tail [OF ne assms(2)] new_worker_def pe_new_def markIfNew_def Let_def)
  then obtain seen where m: "markIfNew (Some (pv_transaction_id e)) (w_seen ?w) = (True, seen)"
    by (cases "markIfNew (Some (pv_transaction_id e)) (w_seen ?w)") simp
  let ?w1 = "?w\<lparr>w_seen := seen\<rparr>"
  have "graph_ok empty_graph" by (simp add: graph_ok_def empty_graph_def hasEdge_def)
  then have ok: "graph_ok (w_graph ?w1)"
    by (simp add: load_without_tail [OF ne assms(2)] new_worker_def compute_ok(1) hydrateNode_ok hydrate_ok)
  have "om_get (g_edges (w_graph ?w1)) ?k = Some (edge_of_snapshot x)"
    using loaded_edges [OF ne assms(2,1,5)] by simp
  from known_edge_counts [OF ok this, of "pc_graph cfg" "pc_algorithms cfg" "d_clock d 0"] obtain g y where g:
    "addTransaction (pc_graph cfg) (pc_algorithms cfg) (d_clock d 0) (pv_core e) (w_graph ?w1) = (None, g)"
    "om_get (g_edges g) ?k = Some y" "e_weight y = Suc (es_weight x)" by (auto simp: edge_of_snapshot_def)
  then obtain w2 where h: "handle cfg d e 0 ?w1 = (True, w2)" "w_graph w2 = g" by (simp add: handle_def processTransaction_def Let_def)
  then have "processWithRetry (handle cfg d e) 0 ?w1 = (True, [], w2)" by (subst processWithRetry.simps) simp
  then show ?thesis using m assms(4) g h(2) by (simp add: processMessage_def Let_def)
qed

section \<open>Labels\<close>

definition label_users :: "txn_row \<Rightarrow> string set" where
  "label_users r = {tr_senderId r, tr_receiverId r} - {[]}"

definition flagged :: "pg_tables \<Rightarrow> txn_row set" where
  "flagged t = {r \<in> set (pt_transactions t). tr_groundTruthFraud r = Some True}"

text \<open>Labels up to the watermark, and those without a time, are in the graph.\<close>

definition labels_loaded :: "pg_tables \<Rightarrow> paa_worker \<Rightarrow> bool" where
  "labels_loaded t w = (\<forall>r \<in> flagged t. w_fraudLabelWatermarkMs w \<noteq> 0 \<and>
     (case tr_groundTruthRecordedAt r of None \<Rightarrow> True | Some x \<Rightarrow> x \<le> 1000 * w_fraudLabelWatermarkMs w)
     \<longrightarrow> label_users r \<subseteq> set (g_fraudUsers (w_graph w)))"

lemma marked_users: "set (g_fraudUsers (snd (markFraudUsers ids g))) = set (g_fraudUsers g) \<union> set ids"
proof -
  have "set (g_fraudUsers (snd (fold (\<lambda>i (added, h). if i \<in> set (g_fraudUsers h) then (added, h)
      else (Suc added, h\<lparr>g_fraudUsers := g_fraudUsers h @ [i]\<rparr>)) ids (n, g)))) = set (g_fraudUsers g) \<union> set ids" for n
    by (induction ids arbitrary: n g) auto
  then show ?thesis by (simp add: markFraudUsers_def)
qed

lemma by_label_time_set: "set (by_label_time rows) = set rows" "length (by_label_time rows) = length rows"
proof -
  show "set (by_label_time rows) = set rows" by (auto simp: by_label_time_def)
  have "length (filter P xs) + length (filter (\<lambda>x. \<not> P x) xs) = length xs" for P and xs :: "txn_row list"
    by (induction xs) auto
  from this [of "\<lambda>r. tr_groundTruthRecordedAt r \<noteq> None" rows] show "length (by_label_time rows) = length rows"
    by (simp add: by_label_time_def)
qed

lemma flagged_ids: "set (js_set (concat (map (\<lambda>r. filter (\<lambda>u. u \<noteq> []) [tr_senderId r, tr_receiverId r]) (by_label_time rows)))) =
    (\<Union>r \<in> set rows. label_users r)"
proof -
  have "set (filter (\<lambda>u. u \<noteq> []) [tr_senderId r, tr_receiverId r]) = label_users r" for r by (auto simp: label_users_def)
  then show ?thesis by (simp only: js_set_simps set_concat set_map image_image by_label_time_set)
qed

text \<open>
  Every fraud label reaches the graph. If the labels up to the watermark are loaded and the poll
  finds at most 50000 new ones, then after it both users of every flagged transaction in the table are
  known fraud users, whatever the order in which labels were recorded above the watermark, and the next poll starts from the
  same premise; a failed query changes nothing.
\<close>

theorem fraud_sync_complete:
  assumes "labels_loaded t w"
    and "length (filter (label_since (if w_fraudLabelWatermarkMs w = 0 then None else Some (w_fraudLabelWatermarkMs w)))
      (pt_transactions t)) \<le> FLAGGED_LIMIT"
  shows "(\<Union>r \<in> flagged t. label_users r) \<subseteq> set (g_fraudUsers (w_graph (syncFraudLabels True t w)))
    \<and> labels_loaded t (syncFraudLabels True t w) \<and> syncFraudLabels False t w = w"
proof -
  let ?wm = "w_fraudLabelWatermarkMs w"
  let ?since = "if ?wm = 0 then None else Some ?wm"
  let ?rows = "filter (label_since ?since) (pt_transactions t)"
  let ?w = "syncFraudLabels True t w"
  have "take FLAGGED_LIMIT (by_label_time ?rows) = by_label_time ?rows" using assms(2) by (simp add: by_label_time_set)
  then have ids: "set (fst (loadFraudFlaggedUsers True ?since t)) = (\<Union>r \<in> set ?rows. label_users r)"
    by (simp only: loadFraudFlaggedUsers_def Let_def simp_thms if_False fst_conv flagged_ids)
  then have users: "set (g_fraudUsers (w_graph ?w)) = set (g_fraudUsers (w_graph w)) \<union> (\<Union>r \<in> set ?rows. label_users r)"
    by (simp add: syncFraudLabels_def Let_def split_beta marked_users)
  have "label_users r \<subseteq> set (g_fraudUsers (w_graph ?w))" if "r \<in> flagged t" for r
  proof (cases "label_since ?since r")
    case True
    then have "r \<in> set ?rows" using that by (simp add: flagged_def)
    then show ?thesis unfolding users by blast
  next
    case False
    then have "?wm \<noteq> 0 \<and> (case tr_groundTruthRecordedAt r of None \<Rightarrow> True | Some x \<Rightarrow> x \<le> 1000 * ?wm)"
      using that by (auto simp: label_since_def flagged_def split: if_splits option.splits)
    then have "label_users r \<subseteq> set (g_fraudUsers (w_graph w))" using assms(1) that by (simp add: labels_loaded_def)
    then show ?thesis unfolding users by blast
  qed
  then have all: "(\<Union>r \<in> flagged t. label_users r) \<subseteq> set (g_fraudUsers (w_graph ?w))" by blast
  then have "labels_loaded t ?w" by (auto simp: labels_loaded_def)
  moreover have "syncFraudLabels False t w = w"
    by (simp add: syncFraudLabels_def loadFraudFlaggedUsers_def markFraudUsers_def Let_def)
  ultimately show ?thesis using all by blast
qed

section \<open>Instances\<close>

theorem redelivery_is_exactly_once_witness:
  "deliver sample_paa_cfg [sample_delivery 0 (sample_paa_event ''t'' 1000 ''a'' ''b''), sample_delivery 0 (sample_paa_event ''t'' 1000 ''a'' ''b'')] (new_worker 5)
   = deliver sample_paa_cfg [sample_delivery 0 (sample_paa_event ''t'' 1000 ''a'' ''b'')] (new_worker 5)"
proof -
  let ?d = "sample_delivery 0 (sample_paa_event ''t'' 1000 ''a'' ''b'')"
  have i: "delivery_id ?d = Some ''t''" by (simp add: delivery_id_def sample_delivery_def sample_paa_event_def)
  then have "delivered_ids [?d, ?d] = {''t''}" by (auto simp: delivered_ids_def)
  then have "card (delivered_ids [?d, ?d]) \<le> max 1 5" by simp
  from redelivery_is_exactly_once [OF this, of sample_paa_cfg] show ?thesis by (simp add: i)
qed


definition sample_tables :: pg_tables where
  "sample_tables = \<lparr>pt_transactions = [row_of_event (sample_paa_event ''t1'' 2000 ''a'' ''b'')], pt_metadata = [],
     pt_edges = [((''a'', ''b''), \<lparr>es_senderId = ''a'', es_receiverId = ''b'', es_weight = 3, es_totalAmount = 15,
       es_firstTransaction = 1000, es_lastTransaction = 2000, es_transactionTypes = [''transfer'']\<rparr>)]\<rparr>"

lemma sample_tables_facts:
  "pt_edges sample_tables \<noteq> []" "\<forall>r \<in> set (pt_transactions sample_tables). tr_timestamp r \<le> newest_edge sample_tables"
  "edges_keyed sample_tables" "om_get (pt_edges sample_tables) (''a'', ''b'') = Some \<lparr>es_senderId = ''a'', es_receiverId = ''b'', es_weight = 3, es_totalAmount = 15,
       es_firstTransaction = 1000, es_lastTransaction = 2000, es_transactionTypes = [''transfer'']\<rparr>"
  by (simp_all add: sample_tables_def row_of_event_def sample_paa_event_def graph_event_def newest_edge_def loadGraphState_def
      Let_def edges_keyed_def om_wf_def om_get_def)

theorem restart_forgets_velocity_witness:
  "calculateMetrics (w_velocity (loadHistoricalData sample_paa_cfg True True 3000 sample_tables (new_worker 5))) ''a'' 3000 = getDefaultMetrics"
  using restart_forgets_velocity [OF sample_tables_facts] by (simp add: Let_def)

theorem restart_counts_redelivery_twice_witness:
  "map_option e_weight (om_get (g_edges (w_graph (snd (processMessage sample_paa_cfg
      (sample_delivery 0 (sample_paa_event ''t1'' 2000 ''a'' ''b''))
      (loadHistoricalData sample_paa_cfg True True 3000 sample_tables (new_worker 5)))))) (''a'', ''b'')) = Some 4"
proof -
  let ?e = "sample_paa_event ''t1'' 2000 ''a'' ''b''"
  have core: "ev_sender_id (pv_core ?e) = ''a''" "ev_receiver_id (pv_core ?e) = ''b''" by (simp_all add: sample_paa_event_def graph_event_def)
  have row: "row_of_event ?e \<in> set (pt_transactions sample_tables)" by (simp add: sample_tables_def)
  have d: "d_value (sample_delivery 0 ?e) = Event ?e" by (simp add: sample_delivery_def)
  show ?thesis
    using restart_counts_redelivery_twice [OF sample_tables_facts(3,2) row d, unfolded core, OF sample_tables_facts(4)] by simp
qed

theorem fraud_sync_complete_witness:
  "''a'' \<in> set (g_fraudUsers (w_graph (syncFraudLabels True (sample_tables\<lparr>pt_transactions :=
     [(row_of_event (sample_paa_event ''t1'' 2000 ''a'' ''b''))\<lparr>tr_groundTruthFraud := Some True,
       tr_groundTruthRecordedAt := Some 7000\<rparr>]\<rparr>) (new_worker 5))))"
proof -
  let ?t = "sample_tables\<lparr>pt_transactions := [(row_of_event (sample_paa_event ''t1'' 2000 ''a'' ''b''))\<lparr>tr_groundTruthFraud := Some True,
       tr_groundTruthRecordedAt := Some 7000\<rparr>]\<rparr>"
  have "labels_loaded ?t (new_worker 5)" by (simp add: labels_loaded_def new_worker_def)
  moreover have "length (filter (label_since (if w_fraudLabelWatermarkMs (new_worker 5) = 0 then None
      else Some (w_fraudLabelWatermarkMs (new_worker 5)))) (pt_transactions ?t)) \<le> FLAGGED_LIMIT"
    by (simp add: FLAGGED_LIMIT_def)
  moreover have "''a'' \<in> (\<Union>r \<in> flagged ?t. label_users r)"
    by (simp add: flagged_def label_users_def row_of_event_def sample_paa_event_def graph_event_def)
  ultimately show ?thesis using fraud_sync_complete [of ?t "new_worker 5"] by blast
qed

end
