(* ===== verification/KafkaProducer.thy ===== *)
theory KafkaProducer
  imports JsonRoundTrip "HOL-Library.Char_ord" "HOL-Library.List_Lexorder"
begin

text \<open>
  \<open>src/shared/kafka/kafka-producer.ts\<close>: publishing with retries, the buffer on disk behind it and
  its replay. The broker is an argument that decides each connect and send by call number; a
  send that is not acknowledged may have been stored. LevelDB is an ordered map of strings.
  Compression, timestamps, logs and metrics are not modelled.
\<close>

section \<open>State\<close>

text \<open>A topic or key read back from disk may be any JSON value; a value may be \<open>undefined\<close>.\<close>

record kafka_message =
  km_topic :: jval
  km_key :: jval
  km_value :: "string option"

datatype send_outcome = Acked | NotAcked bool string

record broker =
  bk_connect :: "nat \<Rightarrow> bool"
  bk_send :: "nat \<Rightarrow> kafka_message \<Rightarrow> send_outcome"

record producer =
  kp_connected :: bool
  kp_calls :: nat
  kp_log :: "kafka_message list"
  kp_disk :: "(string, string) omap"

definition kp_maxRetries :: nat where "kp_maxRetries = 3"
definition retryDelays :: "int list" where "retryDelays = [100, 500, 2000]"

section \<open>Publishing\<close>

definition is_disconnect :: "string \<Rightarrow> bool" where
  "is_disconnect msg = str_includes (to_lower msg) ''disconnect''"

text \<open>The lazy reconnect and the send of one attempt.\<close>

definition send_message :: "broker \<Rightarrow> kafka_message \<Rightarrow> producer \<Rightarrow> bool \<times> producer" where
  "send_message env m st =
     (let n = kp_calls st;
          connected = (kp_connected st \<or> bk_connect env n);
          st1 = st\<lparr>kp_connected := connected, kp_calls := Suc n\<rparr>
      in case bk_send env n m of
           Acked \<Rightarrow> (True, st1\<lparr>kp_log := kp_log st1 @ [m]\<rparr>)
         | NotAcked stored msg \<Rightarrow>
             (False, st1\<lparr>kp_connected := (connected \<and> \<not> is_disconnect msg),
                kp_log := (if stored then kp_log st1 @ [m] else kp_log st1)\<rparr>))"

text \<open>The result has the delays slept.\<close>

function publishWithRetry :: "broker \<Rightarrow> kafka_message \<Rightarrow> nat \<Rightarrow> producer \<Rightarrow> bool \<times> int list \<times> producer" where
  "publishWithRetry env m attempt st =
     (case send_message env m st of
        (True, st') \<Rightarrow> (True, [], st')
      | (False, st') \<Rightarrow>
          if attempt < kp_maxRetries then
            (let delay = (if attempt < length retryDelays then retryDelays ! attempt else last retryDelays);
                 (ok, delays, st'') = publishWithRetry env m (attempt + 1) st'
             in (ok, delay # delays, st''))
          else (False, [], st'))"
  by pat_completeness auto
termination by (relation "measure (\<lambda>(_, _, attempt, _). kp_maxRetries - attempt)") auto

declare publishWithRetry.simps [simp del]

definition message_of :: "jval \<Rightarrow> jval \<Rightarrow> jval \<Rightarrow> kafka_message" where
  "message_of event topic key = \<lparr>km_topic = topic, km_key = key, km_value = json_stringify event\<rparr>"

definition buffer_key :: "int \<Rightarrow> (string \<times> jval) list \<Rightarrow> string" where
  "buffer_key now event = num_to_str (Fin (of_int now)) @ ''-'' @ js_to_string (field event ''transaction_id'')"

definition buffer_entry :: "(string \<times> jval) list \<Rightarrow> string \<Rightarrow> jval \<Rightarrow> string" where
  "buffer_entry event topic key =
     json_text (JObj [(''v'', JNum (Fin 2)), (''topic'', JStr topic), (''partitionKey'', key), (''event'', JObj event)])"

definition bufferToDisk :: "bool \<Rightarrow> int \<Rightarrow> (string \<times> jval) list \<Rightarrow> string \<Rightarrow> jval \<Rightarrow> producer \<Rightarrow> producer" where
  "bufferToDisk disk_ok now event topic key st =
     (if disk_ok then st\<lparr>kp_disk := om_set (buffer_key now event) (buffer_entry event topic key) (kp_disk st)\<rparr> else st)"

definition key_or_sender :: "string option \<Rightarrow> (string \<times> jval) list \<Rightarrow> jval" where
  "key_or_sender partitionKey event = (case partitionKey of Some k \<Rightarrow> JStr k | None \<Rightarrow> field event ''sender_id'')"

text \<open>\<open>now\<close> is the clock when the event is buffered.\<close>

definition publishAsync ::
    "broker \<Rightarrow> bool \<Rightarrow> int \<Rightarrow> (string \<times> jval) list \<Rightarrow> string \<Rightarrow> string option \<Rightarrow> producer \<Rightarrow> producer" where
  "publishAsync env disk_ok now event topic partitionKey st =
     (let key = key_or_sender partitionKey event;
          (ok, _, st') = publishWithRetry env (message_of (JObj event) (JStr topic) key) 0 st
      in if ok then st' else bufferToDisk disk_ok now event topic key st')"

definition publishDurable ::
    "broker \<Rightarrow> (string \<times> jval) list \<Rightarrow> string \<Rightarrow> string option \<Rightarrow> producer \<Rightarrow> bool \<times> producer" where
  "publishDurable env event topic partitionKey st =
     (let (ok, _, st') = publishWithRetry env (message_of (JObj event) (JStr topic) (key_or_sender partitionKey event)) kp_maxRetries st
      in (ok, st'))"

definition publishEnrichment :: "broker \<Rightarrow> string \<Rightarrow> string \<Rightarrow> (string \<times> jval) list \<Rightarrow> producer \<Rightarrow> producer" where
  "publishEnrichment env enrichTopic audit_id enrichment st =
     (let n = kp_calls st; m = message_of (JObj enrichment) (JStr enrichTopic) (JStr audit_id);
          st1 = st\<lparr>kp_calls := Suc n\<rparr>; st2 = st1\<lparr>kp_connected := True\<rparr> in
      if \<not> kp_connected st \<and> \<not> bk_connect env n then st1
      else case bk_send env n m of
             Acked \<Rightarrow> st2\<lparr>kp_log := kp_log st2 @ [m]\<rparr>
           | NotAcked stored _ \<Rightarrow> st2\<lparr>kp_log := (if stored then kp_log st2 @ [m] else kp_log st2)\<rparr>)"

section \<open>Replay of the buffer\<close>

text \<open>
  The message an entry stands for: event, topic and key of the wrapped format, or a raw
  event for the primary topic. \<open>None\<close>: the text does not parse or a property of \<open>null\<close> is read.
\<close>

definition replay_message :: "string \<Rightarrow> string \<Rightarrow> kafka_message option" where
  "replay_message primary entry =
     (case json_parse entry of
        None \<Rightarrow> None
      | Some parsed \<Rightarrow>
          (let isV2 = (case parsed of JObj fs \<Rightarrow> strict_eq (field fs ''v'') (JNum (Fin 2)) \<and> ''topic'' \<in> fst ` set fs | _ \<Rightarrow> False);
               fs = (case parsed of JObj fs \<Rightarrow> fs | _ \<Rightarrow> []);
               event = (if isV2 then field fs ''event'' else parsed);
               topic = (if isV2 then field fs ''topic'' else JStr primary);
               sender = (case js_get event ''sender_id'' of Inl _ \<Rightarrow> None | Inr v \<Rightarrow> Some v)
           in case (if isV2 \<and> \<not> nullish (field fs ''partitionKey'') then Some (field fs ''partitionKey'') else sender) of
                None \<Rightarrow> None
              | Some key \<Rightarrow> Some (message_of event topic key)))"

definition flush_entry :: "broker \<Rightarrow> string \<Rightarrow> string \<times> string \<Rightarrow> producer \<Rightarrow> producer" where
  "flush_entry env primary e st =
     (case replay_message primary (snd e) of
        None \<Rightarrow> st
      | Some m \<Rightarrow>
          (let (ok, _, st') = publishWithRetry env m 0 st
           in if ok then st'\<lparr>kp_disk := om_delete (fst e) (kp_disk st')\<rparr> else st'))"

definition FLUSH_LIMIT :: nat where "FLUSH_LIMIT = 100"

text \<open>The iterator of the store goes by key.\<close>

definition buffered_entries :: "producer \<Rightarrow> (string \<times> string) list" where
  "buffered_entries st = take FLUSH_LIMIT (sort_key fst (kp_disk st))"

definition flushBuffer :: "broker \<Rightarrow> string \<Rightarrow> producer \<Rightarrow> producer" where
  "flushBuffer env primary st =
     (if \<not> kp_connected st then st else fold (flush_entry env primary) (buffered_entries st) st)"

section \<open>One publication\<close>

lemma send_log: "send_message env m st = (ok, st') \<Longrightarrow>
    kp_disk st' = kp_disk st \<and> set (kp_log st) \<subseteq> set (kp_log st') \<and> (ok \<longrightarrow> m \<in> set (kp_log st'))"
  by (auto simp: send_message_def Let_def split: send_outcome.splits)

lemma publish_log:
  "publishWithRetry env m a st = (ok, ds, st') \<Longrightarrow>
    kp_disk st' = kp_disk st \<and> set (kp_log st) \<subseteq> set (kp_log st') \<and> (ok \<longrightarrow> m \<in> set (kp_log st'))"
proof (induction env m a st arbitrary: ok ds st' rule: publishWithRetry.induct)
  case (1 env m a st)
  obtain b s where s: "send_message env m st = (b, s)" by (cases "send_message env m st")
  obtain ok2 ds2 s2 where p: "publishWithRetry env m (a + 1) s = (ok2, ds2, s2)" by (cases "publishWithRetry env m (a + 1) s")
  note e = "1.prems" [unfolded publishWithRetry.simps [of env m a st] s]
  show ?case
  proof (cases "\<not> b \<and> a < kp_maxRetries")
    case True
    then have "kp_disk s2 = kp_disk s \<and> set (kp_log s) \<subseteq> set (kp_log s2) \<and> (ok2 \<longrightarrow> m \<in> set (kp_log s2))"
      using "1.IH" [of False s, where ok = ok2 and ds = ds2 and st' = s2] s p by simp
    moreover have "ok = ok2 \<and> st' = s2" using e True p by (simp add: Let_def)
    ultimately show ?thesis using send_log [OF s] by auto
  next
    case False
    then have "ok = b \<and> st' = s" using e by (cases b) simp_all
    then show ?thesis using send_log [OF s] by simp
  qed
qed

definition event_plain :: "(string \<times> jval) list \<Rightarrow> bool" where
  "event_plain e = json_plain (JObj e)"

text \<open>An entry read back is the message it was written for.\<close>

lemma buffered_message:
  assumes "event_plain event" and "json_plain key" and "\<not> nullish key"
  shows "replay_message primary (buffer_entry event topic key) = Some (message_of (JObj event) (JStr topic) key)"
proof -
  have "short_decimal 2"
  proof -
    have "(2 :: real) * 10 ^ 17 = of_int 200000000000000000" by simp
    then have "(2 :: real) * 10 ^ 17 \<in> \<int>" by (metis Ints_of_int)
    then show ?thesis by (simp add: short_decimal_def)
  qed
  then have "json_plain (JObj [(''v'', JNum (Fin 2)), (''topic'', JStr topic), (''partitionKey'', key), (''event'', JObj event)])"
    using assms by (simp add: event_plain_def)
  then show ?thesis using assms(3) 
    by (simp add: replay_message_def buffer_entry_def parse_text field_def del: json_text.simps)
qed

section \<open>No event is lost\<close>

text \<open>
  Publications, reads of the buffer and replays of entries in any interleaving: flushes may
  overlap, and an entry that was read may be replayed when it is gone from the buffer.
\<close>

datatype kafka_op = Publish int "(string \<times> jval) list" string "string option" | ReadBuffer | ReplayEntry nat

fun kafka_step :: "broker \<Rightarrow> string \<Rightarrow> kafka_op \<Rightarrow> producer \<times> (string \<times> string) list \<Rightarrow> producer \<times> (string \<times> string) list" where
  "kafka_step env primary (Publish now event topic key) (st, entries) = (publishAsync env True now event topic key st, entries)"
| "kafka_step env primary ReadBuffer (st, entries) = (st, entries @ (if kp_connected st then buffered_entries st else []))"
| "kafka_step env primary (ReplayEntry i) (st, entries) =
     (if i < length entries then flush_entry env primary (entries ! i) st else st, entries)"

definition run_kafka :: "broker \<Rightarrow> string \<Rightarrow> kafka_op list \<Rightarrow> producer \<Rightarrow> producer \<times> (string \<times> string) list" where
  "run_kafka env primary ops st = fold (kafka_step env primary) ops (st, [])"

definition buffer_keys :: "kafka_op list \<Rightarrow> string list" where
  "buffer_keys ops = concat (map (\<lambda>op. case op of Publish now event _ _ \<Rightarrow> [buffer_key now event] | _ \<Rightarrow> []) ops)"

definition sane_op :: "kafka_op \<Rightarrow> bool" where
  "sane_op op = (case op of
     Publish _ event _ key \<Rightarrow> event_plain event \<and> json_plain (key_or_sender key event) \<and> \<not> nullish (key_or_sender key event)
   | _ \<Rightarrow> True)"

definition entry_of :: "kafka_op list \<Rightarrow> string \<times> string \<Rightarrow> bool" where
  "entry_of ops e = (\<exists>now event topic key. Publish now event topic key \<in> set ops
     \<and> e = (buffer_key now event, buffer_entry event topic (key_or_sender key event)))"

definition kept :: "producer \<Rightarrow> int \<Rightarrow> (string \<times> jval) list \<Rightarrow> string \<Rightarrow> string option \<Rightarrow> bool" where
  "kept st now event topic key =
     (message_of (JObj event) (JStr topic) (key_or_sender key event) \<in> set (kp_log st)
      \<or> om_get (kp_disk st) (buffer_key now event) = Some (buffer_entry event topic (key_or_sender key event)))"

definition kafka_inv :: "kafka_op list \<Rightarrow> producer \<times> (string \<times> string) list \<Rightarrow> bool" where
  "kafka_inv ops s =
     ((\<forall>now event topic key. Publish now event topic key \<in> set ops \<longrightarrow> kept (fst s) now event topic key)
      \<and> (\<forall>e \<in> set (kp_disk (fst s)) \<union> set (snd s). entry_of ops e))"

lemma buffered_sub: "set (buffered_entries st) \<subseteq> set (kp_disk st)"
  unfolding buffered_entries_def using set_take_subset [of FLUSH_LIMIT "sort_key fst (kp_disk st)"] by simp

lemma om_set_sub: "set (om_set k v m) \<subseteq> insert (k, v) (set m)"
  by (induction m) (auto split: if_splits)

lemma om_delete_sub: "set (om_delete k m) \<subseteq> set m"
  by (auto simp: om_delete_def)

lemma kept_mono:
  assumes "kept st now event topic key" and "set (kp_log st) \<subseteq> set (kp_log st')"
    and "om_get (kp_disk st') (buffer_key now event) = om_get (kp_disk st) (buffer_key now event)"
  shows "kept st' now event topic key"
  using assms by (auto simp: kept_def)

lemma keys_of: "Publish now event topic key \<in> set ops \<Longrightarrow> buffer_key now event \<in> set (buffer_keys ops)"
  unfolding buffer_keys_def by (auto intro!: bexI [of _ "Publish now event topic key"])

lemma keys_unique:
  assumes "distinct (buffer_keys ops)" and "Publish n1 e1 t1 k1 \<in> set ops" and "Publish n2 e2 t2 k2 \<in> set ops"
    and "buffer_key n1 e1 = buffer_key n2 e2"
  shows "Publish n1 e1 t1 k1 = Publish n2 e2 t2 k2"
  using assms
proof (induction ops)
  case (Cons op ops)
  have IH: "distinct (buffer_keys ops)" using Cons.prems(1) by (simp add: buffer_keys_def)
  have fresh: "buffer_key now event \<notin> set (buffer_keys ops)" if "op = Publish now event topic key" for now event topic key
    using Cons.prems(1) that by (simp add: buffer_keys_def)
  show ?case
  proof (cases "op = Publish n1 e1 t1 k1 \<or> op = Publish n2 e2 t2 k2")
    case True
    then show ?thesis using Cons.prems(2,3,4) fresh keys_of [of n1 e1 t1 k1 ops] keys_of [of n2 e2 t2 k2 ops] by auto
  next
    case False
    then have "Publish n1 e1 t1 k1 \<in> set ops" "Publish n2 e2 t2 k2 \<in> set ops" using Cons.prems(2,3) by auto
    then show ?thesis using Cons.IH [OF IH] Cons.prems(4) by simp
  qed
qed simp

lemma publish_step:
  assumes inv: "kafka_inv ops (st, entries)" and fresh: "buffer_key now event \<notin> set (buffer_keys ops)"
  shows "kafka_inv (ops @ [Publish now event topic key]) (publishAsync env True now event topic key st, entries)"
proof -
  let ?key = "key_or_sender key event"
  obtain ok ds st1 where p: "publishWithRetry env (message_of (JObj event) (JStr topic) ?key) 0 st = (ok, ds, st1)"
    by (cases "publishWithRetry env (message_of (JObj event) (JStr topic) ?key) 0 st")
  note l = publish_log [OF p]
  let ?st = "publishAsync env True now event topic key st"
  have st: "?st = (if ok then st1 else st1\<lparr>kp_disk := om_set (buffer_key now event) (buffer_entry event topic ?key) (kp_disk st1)\<rparr>)"
    by (simp add: publishAsync_def bufferToDisk_def p Let_def)
  have new: "kept ?st now event topic key" using l by (simp add: st kept_def)
  have old: "kept ?st n e t k" if "Publish n e t k \<in> set ops" for n e t k
  proof (rule kept_mono)
    show "kept st n e t k" using inv that by (simp add: kafka_inv_def)
    show "om_get (kp_disk ?st) (buffer_key n e) = om_get (kp_disk st) (buffer_key n e)"
      using l fresh keys_of [OF that] by (auto simp: st)
  qed (use l in \<open>auto simp: st\<close>)
  have "kp_disk ?st = kp_disk st \<or> kp_disk ?st = om_set (buffer_key now event) (buffer_entry event topic ?key) (kp_disk st)"
    using l by (simp add: st)
  then have "set (kp_disk ?st) \<subseteq> insert (buffer_key now event, buffer_entry event topic ?key) (set (kp_disk st))"
    using om_set_sub [of "buffer_key now event" "buffer_entry event topic ?key" "kp_disk st"] by auto
  moreover have "entry_of (ops @ [Publish now event topic key]) (buffer_key now event, buffer_entry event topic ?key)"
    unfolding entry_of_def by (intro exI [of _ now] exI [of _ event] exI [of _ topic] exI [of _ key]) simp
  moreover have "entry_of ops e" if "e \<in> set (kp_disk st) \<union> set entries" for e using inv that by (simp add: kafka_inv_def)
  moreover have "entry_of ops e \<Longrightarrow> entry_of (ops @ [op]) e" for e op by (auto simp only: entry_of_def set_append Un_iff)
  ultimately have "\<forall>e \<in> set (kp_disk ?st) \<union> set entries. entry_of (ops @ [Publish now event topic key]) e" by blast
  moreover have "kept ?st n e t k" if "Publish n e t k \<in> set (ops @ [Publish now event topic key])" for n e t k
    using that new old by auto
  ultimately show ?thesis unfolding kafka_inv_def by simp
qed

lemma replay_step:
  assumes inv: "kafka_inv ops (st, entries)" and uniq: "distinct (buffer_keys ops)" and sane: "\<forall>op \<in> set ops. sane_op op"
    and e: "e \<in> set entries"
  shows "kafka_inv ops (flush_entry env primary e st, entries)"
proof -
  obtain now event topic key where p: "Publish now event topic key \<in> set ops"
    "e = (buffer_key now event, buffer_entry event topic (key_or_sender key event))"
  proof -
    have "entry_of ops e" using inv e by (simp add: kafka_inv_def)
    then show thesis using that unfolding entry_of_def by blast
  qed
  let ?m = "message_of (JObj event) (JStr topic) (key_or_sender key event)"
  have "sane_op (Publish now event topic key)" using sane p(1) by blast
  then have m: "replay_message primary (snd e) = Some ?m" using p(2) by (simp add: sane_op_def buffered_message)
  obtain ok ds st1 where r: "publishWithRetry env ?m 0 st = (ok, ds, st1)" by (cases "publishWithRetry env ?m 0 st")
  note l = publish_log [OF r]
  let ?st = "flush_entry env primary e st"
  have st: "?st = (if ok then st1\<lparr>kp_disk := om_delete (buffer_key now event) (kp_disk st1)\<rparr> else st1)"
    using m p(2) by (simp add: flush_entry_def r Let_def)
  have "kept ?st n e' t k" if q: "Publish n e' t k \<in> set ops" for n e' t k
  proof (cases "ok \<and> buffer_key n e' = buffer_key now event")
    case True
    then have "Publish n e' t k = Publish now event topic key" using keys_unique [OF uniq q p(1)] by simp
    then show ?thesis using l True by (simp add: kept_def st)
  next
    case False
    show ?thesis
    proof (rule kept_mono)
      show "kept st n e' t k" using inv q by (simp add: kafka_inv_def)
    qed (use l False in \<open>auto simp: st\<close>)
  qed
  moreover have "set (kp_disk ?st) \<subseteq> set (kp_disk st)" using l om_delete_sub [of "buffer_key now event" "kp_disk st"] by (simp add: st)
  ultimately show ?thesis using inv by (auto simp: kafka_inv_def)
qed

lemma run_kafka_inv:
  assumes "kp_disk st = []" and "distinct (buffer_keys ops)" and "\<forall>op \<in> set ops. sane_op op"
  shows "kafka_inv ops (run_kafka env primary ops st)"
  using assms(2,3)
proof (induction ops rule: rev_induct)
  case Nil
  then show ?case using assms(1) by (simp add: kafka_inv_def run_kafka_def)
next
  case (snoc op ops)
  obtain s entries where r: "run_kafka env primary ops st = (s, entries)" by (cases "run_kafka env primary ops st")
  have k: "buffer_keys (ops @ [op]) = buffer_keys ops @ buffer_keys [op]" by (simp add: buffer_keys_def)
  then have uniq: "distinct (buffer_keys ops)" using snoc.prems(1) by simp
  then have inv: "kafka_inv ops (s, entries)" using snoc r by simp
  have step: "run_kafka env primary (ops @ [op]) st = kafka_step env primary op (s, entries)" using r by (simp add: run_kafka_def)
  have same: "kafka_inv (ops @ [op]) x = kafka_inv ops x" if "\<forall>n e t k. op \<noteq> Publish n e t k" for x
  proof -
    have mem: "Publish n e t k \<in> set (ops @ [op]) \<longleftrightarrow> Publish n e t k \<in> set ops" for n e t k using that by (cases op) auto
    show ?thesis unfolding kafka_inv_def entry_of_def mem by (rule refl)
  qed
  show ?case
  proof (cases op)
    case (Publish now event topic key)
    then have "buffer_key now event \<notin> set (buffer_keys ops)" using snoc.prems(1) k by (auto simp: buffer_keys_def)
    then show ?thesis using publish_step [OF inv] step Publish by simp
  next
    case ReadBuffer
    have "kafka_inv ops (s, entries @ (if kp_connected s then buffered_entries s else []))"
      using inv buffered_sub [of s] by (auto simp: kafka_inv_def)
    then show ?thesis using same ReadBuffer step by simp
  next
    case (ReplayEntry i)
    have "kafka_inv ops (flush_entry env primary (entries ! i) s, entries)" if "i < length entries"
      using replay_step [OF inv uniq] snoc.prems(2) that by simp
    then show ?thesis using same step inv ReplayEntry by simp
  qed
qed



lemma never_acked:
  assumes "\<And>n. bk_send env n m = NotAcked False reason"
  shows "fst (publishWithRetry env m a s) = False \<and> kp_log (snd (snd (publishWithRetry env m a s))) = kp_log s
    \<and> kp_disk (snd (snd (publishWithRetry env m a s))) = kp_disk s"
proof (induction "kp_maxRetries - a" arbitrary: a s)
  case 0
  then show ?case by (simp add: publishWithRetry.simps [of env m a s] send_message_def assms Let_def)
next
  case (Suc n)
  then show ?case using Suc.hyps(1) [of "a + 1"]
    by (simp add: publishWithRetry.simps [of env m a s] send_message_def assms Let_def split_beta)
qed

text \<open>
  Two failed publications of one transaction within a millisecond keep only the second. The
  decision path publishes a declined transaction to the main and to the blocked topic; both entries go to the key made of
  the clock and the transaction id, so the later one replaces the earlier, which then is in no
  log and in no buffer.
\<close>

theorem same_millisecond_overwrites:
  assumes down: "\<And>n m. bk_send env n m = NotAcked False reason" and "kp_log st = []" and "kp_disk st = []"
    and "event_plain event" and "json_plain (key_or_sender k2 event)" and "\<not> nullish (key_or_sender k2 event)" and "t1 \<noteq> t2"
  shows "let st' = publishAsync env True now event t2 k2 (publishAsync env True now event t1 k1 st) in
    kp_log st' = [] \<and> map (replay_message primary \<circ> snd) (kp_disk st') =
      [Some (message_of (JObj event) (JStr t2) (key_or_sender k2 event))]"
proof -
  have async: "kp_log (publishAsync env True now event t k st) = kp_log st"
    "kp_disk (publishAsync env True now event t k st) = om_set (buffer_key now event) (buffer_entry event t (key_or_sender k event)) (kp_disk st)"
    for t k st using never_acked [OF down, of "message_of (JObj event) (JStr t) (key_or_sender k event)" 0 st]
    by (auto simp: publishAsync_def bufferToDisk_def Let_def split: prod.split)
  show ?thesis using assms(2-6) by (simp add: Let_def async buffered_message)
qed

theorem same_millisecond_overwrites_witness:
  "length (kp_disk (publishAsync \<lparr>bk_connect = (\<lambda>_. True), bk_send = (\<lambda>_ _. NotAcked False ''timeout'')\<rparr> True 7
      [(''transaction_id'', JStr ''t1''), (''sender_id'', JStr ''a'')] ''transactions.blocked'' (Some ''t1'')
     (publishAsync \<lparr>bk_connect = (\<lambda>_. True), bk_send = (\<lambda>_ _. NotAcked False ''timeout'')\<rparr> True 7
      [(''transaction_id'', JStr ''t1''), (''sender_id'', JStr ''a'')] ''transactions.completed'' None
       \<lparr>kp_connected = True, kp_calls = 0, kp_log = [], kp_disk = []\<rparr>))) = 1"
proof -
  let ?env = "\<lparr>bk_connect = (\<lambda>_. True), bk_send = (\<lambda>_ _. NotAcked False ''timeout'')\<rparr>"
  let ?st = "\<lparr>kp_connected = True, kp_calls = 0, kp_log = [], kp_disk = []\<rparr>"
  let ?event = "[(''transaction_id'', JStr ''t1''), (''sender_id'', JStr ''a'')]"
  have "\<And>n m. bk_send ?env n m = NotAcked False ''timeout''" "kp_log ?st = []" "kp_disk ?st = []" "event_plain ?event"
    "json_plain (key_or_sender (Some ''t1'') ?event)" "\<not> nullish (key_or_sender (Some ''t1'') ?event)"
    "''transactions.completed'' \<noteq> ''transactions.blocked''"
    by (simp_all add: event_plain_def key_or_sender_def)
  note f = same_millisecond_overwrites [OF this, of 7 None "''p''", unfolded Let_def, THEN conjunct2]
  show ?thesis using arg_cong [OF f, of length] by simp
qed

text \<open>
  A hundred stuck entries stop the replay of everything behind them. The flush reads the first
  hundred entries by key, the oldest ones, and leaves a failed one in place; while those hundred
  fail, no number of flushes sends or removes anything, and an entry behind them that the
  broker would accept stays in the buffer.
\<close>

theorem stuck_entries_starve_the_rest:
  assumes stuck: "\<And>e n m. e \<in> set (buffered_entries st) \<Longrightarrow> replay_message primary (snd e) = Some m \<Longrightarrow>
      bk_send env n m = NotAcked False reason"
    and "behind \<in> set (kp_disk st)" and "behind \<notin> set (buffered_entries st)"
  shows "kp_log ((flushBuffer env primary ^^ n) st) = kp_log st \<and> behind \<in> set (kp_disk ((flushBuffer env primary ^^ n) st))"
proof -
  have entry: "kp_log (flush_entry env primary e s) = kp_log s \<and> kp_disk (flush_entry env primary e s) = kp_disk s"
    if "e \<in> set (buffered_entries st)" for e s
  proof (cases "replay_message primary (snd e)")
    case (Some m)
    have "bk_send env n m = NotAcked False reason" for n using stuck [OF that Some] .
    then show ?thesis using never_acked [of env m reason 0 s] Some by (simp add: flush_entry_def Let_def split_beta)
  qed (simp add: flush_entry_def)
  have many: "kp_log (fold (flush_entry env primary) es s) = kp_log s \<and> kp_disk (fold (flush_entry env primary) es s) = kp_disk s"
    if "set es \<subseteq> set (buffered_entries st)" for es s
    using that entry by (induction es arbitrary: s) auto
  have flush: "kp_log (flushBuffer env primary s) = kp_log s \<and> kp_disk (flushBuffer env primary s) = kp_disk s"
    if "buffered_entries s = buffered_entries st" for s using many [of "buffered_entries s" s] that by (simp add: flushBuffer_def)
  have "kp_log ((flushBuffer env primary ^^ n) st) = kp_log st \<and> kp_disk ((flushBuffer env primary ^^ n) st) = kp_disk st"
  proof (induction n)
    case (Suc n)
    let ?s = "(flushBuffer env primary ^^ n) st"
    have "buffered_entries ?s = buffered_entries st" using Suc by (simp add: buffered_entries_def)
    then show ?case using flush [of ?s] Suc by simp
  qed simp
  then show ?thesis using assms(2) by simp
qed

end
