(* ===== verification/UrlGuard.thy ===== *)
theory UrlGuard
  imports JsonRoundTrip "HOL-Library.Word" "HOL-Library.Char_ord"
begin

text \<open>
  \<open>src/shared/webhooks/url-guard.ts\<close>: which webhook targets are allowed. The platform's URL parser,
  DNS and the two environment flags are arguments; its test for IP literals is modelled.
\<close>

section \<open>Addresses\<close>

text \<open>\<open>Number.parseInt(p, 10)\<close>; \<open>None\<close> is NaN.\<close>

definition parse_int10 :: "string \<Rightarrow> int option" where
  "parse_int10 p =
     (let s = dropWhile is_ws p;
          signed = (s \<noteq> [] \<and> (hd s = CHR ''-'' \<or> hd s = CHR ''+''));
          ds = takeWhile is_digit (if signed then tl s else s)
      in if ds = [] then None
         else Some ((if signed \<and> hd s = CHR ''-'' then - 1 else 1) * int (digits_nat 0 ds)))"

definition isPrivateIPv4 :: "string \<Rightarrow> bool" where
  "isPrivateIPv4 addr =
     (let parts = map parse_int10 (split_on (CHR ''.'') addr) in
      if length parts \<noteq> 4 \<or> list_ex (\<lambda>n. case n of None \<Rightarrow> True | Some i \<Rightarrow> i < 0 \<or> 255 < i) parts then True
      else let a = the (parts ! 0); b = the (parts ! 1) in
        a = 10 \<or> a = 127 \<or> a = 0 \<or> (a = 169 \<and> b = 254) \<or> (a = 172 \<and> 16 \<le> b \<and> b \<le> 31)
        \<or> (a = 192 \<and> b = 168) \<or> (a = 192 \<and> b = 0) \<or> (a = 198 \<and> (b = 18 \<or> b = 19))
        \<or> (a = 100 \<and> 64 \<le> b \<and> b \<le> 127) \<or> 224 \<le> a)"

definition isPrivateIPv6 :: "string \<Rightarrow> bool" where
  "isPrivateIPv6 addr =
     (let lower = to_lower addr; embedded = drop 7 lower in
      lower = ''::'' \<or> lower = ''::1'' \<or> starts_with lower ''fe80:'' \<or> starts_with lower ''fc'' \<or> starts_with lower ''fd''
      \<or> starts_with lower ''ff''
      \<or> (starts_with lower ''::ffff:'' \<and> embedded \<noteq> [] \<and> list_all (\<lambda>c. is_digit c \<or> c = CHR ''.'') embedded
         \<and> isPrivateIPv4 embedded))"

text \<open>
  \<open>isIP\<close> of the platform: 4 for four decimal parts without leading zeros; 6 for eight groups, or fewer around
  one \<open>::\<close>, the last two possibly as a dotted quad, with an optional zone; otherwise 0.
\<close>

definition decimal_octet :: "string \<Rightarrow> bool" where
  "decimal_octet p = (p \<noteq> [] \<and> length p \<le> 3 \<and> list_all is_digit p \<and> (hd p \<noteq> CHR ''0'' \<or> tl p = []) \<and> digits_nat 0 p \<le> 255)"

definition is_ipv4 :: "string \<Rightarrow> bool" where
  "is_ipv4 s = (length (split_on (CHR ''.'') s) = 4 \<and> list_all decimal_octet (split_on (CHR ''.'') s))"

definition hex_group :: "string \<Rightarrow> bool" where
  "hex_group p = (p \<noteq> [] \<and> length p \<le> 4 \<and> list_all (\<lambda>c. case radix_digit c of None \<Rightarrow> False | Some d \<Rightarrow> d < 16) p)"

definition hex_groups :: "string \<Rightarrow> nat option" where
  "hex_groups s =
     (if s = [] then Some 0
      else let ps = split_on (CHR '':'') s in if list_all hex_group ps then Some (length ps) else None)"

definition tail_groups :: "string \<Rightarrow> nat option" where
  "tail_groups s =
     (if s = [] then Some 0
      else let ps = split_on (CHR '':'') s in
        if \<not> list_all hex_group (butlast ps) then None
        else if hex_group (last ps) then Some (length ps)
        else if is_ipv4 (last ps) then Some (length ps + 1) else None)"

fun cut_double_colon :: "string \<Rightarrow> (string \<times> string) option" where
  "cut_double_colon (a # b # s) =
     (if a = CHR '':'' \<and> b = CHR '':'' then Some ([], s)
      else map_option (\<lambda>(l, r). (a # l, r)) (cut_double_colon (b # s)))"
| "cut_double_colon _ = None"

definition is_ipv6 :: "string \<Rightarrow> bool" where
  "is_ipv6 s =
     (let main = takeWhile (\<lambda>c. c \<noteq> CHR ''%'') s; zone = dropWhile (\<lambda>c. c \<noteq> CHR ''%'') s in
      (zone = [] \<or> (tl zone \<noteq> [] \<and> list_all (\<lambda>c. is_digit c \<or> CHR ''a'' \<le> to_lower_char c \<and> to_lower_char c \<le> CHR ''z''
         \<or> c = CHR ''-'' \<or> c = CHR ''.'' \<or> c = CHR '':'') (tl zone)))
      \<and> (case cut_double_colon main of
           None \<Rightarrow> tail_groups main = Some 8
         | Some (l, r) \<Rightarrow>
             (case (hex_groups l, tail_groups r) of (Some m, Some n) \<Rightarrow> m + n \<le> 7 | _ \<Rightarrow> False)))"

definition isIP :: "string \<Rightarrow> nat" where
  "isIP s = (if is_ipv4 s then 4 else if is_ipv6 s then 6 else 0)"

definition isPrivateAddress :: "string \<Rightarrow> bool" where
  "isPrivateAddress addr =
     (if isIP addr = 4 then isPrivateIPv4 addr else if isIP addr = 6 then isPrivateIPv6 addr else True)"

section \<open>The verdict\<close>

record parsed_url =
  u_protocol :: string
  u_username :: string
  u_password :: string
  u_hostname :: string

datatype url_verdict =
  UrlSafe "string option"
| UrlInvalid | UrlCredentials | UrlScheme string | UrlNoHost | UrlDnsFailed string | UrlPrivate string string

fun verdict_reason :: "url_verdict \<Rightarrow> string option" where
  "verdict_reason (UrlSafe _) = None"
| "verdict_reason UrlInvalid = Some ''url is not a valid absolute URL''"
| "verdict_reason UrlCredentials = Some ''credentials in URL are not allowed''"
| "verdict_reason (UrlScheme p) = Some (''unsupported scheme '' @ p @ '' (https required)'')"
| "verdict_reason UrlNoHost = Some ''hostname is empty''"
| "verdict_reason (UrlDnsFailed msg) = Some (''dns lookup failed: '' @ msg)"
| "verdict_reason (UrlPrivate h a) = Some (h @ '' resolves to a private/loopback/link-local address ('' @ a @ '')'')"

definition strip_brackets :: "string \<Rightarrow> string" where
  "strip_brackets h =
     (let h' = (if h \<noteq> [] \<and> hd h = CHR ''['' then tl h else h)
      in if h' \<noteq> [] \<and> last h' = CHR '']'' then butlast h' else h')"

record url_platform =
  up_parse :: "string \<Rightarrow> parsed_url option"
  up_lookup :: "string \<Rightarrow> string + string list"
  up_allowHttp :: bool
  up_allowPrivate :: bool

definition isWebhookUrlSafe :: "url_platform \<Rightarrow> string \<Rightarrow> url_verdict" where
  "isWebhookUrlSafe env rawUrl =
     (case up_parse env rawUrl of
        None \<Rightarrow> UrlInvalid
      | Some url \<Rightarrow>
          if u_username url \<noteq> [] \<or> u_password url \<noteq> [] then UrlCredentials
          else if \<not> (u_protocol url = ''https:'' \<or> (u_protocol url = ''http:'' \<and> up_allowHttp env)) then UrlScheme (u_protocol url)
          else
            let hostname = strip_brackets (to_lower (u_hostname url)) in
            if hostname = [] then UrlNoHost
            else case (if isIP hostname \<noteq> 0 then Inr [hostname] else up_lookup env hostname) of
                   Inl msg \<Rightarrow> UrlDnsFailed msg
                 | Inr addresses \<Rightarrow>
                     (case find (\<lambda>a. \<not> up_allowPrivate env \<and> isPrivateAddress a) addresses of
                        Some a \<Rightarrow> UrlPrivate hostname a
                      | None \<Rightarrow> UrlSafe (case addresses of a # _ \<Rightarrow> Some a | [] \<Rightarrow> None)))"

section \<open>The blocked ranges\<close>

definition octet :: "nat \<Rightarrow> 32 word \<Rightarrow> nat" where
  "octet k w = unat (drop_bit (8 * k) w) mod 256"

definition dotted :: "32 word \<Rightarrow> string" where
  "dotted w = join_with ''.'' (map nat_to_str [octet 3 w, octet 2 w, octet 1 w, octet 0 w])"

definition in_cidr :: "32 word \<Rightarrow> 32 word \<times> nat \<Rightarrow> bool" where
  "in_cidr w block = (drop_bit (32 - snd block) w = drop_bit (32 - snd block) (fst block))"

definition ip4 :: "nat \<Rightarrow> nat \<Rightarrow> nat \<Rightarrow> nat \<Rightarrow> 32 word" where
  "ip4 a b c d = word_of_nat (a * 2 ^ 24 + b * 2 ^ 16 + c * 2 ^ 8 + d)"

text \<open>
  The blocks as the code has them: private, loopback, this network, link-local, 192.0/16, benchmarking,
  shared address space, multicast and reserved.
\<close>

definition BLOCKED :: "(32 word \<times> nat) list" where
  "BLOCKED = [(ip4 10 0 0 0, 8), (ip4 127 0 0 0, 8), (ip4 0 0 0 0, 8), (ip4 169 254 0 0, 16), (ip4 172 16 0 0, 12),
     (ip4 192 168 0 0, 16), (ip4 192 0 0 0, 16), (ip4 198 18 0 0, 15), (ip4 100 64 0 0, 10), (ip4 224 0 0 0, 3)]"

lemma digit_char_facts: "is_digit c \<Longrightarrow> \<not> is_ws c \<and> c \<noteq> CHR ''-'' \<and> c \<noteq> CHR ''+'' \<and> c \<noteq> CHR ''.''"
  by (auto simp: is_digit_def is_ws_def code_def)

lemma parse_nat_text: "parse_int10 (nat_to_str n) = Some (int n)"
proof -
  note d = nat_to_str_digits [of n]
  obtain c cs where s: "nat_to_str n = c # cs" using d by (cases "nat_to_str n") auto
  then have c: "is_digit c" "list_all is_digit cs" using d by simp_all
  have tw: "takeWhile is_digit cs = cs" using c(2) by (simp add: takeWhile_eq_all_conv list_all_iff)
  then show ?thesis using d s digit_char_facts [OF c(1)] by (simp add: parse_int10_def Let_def tw del: takeWhile_eq_all_conv)
qed

lemma split_join_nats: "xs \<noteq> [] \<Longrightarrow> split_on (CHR ''.'') (join_with ''.'' (map nat_to_str xs)) = map nat_to_str xs"
proof (induction xs)
  case (Cons x xs)
  have none: "CHR ''.'' \<notin> set (nat_to_str x)" using nat_to_str_digits [of x] digit_char_facts by (auto simp: list_all_iff)
  show ?case
  proof (cases "xs = []")
    case False
    then have "join_with ''.'' (map nat_to_str (x # xs)) = nat_to_str x @ CHR ''.'' # join_with ''.'' (map nat_to_str xs)"
      by (cases xs) simp_all
    then show ?thesis using Cons.IH [OF False] split_on_first [OF none] by simp
  qed (use none in \<open>simp add: split_on_none\<close>)
qed simp

lemma dotted_private:
  "isPrivateIPv4 (dotted w) = (let a = octet 3 w; b = octet 2 w in
     a = 10 \<or> a = 127 \<or> a = 0 \<or> (a = 169 \<and> b = 254) \<or> (a = 172 \<and> 16 \<le> b \<and> b \<le> 31) \<or> (a = 192 \<and> b = 168) \<or> (a = 192 \<and> b = 0)
     \<or> (a = 198 \<and> (b = 18 \<or> b = 19)) \<or> (a = 100 \<and> 64 \<le> b \<and> b \<le> 127) \<or> 224 \<le> a)"
proof -
  have "map parse_int10 (split_on (CHR ''.'') (dotted w)) = map (\<lambda>n. Some (int n)) [octet 3 w, octet 2 w, octet 1 w, octet 0 w]"
    unfolding dotted_def by (subst split_join_nats) (simp_all only: list.map parse_nat_text list.distinct not_False_eq_True)
  moreover have "\<not> 255 < octet k w" for k
    using mod_less_divisor [of 256 "unat (drop_bit (8 * k) w)"] by (simp add: octet_def)
  ultimately show ?thesis by (simp add: isPrivateIPv4_def Let_def)
qed

lemma cidr_div:
  assumes "net < 2 ^ 32"
  shows "in_cidr w (word_of_nat net, len) \<longleftrightarrow> unat w div 2 ^ (32 - len) = net div 2 ^ (32 - len)"
proof -
  have "unat (word_of_nat net :: 32 word) = net" using assms by (simp add: unat_of_nat take_bit_nat_eq_self)
  then show ?thesis
    by (simp only: in_cidr_def word_unat_eq_iff unat_drop_bit_eq fst_conv snd_conv) (simp add: drop_bit_eq_div)
qed

lemma radix_eq: "d < m \<Longrightarrow> d' < m \<Longrightarrow> a * m + d = c * m + d' \<longleftrightarrow> a = c \<and> d = d'" for a m d c d' :: nat
proof
  assume "d < m" "d' < m" "a * m + d = c * m + d'"
  then have "(a * m + d) div m = (c * m + d') div m" "(a * m + d) mod m = (c * m + d') mod m" by simp_all
  then show "a = c \<and> d = d'" using \<open>d < m\<close> \<open>d' < m\<close> by simp
qed simp

lemma div_range: "0 < m \<Longrightarrow> n div m = k \<longleftrightarrow> k * m \<le> n \<and> n < k * m + m" for m n k :: nat
proof
  assume "0 < m" "n div m = k"
  moreover from this have "n = k * m + n mod m" "n mod m < m" using div_mult_mod_eq [of n m] by simp_all
  ultimately show "k * m \<le> n \<and> n < k * m + m" by linarith
qed (auto intro!: div_nat_eqI simp: algebra_simps)

lemma octets_of:
  defines "n \<equiv> \<lambda>w :: 32 word. unat w"
  shows "n w = octet 3 w * 2 ^ 24 + octet 2 w * 2 ^ 16 + n w mod 2 ^ 16" "octet 2 w < 256" "octet 3 w < 256"
proof -
  have lt: "n w < 2 ^ 32" using unsigned_less [of w] by (simp add: n_def)
  have o: "octet 3 w = n w div 2 ^ 24 mod 256" "octet 2 w = n w div 2 ^ 16 mod 256"
    by (simp_all only: octet_def n_def unat_drop_bit_eq) (simp_all add: drop_bit_eq_div)
  have "n w div 2 ^ 24 < 256" using lt by (simp add: div_less_iff_less_mult)
  define m where "m = n w div 65536"
  have "n w div 16777216 = m div 256" using div_mult2_eq [of "n w" 65536 256] by (simp add: m_def)
  moreover have "n w = m * 65536 + n w mod 65536" unfolding m_def by simp
  moreover have "m * 65536 = m div 256 * 16777216 + m mod 256 * 65536" using div_mult_mod_eq [of m 256] by linarith
  ultimately show "n w = octet 3 w * 2 ^ 24 + octet 2 w * 2 ^ 16 + n w mod 2 ^ 16"
    using o \<open>n w div 2 ^ 24 < 256\<close> by (simp flip: m_def)
  show "octet 2 w < 256" "octet 3 w < 256" unfolding o by simp_all
qed



definition sample_platform :: url_platform where
  "sample_platform = \<lparr>up_parse = (\<lambda>s. if s = ''https://[::ffff:127.0.0.1]/''
       then Some \<lparr>u_protocol = ''https:'', u_username = [], u_password = [], u_hostname = ''[::ffff:7f00:1]''\<rparr>
       else if s = ''https://hooks.example/'' then Some \<lparr>u_protocol = ''https:'', u_username = [], u_password = [], u_hostname = ''hooks.example''\<rparr>
       else None),
     up_lookup = (\<lambda>h. if h = ''hooks.example'' then Inr [''8.8.8.8''] else Inl ''ENOTFOUND''), up_allowHttp = False, up_allowPrivate = False\<rparr>"


text \<open>
  The loopback address passes as an IPv4-mapped literal. URL parsers write the mapped
  form in hexadecimal groups, as \<open>::ffff:7f00:1\<close>; the rule for mapped addresses knows only the dotted
  form, so the target is accepted, and link-local addresses from \<open>fe90::\<close> to \<open>febf::\<close> are
  too.
\<close>

theorem mapped_loopback_accepted:
  assumes "up_parse env url = Some \<lparr>u_protocol = ''https:'', u_username = [], u_password = [], u_hostname = ''[::ffff:7f00:1]''\<rparr>"
  shows "isWebhookUrlSafe env url = UrlSafe (Some ''::ffff:7f00:1'') \<and> isPrivateIPv4 (dotted (ip4 127 0 0 1))
    \<and> \<not> isPrivateIPv6 ''fe90::1'' \<and> \<not> isPrivateIPv6 ''febf::1''"
proof -
  have "strip_brackets (to_lower ''[::ffff:7f00:1]'') = ''::ffff:7f00:1''" by code_simp
  moreover have p: "\<not> isPrivateIPv6 ''::ffff:7f00:1''" "\<not> isPrivateIPv6 ''fe90::1''" "\<not> isPrivateIPv6 ''febf::1''" by code_simp+
  moreover have "isIP ''::ffff:7f00:1'' = 6" by code_simp
  moreover have "isPrivateIPv4 (dotted (ip4 127 0 0 1))"
    by (simp add: dotted_private Let_def octet_def ip4_def)
  ultimately show ?thesis using assms by (simp add: isWebhookUrlSafe_def isPrivateAddress_def)
qed

theorem mapped_loopback_accepted_witness:
  "isWebhookUrlSafe sample_platform ''https://[::ffff:127.0.0.1]/'' = UrlSafe (Some ''::ffff:7f00:1'')"
proof -
  have "up_parse sample_platform ''https://[::ffff:127.0.0.1]/'' =
      Some \<lparr>u_protocol = ''https:'', u_username = [], u_password = [], u_hostname = ''[::ffff:7f00:1]''\<rparr>" by (simp_all add: sample_platform_def)
  from mapped_loopback_accepted [OF this] show ?thesis by blast
qed

end
