(* ===== verification/Webhooks.thy ===== *)
theory Webhooks
  imports UrlGuard
begin

text \<open>
  \<open>src/shared/webhooks/webhook.service.ts\<close>, its two repositories, the worker's tick, the admin
  controller and \<open>src/shared/authz/tenant-scope.ts\<close>: subscriptions, queued deliveries,
  attempts with backoff. The tables are lists of rows; the receiver's answer, the hashes, random
  ids and the clock are arguments. Logs and the worker's timer are not modelled.
\<close>

section \<open>Rows\<close>

record subscription =
  sb_id :: string
  sb_tenantId :: string
  sb_url :: string
  sb_secretHash :: string
  sb_events :: "string list"
  sb_isActive :: bool
  sb_maxRetries :: nat
  sb_timeoutMs :: nat
  sb_createdAt :: int

record webhook_delivery =
  dv_id :: string
  dv_subscriptionId :: string
  dv_event :: string
  dv_payload :: jval
  dv_status :: string
  dv_attempts :: nat
  dv_lastResponseCode :: "nat option"
  dv_lastResponseBody :: "string option"
  dv_lastAttemptedAt :: "int option"
  dv_nextAttemptAt :: "int option"
  dv_createdAt :: int

text \<open>A request that left the process.\<close>

record webhook_request =
  rq_url :: string
  rq_event :: string
  rq_delivery :: string
  rq_signature :: string
  rq_body :: string

record webhook_state =
  wh_subscriptions :: "subscription list"
  wh_deliveries :: "webhook_delivery list"
  wh_sent :: "webhook_request list"

record webhook_crypto =
  wc_sha256 :: "string \<Rightarrow> string"
  wc_hmac :: "string \<Rightarrow> string \<Rightarrow> string"

text \<open>No response in time or at all, or a status with the body or the error of reading it.\<close>

datatype http_outcome = NoResponse string | Response nat "string + string"

section \<open>Subscriptions\<close>

record webhook_input =
  wi_tenantId :: string
  wi_url :: string
  wi_events :: "string list"
  wi_secret :: "string option"
  wi_maxRetries :: "nat option"
  wi_timeoutMs :: "nat option"

text \<open>The result is the error, or the id and the plain secret.\<close>

definition register_webhook ::
    "url_platform \<Rightarrow> webhook_crypto \<Rightarrow> string \<Rightarrow> string \<Rightarrow> int \<Rightarrow> webhook_input \<Rightarrow> webhook_state
      \<Rightarrow> (url_verdict, string \<times> string) result \<times> webhook_state" where
  "register_webhook env crypto newId randomSecret now i st =
     (case isWebhookUrlSafe env (wi_url i) of
        UrlSafe _ \<Rightarrow>
          (let secret = (case wi_secret i of Some s \<Rightarrow> s | None \<Rightarrow> ''whsec_'' @ randomSecret);
               row = \<lparr>sb_id = newId, sb_tenantId = wi_tenantId i, sb_url = wi_url i, sb_secretHash = wc_sha256 crypto secret,
                 sb_events = wi_events i, sb_isActive = True,
                 sb_maxRetries = (case wi_maxRetries i of Some n \<Rightarrow> n | None \<Rightarrow> 6),
                 sb_timeoutMs = (case wi_timeoutMs i of Some n \<Rightarrow> n | None \<Rightarrow> 5000), sb_createdAt = now\<rparr>
           in (Inr (newId, secret), st\<lparr>wh_subscriptions := wh_subscriptions st @ [row]\<rparr>))
      | verdict \<Rightarrow> (Inl verdict, st))"

text \<open>An empty tenant is no filter.\<close>

definition listAll :: "string option \<Rightarrow> webhook_state \<Rightarrow> subscription list" where
  "listAll tenantId st =
     rev (sort_key sb_createdAt (filter (\<lambda>s. case tenantId of Some t \<Rightarrow> t = [] \<or> sb_tenantId s = t | None \<Rightarrow> True) (wh_subscriptions st)))"

definition findActiveForEvent :: "string \<Rightarrow> string option \<Rightarrow> webhook_state \<Rightarrow> subscription list" where
  "findActiveForEvent event tenantId st =
     filter (\<lambda>s. sb_isActive s \<and> event \<in> set (sb_events s)
        \<and> (case tenantId of Some t \<Rightarrow> t = [] \<or> sb_tenantId s = t | None \<Rightarrow> True)) (wh_subscriptions st)"

definition deactivate :: "string \<Rightarrow> webhook_state \<Rightarrow> nat \<times> webhook_state" where
  "deactivate i st =
     (length (filter (\<lambda>s. sb_id s = i) (wh_subscriptions st)),
      st\<lparr>wh_subscriptions := map (\<lambda>s. if sb_id s = i then s\<lparr>sb_isActive := False\<rparr> else s) (wh_subscriptions st)\<rparr>)"

definition revoke :: "string \<Rightarrow> webhook_state \<Rightarrow> bool \<times> webhook_state" where
  "revoke i st = (let (n, st') = deactivate i st in (0 < n, st'))"

section \<open>Deliveries\<close>

text \<open>One row per subscription, with the generated ids.\<close>

definition enqueue :: "int \<Rightarrow> string \<Rightarrow> jval \<Rightarrow> (string \<times> string) list \<Rightarrow> webhook_state \<Rightarrow> webhook_state" where
  "enqueue now event payload idsAndSubs st =
     st\<lparr>wh_deliveries := wh_deliveries st @ map (\<lambda>(i, s). \<lparr>dv_id = i, dv_subscriptionId = s, dv_event = event,
        dv_payload = payload, dv_status = ''PENDING'', dv_attempts = 0, dv_lastResponseCode = None, dv_lastResponseBody = None,
        dv_lastAttemptedAt = None, dv_nextAttemptAt = Some now, dv_createdAt = now\<rparr>) idsAndSubs\<rparr>"

definition hydrateForDispatch :: "string list \<Rightarrow> webhook_state \<Rightarrow> (webhook_delivery \<times> subscription) list" where
  "hydrateForDispatch ids st =
     concat (map (\<lambda>d. map (Pair d) (filter (\<lambda>s. sb_id s = dv_subscriptionId d) (wh_subscriptions st)))
       (filter (\<lambda>d. dv_id d \<in> set ids) (wh_deliveries st)))"

definition recordAttempt ::
    "string \<Rightarrow> int \<Rightarrow> string \<Rightarrow> nat \<Rightarrow> nat option \<Rightarrow> string option \<Rightarrow> int option \<Rightarrow> webhook_state \<Rightarrow> webhook_state" where
  "recordAttempt i now status attempts rcode rbody nextAt st =
     st\<lparr>wh_deliveries := map (\<lambda>d. if dv_id d = i
        then d\<lparr>dv_status := status, dv_attempts := attempts, dv_lastResponseCode := rcode, dv_lastResponseBody := rbody,
               dv_lastAttemptedAt := Some now, dv_nextAttemptAt := nextAt\<rparr>
        else d) (wh_deliveries st)\<rparr>"

definition pullDue :: "nat \<Rightarrow> int \<Rightarrow> webhook_state \<Rightarrow> string list" where
  "pullDue limit now st =
     map dv_id (take limit (filter (\<lambda>d. dv_status d = ''PENDING'' \<and> (case dv_nextAttemptAt d of Some t \<Rightarrow> t \<le> now | None \<Rightarrow> False))
       (wh_deliveries st)))"

definition listRecent :: "nat option \<Rightarrow> string option \<Rightarrow> webhook_state \<Rightarrow> (webhook_delivery \<times> subscription) list" where
  "listRecent asked status st =
     take (min (max (case asked of Some n \<Rightarrow> n | None \<Rightarrow> 50) 1) 500)
       (rev (sort_key (\<lambda>e. dv_createdAt (fst e))
         (concat (map (\<lambda>d. map (Pair d) (filter (\<lambda>s. sb_id s = dv_subscriptionId d) (wh_subscriptions st)))
           (filter (\<lambda>d. case status of Some x \<Rightarrow> x = [] \<or> dv_status d = x | None \<Rightarrow> True) (wh_deliveries st))))))"

text \<open>Status, response code and body of one attempt, and whether the request was sent.\<close>

definition attempt_outcome :: "url_verdict \<Rightarrow> http_outcome \<Rightarrow> bool \<times> string \<times> nat option \<times> string option" where
  "attempt_outcome verdict answer =
     (case verdict of
        UrlSafe _ \<Rightarrow>
          (case answer of
             NoResponse msg \<Rightarrow> (True, ''FAILED'', None, Some (take 1024 msg))
           | Response rcode body \<Rightarrow>
               if 300 \<le> rcode \<and> rcode < 400
               then (True, ''FAILED'', Some rcode, Some (''redirect refused (status '' @ nat_to_str rcode @ '')''))
               else (case body of
                       Inr b \<Rightarrow> (True, (if 200 \<le> rcode \<and> rcode < 300 then ''DELIVERED'' else ''FAILED''), Some rcode, Some (take 1024 b))
                     | Inl msg \<Rightarrow> (True, ''FAILED'', Some rcode, Some (take 1024 msg))))
      | _ \<Rightarrow> (False, ''FAILED'', None, Some (take 1024 (''Pre-flight URL check failed: ''
          @ (case verdict_reason verdict of Some r \<Rightarrow> r | None \<Rightarrow> [])))))"

definition backoff :: "nat \<Rightarrow> int" where
  "backoff attempts = min (30000 * 2 ^ (attempts - 1)) 3600000"

definition signature_of :: "webhook_crypto \<Rightarrow> string \<Rightarrow> int \<Rightarrow> string \<Rightarrow> string" where
  "signature_of crypto secretHash now body =
     (let timestamp = nat_to_str (nat (now div 1000))
      in ''t='' @ timestamp @ '',v1='' @ wc_hmac crypto secretHash (timestamp @ ''.'' @ body))"

definition deliverOne ::
    "url_platform \<Rightarrow> webhook_crypto \<Rightarrow> int \<Rightarrow> http_outcome \<Rightarrow> webhook_delivery \<times> subscription \<Rightarrow> webhook_state \<Rightarrow> webhook_state" where
  "deliverOne env crypto now answer row st =
     (let (d, s) = row;
          body = json_text (dv_payload d);
          attempts = dv_attempts d + 1;
          (sent, status, rcode, rbody) = attempt_outcome (isWebhookUrlSafe env (sb_url s)) answer;
          st1 = (if sent then st\<lparr>wh_sent := wh_sent st @ [\<lparr>rq_url = sb_url s, rq_event = dv_event d, rq_delivery = dv_id d,
                   rq_signature = signature_of crypto (sb_secretHash s) now body, rq_body = body\<rparr>]\<rparr> else st);
          again = (status = ''FAILED'' \<and> attempts < sb_maxRetries s)
      in recordAttempt (dv_id d) now (if again then ''PENDING'' else status) attempts rcode rbody
           (if again then Some (now + backoff attempts) else None) st1)"

text \<open>The rows are read once; each has the receiver's answer.\<close>

definition processPendingDeliveries ::
    "url_platform \<Rightarrow> webhook_crypto \<Rightarrow> int \<Rightarrow> (string \<Rightarrow> http_outcome) \<Rightarrow> string list \<Rightarrow> webhook_state \<Rightarrow> webhook_state" where
  "processPendingDeliveries env crypto now answers ids st =
     (if ids = [] then st
      else fold (\<lambda>row. deliverOne env crypto now (answers (dv_id (fst row))) row) (hydrateForDispatch ids st) st)"

text \<open>The part of \<open>publish\<close> before the deliveries are dispatched: the new ids and the queued rows.\<close>

definition publish_webhook ::
    "string \<Rightarrow> (string \<times> jval) list \<Rightarrow> string option \<Rightarrow> string \<Rightarrow> int \<Rightarrow> (subscription \<Rightarrow> string) \<Rightarrow> webhook_state
      \<Rightarrow> string list \<times> webhook_state" where
  "publish_webhook event payload tenantId sentAt now freshId st =
     (let subs = findActiveForEvent event tenantId st;
          envelope = JObj [(''event'', JStr event), (''data'', JObj payload), (''sent_at'', JStr sentAt)]
      in if subs = [] then ([], st)
         else (map freshId subs, enqueue now event envelope (map (\<lambda>s. (freshId s, sb_id s)) subs) st))"

definition webhook_tick ::
    "url_platform \<Rightarrow> webhook_crypto \<Rightarrow> int \<Rightarrow> (string \<Rightarrow> http_outcome) \<Rightarrow> webhook_state \<Rightarrow> webhook_state" where
  "webhook_tick env crypto now answers st = processPendingDeliveries env crypto now answers (pullDue 100 now st) st"

section \<open>The admin controller\<close>

record auth_subject =
  au_tenantId :: string
  au_permissions :: "string list"

definition resolveTenantScope :: "auth_subject option \<Rightarrow> string option \<Rightarrow> string" where
  "resolveTenantScope auth requested =
     (let own = (case auth of Some a \<Rightarrow> au_tenantId a | None \<Rightarrow> ''default'');
          perms = (case auth of Some a \<Rightarrow> au_permissions a | None \<Rightarrow> [])
      in case requested of
           None \<Rightarrow> own
         | Some t \<Rightarrow> if t = [] \<or> t = own then own
                     else if ''*'' \<in> set perms \<or> ''tenants:admin_any'' \<in> set perms then t else own)"

definition webhooks_register ::
    "url_platform \<Rightarrow> webhook_crypto \<Rightarrow> string \<Rightarrow> string \<Rightarrow> int \<Rightarrow> auth_subject option \<Rightarrow> string option \<Rightarrow> webhook_input
      \<Rightarrow> webhook_state \<Rightarrow> (url_verdict, string \<times> string) result \<times> webhook_state" where
  "webhooks_register env crypto newId randomSecret now auth requested i st =
     (case isWebhookUrlSafe env (wi_url i) of
        UrlSafe _ \<Rightarrow> register_webhook env crypto newId randomSecret now (i\<lparr>wi_tenantId := resolveTenantScope auth requested\<rparr>) st
      | verdict \<Rightarrow> (Inl verdict, st))"

definition webhooks_list :: "auth_subject option \<Rightarrow> string option \<Rightarrow> webhook_state \<Rightarrow> subscription list" where
  "webhooks_list auth requested st = listAll (Some (resolveTenantScope auth requested)) st"

text \<open>The answer's status code.\<close>

definition webhooks_revoke :: "auth_subject option \<Rightarrow> string \<Rightarrow> webhook_state \<Rightarrow> nat \<times> webhook_state" where
  "webhooks_revoke auth i st = (let (ok, st') = revoke i st in (if ok then 200 else 404, st'))"

definition webhooks_listDeliveries ::
    "auth_subject option \<Rightarrow> string option \<Rightarrow> string option \<Rightarrow> webhook_state \<Rightarrow> (webhook_delivery \<times> subscription) list option" where
  "webhooks_listDeliveries auth asked status st =
     (let parsed = parse_int10 (case asked of Some s \<Rightarrow> s | None \<Rightarrow> []);
          n = (case parsed of Some i \<Rightarrow> if 0 < i then Some (nat (min i 500)) else None | None \<Rightarrow> None)
      in case status of
           Some x \<Rightarrow> if x \<noteq> [] \<and> x \<notin> {''PENDING'', ''DELIVERED'', ''FAILED''} then None else Some (listRecent n status st)
         | None \<Rightarrow> Some (listRecent n None st))"

section \<open>Histories\<close>

text \<open>
  One call after another: no two dispatches overlap. New ids are fresh; the environment of
  each step is its own, so DNS and the receivers may change in between.
\<close>

inductive webhook_step :: "webhook_state \<Rightarrow> webhook_state \<Rightarrow> bool" where
  register: "i \<notin> sb_id ` set (wh_subscriptions st)
    \<Longrightarrow> webhook_step st (snd (register_webhook env crypto i randomSecret now input st))"
| revoke: "webhook_step st (snd (revoke i st))"
| publish: "publish_webhook event payload tenantId sentAt now freshId st = (ids, st')
    \<Longrightarrow> distinct ids \<Longrightarrow> set ids \<inter> dv_id ` set (wh_deliveries st) = {}
    \<Longrightarrow> webhook_step st (processPendingDeliveries env crypto now answers ids st')"
| tick: "webhook_step st (webhook_tick env crypto now answers st)"

definition attempts_allowed :: "subscription \<Rightarrow> nat" where
  "attempts_allowed s = max 1 (sb_maxRetries s)"

definition requests_for :: "string \<Rightarrow> webhook_state \<Rightarrow> nat" where
  "requests_for i st = length (filter (\<lambda>r. rq_delivery r = i) (wh_sent st))"

definition delivery_ok :: "webhook_state \<Rightarrow> webhook_delivery \<Rightarrow> bool" where
  "delivery_ok st d =
     ((\<forall>s \<in> set (wh_subscriptions st). sb_id s = dv_subscriptionId d \<longrightarrow>
         dv_attempts d \<le> attempts_allowed s \<and> (dv_status d = ''PENDING'' \<longrightarrow> dv_attempts d < attempts_allowed s))
      \<and> requests_for (dv_id d) st \<le> dv_attempts d)"

definition webhooks_ok :: "webhook_state \<Rightarrow> bool" where
  "webhooks_ok st =
     (distinct (map sb_id (wh_subscriptions st)) \<and> distinct (map dv_id (wh_deliveries st))
      \<and> (\<forall>d \<in> set (wh_deliveries st). delivery_ok st d)
      \<and> (\<forall>d \<in> set (wh_deliveries st). dv_subscriptionId d \<in> sb_id ` set (wh_subscriptions st))
      \<and> rq_delivery ` set (wh_sent st) \<subseteq> dv_id ` set (wh_deliveries st))"

lemma attempt_status: "attempt_outcome verdict answer = (sent, status, rcode, rbody) \<Longrightarrow> status = ''FAILED'' \<or> status = ''DELIVERED''"
  by (auto simp: attempt_outcome_def split: url_verdict.splits http_outcome.splits sum.splits if_splits)

lemma safe_sent: "\<exists>status rcode rbody. attempt_outcome (UrlSafe p) answer = (True, status, rcode, rbody)"
proof -
  have "fst (attempt_outcome (UrlSafe p) answer)" by (simp add: attempt_outcome_def split: http_outcome.split sum.split)
  then show ?thesis by (cases "attempt_outcome (UrlSafe p) answer") simp
qed

text \<open>An attempt writes its row and sends at most one request.\<close>

lemma deliverOne_shape:
  "\<exists>status rcode rbody nextAt sent. deliverOne env crypto now answer (d, s) st =
      recordAttempt (dv_id d) now status (dv_attempts d + 1) rcode rbody nextAt (st\<lparr>wh_sent := wh_sent st @ sent\<rparr>)
    \<and> (status = ''PENDING'' \<longrightarrow> dv_attempts d + 1 < sb_maxRetries s) \<and> (sent = [] \<or> (\<exists>r. sent = [r] \<and> rq_delivery r = dv_id d))"
proof -
  obtain sent status rcode rbody where a: "attempt_outcome (isWebhookUrlSafe env (sb_url s)) answer = (sent, status, rcode, rbody)"
    by (cases "attempt_outcome (isWebhookUrlSafe env (sb_url s)) answer")
  define r where "r = \<lparr>rq_url = sb_url s, rq_event = dv_event d, rq_delivery = dv_id d,
    rq_signature = signature_of crypto (sb_secretHash s) now (json_text (dv_payload d)), rq_body = json_text (dv_payload d)\<rparr>"
  define again where "again = (status = ''FAILED'' \<and> dv_attempts d + 1 < sb_maxRetries s)"
  have "deliverOne env crypto now answer (d, s) st =
      recordAttempt (dv_id d) now (if again then ''PENDING'' else status) (dv_attempts d + 1) rcode rbody
        (if again then Some (now + backoff (dv_attempts d + 1)) else None) (st\<lparr>wh_sent := wh_sent st @ (if sent then [r] else [])\<rparr>)"
    by (simp add: deliverOne_def a Let_def r_def again_def)
  moreover have "(if again then ''PENDING'' else status) = ''PENDING'' \<longrightarrow> dv_attempts d + 1 < sb_maxRetries s"
    using attempt_status [OF a] by (auto simp: again_def)
  moreover have "rq_delivery r = dv_id d" by (simp add: r_def)
  ultimately show ?thesis
    by (intro exI [of _ "if again then ''PENDING'' else status"] exI [of _ rcode] exI [of _ rbody]
        exI [of _ "if again then Some (now + backoff (dv_attempts d + 1)) else None"] exI [of _ "if sent then [r] else []"] conjI) simp_all
qed

lemma record_rows: "wh_deliveries (recordAttempt i now status n rcode rbody nextAt st) =
    map (\<lambda>d. if dv_id d = i then d\<lparr>dv_status := status, dv_attempts := n, dv_lastResponseCode := rcode, dv_lastResponseBody := rbody,
      dv_lastAttemptedAt := Some now, dv_nextAttemptAt := nextAt\<rparr> else d) (wh_deliveries st)"
  "wh_subscriptions (recordAttempt i now status n rcode rbody nextAt st) = wh_subscriptions st"
  "wh_sent (recordAttempt i now status n rcode rbody nextAt st) = wh_sent st"
  by (simp_all add: recordAttempt_def)

lemma deliverOne_fields:
  "wh_subscriptions (deliverOne env crypto now answer (d, s) st) = wh_subscriptions st"
  "map dv_id (wh_deliveries (deliverOne env crypto now answer (d, s) st)) = map dv_id (wh_deliveries st)"
  "requests_for i (deliverOne env crypto now answer (d, s) st) \<le> requests_for i st + (if i = dv_id d then 1 else 0)"
  "rq_delivery ` set (wh_sent (deliverOne env crypto now answer (d, s) st)) \<subseteq> insert (dv_id d) (rq_delivery ` set (wh_sent st))"
proof -
  obtain status rcode rbody nextAt sent where f:
    "deliverOne env crypto now answer (d, s) st =
      recordAttempt (dv_id d) now status (dv_attempts d + 1) rcode rbody nextAt (st\<lparr>wh_sent := wh_sent st @ sent\<rparr>)"
    "sent = [] \<or> (\<exists>r. sent = [r] \<and> rq_delivery r = dv_id d)"
    using deliverOne_shape [of env crypto now answer d s st] by blast
  show "wh_subscriptions (deliverOne env crypto now answer (d, s) st) = wh_subscriptions st"
    "map dv_id (wh_deliveries (deliverOne env crypto now answer (d, s) st)) = map dv_id (wh_deliveries st)"
    by (simp_all add: f(1) record_rows comp_def if_distrib cong: map_cong if_cong)
  show "requests_for i (deliverOne env crypto now answer (d, s) st) \<le> requests_for i st + (if i = dv_id d then 1 else 0)"
    "rq_delivery ` set (wh_sent (deliverOne env crypto now answer (d, s) st)) \<subseteq> insert (dv_id d) (rq_delivery ` set (wh_sent st))"
    using f(2) by (auto simp: f(1) record_rows requests_for_def)
qed

lemma deliverOne_rows:
  assumes "x \<in> set (wh_deliveries (deliverOne env crypto now answer (d, s) st))"
  shows "(dv_id x \<noteq> dv_id d \<and> x \<in> set (wh_deliveries st))
    \<or> (dv_id x = dv_id d \<and> (\<exists>y \<in> set (wh_deliveries st). dv_id y = dv_id d \<and> dv_subscriptionId x = dv_subscriptionId y)
       \<and> dv_attempts x = dv_attempts d + 1 \<and> (dv_status x = ''PENDING'' \<longrightarrow> dv_attempts d + 1 < sb_maxRetries s))"
proof -
  obtain status rcode rbody nextAt sent where f:
    "deliverOne env crypto now answer (d, s) st =
      recordAttempt (dv_id d) now status (dv_attempts d + 1) rcode rbody nextAt (st\<lparr>wh_sent := wh_sent st @ sent\<rparr>)"
    "status = ''PENDING'' \<longrightarrow> dv_attempts d + 1 < sb_maxRetries s"
    using deliverOne_shape [of env crypto now answer d s st] by blast
  obtain y where "y \<in> set (wh_deliveries st)" "x = (if dv_id y = dv_id d then y\<lparr>dv_status := status, dv_attempts := dv_attempts d + 1,
      dv_lastResponseCode := rcode, dv_lastResponseBody := rbody, dv_lastAttemptedAt := Some now, dv_nextAttemptAt := nextAt\<rparr> else y)"
    using assms by (auto simp: f(1) record_rows)
  then show ?thesis using f(2) by (cases "dv_id y = dv_id d") auto
qed

lemma deliverOne_keeps:
  assumes "dv_id x \<noteq> dv_id d" and "x \<in> set (wh_deliveries st)"
  shows "x \<in> set (wh_deliveries (deliverOne env crypto now answer (d, s) st))"
proof -
  obtain status rcode rbody nextAt sent where
    "deliverOne env crypto now answer (d, s) st =
      recordAttempt (dv_id d) now status (dv_attempts d + 1) rcode rbody nextAt (st\<lparr>wh_sent := wh_sent st @ sent\<rparr>)"
    using deliverOne_shape [of env crypto now answer d s st] by blast
  then show ?thesis using assms by (force simp: record_rows)
qed

lemma same_id: "distinct (map f xs) \<Longrightarrow> x \<in> set xs \<Longrightarrow> y \<in> set xs \<Longrightarrow> f x = f y \<Longrightarrow> x = y"
  by (simp add: distinct_map inj_on_def)

lemma deliverOne_ok:
  assumes ok: "webhooks_ok st" and d: "d \<in> set (wh_deliveries st)" "dv_status d = ''PENDING''"
    and s: "s \<in> set (wh_subscriptions st)" "sb_id s = dv_subscriptionId d"
  shows "webhooks_ok (deliverOne env crypto now answer (d, s) st)"
proof -
  let ?st = "deliverOne env crypto now answer (d, s) st"
  have ids: "distinct (map dv_id (wh_deliveries st))" "distinct (map sb_id (wh_subscriptions st))" using ok by (simp_all add: webhooks_ok_def)
  have dok: "delivery_ok st d" using ok d(1) by (simp add: webhooks_ok_def)
  have set_ids: "dv_id ` set (wh_deliveries ?st) = dv_id ` set (wh_deliveries st)"
    using arg_cong [OF deliverOne_fields(2) [of env crypto now answer d s st], of set] by simp
  have row: "delivery_ok ?st x \<and> dv_subscriptionId x \<in> sb_id ` set (wh_subscriptions st)" if x: "x \<in> set (wh_deliveries ?st)" for x
    using deliverOne_rows [OF x]
  proof (elim disjE conjE bexE)
    assume "dv_id x \<noteq> dv_id d" "x \<in> set (wh_deliveries st)"
    then have "delivery_ok st x" "dv_subscriptionId x \<in> sb_id ` set (wh_subscriptions st)" using ok by (simp_all add: webhooks_ok_def)
    moreover have "requests_for (dv_id x) ?st \<le> requests_for (dv_id x) st"
      using deliverOne_fields(3) [of "dv_id x" env crypto now answer d s st] \<open>dv_id x \<noteq> dv_id d\<close> by simp
    ultimately show ?thesis by (auto simp: delivery_ok_def deliverOne_fields(1))
  next
    fix y assume y: "y \<in> set (wh_deliveries st)" "dv_id y = dv_id d" "dv_subscriptionId x = dv_subscriptionId y"
      and x: "dv_id x = dv_id d" "dv_attempts x = dv_attempts d + 1"
        "dv_status x = ''PENDING'' \<longrightarrow> dv_attempts d + 1 < sb_maxRetries s"
    have "y = d" using same_id [OF ids(1) y(1) d(1) y(2)] .
    then have sub: "dv_subscriptionId x = dv_subscriptionId d" using y(3) by simp
    have "s' = s" if "s' \<in> set (wh_subscriptions st)" "sb_id s' = dv_subscriptionId d" for s'
      using same_id [OF ids(2) that(1) s(1)] that(2) s(2) by simp
    moreover have "dv_attempts d < attempts_allowed s" using dok d(2) s by (simp add: delivery_ok_def)
    moreover have "requests_for (dv_id d) ?st \<le> dv_attempts d + 1"
      using deliverOne_fields(3) [of "dv_id d" env crypto now answer d s st] dok by (simp add: delivery_ok_def)
    moreover have "dv_attempts x \<le> attempts_allowed s" "dv_status x = ''PENDING'' \<Longrightarrow> dv_attempts x < attempts_allowed s"
      using x \<open>dv_attempts d < attempts_allowed s\<close> by (simp_all add: attempts_allowed_def)
    ultimately have "delivery_ok ?st x" unfolding delivery_ok_def deliverOne_fields(1) sub x(1) using x(2) by metis
    then show ?thesis using sub s by (metis image_eqI)
  qed
  moreover have "rq_delivery ` set (wh_sent ?st) \<subseteq> dv_id ` set (wh_deliveries st)"
  proof -
    have "rq_delivery ` set (wh_sent st) \<subseteq> dv_id ` set (wh_deliveries st)" using ok by (simp add: webhooks_ok_def)
    then have "insert (dv_id d) (rq_delivery ` set (wh_sent st)) \<subseteq> dv_id ` set (wh_deliveries st)" using d(1) by simp
    then show ?thesis using deliverOne_fields(4) [of env crypto now answer d s st] by (rule order_trans [rotated])
  qed
  ultimately show ?thesis using ids set_ids by (simp add: webhooks_ok_def deliverOne_fields(1,2))
qed

lemma dispatch_ok:
  assumes "webhooks_ok st" and "distinct (map (dv_id \<circ> fst) rows)"
    and "\<forall>(d, s) \<in> set rows. d \<in> set (wh_deliveries st) \<and> dv_status d = ''PENDING'' \<and> s \<in> set (wh_subscriptions st) \<and> sb_id s = dv_subscriptionId d"
  shows "webhooks_ok (fold (\<lambda>row. deliverOne env crypto now (answers (dv_id (fst row))) row) rows st)"
  using assms
proof (induction rows arbitrary: st)
  case (Cons r rows)
  obtain d s where r: "r = (d, s)" by (cases r)
  let ?st = "deliverOne env crypto now (answers (dv_id d)) (d, s) st"
  have ok: "webhooks_ok ?st" using Cons.prems by (intro deliverOne_ok) (auto simp: r)
  have "\<forall>(d', s') \<in> set rows. d' \<in> set (wh_deliveries ?st) \<and> dv_status d' = ''PENDING'' \<and> s' \<in> set (wh_subscriptions ?st)
      \<and> sb_id s' = dv_subscriptionId d'"
  proof clarify
    fix d' s' assume m: "(d', s') \<in> set rows"
    then have "dv_id d' \<noteq> dv_id d" using Cons.prems(2) by (force simp: r)
    then show "d' \<in> set (wh_deliveries ?st) \<and> dv_status d' = ''PENDING'' \<and> s' \<in> set (wh_subscriptions ?st) \<and> sb_id s' = dv_subscriptionId d'"
      using Cons.prems(3) m deliverOne_keeps [of d' d st] by (auto simp: deliverOne_fields(1))
  qed
  then show ?case using Cons.IH [OF ok] Cons.prems(2) by (simp add: r)
qed simp

lemma filter_unique:
  assumes "distinct (map f xs)" and "x \<in> set xs" and "f x = k"
  shows "filter (\<lambda>y. f y = k) xs = [x]"
  using assms
proof (induction xs)
  case (Cons y ys)
  have "x = y \<Longrightarrow> filter (\<lambda>y. f y = k) ys = []" using Cons.prems by (auto simp: filter_empty_conv) (metis image_eqI)
  then show ?case using Cons by auto
qed simp

text \<open>Hydration finds each row once, with its subscription.\<close>

lemma hydrate_rows:
  assumes "webhooks_ok st"
  shows "distinct (map (dv_id \<circ> fst) (hydrateForDispatch ids st))"
    and "(d, s) \<in> set (hydrateForDispatch ids st) \<Longrightarrow> d \<in> set (wh_deliveries st) \<and> dv_id d \<in> set ids
      \<and> s \<in> set (wh_subscriptions st) \<and> sb_id s = dv_subscriptionId d"
proof -
  have one: "\<exists>s. filter (\<lambda>s. sb_id s = dv_subscriptionId d) (wh_subscriptions st) = [s]" if "d \<in> set (wh_deliveries st)" for d
  proof -
    have ids: "distinct (map sb_id (wh_subscriptions st))" using assms by (simp add: webhooks_ok_def)
    have "dv_subscriptionId d \<in> sb_id ` set (wh_subscriptions st)" using assms that by (simp add: webhooks_ok_def)
    then obtain s where "s \<in> set (wh_subscriptions st)" "sb_id s = dv_subscriptionId d" by (metis imageE)
    then show ?thesis using filter_unique [OF ids] by blast
  qed
  have all: "map (dv_id \<circ> fst) (concat (map (\<lambda>d. map (Pair d) (filter (\<lambda>s. sb_id s = dv_subscriptionId d) (wh_subscriptions st))) ds)) = map dv_id ds"
    if "set ds \<subseteq> set (wh_deliveries st)" for ds
    using that
  proof (induction ds)
    case (Cons d ds)
    then obtain s where "filter (\<lambda>s. sb_id s = dv_subscriptionId d) (wh_subscriptions st) = [s]" using one by auto
    then show ?case using Cons by simp
  qed simp
  have "map (dv_id \<circ> fst) (hydrateForDispatch ids st) = map dv_id (filter (\<lambda>d. dv_id d \<in> set ids) (wh_deliveries st))"
    unfolding hydrateForDispatch_def by (rule all) auto
  moreover have "distinct (map dv_id (filter (\<lambda>d. dv_id d \<in> set ids) (wh_deliveries st)))"
    by (rule distinct_map_filter) (use assms in \<open>simp add: webhooks_ok_def\<close>)
  ultimately show "distinct (map (dv_id \<circ> fst) (hydrateForDispatch ids st))" by (simp only:)
  show "(d, s) \<in> set (hydrateForDispatch ids st) \<Longrightarrow> d \<in> set (wh_deliveries st) \<and> dv_id d \<in> set ids
      \<and> s \<in> set (wh_subscriptions st) \<and> sb_id s = dv_subscriptionId d"
    by (auto simp: hydrateForDispatch_def)
qed

lemma process_ok:
  assumes "webhooks_ok st" and "\<And>d. d \<in> set (wh_deliveries st) \<Longrightarrow> dv_id d \<in> set ids \<Longrightarrow> dv_status d = ''PENDING''"
  shows "webhooks_ok (processPendingDeliveries env crypto now answers ids st)"
proof -
  have "\<forall>(d, s) \<in> set (hydrateForDispatch ids st). d \<in> set (wh_deliveries st) \<and> dv_status d = ''PENDING''
      \<and> s \<in> set (wh_subscriptions st) \<and> sb_id s = dv_subscriptionId d"
    using hydrate_rows(2) [OF assms(1), of _ _ ids] assms(2) by blast
  then have f: "webhooks_ok (fold (\<lambda>row. deliverOne env crypto now (answers (dv_id (fst row))) row) (hydrateForDispatch ids st) st)"
    by (rule dispatch_ok [OF assms(1) hydrate_rows(1) [OF assms(1)]])
  show ?thesis unfolding processPendingDeliveries_def by (split if_split) (intro conjI impI assms(1) f)
qed

lemma subscription_change:
  assumes "webhooks_ok st" and "map sb_id subs' = map sb_id (wh_subscriptions st) @ new" and "distinct (map sb_id subs')"
    and "\<And>s'. s' \<in> set subs' \<Longrightarrow> sb_id s' \<in> sb_id ` set (wh_subscriptions st) \<Longrightarrow>
      \<exists>s \<in> set (wh_subscriptions st). sb_id s = sb_id s' \<and> sb_maxRetries s = sb_maxRetries s'"
  shows "webhooks_ok (st\<lparr>wh_subscriptions := subs'\<rparr>)"
proof -
  let ?st = "st\<lparr>wh_subscriptions := subs'\<rparr>"
  have ids: "sb_id ` set (wh_subscriptions st) \<subseteq> sb_id ` set subs'"
    using arg_cong [OF assms(2), of set] by auto
  have "delivery_ok ?st d" if d: "d \<in> set (wh_deliveries st)" for d
  proof -
    have sub: "dv_subscriptionId d \<in> sb_id ` set (wh_subscriptions st)" and ok: "delivery_ok st d"
      using assms(1) d by (simp_all add: webhooks_ok_def)
    have "dv_attempts d \<le> attempts_allowed s' \<and> (dv_status d = ''PENDING'' \<longrightarrow> dv_attempts d < attempts_allowed s')"
      if s': "s' \<in> set subs'" "sb_id s' = dv_subscriptionId d" for s'
    proof -
      obtain s where "s \<in> set (wh_subscriptions st)" "sb_id s = dv_subscriptionId d" "sb_maxRetries s = sb_maxRetries s'"
        using assms(4) [OF s'(1)] sub s'(2) by auto
      then show ?thesis using ok unfolding delivery_ok_def attempts_allowed_def by metis
    qed
    then show ?thesis using ok by (simp add: delivery_ok_def requests_for_def)
  qed
  then show ?thesis using assms(1,3) ids by (auto simp: webhooks_ok_def)
qed

lemma webhook_register_ok:
  assumes "webhooks_ok st" and "i \<notin> sb_id ` set (wh_subscriptions st)"
  shows "webhooks_ok (snd (register_webhook env crypto i randomSecret now input st))"
proof -
  define row where "row = \<lparr>sb_id = i, sb_tenantId = wi_tenantId input, sb_url = wi_url input,
    sb_secretHash = wc_sha256 crypto (case wi_secret input of Some s \<Rightarrow> s | None \<Rightarrow> ''whsec_'' @ randomSecret),
    sb_events = wi_events input, sb_isActive = True, sb_maxRetries = (case wi_maxRetries input of Some n \<Rightarrow> n | None \<Rightarrow> 6),
    sb_timeoutMs = (case wi_timeoutMs input of Some n \<Rightarrow> n | None \<Rightarrow> 5000), sb_createdAt = now\<rparr>"
  have r: "snd (register_webhook env crypto i randomSecret now input st) = st
      \<or> (snd (register_webhook env crypto i randomSecret now input st) = st\<lparr>wh_subscriptions := wh_subscriptions st @ [row]\<rparr> \<and> sb_id row = i)"
    by (cases "isWebhookUrlSafe env (wi_url input)") (simp_all add: register_webhook_def Let_def row_def)
  have "webhooks_ok (st\<lparr>wh_subscriptions := wh_subscriptions st @ [row]\<rparr>)" if "sb_id row = i"
  proof (rule subscription_change [OF assms(1)])
    show "map sb_id (wh_subscriptions st @ [row]) = map sb_id (wh_subscriptions st) @ [i]" using that by simp
    show "distinct (map sb_id (wh_subscriptions st @ [row]))" using assms that by (simp add: webhooks_ok_def)
  qed (use assms(2) that in auto)
  then show ?thesis using r assms(1) by auto
qed

lemma revoke_ok: "webhooks_ok st \<Longrightarrow> webhooks_ok (snd (revoke i st))"
proof -
  assume ok: "webhooks_ok st"
  let ?subs = "map (\<lambda>s. if sb_id s = i then s\<lparr>sb_isActive := False\<rparr> else s) (wh_subscriptions st)"
  have ids: "map sb_id ?subs = map sb_id (wh_subscriptions st)" by simp
  have "webhooks_ok (st\<lparr>wh_subscriptions := ?subs\<rparr>)"
  proof (rule subscription_change [OF ok, where new = "[]"])
    show "distinct (map sb_id ?subs)" unfolding ids using ok by (simp add: webhooks_ok_def)
  qed (use ids in auto)
  then show ?thesis by (simp add: revoke_def deactivate_def)
qed

lemma publish_ok:
  assumes ok: "webhooks_ok st" and p: "publish_webhook event payload tenantId sentAt now freshId st = (ids, st')"
    and fresh: "distinct ids" "set ids \<inter> dv_id ` set (wh_deliveries st) = {}"
  shows "webhooks_ok st'" and "\<And>d. d \<in> set (wh_deliveries st') \<Longrightarrow> dv_id d \<in> set ids \<Longrightarrow> dv_status d = ''PENDING''"
proof -
  let ?subs = "findActiveForEvent event tenantId st"
  have none: "requests_for i st = 0" if "i \<notin> dv_id ` set (wh_deliveries st)" for i
    using ok that by (auto simp: webhooks_ok_def requests_for_def filter_empty_conv)
  obtain rows where st': "st' = st\<lparr>wh_deliveries := wh_deliveries st @ rows\<rparr>" and ids: "map dv_id rows = ids"
    and rows: "\<forall>d \<in> set rows. dv_status d = ''PENDING'' \<and> dv_attempts d = 0 \<and> dv_subscriptionId d \<in> sb_id ` set ?subs"
  proof (cases "?subs = []")
    case True
    then show ?thesis using p that [of "[]"] by (simp add: publish_webhook_def Let_def)
  next
    case False
    then show ?thesis using p by (intro that) (auto simp: publish_webhook_def enqueue_def Let_def comp_def)
  qed
  have sub: "set ?subs \<subseteq> set (wh_subscriptions st)" by (auto simp: findActiveForEvent_def)
  have new: "delivery_ok st' d" if "d \<in> set rows" for d
  proof -
    have "dv_id d \<notin> dv_id ` set (wh_deliveries st)" using that fresh(2) ids by (metis disjoint_iff image_eqI image_set)
    then show ?thesis using rows that none by (auto simp: delivery_ok_def requests_for_def st' attempts_allowed_def)
  qed
  have old: "delivery_ok st' d" if "d \<in> set (wh_deliveries st)" for d
    using ok that by (simp add: webhooks_ok_def delivery_ok_def requests_for_def st')
  have "distinct (map dv_id (wh_deliveries st @ rows))"
    using ok fresh ids by (auto simp: webhooks_ok_def)
  moreover have "dv_subscriptionId d \<in> sb_id ` set (wh_subscriptions st)" if "d \<in> set rows" for d using that rows sub by blast
  ultimately show "webhooks_ok st'" using ok new old by (auto simp: webhooks_ok_def st')
  show "dv_status d = ''PENDING''" if "d \<in> set (wh_deliveries st')" "dv_id d \<in> set ids" for d
    using that fresh(2) rows by (auto simp: st')
qed

lemma tick_ok:
  assumes ok: "webhooks_ok st"
  shows "webhooks_ok (webhook_tick env crypto now answers st)"
  unfolding webhook_tick_def
proof (rule process_ok [OF ok])
  fix d assume d: "d \<in> set (wh_deliveries st)" "dv_id d \<in> set (pullDue 100 now st)"
  then obtain e where e: "e \<in> set (wh_deliveries st)" "dv_status e = ''PENDING''" "dv_id e = dv_id d"
    unfolding pullDue_def by (auto dest!: in_set_takeD)
  have "distinct (map dv_id (wh_deliveries st))" using ok by (simp add: webhooks_ok_def)
  then show "dv_status d = ''PENDING''" using same_id [of dv_id "wh_deliveries st" e d] e d(1) by simp
qed

lemma step_ok: "webhook_step st st' \<Longrightarrow> webhooks_ok st \<Longrightarrow> webhooks_ok st'"
proof (induction rule: webhook_step.induct)
  case (publish event payload tenantId sentAt now freshId st ids st' env crypto answers)
  show ?case
    by (rule process_ok)
      (use publish_ok [OF \<open>webhooks_ok st\<close> publish(1-3)] in blast)+
qed (use webhook_register_ok revoke_ok tick_ok in blast)+

definition sample_crypto :: webhook_crypto where
  "sample_crypto = \<lparr>wc_sha256 = (\<lambda>s. ''h'' @ s), wc_hmac = (\<lambda>k m. k @ m)\<rparr>"

definition sample_subscription :: subscription where
  "sample_subscription = \<lparr>sb_id = ''s1'', sb_tenantId = ''acme'', sb_url = ''https://hooks.example/'', sb_secretHash = ''hx'',
     sb_events = [''rule.activated''], sb_isActive = True, sb_maxRetries = 2, sb_timeoutMs = 5000, sb_createdAt = 1\<rparr>"

definition sample_webhook :: webhook_delivery where
  "sample_webhook = \<lparr>dv_id = ''d1'', dv_subscriptionId = ''s1'', dv_event = ''rule.activated'', dv_payload = JObj [],
     dv_status = ''PENDING'', dv_attempts = 0, dv_lastResponseCode = None, dv_lastResponseBody = None,
     dv_lastAttemptedAt = None, dv_nextAttemptAt = Some 5, dv_createdAt = 5\<rparr>"



text \<open>
  A dispatch that overlaps another repeats the request and counts it once. The dispatch right
  after a publication and the worker's tick both read a pending row before either has written it;
  each sends its request, and the row then holds the attempt count of one of them, so the
  bound on requests does not survive overlap.
\<close>

theorem overlapping_dispatch_sends_twice:
  assumes "(d, s) \<in> set (hydrateForDispatch ids st)" and "distinct (map dv_id (wh_deliveries st))"
    and "isWebhookUrlSafe env (sb_url s) = UrlSafe pinned"
  shows "let st' = deliverOne env crypto t2 a2 (d, s) (deliverOne env crypto t1 a1 (d, s) st) in
    requests_for (dv_id d) st' = requests_for (dv_id d) st + 2
    \<and> (\<forall>x \<in> set (wh_deliveries st'). dv_id x = dv_id d \<longrightarrow> dv_attempts x = dv_attempts d + 1)"
proof -
  have sent: "requests_for (dv_id d) (deliverOne env crypto t a (d, s) st0) = requests_for (dv_id d) st0 + 1" for t a st0
  proof -
    obtain status rcode rbody where "attempt_outcome (isWebhookUrlSafe env (sb_url s)) a = (True, status, rcode, rbody)"
      using safe_sent assms(3) by metis
    then show ?thesis by (simp add: deliverOne_def recordAttempt_def requests_for_def Let_def)
  qed
  have "dv_attempts x = dv_attempts d + 1"
    if "x \<in> set (wh_deliveries (deliverOne env crypto t a (d, s) st0))" "dv_id x = dv_id d" for x t a st0
    using deliverOne_rows [OF that(1)] that(2) by auto
  then show ?thesis unfolding Let_def sent by simp
qed

theorem overlapping_dispatch_sends_twice_witness:
  "let st = \<lparr>wh_subscriptions = [sample_subscription], wh_deliveries = [sample_webhook], wh_sent = []\<rparr>;
       row = (sample_webhook, sample_subscription)
   in requests_for ''d1'' (deliverOne sample_platform sample_crypto 7 (Response 500 (Inr [])) row
        (deliverOne sample_platform sample_crypto 6 (Response 500 (Inr [])) row st)) = 2"
proof -
  let ?st = "\<lparr>wh_subscriptions = [sample_subscription], wh_deliveries = [sample_webhook], wh_sent = []\<rparr>"
  have h: "(sample_webhook, sample_subscription) \<in> set (hydrateForDispatch [''d1''] ?st)" "distinct (map dv_id (wh_deliveries ?st))"
    by (simp_all add: hydrateForDispatch_def sample_webhook_def sample_subscription_def)
  have "isWebhookUrlSafe sample_platform ''https://hooks.example/'' = UrlSafe (Some ''8.8.8.8'')" by code_simp
  then have "isWebhookUrlSafe sample_platform (sb_url sample_subscription) = UrlSafe (Some ''8.8.8.8'')"
    by (simp add: sample_subscription_def)
  note f = overlapping_dispatch_sends_twice [OF h this, of sample_crypto 7 "Response 500 (Inr [])" 6 "Response 500 (Inr [])"]
  have i: "dv_id sample_webhook = ''d1''" by (simp add: sample_webhook_def)
  show ?thesis using f unfolding Let_def i by (simp add: requests_for_def)
qed

text \<open>
  Revoking does not stop what is queued. After a subscription is revoked, its pending
  deliveries that are due are still sent by the next tick, signed with its secret: dispatch reads the subscription
  without its active flag.
\<close>

theorem revoked_subscription_still_receives:
  assumes "wh_deliveries st = [d]" and "wh_subscriptions st = [s]" and "sb_id s = dv_subscriptionId d"
    and "dv_status d = ''PENDING''" and "dv_nextAttemptAt d = Some t" and "t \<le> now"
    and "isWebhookUrlSafe env (sb_url s) = UrlSafe pinned"
  shows "let st' = webhook_tick env crypto now answers (snd (revoke (sb_id s) st)) in
    \<not> list_ex sb_isActive (wh_subscriptions st')
    \<and> wh_sent st' = wh_sent st @ [\<lparr>rq_url = sb_url s, rq_event = dv_event d, rq_delivery = dv_id d,
        rq_signature = signature_of crypto (sb_secretHash s) now (json_text (dv_payload d)), rq_body = json_text (dv_payload d)\<rparr>]"
proof -
  obtain status rcode rbody where a: "attempt_outcome (isWebhookUrlSafe env (sb_url s)) (answers (dv_id d)) = (True, status, rcode, rbody)"
    using safe_sent assms(7) by metis
  show ?thesis using assms(1-6) a
    by (simp add: Let_def webhook_tick_def processPendingDeliveries_def pullDue_def hydrateForDispatch_def revoke_def deactivate_def
        deliverOne_def recordAttempt_def)
qed

theorem revoked_subscription_still_receives_witness:
  "length (wh_sent (webhook_tick sample_platform sample_crypto 9 (\<lambda>_. Response 200 (Inr []))
     (snd (revoke ''s1'' \<lparr>wh_subscriptions = [sample_subscription], wh_deliveries = [sample_webhook], wh_sent = []\<rparr>)))) = 1"
proof -
  let ?st = "\<lparr>wh_subscriptions = [sample_subscription], wh_deliveries = [sample_webhook], wh_sent = []\<rparr>"
  have "isWebhookUrlSafe sample_platform ''https://hooks.example/'' = UrlSafe (Some ''8.8.8.8'')" by code_simp
  then have safe: "isWebhookUrlSafe sample_platform (sb_url sample_subscription) = UrlSafe (Some ''8.8.8.8'')"
    by (simp add: sample_subscription_def)
  have "wh_deliveries ?st = [sample_webhook]" "wh_subscriptions ?st = [sample_subscription]"
    "sb_id sample_subscription = dv_subscriptionId sample_webhook" "dv_status sample_webhook = ''PENDING''"
    "dv_nextAttemptAt sample_webhook = Some 5" "(5::int) \<le> 9"
    by (simp_all add: sample_webhook_def sample_subscription_def)
  note f = revoked_subscription_still_receives [OF this safe, of sample_crypto "\<lambda>_. Response 200 (Inr [])"]
  have i: "sb_id sample_subscription = ''s1''" by (simp add: sample_subscription_def)
  show ?thesis using f unfolding Let_def i by simp
qed

text \<open>
  The tenant scope ends at the list. A caller without the cross-tenant permission does not
  see another tenant's subscription in the list, but revokes it by its id and reads its URL and deliveries
  in the list of deliveries.
\<close>

theorem webhook_admin_crosses_tenants:
  assumes "s \<in> set (wh_subscriptions st)" and "sb_tenantId s \<noteq> au_tenantId a" and "au_tenantId a \<noteq> []"
    and "''*'' \<notin> set (au_permissions a)" and "''tenants:admin_any'' \<notin> set (au_permissions a)"
    and "wh_deliveries st = [d]" and "sb_id s = dv_subscriptionId d"
  shows "s \<notin> set (webhooks_list (Some a) requested st)
    \<and> (\<exists>r \<in> set (wh_subscriptions (snd (webhooks_revoke (Some a) (sb_id s) st))). sb_id r = sb_id s)
    \<and> (\<forall>r \<in> set (wh_subscriptions (snd (webhooks_revoke (Some a) (sb_id s) st))). sb_id r = sb_id s \<longrightarrow> \<not> sb_isActive r)
    \<and> fst (webhooks_revoke (Some a) (sb_id s) st) = 200
    \<and> (\<exists>rows. webhooks_listDeliveries (Some a) (Some ''500'') None st = Some rows \<and> (length (wh_subscriptions st) \<le> 500 \<longrightarrow> (d, s) \<in> set rows))"
proof -
  have own: "resolveTenantScope (Some a) requested = au_tenantId a"
    using assms(4,5) by (simp add: resolveTenantScope_def Let_def split: option.split)
  have hidden: "s \<notin> set (webhooks_list (Some a) requested st)"
    using assms(2,3) by (auto simp: webhooks_list_def own listAll_def)
  have "0 < length (filter (\<lambda>x. sb_id x = sb_id s) (wh_subscriptions st))"
    using assms(1) by (auto simp: filter_empty_conv length_greater_0_conv simp del: length_greater_0_conv)
  then have ok: "fst (webhooks_revoke (Some a) (sb_id s) st) = 200" by (simp add: webhooks_revoke_def revoke_def deactivate_def)
  have subs: "wh_subscriptions (snd (webhooks_revoke (Some a) (sb_id s) st)) =
      map (\<lambda>x. if sb_id x = sb_id s then x\<lparr>sb_isActive := False\<rparr> else x) (wh_subscriptions st)"
    by (simp add: webhooks_revoke_def revoke_def deactivate_def)
  note hidden ok
  moreover have "webhooks_listDeliveries (Some a) (Some ''500'') None st = Some (listRecent (Some 500) None st)"
  proof -
    have "parse_int10 ''500'' = Some 500" by code_simp
    then show ?thesis by (simp add: webhooks_listDeliveries_def)
  qed
  moreover have "(d, s) \<in> set (listRecent (Some 500) None st)" if "length (wh_subscriptions st) \<le> 500"
  proof -
    let ?rows = "map (Pair d) (filter (\<lambda>s. sb_id s = dv_subscriptionId d) (wh_subscriptions st))"
    have "length ?rows \<le> length (wh_subscriptions st)" by simp
    then have "length ?rows \<le> 500" using that by (rule order_trans)
    then have "listRecent (Some 500) None st = rev (sort_key (\<lambda>e. dv_createdAt (fst e)) ?rows)"
      using assms(6) by (simp add: listRecent_def)
    then show ?thesis using assms(1,7) by simp
  qed
  moreover have "\<exists>r \<in> set (wh_subscriptions (snd (webhooks_revoke (Some a) (sb_id s) st))). sb_id r = sb_id s"
    unfolding subs using assms(1) by (intro bexI [of _ "s\<lparr>sb_isActive := False\<rparr>"]) force+
  moreover have "\<forall>r \<in> set (wh_subscriptions (snd (webhooks_revoke (Some a) (sb_id s) st))). sb_id r = sb_id s \<longrightarrow> \<not> sb_isActive r"
    unfolding subs by auto
  ultimately show ?thesis by blast
qed

theorem webhook_admin_crosses_tenants_witness:
  "fst (webhooks_revoke (Some \<lparr>au_tenantId = ''other'', au_permissions = [''webhooks:delete'']\<rparr>) ''s1''
     \<lparr>wh_subscriptions = [sample_subscription], wh_deliveries = [sample_webhook], wh_sent = []\<rparr>) = 200"
proof -
  let ?st = "\<lparr>wh_subscriptions = [sample_subscription], wh_deliveries = [sample_webhook], wh_sent = []\<rparr>"
  let ?a = "\<lparr>au_tenantId = ''other'', au_permissions = [''webhooks:delete'']\<rparr>"
  have "sample_subscription \<in> set (wh_subscriptions ?st)" "sb_tenantId sample_subscription \<noteq> au_tenantId ?a" "au_tenantId ?a \<noteq> []"
    "''*'' \<notin> set (au_permissions ?a)" "''tenants:admin_any'' \<notin> set (au_permissions ?a)" "wh_deliveries ?st = [sample_webhook]"
    "sb_id sample_subscription = dv_subscriptionId sample_webhook"
    by (simp_all add: sample_subscription_def sample_webhook_def)
  from webhook_admin_crosses_tenants [OF this, of None]
  have "fst (webhooks_revoke (Some ?a) (sb_id sample_subscription) ?st) = 200" by blast
  moreover have "sb_id sample_subscription = ''s1''" by (simp add: sample_subscription_def)
  ultimately show ?thesis by simp
qed

end
