(* ===== verification/TtlCache.thy ===== *)
theory TtlCache
  imports Prelude
begin

text \<open>
  The contract of the two in-process caches in front of the database, grants by user and contexts
  by key hash. A lookup starts at the cache: it answers from an entry that has not expired, or it leaves to read
  the database. When the read comes back, any number of other lookups, reads and invalidations later, it
  finishes by caching what it read, to expire one period after it started. The clients' freshness is proved here once.
\<close>

locale ttl_cache =
  fixes cached :: "'c \<Rightarrow> 'k \<Rightarrow> ('v \<times> int) option"
    and start :: "int \<Rightarrow> 'k \<Rightarrow> 'c \<Rightarrow> 'v option \<times> 'c"
    and finish :: "int \<Rightarrow> 'k \<Rightarrow> 'v \<Rightarrow> 'c \<Rightarrow> 'c"
    and invalidate :: "'k option \<Rightarrow> 'c \<Rightarrow> 'c"
    and ttl :: int
  assumes hit: "fst (start t k c) = Some v \<longleftrightarrow> (\<exists>e. cached c k = Some (v, e) \<and> t < e)"
    and looked: "cached (snd (start t k c)) j = Some x \<Longrightarrow> cached c j = Some x"
    and finished: "cached (finish t k v c) j = Some x \<Longrightarrow> cached c j = Some x \<or> (j = k \<and> x = (v, t + ttl))"
    and dropped: "cached (invalidate ko c) j = Some x \<Longrightarrow> cached c j = Some x \<and> ko \<noteq> None \<and> ko \<noteq> Some j"
    and period: "0 < ttl"
begin

text \<open>After an invalidation of its key, a lookup reads the database.\<close>

lemma miss_after_invalidation: "ko = None \<or> ko = Some k \<Longrightarrow> fst (start t k (invalidate ko c)) = None"
  using hit [of t k "invalidate ko c"] dropped by (cases "fst (start t k (invalidate ko c))") blast+

end

text \<open>
  The histories of a cache: the time of the last event, the cache, and the loads in flight with their start and key.
  \<open>db t r k\<close> is what a load of \<open>k\<close> that started at \<open>t\<close> makes of the database as it is at \<open>r\<close>; a load may be
  given up when its read fails.
\<close>

inductive cache_step :: "(int \<Rightarrow> 'k \<Rightarrow> 'c \<Rightarrow> 'v option \<times> 'c) \<Rightarrow> (int \<Rightarrow> 'k \<Rightarrow> 'v \<Rightarrow> 'c \<Rightarrow> 'c) \<Rightarrow> ('k option \<Rightarrow> 'c \<Rightarrow> 'c)
    \<Rightarrow> (int \<Rightarrow> int \<Rightarrow> 'k \<Rightarrow> 'v) \<Rightarrow> int \<times> 'c \<times> (int \<times> 'k) list \<Rightarrow> int \<times> 'c \<times> (int \<times> 'k) list \<Rightarrow> bool"
  for start finish invalidate db where
  answered: "now \<le> t \<Longrightarrow> start t k c = (Some v, c') \<Longrightarrow> cache_step start finish invalidate db (now, c, ls) (t, c', ls)"
| loading: "now \<le> t \<Longrightarrow> start t k c = (None, c') \<Longrightarrow> cache_step start finish invalidate db (now, c, ls) (t, c', (t, k) # ls)"
| loaded: "now \<le> u \<Longrightarrow> (t, k) \<in> set ls \<Longrightarrow> t \<le> r \<Longrightarrow> r \<le> u \<Longrightarrow>
    cache_step start finish invalidate db (now, c, ls) (u, finish t k (db t r k) c, remove1 (t, k) ls)"
| failed: "now \<le> u \<Longrightarrow> cache_step start finish invalidate db (now, c, ls) (u, c, remove1 (t, k) ls)"
| invalidated: "now \<le> u \<Longrightarrow> cache_step start finish invalidate db (now, c, ls) (u, invalidate ko c, ls)"

definition cache_history :: "(int \<Rightarrow> 'k \<Rightarrow> 'c \<Rightarrow> 'v option \<times> 'c) \<Rightarrow> (int \<Rightarrow> 'k \<Rightarrow> 'v \<Rightarrow> 'c \<Rightarrow> 'c) \<Rightarrow> ('k option \<Rightarrow> 'c \<Rightarrow> 'c)
    \<Rightarrow> (int \<Rightarrow> int \<Rightarrow> 'k \<Rightarrow> 'v) \<Rightarrow> 'c \<Rightarrow> int \<Rightarrow> 'c \<Rightarrow> bool" where
  "cache_history start finish invalidate db c0 now c =
     (\<exists>t0 ls. (cache_step start finish invalidate db)\<^sup>*\<^sup>* (t0, c0, []) (now, c, ls))"

lemma cache_history_refl: "cache_history start finish invalidate db c0 now c0"
  unfolding cache_history_def by blast

context ttl_cache
begin

text \<open>Every entry was read at the earliest when its load started, one period before it expires.\<close>

lemma step_honest:
  assumes "cache_step start finish invalidate db (now0, c0, ls0) (now, c, ls)" and "cached c j = Some (v, e)"
    and "\<And>v e. cached c0 j = Some (v, e) \<Longrightarrow> \<exists>t r. e = t + ttl \<and> t \<le> r \<and> r \<le> now0 \<and> v = db t r j"
  shows "\<exists>t r. e = t + ttl \<and> t \<le> r \<and> r \<le> now \<and> v = db t r j"
proof -
  have old: "\<exists>t r. e = t + ttl \<and> t \<le> r \<and> r \<le> now \<and> v = db t r j" if "cached c0 j = Some (v, e)" "now0 \<le> now"
    using assms(3) [OF that(1)] that(2) by force
  from assms(1) show ?thesis
  proof cases
    case (answered k v')
    then show ?thesis using old looked [of now k c0 j "(v, e)"] assms(2) by simp
  next
    case (loading k)
    then show ?thesis using old looked [of now k c0 j "(v, e)"] assms(2) by simp
  next
    case (loaded t k r)
    then have "cached c0 j = Some (v, e) \<or> (j = k \<and> (v, e) = (db t r k, t + ttl))"
      using finished [of t k "db t r k" c0 j "(v, e)"] assms(2) by simp
    then show ?thesis using old loaded by blast
  next
    case (failed t k)
    then show ?thesis using old assms(2) by simp
  next
    case (invalidated ko)
    then show ?thesis using old dropped [of ko c0 j "(v, e)"] assms(2) by simp
  qed
qed

lemma history_honest:
  assumes "(cache_step start finish invalidate db)\<^sup>*\<^sup>* (t0, c0, []) s" and "\<And>j. cached c0 j = None"
  shows "cached (fst (snd s)) j = Some (v, e) \<Longrightarrow> \<exists>t r. e = t + ttl \<and> t \<le> r \<and> r \<le> fst s \<and> v = db t r j"
  using assms(1)
proof (induction arbitrary: v e rule: rtranclp_induct)
  case base
  then show ?case using assms(2) by simp
next
  case (step y z)
  obtain now0 c1 ls0 now c ls where yz: "y = (now0, c1, ls0)" "z = (now, c, ls)" by (metis prod_cases3)
  show ?case using step_honest [OF step.hyps(2) [unfolded yz]] step.prems step.IH yz by simp
qed

text \<open>After any history, an answer is what the database held less than one period ago.\<close>

lemma answer_recent:
  assumes "cache_history start finish invalidate db c0 now0 c" and "\<And>j. cached c0 j = None" and "now0 \<le> now"
    and "fst (start now k c) = Some v"
  shows "\<exists>t r. now - ttl < t \<and> t \<le> r \<and> r \<le> now \<and> v = db t r k"
proof -
  obtain e where e: "cached c k = Some (v, e)" "now < e" using hit assms(4) by blast
  obtain t0 ls where h: "(cache_step start finish invalidate db)\<^sup>*\<^sup>* (t0, c0, []) (now0, c, ls)"
    using assms(1) unfolding cache_history_def by blast
  obtain t r where "e = t + ttl" "t \<le> r" "r \<le> now0" "v = db t r k"
    using history_honest [OF h assms(2), of k v e] e(1) by auto
  then show ?thesis using e(2) assms(3) by (intro exI [of _ t] exI [of _ r]) simp
qed

end

end
