(* ===== verification/Authorization.thy ===== *)
theory Authorization
  imports TtlCache Webhooks
begin

text \<open>
  \<open>src/shared/authz\<close>: the permission catalogue, the password policy, login and tokens with live grants,
  users and roles, their repositories, and the two request guards. Bcrypt, the
  JWT library and SHA-256 are arguments; a token's payload is the fields the library returns. Tables are lists; deleting a user or a role
  deletes its assignments (the foreign keys cascade). Logs are not modelled.
\<close>

section \<open>Permissions\<close>

definition PERMISSIONS :: "string list" where
  "PERMISSIONS =
     [''users:read'', ''users:create'', ''users:update'', ''users:delete'',
      ''roles:read'', ''roles:create'', ''roles:update'', ''roles:delete'',
      ''api_keys:read'', ''api_keys:issue'', ''api_keys:revoke'',
      ''webhooks:read'', ''webhooks:create'', ''webhooks:delete'',
      ''rules:read'', ''rules:create'', ''rules:update'', ''rules:delete'',
      ''models:read'', ''models:register'', ''models:set_status'', ''models:set_threshold'', ''models:delete'',
      ''audit:read'', ''review_queue:read'', ''review_queue:override'',
      ''reports:read'', ''reports:request'', ''reports:message'', ''metrics:read'',
      ''saved_reports:read'', ''saved_reports:write'', ''saved_reports:export'',
      ''settings:read'', ''settings:write'', ''mla:configure'',
      ''training:read'', ''training:write'', ''labels:write'', ''tenants:admin_any'']"

definition ALL_PERMISSIONS :: string where "ALL_PERMISSIONS = ''*''"

section \<open>Password policy\<close>

definition MIN_LENGTH :: nat where "MIN_LENGTH = 12"
definition MIN_SCORE :: nat where "MIN_SCORE = 3"

definition COMMON :: "string list" where
  "COMMON = [''password'', ''password1'', ''password123'', ''qwerty'', ''qwerty123'', ''letmein'', ''welcome'', ''welcome1'',
     ''admin'', ''admin123'', ''administrator'', ''root'', ''changeme'', ''iloveyou'', ''monkey'', ''dragon'',
     ''sentinel'', ''sentinel1'', ''fraudit'', ''admin@fraudit'']"

record password_checks =
  pk_length :: bool
  pk_upper :: bool
  pk_lower :: bool
  pk_digit :: bool
  pk_symbol :: bool
  pk_notUsername :: bool
  pk_notCommon :: bool

definition is_upper :: "char \<Rightarrow> bool" where "is_upper c = (65 \<le> code c \<and> code c \<le> 90)"
definition is_lower :: "char \<Rightarrow> bool" where "is_lower c = (97 \<le> code c \<and> code c \<le> 122)"

definition password_checks_of :: "string \<Rightarrow> string option \<Rightarrow> password_checks" where
  "password_checks_of pw name =
     (let username = to_lower (case name of Some u \<Rightarrow> u | None \<Rightarrow> []); lc = to_lower pw in
      \<lparr>pk_length = (MIN_LENGTH \<le> length pw),
       pk_upper = list_ex is_upper pw,
       pk_lower = list_ex is_lower pw,
       pk_digit = list_ex is_digit pw,
       pk_symbol = list_ex (\<lambda>c. \<not> (is_upper c \<or> is_lower c \<or> is_digit c)) pw,
       pk_notUsername = (if username \<noteq> [] then \<not> str_includes lc username \<and> 0 < length username else True),
       pk_notCommon = (lc \<notin> set COMMON \<and> \<not> list_ex (\<lambda>c. 4 < length c \<and> str_includes lc c) COMMON)\<rparr>)"

definition password_score :: "string \<Rightarrow> password_checks \<Rightarrow> int" where
  "password_score pw k =
     (if \<not> pk_length k then 0
      else
        let s = (if pk_upper k then 1 else 0) + (if pk_lower k then 1 else 0) + (if pk_digit k then 1 else 0) + (if pk_symbol k then 1 else 0);
            s1 = (if 16 \<le> length pw then min 4 (s + 1) else s);
            s2 = (if \<not> pk_notCommon k \<or> \<not> pk_notUsername k then max 0 (s1 - 2) else s1)
        in max 0 (min 4 s2))"

definition password_issues :: "string \<Rightarrow> string option \<Rightarrow> password_checks \<Rightarrow> string list" where
  "password_issues pw current k =
     (if \<not> pk_length k then [''Use at least 12 characters''] else [])
     @ (if \<not> pk_upper k then [''Include an uppercase letter''] else [])
     @ (if \<not> pk_lower k then [''Include a lowercase letter''] else [])
     @ (if \<not> pk_digit k then [''Include a digit''] else [])
     @ (if \<not> pk_symbol k then [''Include a symbol''] else [])
     @ (if \<not> pk_notUsername k then [''Don't include your username''] else [])
     @ (if \<not> pk_notCommon k then [''Avoid common or breached passwords''] else [])
     @ (case current of Some c \<Rightarrow> if c \<noteq> [] \<and> c = pw then [''Differ from your current password''] else [] | None \<Rightarrow> [])"

definition evaluatePassword :: "string \<Rightarrow> string option \<Rightarrow> string option \<Rightarrow> bool \<times> int \<times> string list \<times> password_checks" where
  "evaluatePassword pw name current =
     (let k = password_checks_of pw name; issues = password_issues pw current k; score = password_score pw k in
      (issues = [] \<and> int MIN_SCORE \<le> score
         \<and> pk_length k \<and> pk_upper k \<and> pk_lower k \<and> pk_digit k \<and> pk_symbol k \<and> pk_notUsername k \<and> pk_notCommon k,
       score, issues, k))"

section \<open>Users, roles and assignments\<close>

record user_row =
  us_id :: string
  us_tenantId :: string
  us_username :: string
  us_passwordHash :: string
  us_fullName :: "string option"
  us_email :: "string option"
  us_isActive :: bool
  us_disabledReason :: "string option"
  us_mustChangePassword :: bool
  us_createdAt :: int

record role_row =
  rr_id :: string
  rr_tenantId :: string
  rr_name :: string
  rr_description :: "string option"
  rr_permissions :: "string list"
  rr_isSystem :: bool

record auth_db =
  ad_users :: "user_row list"
  ad_roles :: "role_row list"
  ad_userRoles :: "(string \<times> string) list"

definition findByUsername :: "string \<Rightarrow> string \<Rightarrow> auth_db \<Rightarrow> user_row option" where
  "findByUsername tenantId name db = find (\<lambda>u. us_tenantId u = tenantId \<and> us_username u = name) (ad_users db)"

definition user_findById :: "string \<Rightarrow> auth_db \<Rightarrow> user_row option" where
  "user_findById i db = find (\<lambda>u. us_id u = i) (ad_users db)"

definition role_findById :: "string \<Rightarrow> auth_db \<Rightarrow> role_row option" where
  "role_findById i db = find (\<lambda>r. rr_id r = i) (ad_roles db)"

definition role_findByName :: "string \<Rightarrow> string \<Rightarrow> auth_db \<Rightarrow> role_row option" where
  "role_findByName tenantId name db = find (\<lambda>r. rr_tenantId r = tenantId \<and> rr_name r = name) (ad_roles db)"

definition roles_of :: "string \<Rightarrow> auth_db \<Rightarrow> role_row list" where
  "roles_of i db = concat (map (\<lambda>(u, r). filter (\<lambda>x. rr_id x = r) (ad_roles db)) (filter (\<lambda>(u, r). u = i) (ad_userRoles db)))"

definition findByIdWithRoles :: "string \<Rightarrow> auth_db \<Rightarrow> (user_row \<times> role_row list) option" where
  "findByIdWithRoles i db = map_option (\<lambda>u. (u, roles_of i db)) (user_findById i db)"

definition user_updateById :: "string \<Rightarrow> (user_row \<Rightarrow> user_row) \<Rightarrow> auth_db \<Rightarrow> auth_db" where
  "user_updateById i f db = db\<lparr>ad_users := map (\<lambda>u. if us_id u = i then f u else u) (ad_users db)\<rparr>"

definition user_deleteById :: "string \<Rightarrow> auth_db \<Rightarrow> auth_db" where
  "user_deleteById i db = db\<lparr>ad_users := filter (\<lambda>u. us_id u \<noteq> i) (ad_users db),
     ad_userRoles := filter (\<lambda>(u, r). u \<noteq> i) (ad_userRoles db)\<rparr>"

text \<open>A repeated assignment is ignored.\<close>

definition repo_assignRole :: "string \<Rightarrow> string \<Rightarrow> auth_db \<Rightarrow> auth_db" where
  "repo_assignRole u r db = (if (u, r) \<in> set (ad_userRoles db) then db else db\<lparr>ad_userRoles := ad_userRoles db @ [(u, r)]\<rparr>)"

definition repo_unassignRole :: "string \<Rightarrow> string \<Rightarrow> auth_db \<Rightarrow> auth_db" where
  "repo_unassignRole u r db = db\<lparr>ad_userRoles := filter (\<lambda>e. e \<noteq> (u, r)) (ad_userRoles db)\<rparr>"

definition role_deleteById :: "string \<Rightarrow> auth_db \<Rightarrow> auth_db" where
  "role_deleteById i db = db\<lparr>ad_roles := filter (\<lambda>r. rr_id r \<noteq> i) (ad_roles db),
     ad_userRoles := filter (\<lambda>(u, r). r \<noteq> i) (ad_userRoles db)\<rparr>"

definition mergePermissions :: "role_row list \<Rightarrow> string list" where
  "mergePermissions roles = js_set (concat (map rr_permissions roles))"

section \<open>Live grants\<close>

record live_grants =
  lg_permissions :: "string list"
  lg_mustChangePassword :: bool

type_synonym grants_cache = "(string, live_grants option \<times> int) omap"

definition GRANTS_CACHE_TTL_MS :: int where "GRANTS_CACHE_TTL_MS = 30000"
definition GRANTS_CACHE_CAP :: nat where "GRANTS_CACHE_CAP = 10000"

definition grants_of :: "auth_db \<Rightarrow> string \<Rightarrow> live_grants option" where
  "grants_of db i =
     (case findByIdWithRoles i db of
        Some (u, roles) \<Rightarrow>
          if us_isActive u then Some \<lparr>lg_permissions = mergePermissions roles, lg_mustChangePassword = us_mustChangePassword u\<rparr> else None
      | None \<Rightarrow> None)"

text \<open>Room for one more entry: at the cap the oldest key goes, unless it is the empty string.\<close>

definition evict_oldest :: "nat \<Rightarrow> (string, 'v) omap \<Rightarrow> (string, 'v) omap" where
  "evict_oldest cap c =
     (if cap \<le> length c then (case c of (k, _) # _ \<Rightarrow> if k \<noteq> [] then om_delete k c else c | [] \<Rightarrow> c) else c)"

text \<open>
  \<open>loadLiveGrants\<close> up to its await, what it does when the read comes back, and the whole of it when nothing
  else touches the cache in between. \<open>now\<close> is the clock at its start; the cached entry expires from there.
\<close>

definition grants_start :: "int \<Rightarrow> string \<Rightarrow> grants_cache \<Rightarrow> live_grants option option \<times> grants_cache" where
  "grants_start now i c =
     (case om_get c i of
        Some (g, expires) \<Rightarrow> if now < expires then (Some g, c) else (None, om_delete i c)
      | None \<Rightarrow> (None, c))"

definition grants_finish :: "int \<Rightarrow> string \<Rightarrow> live_grants option \<Rightarrow> grants_cache \<Rightarrow> grants_cache" where
  "grants_finish now i g c = om_set i (g, now + GRANTS_CACHE_TTL_MS) (evict_oldest GRANTS_CACHE_CAP c)"

definition loadLiveGrants :: "int \<Rightarrow> (string \<Rightarrow> live_grants option) \<Rightarrow> string \<Rightarrow> grants_cache \<Rightarrow> live_grants option \<times> grants_cache" where
  "loadLiveGrants now read i c =
     (case grants_start now i c of (Some g, c') \<Rightarrow> (g, c') | (None, c') \<Rightarrow> (read i, grants_finish now i (read i) c'))"

text \<open>An empty user id drops everything, as no id does.\<close>

definition invalidateGrants :: "string option \<Rightarrow> grants_cache \<Rightarrow> grants_cache" where
  "invalidateGrants i c = (case i of Some u \<Rightarrow> if u \<noteq> [] then om_delete u c else [] | None \<Rightarrow> [])"

section \<open>Tokens and guards\<close>

record subject =
  su_userId :: string
  su_tenantId :: string
  su_username :: string
  su_permissions :: "string list"
  su_mustChangePassword :: bool

text \<open>
  \<open>au_sign\<close> signs a payload at a time with a lifetime in seconds; \<open>au_decode\<close> verifies signature, expiry,
  issuer and audience and returns the payload; \<open>au_compare\<close> compares a password with a hash, \<open>au_hash\<close> makes one with a
  salt; \<open>au_dummyHash\<close> is the hash compared for an unknown user. \<open>au_ttlSeconds\<close>, \<open>au_serviceToken\<close> and
  \<open>au_jwtSecret\<close> are the environment's values.
\<close>

record auth_env =
  au_sign :: "int \<Rightarrow> int \<Rightarrow> (string \<times> jval) list \<Rightarrow> string"
  au_decode :: "int \<Rightarrow> string \<Rightarrow> (string \<times> jval) list option"
  au_sha256 :: "string \<Rightarrow> string"
  au_compare :: "string \<Rightarrow> string \<Rightarrow> bool"
  au_hash :: "string \<Rightarrow> string \<Rightarrow> string"
  au_dummyHash :: string
  au_ttlSeconds :: "string option"
  au_serviceToken :: "string option"
  au_jwtSecret :: "string option"

definition jwt_secret_ok :: "auth_env \<Rightarrow> bool" where
  "jwt_secret_ok env = (case au_jwtSecret env of Some s \<Rightarrow> 16 \<le> length s | None \<Rightarrow> False)"

definition verifyServiceToken :: "auth_env \<Rightarrow> string \<Rightarrow> subject option" where
  "verifyServiceToken env token =
     (case au_serviceToken env of
        None \<Rightarrow> None
      | Some expected \<Rightarrow>
          if length expected < 32 then None
          else if au_sha256 env token \<noteq> au_sha256 env expected then None
          else Some \<lparr>su_userId = ''service:mla'', su_tenantId = ''default'', su_username = ''mla-service'',
                 su_permissions = [''models:read'', ''models:register'', ''models:set_status''], su_mustChangePassword = False\<rparr>)"

text \<open>Array elements that are no strings never match a permission and are left out.\<close>

definition verifyToken :: "auth_env \<Rightarrow> int \<Rightarrow> string \<Rightarrow> subject option" where
  "verifyToken env now token =
     (if \<not> jwt_secret_ok env then None
      else case au_decode env now token of
        None \<Rightarrow> None
      | Some d \<Rightarrow>
          (case (field d ''userId'', field d ''username'', field d ''tenantId'', field d ''permissions'') of
             (JStr u, JStr n, JStr t, JArr ps) \<Rightarrow>
               Some \<lparr>su_userId = u, su_tenantId = t, su_username = n,
                 su_permissions = concat (map (\<lambda>p. case p of JStr s \<Rightarrow> [s] | _ \<Rightarrow> []) ps),
                 su_mustChangePassword = (case field d ''mustChangePassword'' of JBool b \<Rightarrow> b | _ \<Rightarrow> False)\<rparr>
           | _ \<Rightarrow> None))"

definition verifyTokenLive ::
    "auth_env \<Rightarrow> int \<Rightarrow> (string \<Rightarrow> live_grants option) \<Rightarrow> string \<Rightarrow> grants_cache \<Rightarrow> subject option \<times> grants_cache" where
  "verifyTokenLive env now read token c =
     (case verifyToken env now token of
        None \<Rightarrow> (None, c)
      | Some claims \<Rightarrow>
          (let (g, c') = loadLiveGrants now read (su_userId claims) c
           in (map_option (\<lambda>g. claims\<lparr>su_permissions := lg_permissions g, su_mustChangePassword := lg_mustChangePassword g\<rparr>) g, c')))"

definition hasPermission :: "subject \<Rightarrow> string list \<Rightarrow> bool" where
  "hasPermission s required =
     (ALL_PERMISSIONS \<in> set (su_permissions s) \<or> required = [] \<or> list_ex (\<lambda>p. p \<in> set (su_permissions s)) required)"

text \<open>\<open>/^Bearer (\S+)$/i\<close>\<close>

definition extractBearer :: "string option \<Rightarrow> string option" where
  "extractBearer header =
     (case header of
        None \<Rightarrow> None
      | Some h \<Rightarrow>
          if to_lower (take 7 h) = ''bearer '' \<and> drop 7 h \<noteq> [] \<and> list_all (\<lambda>c. \<not> is_ws c) (drop 7 h) then Some (drop 7 h) else None)"

datatype auth_outcome = AuthRequired | AuthInvalid | AuthForbidden | AuthOk subject

definition requireAuth ::
    "auth_env \<Rightarrow> int \<Rightarrow> (string \<Rightarrow> live_grants option) \<Rightarrow> string list \<Rightarrow> string option \<Rightarrow> grants_cache \<Rightarrow> auth_outcome \<times> grants_cache" where
  "requireAuth env now read required header c =
     (case extractBearer header of
        None \<Rightarrow> (AuthRequired, c)
      | Some token \<Rightarrow>
          (let (s, c') = (case verifyServiceToken env token of Some s \<Rightarrow> (Some s, c) | None \<Rightarrow> verifyTokenLive env now read token c)
           in case s of
                None \<Rightarrow> (AuthInvalid, c')
              | Some s \<Rightarrow> (if hasPermission s required then AuthOk s else AuthForbidden, c')))"

text \<open>Whether the request is stopped with 423.\<close>

definition denyIfPasswordRotation ::
    "auth_env \<Rightarrow> int \<Rightarrow> (string \<Rightarrow> live_grants option) \<Rightarrow> string option \<Rightarrow> grants_cache \<Rightarrow> bool \<times> grants_cache" where
  "denyIfPasswordRotation env now read header c =
     (case extractBearer header of
        None \<Rightarrow> (False, c)
      | Some token \<Rightarrow>
          (let (s, c') = verifyTokenLive env now read token c
           in (case s of None \<Rightarrow> False | Some s \<Rightarrow> su_mustChangePassword s, c')))"

section \<open>Login and change of password\<close>

datatype login_error = InvalidCredentials | AuthConfig | WeakPassword string

definition DEFAULT_TTL_SECONDS :: int where "DEFAULT_TTL_SECONDS = 60 * 60 * 8"

definition token_lifetime :: "auth_env \<Rightarrow> int" where
  "token_lifetime env =
     (case parse_int10 (case au_ttlSeconds env of Some s \<Rightarrow> s | None \<Rightarrow> []) of
        Some ttl \<Rightarrow> if 0 < ttl then ttl else DEFAULT_TTL_SECONDS
      | None \<Rightarrow> DEFAULT_TTL_SECONDS)"

definition subject_payload :: "subject \<Rightarrow> (string \<times> jval) list" where
  "subject_payload s =
     [(''userId'', JStr (su_userId s)), (''tenantId'', JStr (su_tenantId s)), (''username'', JStr (su_username s)),
      (''permissions'', JArr (map JStr (su_permissions s))), (''mustChangePassword'', JBool (su_mustChangePassword s))]"

definition mintToken :: "auth_env \<Rightarrow> int \<Rightarrow> subject \<Rightarrow> (login_error, string) result" where
  "mintToken env now s = (if jwt_secret_ok env then Inr (au_sign env now (token_lifetime env) (subject_payload s)) else Inl AuthConfig)"

definition subject_of :: "user_row \<Rightarrow> role_row list \<Rightarrow> bool \<Rightarrow> subject" where
  "subject_of u roles must =
     \<lparr>su_userId = us_id u, su_tenantId = us_tenantId u, su_username = us_username u,
      su_permissions = mergePermissions roles, su_mustChangePassword = must\<rparr>"

text \<open>Token and subject of a login, and the grants cache after it.\<close>

definition login ::
    "auth_env \<Rightarrow> int \<Rightarrow> auth_db \<Rightarrow> string option \<Rightarrow> string \<Rightarrow> string \<Rightarrow> grants_cache
      \<Rightarrow> (login_error, string \<times> subject) result \<times> grants_cache" where
  "login env now db tenant name pw c =
     (let user = findByUsername (case tenant of Some t \<Rightarrow> t | None \<Rightarrow> ''default'') name db;
          passwordOk = au_compare env pw (case user of Some u \<Rightarrow> us_passwordHash u | None \<Rightarrow> au_dummyHash env)
      in case user of
           None \<Rightarrow> (Inl InvalidCredentials, c)
         | Some u \<Rightarrow>
             if \<not> us_isActive u \<or> \<not> passwordOk then (Inl InvalidCredentials, c)
             else (case findByIdWithRoles (us_id u) db of
                     None \<Rightarrow> (Inl InvalidCredentials, c)
                   | Some (d, roles) \<Rightarrow>
                       (let s = subject_of d roles (us_mustChangePassword u)
                        in (map_r (\<lambda>tok. (tok, s)) (mintToken env now s), invalidateGrants (Some (us_id d)) c))))"

definition changePassword ::
    "auth_env \<Rightarrow> int \<Rightarrow> string \<Rightarrow> string \<Rightarrow> string \<Rightarrow> string \<Rightarrow> auth_db \<times> grants_cache
      \<Rightarrow> (login_error, string) result \<times> auth_db \<times> grants_cache" where
  "changePassword env now salt userId current new st =
     (let (db, c) = st in
      case user_findById userId db of
        None \<Rightarrow> (Inl InvalidCredentials, st)
      | Some u \<Rightarrow>
          if \<not> au_compare env current (us_passwordHash u) then (Inl InvalidCredentials, st)
          else
            (let (ok, _, issues, _) = evaluatePassword new (Some (us_username u)) (Some current) in
             if \<not> ok then (Inl (WeakPassword (case issues of i # _ \<Rightarrow> i | [] \<Rightarrow> ''Password does not meet the strength policy'')), st)
             else
               (let db' = user_updateById userId (\<lambda>u. u\<lparr>us_passwordHash := au_hash env salt new, us_mustChangePassword := False\<rparr>) db;
                    c' = invalidateGrants (Some userId) c
                in case findByIdWithRoles userId db' of
                     None \<Rightarrow> (Inl InvalidCredentials, db', c')
                   | Some (d, roles) \<Rightarrow> (mintToken env now (subject_of d roles False), db', c'))))"

text \<open>Sign-in options: the demo account when it exists and is active, for a minute from the cache.\<close>

definition SIGN_IN_OPTIONS_CACHE_TTL_MS :: int where "SIGN_IN_OPTIONS_CACHE_TTL_MS = 60000"
definition DEMO_USERNAME :: string where "DEMO_USERNAME = ''demo''"

definition signInOptions ::
    "int \<Rightarrow> string option \<Rightarrow> auth_db \<Rightarrow> ((string \<times> string option) option \<times> int) option
      \<Rightarrow> (string \<times> string option) option \<times> ((string \<times> string option) option \<times> int) option" where
  "signInOptions now credentialsUrl db cache =
     (let fresh = (case findByUsername ''default'' DEMO_USERNAME db of
            Some u \<Rightarrow> if us_isActive u then Some (DEMO_USERNAME, credentialsUrl) else None
          | None \<Rightarrow> None)
      in case cache of
           Some (options, expires) \<Rightarrow>
             if now < expires then (options, cache) else (fresh, Some (fresh, now + SIGN_IN_OPTIONS_CACHE_TTL_MS))
         | None \<Rightarrow> (fresh, Some (fresh, now + SIGN_IN_OPTIONS_CACHE_TTL_MS)))"

section \<open>The password policy\<close>

text \<open>
  A password is accepted exactly when every check holds and it is not the current one. The
  score never decides: with all checks true it is four, whatever the length above the minimum.
\<close>

theorem password_policy_exact:
  "fst (evaluatePassword pw name current) \<longleftrightarrow>
     12 \<le> length pw \<and> (\<exists>c \<in> set pw. is_upper c) \<and> (\<exists>c \<in> set pw. is_lower c) \<and> (\<exists>c \<in> set pw. is_digit c)
     \<and> (\<exists>c \<in> set pw. \<not> (is_upper c \<or> is_lower c \<or> is_digit c))
     \<and> \<not> (\<exists>u. name = Some u \<and> u \<noteq> [] \<and> str_includes (to_lower pw) (to_lower u))
     \<and> to_lower pw \<notin> set COMMON \<and> \<not> (\<exists>c \<in> set COMMON. 4 < length c \<and> str_includes (to_lower pw) c)
     \<and> \<not> (current = Some pw)"
proof -
  let ?k = "password_checks_of pw name"
  let ?all = "pk_length ?k \<and> pk_upper ?k \<and> pk_lower ?k \<and> pk_digit ?k \<and> pk_symbol ?k \<and> pk_notUsername ?k \<and> pk_notCommon ?k"
  have issues: "password_issues pw current ?k = [] \<longleftrightarrow> ?all \<and> \<not> (\<exists>c. current = Some c \<and> c \<noteq> [] \<and> c = pw)"
    by (auto simp: password_issues_def split: option.split)
  have score: "?all \<Longrightarrow> password_score pw ?k = 4" by (simp add: password_score_def Let_def)
  have nonempty: "?all \<Longrightarrow> pw \<noteq> []" by (auto simp: password_checks_of_def MIN_LENGTH_def Let_def)
  have accepted: "fst (evaluatePassword pw name current) \<longleftrightarrow> ?all \<and> \<not> (current = Some pw)"
    unfolding evaluatePassword_def Let_def fst_conv issues using score nonempty by (auto simp: MIN_SCORE_def)
  have user: "pk_notUsername ?k \<longleftrightarrow> \<not> (\<exists>u. name = Some u \<and> u \<noteq> [] \<and> str_includes (to_lower pw) (to_lower u))"
    by (auto simp: password_checks_of_def Let_def to_lower_def split: option.split)
  have common: "pk_notCommon ?k \<longleftrightarrow> to_lower pw \<notin> set COMMON \<and> \<not> (\<exists>c \<in> set COMMON. 4 < length c \<and> str_includes (to_lower pw) c)"
    by (simp add: password_checks_of_def Let_def list_ex_iff)
  have rest: "pk_length ?k \<longleftrightarrow> 12 \<le> length pw" "pk_upper ?k \<longleftrightarrow> (\<exists>c \<in> set pw. is_upper c)" "pk_lower ?k \<longleftrightarrow> (\<exists>c \<in> set pw. is_lower c)"
    "pk_digit ?k \<longleftrightarrow> (\<exists>c \<in> set pw. is_digit c)" "pk_symbol ?k \<longleftrightarrow> (\<exists>c \<in> set pw. \<not> (is_upper c \<or> is_lower c \<or> is_digit c))"
    by (simp_all add: password_checks_of_def Let_def list_ex_iff MIN_LENGTH_def)
  show ?thesis unfolding accepted user common rest by blast
qed

section \<open>Grants are live\<close>

lemma evict_get: "om_get (evict_oldest cap c) j = Some x \<Longrightarrow> om_get c j = Some x"
  by (auto simp: evict_oldest_def split: if_splits list.splits)

interpretation grants: ttl_cache om_get grants_start grants_finish invalidateGrants GRANTS_CACHE_TTL_MS
proof
  fix c :: grants_cache and k v and t :: int
  show "fst (grants_start t k c) = Some v \<longleftrightarrow> (\<exists>e. om_get c k = Some (v, e) \<and> t < e)"
    by (auto simp: grants_start_def split: option.split)
next
  fix c :: grants_cache and k j x and t :: int
  show "om_get (snd (grants_start t k c)) j = Some x \<Longrightarrow> om_get c j = Some x"
    by (auto simp: grants_start_def split: option.splits if_splits)
next
  fix c :: grants_cache and k v j x and t :: int
  show "om_get (grants_finish t k v c) j = Some x \<Longrightarrow> om_get c j = Some x \<or> (j = k \<and> x = (v, t + GRANTS_CACHE_TTL_MS))"
    by (auto simp: grants_finish_def split: if_splits dest!: evict_get)
next
  fix ko j and c :: grants_cache and x
  show "om_get (invalidateGrants ko c) j = Some x \<Longrightarrow> om_get c j = Some x \<and> ko \<noteq> None \<and> ko \<noteq> Some j"
    by (auto simp: invalidateGrants_def split: option.splits if_splits)
qed (simp add: GRANTS_CACHE_TTL_MS_def)

lemma load_answer: "fst (loadLiveGrants now read i c) = (case fst (grants_start now i c) of Some g \<Rightarrow> g | None \<Rightarrow> read i)"
  by (simp add: loadLiveGrants_def split_beta split: option.split)

lemma load_keeps:
  "om_get (snd (loadLiveGrants now read i c)) j = Some x \<Longrightarrow> om_get c j = Some x \<or> (j = i \<and> x = (read i, now + GRANTS_CACHE_TTL_MS))"
  using grants.looked [of now i c j x] grants.finished [of now i "read i" "snd (grants_start now i c)" j x]
  by (auto simp: loadLiveGrants_def split_beta split: option.splits)

lemma load_after_invalidation: "ko = None \<or> ko = Some i \<Longrightarrow> fst (loadLiveGrants now read i (invalidateGrants ko c)) = read i"
  by (simp only: load_answer grants.miss_after_invalidation option.case)

text \<open>The caches that histories lead to, with any loads in flight, over a database whose content over time is \<open>db\<close>.\<close>

definition grants_history :: "(int \<Rightarrow> auth_db) \<Rightarrow> int \<Rightarrow> grants_cache \<Rightarrow> bool" where
  "grants_history db now c = cache_history grants_start grants_finish invalidateGrants (\<lambda>t r. grants_of (db r)) [] now c"

lemma grants_of_Some:
  "grants_of db i = Some g \<Longrightarrow> \<exists>u roles. findByIdWithRoles i db = Some (u, roles) \<and> us_isActive u
      \<and> lg_permissions g = mergePermissions roles \<and> lg_mustChangePassword g = us_mustChangePassword u"
  by (auto simp: grants_of_def split: option.splits if_splits)

text \<open>The outcomes of the guards, without the cache they leave.\<close>

lemma fst_verify:
  "fst (verifyTokenLive env now read tok c) = (case verifyToken env now tok of
     None \<Rightarrow> None
   | Some claims \<Rightarrow> map_option (\<lambda>g. claims\<lparr>su_permissions := lg_permissions g, su_mustChangePassword := lg_mustChangePassword g\<rparr>)
       (fst (loadLiveGrants now read (su_userId claims) c)))"
proof (cases "verifyToken env now tok")
  case (Some claims)
  then show ?thesis by (cases "loadLiveGrants now read (su_userId claims) c") (simp add: verifyTokenLive_def)
qed (simp add: verifyTokenLive_def)

lemma fst_deny:
  "fst (denyIfPasswordRotation env now read header c) = (case extractBearer header of
     None \<Rightarrow> False
   | Some tok \<Rightarrow> (case fst (verifyTokenLive env now read tok c) of None \<Rightarrow> False | Some s \<Rightarrow> su_mustChangePassword s))"
proof (cases "extractBearer header")
  case (Some tok)
  then show ?thesis by (cases "verifyTokenLive env now read tok c") (simp add: denyIfPasswordRotation_def)
qed (simp add: denyIfPasswordRotation_def)

lemma fst_require:
  "fst (requireAuth env now read required header c) = (case extractBearer header of
     None \<Rightarrow> AuthRequired
   | Some tok \<Rightarrow>
       (case (case verifyServiceToken env tok of Some s \<Rightarrow> Some s | None \<Rightarrow> fst (verifyTokenLive env now read tok c)) of
          None \<Rightarrow> AuthInvalid
        | Some s \<Rightarrow> if hasPermission s required then AuthOk s else AuthForbidden))"
proof (cases "extractBearer header")
  case (Some tok)
  then show ?thesis
    by (cases "verifyTokenLive env now read tok c", cases "verifyServiceToken env tok") (auto simp: requireAuth_def split: option.split)
qed (simp add: requireAuth_def)

lemma live_subject:
  assumes "verifyTokenLive env now read token c = (Some s, c')"
  shows "\<exists>claims g. verifyToken env now token = Some claims \<and> fst (loadLiveGrants now read (su_userId claims) c) = Some g
    \<and> s = claims\<lparr>su_permissions := lg_permissions g, su_mustChangePassword := lg_mustChangePassword g\<rparr>"
  using assms by (auto simp: verifyTokenLive_def Let_def split: option.splits prod.splits)

text \<open>
  C10: access rests on the database of the last thirty seconds. Whatever requests, invalidations and
  changes of users and roles came before, loads still in flight and loads overtaken by an invalidation included, a
  request that starts at \<open>now\<close> and whose own read of the database, if it needs one, happens at \<open>later\<close>, and
  that passes a guard, presents the service token, or a verified token of a user who was there and active at
  some moment after thirty seconds before the request, and what it may do is what that user's roles
  granted at that moment, not what the token says.
\<close>

theorem access_is_live:
  assumes "grants_history db earlier c" and "earlier \<le> now" and "now \<le> later"
    and "requireAuth env now (grants_of (db later)) required header c = (AuthOk s, c')"
  shows "hasPermission s required \<and> (\<exists>token. extractBearer header = Some token
    \<and> (verifyServiceToken env token = Some s
       \<or> (\<exists>claims r u roles. verifyToken env now token = Some claims \<and> su_userId claims = su_userId s
            \<and> now - 30000 < r \<and> r \<le> later \<and> findByIdWithRoles (su_userId s) (db r) = Some (u, roles) \<and> us_isActive u
            \<and> su_permissions s = mergePermissions roles \<and> su_mustChangePassword s = us_mustChangePassword u)))"
proof -
  obtain token where token: "extractBearer header = Some token" using assms(4) by (auto simp: requireAuth_def split: option.splits)
  have ok: "hasPermission s required" using assms(4) token by (auto simp: requireAuth_def Let_def split: option.splits prod.splits if_splits)
  show ?thesis
  proof (cases "verifyServiceToken env token = Some s")
    case True
    then show ?thesis using ok token by blast
  next
    case False
    then have "verifyTokenLive env now (grants_of (db later)) token c = (Some s, c')"
      using assms(4) token by (auto simp: requireAuth_def Let_def split: option.splits prod.splits if_splits)
    from live_subject [OF this] obtain claims g where cl: "verifyToken env now token = Some claims"
      "fst (loadLiveGrants now (grants_of (db later)) (su_userId claims) c) = Some g"
      "s = claims\<lparr>su_permissions := lg_permissions g, su_mustChangePassword := lg_mustChangePassword g\<rparr>" by blast
    have "\<exists>r. now - 30000 < r \<and> r \<le> later \<and> grants_of (db r) (su_userId claims) = Some g"
    proof (cases "fst (grants_start now (su_userId claims) c)")
      case None
      then show ?thesis using cl(2) assms(3) by (intro exI [of _ later]) (simp add: load_answer)
    next
      case (Some x)
      then have "x = Some g" using cl(2) by (simp add: load_answer)
      have "om_get [] j = None" for j :: string by simp
      with grants.answer_recent [OF assms(1) [unfolded grants_history_def] _ assms(2) Some] obtain t r where
        "now - 30000 < t" "t \<le> r" "r \<le> now" "x = grants_of (db r) (su_userId claims)" by (auto simp: GRANTS_CACHE_TTL_MS_def)
      then show ?thesis using \<open>x = Some g\<close> assms(3) by (intro exI [of _ r]) simp
    qed
    then obtain r where r: "now - 30000 < r" "r \<le> later" "grants_of (db r) (su_userId claims) = Some g" by blast
    from grants_of_Some [OF r(3)] show ?thesis using r(1,2) cl ok token by auto
  qed
qed

text \<open>
  An invalidation does not reach a load in flight. A load that has read the database before a change, and
  comes back after the change has dropped the user's entry, caches what it read: until thirty seconds after its
  start this process decides by the old grants, or by a user who has since been deleted.
\<close>

theorem overtaken_load_survives_invalidation:
  assumes "now < start + 30000"
  shows "fst (loadLiveGrants now (grants_of db_new) i (grants_finish start i (grants_of db_old i) (invalidateGrants ko c))) = grants_of db_old i"
proof -
  have "fst (grants_start now i (grants_finish start i (grants_of db_old i) (invalidateGrants ko c))) = Some (grants_of db_old i)"
    using assms by (simp add: grants.hit grants_finish_def GRANTS_CACHE_TTL_MS_def)
  then show ?thesis by (simp add: load_answer)
qed

theorem overtaken_load_survives_invalidation_witness:
  "fst (loadLiveGrants 9000 (grants_of \<lparr>ad_users = [], ad_roles = [], ad_userRoles = []\<rparr>) ''u1''
     (grants_finish 1000 ''u1'' (grants_of \<lparr>ad_users = [], ad_roles = [], ad_userRoles = []\<rparr> ''u1'') (invalidateGrants None []))) =
   grants_of \<lparr>ad_users = [], ad_roles = [], ad_userRoles = []\<rparr> ''u1''"
  by (rule overtaken_load_survives_invalidation) simp

section \<open>Login\<close>

lemma field_payload:
  "field (subject_payload s) ''userId'' = JStr (su_userId s)" "field (subject_payload s) ''username'' = JStr (su_username s)"
  "field (subject_payload s) ''tenantId'' = JStr (su_tenantId s)"
  "field (subject_payload s) ''permissions'' = JArr (map JStr (su_permissions s))"
  "field (subject_payload s) ''mustChangePassword'' = JBool (su_mustChangePassword s)"
  by (simp_all add: subject_payload_def field_def)

lemma verify_minted:
  assumes "jwt_secret_ok env" and "au_decode env t tok = Some (subject_payload s)"
  shows "verifyToken env t tok = Some s"
proof -
  have "concat (map (\<lambda>p. case p of JStr x \<Rightarrow> [x] | _ \<Rightarrow> []) (map JStr ps)) = ps" for ps by (induction ps) simp_all
  then show ?thesis using assms by (simp add: verifyToken_def field_payload)
qed

lemma login_cases:
  assumes "login env now db tenant name pw c = (Inr (tok, s), c')"
  shows "\<exists>u. findByUsername (case tenant of Some t \<Rightarrow> t | None \<Rightarrow> ''default'') name db = Some u \<and> us_isActive u
    \<and> au_compare env pw (us_passwordHash u) \<and> jwt_secret_ok env
    \<and> (\<exists>d roles. findByIdWithRoles (us_id u) db = Some (d, roles) \<and> s = subject_of d roles (us_mustChangePassword u)
        \<and> tok = au_sign env now (token_lifetime env) (subject_payload s) \<and> c' = invalidateGrants (Some (us_id d)) c)"
proof -
  obtain u where u: "findByUsername (case tenant of Some t \<Rightarrow> t | None \<Rightarrow> ''default'') name db = Some u"
    "us_isActive u" "au_compare env pw (us_passwordHash u)"
    using assms by (auto simp: login_def Let_def split: option.splits if_splits)
  moreover obtain d roles where d: "findByIdWithRoles (us_id u) db = Some (d, roles)"
    using assms u by (auto simp: login_def Let_def split: option.splits)
  ultimately have m: "map_r (\<lambda>tok. (tok, subject_of d roles (us_mustChangePassword u))) (mintToken env now (subject_of d roles (us_mustChangePassword u)))
      = Inr (tok, s)" "c' = invalidateGrants (Some (us_id d)) c"
    using assms by (simp_all add: login_def Let_def)
  have secret: "jwt_secret_ok env"
  proof (rule ccontr)
    assume "\<not> jwt_secret_ok env"
    then show False using m(1) by (simp add: mintToken_def)
  qed
  then have "tok = au_sign env now (token_lifetime env) (subject_payload s)" "s = subject_of d roles (us_mustChangePassword u)"
    using m(1) by (auto simp: mintToken_def)
  then show ?thesis using u d m(2) secret by blast
qed

text \<open>
  Who logs in is let in. A login that succeeds had the password of an active user; its token,
  presented as a bearer before it expires, while user and roles are as at the login,
  passes every guard whose permissions the user's roles hold, as that user, and is stopped by the rotation gate
  exactly when the user still has to change the password. The JWT library decodes what it signed.
\<close>

theorem login_lets_in:
  assumes "login env now db tenant name pw c = (Inr (tok, s), c1)"
    and jwt: "au_decode env t (au_sign env now (token_lifetime env) (subject_payload s)) = Some (subject_payload s)"
    and plain: "tok \<noteq> []" "\<forall>x \<in> set tok. \<not> is_ws x" and "verifyServiceToken env tok = None"
    and one: "\<And>u. user_findById (su_userId s) db = Some u \<Longrightarrow> us_mustChangePassword u = su_mustChangePassword s \<and> us_isActive u"
  shows "fst (requireAuth env t (grants_of db) required (Some (''Bearer '' @ tok)) c1) =
      (if hasPermission s required then AuthOk s else AuthForbidden)
    \<and> fst (denyIfPasswordRotation env t (grants_of db) (Some (''Bearer '' @ tok)) c1) = su_mustChangePassword s
    \<and> (\<exists>u. au_compare env pw (us_passwordHash u) \<and> us_username u = name \<and> us_isActive u \<and> u \<in> set (ad_users db))"
proof -
  obtain u d roles where u: "findByUsername (case tenant of Some t \<Rightarrow> t | None \<Rightarrow> ''default'') name db = Some u" "us_isActive u"
    "au_compare env pw (us_passwordHash u)" "jwt_secret_ok env" "findByIdWithRoles (us_id u) db = Some (d, roles)"
    "s = subject_of d roles (us_mustChangePassword u)" "tok = au_sign env now (token_lifetime env) (subject_payload s)"
    "c1 = invalidateGrants (Some (us_id d)) c"
    using login_cases [OF assms(1)] by blast
  have id: "su_userId s = us_id d" "us_id d = us_id u"
    using u(5,6) by (auto simp: subject_of_def findByIdWithRoles_def user_findById_def dest: find_in_set)
  have d: "user_findById (su_userId s) db = Some d" using u(5) id by (auto simp: findByIdWithRoles_def)
  have token: "verifyToken env t tok = Some s" using verify_minted [OF u(4)] jwt u(7) by simp
  have g: "grants_of db (su_userId s) = Some \<lparr>lg_permissions = su_permissions s, lg_mustChangePassword = su_mustChangePassword s\<rparr>"
    using u(5,6) one [OF d] id by (simp add: grants_of_def subject_of_def)
  have loaded: "fst (loadLiveGrants t (grants_of db) (su_userId s) c1) = grants_of db (su_userId s)"
    unfolding u(8) by (rule load_after_invalidation) (simp add: id)
  then have live: "fst (verifyTokenLive env t (grants_of db) tok c1) = Some s"
    by (simp add: fst_verify token g)
  have bearer: "extractBearer (Some (''Bearer '' @ tok)) = Some tok"
  proof -
    have "to_lower ''Bearer '' = ''bearer ''" by code_simp
    then show ?thesis using plain by (simp add: extractBearer_def list_all_iff)
  qed
  have "u \<in> set (ad_users db) \<and> us_username u = name" using u(1) by (auto simp: findByUsername_def dest: find_in_set)
  then have user: "\<exists>u. au_compare env pw (us_passwordHash u) \<and> us_username u = name \<and> us_isActive u \<and> u \<in> set (ad_users db)"
    using u(2,3) by blast
  show ?thesis unfolding fst_require fst_deny bearer using user by (simp add: live assms(5))
qed

section \<open>Instances\<close>

definition sample_user :: user_row where
  "sample_user = \<lparr>us_id = ''u1'', us_tenantId = ''default'', us_username = ''ada'', us_passwordHash = ''pw'', us_fullName = None,
     us_email = None, us_isActive = True, us_disabledReason = None, us_mustChangePassword = False, us_createdAt = 0\<rparr>"

definition sample_role :: role_row where
  "sample_role = \<lparr>rr_id = ''r1'', rr_tenantId = ''default'', rr_name = ''VIEWER'', rr_description = None,
     rr_permissions = [''rules:read''], rr_isSystem = False\<rparr>"

definition sample_auth_db :: auth_db where
  "sample_auth_db = \<lparr>ad_users = [sample_user], ad_roles = [sample_role], ad_userRoles = [(''u1'', ''r1'')]\<rparr>"

definition sample_subject :: subject where
  "sample_subject = \<lparr>su_userId = ''u1'', su_tenantId = ''default'', su_username = ''ada'', su_permissions = [''rules:read''],
     su_mustChangePassword = False\<rparr>"

definition sample_auth :: auth_env where
  "sample_auth = \<lparr>au_sign = \<lambda>_ _ _. ''tok'', au_decode = \<lambda>_ tok. if tok = ''tok'' then Some (subject_payload sample_subject) else None,
     au_sha256 = id, au_compare = (=), au_hash = \<lambda>salt pw. pw, au_dummyHash = [], au_ttlSeconds = None, au_serviceToken = None,
     au_jwtSecret = Some ''0123456789abcdef''\<rparr>"

lemma sample_auth_facts:
  "findByIdWithRoles ''u1'' sample_auth_db = Some (sample_user, [sample_role])" "mergePermissions [sample_role] = [''rules:read'']"
  "verifyToken sample_auth t ''tok'' = Some sample_subject" "verifyServiceToken sample_auth x = None"
  "extractBearer (Some ''Bearer tok'') = Some ''tok''"
proof -
  show "findByIdWithRoles ''u1'' sample_auth_db = Some (sample_user, [sample_role])"
    by (simp add: findByIdWithRoles_def user_findById_def roles_of_def sample_auth_db_def sample_user_def sample_role_def)
  show "mergePermissions [sample_role] = [''rules:read'']" by (simp add: mergePermissions_def sample_role_def js_set_def)
  show "verifyToken sample_auth t ''tok'' = Some sample_subject"
    by (rule verify_minted) (simp_all add: sample_auth_def jwt_secret_ok_def)
  show "verifyServiceToken sample_auth x = None" by (simp add: verifyServiceToken_def sample_auth_def)
  show "extractBearer (Some ''Bearer tok'') = Some ''tok''" by code_simp
qed

theorem access_is_live_witness:
  "\<exists>s c'. requireAuth sample_auth 1000 (grants_of sample_auth_db) [''rules:read''] (Some ''Bearer tok'') [] = (AuthOk s, c')
    \<and> hasPermission s [''rules:read'']"
proof -
  have g: "grants_of sample_auth_db ''u1'' = Some \<lparr>lg_permissions = [''rules:read''], lg_mustChangePassword = False\<rparr>"
    by (simp add: grants_of_def sample_auth_facts sample_user_def)
  have id: "su_userId sample_subject = ''u1''" by (simp add: sample_subject_def)
  obtain c' where r: "requireAuth sample_auth 1000 (grants_of sample_auth_db) [''rules:read''] (Some ''Bearer tok'') [] =
      (AuthOk (sample_subject\<lparr>su_permissions := [''rules:read''], su_mustChangePassword := False\<rparr>), c')"
    by (simp add: requireAuth_def sample_auth_facts verifyTokenLive_def loadLiveGrants_def grants_start_def id g hasPermission_def Let_def)
  have "grants_history (\<lambda>_. sample_auth_db) 1000 []" by (simp add: grants_history_def cache_history_refl)
  from access_is_live [OF this order_refl order_refl r] r show ?thesis by blast
qed

theorem login_lets_in_witness:
  "fst (requireAuth sample_auth 2000 (grants_of sample_auth_db) [''rules:read''] (Some ''Bearer tok'')
      (snd (login sample_auth 1000 sample_auth_db None ''ada'' ''pw'' []))) = AuthOk sample_subject"
proof -
  have s: "subject_of sample_user [sample_role] False = sample_subject"
    by (simp add: subject_of_def sample_user_def sample_subject_def sample_auth_facts)
  have u: "findByUsername ''default'' ''ada'' sample_auth_db = Some sample_user" "us_id sample_user = ''u1''" "us_isActive sample_user"
    "us_passwordHash sample_user = ''pw''" "\<not> us_mustChangePassword sample_user"
    by (simp_all add: findByUsername_def sample_auth_db_def sample_user_def)
  have env: "au_compare sample_auth = (=)" "jwt_secret_ok sample_auth" "au_sign sample_auth = (\<lambda>_ _ _. ''tok'')"
    "au_decode sample_auth = (\<lambda>_ tok. if tok = ''tok'' then Some (subject_payload sample_subject) else None)"
    by (simp_all add: sample_auth_def jwt_secret_ok_def)
  obtain c1 where l: "login sample_auth 1000 sample_auth_db None ''ada'' ''pw'' [] = (Inr (''tok'', sample_subject), c1)"
    using u by (simp add: login_def sample_auth_facts env mintToken_def s)
  have "user_findById (su_userId sample_subject) sample_auth_db = Some sample_user"
    by (simp add: user_findById_def sample_auth_db_def sample_user_def sample_subject_def)
  then have one: "us_mustChangePassword x = su_mustChangePassword sample_subject \<and> us_isActive x"
    if "user_findById (su_userId sample_subject) sample_auth_db = Some x" for x
    using that by (auto simp: sample_user_def sample_subject_def)
  have p: "hasPermission sample_subject [''rules:read'']" by (simp add: hasPermission_def sample_subject_def)
  have plain: "\<forall>x \<in> set ''tok''. \<not> is_ws x" by code_simp
  have decode: "au_decode sample_auth 2000 (au_sign sample_auth 1000 (token_lifetime sample_auth) (subject_payload sample_subject)) =
      Some (subject_payload sample_subject)" by (simp add: env)
  note lets = login_lets_in [OF l decode _ plain _ one, of "[''rules:read'']"]
  show ?thesis using lets p by (simp add: l sample_auth_facts)
qed

end
