(* ===== verification/UserRoles.thy ===== *)
theory UserRoles
  imports Authorization "HOL-Library.Char_ord" "HOL-Library.List_Lexorder" "HOL-Library.Product_Lexorder"
begin

text \<open>
  \<open>user.service.ts\<close>, \<open>role.service.ts\<close> and the admin controllers over them, behind the two guards
  of the admin routes, with the grants cache they invalidate; and the roles and the administrator the
  first migration seeds. Ids and password hashes are arguments.
\<close>

section \<open>State and errors\<close>

record auth_state =
  as_db :: auth_db
  as_cache :: grants_cache

datatype admin_error = AdminNotFound string | AdminConflict string

type_synonym user_with_roles = "user_row \<times> role_row list"

definition with_db :: "auth_state \<Rightarrow> (auth_db \<Rightarrow> auth_db) \<Rightarrow> auth_state" where
  "with_db st f = st\<lparr>as_db := f (as_db st)\<rparr>"

definition drop_grants :: "string option \<Rightarrow> auth_state \<Rightarrow> auth_state" where
  "drop_grants i st = st\<lparr>as_cache := invalidateGrants i (as_cache st)\<rparr>"

section \<open>Users\<close>

text \<open>\<open>ILIKE\<close>: percent any text, underscore any character, backslash the next character itself.\<close>

function like :: "string \<Rightarrow> string \<Rightarrow> bool" where
  "like [] t = (t = [])"
| "like (p # ps) t =
     (if p = CHR ''%'' then like ps t \<or> (case t of [] \<Rightarrow> False | _ # cs \<Rightarrow> like (p # ps) cs)
      else case t of
             [] \<Rightarrow> False
           | c # cs \<Rightarrow>
               if p = CHR 0x5C \<and> ps \<noteq> [] then c = hd ps \<and> like (tl ps) cs
               else (p = CHR ''_'' \<or> c = p) \<and> like ps cs)"
  by pat_completeness auto
termination by (relation "measure (\<lambda>(p, t). length p + length t)") auto

definition ilike :: "string \<Rightarrow> string \<Rightarrow> bool" where
  "ilike pattern s = like (to_lower pattern) (to_lower s)"

definition listWithRoles ::
    "string option \<Rightarrow> string option \<Rightarrow> int option \<Rightarrow> int option \<Rightarrow> auth_db \<Rightarrow> user_with_roles list \<times> nat" where
  "listWithRoles tenantId search limit offset db =
     (let wanted = (\<lambda>u. (case tenantId of Some t \<Rightarrow> t = [] \<or> us_tenantId u = t | None \<Rightarrow> True)
            \<and> (case search of
                 Some q \<Rightarrow> if js_trim q = [] then True
                   else let s = ''%'' @ js_trim q @ ''%'' in ilike s (us_username u)
                     \<or> (case us_fullName u of Some n \<Rightarrow> ilike s n | None \<Rightarrow> False)
                     \<or> (case us_email u of Some n \<Rightarrow> ilike s n | None \<Rightarrow> False)
               | None \<Rightarrow> True));
          found = filter wanted (ad_users db);
          n = min (max (case limit of Some l \<Rightarrow> l | None \<Rightarrow> 50) 1) 200;
          k = max (case offset of Some l \<Rightarrow> l | None \<Rightarrow> 0) 0
      in (map (\<lambda>u. (u, roles_of (us_id u) db)) (take (nat n) (drop (nat k) (rev (sort_key us_createdAt found)))), length found))"

record user_input =
  ui_tenantId :: "string option"
  ui_username :: string
  ui_password :: string
  ui_fullName :: "string option"
  ui_email :: "string option"
  ui_roleIds :: "string list option"

fun assign_all :: "string list \<Rightarrow> string \<Rightarrow> auth_db \<Rightarrow> admin_error option \<times> auth_db" where
  "assign_all [] u db = (None, db)"
| "assign_all (r # rs) u db =
     (case role_findById r db of
        None \<Rightarrow> (Some (AdminNotFound (''Role not found: '' @ r)), db)
      | Some _ \<Rightarrow> assign_all rs u (repo_assignRole u r db))"

definition user_create ::
    "(string \<Rightarrow> string) \<Rightarrow> string \<Rightarrow> int \<Rightarrow> user_input \<Rightarrow> auth_state \<Rightarrow> (admin_error, user_with_roles) result \<times> auth_state" where
  "user_create hash newId now i st =
     (let tenantId = (case ui_tenantId i of Some t \<Rightarrow> t | None \<Rightarrow> ''default'') in
      case findByUsername tenantId (ui_username i) (as_db st) of
        Some _ \<Rightarrow> (Inl (AdminConflict ''A user with this username already exists in this tenant''), st)
      | None \<Rightarrow>
          (let u = \<lparr>us_id = newId, us_tenantId = tenantId, us_username = ui_username i, us_passwordHash = hash (ui_password i),
                 us_fullName = ui_fullName i, us_email = ui_email i, us_isActive = True, us_disabledReason = None,
                 us_mustChangePassword = False, us_createdAt = now\<rparr>;
               db1 = (as_db st)\<lparr>ad_users := ad_users (as_db st) @ [u]\<rparr>;
               (err, db2) = assign_all (case ui_roleIds i of Some rs \<Rightarrow> rs | None \<Rightarrow> []) newId db1;
               st' = st\<lparr>as_db := db2\<rparr>
           in case err of
                Some e \<Rightarrow> (Inl e, st')
              | None \<Rightarrow> (case findByIdWithRoles newId db2 of
                            Some d \<Rightarrow> (Inr d, st')
                          | None \<Rightarrow> (Inl (AdminNotFound ''User created but could not be re-read''), st'))))"

text \<open>In a patch \<open>None\<close> is an absent field and \<open>Some None\<close> a null.\<close>

record user_patch =
  up_password :: "string option"
  up_fullName :: "string option option"
  up_email :: "string option option"
  up_isActive :: "bool option"
  up_disabledReason :: "string option option"

definition patch_empty :: "user_patch \<Rightarrow> bool" where
  "patch_empty p = ((case up_password p of Some w \<Rightarrow> w = [] | None \<Rightarrow> True) \<and> up_fullName p = None \<and> up_email p = None \<and> up_isActive p = None)"

definition apply_patch :: "(string \<Rightarrow> string) \<Rightarrow> user_patch \<Rightarrow> user_row \<Rightarrow> user_row" where
  "apply_patch hash p u =
     (let u1 = (case up_password p of Some w \<Rightarrow> if w \<noteq> [] then u\<lparr>us_passwordHash := hash w\<rparr> else u | None \<Rightarrow> u);
          u2 = (case up_fullName p of Some n \<Rightarrow> u1\<lparr>us_fullName := n\<rparr> | None \<Rightarrow> u1);
          u3 = (case up_email p of Some e \<Rightarrow> u2\<lparr>us_email := e\<rparr> | None \<Rightarrow> u2)
      in case up_isActive p of
           Some True \<Rightarrow> u3\<lparr>us_isActive := True, us_disabledReason := None\<rparr>
         | Some False \<Rightarrow> u3\<lparr>us_isActive := False,
             us_disabledReason := (case up_disabledReason p of Some r \<Rightarrow> r | None \<Rightarrow> None)\<rparr>
         | None \<Rightarrow> u3)"

definition reread :: "string \<Rightarrow> string \<Rightarrow> auth_state \<Rightarrow> (admin_error, user_with_roles) result \<times> auth_state" where
  "reread i msg st = (case findByIdWithRoles i (as_db st) of Some d \<Rightarrow> (Inr d, st) | None \<Rightarrow> (Inl (AdminNotFound msg), st))"

definition user_update ::
    "(string \<Rightarrow> string) \<Rightarrow> string \<Rightarrow> user_patch \<Rightarrow> auth_state \<Rightarrow> (admin_error, user_with_roles) result \<times> auth_state" where
  "user_update hash i p st =
     (case findByIdWithRoles i (as_db st) of
        None \<Rightarrow> (Inl (AdminNotFound ''User not found''), st)
      | Some existing \<Rightarrow>
          if patch_empty p then (Inr existing, st)
          else reread i ''User not found after update'' (drop_grants (Some i) (with_db st (user_updateById i (apply_patch hash p)))))"

definition user_delete :: "string \<Rightarrow> string option \<Rightarrow> auth_state \<Rightarrow> (admin_error, unit) result \<times> auth_state" where
  "user_delete i acting st =
     (if (case acting of Some a \<Rightarrow> a \<noteq> [] \<and> a = i | None \<Rightarrow> False) then (Inl (AdminConflict ''You cannot delete your own account''), st)
      else case findByIdWithRoles i (as_db st) of
             None \<Rightarrow> (Inl (AdminNotFound ''User not found''), st)
           | Some _ \<Rightarrow> (Inr (), drop_grants (Some i) (with_db st (user_deleteById i))))"

definition assignRole :: "string \<Rightarrow> string \<Rightarrow> auth_state \<Rightarrow> (admin_error, user_with_roles) result \<times> auth_state" where
  "assignRole u r st =
     (if findByIdWithRoles u (as_db st) = None then (Inl (AdminNotFound ''User not found''), st)
      else if role_findById r (as_db st) = None then (Inl (AdminNotFound ''Role not found''), st)
      else reread u ''User not found after role assignment'' (drop_grants (Some u) (with_db st (repo_assignRole u r))))"

definition unassignRole :: "string \<Rightarrow> string \<Rightarrow> auth_state \<Rightarrow> (admin_error, user_with_roles) result \<times> auth_state" where
  "unassignRole u r st =
     (case findByIdWithRoles u (as_db st) of
        None \<Rightarrow> (Inl (AdminNotFound ''User not found''), st)
      | Some (_, roles) \<Rightarrow>
          if length roles = 1 \<and> rr_id (hd roles) = r then (Inl (AdminConflict ''Cannot remove the user's last remaining role''), st)
          else reread u ''User not found after role removal'' (drop_grants (Some u) (with_db st (repo_unassignRole u r))))"

section \<open>Roles\<close>

fun code_problem :: "bool \<Rightarrow> string list \<Rightarrow> admin_error option" where
  "code_problem allowWildcard [] = None"
| "code_problem allowWildcard (c # cs) =
     (if c = [] then Some (AdminConflict ''Permission codes must be non-empty strings'')
      else if c = ALL_PERMISSIONS then
        (if \<not> allowWildcard then Some (AdminConflict ''Wildcard '*' is reserved for the SUPER_ADMIN system role'')
         else code_problem allowWildcard cs)
      else if c \<notin> set PERMISSIONS then Some (AdminConflict (''Unknown permission: '' @ c))
      else code_problem allowWildcard cs)"

definition validatePermissions :: "string list \<Rightarrow> bool \<Rightarrow> (admin_error, string list) result" where
  "validatePermissions codes allowWildcard =
     (case code_problem allowWildcard codes of Some e \<Rightarrow> Inl e | None \<Rightarrow> Inr (js_set codes))"

definition role_list :: "string option \<Rightarrow> auth_db \<Rightarrow> role_row list" where
  "role_list tenantId db =
     sort_key (\<lambda>r. (\<not> rr_isSystem r, rr_name r))
       (filter (\<lambda>r. case tenantId of Some t \<Rightarrow> t = [] \<or> rr_tenantId r = t | None \<Rightarrow> True) (ad_roles db))"

record role_input =
  ri_tenantId :: "string option"
  ri_name :: string
  ri_description :: "string option"
  ri_permissions :: "string list"

definition role_create :: "string \<Rightarrow> role_input \<Rightarrow> auth_state \<Rightarrow> (admin_error, role_row) result \<times> auth_state" where
  "role_create newId i st =
     (let tenantId = (case ri_tenantId i of Some t \<Rightarrow> t | None \<Rightarrow> ''default'') in
      if role_findByName tenantId (ri_name i) (as_db st) \<noteq> None
      then (Inl (AdminConflict ''A role with this name already exists in this tenant''), st)
      else case validatePermissions (ri_permissions i) False of
             Inl e \<Rightarrow> (Inl e, st)
           | Inr ps \<Rightarrow>
               if ps = [] then (Inl (AdminConflict ''A role must grant at least one permission''), st)
               else (let r = \<lparr>rr_id = newId, rr_tenantId = tenantId, rr_name = ri_name i, rr_description = ri_description i,
                        rr_permissions = ps, rr_isSystem = False\<rparr>
                     in (Inr r, with_db st (\<lambda>db. db\<lparr>ad_roles := ad_roles db @ [r]\<rparr>))))"

record role_patch =
  rp_name :: "string option"
  rp_description :: "string option option"
  rp_permissions :: "string list option"

definition role_updateById :: "string \<Rightarrow> (role_row \<Rightarrow> role_row) \<Rightarrow> auth_db \<Rightarrow> auth_db" where
  "role_updateById i f db = db\<lparr>ad_roles := map (\<lambda>r. if rr_id r = i then f r else r) (ad_roles db)\<rparr>"

text \<open>The checks of an update: the new name, when it changes, and the new permissions, when given.\<close>

definition role_changes :: "role_row \<Rightarrow> role_patch \<Rightarrow> auth_db \<Rightarrow> (admin_error, string option \<times> string list option) result" where
  "role_changes role p db =
     (if rr_isSystem role \<and> rr_name role = ''SUPER_ADMIN'' \<and> rp_permissions p \<noteq> None
      then Inl (AdminConflict ''SUPER_ADMIN permissions are fixed at ['*'] and cannot be edited'')
      else bind_r
        (case rp_name p of
           Some n \<Rightarrow>
             if n = rr_name role then Inr None
             else if rr_isSystem role then Inl (AdminConflict ''System roles cannot be renamed'')
             else if role_findByName (rr_tenantId role) n db \<noteq> None
             then Inl (AdminConflict ''A role with this name already exists in this tenant'')
             else Inr (Some n)
         | None \<Rightarrow> Inr None)
        (\<lambda>name. case rp_permissions p of
           None \<Rightarrow> Inr (name, None)
         | Some codes \<Rightarrow>
             bind_r (validatePermissions codes False) (\<lambda>ps.
               if ps = [] then Inl (AdminConflict ''A role must grant at least one permission'') else Inr (name, Some ps))))"

definition role_update :: "string \<Rightarrow> role_patch \<Rightarrow> auth_state \<Rightarrow> (admin_error, role_row) result \<times> auth_state" where
  "role_update i p st =
     (case role_findById i (as_db st) of
        None \<Rightarrow> (Inl (AdminNotFound ''Role not found''), st)
      | Some role \<Rightarrow>
          (case role_changes role p (as_db st) of
             Inl e \<Rightarrow> (Inl e, st)
           | Inr (name, ps) \<Rightarrow>
               if name = None \<and> rp_description p = None \<and> ps = None then (Inr role, st)
               else
                 (let f = (\<lambda>r. r\<lparr>rr_name := (case name of Some n \<Rightarrow> n | None \<Rightarrow> rr_name r),
                             rr_description := (case rp_description p of Some d \<Rightarrow> d | None \<Rightarrow> rr_description r),
                             rr_permissions := (case ps of Some x \<Rightarrow> x | None \<Rightarrow> rr_permissions r)\<rparr>);
                      st1 = with_db st (role_updateById i f);
                      st2 = (if ps \<noteq> None then drop_grants None st1 else st1)
                  in case role_findById i (as_db st1) of
                       None \<Rightarrow> (Inl (AdminNotFound ''Role not found after update''), st1)
                     | Some next \<Rightarrow> (Inr next, st2))))"

definition role_delete :: "string \<Rightarrow> auth_state \<Rightarrow> (admin_error, unit) result \<times> auth_state" where
  "role_delete i st =
     (case role_findById i (as_db st) of
        None \<Rightarrow> (Inl (AdminNotFound ''Role not found''), st)
      | Some role \<Rightarrow>
          if rr_isSystem role then (Inl (AdminConflict ''System roles cannot be deleted''), st)
          else (Inr (), drop_grants None (with_db st (role_deleteById i))))"

section \<open>The admin routes\<close>

definition answer_status :: "nat \<Rightarrow> (admin_error, 'a) result \<times> auth_state \<Rightarrow> nat \<times> auth_state" where
  "answer_status ok r =
     (case fst r of Inr _ \<Rightarrow> ok | Inl (AdminNotFound _) \<Rightarrow> 404 | Inl (AdminConflict _) \<Rightarrow> 409, snd r)"

text \<open>The rotation gate of the admin plugin, the route's guard, then the handler.\<close>

definition admin_request ::
    "auth_env \<Rightarrow> int \<Rightarrow> string list \<Rightarrow> string option \<Rightarrow> (subject \<Rightarrow> auth_state \<Rightarrow> nat \<times> auth_state) \<Rightarrow> auth_state \<Rightarrow> nat \<times> auth_state" where
  "admin_request env now required header handler st =
     (let (locked, c1) = denyIfPasswordRotation env now (grants_of (as_db st)) header (as_cache st) in
      if locked then (423, st\<lparr>as_cache := c1\<rparr>)
      else case requireAuth env now (grants_of (as_db st)) required header c1 of
             (AuthOk s, c2) \<Rightarrow> handler s (st\<lparr>as_cache := c2\<rparr>)
           | (AuthForbidden, c2) \<Rightarrow> (403, st\<lparr>as_cache := c2\<rparr>)
           | (_, c2) \<Rightarrow> (401, st\<lparr>as_cache := c2\<rparr>))"

definition users_create :: "auth_env \<Rightarrow> int \<Rightarrow> string option \<Rightarrow> string \<Rightarrow> string \<Rightarrow> user_input \<Rightarrow> auth_state \<Rightarrow> nat \<times> auth_state" where
  "users_create env now header salt newId i =
     admin_request env now [''users:create''] header (\<lambda>s st. answer_status 201 (user_create (au_hash env salt) newId now i st))"

definition users_update :: "auth_env \<Rightarrow> int \<Rightarrow> string option \<Rightarrow> string \<Rightarrow> string \<Rightarrow> user_patch \<Rightarrow> auth_state \<Rightarrow> nat \<times> auth_state" where
  "users_update env now header salt i p =
     admin_request env now [''users:update''] header (\<lambda>s st. answer_status 200 (user_update (au_hash env salt) i p st))"

definition users_delete :: "auth_env \<Rightarrow> int \<Rightarrow> string option \<Rightarrow> string \<Rightarrow> auth_state \<Rightarrow> nat \<times> auth_state" where
  "users_delete env now header i =
     admin_request env now [''users:delete''] header (\<lambda>s st. answer_status 200 (user_delete i (Some (su_userId s)) st))"

definition users_assignRole :: "auth_env \<Rightarrow> int \<Rightarrow> string option \<Rightarrow> string \<Rightarrow> string \<Rightarrow> auth_state \<Rightarrow> nat \<times> auth_state" where
  "users_assignRole env now header i r =
     admin_request env now [''users:update''] header (\<lambda>s st. answer_status 200 (assignRole i r st))"

definition users_unassignRole :: "auth_env \<Rightarrow> int \<Rightarrow> string option \<Rightarrow> string \<Rightarrow> string \<Rightarrow> auth_state \<Rightarrow> nat \<times> auth_state" where
  "users_unassignRole env now header i r =
     admin_request env now [''users:update''] header (\<lambda>s st. answer_status 200 (unassignRole i r st))"

definition roles_create :: "auth_env \<Rightarrow> int \<Rightarrow> string option \<Rightarrow> string \<Rightarrow> role_input \<Rightarrow> auth_state \<Rightarrow> nat \<times> auth_state" where
  "roles_create env now header newId i =
     admin_request env now [''roles:create''] header (\<lambda>s st. answer_status 201 (role_create newId i st))"

definition roles_update :: "auth_env \<Rightarrow> int \<Rightarrow> string option \<Rightarrow> string \<Rightarrow> role_patch \<Rightarrow> auth_state \<Rightarrow> nat \<times> auth_state" where
  "roles_update env now header i p =
     admin_request env now [''roles:update''] header (\<lambda>s st. answer_status 200 (role_update i p st))"

definition roles_delete :: "auth_env \<Rightarrow> int \<Rightarrow> string option \<Rightarrow> string \<Rightarrow> auth_state \<Rightarrow> nat \<times> auth_state" where
  "roles_delete env now header i =
     admin_request env now [''roles:delete''] header (\<lambda>s st. answer_status 200 (role_delete i st))"

section \<open>The seeded database\<close>

definition SYSTEM_ROLES :: "(string \<times> string \<times> string list) list" where
  "SYSTEM_ROLES =
     [(''SUPER_ADMIN'', ''Full access to every admin feature. Cannot be deleted; permissions are fixed at [\"*\"].'', [ALL_PERMISSIONS]),
      (''FRAUD_ANALYST'', ''Read-only across detection + audit, can override decisions and ask FIA follow-ups.'',
       [''review_queue:read'', ''review_queue:override'', ''audit:read'', ''reports:read'', ''reports:request'', ''reports:message'',
        ''rules:read'', ''models:read'', ''metrics:read'', ''saved_reports:read'', ''saved_reports:write'', ''saved_reports:export'',
        ''settings:read'']),
      (''OPERATIONS'', ''Manage rules, models, API keys, webhooks. Cannot manage users.'',
       [''rules:read'', ''rules:create'', ''rules:update'', ''rules:delete'', ''models:read'', ''models:register'',
        ''models:set_status'', ''models:set_threshold'', ''models:delete'', ''api_keys:read'', ''api_keys:issue'', ''api_keys:revoke'',
        ''webhooks:read'', ''webhooks:create'', ''webhooks:delete'', ''audit:read'', ''metrics:read'', ''reports:read'',
        ''saved_reports:read'', ''saved_reports:write'', ''saved_reports:export'', ''settings:read'', ''settings:write'', ''mla:configure''])]"

definition seeded :: "string \<Rightarrow> string \<Rightarrow> string \<Rightarrow> string \<Rightarrow> string \<Rightarrow> int \<Rightarrow> auth_db" where
  "seeded superId analystId opsId adminId adminHash now =
     \<lparr>ad_users = [\<lparr>us_id = adminId, us_tenantId = ''default'', us_username = ''admin'', us_passwordHash = adminHash,
          us_fullName = Some ''Default Admin'', us_email = None, us_isActive = True, us_disabledReason = None,
          us_mustChangePassword = True, us_createdAt = now\<rparr>],
      ad_roles = map (\<lambda>(i, name, description, permissions). \<lparr>rr_id = i, rr_tenantId = ''default'', rr_name = name,
          rr_description = Some description, rr_permissions = permissions, rr_isSystem = True\<rparr>)
        (zip [superId, analystId, opsId] SYSTEM_ROLES),
      ad_userRoles = [(adminId, superId)]\<rparr>"

section \<open>Histories of one process\<close>

text \<open>
  Calls one after another. A new id is fresh: no row has it, and neither the cache nor the request's
  token names it.
\<close>

definition fresh_user :: "auth_env \<Rightarrow> int \<Rightarrow> string option \<Rightarrow> string \<Rightarrow> auth_state \<Rightarrow> bool" where
  "fresh_user env now header i st =
     (i \<notin> us_id ` set (ad_users (as_db st)) \<and> om_get (as_cache st) i = None
      \<and> (\<forall>tok claims. extractBearer header = Some tok \<longrightarrow> verifyToken env now tok = Some claims \<longrightarrow> su_userId claims \<noteq> i))"

inductive auth_step :: "auth_state \<Rightarrow> auth_state \<Rightarrow> bool" where
  user_create: "fresh_user env now header newId st \<Longrightarrow> auth_step st (snd (users_create env now header salt newId i st))"
| user_update: "auth_step st (snd (users_update env now header salt i p st))"
| user_delete: "auth_step st (snd (users_delete env now header i st))"
| role_assign: "auth_step st (snd (users_assignRole env now header i r st))"
| role_unassign: "auth_step st (snd (users_unassignRole env now header i r st))"
| role_create: "newId \<notin> rr_id ` set (ad_roles (as_db st)) \<Longrightarrow> auth_step st (snd (roles_create env now header newId ri st))"
| role_update: "auth_step st (snd (roles_update env now header i rp st))"
| role_delete: "auth_step st (snd (roles_delete env now header i st))"
| other_request: "auth_step st (snd (admin_request env now required header (\<lambda>s st. (200, st)) st))"
| login: "auth_step st (st\<lparr>as_cache := snd (login env now (as_db st) tenant name pw (as_cache st))\<rparr>)"
| change: "changePassword env now salt i current new (as_db st, as_cache st) = (res, db', c')
    \<Longrightarrow> auth_step st \<lparr>as_db = db', as_cache = c'\<rparr>"

section \<open>The invariant\<close>

definition role_typed :: "role_row \<Rightarrow> bool" where
  "role_typed r =
     (if rr_isSystem r \<and> rr_name r = ''SUPER_ADMIN'' then rr_permissions r = [ALL_PERMISSIONS]
      else rr_permissions r \<noteq> [] \<and> distinct (rr_permissions r) \<and> set (rr_permissions r) \<subseteq> set PERMISSIONS)"

definition db_typed :: "auth_db \<Rightarrow> bool" where
  "db_typed db =
     (distinct (map us_id (ad_users db)) \<and> distinct (map rr_id (ad_roles db))
      \<and> (\<forall>r \<in> set (ad_roles db). role_typed r)
      \<and> (\<forall>(u, r) \<in> set (ad_userRoles db). u \<in> us_id ` set (ad_users db) \<and> r \<in> rr_id ` set (ad_roles db)))"

definition cache_current :: "auth_state \<Rightarrow> bool" where
  "cache_current st = (\<forall>j v e. om_get (as_cache st) j = Some (v, e) \<longrightarrow> v = grants_of (as_db st) j)"

definition auth_inv :: "auth_state \<Rightarrow> bool" where
  "auth_inv st = (db_typed (as_db st) \<and> cache_current st)"

text \<open>What the grants of a user depend on.\<close>

lemma grants_cong:
  assumes "user_findById j db' = user_findById j db" and "roles_of j db' = roles_of j db"
  shows "grants_of db' j = grants_of db j"
  using assms by (simp add: grants_of_def findByIdWithRoles_def)

lemma find_known: "x \<in> set xs \<Longrightarrow> P x \<Longrightarrow> find P xs \<noteq> None"
  by (auto simp: find_None_iff)

lemma find_append_new: "find P xs = None \<Longrightarrow> P y \<Longrightarrow> find P (xs @ [y]) = Some y"
  by (induction xs) (auto split: if_splits)

lemma find_map_other: "(\<And>x. P (g x) = P x) \<Longrightarrow> (\<And>x. P x \<Longrightarrow> g x = x) \<Longrightarrow> find P (map g xs) = find P xs"
  by (induction xs) auto

lemma grants_updateUser:
  assumes "j \<noteq> i" and "\<And>u. us_id (f u) = us_id u"
  shows "grants_of (user_updateById i f db) j = grants_of db j"
proof (rule grants_cong)
  show "user_findById j (user_updateById i f db) = user_findById j db"
    unfolding user_findById_def user_updateById_def using assms by (auto intro!: find_map_other)
qed (simp add: roles_of_def user_updateById_def)

lemma filter_pairs: "filter (\<lambda>(u, r). P u r) (filter (\<lambda>(u, r). Q u r) xs) = filter (\<lambda>(u, r). P u r \<and> Q u r) xs"
  by (induction xs) auto

lemma find_filter_other: "(\<And>x. P x \<Longrightarrow> Q x) \<Longrightarrow> find P (filter Q xs) = find P xs"
  by (induction xs) auto

lemma filter_cong_pairs: "(\<And>u r. (u, r) \<in> set xs \<Longrightarrow> P u r = Q u r) \<Longrightarrow> filter (\<lambda>(u, r). P u r) xs = filter (\<lambda>(u, r). Q u r) xs"
  by (induction xs) auto

lemma grants_deleteUser: "j \<noteq> i \<Longrightarrow> grants_of (user_deleteById i db) j = grants_of db j"
proof (rule grants_cong)
  assume j: "j \<noteq> i"
  show "user_findById j (user_deleteById i db) = user_findById j db"
    unfolding user_findById_def user_deleteById_def using j by (auto intro!: find_filter_other)
  have "filter (\<lambda>(u, r). u = j) (filter (\<lambda>(u, r). u \<noteq> i) (ad_userRoles db)) = filter (\<lambda>(u, r). u = j) (ad_userRoles db)"
    unfolding filter_pairs using j by (intro filter_cong_pairs) auto
  then show "roles_of j (user_deleteById i db) = roles_of j db" by (simp add: roles_of_def user_deleteById_def)
qed

lemma grants_assign: "j \<noteq> u \<Longrightarrow> grants_of (repo_assignRole u r db) j = grants_of db j"
  by (rule grants_cong) (simp_all add: user_findById_def roles_of_def repo_assignRole_def)

lemma grants_unassign: "j \<noteq> u \<Longrightarrow> grants_of (repo_unassignRole u r db) j = grants_of db j"
proof (rule grants_cong)
  assume j: "j \<noteq> u"
  have "filter (\<lambda>(x, y). x = j) (filter (\<lambda>e. e \<noteq> (u, r)) es) = filter (\<lambda>(x, y). x = j) es" for es
    using j by (induction es) auto
  then show "roles_of j (repo_unassignRole u r db) = roles_of j db" by (simp add: roles_of_def repo_unassignRole_def)
qed (simp add: user_findById_def repo_unassignRole_def)

lemma merge_cong: "map rr_permissions rs = map rr_permissions rs' \<Longrightarrow> mergePermissions rs = mergePermissions rs'"
  by (simp add: mergePermissions_def)

lemma grants_renameRole:
  assumes "\<And>r. rr_id (f r) = rr_id r" and "\<And>r. rr_permissions (f r) = rr_permissions r"
  shows "grants_of (role_updateById i f db) j = grants_of db j"
proof -
  have one: "map rr_permissions (filter (\<lambda>x. rr_id x = r) (map (\<lambda>r. if rr_id r = i then f r else r) xs)) =
      map rr_permissions (filter (\<lambda>x. rr_id x = r) xs)" for r xs
    using assms by (induction xs) auto
  have "map rr_permissions (concat (map (\<lambda>(u, r). filter (\<lambda>x. rr_id x = r) (map (\<lambda>r. if rr_id r = i then f r else r) xs)) es)) =
      map rr_permissions (concat (map (\<lambda>(u, r). filter (\<lambda>x. rr_id x = r) xs) es))" for xs es
    by (induction es) (auto simp: one)
  then have "map rr_permissions (roles_of j (role_updateById i f db)) = map rr_permissions (roles_of j db)"
    by (simp add: roles_of_def role_updateById_def)
  from merge_cong [OF this] show ?thesis
    by (simp add: grants_of_def findByIdWithRoles_def user_findById_def role_updateById_def split: option.split)
qed

lemma grants_addRole:
  assumes "\<forall>(u, r) \<in> set (ad_userRoles db). r \<in> rr_id ` set (ad_roles db)" and "rr_id new \<notin> rr_id ` set (ad_roles db)"
  shows "grants_of (db\<lparr>ad_roles := ad_roles db @ [new]\<rparr>) j = grants_of db j"
proof (rule grants_cong)
  have "map (\<lambda>(u, r). filter (\<lambda>x. rr_id x = r) (ad_roles db @ [new])) (filter (\<lambda>(u, r). u = j) (ad_userRoles db)) =
      map (\<lambda>(u, r). filter (\<lambda>x. rr_id x = r) (ad_roles db)) (filter (\<lambda>(u, r). u = j) (ad_userRoles db))"
    using assms by (intro map_cong refl) auto
  moreover have "ad_roles (db\<lparr>ad_roles := ad_roles db @ [new]\<rparr>) = ad_roles db @ [new]"
    "ad_userRoles (db\<lparr>ad_roles := ad_roles db @ [new]\<rparr>) = ad_userRoles db" by simp_all
  ultimately show "roles_of j (db\<lparr>ad_roles := ad_roles db @ [new]\<rparr>) = roles_of j db" unfolding roles_of_def by (simp only:)
qed (simp add: user_findById_def)

lemma grants_addUser: "j \<noteq> us_id new \<Longrightarrow> grants_of (db\<lparr>ad_users := ad_users db @ [new]\<rparr>) j = grants_of db j"
proof (rule grants_cong)
  assume "j \<noteq> us_id new"
  then have "find (\<lambda>u. us_id u = j) (xs @ [new]) = find (\<lambda>u. us_id u = j) xs" for xs by (induction xs) auto
  then show "user_findById j (db\<lparr>ad_users := ad_users db @ [new]\<rparr>) = user_findById j db" by (simp add: user_findById_def)
qed (simp add: roles_of_def)

lemma typed_parts:
  "db_typed db \<Longrightarrow> (u, r) \<in> set (ad_userRoles db) \<Longrightarrow> u \<in> us_id ` set (ad_users db) \<and> r \<in> rr_id ` set (ad_roles db)"
  by (auto simp: db_typed_def)

lemma map_id_update: "(\<And>x. f (g x) = f x) \<Longrightarrow> map f (map (\<lambda>x. if P x then g x else x) xs) = map f xs"
  by simp

lemma typed_updateUser:
  assumes "db_typed db" and "\<And>u. us_id (f u) = us_id u"
  shows "db_typed (user_updateById i f db)"
proof -
  have ids: "map us_id (ad_users (user_updateById i f db)) = map us_id (ad_users db)"
    unfolding user_updateById_def using map_id_update [of us_id f "\<lambda>u. us_id u = i"] assms(2) by simp
  then have "us_id ` set (ad_users (user_updateById i f db)) = us_id ` set (ad_users db)" by (metis list.set_map)
  moreover have "ad_roles (user_updateById i f db) = ad_roles db" "ad_userRoles (user_updateById i f db) = ad_userRoles db"
    by (simp_all add: user_updateById_def)
  ultimately show ?thesis using assms(1) ids by (simp add: db_typed_def)
qed

lemma typed_deleteUser: "db_typed db \<Longrightarrow> db_typed (user_deleteById i db)"
  by (auto simp: db_typed_def user_deleteById_def distinct_map_filter)

lemma typed_assign:
  assumes "db_typed db" and "user_findById u db \<noteq> None" and "role_findById r db \<noteq> None"
  shows "db_typed (repo_assignRole u r db)"
proof -
  have "u \<in> us_id ` set (ad_users db)" "r \<in> rr_id ` set (ad_roles db)"
    using assms(2,3) by (auto simp: user_findById_def role_findById_def dest!: find_in_set)
  then show ?thesis using assms(1) by (auto simp: db_typed_def repo_assignRole_def)
qed

lemma typed_unassign: "db_typed db \<Longrightarrow> db_typed (repo_unassignRole u r db)"
  by (auto simp: db_typed_def repo_unassignRole_def)

lemma typed_deleteRole: "db_typed db \<Longrightarrow> db_typed (role_deleteById i db)"
  by (auto simp: db_typed_def role_deleteById_def distinct_map_filter)

lemma typed_addUser:
  assumes "db_typed db" and "us_id new \<notin> us_id ` set (ad_users db)"
  shows "db_typed (db\<lparr>ad_users := ad_users db @ [new]\<rparr>)"
  using assms by (auto simp: db_typed_def)

lemma typed_addRole:
  assumes "db_typed db" and "rr_id new \<notin> rr_id ` set (ad_roles db)" and "role_typed new"
  shows "db_typed (db\<lparr>ad_roles := ad_roles db @ [new]\<rparr>)"
  using assms by (auto simp: db_typed_def)

lemma typed_updateRole:
  assumes "db_typed db" and "\<And>r. rr_id (f r) = rr_id r" and "\<And>r. r \<in> set (ad_roles db) \<Longrightarrow> rr_id r = i \<Longrightarrow> role_typed (f r)"
  shows "db_typed (role_updateById i f db)"
proof -
  have ids: "map rr_id (ad_roles (role_updateById i f db)) = map rr_id (ad_roles db)"
    unfolding role_updateById_def using map_id_update [of rr_id f "\<lambda>u. rr_id u = i"] assms(2) by simp
  then have "rr_id ` set (ad_roles (role_updateById i f db)) = rr_id ` set (ad_roles db)" by (metis list.set_map)
  moreover have "\<forall>r \<in> set (ad_roles (role_updateById i f db)). role_typed r"
    using assms(1,3) by (auto simp: role_updateById_def db_typed_def)
  moreover have "ad_users (role_updateById i f db) = ad_users db" "ad_userRoles (role_updateById i f db) = ad_userRoles db"
    by (simp_all add: role_updateById_def)
  ultimately show ?thesis using assms(1) ids by (simp add: db_typed_def)
qed

section \<open>Every operation keeps it\<close>

text \<open>A change that touches the grants of at most one user, whose cached grants are dropped.\<close>

lemma change_one:
  assumes "auth_inv st" and "db_typed (f (as_db st))" and "\<And>j. j \<noteq> i \<Longrightarrow> grants_of (f (as_db st)) j = grants_of (as_db st) j"
  shows "auth_inv (drop_grants (Some i) (with_db st f))"
  using assms by (auto simp: auth_inv_def cache_current_def drop_grants_def with_db_def invalidateGrants_def split: if_splits)

lemma change_all: "db_typed (f (as_db st)) \<Longrightarrow> auth_inv (drop_grants None (with_db st f))"
  by (simp add: auth_inv_def cache_current_def drop_grants_def with_db_def invalidateGrants_def)

lemma change_none:
  assumes "auth_inv st" and "db_typed (f (as_db st))" and "\<And>j. grants_of (f (as_db st)) j = grants_of (as_db st) j"
  shows "auth_inv (with_db st f)"
  using assms by (auto simp: auth_inv_def cache_current_def with_db_def)

lemma reread_state [simp]: "snd (reread i msg st) = st"
  by (simp add: reread_def split: option.split)

lemma patch_id [simp]: "us_id (apply_patch hash p u) = us_id u"
  by (simp add: apply_patch_def Let_def split: option.split bool.split)

lemma user_update_inv: "auth_inv st \<Longrightarrow> auth_inv (snd (user_update hash i p st))"
  by (auto simp: user_update_def auth_inv_def [of st] split: option.split
      intro!: change_one typed_updateUser grants_updateUser)

lemma user_delete_inv: "auth_inv st \<Longrightarrow> auth_inv (snd (user_delete i acting st))"
  by (auto simp: user_delete_def auth_inv_def [of st] split: option.split
      intro!: change_one typed_deleteUser grants_deleteUser)

lemma with_roles_None: "findByIdWithRoles i db = None \<longleftrightarrow> user_findById i db = None"
  by (simp add: findByIdWithRoles_def)

lemma assignRole_inv: "auth_inv st \<Longrightarrow> auth_inv (snd (assignRole u r st))"
  unfolding assignRole_def with_roles_None
  by (auto simp: auth_inv_def [of st] intro!: change_one typed_assign grants_assign)

lemma unassignRole_inv: "auth_inv st \<Longrightarrow> auth_inv (snd (unassignRole u r st))"
  by (auto simp: unassignRole_def auth_inv_def [of st] split: option.split
      intro!: change_one typed_unassign grants_unassign)

lemma valid_codes: "code_problem False codes = None \<Longrightarrow> set codes \<subseteq> set PERMISSIONS"
  by (induction codes) (auto split: if_splits)

lemma validated: "validatePermissions codes False = Inr ps \<Longrightarrow> distinct ps \<and> set ps \<subseteq> set PERMISSIONS"
  using valid_codes [of codes] by (auto simp: validatePermissions_def split: option.splits)

lemma role_create_inv:
  assumes "auth_inv st" and "newId \<notin> rr_id ` set (ad_roles (as_db st))"
  shows "auth_inv (snd (role_create newId i st))"
proof -
  have typed: "db_typed (as_db st)" using assms(1) by (simp add: auth_inv_def)
  then have refs: "\<forall>(u, r) \<in> set (ad_userRoles (as_db st)). r \<in> rr_id ` set (ad_roles (as_db st))" by (auto simp: db_typed_def)
  have "auth_inv (with_db st (\<lambda>db. db\<lparr>ad_roles := ad_roles db @ [r]\<rparr>))"
    if "rr_id r = newId" "\<not> rr_isSystem r" "rr_permissions r = ps" "ps \<noteq> []" "validatePermissions codes False = Inr ps" for r ps codes
    using that assms typed refs validated [OF that(5)]
    by (intro change_none typed_addRole grants_addRole) (auto simp: role_typed_def)
  then show ?thesis using assms(1) by (simp add: role_create_def Let_def split: sum.split)
qed

lemma role_changes_ok:
  assumes "role_changes role p db = Inr (name, ps)" and "role_typed role"
  shows "(ps = None \<or> (\<exists>x. ps = Some x \<and> x \<noteq> [] \<and> distinct x \<and> set x \<subseteq> set PERMISSIONS \<and> \<not> (rr_isSystem role \<and> rr_name role = ''SUPER_ADMIN'')))
    \<and> (name \<noteq> None \<longrightarrow> \<not> rr_isSystem role)"
proof -
  have "ps = None \<longleftrightarrow> rp_permissions p = None"
    using assms(1) by (auto simp: role_changes_def bind_r_eq_Inr split: option.splits if_splits)
  moreover have "name \<noteq> None \<longrightarrow> \<not> rr_isSystem role"
    using assms(1) by (auto simp: role_changes_def bind_r_eq_Inr split: option.splits if_splits)
  moreover have "\<exists>x. ps = Some x \<and> x \<noteq> [] \<and> distinct x \<and> set x \<subseteq> set PERMISSIONS \<and> \<not> (rr_isSystem role \<and> rr_name role = ''SUPER_ADMIN'')"
    if p: "rp_permissions p = Some codes" for codes
  proof -
    obtain x where "validatePermissions codes False = Inr x" "x \<noteq> []" "ps = Some x"
      using assms(1) p by (auto simp: role_changes_def bind_r_eq_Inr split: if_splits)
    moreover have "\<not> (rr_isSystem role \<and> rr_name role = ''SUPER_ADMIN'')"
      using assms(1) p by (auto simp: role_changes_def split: if_splits)
    ultimately show ?thesis using validated [of codes x] by blast
  qed
  ultimately show ?thesis by (cases "rp_permissions p") auto
qed

lemma role_update_inv:
  assumes "auth_inv st"
  shows "auth_inv (snd (role_update i p st))"
proof (cases "role_findById i (as_db st)")
  case None
  then show ?thesis using assms by (simp add: role_update_def)
next
  case (Some role)
  have typed: "db_typed (as_db st)" using assms by (simp add: auth_inv_def)
  have role: "role \<in> set (ad_roles (as_db st))" "rr_id role = i"
    using Some by (auto simp: role_findById_def dest!: find_in_set)
  have rt: "role_typed role" using typed role(1) by (simp add: db_typed_def)
  show ?thesis
  proof (cases "role_changes role p (as_db st)")
    case (Inl e)
    then show ?thesis using assms Some by (simp add: role_update_def)
  next
    case (Inr changes)
    obtain name ps where c: "role_changes role p (as_db st) = Inr (name, ps)" using Inr by (cases changes) simp
    define f :: "role_row \<Rightarrow> role_row" where "f = (\<lambda>r. r\<lparr>rr_name := (case name of Some n \<Rightarrow> n | None \<Rightarrow> rr_name r),
      rr_description := (case rp_description p of Some d \<Rightarrow> d | None \<Rightarrow> rr_description r),
      rr_permissions := (case ps of Some x \<Rightarrow> x | None \<Rightarrow> rr_permissions r)\<rparr>)"
    have "r = role" if "r \<in> set (ad_roles (as_db st))" "rr_id r = i" for r
      using same_id [of rr_id "ad_roles (as_db st)" r role] typed that role by (simp add: db_typed_def)
    moreover have "role_typed (f role)"
      using role_changes_ok [OF c rt] rt by (auto simp: f_def role_typed_def split: option.split)
    ultimately have t: "db_typed (role_updateById i f (as_db st))"
      by (intro typed_updateRole typed) (simp add: f_def, metis)
    have keep: "grants_of (role_updateById i f (as_db st)) j = grants_of (as_db st) j" if "ps = None" for j
      by (rule grants_renameRole) (simp_all add: f_def that)
    have next': "role_findById i (role_updateById i f (as_db st)) \<noteq> None"
    proof -
      have "find (\<lambda>r. rr_id r = i) (map (\<lambda>r. if rr_id r = i then f r else r) xs) \<noteq> None" if "role \<in> set xs" for xs
        using that role(2) by (auto simp: find_None_iff f_def)
      then show ?thesis using role(1) by (simp add: role_findById_def role_updateById_def)
    qed
    have "snd (role_update i p st) = st \<or> snd (role_update i p st) =
        (if ps \<noteq> None then drop_grants None (with_db st (role_updateById i f)) else with_db st (role_updateById i f))"
      using next' unfolding role_update_def Some option.case c sum.case prod.case f_def [symmetric] Let_def
      by (auto simp: with_db_def split: option.split)
    then show ?thesis
      using assms t keep change_all [of "role_updateById i f" st] change_none [OF assms, of "role_updateById i f"]
      by (cases "ps = None") auto
  qed
qed

lemma role_delete_inv: "auth_inv st \<Longrightarrow> auth_inv (snd (role_delete i st))"
  by (auto simp: role_delete_def auth_inv_def [of st] split: option.split intro!: change_all typed_deleteRole)

lemma assign_all_keeps:
  assumes "db_typed db" and "user_findById u db \<noteq> None" and "assign_all rs u db = (err, db')"
  shows "db_typed db' \<and> (\<forall>j. j \<noteq> u \<longrightarrow> grants_of db' j = grants_of db j)"
  using assms
proof (induction rs arbitrary: db)
  case (Cons r rs)
  show ?case
  proof (cases "role_findById r db")
    case (Some x)
    have "db_typed (repo_assignRole u r db)" using Cons.prems Some by (intro typed_assign) auto
    moreover have "user_findById u (repo_assignRole u r db) \<noteq> None"
      using Cons.prems(2) by (simp add: user_findById_def repo_assignRole_def)
    ultimately show ?thesis
      using Cons.IH [of "repo_assignRole u r db"] Cons.prems(3) Some by (simp add: grants_assign)
  qed (use Cons.prems in simp)
qed simp

lemma user_create_inv:
  assumes "auth_inv st" and "newId \<notin> us_id ` set (ad_users (as_db st))" and "om_get (as_cache st) newId = None"
  shows "auth_inv (snd (user_create hash newId now i st))"
proof (cases "findByUsername (case ui_tenantId i of Some t \<Rightarrow> t | None \<Rightarrow> ''default'') (ui_username i) (as_db st)")
  case (Some x)
  then show ?thesis using assms(1) by (simp add: user_create_def Let_def)
next
  case None
  define u where "u = \<lparr>us_id = newId, us_tenantId = (case ui_tenantId i of Some t \<Rightarrow> t | None \<Rightarrow> ''default''),
    us_username = ui_username i, us_passwordHash = hash (ui_password i), us_fullName = ui_fullName i, us_email = ui_email i,
    us_isActive = True, us_disabledReason = None, us_mustChangePassword = False, us_createdAt = now\<rparr>"
  let ?db = "(as_db st)\<lparr>ad_users := ad_users (as_db st) @ [u]\<rparr>"
  obtain err db' where a: "assign_all (case ui_roleIds i of Some rs \<Rightarrow> rs | None \<Rightarrow> []) newId ?db = (err, db')"
    by (cases "assign_all (case ui_roleIds i of Some rs \<Rightarrow> rs | None \<Rightarrow> []) newId ?db")
  have id: "us_id u = newId" by (simp add: u_def)
  have "db_typed ?db" using assms(1,2) id by (intro typed_addUser) (simp_all add: auth_inv_def)
  moreover have "user_findById newId ?db \<noteq> None" using id by (auto simp: user_findById_def find_None_iff)
  ultimately have k: "db_typed db'" "\<And>j. j \<noteq> newId \<Longrightarrow> grants_of db' j = grants_of ?db j"
    using assign_all_keeps [OF _ _ a] by auto
  have "grants_of db' j = grants_of (as_db st) j" if "j \<noteq> newId" for j
    using k(2) [OF that] grants_addUser [of j u "as_db st"] that id by simp
  then have inv: "auth_inv (st\<lparr>as_db := db'\<rparr>)"
    using assms(1,3) k(1) by (auto simp: auth_inv_def cache_current_def) (metis option.distinct(1))
  have "snd (user_create hash newId now i st) = st\<lparr>as_db := db'\<rparr>"
    unfolding user_create_def Let_def None option.case u_def [symmetric] a prod.case by (simp split: option.split)
  then show ?thesis using inv by simp
qed

text \<open>A guarded request keeps it when its handler does; the guards only read and cache.\<close>

lemma load_keeps_current:
  assumes "cache_current st" and "om_get (snd (loadLiveGrants now (grants_of (as_db st)) i (as_cache st))) j = Some (v, e)"
  shows "v = grants_of (as_db st) j"
  using load_keeps [OF assms(2)] assms(1) by (auto simp: cache_current_def)

lemma verify_current:
  assumes "cache_current st" and "verifyTokenLive env now (grants_of (as_db st)) tok (as_cache st) = (s, c)"
  shows "cache_current (st\<lparr>as_cache := c\<rparr>) \<and> (\<forall>j. om_get c j \<noteq> None \<longrightarrow> om_get (as_cache st) j \<noteq> None
    \<or> (\<exists>cl. verifyToken env now tok = Some cl \<and> su_userId cl = j))"
proof (cases "verifyToken env now tok")
  case None
  then have "c = as_cache st" using assms(2) by (simp add: verifyTokenLive_def)
  then show ?thesis using assms(1) by (simp add: cache_current_def)
next
  case (Some cl)
  then have c: "c = snd (loadLiveGrants now (grants_of (as_db st)) (su_userId cl) (as_cache st))"
    using assms(2) by (auto simp: verifyTokenLive_def Let_def split: prod.splits)
  have "cache_current (st\<lparr>as_cache := c\<rparr>)" using load_keeps_current [OF assms(1)] by (auto simp: cache_current_def c)
  moreover have "om_get (as_cache st) j \<noteq> None \<or> su_userId cl = j" if "om_get c j \<noteq> None" for j
    using that load_keeps [of now "grants_of (as_db st)" "su_userId cl" "as_cache st" j] unfolding c by fastforce
  ultimately show ?thesis using Some by blast
qed

definition grown :: "auth_env \<Rightarrow> int \<Rightarrow> string option \<Rightarrow> auth_state \<Rightarrow> grants_cache \<Rightarrow> bool" where
  "grown env now header st c =
     (cache_current (st\<lparr>as_cache := c\<rparr>) \<and> (\<forall>j. om_get c j \<noteq> None \<longrightarrow> om_get (as_cache st) j \<noteq> None
        \<or> (\<exists>tok cl. extractBearer header = Some tok \<and> verifyToken env now tok = Some cl \<and> su_userId cl = j)))"

lemma grown_trans:
  "grown env now header st c \<Longrightarrow> grown env now header (st\<lparr>as_cache := c\<rparr>) c' \<Longrightarrow> grown env now header st c'"
  unfolding grown_def by (simp del: not_None_eq) blast

lemma grown_refl: "cache_current st \<Longrightarrow> grown env now header st (as_cache st)"
  by (simp add: grown_def cache_current_def)

lemma deny_grown:
  assumes "cache_current st" and "denyIfPasswordRotation env now (grants_of (as_db st)) header (as_cache st) = (b, c)"
  shows "grown env now header st c"
proof (cases "extractBearer header")
  case None
  then have "c = as_cache st" using assms(2) by (simp add: denyIfPasswordRotation_def)
  then show ?thesis using grown_refl [OF assms(1)] by simp
next
  case (Some tok)
  obtain s where "verifyTokenLive env now (grants_of (as_db st)) tok (as_cache st) = (s, c)"
    using assms(2) Some by (auto simp: denyIfPasswordRotation_def Let_def split: prod.splits)
  from verify_current [OF assms(1) this] show ?thesis using Some by (auto simp: grown_def)
qed

lemma require_grown:
  assumes "cache_current st" and "requireAuth env now (grants_of (as_db st)) required header (as_cache st) = (out, c)"
  shows "grown env now header st c"
proof (cases "\<exists>tok. extractBearer header = Some tok \<and> verifyServiceToken env tok = None")
  case True
  then obtain tok where tok: "extractBearer header = Some tok" "verifyServiceToken env tok = None" by blast
  obtain s c' where v: "verifyTokenLive env now (grants_of (as_db st)) tok (as_cache st) = (s, c')"
    by (cases "verifyTokenLive env now (grants_of (as_db st)) tok (as_cache st)")
  then have "c = c'" using assms(2) tok by (auto simp: requireAuth_def split: option.splits if_splits)
  with verify_current [OF assms(1) v] show ?thesis using tok(1) by (auto simp: grown_def)
next
  case False
  then have "c = as_cache st" using assms(2) by (auto simp: requireAuth_def split: option.splits if_splits)
  then show ?thesis using grown_refl [OF assms(1)] by simp
qed

lemma admin_request_inv:
  assumes inv: "auth_inv st"
    and h: "\<And>s c. grown env now header st c \<Longrightarrow> auth_inv (st\<lparr>as_cache := c\<rparr>) \<Longrightarrow> auth_inv (snd (handler s (st\<lparr>as_cache := c\<rparr>)))"
  shows "auth_inv (snd (admin_request env now required header handler st))"
proof -
  obtain b c1 where d: "denyIfPasswordRotation env now (grants_of (as_db st)) header (as_cache st) = (b, c1)"
    by (cases "denyIfPasswordRotation env now (grants_of (as_db st)) header (as_cache st)")
  obtain out c2 where r: "requireAuth env now (grants_of (as_db st)) required header c1 = (out, c2)"
    by (cases "requireAuth env now (grants_of (as_db st)) required header c1")
  have keep: "grown env now header st c \<Longrightarrow> auth_inv (st\<lparr>as_cache := c\<rparr>)" for c using inv by (simp add: auth_inv_def grown_def)
  have g1: "grown env now header st c1" using deny_grown [OF _ d] inv by (simp add: auth_inv_def)
  then have "cache_current (st\<lparr>as_cache := c1\<rparr>)" by (simp add: grown_def)
  then have "grown env now header (st\<lparr>as_cache := c1\<rparr>) c2" using require_grown [of "st\<lparr>as_cache := c1\<rparr>"] r by simp
  then have g2: "grown env now header st c2" using grown_trans [OF g1] by blast
  show ?thesis
  proof (cases b)
    case True
    then show ?thesis using keep [OF g1] d by (simp add: admin_request_def)
  next
    case False
    then show ?thesis using keep [OF g2] h [OF g2] d r by (cases out) (simp_all add: admin_request_def)
  qed
qed

lemma answer_state [simp]: "snd (answer_status ok r) = snd r"
  by (simp add: answer_status_def)

lemma seeded_typed:
  assumes "distinct [superId, analystId, opsId]"
  shows "auth_inv \<lparr>as_db = seeded superId analystId opsId adminId adminHash now, as_cache = []\<rparr>"
proof -
  have "\<forall>r \<in> set (ad_roles (seeded superId analystId opsId adminId adminHash now)). role_typed r"
  proof -
    have "list_all (\<lambda>(name, description, permissions). name \<noteq> ''SUPER_ADMIN'' \<longrightarrow> permissions \<noteq> [] \<and> distinct permissions
        \<and> list_all (\<lambda>p. p \<in> set PERMISSIONS) permissions) SYSTEM_ROLES"
      by code_simp
    moreover have "list_all (\<lambda>(name, description, permissions). name = ''SUPER_ADMIN'' \<longrightarrow> permissions = [ALL_PERMISSIONS]) SYSTEM_ROLES"
      by (simp add: SYSTEM_ROLES_def)
    ultimately show ?thesis
      by (auto simp: seeded_def role_typed_def list_all_iff dest!: set_zip_rightD)
  qed
  moreover have "map rr_id (ad_roles (seeded superId analystId opsId adminId adminHash now)) = [superId, analystId, opsId]"
    by (simp add: seeded_def SYSTEM_ROLES_def)
  moreover have "rr_id ` set (ad_roles (seeded superId analystId opsId adminId adminHash now)) = {superId, analystId, opsId}"
    by (simp add: seeded_def SYSTEM_ROLES_def)
  ultimately have "db_typed (seeded superId analystId opsId adminId adminHash now)"
    using assms by (simp add: db_typed_def) (simp add: seeded_def)
  then show ?thesis by (simp add: auth_inv_def cache_current_def)
qed

lemma change_inv:
  assumes "auth_inv st" and "changePassword env now salt i current new (as_db st, as_cache st) = (res, db', c')"
  shows "auth_inv \<lparr>as_db = db', as_cache = c'\<rparr>"
proof -
  let ?f = "\<lambda>u. u\<lparr>us_passwordHash := au_hash env salt new, us_mustChangePassword := False\<rparr>"
  have same: "\<lparr>as_db = as_db st, as_cache = as_cache st\<rparr> = st" by simp
  have "(db' = as_db st \<and> c' = as_cache st) \<or> (db' = user_updateById i ?f (as_db st) \<and> c' = invalidateGrants (Some i) (as_cache st))"
    using assms(2) by (auto simp: changePassword_def Let_def split: option.splits if_splits prod.splits)
  moreover have "auth_inv (drop_grants (Some i) (with_db st (user_updateById i ?f)))"
    using assms(1) by (intro change_one typed_updateUser grants_updateUser) (simp_all add: auth_inv_def)
  moreover have "drop_grants (Some i) (with_db st (user_updateById i ?f)) =
      \<lparr>as_db = user_updateById i ?f (as_db st), as_cache = invalidateGrants (Some i) (as_cache st)\<rparr>"
    by (simp add: drop_grants_def with_db_def)
  ultimately show ?thesis using assms(1) same by metis
qed

lemma login_inv: "auth_inv st \<Longrightarrow> auth_inv (st\<lparr>as_cache := snd (login env now (as_db st) tenant name pw (as_cache st))\<rparr>)"
proof -
  assume inv: "auth_inv st"
  have "snd (login env now (as_db st) tenant name pw (as_cache st)) = as_cache st
      \<or> (\<exists>i. snd (login env now (as_db st) tenant name pw (as_cache st)) = invalidateGrants (Some i) (as_cache st))"
    by (auto simp: login_def Let_def split: option.split)
  then show ?thesis
  proof (elim disjE exE)
    assume "snd (login env now (as_db st) tenant name pw (as_cache st)) = as_cache st"
    then show ?thesis using inv by simp
  next
    fix i assume e: "snd (login env now (as_db st) tenant name pw (as_cache st)) = invalidateGrants (Some i) (as_cache st)"
    show ?thesis unfolding e using inv by (auto simp: auth_inv_def cache_current_def invalidateGrants_def)
  qed
qed

lemma auth_step_inv: "auth_step st st' \<Longrightarrow> auth_inv st \<Longrightarrow> auth_inv st'"
proof (induction rule: auth_step.induct)
  case (user_create env now header newId st salt i)
  have "om_get c newId = None" if "grown env now header st c" for c
    using user_create.hyps that unfolding fresh_user_def grown_def by blast
  then show ?case
    unfolding users_create_def using user_create
    by (intro admin_request_inv) (auto simp: fresh_user_def intro!: user_create_inv)
next
  case (role_create newId st env now header ri)
  then show ?case unfolding roles_create_def by (intro admin_request_inv) (auto intro!: role_create_inv)
qed (auto simp: users_update_def users_delete_def users_assignRole_def users_unassignRole_def roles_update_def roles_delete_def
    intro!: admin_request_inv user_update_inv user_delete_inv assignRole_inv unassignRole_inv role_update_inv role_delete_inv
      login_inv change_inv)

lemma auth_reach_inv:
  assumes "auth_step\<^sup>*\<^sup>* \<lparr>as_db = seeded superId analystId opsId adminId adminHash now, as_cache = []\<rparr> st"
    and "distinct [superId, analystId, opsId]"
  shows "auth_inv st"
  using assms(1)
  by (induction rule: rtranclp_induct) (use seeded_typed [OF assms(2)] auth_step_inv in blast)+

section \<open>Properties\<close>

lemma roles_of_in: "set (roles_of i db) \<subseteq> set (ad_roles db)"
  by (auto simp: roles_of_def)

text \<open>
  C17: permissions stay well-typed. Whatever is created, edited, assigned and deleted through the admin
  routes, from the seeded database on: the system role SUPER_ADMIN grants exactly the wildcard, every other role
  a nonempty list of distinct codes of the catalogue; assignments refer to users and
  roles that exist; and the wildcard is held by those assigned to SUPER_ADMIN only.
\<close>

theorem roles_stay_typed:
  assumes "auth_step\<^sup>*\<^sup>* \<lparr>as_db = seeded superId analystId opsId adminId adminHash now, as_cache = []\<rparr> st"
    and "distinct [superId, analystId, opsId]"
  shows "(\<forall>r \<in> set (ad_roles (as_db st)).
      if rr_isSystem r \<and> rr_name r = ''SUPER_ADMIN'' then rr_permissions r = [''*'']
      else rr_permissions r \<noteq> [] \<and> distinct (rr_permissions r) \<and> set (rr_permissions r) \<subseteq> set PERMISSIONS)
    \<and> (\<forall>(u, r) \<in> set (ad_userRoles (as_db st)). u \<in> us_id ` set (ad_users (as_db st)) \<and> r \<in> rr_id ` set (ad_roles (as_db st)))
    \<and> (\<forall>i g. grants_of (as_db st) i = Some g \<longrightarrow> ''*'' \<in> set (lg_permissions g) \<longrightarrow>
        (\<exists>r \<in> set (roles_of i (as_db st)). rr_isSystem r \<and> rr_name r = ''SUPER_ADMIN''))"
proof -
  have typed: "db_typed (as_db st)" using auth_reach_inv [OF assms] by (simp add: auth_inv_def)
  have star: "''*'' \<notin> set PERMISSIONS" by code_simp
  have "\<exists>r \<in> set (roles_of i (as_db st)). rr_isSystem r \<and> rr_name r = ''SUPER_ADMIN''"
    if g: "grants_of (as_db st) i = Some g" "''*'' \<in> set (lg_permissions g)" for i g
  proof -
    have "lg_permissions g = mergePermissions (roles_of i (as_db st))"
      using g(1) by (auto simp: grants_of_def findByIdWithRoles_def split: option.splits if_splits)
    then obtain r where r: "r \<in> set (roles_of i (as_db st))" "''*'' \<in> set (rr_permissions r)"
      using g(2) by (auto simp: mergePermissions_def)
    then have "role_typed r" using typed roles_of_in by (auto simp: db_typed_def)
    then show ?thesis using r star by (auto simp: role_typed_def split: if_splits)
  qed
  moreover have "\<forall>r \<in> set (ad_roles (as_db st)). if rr_isSystem r \<and> rr_name r = ''SUPER_ADMIN'' then rr_permissions r = [''*'']
      else rr_permissions r \<noteq> [] \<and> distinct (rr_permissions r) \<and> set (rr_permissions r) \<subseteq> set PERMISSIONS"
    using typed unfolding db_typed_def role_typed_def ALL_PERMISSIONS_def by blast
  ultimately show ?thesis using typed unfolding db_typed_def by blast
qed

lemma load_is_database:
  assumes "cache_current st"
  shows "fst (loadLiveGrants now (grants_of (as_db st)) i (as_cache st)) = grants_of (as_db st) i"
  using assms grants.hit [of now i "as_cache st"]
  by (cases "fst (grants_start now i (as_cache st))") (simp add: load_answer, fastforce simp: load_answer cache_current_def)

lemma verify_is_database:
  assumes "cache_current st"
  shows "fst (verifyTokenLive env now (grants_of (as_db st)) tok (as_cache st)) = (case verifyToken env now tok of
     None \<Rightarrow> None
   | Some claims \<Rightarrow> map_option (\<lambda>g. claims\<lparr>su_permissions := lg_permissions g, su_mustChangePassword := lg_mustChangePassword g\<rparr>)
       (grants_of (as_db st) (su_userId claims)))"
  unfolding fst_verify load_is_database [OF assms] ..

text \<open>
  Loads of grants that the event loop interleaves with the steps above: a load has left for the database, or it has
  read and not come back. A change of the database overtakes the loads that have read. The flag records
  that a load came back overtaken.
\<close>

datatype grants_load = Reading int string | HasRead int string "live_grants option" bool

fun overtake :: "bool \<Rightarrow> grants_load \<Rightarrow> grants_load" where
  "overtake changed (Reading t i) = Reading t i"
| "overtake changed (HasRead t i g overtaken) = HasRead t i g (overtaken \<or> changed)"

inductive grants_run :: "auth_state \<times> grants_load list \<times> bool \<Rightarrow> auth_state \<times> grants_load list \<times> bool \<Rightarrow> bool" where
  served: "auth_step st st' \<Longrightarrow> grants_run (st, ls, late) (st', map (overtake (as_db st' \<noteq> as_db st)) ls, late)"
| begun: "grants_start t i (as_cache st) = (None, c) \<Longrightarrow> grants_run (st, ls, late) (st\<lparr>as_cache := c\<rparr>, Reading t i # ls, late)"
| read: "Reading t i \<in> set ls
    \<Longrightarrow> grants_run (st, ls, late) (st, HasRead t i (grants_of (as_db st) i) False # remove1 (Reading t i) ls, late)"
| ended: "HasRead t i g overtaken \<in> set ls
    \<Longrightarrow> grants_run (st, ls, late) (st\<lparr>as_cache := grants_finish t i g (as_cache st)\<rparr>, remove1 (HasRead t i g overtaken) ls, late \<or> overtaken)"
| failed: "l \<in> set ls \<Longrightarrow> grants_run (st, ls, late) (st, remove1 l ls, late)"

text \<open>A load that was not overtaken has read what the database still holds.\<close>

fun load_current :: "auth_db \<Rightarrow> grants_load \<Rightarrow> bool" where
  "load_current db (Reading t i) = True"
| "load_current db (HasRead t i g overtaken) = (overtaken \<or> g = grants_of db i)"

lemma overtake_current: "load_current db l \<Longrightarrow> db' = db \<or> changed \<Longrightarrow> load_current db' (overtake changed l)"
  by (cases l) auto

lemma grants_run_inv:
  assumes "grants_run x y" and "snd (snd x) \<or> (auth_inv (fst x) \<and> (\<forall>l \<in> set (fst (snd x)). load_current (as_db (fst x)) l))"
  shows "snd (snd y) \<or> (auth_inv (fst y) \<and> (\<forall>l \<in> set (fst (snd y)). load_current (as_db (fst y)) l))"
  using assms
proof cases
  case (served st st' ls late)
  then show ?thesis using assms(2) auth_step_inv overtake_current [of "as_db st" _ "as_db st'" "as_db st' \<noteq> as_db st"] by auto
next
  case (begun t i st c ls late)
  then have "cache_current (st\<lparr>as_cache := c\<rparr>)" if "cache_current st"
    using that grants.looked [of t i "as_cache st"] by (simp add: cache_current_def)
  then show ?thesis using begun assms(2) by (auto simp: auth_inv_def)
next
  case (read t i ls st late)
  then show ?thesis using assms(2) by (auto dest: notin_set_remove1)
next
  case (ended t i g overtaken ls st late)
  have "cache_current (st\<lparr>as_cache := grants_finish t i g (as_cache st)\<rparr>)" if "cache_current st" "g = grants_of (as_db st) i"
    using that grants.finished [of t i g "as_cache st"] unfolding cache_current_def by fastforce
  then show ?thesis using ended assms(2) by (auto simp: auth_inv_def dest: notin_set_remove1)
next
  case (failed l ls st late)
  then show ?thesis using assms(2) by (auto dest: notin_set_remove1)
qed


text \<open>Where the admin routes let a token through.\<close>

lemma admin_request_passes:
  assumes "cache_current st" and "extractBearer header = Some tok" and "verifyServiceToken env tok = None"
    and "verifyToken env now tok = Some claims" and "grants_of (as_db st) (su_userId claims) = Some g"
    and "\<not> lg_mustChangePassword g" and "p \<in> set (lg_permissions g)"
  shows "\<exists>s c. cache_current (st\<lparr>as_cache := c\<rparr>) \<and> admin_request env now [p] header handler st = handler s (st\<lparr>as_cache := c\<rparr>)"
proof -
  obtain b c1 where d: "denyIfPasswordRotation env now (grants_of (as_db st)) header (as_cache st) = (b, c1)"
    by (cases "denyIfPasswordRotation env now (grants_of (as_db st)) header (as_cache st)")
  obtain out c2 where r: "requireAuth env now (grants_of (as_db st)) [p] header c1 = (out, c2)"
    by (cases "requireAuth env now (grants_of (as_db st)) [p] header c1")
  let ?s = "claims\<lparr>su_permissions := lg_permissions g, su_mustChangePassword := lg_mustChangePassword g\<rparr>"
  have v: "fst (verifyTokenLive env now (grants_of (as_db st)) tok (as_cache st')) = Some ?s"
    if "cache_current st'" "as_db st' = as_db st" for st'
    using verify_is_database [OF that(1)] that(2) assms(4,5) by simp
  have c1: "cache_current (st\<lparr>as_cache := c1\<rparr>)" using deny_grown [OF assms(1) d] by (simp add: grown_def)
  then have c2: "cache_current (st\<lparr>as_cache := c2\<rparr>)" using require_grown [of "st\<lparr>as_cache := c1\<rparr>"] r by (simp add: grown_def)
  have "\<not> b" using fst_deny [of env now "grants_of (as_db st)" header "as_cache st"] d v [OF assms(1) refl] assms(2,6) by simp
  moreover have "out = AuthOk ?s"
    using fst_require [of env now "grants_of (as_db st)" "[p]" header c1] r v [OF c1] assms(2,3,7) by (simp add: hasPermission_def)
  ultimately show ?thesis using c2 d r by (auto simp: admin_request_def)
qed

text \<open>
  Whoever may edit users may do everything. An active user who holds \<open>users:update\<close> and
  nothing else, of whatever tenant, assigns SUPER_ADMIN to itself; the route asks for no more, and
  the next request with the same token passes every guard.
\<close>

theorem updater_becomes_super_admin:
  assumes inv: "auth_inv st"
    and token: "extractBearer header = Some tok" "verifyServiceToken env tok = None" "verifyToken env now tok = Some claims"
    and user: "grants_of (as_db st) (su_userId claims) = Some g" "lg_permissions g = [''users:update'']" "\<not> lg_mustChangePassword g"
    and role: "role_findById superId (as_db st) = Some r" "rr_isSystem r" "rr_name r = ''SUPER_ADMIN''"
  shows "let (status, st') = users_assignRole env now header (su_userId claims) superId st in
    status = 200 \<and> (\<exists>s. fst (requireAuth env now (grants_of (as_db st')) required header (as_cache st')) = AuthOk s)"
proof -
  have cc: "cache_current st" using inv by (simp add: auth_inv_def)
  let ?i = "su_userId claims"
  obtain s c where q: "cache_current (st\<lparr>as_cache := c\<rparr>)"
    "users_assignRole env now header ?i superId st = answer_status 200 (assignRole ?i superId (st\<lparr>as_cache := c\<rparr>))"
    using admin_request_passes [OF cc token(1,2,3) user(1,3), of "''users:update''"] user(2) unfolding users_assignRole_def by auto
  obtain u roles where u: "findByIdWithRoles ?i (as_db st) = Some (u, roles)" "us_isActive u" "user_findById ?i (as_db st) = Some u"
    using grants_of_Some [OF user(1)] by (auto simp: findByIdWithRoles_def)
  let ?st = "drop_grants (Some ?i) (with_db (st\<lparr>as_cache := c\<rparr>) (repo_assignRole ?i superId))"
  have inv': "auth_inv (st\<lparr>as_cache := c\<rparr>)" using inv q(1) by (simp add: auth_inv_def)
  have "auth_inv (snd (assignRole ?i superId (st\<lparr>as_cache := c\<rparr>)))" using assignRole_inv [OF inv'] .
  moreover have a: "assignRole ?i superId (st\<lparr>as_cache := c\<rparr>) = reread ?i ''User not found after role assignment'' ?st"
    using u(1) role(1) by (simp add: assignRole_def)
  ultimately have inv2: "auth_inv ?st" by simp
  have db: "as_db ?st = repo_assignRole ?i superId (as_db st)" by (simp add: drop_grants_def with_db_def)
  have u': "user_findById ?i (as_db ?st) = Some u" unfolding db using u(3) by (simp add: user_findById_def repo_assignRole_def)
  have "r \<in> set (ad_roles (as_db st))" "rr_id r = superId" using role(1) by (auto simp: role_findById_def dest!: find_in_set)
  then have "r \<in> set (roles_of ?i (as_db ?st))" "role_typed r"
    using inv unfolding db by (auto simp: roles_of_def repo_assignRole_def auth_inv_def db_typed_def)
  then have "''*'' \<in> set (mergePermissions (roles_of ?i (as_db ?st)))"
    using role(2,3) by (auto simp: mergePermissions_def role_typed_def ALL_PERMISSIONS_def intro!: bexI [of _ r])
  then obtain g' where g': "grants_of (as_db ?st) ?i = Some g'" "''*'' \<in> set (lg_permissions g')"
    using u' u(2) by (simp add: grants_of_def findByIdWithRoles_def)
  have "cache_current ?st" using inv2 by (simp add: auth_inv_def)
  from verify_is_database [OF this] have "\<exists>s. fst (requireAuth env now (grants_of (as_db ?st)) required header (as_cache ?st)) = AuthOk s"
    unfolding fst_require using token g' by (simp add: hasPermission_def ALL_PERMISSIONS_def)
  moreover have "answer_status 200 (assignRole ?i superId (st\<lparr>as_cache := c\<rparr>)) = (200, ?st)"
    unfolding a using u' by (simp add: reread_def answer_status_def findByIdWithRoles_def)
  ultimately show ?thesis unfolding q(2) by simp
qed

text \<open>
  Whoever may create users may do so for every tenant and with every role. A holder of \<open>users:create\<close>
  alone creates an active SUPER_ADMIN in a tenant it names in the body, without the permission for
  other tenants; the new user has every permission at once.
\<close>

theorem creator_crosses_tenants:
  assumes inv: "auth_inv st"
    and token: "extractBearer header = Some tok" "verifyServiceToken env tok = None" "verifyToken env now tok = Some claims"
    and user: "grants_of (as_db st) (su_userId claims) = Some g" "lg_permissions g = [''users:create'']" "\<not> lg_mustChangePassword g"
    and role: "role_findById superId (as_db st) = Some r" "rr_isSystem r" "rr_name r = ''SUPER_ADMIN''"
    and new: "fresh_user env now header newId st" "findByUsername tenant name (as_db st) = None"
  shows "let (status, st') = users_create env now header salt newId \<lparr>ui_tenantId = Some tenant, ui_username = name, ui_password = pw,
        ui_fullName = None, ui_email = None, ui_roleIds = Some [superId]\<rparr> st in
    status = 201 \<and> (\<exists>u. findByUsername tenant name (as_db st') = Some u \<and> us_id u = newId \<and> us_isActive u)
    \<and> (\<exists>g'. grants_of (as_db st') newId = Some g' \<and> ''*'' \<in> set (lg_permissions g'))"
proof -
  have cc: "cache_current st" using inv by (simp add: auth_inv_def)
  let ?i = "\<lparr>ui_tenantId = Some tenant, ui_username = name, ui_password = pw, ui_fullName = None, ui_email = None, ui_roleIds = Some [superId]\<rparr>"
  obtain s c where q: "users_create env now header salt newId ?i st = answer_status 201 (user_create (au_hash env salt) newId now ?i (st\<lparr>as_cache := c\<rparr>))"
    using admin_request_passes [OF cc token user(1,3), of "''users:create''"] user(2) unfolding users_create_def by auto
  define u where "u = \<lparr>us_id = newId, us_tenantId = tenant, us_username = name, us_passwordHash = au_hash env salt pw,
    us_fullName = None, us_email = None, us_isActive = True, us_disabledReason = None, us_mustChangePassword = False, us_createdAt = now\<rparr>"
  define db where "db = repo_assignRole newId superId ((as_db st)\<lparr>ad_users := ad_users (as_db st) @ [u]\<rparr>)"
  have users: "ad_users db = ad_users (as_db st) @ [u]" "ad_roles db = ad_roles (as_db st)" "(newId, superId) \<in> set (ad_userRoles db)"
    by (simp_all add: db_def repo_assignRole_def)
  have fresh: "newId \<notin> us_id ` set (ad_users (as_db st))" using new(1) by (simp add: fresh_user_def)
  have "find (\<lambda>u. us_id u = newId) (ad_users (as_db st)) = None" using fresh by (auto simp: find_None_iff)
  then have by_id: "user_findById newId db = Some u" unfolding user_findById_def users by (rule find_append_new) (simp add: u_def)
  have by_name: "findByUsername tenant name db = Some u"
    using new(2) unfolding findByUsername_def users by (intro find_append_new) (simp_all add: u_def)
  have "user_create (au_hash env salt) newId now ?i (st\<lparr>as_cache := c\<rparr>) = (Inr (u, roles_of newId db), st\<lparr>as_db := db, as_cache := c\<rparr>)"
    using new(2) role(1) by_id
    by (simp add: user_create_def Let_def role_findById_def findByIdWithRoles_def flip: u_def db_def)
  then have q': "users_create env now header salt newId ?i st = (201, st\<lparr>as_db := db, as_cache := c\<rparr>)"
    unfolding q by (simp add: answer_status_def)
  have "r \<in> set (ad_roles (as_db st))" "rr_id r = superId" using role(1) by (auto simp: role_findById_def dest!: find_in_set)
  then have r: "r \<in> set (roles_of newId db)" "role_typed r"
    using users inv by (auto simp: roles_of_def auth_inv_def db_typed_def intro!: bexI [of _ "(newId, superId)"])
  then have "''*'' \<in> set (mergePermissions (roles_of newId db))"
    using role(2,3) by (auto simp: mergePermissions_def role_typed_def ALL_PERMISSIONS_def intro!: bexI [of _ r])
  then have "\<exists>g'. grants_of db newId = Some g' \<and> ''*'' \<in> set (lg_permissions g')"
    using by_id by (simp add: grants_of_def findByIdWithRoles_def u_def)
  then show ?thesis unfolding q' using by_name by (simp add: u_def)
qed

lemma admin_request_db:
  "as_db (snd (admin_request env now required header handler st)) = as_db st
   \<or> (\<exists>s c. as_db (snd (admin_request env now required header handler st)) = as_db (snd (handler s (st\<lparr>as_cache := c\<rparr>))))"
  by (auto simp: admin_request_def Let_def split: prod.split auth_outcome.split)

lemma admin_request_keeps:
  assumes "P (as_db st)" and "\<And>s c. P (as_db (snd (handler s (st\<lparr>as_cache := c\<rparr>))))"
  shows "P (as_db (snd (admin_request env now required header handler st)))"
  using assms admin_request_db [of env now required header handler st] by metis

definition only_seed_rotates :: "string \<Rightarrow> auth_db \<Rightarrow> bool" where
  "only_seed_rotates a db = (\<forall>u \<in> set (ad_users db). us_mustChangePassword u \<longrightarrow> us_id u = a)"

lemma assign_all_users: "ad_users (snd (assign_all rs u db)) = ad_users db"
  by (induction rs arbitrary: db) (auto simp: repo_assignRole_def split: option.split)

lemma create_users:
  "ad_users (as_db (snd (user_create hash newId now i st))) = ad_users (as_db st)
   \<or> (\<exists>u. ad_users (as_db (snd (user_create hash newId now i st))) = ad_users (as_db st) @ [u] \<and> \<not> us_mustChangePassword u)"
proof (cases "findByUsername (case ui_tenantId i of Some t \<Rightarrow> t | None \<Rightarrow> ''default'') (ui_username i) (as_db st)")
  case None
  let ?u = "\<lparr>us_id = newId, us_tenantId = (case ui_tenantId i of Some t \<Rightarrow> t | None \<Rightarrow> ''default''),
    us_username = ui_username i, us_passwordHash = hash (ui_password i), us_fullName = ui_fullName i, us_email = ui_email i,
    us_isActive = True, us_disabledReason = None, us_mustChangePassword = False, us_createdAt = now\<rparr>"
  have "ad_users (as_db (snd (user_create hash newId now i st))) = ad_users (as_db st) @ [?u]"
    using assign_all_users [of "case ui_roleIds i of Some rs \<Rightarrow> rs | None \<Rightarrow> []" newId "(as_db st)\<lparr>ad_users := ad_users (as_db st) @ [?u]\<rparr>"]
    by (auto simp: user_create_def Let_def None split: option.split prod.split)
  then show ?thesis by (intro disjI2 exI [of _ ?u]) simp
qed (simp add: user_create_def Let_def)

lemma created_users:
  "u \<in> set (ad_users (as_db (snd (user_create hash newId now i st)))) \<Longrightarrow> u \<in> set (ad_users (as_db st)) \<or> \<not> us_mustChangePassword u"
  using create_users [of hash newId now i st] by (elim disjE exE conjE) auto

lemma patch_flag [simp]: "us_mustChangePassword (apply_patch hash p u) = us_mustChangePassword u"
  by (simp add: apply_patch_def Let_def split: option.split bool.split)

lemma rotates_route:
  assumes "only_seed_rotates a (as_db st)" and "\<And>s c. only_seed_rotates a (as_db (snd (handler s (st\<lparr>as_cache := c\<rparr>))))"
  shows "only_seed_rotates a (as_db (snd (admin_request env now required header handler st)))"
  by (rule admin_request_keeps [where P = "only_seed_rotates a"]) (rule assms)+

lemma rotates_rows:
  assumes "only_seed_rotates a (as_db st)"
  shows "only_seed_rotates a (user_updateById i (apply_patch hash p) (as_db st))" "only_seed_rotates a (user_deleteById i (as_db st))"
    "only_seed_rotates a (repo_assignRole i r (as_db st))" "only_seed_rotates a (repo_unassignRole i r (as_db st))"
    "only_seed_rotates a (role_updateById i f (as_db st))" "only_seed_rotates a (role_deleteById i (as_db st))"
    "only_seed_rotates a ((as_db st)\<lparr>ad_roles := rs\<rparr>)"
  using assms by (auto simp: only_seed_rotates_def user_updateById_def user_deleteById_def repo_assignRole_def repo_unassignRole_def
      role_updateById_def role_deleteById_def)

lemma rotates_handlers:
  assumes "only_seed_rotates a (as_db st)"
  shows "only_seed_rotates a (as_db (snd (user_update hash i p st)))" "only_seed_rotates a (as_db (snd (user_delete i acting st)))"
    "only_seed_rotates a (as_db (snd (assignRole i r st)))" "only_seed_rotates a (as_db (snd (unassignRole i r st)))"
    "only_seed_rotates a (as_db (snd (role_create newId ri st)))" "only_seed_rotates a (as_db (snd (role_update i rp st)))"
    "only_seed_rotates a (as_db (snd (role_delete i st)))"
  using assms rotates_rows [OF assms]
  by (simp_all add: user_update_def user_delete_def assignRole_def unassignRole_def role_create_def role_update_def role_delete_def
      with_db_def drop_grants_def Let_def split: option.split sum.split)

lemma rotates_step:
  assumes "auth_step st st'" and "only_seed_rotates a (as_db st)"
  shows "only_seed_rotates a (as_db st')"
  using assms
proof (induction rule: auth_step.induct)
  case (user_create env now header newId st salt i)
  have "only_seed_rotates a (as_db (snd (user_create hash newId t i (st\<lparr>as_cache := c\<rparr>))))" for hash t c
    unfolding only_seed_rotates_def
  proof (intro ballI impI)
    fix u assume "u \<in> set (ad_users (as_db (snd (user_create hash newId t i (st\<lparr>as_cache := c\<rparr>)))))" "us_mustChangePassword u"
    then have "u \<in> set (ad_users (as_db st))" using created_users [of u hash newId t i "st\<lparr>as_cache := c\<rparr>"] by simp
    then show "us_id u = a" using user_create(2) \<open>us_mustChangePassword u\<close> by (simp add: only_seed_rotates_def)
  qed
  then show ?case
    unfolding users_create_def by (intro admin_request_keeps [where P = "only_seed_rotates a"] user_create(2)) simp
next
  case (change env now salt i current new st res db' c')
  have "db' = as_db st \<or> db' = user_updateById i (\<lambda>u. u\<lparr>us_passwordHash := au_hash env salt new, us_mustChangePassword := False\<rparr>) (as_db st)"
    using change(1) by (auto simp: changePassword_def Let_def split: option.splits if_splits prod.splits)
  then show ?case using change(2) by (auto simp: only_seed_rotates_def user_updateById_def)
next
  case (login st env now tenant name pw)
  then show ?case by simp
qed (simp_all add: rotates_route rotates_handlers
    users_update_def users_delete_def users_assignRole_def users_unassignRole_def roles_create_def roles_update_def roles_delete_def)

text \<open>
  Nobody is ever made to change a password somebody else chose. In every reachable state the only
  account that may still have to rotate is the seeded administrator; an account created by an
  administrator and a password reset by one never raise the flag, so the rotation gate
  stops nobody else.
\<close>

theorem rotation_never_forced:
  assumes "auth_step\<^sup>*\<^sup>* \<lparr>as_db = seeded superId analystId opsId adminId adminHash start, as_cache = []\<rparr> st"
    and "u \<in> set (ad_users (as_db st))" and "us_mustChangePassword u"
  shows "us_id u = adminId"
proof -
  have "only_seed_rotates adminId (as_db st)"
    using assms(1)
  proof (induction rule: rtranclp_induct)
    case base
    then show ?case by (simp add: only_seed_rotates_def seeded_def)
  qed (rule rotates_step)
  then show ?thesis using assms(2,3) by (simp add: only_seed_rotates_def)
qed

text \<open>
  The guard of the last role does not hold. Removing a user's only role is refused with a
  conflict, but deleting that role, which is no system role, removes the assignment with it and leaves the
  user without any role.
\<close>

theorem role_delete_strips_last_role:
  assumes "findByIdWithRoles i (as_db st) = Some (u, [r])" and "role_findById (rr_id r) (as_db st) = Some r" and "\<not> rr_isSystem r"
    and "\<forall>e \<in> set (ad_userRoles (as_db st)). fst e = i \<longrightarrow> snd e = rr_id r"
  shows "unassignRole i (rr_id r) st = (Inl (AdminConflict ''Cannot remove the user's last remaining role''), st)
    \<and> fst (role_delete (rr_id r) st) = Inr ()
    \<and> findByIdWithRoles i (as_db (snd (role_delete (rr_id r) st))) = Some (u, [])"
proof -
  have u: "user_findById i (as_db st) = Some u" using assms(1) by (auto simp: findByIdWithRoles_def)
  have none: "filter (\<lambda>(x, y). x = i) (filter (\<lambda>(x, y). y \<noteq> k) es) = []"
    if "\<forall>e \<in> set es. fst e = i \<longrightarrow> snd e = k" for es k
    using that by (induction es) auto
  have db: "as_db (snd (role_delete (rr_id r) st)) = role_deleteById (rr_id r) (as_db st)" "fst (role_delete (rr_id r) st) = Inr ()"
    using assms(2,3) by (simp_all add: role_delete_def drop_grants_def with_db_def)
  have "roles_of i (role_deleteById (rr_id r) (as_db st)) = []"
    using none [OF assms(4)] by (simp add: roles_of_def role_deleteById_def)
  moreover have "user_findById i (role_deleteById (rr_id r) (as_db st)) = Some u"
    using u by (simp add: user_findById_def role_deleteById_def)
  ultimately show ?thesis using assms(1) db by (simp add: unassignRole_def findByIdWithRoles_def)
qed

text \<open>
  A failed creation keeps the user. With an unknown role id the answer is an error, but the user
  exists, active, with the password given; trying again is refused as a conflict.
\<close>

theorem failed_create_keeps_user:
  assumes "findByUsername tenant name (as_db st) = None" and "role_findById bad (as_db st) = None"
    and "i = \<lparr>ui_tenantId = Some tenant, ui_username = name, ui_password = pw, ui_fullName = None, ui_email = None, ui_roleIds = Some (bad # others)\<rparr>"
  shows "let (answer, st') = user_create hash newId now i st in
    answer = Inl (AdminNotFound (''Role not found: '' @ bad))
    \<and> (\<exists>u. findByUsername tenant name (as_db st') = Some u \<and> us_isActive u \<and> us_passwordHash u = hash pw)
    \<and> user_create hash' newId' now' i st' = (Inl (AdminConflict ''A user with this username already exists in this tenant''), st')"
proof -
  let ?u = "\<lparr>us_id = newId, us_tenantId = tenant, us_username = name, us_passwordHash = hash pw, us_fullName = None, us_email = None,
    us_isActive = True, us_disabledReason = None, us_mustChangePassword = False, us_createdAt = now\<rparr>"
  let ?db = "(as_db st)\<lparr>ad_users := ad_users (as_db st) @ [?u]\<rparr>"
  have "role_findById bad ?db = None" using assms(2) by (simp add: role_findById_def)
  then have c: "user_create hash newId now i st = (Inl (AdminNotFound (''Role not found: '' @ bad)), st\<lparr>as_db := ?db\<rparr>)"
    using assms(1,3) by (simp add: user_create_def Let_def)
  have found: "findByUsername tenant name ?db = Some ?u"
    using find_append_new [of "\<lambda>u. us_tenantId u = tenant \<and> us_username u = name" "ad_users (as_db st)" ?u] assms(1)
    by (simp add: findByUsername_def)
  then have "user_create hash' newId' now' i (st\<lparr>as_db := ?db\<rparr>) =
      (Inl (AdminConflict ''A user with this username already exists in this tenant''), st\<lparr>as_db := ?db\<rparr>)"
    using assms(3) by (simp add: user_create_def Let_def)
  then show ?thesis unfolding c using found by simp
qed

section \<open>Instances\<close>

definition sample_seed :: auth_db where
  "sample_seed = seeded ''r1'' ''r2'' ''r3'' ''a1'' ''pw'' 0"

definition helper_user :: user_row where
  "helper_user = \<lparr>us_id = ''u2'', us_tenantId = ''acme'', us_username = ''bea'', us_passwordHash = ''pw'', us_fullName = None,
     us_email = None, us_isActive = True, us_disabledReason = None, us_mustChangePassword = False, us_createdAt = 1\<rparr>"

definition helper_role :: "string \<Rightarrow> role_row" where
  "helper_role p = \<lparr>rr_id = ''r9'', rr_tenantId = ''acme'', rr_name = ''HELPDESK'', rr_description = None,
     rr_permissions = [p], rr_isSystem = False\<rparr>"

text \<open>The seeded database with a user of another tenant whose only role has one permission.\<close>

definition helper_state :: "string \<Rightarrow> auth_state" where
  "helper_state p = \<lparr>as_db = sample_seed\<lparr>ad_users := ad_users sample_seed @ [helper_user], ad_roles := ad_roles sample_seed @ [helper_role p],
     ad_userRoles := ad_userRoles sample_seed @ [(''u2'', ''r9'')]\<rparr>, as_cache = []\<rparr>"

definition helper_subject :: subject where
  "helper_subject = \<lparr>su_userId = ''u2'', su_tenantId = ''acme'', su_username = ''bea'', su_permissions = [], su_mustChangePassword = False\<rparr>"

definition helper_auth :: auth_env where
  "helper_auth = sample_auth\<lparr>au_decode := \<lambda>_ tok. if tok = ''tok'' then Some (subject_payload helper_subject) else None\<rparr>"

lemma helper_facts:
  assumes "p \<in> set PERMISSIONS"
  shows "auth_inv (helper_state p)"
    and "grants_of (as_db (helper_state p)) ''u2'' = Some \<lparr>lg_permissions = [p], lg_mustChangePassword = False\<rparr>"
    and "\<exists>r. role_findById ''r1'' (as_db (helper_state p)) = Some r \<and> rr_isSystem r \<and> rr_name r = ''SUPER_ADMIN''"
    and "verifyToken helper_auth t ''tok'' = Some helper_subject" and "verifyServiceToken helper_auth ''tok'' = None"
proof -
  have base: "db_typed sample_seed"
    using seeded_typed [of "''r1''" "''r2''" "''r3''" "''a1''" "''pw''" 0] by (simp add: auth_inv_def sample_seed_def)
  have ids: "us_id ` set (ad_users sample_seed) = {''a1''}" "rr_id ` set (ad_roles sample_seed) = {''r1'', ''r2'', ''r3''}"
    "ad_userRoles sample_seed = [(''a1'', ''r1'')]"
    by (simp_all add: sample_seed_def seeded_def SYSTEM_ROLES_def)
  let ?db1 = "sample_seed\<lparr>ad_users := ad_users sample_seed @ [helper_user]\<rparr>"
  let ?db2 = "?db1\<lparr>ad_roles := ad_roles ?db1 @ [helper_role p]\<rparr>"
  have "db_typed ?db1" using base ids by (intro typed_addUser) (simp_all add: helper_user_def)
  then have "db_typed ?db2" using ids assms by (intro typed_addRole) (simp_all add: helper_role_def role_typed_def)
  moreover have "user_findById ''u2'' ?db2 \<noteq> None" "role_findById ''r9'' ?db2 \<noteq> None"
    unfolding user_findById_def role_findById_def
    by (rule find_known [of helper_user], simp, simp add: helper_user_def, rule find_known [of "helper_role p"], simp, simp add: helper_role_def)
  ultimately have "db_typed (repo_assignRole ''u2'' ''r9'' ?db2)" by (rule typed_assign)
  moreover have db: "as_db (helper_state p) = repo_assignRole ''u2'' ''r9'' ?db2"
    using ids by (simp add: helper_state_def repo_assignRole_def)
  ultimately show "auth_inv (helper_state p)" unfolding auth_inv_def db by (simp add: cache_current_def helper_state_def)
  have "js_set [p] = [p]" by (simp add: js_set_def)
  then show "grants_of (as_db (helper_state p)) ''u2'' = Some \<lparr>lg_permissions = [p], lg_mustChangePassword = False\<rparr>"
    by (simp add: grants_of_def findByIdWithRoles_def user_findById_def roles_of_def helper_state_def sample_seed_def seeded_def SYSTEM_ROLES_def
        helper_user_def helper_role_def mergePermissions_def)
  show "\<exists>r. role_findById ''r1'' (as_db (helper_state p)) = Some r \<and> rr_isSystem r \<and> rr_name r = ''SUPER_ADMIN''"
    by (simp add: role_findById_def helper_state_def sample_seed_def seeded_def SYSTEM_ROLES_def)
  show "verifyToken helper_auth t ''tok'' = Some helper_subject"
    by (rule verify_minted) (simp_all add: helper_auth_def sample_auth_def jwt_secret_ok_def)
  show "verifyServiceToken helper_auth ''tok'' = None" by (simp add: verifyServiceToken_def helper_auth_def sample_auth_def)
qed

lemma helper_codes: "''users:update'' \<in> set PERMISSIONS" "''users:create'' \<in> set PERMISSIONS"
  by code_simp+

theorem roles_stay_typed_witness:
  "\<exists>st. auth_step\<^sup>*\<^sup>* \<lparr>as_db = sample_seed, as_cache = []\<rparr> st \<and> (\<forall>(u, r) \<in> set (ad_userRoles (as_db st)). r \<in> rr_id ` set (ad_roles (as_db st)))"
proof -
  have "auth_step \<lparr>as_db = sample_seed, as_cache = []\<rparr> (snd (roles_delete helper_auth 5 (Some ''Bearer tok'') ''r2'' \<lparr>as_db = sample_seed, as_cache = []\<rparr>))"
    by (rule auth_step.role_delete)
  then have r: "auth_step\<^sup>*\<^sup>* \<lparr>as_db = sample_seed, as_cache = []\<rparr>
      (snd (roles_delete helper_auth 5 (Some ''Bearer tok'') ''r2'' \<lparr>as_db = sample_seed, as_cache = []\<rparr>))" by (rule r_into_rtranclp)
  have d: "distinct [''r1'', ''r2'', ''r3'']" by simp
  from roles_stay_typed [OF r [unfolded sample_seed_def] d] show ?thesis using r unfolding sample_seed_def by blast
qed


theorem updater_becomes_super_admin_witness:
  "\<exists>s. fst (requireAuth helper_auth 9 (grants_of (as_db (snd (users_assignRole helper_auth 9 (Some ''Bearer tok'') ''u2'' ''r1'' (helper_state ''users:update'')))))
     [''tenants:admin_any''] (Some ''Bearer tok'')
     (as_cache (snd (users_assignRole helper_auth 9 (Some ''Bearer tok'') ''u2'' ''r1'' (helper_state ''users:update''))))) = AuthOk s"
proof -
  note f = helper_facts [OF helper_codes(1)]
  obtain r where r: "role_findById ''r1'' (as_db (helper_state ''users:update'')) = Some r" "rr_isSystem r" "rr_name r = ''SUPER_ADMIN''"
    using f(3) by blast
  have i: "su_userId helper_subject = ''u2''" by (simp add: helper_subject_def)
  note t = updater_becomes_super_admin [OF f(1) sample_auth_facts(5) f(5) f(4), unfolded i, OF f(2) _ _ r, of 9 "[''tenants:admin_any'']"]
  then show ?thesis
    by (cases "users_assignRole helper_auth 9 (Some ''Bearer tok'') ''u2'' ''r1'' (helper_state ''users:update'')") simp
qed

theorem creator_crosses_tenants_witness:
  "fst (users_create helper_auth 9 (Some ''Bearer tok'') [] ''u3'' \<lparr>ui_tenantId = Some ''other'', ui_username = ''eve'', ui_password = ''12345678'',
     ui_fullName = None, ui_email = None, ui_roleIds = Some [''r1'']\<rparr> (helper_state ''users:create'')) = 201"
proof -
  note f = helper_facts [OF helper_codes(2)]
  obtain r where r: "role_findById ''r1'' (as_db (helper_state ''users:create'')) = Some r" "rr_isSystem r" "rr_name r = ''SUPER_ADMIN''"
    using f(3) by blast
  have i: "su_userId helper_subject = ''u2''" by (simp add: helper_subject_def)
  have fresh: "fresh_user helper_auth 9 (Some ''Bearer tok'') ''u3'' (helper_state ''users:create'')"
    using f(4) [of 9] i sample_auth_facts(5) by (simp add: fresh_user_def helper_state_def helper_user_def sample_seed_def seeded_def)
  have free: "findByUsername ''other'' ''eve'' (as_db (helper_state ''users:create'')) = None"
    by (simp add: findByUsername_def helper_state_def helper_user_def sample_seed_def seeded_def)
  note t = creator_crosses_tenants [OF f(1) sample_auth_facts(5) f(5) f(4), unfolded i, OF f(2) _ _ r fresh free, of "[]" "''12345678''"]
  then show ?thesis
    by (cases "users_create helper_auth 9 (Some ''Bearer tok'') [] ''u3'' \<lparr>ui_tenantId = Some ''other'', ui_username = ''eve'',
      ui_password = ''12345678'', ui_fullName = None, ui_email = None, ui_roleIds = Some [''r1'']\<rparr> (helper_state ''users:create'')") simp
qed

theorem rotation_never_forced_witness:
  "\<exists>u. u \<in> set (ad_users sample_seed) \<and> us_mustChangePassword u \<and> us_id u = ''a1''"
proof -
  obtain u where u: "u \<in> set (ad_users sample_seed)" "us_mustChangePassword u" by (simp add: sample_seed_def seeded_def)
  have "auth_step\<^sup>*\<^sup>* \<lparr>as_db = seeded ''r1'' ''r2'' ''r3'' ''a1'' ''pw'' 0, as_cache = []\<rparr> \<lparr>as_db = sample_seed, as_cache = []\<rparr>"
    by (simp add: sample_seed_def)
  from rotation_never_forced [OF this] u show ?thesis by auto
qed

theorem role_delete_strips_last_role_witness:
  "\<exists>u. findByIdWithRoles ''u2'' (as_db (snd (role_delete ''r9'' (helper_state ''users:update'')))) = Some (u, [])"
proof -
  have "findByIdWithRoles ''u2'' (as_db (helper_state ''users:update'')) = Some (helper_user, [helper_role ''users:update''])"
    "role_findById (rr_id (helper_role ''users:update'')) (as_db (helper_state ''users:update'')) = Some (helper_role ''users:update'')"
    "\<not> rr_isSystem (helper_role ''users:update'')"
    "\<forall>e \<in> set (ad_userRoles (as_db (helper_state ''users:update''))). fst e = ''u2'' \<longrightarrow> snd e = rr_id (helper_role ''users:update'')"
    by (simp_all add: findByIdWithRoles_def user_findById_def roles_of_def role_findById_def helper_state_def sample_seed_def seeded_def
        SYSTEM_ROLES_def helper_user_def helper_role_def)
  from role_delete_strips_last_role [OF this] show ?thesis by (simp add: helper_role_def)
qed

theorem failed_create_keeps_user_witness:
  "fst (user_create id ''u3'' 5 \<lparr>ui_tenantId = Some ''acme'', ui_username = ''eve'', ui_password = ''pw'', ui_fullName = None, ui_email = None,
     ui_roleIds = Some [''none'']\<rparr> (helper_state ''users:create'')) = Inl (AdminNotFound ''Role not found: none'')"
proof -
  have "findByUsername ''acme'' ''eve'' (as_db (helper_state ''users:create'')) = None"
    "role_findById ''none'' (as_db (helper_state ''users:create'')) = None"
    by (simp_all add: findByUsername_def role_findById_def helper_state_def sample_seed_def seeded_def SYSTEM_ROLES_def helper_user_def helper_role_def)
  note f = failed_create_keeps_user [OF this refl, of id "''u3''" 5 "''pw''" "[]" id "''u3''" 5]
  then show ?thesis
    by (cases "user_create id ''u3'' 5 \<lparr>ui_tenantId = Some ''acme'', ui_username = ''eve'', ui_password = ''pw'', ui_fullName = None,
      ui_email = None, ui_roleIds = Some [''none'']\<rparr> (helper_state ''users:create'')") simp
qed

end
