(* ===== verification/RateLimit.thy ===== *)
theory RateLimit
  imports JsValue
begin

text \<open>
  The in-process token buckets (\<open>shared/auth/rate-limiter.ts\<close>,
  \<open>shared/middlewares/ip-rate-limit.middleware.ts\<close>): one by API key, one by client address with
  a timer that prunes idle buckets. The locale states a limiter by the level it has for a key at a
  time; how many requests pass in a window, and that a client that keeps to its rate is never
  stopped, are proved there for both.
\<close>

section \<open>The buckets\<close>

record bucket =
  bk_tokens :: real
  bk_capacity :: real
  bk_refillPerMs :: real
  bk_lastRefill :: int

type_synonym buckets = "(string, bucket) omap"

definition fresh_bucket :: "int \<Rightarrow> real \<Rightarrow> bucket" where
  "fresh_bucket now capacity =
     \<lparr>bk_tokens = capacity, bk_capacity = capacity, bk_refillPerMs = capacity / 60000, bk_lastRefill = now\<rparr>"

definition checkRate :: "int \<Rightarrow> string \<Rightarrow> real \<Rightarrow> buckets \<Rightarrow> bool \<times> buckets" where
  "checkRate now key ratePerMinute bs =
     (let capacity = max ratePerMinute 1;
          b = (case om_get bs key of
                 None \<Rightarrow> fresh_bucket now capacity
               | Some b \<Rightarrow>
                   if bk_capacity b \<noteq> capacity then fresh_bucket now capacity
                   else b\<lparr>bk_tokens := min (bk_capacity b) (bk_tokens b + of_int (now - bk_lastRefill b) * bk_refillPerMs b),
                          bk_lastRefill := now\<rparr>)
      in if bk_tokens b < 1 then (False, om_set key b bs)
         else (True, om_set key (b\<lparr>bk_tokens := bk_tokens b - 1\<rparr>) bs))"

text \<open>The middleware by address repeats the function, over a map of its own, and prunes it.\<close>

definition ip_checkRate :: "int \<Rightarrow> string \<Rightarrow> real \<Rightarrow> buckets \<Rightarrow> bool \<times> buckets" where
  "ip_checkRate now key ratePerMinute bs = checkRate now key ratePerMinute bs"

definition EVICT_AFTER_MS :: int where "EVICT_AFTER_MS = 10 * 60 * 1000"

definition prune :: "int \<Rightarrow> buckets \<Rightarrow> buckets" where
  "prune now bs = filter (\<lambda>e. \<not> bk_lastRefill (snd e) < now - EVICT_AFTER_MS) bs"

text \<open>\<open>fromEnv\<close> is the number the variable holds, if it is set and reads as a finite one.\<close>

definition ip_rate :: "real option \<Rightarrow> real option \<Rightarrow> real" where
  "ip_rate fromEnv ratePerMinute =
     (case fromEnv of
        Some v \<Rightarrow> if 0 < v then v else case_option 20 id ratePerMinute
      | None \<Rightarrow> case_option 20 id ratePerMinute)"

definition clientIp :: "string option \<Rightarrow> string \<Rightarrow> string" where
  "clientIp xff socket =
     (let first = (case xff of Some h \<Rightarrow> js_trim (hd (split_on (CHR '','') h)) | None \<Rightarrow> [])
      in if first \<noteq> [] then first else if socket \<noteq> [] then socket else ''unknown'')"

text \<open>Whether the request passes (otherwise it is answered 429).\<close>

definition ipRateLimit ::
    "real \<Rightarrow> string option \<Rightarrow> int \<Rightarrow> string option \<Rightarrow> string \<Rightarrow> buckets \<Rightarrow> bool \<times> buckets" where
  "ipRateLimit ratePerMinute routeLabel now xff socket bs =
     (let ip = clientIp xff socket;
          key = (case routeLabel of Some l \<Rightarrow> if l \<noteq> [] then l @ '':'' @ ip else ip | None \<Rightarrow> ip)
      in ip_checkRate now key ratePerMinute bs)"

section \<open>What a limiter promises\<close>

text \<open>
  \<open>level s k r t\<close> is what a request of \<open>k\<close> at the rate \<open>r\<close> finds at the time \<open>t\<close>. It grows by the rate up
  to the capacity, a request passes when it is at least one and then takes one, and no other key
  sees it.
\<close>

locale rate_limiter =
  fixes admit :: "int \<Rightarrow> 'k \<Rightarrow> real \<Rightarrow> 's \<Rightarrow> bool \<times> 's"
    and level :: "'s \<Rightarrow> 'k \<Rightarrow> real \<Rightarrow> int \<Rightarrow> real"
    and ok :: "'s \<Rightarrow> int \<Rightarrow> bool"
  assumes refill: "ok s t \<Longrightarrow> t \<le> t' \<Longrightarrow>
      level s k r t' = min (max r 1) (level s k r t + of_int (t' - t) * (max r 1 / 60000))"
    and decide: "ok s t \<Longrightarrow> fst (admit t k r s) \<longleftrightarrow> 1 \<le> level s k r t"
    and spend: "ok s t \<Longrightarrow> level (snd (admit t k r s)) k r t = level s k r t - (if fst (admit t k r s) then 1 else 0)"
    and other: "ok s t \<Longrightarrow> j \<noteq> k \<Longrightarrow> level (snd (admit t k r s)) j r' t = level s j r' t"
    and capacity_only: "max r' 1 = max r 1 \<Longrightarrow> level s k r' t = level s k r t"
    and switch: "ok s t \<Longrightarrow> max r' 1 \<noteq> max r 1 \<Longrightarrow> level (snd (admit t k r s)) k r' t = max r' 1"
    and keep: "ok s t \<Longrightarrow> ok (snd (admit t k r s)) t"
    and later: "ok s t \<Longrightarrow> t \<le> t' \<Longrightarrow> ok s t'"
    and nonneg: "ok s t \<Longrightarrow> 0 \<le> level s k r t"
begin

lemma level_le: "ok s t \<Longrightarrow> level s k r t \<le> max r 1"
  using refill [of s t t k r] by simp

lemma level_growth: "ok s t \<Longrightarrow> t \<le> t' \<Longrightarrow> level s k r t' \<le> level s k r t + of_int (t' - t) * (max r 1 / 60000)"
  by (subst refill [of s t t']) auto

text \<open>A request takes from its own key what it is granted, and nothing from the others.\<close>

lemma pay:
  assumes "ok s t" and "j = k \<Longrightarrow> r' = r"
  shows "level (snd (admit t j r' s)) k r t + (if j = k \<and> fst (admit t j r' s) then 1 else 0) = level s k r t"
  using assms by (cases "j = k") (simp_all add: spend other)

text \<open>A key that waits a token's time between its requests is never stopped.\<close>

lemma spaced:
  assumes "ok s t" and "t \<le> t'" and "60000 \<le> of_int (t' - t) * max r 1"
  shows "fst (admit t' k r s)"
proof -
  have "1 \<le> of_int (t' - t) * (max r 1 / 60000)" using assms(3) by (simp add: field_simps)
  moreover have "0 \<le> level s k r t" using assms(1) by (rule nonneg)
  ultimately have "1 \<le> level s k r t'" by (subst refill [OF assms(1,2)]) simp
  then show ?thesis using decide [OF later [OF assms(1,2)]] by blast
qed

end

text \<open>Requests in time order, each at its time with its key and rate, and how many of a key pass.\<close>

fun passed :: "(int \<Rightarrow> 'k \<Rightarrow> real \<Rightarrow> 's \<Rightarrow> bool \<times> 's) \<Rightarrow> 'k \<Rightarrow> (int \<times> 'k \<times> real) list \<Rightarrow> 's \<Rightarrow> nat" where
  "passed admit k [] s = 0"
| "passed admit k ((t, j, r) # rs) s =
     (if j = k \<and> fst (admit t j r s) then 1 else 0) + passed admit k rs (snd (admit t j r s))"

context rate_limiter
begin

lemma passed_le:
  assumes "ok s t0" and "sorted (t0 # map fst rs @ [t1])" and "\<forall>e \<in> set rs. fst (snd e) = k \<longrightarrow> snd (snd e) = r"
  shows "real (passed admit k rs s) \<le> level s k r t0 + of_int (t1 - t0) * (max r 1 / 60000)"
  using assms
proof (induction rs arbitrary: s t0)
  case Nil
  then have "0 \<le> of_int (t1 - t0) * (max r 1 / 60000)" by (intro mult_nonneg_nonneg) auto
  then show ?case using nonneg [OF Nil.prems(1), of k r] by simp
next
  case (Cons e rs)
  obtain t j r' where e: "e = (t, j, r')" by (cases e)
  have t: "t0 \<le> t" "sorted (t # map fst rs @ [t1])" and r: "j = k \<Longrightarrow> r' = r" using Cons.prems by (auto simp: e)
  have ok: "ok s t" using Cons.prems(1) t(1) by (rule later)
  let ?s = "snd (admit t j r' s)"
  have "real (passed admit k rs ?s) \<le> level ?s k r t + of_int (t1 - t) * (max r 1 / 60000)"
    using Cons.IH [OF keep [OF ok] t(2)] Cons.prems(3) by simp
  moreover have "level s k r t \<le> level s k r t0 + of_int (t - t0) * (max r 1 / 60000)" using Cons.prems(1) t(1) by (rule level_growth)
  moreover have "level ?s k r t + (if j = k \<and> fst (admit t j r' s) then 1 else 0) = level s k r t" using ok r by (rule pay)
  moreover have "of_int (t - t0) * (max r 1 / 60000) + of_int (t1 - t) * (max r 1 / 60000) = of_int (t1 - t0) * (max r 1 / 60000)"
    by (simp flip: distrib_right)
  moreover have "real (passed admit k (e # rs) s) = (if j = k \<and> fst (admit t j r' s) then 1 else 0) + real (passed admit k rs ?s)"
    by (auto simp: e)
  ultimately show ?case by linarith
qed

text \<open>In a window no more of a key pass than its capacity and what the window refills.\<close>

lemma passed_window:
  assumes "ok s t0" and "sorted (t0 # map fst rs @ [t1])" and "\<forall>e \<in> set rs. fst (snd e) = k \<longrightarrow> snd (snd e) = r"
  shows "real (passed admit k rs s) \<le> max r 1 * (1 + of_int (t1 - t0) / 60000)"
proof -
  have "max r 1 * (1 + of_int (t1 - t0) / 60000) = max r 1 + of_int (t1 - t0) * (max r 1 / 60000)" by (simp add: algebra_simps)
  then show ?thesis using passed_le [OF assms] level_le [OF assms(1), of k r] by linarith
qed

end

text \<open>
  A limiter that also forgets keys: forgetting changes no level, so no decision, now or later.
\<close>

locale pruned_limiter = rate_limiter +
  fixes forget :: "int \<Rightarrow> 's \<Rightarrow> 's"
  assumes forget_level: "ok s t \<Longrightarrow> level (forget t s) k r t = level s k r t"
    and forget_ok: "ok s t \<Longrightarrow> ok (forget t s) t"
begin

text \<open>States with the same levels give the same answers, and keep the same levels.\<close>

lemma same_levels_step:
  assumes "ok s t" and "ok s' t" and "\<And>k r. level s' k r t = level s k r t" and "t \<le> t'"
  shows "fst (admit t' j r s') = fst (admit t' j r s)"
    and "level (snd (admit t' j r s')) k r' t' = level (snd (admit t' j r s)) k r' t'"
proof -
  have ok: "ok s t'" "ok s' t'" using assms(1,2,4) by (blast intro: later)+
  have l: "level s' k r t' = level s k r t'" for k r
    by (simp add: refill [OF assms(1,4)] refill [OF assms(2,4)] assms(3))
  show same: "fst (admit t' j r s') = fst (admit t' j r s)" by (simp add: decide ok l)
  show "level (snd (admit t' j r s')) k r' t' = level (snd (admit t' j r s)) k r' t'"
  proof (cases "k = j")
    case True
    then show ?thesis using same
      by (cases "max r' 1 = max r 1") (simp_all add: capacity_only [of r' r] switch spend ok l)
  next
    case False
    then show ?thesis by (simp add: other ok l)
  qed
qed

end

section \<open>The two limiters\<close>

definition level_of :: "buckets \<Rightarrow> string \<Rightarrow> real \<Rightarrow> int \<Rightarrow> real" where
  "level_of bs k r t =
     (case om_get bs k of
        None \<Rightarrow> max r 1
      | Some b \<Rightarrow> if bk_capacity b \<noteq> max r 1 then max r 1
                  else min (max r 1) (bk_tokens b + of_int (t - bk_lastRefill b) * (max r 1 / 60000)))"

definition bucket_ok :: "bucket \<Rightarrow> int \<Rightarrow> bool" where
  "bucket_ok b t \<longleftrightarrow> bk_lastRefill b \<le> t \<and> 0 \<le> bk_tokens b \<and> 1 \<le> bk_capacity b \<and> bk_refillPerMs b = bk_capacity b / 60000"

definition buckets_ok :: "buckets \<Rightarrow> int \<Rightarrow> bool" where
  "buckets_ok bs t \<longleftrightarrow> (\<forall>k b. om_get bs k = Some b \<longrightarrow> bucket_ok b t)"

definition found_bucket :: "int \<Rightarrow> string \<Rightarrow> real \<Rightarrow> buckets \<Rightarrow> bucket" where
  "found_bucket now k r bs =
     \<lparr>bk_tokens = level_of bs k r now, bk_capacity = max r 1, bk_refillPerMs = max r 1 / 60000, bk_lastRefill = now\<rparr>"

lemma checkRate_found:
  assumes "buckets_ok bs now"
  shows "checkRate now k r bs =
    (let b = found_bucket now k r bs
     in if bk_tokens b < 1 then (False, om_set k b bs) else (True, om_set k (b\<lparr>bk_tokens := bk_tokens b - 1\<rparr>) bs))"
proof (cases "om_get bs k")
  case None
  then show ?thesis by (simp add: checkRate_def found_bucket_def level_of_def fresh_bucket_def Let_def)
next
  case (Some b)
  then have "bk_refillPerMs b = bk_capacity b / 60000" using assms by (simp add: buckets_ok_def bucket_ok_def)
  then obtain x c l where b: "b = \<lparr>bk_tokens = x, bk_capacity = c, bk_refillPerMs = c / 60000, bk_lastRefill = l\<rparr>"
    by (cases b) simp
  show ?thesis
    by (cases "c = max r 1") (simp_all add: checkRate_def found_bucket_def level_of_def fresh_bucket_def Let_def Some b min_less_iff_disj)
qed

lemma found_level: "0 \<le> x \<Longrightarrow> x \<le> max r 1 \<Longrightarrow>
    level_of (om_set k (found_bucket t k r bs\<lparr>bk_tokens := x\<rparr>) bs') k r t = x"
  by (simp add: level_of_def found_bucket_def)

lemma level_of_range: "buckets_ok bs t \<Longrightarrow> 0 \<le> level_of bs k r t \<and> level_of bs k r t \<le> max r 1"
  by (auto simp: level_of_def buckets_ok_def bucket_ok_def split: option.split)

lemma checkRate_cases:
  assumes "buckets_ok bs t"
  shows "\<exists>x. 0 \<le> x \<and> x \<le> max r 1 \<and> x = level_of bs k r t - (if 1 \<le> level_of bs k r t then 1 else 0)
    \<and> checkRate t k r bs = (1 \<le> level_of bs k r t, om_set k (found_bucket t k r bs\<lparr>bk_tokens := x\<rparr>) bs)"
  using level_of_range [OF assms, of k r]
  by (cases "1 \<le> level_of bs k r t") (simp_all add: checkRate_found [OF assms] found_bucket_def Let_def)

lemma min_refill: "0 \<le> (d :: real) \<Longrightarrow> min c (min c x + d) = min c (x + d)"
  by (simp add: min_def)

lemma level_refill:
  assumes "t \<le> t'"
  shows "level_of bs k r t' = min (max r 1) (level_of bs k r t + of_int (t' - t) * (max r 1 / 60000))"
proof -
  define c where "c = max r 1"
  define d where "d = of_int (t' - t) * (c / 60000)"
  have d: "0 \<le> d" unfolding d_def c_def using assms by (intro mult_nonneg_nonneg) auto
  have s: "of_int (t' - l) * (c / 60000) = of_int (t - l) * (c / 60000) + d" for l
    by (simp add: d_def flip: distrib_right)
  have "level_of bs k r t' = min c (level_of bs k r t + d)"
  proof (cases "\<exists>b. om_get bs k = Some b \<and> bk_capacity b = c")
    case True
    then obtain b where b: "om_get bs k = Some b" "bk_capacity b = c" by blast
    have l: "level_of bs k r u = min c (bk_tokens b + of_int (u - bk_lastRefill b) * (c / 60000))" for u
      using b by (simp only: level_of_def option.case c_def [symmetric] simp_thms if_False)
    show ?thesis unfolding l s min_refill [OF d] by (simp only: add.assoc)
  next
    case False
    then have "level_of bs k r u = c" for u by (auto simp: level_of_def c_def split: option.split)
    then show ?thesis using d by simp
  qed
  then show ?thesis by (simp only: c_def d_def)
qed

interpretation keyed: rate_limiter checkRate level_of buckets_ok
proof
  fix bs :: buckets and t t' :: int and k j :: string and r r' :: real
  show "buckets_ok bs t \<Longrightarrow> t \<le> t' \<Longrightarrow> level_of bs k r t' = min (max r 1) (level_of bs k r t + of_int (t' - t) * (max r 1 / 60000))"
    by (rule level_refill)
  show "level_of bs k r' t = level_of bs k r t" if e: "max r' 1 = max r 1" by (simp only: level_of_def e)
  show "buckets_ok bs t \<Longrightarrow> t \<le> t' \<Longrightarrow> buckets_ok bs t'" by (force simp: buckets_ok_def bucket_ok_def)
  assume ok: "buckets_ok bs t"
  obtain x where x: "0 \<le> x" "x \<le> max r 1" "x = level_of bs k r t - (if 1 \<le> level_of bs k r t then 1 else 0)"
    "checkRate t k r bs = (1 \<le> level_of bs k r t, om_set k (found_bucket t k r bs\<lparr>bk_tokens := x\<rparr>) bs)"
    using checkRate_cases [OF ok] by blast
  show "0 \<le> level_of bs k r t" using level_of_range [OF ok] by blast
  show "fst (checkRate t k r bs) = (1 \<le> level_of bs k r t)" by (simp add: x(4))
  show "level_of (snd (checkRate t k r bs)) k r t = level_of bs k r t - (if fst (checkRate t k r bs) then 1 else 0)"
    using found_level [OF x(1,2)] x(3,4) by simp
  show "j \<noteq> k \<Longrightarrow> level_of (snd (checkRate t k r bs)) j r' t = level_of bs j r' t" by (simp add: x(4) level_of_def)
  show "max r' 1 \<noteq> max r 1 \<Longrightarrow> level_of (snd (checkRate t k r bs)) k r' t = max r' 1"
    by (simp add: x(4) level_of_def found_bucket_def)
  show "buckets_ok (snd (checkRate t k r bs)) t"
    using ok x(1) by (simp add: x(4) buckets_ok_def bucket_ok_def found_bucket_def)
qed

lemma om_get_filter:
  assumes "om_wf m"
  shows "om_get (filter Q m) k = (case om_get m k of Some v \<Rightarrow> if Q (k, v) then Some v else None | None \<Rightarrow> None)"
  using assms
proof (induction m)
  case (Cons p m)
  obtain j v where p: "p = (j, v)" by (cases p)
  have m: "om_wf m" "j \<notin> fst ` set m" using Cons.prems by (auto simp: om_wf_def p)
  show ?case
  proof (cases "j = k")
    case True
    then have "om_get m k = None" using m(2) by (simp add: om_get_def map_of_eq_None_iff)
    then show ?thesis using True Cons.IH [OF m(1)] by (simp add: p om_get_def)
  next
    case False
    then show ?thesis using Cons.IH [OF m(1)] by (simp add: p om_get_def)
  qed
qed simp

lemma prune_get: "om_wf bs \<Longrightarrow> om_get (prune t bs) k =
    (case om_get bs k of Some b \<Rightarrow> if bk_lastRefill b < t - EVICT_AFTER_MS then None else Some b | None \<Rightarrow> None)"
  by (simp add: prune_def om_get_filter split: option.split)

text \<open>A bucket idle for ten minutes is full again: forgetting it changes nothing.\<close>

lemma idle_is_full:
  assumes "bucket_ok b t" and "bk_lastRefill b < t - EVICT_AFTER_MS"
  shows "max r 1 = bk_capacity b \<Longrightarrow> max r 1 \<le> bk_tokens b + of_int (t - bk_lastRefill b) * (max r 1 / 60000)"
proof -
  assume c: "max r 1 = bk_capacity b"
  have "60000 \<le> real_of_int (t - bk_lastRefill b)" using assms(2) by (simp add: EVICT_AFTER_MS_def)
  then have "60000 * (max r 1 / 60000) \<le> of_int (t - bk_lastRefill b) * (max r 1 / 60000)" by (intro mult_right_mono) auto
  moreover have "60000 * (max r 1 / 60000) = max r 1" by simp
  moreover have "0 \<le> bk_tokens b" using assms(1) by (simp add: bucket_ok_def)
  ultimately show "max r 1 \<le> bk_tokens b + of_int (t - bk_lastRefill b) * (max r 1 / 60000)" by linarith
qed

lemma checkRate_wf: "om_wf bs \<Longrightarrow> om_wf (snd (checkRate t k r bs))"
  by (simp add: checkRate_def Let_def)

lemma prune_wf: "om_wf bs \<Longrightarrow> om_wf (prune t bs)"
  by (simp add: prune_def om_wf_filter)

definition limiter_ok :: "buckets \<Rightarrow> int \<Rightarrow> bool" where
  "limiter_ok bs t \<longleftrightarrow> om_wf bs \<and> buckets_ok bs t"

interpretation by_address: pruned_limiter ip_checkRate level_of limiter_ok prune
proof
  fix bs :: buckets and t t' :: int and k j :: string and r r' :: real
  have e: "ip_checkRate = checkRate" by (intro ext) (simp add: ip_checkRate_def)
  show "level_of bs k r t' = min (max r 1) (level_of bs k r t + of_int (t' - t) * (max r 1 / 60000))" if "t \<le> t'"
    using that by (rule level_refill)
  show "level_of bs k r' t = level_of bs k r t" if "max r' 1 = max r 1" using that by (rule keyed.capacity_only)
  show "limiter_ok bs t \<Longrightarrow> t \<le> t' \<Longrightarrow> limiter_ok bs t'" using keyed.later by (auto simp: limiter_ok_def)
  assume ok: "limiter_ok bs t"
  then have b: "om_wf bs" "buckets_ok bs t" by (simp_all add: limiter_ok_def)
  show "0 \<le> level_of bs k r t" using b(2) by (rule keyed.nonneg)
  show "fst (ip_checkRate t k r bs) = (1 \<le> level_of bs k r t)" unfolding e using b(2) by (rule keyed.decide)
  show "level_of (snd (ip_checkRate t k r bs)) k r t = level_of bs k r t - (if fst (ip_checkRate t k r bs) then 1 else 0)"
    unfolding e using b(2) by (rule keyed.spend)
  show "j \<noteq> k \<Longrightarrow> level_of (snd (ip_checkRate t k r bs)) j r' t = level_of bs j r' t" unfolding e using b(2) by (rule keyed.other)
  show "max r' 1 \<noteq> max r 1 \<Longrightarrow> level_of (snd (ip_checkRate t k r bs)) k r' t = max r' 1"
    unfolding e using b(2) by (rule keyed.switch)
  show "limiter_ok (snd (ip_checkRate t k r bs)) t" using b keyed.keep by (simp add: e limiter_ok_def checkRate_wf)
  show "level_of (prune t bs) k r t = level_of bs k r t"
  proof (cases "om_get bs k")
    case None
    then show ?thesis by (simp add: level_of_def prune_get b(1))
  next
    case (Some x)
    then have "bucket_ok x t" using b(2) by (simp add: buckets_ok_def)
    then show ?thesis using idle_is_full [of x t r] by (auto simp: level_of_def prune_get b(1) Some)
  qed
  show "limiter_ok (prune t bs) t" using b by (auto simp: limiter_ok_def prune_wf buckets_ok_def prune_get split: option.splits if_splits)
qed

section \<open>Logins by address\<close>

text \<open>Requests of one route at their times, each with its forwarded header and socket address, and prunings.\<close>

datatype ip_op = IpRequest int "string option" string | IpPrune int

fun ip_time :: "ip_op \<Rightarrow> int" where
  "ip_time (IpRequest t xff a) = t"
| "ip_time (IpPrune t) = t"

fun ip_run :: "real \<Rightarrow> string option \<Rightarrow> ip_op list \<Rightarrow> buckets \<Rightarrow> (string \<times> bool) list \<times> buckets" where
  "ip_run rate label [] bs = ([], bs)"
| "ip_run rate label (IpRequest t xff a # ops) bs =
     (let (passes, bs') = ipRateLimit rate label t xff a bs;
          (rest, bs'') = ip_run rate label ops bs'
      in ((clientIp xff a, passes) # rest, bs''))"
| "ip_run rate label (IpPrune t # ops) bs = ip_run rate label ops (prune t bs)"

definition without_prunes :: "ip_op list \<Rightarrow> ip_op list" where
  "without_prunes ops = filter (\<lambda>op. case op of IpPrune t \<Rightarrow> False | _ \<Rightarrow> True) ops"

definition address_key :: "string option \<Rightarrow> string \<Rightarrow> string" where
  "address_key label ip = (case label of Some l \<Rightarrow> if l \<noteq> [] then l @ '':'' @ ip else ip | None \<Rightarrow> ip)"

lemma address_key_inj [simp]: "address_key label a = address_key label b \<longleftrightarrow> a = b"
  by (auto simp: address_key_def split: option.split)

lemma ipRateLimit_key: "ipRateLimit rate label t xff a bs = ip_checkRate t (address_key label (clientIp xff a)) rate bs"
  by (simp add: ipRateLimit_def address_key_def Let_def)

definition passes_of :: "string \<Rightarrow> (string \<times> bool) list \<Rightarrow> nat" where
  "passes_of ip rs = length (filter (\<lambda>e. e = (ip, True)) rs)"

fun calls :: "real \<Rightarrow> string option \<Rightarrow> ip_op list \<Rightarrow> (int \<times> string \<times> real) list" where
  "calls rate label [] = []"
| "calls rate label (IpRequest t xff a # ops) = (t, address_key label (clientIp xff a), rate) # calls rate label ops"
| "calls rate label (IpPrune t # ops) = calls rate label ops"

lemma without_prunes_simps [simp]:
  "without_prunes [] = []"
  "without_prunes (IpRequest t xff a # ops) = IpRequest t xff a # without_prunes ops"
  "without_prunes (IpPrune t # ops) = without_prunes ops"
  by (simp_all add: without_prunes_def)

lemma ip_run_request:
  "fst (ip_run rate label (IpRequest t xff a # ops) bs) =
     (clientIp xff a, fst (ip_checkRate t (address_key label (clientIp xff a)) rate bs))
       # fst (ip_run rate label ops (snd (ip_checkRate t (address_key label (clientIp xff a)) rate bs)))"
  "snd (ip_run rate label (IpRequest t xff a # ops) bs) =
     snd (ip_run rate label ops (snd (ip_checkRate t (address_key label (clientIp xff a)) rate bs)))"
  by (simp_all add: ipRateLimit_key case_prod_beta Let_def)

lemma ip_run_same_levels:
  assumes "limiter_ok s t" and "limiter_ok s' t" and "\<And>k r. level_of s' k r t = level_of s k r t" and "sorted (t # map ip_time ops)"
  shows "fst (ip_run rate label ops s') = fst (ip_run rate label (without_prunes ops) s)"
  using assms
proof (induction ops arbitrary: s s' t)
  case (Cons op ops)
  show ?case
  proof (cases op)
    case (IpRequest t' xff a)
    let ?k = "address_key label (clientIp xff a)"
    have t: "t \<le> t'" "sorted (t' # map ip_time ops)" using Cons.prems(4) by (simp_all add: IpRequest)
    have ok: "limiter_ok s t'" "limiter_ok s' t'" using Cons.prems(1,2) t(1) by (blast intro: by_address.later)+
    note step = by_address.same_levels_step [OF Cons.prems(1,2,3) t(1), of ?k rate]
    show ?thesis
      using Cons.IH [OF by_address.keep [OF ok(1)] by_address.keep [OF ok(2)] step(2) t(2)] step(1)
      by (simp only: IpRequest without_prunes_simps ip_run_request)
  next
    case (IpPrune t')
    have t: "t \<le> t'" "sorted (t' # map ip_time ops)" using Cons.prems(4) by (simp_all add: IpPrune)
    have ok: "limiter_ok s t'" "limiter_ok s' t'" using Cons.prems(1,2) t(1) by (blast intro: by_address.later)+
    have l: "level_of (prune t' s') k r t' = level_of s k r t'" for k r
      by (simp add: by_address.forget_level [OF ok(2)] by_address.refill [OF Cons.prems(1) t(1)]
          by_address.refill [OF Cons.prems(2) t(1)] Cons.prems(3))
    show ?thesis using Cons.IH [OF ok(1) by_address.forget_ok [OF ok(2)] l t(2)] by (simp add: IpPrune)
  qed
qed simp

lemma ip_run_ok: "limiter_ok s t \<Longrightarrow> sorted (t # map ip_time ops @ [t']) \<Longrightarrow> limiter_ok (snd (ip_run rate label ops s)) t'"
proof (induction ops arbitrary: s t)
  case Nil
  then show ?case by (auto intro: by_address.later)
next
  case (Cons op ops)
  then have t: "t \<le> ip_time op" "sorted (ip_time op # map ip_time ops @ [t'])" by simp_all
  have ok: "limiter_ok s (ip_time op)" using Cons.prems(1) t(1) by (rule by_address.later)
  show ?case
  proof (cases op)
    case (IpRequest u xff a)
    have "limiter_ok s u" using ok by (simp add: IpRequest)
    from Cons.IH [OF by_address.keep [OF this]] t(2) show ?thesis unfolding IpRequest ip_run_request by simp
  next
    case (IpPrune u)
    then show ?thesis using Cons.IH [OF by_address.forget_ok [OF ok] t(2)] by simp
  qed
qed

lemma limiter_ok_empty: "limiter_ok [] t"
  by (simp add: limiter_ok_def buckets_ok_def)

lemma ip_run_reachable: "sorted (map ip_time ops @ [t]) \<Longrightarrow> limiter_ok (snd (ip_run rate label ops [])) t"
proof (cases ops)
  case (Cons op rest)
  assume "sorted (map ip_time ops @ [t])"
  then show ?thesis by (intro ip_run_ok [OF limiter_ok_empty [of "ip_time op"]]) (simp add: Cons)
qed (simp add: limiter_ok_empty)

lemma passes_are_passed:
  "passes_of ip (fst (ip_run rate label (without_prunes ops) s)) =
     passed ip_checkRate (address_key label ip) (calls rate label ops) s"
proof (induction ops arbitrary: s)
  case (Cons op ops)
  show ?case
  proof (cases op)
    case (IpRequest t xff a)
    show ?thesis
      unfolding IpRequest without_prunes_simps ip_run_request calls.simps passed.simps Cons.IH [symmetric]
      by (auto simp: passes_of_def)
  next
    case (IpPrune t)
    then show ?thesis by (simp add: Cons.IH)
  qed
qed (simp add: passes_of_def)

lemma calls_of:
  "set (calls rate label ops) \<subseteq> {e. snd (snd e) = rate}"
  "sorted (t0 # map ip_time ops @ [t1]) \<Longrightarrow> sorted (t0 # map fst (calls rate label ops) @ [t1])"
proof -
  show "set (calls rate label ops) \<subseteq> {e. snd (snd e) = rate}" by (induction rate label ops rule: calls.induct) auto
  have sub: "e \<in> set (calls rate label ops) \<Longrightarrow> fst e \<in> ip_time ` set ops" for e rate label ops
    by (induction rate label ops rule: calls.induct) auto
  show "sorted (t0 # map ip_time ops @ [t1]) \<Longrightarrow> sorted (t0 # map fst (calls rate label ops) @ [t1])"
    by (induction rate label ops rule: calls.induct) (auto simp: sorted_append dest!: sub)
qed

text \<open>
  Pruning is invisible, and it keeps the buckets of the last ten minutes only: every request
  passes or is stopped as if no bucket was ever dropped.
\<close>

theorem pruning_is_invisible:
  assumes "sorted (map ip_time ops)"
  shows "fst (ip_run rate label ops []) = fst (ip_run rate label (without_prunes ops) [])"
proof (cases ops)
  case (Cons op rest)
  show ?thesis
    by (rule ip_run_same_levels [OF limiter_ok_empty limiter_ok_empty, of "ip_time op"]) (use assms in \<open>simp_all add: Cons\<close>)
qed simp

theorem pruning_is_invisible_witness:
  "fst (ip_run 1 None [IpRequest 0 None ''a'', IpPrune 700000, IpRequest 700000 None ''a''] []) = [(''a'', True), (''a'', True)]"
proof -
  let ?ops = "[IpRequest 0 None ''a'', IpPrune 700000, IpRequest 700000 None ''a'']"
  have "fst (ip_run 1 None ?ops []) = fst (ip_run 1 None (without_prunes ?ops) [])" by (rule pruning_is_invisible) simp
  then show ?thesis
    by (simp add: ipRateLimit_def clientIp_def js_trim_def is_ws_def code_def ip_checkRate_def checkRate_def fresh_bucket_def om_get_def Let_def)
qed

text \<open>
  In a window of \<open>w\<close> milliseconds at most \<open>rate * (1 + w / 60000)\<close> requests of an address pass,
  whatever the others do, and one that comes a token's time after all others is never stopped.
\<close>

theorem address_rate_bounded:
  assumes "sorted (t0 # map ip_time ops @ [t1])" and "sorted (map ip_time before @ [t0])"
  shows "real (passes_of ip (fst (ip_run rate label ops (snd (ip_run rate label before [])))))
      \<le> max rate 1 * (1 + of_int (t1 - t0) / 60000)
    \<and> (60000 \<le> of_int (t1 - t0) * max rate 1 \<longrightarrow> fst (ipRateLimit rate label t1 xff a (snd (ip_run rate label before []))))"
proof -
  let ?s = "snd (ip_run rate label before [])"
  have ok: "limiter_ok ?s t0" using assms(2) by (rule ip_run_reachable)
  have "t0 \<le> t1" using assms(1) by simp
  then have "60000 \<le> of_int (t1 - t0) * max rate 1 \<longrightarrow> fst (ipRateLimit rate label t1 xff a ?s)"
    using by_address.spaced [OF ok] by (simp add: ipRateLimit_key)
  moreover have "fst (ip_run rate label ops ?s) = fst (ip_run rate label (without_prunes ops) ?s)"
    using assms(1) by (intro ip_run_same_levels [OF ok ok refl]) (simp add: sorted_append)
  then have "real (passes_of ip (fst (ip_run rate label ops ?s))) \<le> max rate 1 * (1 + of_int (t1 - t0) / 60000)"
    using by_address.passed_window [OF ok calls_of(2) [OF assms(1)]] calls_of(1)
    by (force simp: passes_are_passed)
  ultimately show ?thesis by blast
qed

theorem address_rate_bounded_witness:
  "real (passes_of ''a'' (fst (ip_run 1 None [IpRequest 5 None ''a'', IpRequest 6 None ''a''] (snd (ip_run 1 None [IpPrune 0] []))))) \<le> 2"
proof -
  have "sorted (0 # map ip_time [IpRequest 5 None ''a'', IpRequest 6 None ''a''] @ [60000])" "sorted (map ip_time [IpPrune 0] @ [0])"
    by simp_all
  from address_rate_bounded [OF this, of "''a''" 1 None None "''b''"]
  have "real (passes_of ''a'' (fst (ip_run 1 None [IpRequest 5 None ''a'', IpRequest 6 None ''a''] (snd (ip_run 1 None [IpPrune 0] [])))))
    \<le> max 1 1 * (1 + of_int (60000 - 0) / 60000)" by blast
  then show ?thesis by simp
qed

text \<open>
  The address is the first hop of a header the shipped proxies append to, so the client
  chooses it: as many requests pass at one instant as it writes different first hops.
\<close>

theorem spoofed_hop_evades_limit:
  assumes "distinct hops" and "\<forall>h \<in> set hops. h \<noteq> [] \<and> js_trim h = h \<and> CHR '','' \<notin> set h"
  shows "fst (ip_run rate label (map (\<lambda>h. IpRequest t (Some (h @ '', '' @ addr)) socket) hops) []) = map (\<lambda>h. (h, True)) hops"
proof -
  have "fst (ip_run rate label (map (\<lambda>h. IpRequest t (Some (h @ '', '' @ addr)) socket) hops) bs) = map (\<lambda>h. (h, True)) hops"
    if "distinct hops" "\<forall>h \<in> set hops. h \<noteq> [] \<and> js_trim h = h \<and> CHR '','' \<notin> set h \<and> om_get bs (address_key label h) = None" for bs
    using that
  proof (induction hops arbitrary: bs)
    case (Cons h hs)
    have h: "h \<noteq> []" "js_trim h = h" "CHR '','' \<notin> set h" "om_get bs (address_key label h) = None" using Cons.prems(2) by simp_all
    have ip: "clientIp (Some (h @ '', '' @ addr)) socket = h"
      using split_on_first [OF h(3), of "'' '' @ addr"] h(1,2) by (simp add: clientIp_def)
    have c: "fst (ip_checkRate t (address_key label h) rate bs)"
      "om_get (snd (ip_checkRate t (address_key label h) rate bs)) j = None" if "om_get bs j = None" "j \<noteq> address_key label h" for j
      using h(4) that by (simp_all add: ip_checkRate_def checkRate_def fresh_bucket_def Let_def)
    have "fst (ip_checkRate t (address_key label h) rate bs)" using h(4) by (simp add: ip_checkRate_def checkRate_def fresh_bucket_def Let_def)
    moreover have "fst (ip_run rate label (map (\<lambda>h. IpRequest t (Some (h @ '', '' @ addr)) socket) hs)
        (snd (ip_checkRate t (address_key label h) rate bs))) = map (\<lambda>h. (h, True)) hs"
    proof (rule Cons.IH)
      have "om_get (snd (ip_checkRate t (address_key label h) rate bs)) (address_key label x) = None" if "x \<in> set hs" for x
        using Cons.prems that by (intro c(2)) auto
      then show "\<forall>x \<in> set hs. x \<noteq> [] \<and> js_trim x = x \<and> CHR '','' \<notin> set x
          \<and> om_get (snd (ip_checkRate t (address_key label h) rate bs)) (address_key label x) = None"
        using Cons.prems(2) by simp
    qed (use Cons.prems(1) in simp)
    ultimately show ?case by (simp only: list.map ip_run_request ip)
  qed simp
  then show ?thesis using assms by simp
qed

theorem spoofed_hop_evades_limit_witness:
  "fst (ip_run 1 (Some ''auth.login'') (map (\<lambda>h. IpRequest 0 (Some (h @ '', '' @ ''9.9.9.9'')) ''10.0.0.1'') [''a'', ''b'', ''c'']) [])
     = map (\<lambda>h. (h, True)) [''a'', ''b'', ''c'']"
  by (rule spoofed_hop_evades_limit) (simp_all add: js_trim_def is_ws_def code_def)

end
