(* ===== verification/ApiKeys.thy ===== *)
theory ApiKeys
  imports Authorization RateLimit
begin

text \<open>
  API keys: issue, verification with its cache, revocation, and the guard of the prediction route,
  which resolves a key and spends one of its tokens (\<open>shared/auth/api-key.service.ts\<close>,
  \<open>api-key.repo.ts\<close>, \<open>api-key.middleware.ts\<close>, \<open>admin/controller/api-keys.controller.ts\<close>). SHA-256 and the
  random parts of a key are arguments. The table is a list in order of creation; logs are not modelled.
\<close>

section \<open>The table\<close>

record key_row =
  ak_id :: string
  ak_tenantId :: string
  ak_name :: string
  ak_keyPrefix :: string
  ak_keyHash :: string
  ak_scope :: string
  ak_rateLimitPerMinute :: int
  ak_isActive :: bool
  ak_lastUsedAt :: "int option"
  ak_expiresAt :: "int option"
  ak_revokedAt :: "int option"
  ak_revokedReason :: "string option"

definition findByHash :: "string \<Rightarrow> key_row list \<Rightarrow> key_row option" where
  "findByHash h rows = find (\<lambda>r. ak_keyHash r = h \<and> ak_isActive r) rows"

definition touchLastUsed :: "int \<Rightarrow> string \<Rightarrow> key_row list \<Rightarrow> key_row list" where
  "touchLastUsed now i rows = map (\<lambda>r. if ak_id r = i then r\<lparr>ak_lastUsedAt := Some now\<rparr> else r) rows"

definition repo_revoke :: "int \<Rightarrow> string \<Rightarrow> string option \<Rightarrow> key_row list \<Rightarrow> nat \<times> key_row list" where
  "repo_revoke now i reason rows =
     (length (filter (\<lambda>r. ak_id r = i) rows),
      map (\<lambda>r. if ak_id r = i then r\<lparr>ak_isActive := False, ak_revokedAt := Some now, ak_revokedReason := reason\<rparr> else r) rows)"

record key_listing =
  kl_id :: string
  kl_tenantId :: string
  kl_name :: string
  kl_keyPrefix :: string
  kl_scope :: string
  kl_rateLimitPerMinute :: int
  kl_isActive :: bool
  kl_lastUsedAt :: "int option"
  kl_expiresAt :: "int option"
  kl_revokedAt :: "int option"

definition listing_of :: "key_row \<Rightarrow> key_listing" where
  "listing_of r =
     \<lparr>kl_id = ak_id r, kl_tenantId = ak_tenantId r, kl_name = ak_name r, kl_keyPrefix = ak_keyPrefix r,
      kl_scope = ak_scope r, kl_rateLimitPerMinute = ak_rateLimitPerMinute r, kl_isActive = ak_isActive r,
      kl_lastUsedAt = ak_lastUsedAt r, kl_expiresAt = ak_expiresAt r, kl_revokedAt = ak_revokedAt r\<rparr>"

text \<open>Newest first; an empty tenant does not filter.\<close>

definition keys_listAll :: "string option \<Rightarrow> key_row list \<Rightarrow> key_listing list" where
  "keys_listAll tenant rows =
     map listing_of (rev (case tenant of Some t \<Rightarrow> if t \<noteq> [] then filter (\<lambda>r. ak_tenantId r = t) rows else rows | None \<Rightarrow> rows))"

section \<open>The service\<close>

record key_context =
  kx_id :: string
  kx_tenantId :: string
  kx_name :: string
  kx_scope :: string
  kx_rateLimitPerMinute :: int

type_synonym key_cache = "(string, key_context \<times> int) omap"

definition cacheTtlMs :: int where "cacheTtlMs = 30000"
definition cacheCap :: nat where "cacheCap = 10000"

record key_input =
  ki_tenantId :: string
  ki_name :: string
  ki_scope :: "string option"
  ki_rateLimitPerMinute :: "int option"
  ki_expiresAt :: "int option"

text \<open>
  The id and the hash are unique, so an insert with one that is there fails. \<open>newId\<close> is the id the
  database gives the row, \<open>prefix\<close> and \<open>secret\<close> the random parts.
\<close>

definition issue ::
    "(string \<Rightarrow> string) \<Rightarrow> string \<Rightarrow> string \<Rightarrow> string \<Rightarrow> key_input \<Rightarrow> key_row list
      \<Rightarrow> (string, string \<times> string \<times> string) result \<times> key_row list" where
  "issue sha256 newId prefix secret i rows =
     (let token = ''fdk_'' @ prefix @ ''_'' @ secret;
          h = sha256 token
      in if \<exists>r \<in> set rows. ak_id r = newId then (Inl ''api_keys_pkey'', rows)
         else if \<exists>r \<in> set rows. ak_keyHash r = h then (Inl ''uq_api_keys_hash'', rows)
         else (Inr (newId, token, prefix),
               rows @ [\<lparr>ak_id = newId, ak_tenantId = ki_tenantId i, ak_name = ki_name i, ak_keyPrefix = prefix, ak_keyHash = h,
                        ak_scope = case_option ''predict'' id (ki_scope i),
                        ak_rateLimitPerMinute = case_option 600 id (ki_rateLimitPerMinute i), ak_isActive = True,
                        ak_lastUsedAt = None, ak_expiresAt = ki_expiresAt i, ak_revokedAt = None, ak_revokedReason = None\<rparr>]))"

definition context_of :: "key_row \<Rightarrow> key_context" where
  "context_of r = \<lparr>kx_id = ak_id r, kx_tenantId = ak_tenantId r, kx_name = ak_name r, kx_scope = ak_scope r,
                   kx_rateLimitPerMinute = ak_rateLimitPerMinute r\<rparr>"

text \<open>What the database says of a hash.\<close>

definition key_context_at :: "int \<Rightarrow> key_row list \<Rightarrow> string \<Rightarrow> key_context option" where
  "key_context_at now rows h =
     (case findByHash h rows of
        None \<Rightarrow> None
      | Some r \<Rightarrow>
          if ak_revokedAt r \<noteq> None then None
          else if (case ak_expiresAt r of Some x \<Rightarrow> x < now | None \<Rightarrow> False) then None
          else Some (context_of r))"

text \<open>
  The cache up to the query: a hit moves its entry to the end, an expired entry is dropped. When the query comes
  back, a key that was found is cached from the start of its verification, and the oldest entry makes room.
\<close>

definition key_start :: "int \<Rightarrow> string \<Rightarrow> key_cache \<Rightarrow> key_context option option \<times> key_cache" where
  "key_start now h c =
     (case om_get c h of
        Some (ctx, expires) \<Rightarrow> if now < expires then (Some (Some ctx), om_set h (ctx, expires) (om_delete h c)) else (None, om_delete h c)
      | None \<Rightarrow> (None, c))"

definition key_finish :: "int \<Rightarrow> string \<Rightarrow> key_context option \<Rightarrow> key_cache \<Rightarrow> key_cache" where
  "key_finish now h found c =
     (case found of None \<Rightarrow> c | Some ctx \<Rightarrow> om_set h (ctx, now + cacheTtlMs) (evict_oldest cacheCap c))"

text \<open>
  \<open>verify\<close> up to its await: the answer, or the hash to look up. After the await, at \<open>u\<close>, for a verification that
  started at \<open>now\<close> and found \<open>found\<close>: the answer, the table and the cache.
\<close>

definition verify_begin :: "(string \<Rightarrow> string) \<Rightarrow> int \<Rightarrow> string \<Rightarrow> key_cache \<Rightarrow> (key_context option + string) \<times> key_cache" where
  "verify_begin sha256 now token c =
     (if token = [] \<or> \<not> starts_with token ''fdk_'' then (Inl None, c)
      else (case key_start now (sha256 token) c of (Some found, c') \<Rightarrow> (Inl found, c') | (None, c') \<Rightarrow> (Inr (sha256 token), c')))"

definition verify_end :: "int \<Rightarrow> int \<Rightarrow> string \<Rightarrow> key_context option \<Rightarrow> key_row list \<times> key_cache \<Rightarrow> key_context option \<times> key_row list \<times> key_cache" where
  "verify_end now u h found st =
     (let (rows, c) = st
      in (found, (case found of Some ctx \<Rightarrow> touchLastUsed u (kx_id ctx) rows | None \<Rightarrow> rows), key_finish now h found c))"

definition clear_cache :: "'a \<Rightarrow> key_cache \<Rightarrow> key_cache" where
  "clear_cache w c = []"

definition revoke_key :: "int \<Rightarrow> string \<Rightarrow> string option \<Rightarrow> key_row list \<times> key_cache \<Rightarrow> bool \<times> key_row list \<times> key_cache" where
  "revoke_key now i reason st =
     (let (rows, c) = st; (n, rows') = repo_revoke now i reason rows in (0 < n, rows', clear_cache i c))"

section \<open>The guard and the admin controller\<close>

definition key_extractBearer :: "string option \<Rightarrow> string option" where
  "key_extractBearer header =
     (case header of
        None \<Rightarrow> None
      | Some h \<Rightarrow>
          (case split_on (CHR '' '') h of
             [scheme, tok] \<Rightarrow> if to_lower scheme = ''bearer'' then Some tok else None
           | _ \<Rightarrow> None))"

definition extractToken :: "string option \<Rightarrow> string option \<Rightarrow> string option" where
  "extractToken xApiKey authorization =
     (case xApiKey of
        Some k \<Rightarrow> if k \<noteq> [] then Some k else key_extractBearer authorization
      | None \<Rightarrow> key_extractBearer authorization)"

text \<open>The state of one process; \<open>ks_pending\<close> are the verifications that wait for the database, with what they have read.\<close>

record key_load =
  kp_begun :: int
  kp_hash :: string
  kp_read :: "key_context option option"

record key_state =
  ks_rows :: "key_row list"
  ks_cache :: key_cache
  ks_buckets :: buckets
  ks_pending :: "key_load list"

datatype key_outcome = KeyRequired | KeyInvalid | KeyLimited | KeyOpen | KeyFailed | KeyPass key_context

text \<open>The guard after the key is resolved, up to the await, and from there on.\<close>

definition key_answer :: "int \<Rightarrow> key_context option \<Rightarrow> key_state \<Rightarrow> key_outcome \<times> key_state" where
  "key_answer now found st =
     (case found of
        None \<Rightarrow> (KeyInvalid, st)
      | Some ctx \<Rightarrow>
          (let (passes, bs) = checkRate now (kx_id ctx) (of_int (kx_rateLimitPerMinute ctx)) (ks_buckets st)
           in (if passes then KeyPass ctx else KeyLimited, st\<lparr>ks_buckets := bs\<rparr>)))"

definition middleware_begin ::
    "(string \<Rightarrow> string) \<Rightarrow> bool \<Rightarrow> int \<Rightarrow> string option \<Rightarrow> string option \<Rightarrow> key_state \<Rightarrow> (key_outcome + string) \<times> key_state" where
  "middleware_begin sha256 required now xApiKey authorization st =
     (case extractToken xApiKey authorization of
        None \<Rightarrow> (Inl (if required then KeyRequired else KeyOpen), st)
      | Some token \<Rightarrow>
          if token = [] then (Inl (if required then KeyRequired else KeyOpen), st)
          else (case verify_begin sha256 now token (ks_cache st) of
                  (Inl found, c) \<Rightarrow> (let (out, st') = key_answer now found (st\<lparr>ks_cache := c\<rparr>) in (Inl out, st'))
                | (Inr h, c) \<Rightarrow> (Inr h, st\<lparr>ks_cache := c\<rparr>)))"

definition middleware_end :: "int \<Rightarrow> int \<Rightarrow> string \<Rightarrow> key_context option \<Rightarrow> key_state \<Rightarrow> key_outcome \<times> key_state" where
  "middleware_end now u h found st =
     (let (found, rows, c) = verify_end now u h found (ks_rows st, ks_cache st)
      in key_answer u found (st\<lparr>ks_rows := rows, ks_cache := c\<rparr>))"

text \<open>
  The whole guard for a request that starts at \<open>now\<close>: a query finds the table as \<open>rows\<close>, and until it
  comes back, at \<open>u\<close>, other requests do \<open>meanwhile\<close> to the state.
\<close>

definition apiKeyMiddleware ::
    "(string \<Rightarrow> string) \<Rightarrow> bool \<Rightarrow> int \<Rightarrow> string option \<Rightarrow> string option \<Rightarrow> key_row list \<Rightarrow> int \<Rightarrow> (key_state \<Rightarrow> key_state)
      \<Rightarrow> key_state \<Rightarrow> key_outcome \<times> key_state" where
  "apiKeyMiddleware sha256 required now xApiKey authorization rows u meanwhile st =
     (case middleware_begin sha256 required now xApiKey authorization st of
        (Inl out, st') \<Rightarrow> (out, st')
      | (Inr h, st') \<Rightarrow> middleware_end now u h (key_context_at now rows h) (meanwhile st'))"

definition keys_issue ::
    "(string \<Rightarrow> string) \<Rightarrow> string \<Rightarrow> string \<Rightarrow> string \<Rightarrow> auth_subject option \<Rightarrow> string option \<Rightarrow> key_input \<Rightarrow> key_row list
      \<Rightarrow> (string, string \<times> string \<times> string) result \<times> key_row list" where
  "keys_issue sha256 newId prefix secret auth requested i rows =
     issue sha256 newId prefix secret (i\<lparr>ki_tenantId := resolveTenantScope auth requested\<rparr>) rows"

definition keys_list :: "auth_subject option \<Rightarrow> string option \<Rightarrow> key_row list \<Rightarrow> key_listing list" where
  "keys_list auth requested rows = keys_listAll (Some (resolveTenantScope auth requested)) rows"

text \<open>The answer's status code; whose key it is is not asked.\<close>

definition keys_revoke ::
    "auth_subject option \<Rightarrow> int \<Rightarrow> string \<Rightarrow> string option \<Rightarrow> key_row list \<times> key_cache \<Rightarrow> nat \<times> key_row list \<times> key_cache" where
  "keys_revoke auth now i reason st = (let (found, st') = revoke_key now i reason st in (if found then 200 else 404, st'))"

section \<open>The cache is the grants' cache again\<close>

definition cached_key :: "key_cache \<Rightarrow> string \<Rightarrow> (key_context option \<times> int) option" where
  "cached_key c h = map_option (\<lambda>(ctx, e). (Some ctx, e)) (om_get c h)"

interpretation keys: ttl_cache cached_key key_start key_finish clear_cache cacheTtlMs
proof
  fix c :: key_cache and k v and t :: int
  show "fst (key_start t k c) = Some v \<longleftrightarrow> (\<exists>e. cached_key c k = Some (v, e) \<and> t < e)"
    by (auto simp: cached_key_def key_start_def split: option.split)
next
  fix c :: key_cache and k j x and t :: int
  show "cached_key (snd (key_start t k c)) j = Some x \<Longrightarrow> cached_key c j = Some x"
    by (auto simp: cached_key_def key_start_def split: option.splits if_splits)
next
  fix c :: key_cache and k v j x and t :: int
  show "cached_key (key_finish t k v c) j = Some x \<Longrightarrow> cached_key c j = Some x \<or> (j = k \<and> x = (v, t + cacheTtlMs))"
    by (auto simp: cached_key_def key_finish_def split: option.splits if_splits dest!: evict_get)
next
  fix ko j and c :: key_cache and x
  show "cached_key (clear_cache ko c) j = Some x \<Longrightarrow> cached_key c j = Some x \<and> ko \<noteq> None \<and> ko \<noteq> Some j"
    by (simp add: clear_cache_def cached_key_def)
qed (simp add: cacheTtlMs_def)

text \<open>What the cache holds of a key, after a lookup has started and after one has come back.\<close>

lemma start_found: "fst (key_start t h c) = Some v \<Longrightarrow> \<exists>ctx e. v = Some ctx \<and> om_get c h = Some (ctx, e) \<and> t < e"
  by (auto simp: keys.hit cached_key_def)

lemma start_keeps: "om_get (snd (key_start t h c)) j = Some x \<Longrightarrow> om_get c j = Some x"
  using keys.looked [of t h c j "(Some (fst x), snd x)"] by (cases x) (auto simp: cached_key_def)

lemma finish_keeps:
  "om_get (key_finish t h v c) j = Some (ctx, e) \<Longrightarrow> om_get c j = Some (ctx, e) \<or> (j = h \<and> v = Some ctx \<and> e = t + cacheTtlMs)"
  using keys.finished [of t h v c j "(Some ctx, e)"] by (auto simp: cached_key_def)

section \<open>What passes is a live key\<close>

definition live_key :: "key_row list \<Rightarrow> string \<Rightarrow> key_context \<Rightarrow> int \<Rightarrow> bool" where
  "live_key rows h ctx t \<longleftrightarrow>
     (\<exists>r \<in> set rows. ak_keyHash r = h \<and> ak_isActive r \<and> ak_revokedAt r = None \<and> ctx = context_of r
        \<and> (\<forall>x. ak_expiresAt r = Some x \<longrightarrow> t \<le> x))"

lemma context_live: "key_context_at now rows h = Some ctx \<Longrightarrow> live_key rows h ctx now"
proof -
  assume a: "key_context_at now rows h = Some ctx"
  then obtain r where r: "findByHash h rows = Some r" by (auto simp: key_context_at_def split: option.splits)
  then have "r \<in> set rows" "ak_keyHash r = h" "ak_isActive r" by (auto simp: findByHash_def find_Some_iff)
  then show ?thesis using a r by (auto simp: key_context_at_def live_key_def split: option.splits if_splits intro!: bexI [of _ r])
qed

text \<open>The key a guard resolves before the await, and what it does then.\<close>

definition resolved_at_once :: "(string \<Rightarrow> string) \<Rightarrow> int \<Rightarrow> string option \<Rightarrow> string option \<Rightarrow> key_state \<Rightarrow> key_context option" where
  "resolved_at_once sha256 t x a st =
     (case extractToken x a of
        Some tok \<Rightarrow> if starts_with tok ''fdk_'' then (case fst (key_start t (sha256 tok) (ks_cache st)) of Some v \<Rightarrow> v | None \<Rightarrow> None) else None
      | None \<Rightarrow> None)"

lemma resolved_hit:
  "resolved_at_once sha256 t x a st = Some ctx \<Longrightarrow>
     \<exists>tok e. extractToken x a = Some tok \<and> om_get (ks_cache st) (sha256 tok) = Some (ctx, e) \<and> t < e
       \<and> fst (key_start t (sha256 tok) (ks_cache st)) = Some (Some ctx)"
  by (auto simp: resolved_at_once_def split: option.splits if_splits dest!: start_found)

lemma key_answer_simps:
  "fst (key_answer now found st) = KeyPass ctx \<longleftrightarrow>
     found = Some ctx \<and> fst (checkRate now (kx_id ctx) (of_int (kx_rateLimitPerMinute ctx)) (ks_buckets st))"
  "ks_rows (snd (key_answer now found st)) = ks_rows st" "ks_cache (snd (key_answer now found st)) = ks_cache st"
  "ks_pending (snd (key_answer now found st)) = ks_pending st"
  "ks_buckets (snd (key_answer now found st)) =
     (case found of Some ctx \<Rightarrow> snd (checkRate now (kx_id ctx) (of_int (kx_rateLimitPerMinute ctx)) (ks_buckets st)) | None \<Rightarrow> ks_buckets st)"
  by (auto simp: key_answer_def case_prod_beta split: option.split)

lemma begin_simps:
  "fst (middleware_begin sha256 required t x a st) = Inl (KeyPass ctx) \<longleftrightarrow>
     resolved_at_once sha256 t x a st = Some ctx \<and> fst (checkRate t (kx_id ctx) (of_int (kx_rateLimitPerMinute ctx)) (ks_buckets st))"
  "ks_rows (snd (middleware_begin sha256 required t x a st)) = ks_rows st"
  "ks_pending (snd (middleware_begin sha256 required t x a st)) = ks_pending st"
  "ks_buckets (snd (middleware_begin sha256 required t x a st)) =
     (case resolved_at_once sha256 t x a st of
        Some ctx \<Rightarrow> snd (checkRate t (kx_id ctx) (of_int (kx_rateLimitPerMinute ctx)) (ks_buckets st)) | None \<Rightarrow> ks_buckets st)"
proof -
  show "fst (middleware_begin sha256 required t x a st) = Inl (KeyPass ctx) \<longleftrightarrow>
     resolved_at_once sha256 t x a st = Some ctx \<and> fst (checkRate t (kx_id ctx) (of_int (kx_rateLimitPerMinute ctx)) (ks_buckets st))"
    by (auto simp: middleware_begin_def verify_begin_def resolved_at_once_def case_prod_beta key_answer_simps split: option.splits)
  show "ks_rows (snd (middleware_begin sha256 required t x a st)) = ks_rows st"
    by (simp add: middleware_begin_def verify_begin_def case_prod_beta key_answer_simps split: option.split)
  show "ks_pending (snd (middleware_begin sha256 required t x a st)) = ks_pending st"
    by (simp add: middleware_begin_def verify_begin_def case_prod_beta key_answer_simps split: option.split)
  show "ks_buckets (snd (middleware_begin sha256 required t x a st)) =
     (case resolved_at_once sha256 t x a st of
        Some ctx \<Rightarrow> snd (checkRate t (kx_id ctx) (of_int (kx_rateLimitPerMinute ctx)) (ks_buckets st)) | None \<Rightarrow> ks_buckets st)"
    by (auto simp: middleware_begin_def verify_begin_def resolved_at_once_def case_prod_beta key_answer_simps split: option.split)
qed

lemma begin_keeps: "om_get (ks_cache (snd (middleware_begin sha256 required t x a st))) j = Some v \<Longrightarrow> om_get (ks_cache st) j = Some v"
  by (auto simp: middleware_begin_def verify_begin_def case_prod_beta key_answer_simps split: option.splits if_splits dest!: start_keeps)

lemma end_simps:
  "fst (middleware_end now u h found st) = KeyPass ctx \<longleftrightarrow>
     found = Some ctx \<and> fst (checkRate u (kx_id ctx) (of_int (kx_rateLimitPerMinute ctx)) (ks_buckets st))"
  "ks_rows (snd (middleware_end now u h found st)) =
     (case found of Some ctx \<Rightarrow> touchLastUsed u (kx_id ctx) (ks_rows st) | None \<Rightarrow> ks_rows st)"
  "ks_cache (snd (middleware_end now u h found st)) = key_finish now h found (ks_cache st)"
  "ks_pending (snd (middleware_end now u h found st)) = ks_pending st"
  "ks_buckets (snd (middleware_end now u h found st)) =
     (case found of Some ctx \<Rightarrow> snd (checkRate u (kx_id ctx) (of_int (kx_rateLimitPerMinute ctx)) (ks_buckets st)) | None \<Rightarrow> ks_buckets st)"
  by (simp_all add: middleware_end_def verify_end_def key_answer_simps split: option.split)

lemma begin_waits:
  "fst (middleware_begin sha256 required t x a st) = Inr h \<Longrightarrow> \<exists>tok. extractToken x a = Some tok \<and> h = sha256 tok"
  by (auto simp: middleware_begin_def verify_begin_def case_prod_beta split: option.splits if_splits)

text \<open>
  C12: a request that passes with a key presents one whose row was there, active and not revoked when a query found it,
  and not expired when that query was asked for, less than thirty seconds before the request came or, when the request
  itself waits for the database, at its start. This holds whatever this process looked up or dropped before,
  with any verifications still in flight, and whoever changes the table; the request acts as that row's tenant and name.
\<close>

theorem key_access_is_live:
  assumes "cache_history key_start key_finish clear_cache (\<lambda>t r. key_context_at t (db r)) [] now0 (ks_cache st)" and "now0 \<le> now"
    and "now \<le> later" and "apiKeyMiddleware sha256 required now x a (db later) u meanwhile st = (KeyPass ctx, st')"
  shows "\<exists>token t r row. extractToken x a = Some token \<and> now - 30000 < t \<and> t \<le> r \<and> r \<le> later \<and> row \<in> set (db r)
    \<and> ak_keyHash row = sha256 token \<and> ak_isActive row \<and> ak_revokedAt row = None
    \<and> (\<forall>e. ak_expiresAt row = Some e \<longrightarrow> t \<le> e) \<and> ctx = context_of row"
proof -
  have "\<exists>token t r. extractToken x a = Some token \<and> now - 30000 < t \<and> t \<le> r \<and> r \<le> later
      \<and> key_context_at t (db r) (sha256 token) = Some ctx"
  proof (cases "fst (middleware_begin sha256 required now x a st)")
    case (Inl out)
    then have "fst (middleware_begin sha256 required now x a st) = Inl (KeyPass ctx)"
      using assms(4) by (simp add: apiKeyMiddleware_def case_prod_beta)
    then obtain tok where tok: "extractToken x a = Some tok" "fst (key_start now (sha256 tok) (ks_cache st)) = Some (Some ctx)"
      using resolved_hit unfolding begin_simps by blast
    have "cached_key [] j = None" for j by (simp add: cached_key_def)
    with keys.answer_recent [OF assms(1) _ assms(2) tok(2)] tok(1) assms(3) show ?thesis by (fastforce simp: cacheTtlMs_def)
  next
    case (Inr h)
    then have "fst (middleware_end now u h (key_context_at now (db later) h) (meanwhile (snd (middleware_begin sha256 required now x a st)))) = KeyPass ctx"
      using assms(4) by (simp add: apiKeyMiddleware_def case_prod_beta)
    moreover obtain tok where "extractToken x a = Some tok" "h = sha256 tok" using begin_waits [OF Inr] by blast
    ultimately show ?thesis using assms(3) unfolding end_simps by (intro exI [of _ tok] exI [of _ now] exI [of _ later]) simp
  qed
  then show ?thesis using context_live unfolding live_key_def by metis
qed

section \<open>One process: issue, requests and revocations\<close>

text \<open>
  What one process does: a key is issued or revoked; a request begins, and is answered or left waiting; the query of
  the \<open>n\<close>th waiting request finds the table as it is; the \<open>n\<close>th waiting request is resumed, without having
  read when its query failed.
\<close>

datatype key_op =
    KIssue int string string string key_input
  | KRevoke int string "string option"
  | KBegin int "string option" "string option"
  | KRead int nat
  | KEnd int nat

fun key_time :: "key_op \<Rightarrow> int" where
  "key_time (KIssue t i p s inp) = t"
| "key_time (KRevoke t i reason) = t"
| "key_time (KBegin t x a) = t"
| "key_time (KRead t n) = t"
| "key_time (KEnd t n) = t"

text \<open>An answer comes with the time its request began.\<close>

fun key_step :: "(string \<Rightarrow> string) \<Rightarrow> bool \<Rightarrow> key_op \<Rightarrow> key_state \<Rightarrow> (int \<times> key_outcome) option \<times> key_state" where
  "key_step sha256 required (KIssue t i p s inp) st =
     (None, st\<lparr>ks_rows := snd (issue sha256 i p s inp (ks_rows st))\<rparr>)"
| "key_step sha256 required (KRevoke t i reason) st =
     (let (ok, rows, c) = revoke_key t i reason (ks_rows st, ks_cache st) in (None, st\<lparr>ks_rows := rows, ks_cache := c\<rparr>))"
| "key_step sha256 required (KBegin t x a) st =
     (case middleware_begin sha256 required t x a st of
        (Inl out, st') \<Rightarrow> (Some (t, out), st')
      | (Inr h, st') \<Rightarrow> (None, st'\<lparr>ks_pending := ks_pending st' @ [\<lparr>kp_begun = t, kp_hash = h, kp_read = None\<rparr>]\<rparr>))"
| "key_step sha256 required (KRead t n) st =
     (None,
      if n < length (ks_pending st) \<and> kp_read (ks_pending st ! n) = None
      then (let l = ks_pending st ! n
            in st\<lparr>ks_pending := (ks_pending st)[n := l\<lparr>kp_read := Some (key_context_at (kp_begun l) (ks_rows st) (kp_hash l))\<rparr>]\<rparr>)
      else st)"
| "key_step sha256 required (KEnd t n) st =
     (if n < length (ks_pending st)
      then (let l = ks_pending st ! n; st' = st\<lparr>ks_pending := take n (ks_pending st) @ drop (Suc n) (ks_pending st)\<rparr>
            in case kp_read l of
                 None \<Rightarrow> (Some (kp_begun l, KeyFailed), st')
               | Some found \<Rightarrow> (let (out, st'') = middleware_end (kp_begun l) t (kp_hash l) found st' in (Some (kp_begun l, out), st'')))
      else (None, st))"

fun key_run :: "(string \<Rightarrow> string) \<Rightarrow> bool \<Rightarrow> key_op list \<Rightarrow> key_state \<Rightarrow> (int \<times> key_outcome) list \<times> key_state" where
  "key_run sha256 required [] st = ([], st)"
| "key_run sha256 required (op # ops) st =
     (let (out, st') = key_step sha256 required op st; (outs, st'') = key_run sha256 required ops st'
      in ((case out of Some u \<Rightarrow> u # outs | None \<Rightarrow> outs), st''))"

definition no_keys :: key_state where
  "no_keys = \<lparr>ks_rows = [], ks_cache = [], ks_buckets = [], ks_pending = []\<rparr>"

definition passes_with :: "string \<Rightarrow> int \<times> key_outcome \<Rightarrow> bool" where
  "passes_with i out0 = (case snd out0 of KeyPass ctx \<Rightarrow> kx_id ctx = i | _ \<Rightarrow> False)"

definition key_passes :: "string \<Rightarrow> (int \<times> key_outcome) list \<Rightarrow> nat" where
  "key_passes i outs = length (filter (passes_with i) outs)"

text \<open>The key a step resolves to.\<close>

fun resolved :: "(string \<Rightarrow> string) \<Rightarrow> key_op \<Rightarrow> key_state \<Rightarrow> key_context option" where
  "resolved sha256 (KBegin t x a) st = resolved_at_once sha256 t x a st"
| "resolved sha256 (KEnd t n) st =
     (if n < length (ks_pending st) then (case kp_read (ks_pending st ! n) of Some found \<Rightarrow> found | None \<Rightarrow> None) else None)"
| "resolved sha256 op st = None"

definition from_row :: "key_row list \<Rightarrow> string \<Rightarrow> key_context \<Rightarrow> bool" where
  "from_row rows h ctx \<longleftrightarrow> (\<exists>r \<in> set rows. ak_keyHash r = h \<and> ctx = context_of r)"

definition key_inv :: "key_state \<Rightarrow> int \<Rightarrow> bool" where
  "key_inv st t \<longleftrightarrow>
     (\<forall>h ctx e. om_get (ks_cache st) h = Some (ctx, e) \<longrightarrow> from_row (ks_rows st) h ctx)
     \<and> (\<forall>l \<in> set (ks_pending st). kp_begun l \<le> t \<and> (\<forall>ctx. kp_read l = Some (Some ctx) \<longrightarrow> from_row (ks_rows st) (kp_hash l) ctx))
     \<and> buckets_ok (ks_buckets st) t \<and> (\<forall>i. om_get (ks_buckets st) i \<noteq> None \<longrightarrow> (\<exists>r \<in> set (ks_rows st). ak_id r = i))"

lemma context_from_row: "key_context_at t rows h = Some ctx \<Longrightarrow> from_row rows h ctx"
  by (drule context_live) (auto simp: live_key_def from_row_def)

lemma from_row_id: "from_row rows h ctx \<Longrightarrow> \<exists>r \<in> set rows. ak_id r = kx_id ctx \<and> ak_rateLimitPerMinute r = kx_rateLimitPerMinute ctx"
  by (auto simp: from_row_def context_of_def)

lemma key_step_outcome:
  "ks_buckets (snd (key_step sha256 required op st)) =
     (case resolved sha256 op st of
        Some ctx \<Rightarrow> snd (checkRate (key_time op) (kx_id ctx) (of_int (kx_rateLimitPerMinute ctx)) (ks_buckets st))
      | None \<Rightarrow> ks_buckets st)"
  "(\<exists>b. fst (key_step sha256 required op st) = Some (b, KeyPass ctx)) \<longleftrightarrow>
     resolved sha256 op st = Some ctx
     \<and> fst (checkRate (key_time op) (kx_id ctx) (of_int (kx_rateLimitPerMinute ctx)) (ks_buckets st))"
proof -
  show "ks_buckets (snd (key_step sha256 required op st)) =
     (case resolved sha256 op st of
        Some ctx \<Rightarrow> snd (checkRate (key_time op) (kx_id ctx) (of_int (kx_rateLimitPerMinute ctx)) (ks_buckets st))
      | None \<Rightarrow> ks_buckets st)"
  proof (cases op)
    case (KBegin t x a)
    then show ?thesis using begin_simps(4) [of sha256 required t x a st]
      by (cases "middleware_begin sha256 required t x a st"; cases "fst (middleware_begin sha256 required t x a st)") (auto split: option.split)
  next
    case (KRevoke t i reason)
    then show ?thesis by (simp add: revoke_key_def repo_revoke_def)
  qed (auto simp: Let_def case_prod_beta end_simps split: option.split)
  show "(\<exists>b. fst (key_step sha256 required op st) = Some (b, KeyPass ctx)) \<longleftrightarrow>
     resolved sha256 op st = Some ctx
     \<and> fst (checkRate (key_time op) (kx_id ctx) (of_int (kx_rateLimitPerMinute ctx)) (ks_buckets st))"
  proof (cases op)
    case (KBegin t x a)
    then show ?thesis using begin_simps(1) [of sha256 required t x a st ctx]
      by (cases "middleware_begin sha256 required t x a st"; cases "fst (middleware_begin sha256 required t x a st)") auto
  next
    case (KRevoke t i reason)
    then show ?thesis by (simp add: revoke_key_def repo_revoke_def)
  qed (auto simp: Let_def case_prod_beta end_simps split: option.split)
qed

lemma resolved_row:
  assumes "key_inv st t" and "resolved sha256 op st = Some ctx"
  shows "\<exists>h. from_row (ks_rows st) h ctx"
proof (cases op)
  case (KBegin u x a)
  then show ?thesis using assms resolved_hit [of sha256 u x a st ctx] unfolding key_inv_def by (metis resolved.simps(1))
next
  case (KEnd u n)
  then have "n < length (ks_pending st)" "kp_read (ks_pending st ! n) = Some (Some ctx)"
    using assms(2) by (auto split: if_splits option.splits)
  then show ?thesis using assms(1) unfolding key_inv_def by (meson nth_mem)
qed (use assms(2) in simp_all)

text \<open>Steps keep the rows of a table, up to their use and their revocation.\<close>

definition rows_kept :: "key_row list \<Rightarrow> key_row list \<Rightarrow> bool" where
  "rows_kept rows rows' \<longleftrightarrow> (\<forall>r \<in> set rows. \<exists>r' \<in> set rows'. ak_keyHash r' = ak_keyHash r \<and> context_of r' = context_of r)"

lemma rows_kept_map: "(\<And>r. ak_keyHash (f r) = ak_keyHash r \<and> context_of (f r) = context_of r) \<Longrightarrow> rows_kept rows (map f rows)"
  by (auto simp: rows_kept_def)

lemma rows_kept_touch: "rows_kept rows (touchLastUsed t i rows)"
  unfolding touchLastUsed_def by (rule rows_kept_map) (simp add: context_of_def)

lemma rows_kept_trans: "rows_kept a b \<Longrightarrow> rows_kept b c \<Longrightarrow> rows_kept a c"
  unfolding rows_kept_def by metis

lemma rows_kept_refl: "rows_kept rows rows"
  by (auto simp: rows_kept_def)

lemma from_row_kept: "from_row rows h ctx \<Longrightarrow> rows_kept rows rows' \<Longrightarrow> from_row rows' h ctx"
  unfolding from_row_def rows_kept_def by metis

lemma id_kept: "rows_kept rows rows' \<Longrightarrow> r \<in> set rows \<Longrightarrow>
    \<exists>r' \<in> set rows'. ak_id r' = ak_id r \<and> ak_rateLimitPerMinute r' = ak_rateLimitPerMinute r"
  unfolding rows_kept_def context_of_def by fastforce

lemma step_rows:
  "ks_rows (snd (key_step sha256 required op st)) =
     (case op of
        KIssue t i p s inp \<Rightarrow> snd (issue sha256 i p s inp (ks_rows st))
      | KRevoke t i reason \<Rightarrow> snd (repo_revoke t i reason (ks_rows st))
      | KEnd t n \<Rightarrow> (case resolved sha256 op st of Some ctx \<Rightarrow> touchLastUsed t (kx_id ctx) (ks_rows st) | None \<Rightarrow> ks_rows st)
      | _ \<Rightarrow> ks_rows st)"
proof (cases op)
  case (KBegin t x a)
  then show ?thesis using begin_simps(2) [of sha256 required t x a st]
    by (cases "middleware_begin sha256 required t x a st"; cases "fst (middleware_begin sha256 required t x a st)") auto
next
  case (KRevoke t i reason)
  then show ?thesis by (simp add: revoke_key_def repo_revoke_def)
qed (auto simp: Let_def case_prod_beta end_simps split: option.split)

lemma key_step_rows: "rows_kept (ks_rows st) (ks_rows (snd (key_step sha256 required op st)))"
  unfolding step_rows
proof (cases op)
  case (KIssue t i p s inp)
  then show "rows_kept (ks_rows st) (case op of KIssue t i p s inp \<Rightarrow> snd (issue sha256 i p s inp (ks_rows st))
      | KRevoke t i reason \<Rightarrow> snd (repo_revoke t i reason (ks_rows st))
      | KEnd t n \<Rightarrow> (case resolved sha256 op st of Some ctx \<Rightarrow> touchLastUsed t (kx_id ctx) (ks_rows st) | None \<Rightarrow> ks_rows st)
      | _ \<Rightarrow> ks_rows st)"
    by (auto simp: issue_def rows_kept_def Let_def)
qed (auto simp: repo_revoke_def rows_kept_refl rows_kept_touch context_of_def intro!: rows_kept_map split: option.split)

text \<open>What a step leaves in the cache and what waits after it was there before, or has just been read.\<close>

lemma step_cache:
  assumes "om_get (ks_cache (snd (key_step sha256 required op st))) h = Some (ctx, e)"
  shows "(om_get (ks_cache st) h = Some (ctx, e) \<and> (\<forall>t i reason. op \<noteq> KRevoke t i reason))
    \<or> (\<exists>l \<in> set (ks_pending st). kp_hash l = h \<and> kp_read l = Some (Some ctx) \<and> e = kp_begun l + cacheTtlMs)"
proof (cases op)
  case (KBegin t x a)
  then have "om_get (ks_cache (snd (middleware_begin sha256 required t x a st))) h = Some (ctx, e)"
    using assms
    by (cases "middleware_begin sha256 required t x a st"; cases "fst (middleware_begin sha256 required t x a st)") auto
  then show ?thesis using begin_keeps KBegin by blast
next
  case (KRevoke t i reason)
  then show ?thesis using assms by (simp add: revoke_key_def repo_revoke_def clear_cache_def)
next
  case (KEnd t n)
  then show ?thesis using assms
    by (auto simp: Let_def case_prod_beta end_simps split: option.splits if_splits dest!: finish_keeps intro: nth_mem)
qed (use assms in \<open>auto simp: Let_def split: if_splits\<close>)

lemma step_pending:
  assumes "l \<in> set (ks_pending (snd (key_step sha256 required op st)))"
  shows "l \<in> set (ks_pending st)
    \<or> (kp_begun l = key_time op \<and> kp_read l = None)
    \<or> (\<exists>l0 \<in> set (ks_pending st). l = l0\<lparr>kp_read := Some (key_context_at (kp_begun l0) (ks_rows st) (kp_hash l0))\<rparr>)"
proof (cases op)
  case (KBegin t x a)
  then show ?thesis using assms begin_simps(3) [of sha256 required t x a st]
    by (cases "middleware_begin sha256 required t x a st"; cases "fst (middleware_begin sha256 required t x a st)") auto
next
  case (KRevoke t i reason)
  then show ?thesis using assms by (simp add: revoke_key_def repo_revoke_def)
next
  case (KRead t n)
  then show ?thesis using assms by (auto simp: Let_def split: if_splits dest!: subsetD [OF set_update_subset_insert])
next
  case (KEnd t n)
  then show ?thesis using assms
    by (auto simp: Let_def case_prod_beta end_simps split: option.splits if_splits dest: in_set_takeD in_set_dropD)
qed (use assms in auto)

lemma key_step_inv:
  assumes "key_inv st t" and "t \<le> key_time op"
  shows "key_inv (snd (key_step sha256 required op st)) (key_time op)"
proof -
  let ?st = "snd (key_step sha256 required op st)"
  note kept = from_row_kept [OF _ key_step_rows]
  have "buckets_ok (ks_buckets st) (key_time op)" using assms keyed.later by (auto simp: key_inv_def)
  then have buckets: "buckets_ok (ks_buckets ?st) (key_time op)"
    unfolding key_step_outcome(1) using keyed.keep by (simp split: option.split)
  have ids: "\<exists>r \<in> set (ks_rows ?st). ak_id r = i" if "om_get (ks_buckets ?st) i \<noteq> None" for i
  proof -
    have "om_get (ks_buckets st) i \<noteq> None \<or> (\<exists>ctx. resolved sha256 op st = Some ctx \<and> kx_id ctx = i)"
      using that unfolding key_step_outcome(1) by (auto simp: checkRate_def Let_def split: option.splits if_splits)
    then have "\<exists>r \<in> set (ks_rows st). ak_id r = i"
      using assms(1) resolved_row [OF assms(1)] from_row_id unfolding key_inv_def by metis
    then show ?thesis using id_kept [OF key_step_rows] by metis
  qed
  have cache: "from_row (ks_rows ?st) h ctx" if "om_get (ks_cache ?st) h = Some (ctx, e)" for h ctx e
    using step_cache [OF that] assms(1) kept unfolding key_inv_def by blast
  have pending: "kp_begun l \<le> key_time op \<and> (\<forall>ctx. kp_read l = Some (Some ctx) \<longrightarrow> from_row (ks_rows ?st) (kp_hash l) ctx)"
    if "l \<in> set (ks_pending ?st)" for l
    using step_pending [OF that] assms kept context_from_row unfolding key_inv_def by fastforce
  show ?thesis using buckets ids cache pending by (simp add: key_inv_def)
qed

lemma key_run_Cons:
  "fst (key_run sha256 required (op # ops) st) =
     (case fst (key_step sha256 required op st) of Some u \<Rightarrow> [u] | None \<Rightarrow> [])
       @ fst (key_run sha256 required ops (snd (key_step sha256 required op st)))"
  "snd (key_run sha256 required (op # ops) st) = snd (key_run sha256 required ops (snd (key_step sha256 required op st)))"
  by (simp_all add: case_prod_beta split: option.split)

lemma key_run_inv:
  "key_inv st t \<Longrightarrow> sorted (t # map key_time ops @ [t']) \<Longrightarrow> key_inv (snd (key_run sha256 required ops st)) t'"
proof (induction ops arbitrary: st t)
  case Nil
  then show ?case using keyed.later by (fastforce simp: key_inv_def)
next
  case (Cons op ops)
  then have "t \<le> key_time op" "sorted (key_time op # map key_time ops @ [t'])" by simp_all
  then show ?case using Cons.IH key_step_inv [OF Cons.prems(1)] unfolding key_run_Cons by blast
qed

lemma no_keys_inv: "key_inv no_keys t"
  by (simp add: key_inv_def no_keys_def buckets_ok_def)

lemma key_reachable_inv: "sorted (map key_time ops @ [t]) \<Longrightarrow> key_inv (snd (key_run sha256 required ops no_keys)) t"
proof (cases ops)
  case (Cons op rest)
  assume "sorted (map key_time ops @ [t])"
  then show ?thesis by (intro key_run_inv [OF no_keys_inv [of "key_time op"]]) (simp add: Cons)
qed (simp add: no_keys_inv)

lemma key_run_rows: "rows_kept (ks_rows st) (ks_rows (snd (key_run sha256 required ops st)))"
proof (induction ops arbitrary: st)
  case (Cons op ops)
  show ?case unfolding key_run_Cons using rows_kept_trans [OF key_step_rows Cons.IH] .
qed (simp add: rows_kept_refl)

text \<open>The limiter's calls of a run.\<close>

fun key_calls :: "(string \<Rightarrow> string) \<Rightarrow> bool \<Rightarrow> key_op list \<Rightarrow> key_state \<Rightarrow> (int \<times> string \<times> real) list" where
  "key_calls sha256 required [] st = []"
| "key_calls sha256 required (op # ops) st =
     (case resolved sha256 op st of Some ctx \<Rightarrow> [(key_time op, kx_id ctx, of_int (kx_rateLimitPerMinute ctx))] | None \<Rightarrow> [])
       @ key_calls sha256 required ops (snd (key_step sha256 required op st))"

lemma key_passes_calls:
  "key_passes i (fst (key_run sha256 required ops st)) = passed checkRate i (key_calls sha256 required ops st) (ks_buckets st)"
proof (induction ops arbitrary: st)
  case Nil
  then show ?case by (simp add: key_passes_def)
next
  case (Cons op ops)
  let ?st = "snd (key_step sha256 required op st)"
  have split: "key_passes i (xs @ ys) = key_passes i xs + key_passes i ys" for xs ys by (simp add: key_passes_def)
  have "key_passes i (case fst (key_step sha256 required op st) of Some u \<Rightarrow> [u] | None \<Rightarrow> []) =
      (if \<exists>b ctx. fst (key_step sha256 required op st) = Some (b, KeyPass ctx) \<and> kx_id ctx = i then 1 else 0)"
    by (cases "fst (key_step sha256 required op st)") (auto simp: key_passes_def passes_with_def split: key_outcome.splits)
  also have "\<dots> = (case resolved sha256 op st of
         Some ctx \<Rightarrow> if kx_id ctx = i \<and> fst (checkRate (key_time op) (kx_id ctx) (of_int (kx_rateLimitPerMinute ctx)) (ks_buckets st)) then 1 else 0
       | None \<Rightarrow> 0)"
  proof -
    have "(\<exists>b ctx. fst (key_step sha256 required op st) = Some (b, KeyPass ctx) \<and> kx_id ctx = i) \<longleftrightarrow>
        (\<exists>ctx. resolved sha256 op st = Some ctx \<and> kx_id ctx = i
          \<and> fst (checkRate (key_time op) (kx_id ctx) (of_int (kx_rateLimitPerMinute ctx)) (ks_buckets st)))"
      using key_step_outcome(2) [of sha256 required op st] by blast
    then show ?thesis by (cases "resolved sha256 op st") auto
  qed
  finally show ?case
    using Cons.IH [of ?st] unfolding key_run_Cons split key_step_outcome(1) by (simp split: option.split)
qed

lemma key_calls_times:
  "sorted (t0 # map key_time ops @ [t1]) \<Longrightarrow> sorted (t0 # map fst (key_calls sha256 required ops st) @ [t1])"
proof (induction ops arbitrary: t0 st)
  case (Cons op ops)
  then have t: "t0 \<le> key_time op" "sorted (key_time op # map key_time ops @ [t1])" by simp_all
  from Cons.IH [OF t(2)] show ?case using t(1) by (auto split: option.split intro: order_trans)
qed simp

lemma key_calls_rate:
  assumes "key_inv st t0" and "sorted (t0 # map key_time ops)"
    and "\<forall>r \<in> set (ks_rows (snd (key_run sha256 required ops st))). ak_id r = i \<longrightarrow> ak_rateLimitPerMinute r = R"
  shows "\<forall>e \<in> set (key_calls sha256 required ops st). fst (snd e) = i \<longrightarrow> snd (snd e) = of_int R"
  using assms
proof (induction ops arbitrary: t0 st)
  case (Cons op ops)
  let ?st = "snd (key_step sha256 required op st)"
  have t: "t0 \<le> key_time op" "sorted (key_time op # map key_time ops)" using Cons.prems(2) by simp_all
  have "kx_rateLimitPerMinute ctx = R" if c: "resolved sha256 op st = Some ctx" "kx_id ctx = i" for ctx
  proof -
    obtain r where "r \<in> set (ks_rows st)" "ak_id r = i" "ak_rateLimitPerMinute r = kx_rateLimitPerMinute ctx"
      using resolved_row [OF Cons.prems(1)] from_row_id c by metis
    then show ?thesis using id_kept [OF key_run_rows [of st sha256 required "op # ops"]] Cons.prems(3) by force
  qed
  then show ?case
    using Cons.IH [OF key_step_inv [OF Cons.prems(1) t(1)] t(2)] Cons.prems(3) unfolding key_run_Cons
    by (auto split: option.split)
qed simp


section \<open>Revocation\<close>

definition dead_key :: "string \<Rightarrow> key_row list \<Rightarrow> bool" where
  "dead_key i rows \<longleftrightarrow> (\<exists>r \<in> set rows. ak_id r = i) \<and> (\<forall>r \<in> set rows. ak_id r = i \<longrightarrow> \<not> ak_isActive r)"

text \<open>What is left of a revoked key, in the cache and in the requests that wait, ends with \<open>B\<close>.\<close>

definition dying_key :: "string \<Rightarrow> int \<Rightarrow> key_state \<Rightarrow> bool" where
  "dying_key i B st \<longleftrightarrow> dead_key i (ks_rows st)
     \<and> (\<forall>h ctx e. om_get (ks_cache st) h = Some (ctx, e) \<longrightarrow> kx_id ctx = i \<longrightarrow> e \<le> B)
     \<and> (\<forall>l \<in> set (ks_pending st). \<forall>ctx. kp_read l = Some (Some ctx) \<longrightarrow> kx_id ctx = i \<longrightarrow> kp_begun l + cacheTtlMs \<le> B)"

lemma dead_map:
  assumes "dead_key i rows" and "\<And>r. ak_id (f r) = ak_id r \<and> (ak_isActive (f r) \<longrightarrow> ak_isActive r)"
  shows "dead_key i (map f rows)"
  using assms unfolding dead_key_def set_map ball_simps bex_simps by metis

lemma dead_step:
  assumes "dead_key i (ks_rows st)"
  shows "dead_key i (ks_rows (snd (key_step sha256 required op st)))"
proof -
  have "dead_key i (snd (issue sha256 j p s inp (ks_rows st)))" for j p s inp
    using assms by (auto simp: dead_key_def issue_def Let_def)
  moreover have "dead_key i (snd (repo_revoke t j reason (ks_rows st)))" "dead_key i (touchLastUsed t j (ks_rows st))" for t j reason
    unfolding repo_revoke_def touchLastUsed_def snd_conv by (rule dead_map [OF assms], simp)+
  ultimately show ?thesis unfolding step_rows using assms by (simp split: key_op.split option.split)
qed

lemma dead_unread: "dead_key i rows \<Longrightarrow> key_context_at t rows h = Some ctx \<Longrightarrow> kx_id ctx \<noteq> i"
  by (drule context_live) (auto simp: live_key_def dead_key_def context_of_def)

lemma dying_step:
  assumes "dying_key i B st"
  shows "dying_key i B (snd (key_step sha256 required op st))"
proof -
  let ?st = "snd (key_step sha256 required op st)"
  have "dead_key i (ks_rows ?st)" using assms dead_step by (simp add: dying_key_def)
  moreover have "e \<le> B" if "om_get (ks_cache ?st) h = Some (ctx, e)" "kx_id ctx = i" for h ctx e
    using step_cache [OF that(1)] assms that(2) unfolding dying_key_def by blast
  moreover have "kp_begun l + cacheTtlMs \<le> B" if "l \<in> set (ks_pending ?st)" "kp_read l = Some (Some ctx)" "kx_id ctx = i" for l ctx
    using step_pending [OF that(1)] assms that(2,3) dead_unread unfolding dying_key_def by fastforce
  ultimately show ?thesis by (simp add: dying_key_def)
qed

lemma dying_pass:
  assumes "dying_key i B st" and "fst (key_step sha256 required op st) = Some (b, KeyPass ctx)" and "kx_id ctx = i"
  shows "b < B"
proof (cases op)
  case (KBegin t x a)
  then have p: "b = t" "fst (middleware_begin sha256 required t x a st) = Inl (KeyPass ctx)"
    using assms(2)
    by (cases "middleware_begin sha256 required t x a st"; cases "fst (middleware_begin sha256 required t x a st)"; simp)+
  then have "\<exists>h e. om_get (ks_cache st) h = Some (ctx, e) \<and> t < e" unfolding begin_simps using resolved_hit by blast
  then show ?thesis using assms(1,3) p(1) by (fastforce simp: dying_key_def)
next
  case (KRevoke t j reason)
  then show ?thesis using assms(2) by (simp add: revoke_key_def repo_revoke_def)
next
  case (KEnd t n)
  then have "n < length (ks_pending st)" "kp_read (ks_pending st ! n) = Some (Some ctx)" "b = kp_begun (ks_pending st ! n)"
    using assms(2) by (auto simp: Let_def case_prod_beta end_simps split: if_splits option.splits)
  then have "b + cacheTtlMs \<le> B" using assms(1,3) unfolding dying_key_def by (metis nth_mem)
  then show ?thesis by (simp add: cacheTtlMs_def)
qed (use assms(2) in simp_all)

lemma dying_run: "dying_key i B st \<Longrightarrow> (b, KeyPass ctx) \<in> set (fst (key_run sha256 required ops st)) \<Longrightarrow> kx_id ctx = i \<Longrightarrow> b < B"
proof (induction ops arbitrary: st)
  case (Cons op ops)
  let ?st = "snd (key_step sha256 required op st)"
  have "fst (key_step sha256 required op st) = Some (b, KeyPass ctx) \<or> (b, KeyPass ctx) \<in> set (fst (key_run sha256 required ops ?st))"
    using Cons.prems(2) unfolding key_run_Cons by (cases "fst (key_step sha256 required op st)") auto
  then show ?case using dying_pass [OF Cons.prems(1) _ Cons.prems(3)] Cons.IH [OF dying_step [OF Cons.prems(1)] _ Cons.prems(3)] by blast
qed simp

lemma dying_after_revoke:
  assumes "\<exists>r \<in> set (ks_rows st). ak_id r = i"
    and "\<forall>l \<in> set (ks_pending st). \<forall>ctx. kp_read l = Some (Some ctx) \<longrightarrow> kx_id ctx = i \<longrightarrow> kp_begun l + cacheTtlMs \<le> B"
  shows "dying_key i B (snd (key_step sha256 required (KRevoke t i reason) st))"
proof -
  have "dead_key i (snd (repo_revoke t i reason (ks_rows st)))"
    unfolding repo_revoke_def dead_key_def snd_conv set_map ball_simps bex_simps using assms(1) by auto
  then show ?thesis using assms(2) by (simp add: dying_key_def revoke_key_def repo_revoke_def clear_cache_def)
qed

text \<open>
  C14: in the process that answers it a revocation holds at once and for good, up to the verifications it overtakes.
  Whatever is issued and requested later, a request that still passes with the key began less than thirty
  seconds after the revocation; and none passes at all when, at the revocation, no request was waiting that had
  already read the key from the database.
\<close>

theorem revocation_is_immediate:
  assumes "sorted (map key_time before @ t # map key_time ops)" and "st = snd (key_run sha256 required before no_keys)"
    and "\<exists>r \<in> set (ks_rows st). ak_id r = i"
  shows "(\<forall>(b, out) \<in> set (fst (key_run sha256 required (KRevoke t i reason # ops) st)). passes_with i (b, out) \<longrightarrow> b < t + 30000)
    \<and> ((\<forall>l \<in> set (ks_pending st). \<forall>ctx. kp_read l = Some (Some ctx) \<longrightarrow> kx_id ctx \<noteq> i)
        \<longrightarrow> key_passes i (fst (key_run sha256 required (KRevoke t i reason # ops) st)) = 0)"
proof -
  have inv: "key_inv st t" unfolding assms(2) using assms(1) by (intro key_reachable_inv) (simp add: sorted_append)
  have outs: "fst (key_run sha256 required (KRevoke t i reason # ops) st) =
      fst (key_run sha256 required ops (snd (key_step sha256 required (KRevoke t i reason) st)))"
    unfolding key_run_Cons by (simp add: revoke_key_def repo_revoke_def)
  have "dying_key i (t + 30000) (snd (key_step sha256 required (KRevoke t i reason) st))"
    using inv by (intro dying_after_revoke [OF assms(3)]) (auto simp: key_inv_def cacheTtlMs_def)
  then have late: "b < t + 30000" if "(b, out) \<in> set (fst (key_run sha256 required (KRevoke t i reason # ops) st))" "passes_with i (b, out)" for b out
    using that unfolding outs by (auto simp: passes_with_def split: key_outcome.splits dest: dying_run)
  have "key_passes i (fst (key_run sha256 required (KRevoke t i reason # ops) st)) = 0"
    if "\<forall>l \<in> set (ks_pending st). \<forall>ctx. kp_read l = Some (Some ctx) \<longrightarrow> kx_id ctx \<noteq> i"
  proof -
    have dying: "dying_key i B (snd (key_step sha256 required (KRevoke t i reason) st))" for B
      using that by (intro dying_after_revoke [OF assms(3)]) auto
    have "\<not> passes_with i out0" if o: "out0 \<in> set (fst (key_run sha256 required (KRevoke t i reason # ops) st))" for out0
    proof
      assume "passes_with i out0"
      then obtain b ctx where "out0 = (b, KeyPass ctx)" "kx_id ctx = i"
        by (cases out0) (auto simp: passes_with_def split: key_outcome.splits)
      then show False using dying_run [OF dying [of b]] o unfolding outs by blast
    qed
    then show ?thesis by (simp add: key_passes_def filter_empty_conv)
  qed
  then show ?thesis using late by blast
qed

text \<open>
  The thirty seconds are real. A request that has read the key when it is revoked is resumed, and leaves an entry: a
  request that begins later, within thirty seconds of its begin, is resolved to the revoked key.
\<close>

theorem overtaken_verification_survives_revocation:
  assumes "n < length (ks_pending st)" and "ks_pending st ! n = \<lparr>kp_begun = b, kp_hash = sha256 tok, kp_read = Some (Some ctx)\<rparr>"
    and "extractToken x a = Some tok" and "starts_with tok ''fdk_''" and "t < b + 30000"
  shows "resolved sha256 (KBegin t x a) (snd (key_step sha256 required (KEnd u n) (snd (key_step sha256 required (KRevoke r i reason) st)))) = Some ctx"
proof -
  have "ks_cache (snd (key_step sha256 required (KEnd u n) (snd (key_step sha256 required (KRevoke r i reason) st)))) =
      key_finish b (sha256 tok) (Some ctx) []"
    using assms(1,2) by (simp add: revoke_key_def repo_revoke_def clear_cache_def case_prod_beta end_simps Let_def)
  moreover have "fst (key_start t (sha256 tok) (key_finish b (sha256 tok) (Some ctx) [])) = Some (Some ctx)"
    using assms(5) by (simp add: key_finish_def key_start_def cacheTtlMs_def)
  ultimately show ?thesis using assms(3,4) by (simp add: resolved_at_once_def del: key_step.simps)
qed

section \<open>An issued key works\<close>

text \<open>
  The token an administrator is given works: presented in the key header, until it
  expires, it passes and acts for the tenant the administrator's scope resolved to.
\<close>

theorem issued_key_passes:
  assumes "sorted (map key_time before @ [t])" and "st = snd (key_run sha256 required before no_keys)"
    and "keys_issue sha256 newId prefix secret auth requested inp (ks_rows st) = (Inr (i, token, p), rows)"
    and "t \<le> now" and "\<forall>x. ki_expiresAt inp = Some x \<longrightarrow> now \<le> x"
  shows "\<exists>ctx st'. apiKeyMiddleware sha256 required now (Some token) a rows now id (st\<lparr>ks_rows := rows\<rparr>) = (KeyPass ctx, st')
    \<and> kx_id ctx = newId \<and> kx_tenantId ctx = resolveTenantScope auth requested \<and> kx_name ctx = ki_name inp"
proof -
  have inv: "key_inv st t" unfolding assms(2) using assms(1) by (rule key_reachable_inv)
  let ?inp = "inp\<lparr>ki_tenantId := resolveTenantScope auth requested\<rparr>"
  have i: "issue sha256 newId prefix secret ?inp (ks_rows st) = (Inr (i, token, p), rows)" using assms(3) by (simp add: keys_issue_def)
  have new: "\<not> (\<exists>r \<in> set (ks_rows st). ak_id r = newId)" "\<not> (\<exists>r \<in> set (ks_rows st). ak_keyHash r = sha256 (''fdk_'' @ prefix @ ''_'' @ secret))"
    using i by (auto simp: issue_def Let_def split: if_splits)
  have token: "token = ''fdk_'' @ prefix @ ''_'' @ secret" using i new by (auto simp: issue_def Let_def)
  have fresh: "\<forall>r \<in> set (ks_rows st). ak_id r \<noteq> newId" "\<forall>r \<in> set (ks_rows st). ak_keyHash r \<noteq> sha256 token"
    using new unfolding token by blast+
  obtain row where row: "rows = ks_rows st @ [row]" "ak_id row = newId" "ak_keyHash row = sha256 token" "ak_isActive row"
    "ak_revokedAt row = None" "ak_expiresAt row = ki_expiresAt inp" "ak_tenantId row = resolveTenantScope auth requested"
    "ak_name row = ki_name inp"
    using i new unfolding token issue_def Let_def by auto
  have f: "findByHash (sha256 token) rows = Some row"
    unfolding findByHash_def row(1) using fresh(2) row(3,4)
    by (auto simp: find_Some_iff nth_append intro!: exI [of _ "length (ks_rows st)"])
  have "\<not> (case ak_expiresAt row of Some x \<Rightarrow> x < now | None \<Rightarrow> False)" using assms(5) row(6) by (auto split: option.split)
  then have k: "key_context_at now rows (sha256 token) = Some (context_of row)" by (simp add: key_context_at_def f row(5))
  have "om_get (ks_cache st) (sha256 token) = None"
  proof (rule ccontr)
    assume "om_get (ks_cache st) (sha256 token) \<noteq> None"
    then obtain c e where "om_get (ks_cache st) (sha256 token) = Some (c, e)" by auto
    then have "from_row (ks_rows st) (sha256 token) c" using inv unfolding key_inv_def by blast
    then show False using fresh(2) by (auto simp: from_row_def)
  qed
  then have l: "key_start now (sha256 token) (ks_cache st) = (None, ks_cache st)" by (simp add: key_start_def)
  have "om_get (ks_buckets st) newId = None" using inv fresh(1) by (auto simp: key_inv_def)
  then have b: "fst (checkRate now newId r (ks_buckets st))" for r by (simp add: checkRate_def fresh_bucket_def Let_def)
  let ?st = "st\<lparr>ks_rows := rows\<rparr>"
  have pre: "starts_with token ''fdk_''" "token \<noteq> []" unfolding token by simp_all
  have x: "extractToken (Some token) a = Some token" using pre(2) by (simp add: extractToken_def)
  have w: "middleware_begin sha256 required now (Some token) a ?st = (Inr (sha256 token), ?st)"
    by (simp add: middleware_begin_def x pre verify_begin_def l)
  have "fst (middleware_end now now (sha256 token) (Some (context_of row)) ?st) = KeyPass (context_of row)"
    unfolding end_simps using b row(2) by (simp add: context_of_def)
  then have "fst (apiKeyMiddleware sha256 required now (Some token) a rows now id ?st) = KeyPass (context_of row)"
    by (simp add: apiKeyMiddleware_def w k)
  then show ?thesis using row(2,7,8)
    by (cases "apiKeyMiddleware sha256 required now (Some token) a rows now id ?st") (simp add: context_of_def)
qed

section \<open>Witnesses\<close>

definition sample_input :: key_input where
  "sample_input = \<lparr>ki_tenantId = ''acme'', ki_name = ''shop'', ki_scope = None, ki_rateLimitPerMinute = None, ki_expiresAt = Some 100000\<rparr>"

definition sample_row :: key_row where
  "sample_row = \<lparr>ak_id = ''k1'', ak_tenantId = ''acme'', ak_name = ''shop'', ak_keyPrefix = ''ab'', ak_keyHash = ''fdk_ab_cd'', ak_scope = ''predict'',
       ak_rateLimitPerMinute = 600, ak_isActive = True, ak_lastUsedAt = None, ak_expiresAt = Some 100000, ak_revokedAt = None,
       ak_revokedReason = None\<rparr>"

definition sample_key_state :: key_state where
  "sample_key_state = snd (key_run id True [KIssue 0 ''k1'' ''ab'' ''cd'' sample_input] no_keys)"

lemma sample_state: "sample_key_state = \<lparr>ks_rows = [sample_row], ks_cache = [], ks_buckets = [], ks_pending = []\<rparr>"
  by (simp add: sample_key_state_def no_keys_def issue_def sample_input_def sample_row_def Let_def)

lemma sample_token: "extractToken (Some ''fdk_ab_cd'') None = Some ''fdk_ab_cd''"
  by (simp add: extractToken_def)

lemma sample_begin:
  "om_get (ks_cache st) ''fdk_ab_cd'' = None \<Longrightarrow> middleware_begin id True t (Some ''fdk_ab_cd'') None st = (Inr ''fdk_ab_cd'', st)"
  by (simp add: middleware_begin_def sample_token verify_begin_def key_start_def)

lemma sample_context: "t \<le> 100000 \<Longrightarrow> key_context_at t [sample_row] ''fdk_ab_cd'' = Some (context_of sample_row)"
  by (simp add: key_context_at_def findByHash_def sample_row_def)

lemma sample_admitted:
  "checkRate t (kx_id (context_of sample_row)) (of_int (kx_rateLimitPerMinute (context_of sample_row))) [] =
     (True, [(''k1'', \<lparr>bk_tokens = 599, bk_capacity = 600, bk_refillPerMs = 600 / 60000, bk_lastRefill = t\<rparr>)])"
  by (simp add: checkRate_def fresh_bucket_def context_of_def sample_row_def Let_def)

theorem key_access_is_live_witness:
  "\<exists>row. row \<in> set (ks_rows sample_key_state) \<and> ak_keyHash row = ''fdk_ab_cd'' \<and> ak_isActive row"
proof -
  have "fst (apiKeyMiddleware id True 5 (Some ''fdk_ab_cd'') None [sample_row] 5 id sample_key_state) = KeyPass (context_of sample_row)"
    by (simp add: apiKeyMiddleware_def sample_begin sample_context end_simps sample_admitted sample_state)
  then obtain st' where m: "apiKeyMiddleware id True 5 (Some ''fdk_ab_cd'') None [sample_row] 5 id sample_key_state = (KeyPass (context_of sample_row), st')"
    by (cases "apiKeyMiddleware id True 5 (Some ''fdk_ab_cd'') None [sample_row] 5 id sample_key_state") simp
  have "cache_history key_start key_finish clear_cache (\<lambda>t r. key_context_at t [sample_row]) [] 5 (ks_cache sample_key_state)"
    by (simp add: sample_state cache_history_refl)
  from key_access_is_live [where db = "\<lambda>_. [sample_row]", OF this order_refl order_refl m]
  show ?thesis by (auto simp: sample_token sample_state)
qed


theorem revocation_is_immediate_witness:
  "key_passes ''k1'' (fst (key_run id True [KRevoke 6 ''k1'' None, KBegin 7 (Some ''fdk_ab_cd'') None, KRead 8 0, KEnd 9 0] sample_key_state)) = 0"
  using revocation_is_immediate [OF _ sample_key_state_def, of 6 "[KBegin 7 (Some ''fdk_ab_cd'') None, KRead 8 0, KEnd 9 0]" "''k1''" None]
  by (simp add: sample_state sample_row_def del: key_run.simps)

theorem issued_key_passes_witness:
  "\<exists>rows ctx st'. rows = snd (keys_issue id ''k1'' ''ab'' ''cd'' (Some \<lparr>au_tenantId = ''acme'', au_permissions = [''api_keys:issue'']\<rparr>)
       (Some ''other'') sample_input [])
     \<and> apiKeyMiddleware id True 5 (Some ''fdk_ab_cd'') None rows 5 id (no_keys\<lparr>ks_rows := rows\<rparr>) = (KeyPass ctx, st')
     \<and> kx_tenantId ctx = ''acme''"
proof -
  let ?auth = "Some \<lparr>au_tenantId = ''acme'', au_permissions = [''api_keys:issue'']\<rparr>"
  have "\<exists>rows. keys_issue id ''k1'' ''ab'' ''cd'' ?auth (Some ''other'') sample_input (ks_rows no_keys) = (Inr (''k1'', ''fdk_ab_cd'', ''ab''), rows)"
    by (simp add: keys_issue_def issue_def no_keys_def Let_def)
  then obtain rows where i: "keys_issue id ''k1'' ''ab'' ''cd'' ?auth (Some ''other'') sample_input (ks_rows no_keys) =
      (Inr (''k1'', ''fdk_ab_cd'', ''ab''), rows)" by blast
  have scope: "resolveTenantScope ?auth (Some ''other'') = ''acme''" by (simp add: resolveTenantScope_def Let_def)
  have r: "snd (keys_issue id ''k1'' ''ab'' ''cd'' ?auth (Some ''other'') sample_input []) = rows"
    using i by (simp add: no_keys_def)
  from issued_key_passes [where before = "[]" and t = 0 and required = True and now = 5 and a = None, OF _ _ i] show ?thesis
    unfolding r scope by (auto simp: sample_input_def)
qed

end
