(* ===== verification/Sdk.thy ===== *)
theory Sdk
  imports PredictExecution Webhooks
begin

text \<open>
  The Node client (\<open>packages/sdk\<close>): the retrying transport, the predict call, and the verification of
  webhook signatures, with what they share with the platform's own model: the headers and answers of the
  predict controller and the signatures of the webhook service. The network is an argument that says
  how long attempt \<open>n\<close> takes from its start and what comes back; clocks are in milliseconds. Messages,
  the address of the server and the query are not modelled, nor is a body that JSON cannot hold.
\<close>

section \<open>Errors and answers\<close>

record wire_response =
  wr_status :: nat
  wr_headers :: "(string \<times> string) list"
  wr_body :: string

record api_error =
  ae_status :: nat
  ae_code :: "string option"
  ae_errors :: "jval list"
  ae_correlationId :: "string option"
  ae_retryAfterSeconds :: "real option"
  ae_body :: jval

datatype sdk_error =
    ApiError api_error
  | ResponseError nat jval
  | NetworkError
  | TimeoutError real
  | Aborted
  | ValidationError string

text \<open>Names of headers do not depend on case, and repeated ones are joined.\<close>

definition header_get :: "string \<Rightarrow> (string \<times> string) list \<Rightarrow> string option" where
  "header_get name hs =
     (let vs = map snd (filter (\<lambda>(k, v). to_lower k = to_lower name) hs)
      in if vs = [] then None else Some (join_with '', '' vs))"

section \<open>Retries\<close>

definition MAX_BACKOFF_MS :: real where "MAX_BACKOFF_MS = 20000"
definition MAX_RETRY_AFTER_SECONDS :: real where "MAX_RETRY_AFTER_SECONDS = 86400"
definition RETRYABLE_STATUSES :: "nat list" where "RETRYABLE_STATUSES = [408, 429, 502, 503, 504]"

definition isRetryable :: "sdk_error \<Rightarrow> bool" where
  "isRetryable e =
     (case e of
        TimeoutError t \<Rightarrow> True
      | NetworkError \<Rightarrow> True
      | ApiError a \<Rightarrow> if ae_retryAfterSeconds a \<noteq> None \<and> ae_status a < 500 then True else ae_status a \<in> set RETRYABLE_STATUSES
      | _ \<Rightarrow> False)"

definition clamp_seconds :: "real \<Rightarrow> real" where
  "clamp_seconds s = min (max 0 s) MAX_RETRY_AFTER_SECONDS"

definition parseRetryAfter :: "(string \<Rightarrow> real option) \<Rightarrow> string option \<Rightarrow> real \<Rightarrow> real option" where
  "parseRetryAfter date_parse raw now =
     (case raw of
        None \<Rightarrow> None
      | Some s \<Rightarrow>
          (case str_to_num s of
             Fin x \<Rightarrow> Some (clamp_seconds x)
           | _ \<Rightarrow> (case date_parse s of None \<Rightarrow> None | Some d \<Rightarrow> Some (clamp_seconds ((d - now) / 1000)))))"

definition retryAfterSecondsOf :: "sdk_error \<Rightarrow> real option" where
  "retryAfterSecondsOf e = (case e of ApiError a \<Rightarrow> ae_retryAfterSeconds a | _ \<Rightarrow> None)"

text \<open>\<open>random\<close> is the number drawn, from zero up to one.\<close>

definition backoffDelayMs :: "nat \<Rightarrow> real \<Rightarrow> real option \<Rightarrow> real \<Rightarrow> real" where
  "backoffDelayMs attempt baseDelayMs retryAfterSeconds random =
     (case retryAfterSeconds of
        Some s \<Rightarrow> s * 1000
      | None \<Rightarrow> of_int (js_round (random * min (baseDelayMs * 2 ^ attempt) MAX_BACKOFF_MS)))"

section \<open>The body of an answer\<close>

definition MAX_RETAINED_BODY_CHARS :: nat where "MAX_RETAINED_BODY_CHARS = 8192"

text \<open>The ellipsis in UTF-8.\<close>

definition ELLIPSIS :: string where "ELLIPSIS = [CHR 0xE2, CHR 0x80, CHR 0xA6]"

definition parseBody :: "string \<Rightarrow> jval \<times> bool" where
  "parseBody text_of = (if text_of = [] then (JNull, True) else case json_parse text_of of Some v \<Rightarrow> (v, True) | None \<Rightarrow> (JStr text_of, False))"

definition truncate_body :: "jval \<Rightarrow> jval" where
  "truncate_body body =
     (case body of
        JStr s \<Rightarrow> if MAX_RETAINED_BODY_CHARS < length s then JStr (take MAX_RETAINED_BODY_CHARS s @ ELLIPSIS) else body
      | _ \<Rightarrow>
          (let serialized = json_text body
           in if length serialized \<le> MAX_RETAINED_BODY_CHARS then body
              else JStr (take MAX_RETAINED_BODY_CHARS serialized @ ELLIPSIS)))"

definition codeFrom :: "jval \<Rightarrow> string option" where
  "codeFrom body = (case body of JObj fs \<Rightarrow> (case field fs ''code'' of JStr c \<Rightarrow> if c \<noteq> [] then Some c else None | _ \<Rightarrow> None) | _ \<Rightarrow> None)"

definition errorsFrom :: "jval \<Rightarrow> jval list" where
  "errorsFrom body = (case body of JObj fs \<Rightarrow> (case field fs ''errors'' of JArr es \<Rightarrow> es | _ \<Rightarrow> []) | _ \<Rightarrow> [])"

definition toApiError :: "(string \<Rightarrow> real option) \<Rightarrow> wire_response \<Rightarrow> jval \<Rightarrow> real \<Rightarrow> api_error" where
  "toApiError date_parse r body now =
     \<lparr>ae_status = wr_status r, ae_code = codeFrom body, ae_errors = errorsFrom body,
      ae_correlationId = header_get ''X-Correlation-ID'' (wr_headers r),
      ae_retryAfterSeconds = parseRetryAfter date_parse (header_get ''Retry-After'' (wr_headers r)) now,
      ae_body = truncate_body body\<rparr>"

text \<open>What an answer read at the time \<open>now\<close> gives the caller.\<close>

definition read_answer :: "(string \<Rightarrow> real option) \<Rightarrow> wire_response \<Rightarrow> real \<Rightarrow> (sdk_error, jval \<times> wire_response) result" where
  "read_answer date_parse r now =
     (let (body, json) = parseBody (wr_body r)
      in if \<not> (200 \<le> wr_status r \<and> wr_status r < 300) then Inl (ApiError (toApiError date_parse r body now))
         else if \<not> json then Inl (ResponseError (wr_status r) body)
         else Inr (body, r))"

section \<open>The transport\<close>

record transport_cfg =
  tc_timeoutMs :: real
  tc_deadlineMs :: real
  tc_maxRetries :: nat
  tc_retryBaseDelayMs :: real
  tc_userAgent :: string

record request_spec =
  rs_method :: string
  rs_path :: string
  rs_body :: "jval option"
  rs_headers :: "(string \<times> string) list"
  rs_abortAt :: "real option"
  rs_timeoutMs :: "real option"
  rs_retryable :: "bool option"

record sent_request =
  sr_at :: real
  sr_method :: string
  sr_path :: string
  sr_headers :: "(string \<times> string) list"
  sr_body :: "string option"

datatype fetch_event = Answered wire_response | Broken

record sdk_world =
  sw_net :: "nat \<Rightarrow> real \<Rightarrow> real \<times> fetch_event"
  sw_random :: "nat \<Rightarrow> real"
  sw_dateParse :: "string \<Rightarrow> real option"

text \<open>The defaults, over them the caller's headers, and the type of the body.\<close>

definition buildHeaders :: "transport_cfg \<Rightarrow> request_spec \<Rightarrow> string option \<Rightarrow> (string \<times> string) list" where
  "buildHeaders cfg spec payload =
     (let hs = fold (\<lambda>(k, v). om_set k v) (rs_headers spec) [(''Accept'', ''application/json''), (''User-Agent'', tc_userAgent cfg)]
      in if payload \<noteq> None then om_set ''Content-Type'' ''application/json'' hs else hs)"

text \<open>
  One attempt: its result, when it ends, and whether the request was sent. The caller's signal fires at
  \<open>rs_abortAt\<close>; the fetch ends with it or with the timer, whichever comes first.
\<close>

definition attempt_request ::
    "transport_cfg \<Rightarrow> request_spec \<Rightarrow> sdk_world \<Rightarrow> real \<Rightarrow> nat \<Rightarrow> real \<Rightarrow> (sdk_error, jval \<times> wire_response) result \<times> real \<times> bool" where
  "attempt_request cfg spec w deadline n now =
     (let aborts = (\<lambda>t. case rs_abortAt spec of Some a \<Rightarrow> a \<le> t | None \<Rightarrow> False) in
      if aborts now then (Inl Aborted, now, False)
      else if deadline - now \<le> 0 then (Inl (TimeoutError (tc_deadlineMs cfg)), now, False)
      else (let timeoutMs = min (case rs_timeoutMs spec of Some t \<Rightarrow> t | None \<Rightarrow> tc_timeoutMs cfg) (deadline - now);
                (elapsed, event) = sw_net w n now;
                ends = now + min elapsed timeoutMs
            in if aborts ends then (Inl Aborted, (case rs_abortAt spec of Some a \<Rightarrow> a | None \<Rightarrow> ends), True)
               else if timeoutMs \<le> elapsed then (Inl (TimeoutError timeoutMs), ends, True)
               else (case event of
                       Broken \<Rightarrow> (Inl NetworkError, ends, True)
                     | Answered r \<Rightarrow> (read_answer (sw_dateParse w) r ends, ends, True))))"

definition is_retried :: "request_spec \<Rightarrow> bool" where
  "is_retried spec = (case rs_retryable spec of Some b \<Rightarrow> b | None \<Rightarrow> rs_method spec = ''GET'')"

text \<open>A sleep ends early when the caller aborts.\<close>

definition wakes :: "request_spec \<Rightarrow> real \<Rightarrow> real \<Rightarrow> real" where
  "wakes spec now delay = (case rs_abortAt spec of Some a \<Rightarrow> max now (min a (now + delay)) | None \<Rightarrow> now + delay)"

text \<open>The loop: the result, the time, and the start of every attempt that was sent.\<close>

function request_loop ::
    "transport_cfg \<Rightarrow> request_spec \<Rightarrow> sdk_world \<Rightarrow> real \<Rightarrow> nat \<Rightarrow> real \<Rightarrow> (sdk_error, jval \<times> wire_response) result \<times> real \<times> real list" where
  "request_loop cfg spec w deadline n now =
     (let (res, t, sent) = attempt_request cfg spec w deadline n now;
          starts = (if sent then [now] else [])
      in case res of
           Inr r \<Rightarrow> (Inr r, t, starts)
         | Inl e \<Rightarrow>
             if \<not> is_retried spec \<or> tc_maxRetries cfg \<le> n \<or> \<not> isRetryable e then (Inl e, t, starts)
             else (let delay = backoffDelayMs n (tc_retryBaseDelayMs cfg) (retryAfterSecondsOf e) (sw_random w n)
                   in if deadline \<le> t + delay then (Inl e, t, starts)
                      else (let (res', t', starts') = request_loop cfg spec w deadline (Suc n) (wakes spec t delay)
                            in (res', t', starts @ starts'))))"
  by pat_completeness auto
termination by (relation "measure (\<lambda>(cfg, spec, w, deadline, n, now). tc_maxRetries cfg - n)") auto

declare request_loop.simps [simp del]

definition request ::
    "transport_cfg \<Rightarrow> request_spec \<Rightarrow> sdk_world \<Rightarrow> real \<Rightarrow> (sdk_error, jval \<times> wire_response) result \<times> real \<times> sent_request list" where
  "request cfg spec w now =
     (let payload = map_option json_text (rs_body spec);
          (res, t, starts) = request_loop cfg spec w (now + tc_deadlineMs cfg) 0 now
      in (res, t, map (\<lambda>s. \<lparr>sr_at = s, sr_method = rs_method spec, sr_path = rs_path spec,
                              sr_headers = buildHeaders cfg spec payload, sr_body = payload\<rparr>) starts))"

section \<open>The predict call\<close>

definition is_control :: "char \<Rightarrow> bool" where
  "is_control c = (code c \<le> 0x1F \<or> code c = 0x7F)"

definition assertHeaderValue :: "string \<Rightarrow> string \<Rightarrow> nat \<Rightarrow> (sdk_error, string) result" where
  "assertHeaderValue name v maxLength =
     (if v = [] \<or> maxLength < length v then Inl (ValidationError name)
      else if list_ex is_control v then Inl (ValidationError name)
      else Inr v)"

record sdk_credentials =
  sc_apiKey :: "string option"
  sc_tenantId :: "string option"

definition TENANT_ID_MAX_LENGTH :: nat where "TENANT_ID_MAX_LENGTH = 255"

definition checked_option :: "string \<Rightarrow> string option \<Rightarrow> nat \<Rightarrow> (sdk_error, string option) result" where
  "checked_option name v maxLength = (case v of None \<Rightarrow> Inr None | Some x \<Rightarrow> map_r Some (assertHeaderValue name x maxLength))"

definition new_credentials :: "string option \<Rightarrow> string option \<Rightarrow> (sdk_error, sdk_credentials) result" where
  "new_credentials apiKey tenantId =
     bind_r (checked_option ''apiKey'' apiKey 512) (\<lambda>k.
     map_r (\<lambda>t. \<lparr>sc_apiKey = k, sc_tenantId = t\<rparr>) (checked_option ''tenantId'' tenantId TENANT_ID_MAX_LENGTH))"

definition setApiKey :: "string option \<Rightarrow> sdk_credentials \<Rightarrow> (sdk_error, sdk_credentials) result" where
  "setApiKey apiKey c = map_r (\<lambda>k. c\<lparr>sc_apiKey := k\<rparr>) (checked_option ''apiKey'' apiKey 512)"

definition credential_headers :: "string option \<Rightarrow> sdk_credentials \<Rightarrow> (sdk_error, (string \<times> string) list) result" where
  "credential_headers tenantOverride c =
     (let hs = (case truthy_str (sc_apiKey c) of Some k \<Rightarrow> [(''X-Api-Key'', k)] | None \<Rightarrow> []);
          tenant = truthy_str (case tenantOverride of Some t \<Rightarrow> Some t | None \<Rightarrow> sc_tenantId c)
      in case tenant of
           None \<Rightarrow> Inr hs
         | Some t \<Rightarrow> map_r (\<lambda>t. om_set ''X-Tenant-ID'' t hs) (assertHeaderValue ''tenantId'' t TENANT_ID_MAX_LENGTH))"

definition SDK_IDEMPOTENCY_KEY_MAX_LENGTH :: nat where "SDK_IDEMPOTENCY_KEY_MAX_LENGTH = 128"
definition TRANSACTION_ID_MIN_LENGTH :: nat where "TRANSACTION_ID_MIN_LENGTH = 10"
definition TRANSACTION_ID_MAX_LENGTH :: nat where "TRANSACTION_ID_MAX_LENGTH = 255"
definition CORRELATION_ID_MAX_LENGTH :: nat where "CORRELATION_ID_MAX_LENGTH = 251"

definition assertTransactionId :: "string \<Rightarrow> (sdk_error, unit) result" where
  "assertTransactionId t =
     (if length t < TRANSACTION_ID_MIN_LENGTH \<or> TRANSACTION_ID_MAX_LENGTH < length t
      then Inl (ValidationError ''transaction_id'') else Inr ())"

text \<open>\<open>uuid\<close> is the key generated when the caller gives none and asks for one.\<close>

definition resolveIdempotencyKey :: "bool \<Rightarrow> string \<Rightarrow> string option \<Rightarrow> (sdk_error, string option) result" where
  "resolveIdempotencyKey autoKey uuid explicit =
     (case explicit of
        None \<Rightarrow> Inr (if autoKey then Some uuid else None)
      | Some k \<Rightarrow> map_r Some (assertHeaderValue ''idempotencyKey'' k SDK_IDEMPOTENCY_KEY_MAX_LENGTH))"

record predict_options =
  po_idempotencyKey :: "string option"
  po_correlationId :: "string option"
  po_tenantId :: "string option"
  po_abortAt :: "real option"
  po_timeoutMs :: "real option"

record sdk_predict_result =
  sp_decision :: jval
  sp_replayed :: bool
  sp_correlationId :: "string option"

definition assertDecision :: "jval \<Rightarrow> nat \<Rightarrow> (sdk_error, unit) result" where
  "assertDecision body status =
     (case body of
        JObj fs \<Rightarrow> (case field fs ''decision'' of JStr d \<Rightarrow> Inr () | _ \<Rightarrow> Inl (ResponseError status body))
      | _ \<Rightarrow> Inl (ResponseError status body))"

definition predict_spec :: "fields \<Rightarrow> predict_options \<Rightarrow> string option \<Rightarrow> (string \<times> string) list \<Rightarrow> request_spec" where
  "predict_spec req opts key hs =
     \<lparr>rs_method = ''POST'', rs_path = ''/v1/predict'', rs_body = Some (JObj req), rs_headers = hs, rs_abortAt = po_abortAt opts,
      rs_timeoutMs = po_timeoutMs opts, rs_retryable = Some (key \<noteq> None)\<rparr>"

text \<open>The request's own part: what is checked before anything is sent.\<close>

definition prepare_predict ::
    "sdk_credentials \<Rightarrow> bool \<Rightarrow> string \<Rightarrow> fields \<Rightarrow> predict_options \<Rightarrow> (sdk_error, request_spec) result" where
  "prepare_predict creds autoKey uuid req opts =
     bind_r (assertTransactionId (rq req ''transaction_id'')) (\<lambda>_.
     bind_r (resolveIdempotencyKey autoKey uuid (po_idempotencyKey opts)) (\<lambda>key.
     bind_r (credential_headers (po_tenantId opts) creds) (\<lambda>hs.
     let hs1 = (case truthy_str key of Some k \<Rightarrow> om_set ''Idempotency-Key'' k hs | None \<Rightarrow> hs) in
     map_r (predict_spec req opts key)
       (case truthy_str (po_correlationId opts) of
          None \<Rightarrow> Inr hs1
        | Some c \<Rightarrow> map_r (\<lambda>c. om_set ''X-Correlation-ID'' c hs1) (assertHeaderValue ''correlationId'' c CORRELATION_ID_MAX_LENGTH)))))"

definition predict_answer :: "jval \<times> wire_response \<Rightarrow> (sdk_error, sdk_predict_result) result" where
  "predict_answer a =
     (let (body, r) = a
      in map_r (\<lambda>_. \<lparr>sp_decision = body, sp_replayed = (header_get ''Idempotency-Replay'' (wr_headers r) = Some ''true''),
                      sp_correlationId = header_get ''X-Correlation-ID'' (wr_headers r)\<rparr>)
           (assertDecision body (wr_status r)))"

definition create ::
    "transport_cfg \<Rightarrow> sdk_credentials \<Rightarrow> bool \<Rightarrow> string \<Rightarrow> sdk_world \<Rightarrow> real \<Rightarrow> fields \<Rightarrow> predict_options
      \<Rightarrow> (sdk_error, sdk_predict_result) result \<times> real \<times> sent_request list" where
  "create cfg creds autoKey uuid w now req opts =
     (case prepare_predict creds autoKey uuid req opts of
        Inl e \<Rightarrow> (Inl e, now, [])
      | Inr spec \<Rightarrow> (let (res, t, sent) = request cfg spec w now in (bind_r res predict_answer, t, sent)))"

section \<open>The client's options\<close>

record client_options =
  co_baseUrl :: string
  co_apiKey :: "string option"
  co_tenantId :: "string option"
  co_timeoutMs :: "real option"
  co_deadlineMs :: "real option"
  co_maxRetries :: "nat option"
  co_retryBaseDelayMs :: "real option"
  co_autoIdempotencyKey :: "bool option"
  co_userAgent :: "string option"

datatype config_error = NotAnUrl | NotHttp | BadCredential sdk_error

definition DEFAULT_TIMEOUT_MS :: real where "DEFAULT_TIMEOUT_MS = 10000"
definition DEFAULT_MAX_RETRIES :: nat where "DEFAULT_MAX_RETRIES = 2"
definition DEFAULT_RETRY_BASE_DELAY_MS :: real where "DEFAULT_RETRY_BASE_DELAY_MS = 200"

text \<open>\<open>protocol\<close> is what the URL parser says of the base address; \<open>agent\<close> names this client and runtime.\<close>

definition assertHttpUrl :: "(string \<Rightarrow> string option) \<Rightarrow> string \<Rightarrow> (config_error, string) result" where
  "assertHttpUrl protocol v =
     (case protocol v of
        None \<Rightarrow> Inl NotAnUrl
      | Some p \<Rightarrow> if p \<noteq> ''http:'' \<and> p \<noteq> ''https:'' then Inl NotHttp else Inr v)"

definition new_client ::
    "(string \<Rightarrow> string option) \<Rightarrow> string \<Rightarrow> client_options \<Rightarrow> (config_error, transport_cfg \<times> sdk_credentials \<times> bool) result" where
  "new_client protocol agent co =
     (let timeoutMs = case_option DEFAULT_TIMEOUT_MS id (co_timeoutMs co);
          maxRetries = case_option DEFAULT_MAX_RETRIES id (co_maxRetries co)
      in case new_credentials (co_apiKey co) (co_tenantId co) of
           Inl e \<Rightarrow> Inl (BadCredential e)
         | Inr creds \<Rightarrow>
             map_r (\<lambda>_. (\<lparr>tc_timeoutMs = timeoutMs, tc_deadlineMs = case_option (timeoutMs * real (maxRetries + 1)) id (co_deadlineMs co),
                           tc_maxRetries = maxRetries,
                           tc_retryBaseDelayMs = case_option DEFAULT_RETRY_BASE_DELAY_MS id (co_retryBaseDelayMs co),
                           tc_userAgent = case_option agent id (co_userAgent co)\<rparr>,
                          creds, case_option False id (co_autoIdempotencyKey co)))
               (assertHttpUrl protocol (co_baseUrl co)))"

section \<open>Webhook signatures\<close>

definition DEFAULT_TOLERANCE_SECONDS :: real where "DEFAULT_TOLERANCE_SECONDS = 300"

definition signature_part :: "string \<Rightarrow> (string, string) omap \<Rightarrow> (string, string) omap" where
  "signature_part segment parts =
     (case split_on (CHR ''='') (js_trim segment) of
        k # v # _ \<Rightarrow> if k \<noteq> [] \<and> v \<noteq> [] then om_set k v parts else parts
      | _ \<Rightarrow> parts)"

definition parseWebhookSignature :: "string option \<Rightarrow> (real \<times> string) option" where
  "parseWebhookSignature header =
     (case truthy_str header of
        None \<Rightarrow> None
      | Some h \<Rightarrow>
          (let parts = fold signature_part (split_on (CHR '','') h) [];
               timestamp = (case om_get parts ''t'' of Some t \<Rightarrow> str_to_num t | None \<Rightarrow> NaN)
           in case (truthy_str (om_get parts ''v1''), timestamp) of
                (Some signature, Fin t) \<Rightarrow> Some (t, signature)
              | _ \<Rightarrow> None))"

text \<open>\<open>Buffer.from(s, "hex")\<close> stops at the first pair that is not hexadecimal.\<close>

fun hex_bytes :: "string \<Rightarrow> nat list" where
  "hex_bytes (a # b # cs) =
     (case (radix_digit a, radix_digit b) of
        (Some x, Some y) \<Rightarrow> (16 * x + y) # hex_bytes cs
      | _ \<Rightarrow> [])"
| "hex_bytes cs = []"

definition timingSafeEqualHex :: "string \<Rightarrow> string \<Rightarrow> bool" where
  "timingSafeEqualHex expected received =
     (length expected = length received \<and> length (hex_bytes received) = length (hex_bytes expected)
      \<and> hex_bytes expected = hex_bytes received)"

definition verifyWebhookSignature ::
    "webhook_crypto \<Rightarrow> string \<Rightarrow> string option \<Rightarrow> string \<Rightarrow> real option \<Rightarrow> real \<Rightarrow> bool" where
  "verifyWebhookSignature crypto secret header rawBody toleranceSeconds now =
     (case parseWebhookSignature header of
        None \<Rightarrow> False
      | Some (timestamp, signature) \<Rightarrow>
          (let tolerance = case_option DEFAULT_TOLERANCE_SECONDS id toleranceSeconds;
               skew = \<bar>of_int \<lfloor>now / 1000\<rfloor> - timestamp\<bar>
           in if tolerance < skew then False
              else timingSafeEqualHex (wc_hmac crypto (wc_sha256 crypto secret) (num_to_str (Fin timestamp) @ ''.'' @ rawBody)) signature))"

section \<open>The retries\<close>

lemma attempt_sent: "attempt_request cfg spec w deadline n now = (res, t, True) \<Longrightarrow> now < deadline"
  by (auto simp: attempt_request_def Let_def case_prod_beta split: if_splits option.splits fetch_event.splits)

lemma attempt_end:
  assumes "attempt_request cfg spec w deadline n now = (res, t, sent)" and "\<And>n s. 0 \<le> fst (sw_net w n s)"
    and "0 \<le> tc_timeoutMs cfg" and "case rs_timeoutMs spec of Some u \<Rightarrow> 0 \<le> u | None \<Rightarrow> True"
  shows "now \<le> t \<and> t \<le> max now deadline"
proof -
  define lim where "lim = min (case rs_timeoutMs spec of Some u \<Rightarrow> u | None \<Rightarrow> tc_timeoutMs cfg) (deadline - now)"
  have el: "0 \<le> fst (sw_net w n now)" by (rule assms(2))
  show ?thesis
  proof (cases "(case rs_abortAt spec of Some a \<Rightarrow> a \<le> now | None \<Rightarrow> False) \<or> deadline - now \<le> 0")
    case True
    then have "t = now" using assms(1) by (auto simp: attempt_request_def Let_def split: if_splits)
    then show ?thesis by simp
  next
    case False
    have lim: "0 \<le> lim" "lim \<le> deadline - now" using False assms(3,4) by (auto simp: lim_def split: option.splits)
    let ?ends = "now + min (fst (sw_net w n now)) lim"
    have ends: "now \<le> ?ends" "?ends \<le> deadline" using el lim by auto
    have "t = ?ends \<or> (\<exists>a. rs_abortAt spec = Some a \<and> t = a \<and> a \<le> ?ends)"
      using assms(1) False
      by (auto simp: attempt_request_def Let_def case_prod_beta lim_def split: if_splits option.splits fetch_event.splits)
    then show ?thesis using ends False by (auto split: option.splits)
  qed
qed

lemma wakes_later: "0 \<le> delay \<Longrightarrow> now \<le> wakes spec now delay \<and> wakes spec now delay \<le> now + delay"
  by (auto simp: wakes_def split: option.split)

text \<open>What a run does, attempt by attempt, with the conditions under which it goes on.\<close>

lemma request_loop_induct:
  assumes run: "request_loop cfg spec w deadline n now = (res, t, starts)"
    and stops: "\<And>n now res t sent. attempt_request cfg spec w deadline n now = (res, t, sent) \<Longrightarrow> P n now res t (if sent then [now] else [])"
    and goes_on: "\<And>n now e t sent delay r' t' starts'. attempt_request cfg spec w deadline n now = (Inl e, t, sent) \<Longrightarrow>
      is_retried spec \<Longrightarrow> n < tc_maxRetries cfg \<Longrightarrow> isRetryable e \<Longrightarrow>
      delay = backoffDelayMs n (tc_retryBaseDelayMs cfg) (retryAfterSecondsOf e) (sw_random w n) \<Longrightarrow> t + delay < deadline \<Longrightarrow>
      P (Suc n) (wakes spec t delay) r' t' starts' \<Longrightarrow> P n now r' t' ((if sent then [now] else []) @ starts')"
  shows "P n now res t starts"
  using run
proof (induction "tc_maxRetries cfg - n" arbitrary: n now res t starts)
  case 0
  obtain r t1 sent where a: "attempt_request cfg spec w deadline n now = (r, t1, sent)" by (metis prod_cases3)
  have "tc_maxRetries cfg \<le> n" using 0(1) by simp
  then have "res = r" "t = t1" "starts = (if sent then [now] else [])"
    using 0(2) a by (cases r; simp add: request_loop.simps [of cfg spec w deadline n])+
  then show ?case using stops [OF a] by blast
next
  case (Suc m)
  obtain r t1 sent where a: "attempt_request cfg spec w deadline n now = (r, t1, sent)" by (metis prod_cases3)
  show ?case
  proof (cases "\<exists>e. r = Inl e \<and> is_retried spec \<and> n < tc_maxRetries cfg \<and> isRetryable e
      \<and> t1 + backoffDelayMs n (tc_retryBaseDelayMs cfg) (retryAfterSecondsOf e) (sw_random w n) < deadline")
    case True
    then obtain e where e: "r = Inl e" "is_retried spec" "n < tc_maxRetries cfg" "isRetryable e"
      "t1 + backoffDelayMs n (tc_retryBaseDelayMs cfg) (retryAfterSecondsOf e) (sw_random w n) < deadline" by blast
    let ?d = "backoffDelayMs n (tc_retryBaseDelayMs cfg) (retryAfterSecondsOf e) (sw_random w n)"
    obtain r' t' s' where l: "request_loop cfg spec w deadline (Suc n) (wakes spec t1 ?d) = (r', t', s')" by (metis prod_cases3)
    have eq: "res = r'" "t = t'" "starts = (if sent then [now] else []) @ s'"
      using Suc(3) a l e by (simp_all add: request_loop.simps [of cfg spec w deadline n] Let_def not_le)
    have "P (Suc n) (wakes spec t1 ?d) r' t' s'" using Suc(2) by (intro Suc(1) [OF _ l]) simp
    then show ?thesis using goes_on [OF a [unfolded e(1)] e(2-4) refl e(5)] unfolding eq by blast
  next
    case False
    then have "res = r" "t = t1" "starts = (if sent then [now] else [])"
      using Suc(3) a by (auto simp: request_loop.simps [of cfg spec w deadline n] Let_def not_le split: sum.splits if_splits)
    then show ?thesis using stops [OF a] by blast
  qed
qed

lemma clamp_nonneg: "0 \<le> clamp_seconds s"
  by (simp add: clamp_seconds_def MAX_RETRY_AFTER_SECONDS_def)

lemma parse_nonneg: "parseRetryAfter date_parse raw now = Some s \<Longrightarrow> 0 \<le> s"
  using clamp_nonneg by (auto simp: parseRetryAfter_def split: option.splits jnum.splits)

lemma read_answer_retryAfter:
  assumes "read_answer date_parse r now = Inl e" and "retryAfterSecondsOf e = Some s"
  shows "0 \<le> s"
proof -
  obtain a where "e = ApiError a" "ae_retryAfterSeconds a = Some s" using assms(2) by (auto simp: retryAfterSecondsOf_def split: sdk_error.splits)
  then show ?thesis using assms(1) by (auto simp: read_answer_def toApiError_def case_prod_beta split: if_splits intro: parse_nonneg)
qed

lemma attempt_error:
  assumes "attempt_request cfg spec w deadline n now = (Inl e, t, sent)"
  shows "e = Aborted \<or> e = NetworkError \<or> (\<exists>d. e = TimeoutError d) \<or> (\<exists>r. read_answer (sw_dateParse w) r t = Inl e)"
  using assms by (auto simp: attempt_request_def Let_def case_prod_beta split: if_splits option.splits fetch_event.splits)

lemma attempt_retryAfter:
  assumes "attempt_request cfg spec w deadline n now = (Inl e, t, sent)" and "retryAfterSecondsOf e = Some s"
  shows "0 \<le> s"
  using attempt_error [OF assms(1)] assms(2) read_answer_retryAfter by (auto simp: retryAfterSecondsOf_def)

definition sound_world :: "sdk_world \<Rightarrow> bool" where
  "sound_world w \<longleftrightarrow> (\<forall>n s. 0 \<le> fst (sw_net w n s)) \<and> (\<forall>n. 0 \<le> sw_random w n \<and> sw_random w n < 1)"

definition sound_cfg :: "transport_cfg \<Rightarrow> bool" where
  "sound_cfg cfg \<longleftrightarrow> 0 \<le> tc_timeoutMs cfg \<and> 0 \<le> tc_retryBaseDelayMs cfg"

lemma attempt_delay:
  assumes "sound_world w" and "sound_cfg cfg" and "attempt_request cfg spec w deadline n now = (Inl e, t, sent)"
  shows "0 \<le> backoffDelayMs m (tc_retryBaseDelayMs cfg) (retryAfterSecondsOf e) (sw_random w k)"
proof (cases "retryAfterSecondsOf e")
  case None
  have "0 \<le> sw_random w k * min (tc_retryBaseDelayMs cfg * 2 ^ m) MAX_BACKOFF_MS"
    using assms(1,2) by (auto simp: sound_world_def sound_cfg_def MAX_BACKOFF_MS_def intro!: mult_nonneg_nonneg)
  then show ?thesis by (simp add: backoffDelayMs_def None js_round_def)
next
  case (Some s)
  then show ?thesis using attempt_retryAfter [OF assms(3) Some] by (simp add: backoffDelayMs_def)
qed

definition fair_timeout :: "request_spec \<Rightarrow> bool" where
  "fair_timeout spec \<longleftrightarrow> (case rs_timeoutMs spec of Some u \<Rightarrow> 0 \<le> u | None \<Rightarrow> True)"

text \<open>Every attempt but the last failed with an error that may be retried, and the next one waited as long as told.\<close>

definition follows :: "transport_cfg \<Rightarrow> request_spec \<Rightarrow> sdk_world \<Rightarrow> real \<Rightarrow> nat \<Rightarrow> real list \<Rightarrow> bool" where
  "follows cfg spec w deadline n starts \<longleftrightarrow>
     (\<forall>i. Suc i < length starts \<longrightarrow>
        (\<exists>e t. attempt_request cfg spec w deadline (n + i) (starts ! i) = (Inl e, t, True) \<and> isRetryable e
           \<and> starts ! Suc i = t + backoffDelayMs (n + i) (tc_retryBaseDelayMs cfg) (retryAfterSecondsOf e) (sw_random w (n + i))))"

lemma wakes_sent:
  assumes "attempt_request cfg spec w deadline n (wakes spec t delay) = (res, t', True)" and "0 \<le> delay"
  shows "wakes spec t delay = t + delay"
  using assms by (auto simp: attempt_request_def wakes_def Let_def split: option.splits if_splits)

lemma unsent_is_final:
  "attempt_request cfg spec w deadline n now = (res, t, False) \<Longrightarrow> res = Inl Aborted \<or> (deadline \<le> now \<and> t = now \<and> (\<exists>d. res = Inl (TimeoutError d)))"
  by (auto simp: attempt_request_def Let_def case_prod_beta split: if_splits option.splits fetch_event.splits)

definition loop_shape ::
    "transport_cfg \<Rightarrow> request_spec \<Rightarrow> sdk_world \<Rightarrow> real \<Rightarrow> nat \<Rightarrow> real \<Rightarrow> (sdk_error, jval \<times> wire_response) result \<Rightarrow> real \<Rightarrow> real list \<Rightarrow> bool" where
  "loop_shape cfg spec w deadline n now res t starts \<longleftrightarrow>
     now \<le> t \<and> t \<le> max now deadline \<and> (\<forall>s \<in> set starts. now \<le> s \<and> s < deadline)
     \<and> length starts \<le> (if is_retried spec then tc_maxRetries cfg - n + 1 else 1)
     \<and> follows cfg spec w deadline n starts
     \<and> (starts \<noteq> [] \<longrightarrow> hd starts = now \<and> (\<exists>res' t'. attempt_request cfg spec w deadline n now = (res', t', True)))
     \<and> ((\<exists>x. res = Inr x) \<longrightarrow> starts \<noteq> [] \<and> attempt_request cfg spec w deadline (n + length starts - 1) (last starts) = (res, t, True))"

lemma follows_Cons:
  assumes "follows cfg spec w deadline (Suc n) starts"
    and "starts \<noteq> [] \<Longrightarrow> \<exists>e t. attempt_request cfg spec w deadline n now = (Inl e, t, True) \<and> isRetryable e
      \<and> hd starts = t + backoffDelayMs n (tc_retryBaseDelayMs cfg) (retryAfterSecondsOf e) (sw_random w n)"
  shows "follows cfg spec w deadline n (now # starts)"
  unfolding follows_def
proof (intro allI impI)
  fix i assume i: "Suc i < length (now # starts)"
  show "\<exists>e t. attempt_request cfg spec w deadline (n + i) ((now # starts) ! i) = (Inl e, t, True) \<and> isRetryable e
      \<and> (now # starts) ! Suc i = t + backoffDelayMs (n + i) (tc_retryBaseDelayMs cfg) (retryAfterSecondsOf e) (sw_random w (n + i))"
  proof (cases i)
    case 0
    then have "starts \<noteq> []" using i by auto
    then show ?thesis using assms(2) 0 by (simp add: hd_conv_nth)
  next
    case (Suc j)
    then have "Suc j < length starts" using i by simp
    then show ?thesis using assms(1) Suc unfolding follows_def by force
  qed
qed

lemma request_loop_shape:
  assumes w: "sound_world w" and c: "sound_cfg cfg" and f: "fair_timeout spec"
    and run: "request_loop cfg spec w deadline n now = (res, t, starts)"
  shows "loop_shape cfg spec w deadline n now res t starts"
proof -
  have net: "\<And>n s. 0 \<le> fst (sw_net w n s)" using w by (simp add: sound_world_def)
  have t: "now \<le> t \<and> t \<le> max now deadline" if "attempt_request cfg spec w deadline n now = (res, t, sent)" for n now res t sent
    using attempt_end [OF that net] c f by (simp add: sound_cfg_def fair_timeout_def)
  show ?thesis
  proof (rule request_loop_induct [where P = "loop_shape cfg spec w deadline", OF run])
    fix n now res t sent
    assume a: "attempt_request cfg spec w deadline n now = (res, t, sent)"
    have "\<not> sent \<Longrightarrow> \<not> (\<exists>x. res = Inr x)" using unsent_is_final [of cfg spec w deadline n now res t] a by (cases sent) auto
    then show "loop_shape cfg spec w deadline n now res t (if sent then [now] else [])"
      using t [OF a] attempt_sent a by (cases sent) (auto simp: loop_shape_def follows_def)
  next
    fix n now e t1 sent delay r' t' starts'
    assume a: "attempt_request cfg spec w deadline n now = (Inl e, t1, sent)"
      and go: "is_retried spec" "n < tc_maxRetries cfg" "isRetryable e"
      and d: "delay = backoffDelayMs n (tc_retryBaseDelayMs cfg) (retryAfterSecondsOf e) (sw_random w n)" "t1 + delay < deadline"
      and P: "loop_shape cfg spec w deadline (Suc n) (wakes spec t1 delay) r' t' starts'"
    have d0: "0 \<le> delay" unfolding d(1) using attempt_delay [OF w c a] .
    have wk: "t1 \<le> wakes spec t1 delay" "wakes spec t1 delay \<le> t1 + delay" using wakes_later [OF d0] by simp_all
    have now: "now \<le> t1" using t [OF a] by simp
    have sent: sent
      using unsent_is_final [of cfg spec w deadline n now "Inl e" t1] a go(3) d(2) d0 by (cases sent) (auto simp: isRetryable_def)
    have attempt: "attempt_request cfg spec w deadline n now = (Inl e, t1, True)" using a sent by simp
    have "hd starts' = t1 + delay" if "starts' \<noteq> []"
      using P that wakes_sent [OF _ d0] by (auto simp: loop_shape_def)
    then have fol: "follows cfg spec w deadline n (now # starts')"
      using P attempt go(3) d(1) by (intro follows_Cons) (auto simp: loop_shape_def)
    have len: "length starts' \<le> tc_maxRetries cfg - n" using P go(1,2) by (auto simp: loop_shape_def)
    have last: "starts' \<noteq> [] \<Longrightarrow> n + length (now # starts') - 1 = Suc n + length starts' - 1 \<and> last (now # starts') = last starts'" by simp
    have "now \<le> t' \<and> t' \<le> max now deadline" using P now wk d(2) by (auto simp: loop_shape_def)
    moreover have "\<forall>s \<in> set (now # starts'). now \<le> s \<and> s < deadline"
      using P now wk attempt_sent [OF attempt] by (auto simp: loop_shape_def)
    ultimately show "loop_shape cfg spec w deadline n now r' t' ((if sent then [now] else []) @ starts')"
      using sent fol len go(1) attempt last P by (auto simp: loop_shape_def)
  qed
qed

text \<open>
  C31: a predict call ends by its deadline and sends at most \<open>maxRetries + 1\<close> requests, all the
  same and each before the deadline; without an idempotency key it sends at most one, since
  the platform would take a second for a new transaction.
\<close>

theorem predict_sends_bounded:
  assumes "sound_world w" and "sound_cfg cfg" and "case po_timeoutMs opts of Some u \<Rightarrow> 0 \<le> u | None \<Rightarrow> True" and "0 \<le> tc_deadlineMs cfg"
    and "create cfg creds autoKey uuid w now req opts = (res, t, sent)"
  shows "t \<le> now + tc_deadlineMs cfg \<and> (\<forall>s \<in> set sent. sr_at s < now + tc_deadlineMs cfg)
    \<and> (\<forall>s \<in> set sent. \<forall>s' \<in> set sent. s' = s\<lparr>sr_at := sr_at s'\<rparr>)
    \<and> length sent \<le> (if po_idempotencyKey opts = None \<and> \<not> autoKey then 1 else tc_maxRetries cfg + 1)"
proof (cases "prepare_predict creds autoKey uuid req opts")
  case (Inl e)
  then show ?thesis using assms(4,5) by (auto simp: create_def)
next
  case (Inr spec)
  obtain r t1 starts where l: "request_loop cfg spec w (now + tc_deadlineMs cfg) 0 now = (r, t1, starts)" by (metis prod_cases3)
  have spec: "rs_timeoutMs spec = po_timeoutMs opts" "is_retried spec \<Longrightarrow> po_idempotencyKey opts \<noteq> None \<or> autoKey"
    using Inr by (auto simp: prepare_predict_def bind_r_eq_Inr predict_spec_def is_retried_def resolveIdempotencyKey_def map_r_def Let_def
        split: option.splits if_splits)
  have "fair_timeout spec" using assms(3) by (simp add: fair_timeout_def spec(1))
  then have "loop_shape cfg spec w (now + tc_deadlineMs cfg) 0 now r t1 starts"
    by (rule request_loop_shape [OF assms(1,2) _ l])
  moreover have "t = t1" "sent = map (\<lambda>s. \<lparr>sr_at = s, sr_method = rs_method spec, sr_path = rs_path spec,
      sr_headers = buildHeaders cfg spec (map_option json_text (rs_body spec)), sr_body = map_option json_text (rs_body spec)\<rparr>) starts"
    using assms(5) l by (simp_all add: create_def Inr request_def Let_def)
  ultimately show ?thesis using spec(2) assms(4) by (auto simp: loop_shape_def split: if_splits)
qed


section \<open>A delivery verifies\<close>

text \<open>What an HMAC digest in hexadecimal looks like.\<close>

definition hex_digest :: "string \<Rightarrow> bool" where
  "hex_digest s \<longleftrightarrow> s \<noteq> [] \<and> even (length s) \<and> (\<forall>c \<in> set s. is_digit c \<or> (97 \<le> code c \<and> code c \<le> 102))"

lemma trimmed: "s \<noteq> [] \<Longrightarrow> \<not> is_ws (hd s) \<Longrightarrow> \<not> is_ws (last s) \<Longrightarrow> js_trim s = s"
proof -
  assume s: "s \<noteq> []" "\<not> is_ws (hd s)" "\<not> is_ws (last s)"
  have front: "dropWhile is_ws s = s" using s by (cases s) simp_all
  have "dropWhile is_ws (rev s) = rev s" using s by (cases "rev s") (auto simp: last_rev [symmetric])
  then show ?thesis by (simp add: js_trim_def front)
qed

definition hex_char :: "char \<Rightarrow> bool" where
  "hex_char c \<longleftrightarrow> is_digit c \<or> (97 \<le> code c \<and> code c \<le> 102)"

lemma hex_char_plain: "hex_char c \<Longrightarrow> c \<noteq> CHR ''='' \<and> c \<noteq> CHR '','' \<and> \<not> is_ws c"
  by (auto simp: hex_char_def is_digit_def is_ws_def code_def)

lemma digit_plain: "is_digit c \<Longrightarrow> hex_char c"
  by (simp add: hex_char_def)

lemma tagged_trim: "s \<noteq> [] \<Longrightarrow> \<forall>c \<in> set s. hex_char c \<Longrightarrow> \<not> is_ws h \<Longrightarrow> js_trim (h # hs @ s) = h # hs @ s"
  using hex_char_plain by (intro trimmed) auto

lemma digits_number:
  assumes "list_all is_digit w" and "w \<noteq> []"
  shows "str_to_num w = decimal_literal w"
proof -
  have c: "\<forall>c \<in> set w. is_digit c" using assms(1) by (simp add: list_all_iff)
  then have t: "js_trim w = w" using assms(2) hex_char_plain digit_plain by (intro trimmed) auto
  have "to_lower_char b \<noteq> CHR ''x'' \<and> to_lower_char b \<noteq> CHR ''o'' \<and> to_lower_char b \<noteq> CHR ''b''" if "is_digit b" for b
    using that by (auto simp: to_lower_char_def is_digit_def code_def)
  then show ?thesis using c t assms(2) by (auto simp: str_to_num_def Let_def split: list.split)
qed

lemma nat_number: "num_to_str (Fin (real n)) = nat_to_str n"
  by (simp add: numeral_eq_Suc)

lemma nat_text:
  assumes "n < 10 ^ 21"
  shows "str_to_num (nat_to_str n) = Fin (real n)"
proof -
  have "real n < 10 ^ 21" using assms by (metis of_nat_less_iff of_nat_numeral of_nat_power)
  moreover have "real n * 10 ^ 17 \<in> \<int>" by (metis Ints_of_nat of_nat_mult of_nat_numeral of_nat_power)
  ultimately have "short_decimal (real n)" by (simp only: short_decimal_def abs_of_nat simp_thms)
  then have "decimal_literal (nat_to_str n) = Fin (real n)" using num_text_parses nat_number by metis
  then show ?thesis using digits_number nat_to_str_digits by metis
qed

lemma signature_parses:
  assumes "hex_digest sig" and "n < 10 ^ 21"
  shows "parseWebhookSignature (Some (''t='' @ nat_to_str n @ '',v1='' @ sig)) = Some (real n, sig)"
proof -
  have sig: "sig \<noteq> []" "\<forall>c \<in> set sig. hex_char c" using assms(1) by (auto simp: hex_digest_def hex_char_def)
  have num: "nat_to_str n \<noteq> []" "\<forall>c \<in> set (nat_to_str n). hex_char c"
    using nat_to_str_digits [of n] digit_plain by (auto simp: list_all_iff)
  have part: "split_on (CHR ''='') (k @ CHR ''='' # v) = [k, v]" if "CHR ''='' \<notin> set k" "\<forall>c \<in> set v. hex_char c" for k v
  proof -
    have "CHR ''='' \<notin> set v" using that(2) hex_char_plain by blast
    then show ?thesis using split_on_first [OF that(1)] split_on_none by metis
  qed
  have "CHR '','' \<notin> set (''t='' @ nat_to_str n)" "CHR '','' \<notin> set (''v1='' @ sig)" using num(2) sig(2) hex_char_plain by auto
  then have "split_on (CHR '','') ((''t='' @ nat_to_str n) @ CHR '','' # ''v1='' @ sig) = [''t='' @ nat_to_str n, ''v1='' @ sig]"
    using split_on_first split_on_none by metis
  then have segments: "split_on (CHR '','') (''t='' @ nat_to_str n @ '',v1='' @ sig) = [''t='' @ nat_to_str n, ''v1='' @ sig]" by simp
  have t: "js_trim (''t='' @ nat_to_str n) = ''t='' @ nat_to_str n" "js_trim (''v1='' @ sig) = ''v1='' @ sig"
    using tagged_trim [OF num, of "CHR ''t''" "''=''"] tagged_trim [OF sig, of "CHR ''v''" "''1=''"] by (simp_all add: is_ws_def code_def)
  have one: "signature_part (''t='' @ nat_to_str n) [] = [(''t'', nat_to_str n)]"
    using part [of "''t''" "nat_to_str n"] num t(1) by (simp add: signature_part_def)
  have two: "signature_part (''v1='' @ sig) [(''t'', nat_to_str n)] = [(''t'', nat_to_str n), (''v1'', sig)]"
    using part [of "''v1''" sig] sig t(2) by (simp add: signature_part_def)
  have "fold signature_part [''t='' @ nat_to_str n, ''v1='' @ sig] [] = [(''t'', nat_to_str n), (''v1'', sig)]"
    using one two by simp
  then show ?thesis unfolding parseWebhookSignature_def using segments sig(1) nat_text [OF assms(2)]
    by (simp add: om_get_def)
qed

lemma hex_bytes_self: "hex_digest s \<Longrightarrow> timingSafeEqualHex s s"
  by (simp add: timingSafeEqualHex_def)

lemma registered_secret:
  assumes "register_webhook env crypto newId randomSecret t0 i st = (Inr (sid, secret), st1)"
    and "s \<in> set (wh_subscriptions st1)" and "sb_id s = sid" and "\<forall>s' \<in> set (wh_subscriptions st). sb_id s' \<noteq> newId"
  shows "sb_secretHash s = wc_sha256 crypto secret"
proof -
  obtain p where v: "isWebhookUrlSafe env (wi_url i) = UrlSafe p"
    using assms(1) by (cases "isWebhookUrlSafe env (wi_url i)") (simp_all add: register_webhook_def)
  obtain row where row: "wh_subscriptions st1 = wh_subscriptions st @ [row]" "sb_id row = newId" "sid = newId"
    "sb_secretHash row = wc_sha256 crypto secret"
  proof
    show "wh_subscriptions st1 = wh_subscriptions st @ [last (wh_subscriptions st1)]" "sb_id (last (wh_subscriptions st1)) = newId"
      "sid = newId" "sb_secretHash (last (wh_subscriptions st1)) = wc_sha256 crypto secret"
      using assms(1) by (auto simp: register_webhook_def v Let_def)
  qed
  then have "s = row" using assms(2-4) by auto
  then show ?thesis using row(4) by simp
qed

lemma delivered_signature:
  assumes "wh_sent (deliverOne env crypto now answer (d, s) st) = wh_sent st @ [r]"
  shows "rq_signature r = signature_of crypto (sb_secretHash s) now (rq_body r)"
proof -
  obtain sent status rcode rbody where a: "attempt_outcome (isWebhookUrlSafe env (sb_url s)) answer = (sent, status, rcode, rbody)"
    by (cases "attempt_outcome (isWebhookUrlSafe env (sb_url s)) answer")
  let ?r = "\<lparr>rq_url = sb_url s, rq_event = dv_event d, rq_delivery = dv_id d,
    rq_signature = signature_of crypto (sb_secretHash s) now (json_text (dv_payload d)), rq_body = json_text (dv_payload d)\<rparr>"
  have "wh_sent (deliverOne env crypto now answer (d, s) st) = wh_sent st @ (if sent then [?r] else [])"
    by (cases sent) (simp_all add: deliverOne_def a recordAttempt_def Let_def)
  then have "r = ?r" using assms by (cases sent) simp_all
  then show ?thesis by simp
qed

lemma verify_parsed:
  assumes "parseWebhookSignature h = Some (real n, sig)" and "\<bar>of_int \<lfloor>now / 1000\<rfloor> - real n\<bar> \<le> case_option DEFAULT_TOLERANCE_SECONDS id tol"
  shows "verifyWebhookSignature crypto secret h b tol now =
    timingSafeEqualHex (wc_hmac crypto (wc_sha256 crypto secret) (nat_to_str n @ ''.'' @ b)) sig"
  using assms(2) nat_number [of n] unfolding verifyWebhookSignature_def assms(1)
  by (simp add: Let_def)

text \<open>
  C28: what the platform signs, the client accepts: a delivery of a subscription verifies with the secret the
  registration returned, at a receiver whose clock is within the tolerance; with that header no other body
  verifies unless it has the same HMAC.
\<close>

theorem signed_delivery_verifies:
  assumes "register_webhook env crypto newId randomSecret t0 i st0 = (Inr (sid, secret), st1)"
    and "s \<in> set (wh_subscriptions st1)" and "sb_id s = sid" and "\<forall>s' \<in> set (wh_subscriptions st0). sb_id s' \<noteq> newId"
    and "wh_sent (deliverOne env' crypto t answer (d, s) st) = wh_sent st @ [r]"
    and "\<And>k m. hex_digest (wc_hmac crypto k m)" and "0 \<le> t" and "t < 10 ^ 21"
    and "\<bar>of_int \<lfloor>now / 1000\<rfloor> - real_of_int (t div 1000)\<bar> \<le> case_option DEFAULT_TOLERANCE_SECONDS id tolerance"
  shows "verifyWebhookSignature crypto secret (Some (rq_signature r)) (rq_body r) tolerance now
    \<and> (verifyWebhookSignature crypto secret (Some (rq_signature r)) body' tolerance now \<longrightarrow>
         hex_bytes (wc_hmac crypto (wc_sha256 crypto secret) (nat_to_str (nat (t div 1000)) @ ''.'' @ body'))
       = hex_bytes (wc_hmac crypto (wc_sha256 crypto secret) (nat_to_str (nat (t div 1000)) @ ''.'' @ rq_body r)))"
proof -
  let ?n = "nat (t div 1000)"
  let ?sig = "wc_hmac crypto (wc_sha256 crypto secret) (nat_to_str ?n @ ''.'' @ rq_body r)"
  have "t div 1000 \<le> t" using zdiv_mono2 [of t 1 1000] assms(7) by simp
  then have n: "?n < 10 ^ 21" using assms(7,8) by (simp add: nat_less_iff)
  have sign: "rq_signature r = ''t='' @ nat_to_str ?n @ '',v1='' @ ?sig"
    using delivered_signature [OF assms(5)] registered_secret [OF assms(1-4)] by (simp add: signature_of_def Let_def)
  have p: "parseWebhookSignature (Some (rq_signature r)) = Some (real ?n, ?sig)"
    unfolding sign using assms(6) n by (rule signature_parses)
  have "real ?n = real_of_int (t div 1000)" using assms(7) by simp
  then have v: "verifyWebhookSignature crypto secret (Some (rq_signature r)) b tolerance now =
      timingSafeEqualHex (wc_hmac crypto (wc_sha256 crypto secret) (nat_to_str ?n @ ''.'' @ b)) ?sig" for b
    using verify_parsed [OF p] assms(9) by simp
  show ?thesis unfolding v using hex_bytes_self [OF assms(6)] by (auto simp: timingSafeEqualHex_def)
qed

section \<open>The client and the platform\<close>

text \<open>\<open>ErrorResponse\<close> without errors, and an answer of the predict controller on the wire.\<close>

definition error_response :: "string \<Rightarrow> string option \<Rightarrow> jval" where
  "error_response message err_code =
     JObj ([(''status'', JBool False), (''message'', JStr message)] @ (case err_code of Some c \<Rightarrow> [(''code'', JStr c)] | None \<Rightarrow> []))"

definition wire_of :: "(string \<Rightarrow> string) \<Rightarrow> http_reply \<Rightarrow> wire_response" where
  "wire_of describe reply =
     \<lparr>wr_status = rp_status reply, wr_headers = rp_headers reply,
      wr_body = json_text (case rp_body reply of
          BodyResponse r \<Rightarrow> response_json describe r
        | BodyReplay j \<Rightarrow> j
        | BodyError m c \<Rightarrow> error_response m c)\<rparr>"

text \<open>What the controller reads of a request, once the guard has resolved its credentials.\<close>

definition http_of :: "credentials \<Rightarrow> sent_request \<Rightarrow> predict_http" where
  "http_of cr r =
     \<lparr>ph_body = (case sr_body r of Some b \<Rightarrow> (case json_parse b of Some (JObj fs) \<Rightarrow> fs | _ \<Rightarrow> []) | None \<Rightarrow> []),
      ph_credentials = cr, ph_correlation = header_get ''X-Correlation-ID'' (sr_headers r),
      ph_tenant = header_get ''X-Tenant-ID'' (sr_headers r), ph_idempotency = header_get ''Idempotency-Key'' (sr_headers r)\<rparr>"

definition sent_of :: "transport_cfg \<Rightarrow> request_spec \<Rightarrow> real \<Rightarrow> sent_request" where
  "sent_of cfg spec t =
     \<lparr>sr_at = t, sr_method = rs_method spec, sr_path = rs_path spec,
      sr_headers = buildHeaders cfg spec (map_option json_text (rs_body spec)), sr_body = map_option json_text (rs_body spec)\<rparr>"

lemma http_of_any_time: "http_of cr (sent_of cfg spec t) = http_of cr (sent_of cfg spec t')"
  by (simp add: http_of_def sent_of_def)

lemma prepared:
  assumes "prepare_predict creds autoKey uuid req opts = Inr spec" and "is_retried spec"
    and "autoKey \<Longrightarrow> uuid \<noteq> [] \<and> length uuid \<le> 128"
  shows "\<exists>key. ph_idempotency (http_of cr (sent_of cfg spec t)) = Some key \<and> key \<noteq> [] \<and> length key \<le> 128
    \<and> rs_abortAt spec = po_abortAt opts \<and> rs_timeoutMs spec = po_timeoutMs opts
    \<and> (json_plain (JObj req) \<longrightarrow> ph_body (http_of cr (sent_of cfg spec t)) = req)"
proof -
  obtain key hs where k: "resolveIdempotencyKey autoKey uuid (po_idempotencyKey opts) = Inr key"
    and h: "credential_headers (po_tenantId opts) creds = Inr hs"
    using assms(1) by (auto simp: prepare_predict_def bind_r_eq_Inr)
  define hs1 where "hs1 = (case truthy_str key of Some k \<Rightarrow> om_set ''Idempotency-Key'' k hs | None \<Rightarrow> hs)"
  obtain hs2 where h2: "spec = predict_spec req opts key hs2" "hs2 = hs1 \<or> (\<exists>c. hs2 = om_set ''X-Correlation-ID'' c hs1)"
    using assms(1) k h
    by (auto simp: prepare_predict_def hs1_def [symmetric] Let_def map_r_def bind_r_eq_Inr split: option.splits)
  have "key \<noteq> None" using assms(2) by (simp add: h2(1) predict_spec_def is_retried_def)
  then obtain v where v: "key = Some v" "v \<noteq> []" "length v \<le> 128"
    using k assms(3)
    by (auto simp: resolveIdempotencyKey_def map_r_def bind_r_eq_Inr assertHeaderValue_def SDK_IDEMPOTENCY_KEY_MAX_LENGTH_def
        split: option.splits if_splits)
  then have t: "truthy_str key = Some v" by (cases v) simp_all
  have hs: "hs \<in> {[]} \<union> {[(''X-Api-Key'', a)] | a. True} \<union> {[(''X-Tenant-ID'', b)] | b. True}
      \<union> {[(''X-Api-Key'', a), (''X-Tenant-ID'', b)] | a b. True}"
    using h by (auto simp: credential_headers_def map_r_def bind_r_eq_Inr Let_def split: option.splits)
  have low: "to_lower ''Accept'' = ''accept''" "to_lower ''User-Agent'' = ''user-agent''" "to_lower ''X-Api-Key'' = ''x-api-key''"
    "to_lower ''X-Tenant-ID'' = ''x-tenant-id''" "to_lower ''Idempotency-Key'' = ''idempotency-key''"
    "to_lower ''X-Correlation-ID'' = ''x-correlation-id''" "to_lower ''Content-Type'' = ''content-type''"
    by code_simp+
  have "header_get ''Idempotency-Key'' (buildHeaders cfg spec (Some p)) = Some v" for p
    using hs h2(2) unfolding hs1_def t h2(1)
    by (auto simp: buildHeaders_def predict_spec_def header_get_def low)
  moreover have "ph_body (http_of cr (sent_of cfg spec t)) = req" if "json_plain (JObj req)"
    using parse_text [OF that] by (simp add: http_of_def sent_of_def h2(1) predict_spec_def del: json_plain.simps)
  ultimately show ?thesis using v by (auto simp: http_of_def sent_of_def h2(1) predict_spec_def)
qed

lemma replayed_reply:
  assumes "redis_store (xe_ops x)" and "\<And>t. gunzip (xe_cfg x) (gzip (xe_cfg x) t) = Some t"
    and "xe_written x" and "\<not> xe_enforced x" and "xe_during x = id"
    and "ph_idempotency http = Some key" and "key \<noteq> []" and "length key \<le> 128"
    and run: "executePrediction x env (http_invocation uu http) s w = (Inr (OutOk resp l), s', w')"
    and "json_plain (response_json (xe_describe x) resp)"
    and "pe_end env \<le> pe_now env'" "pe_now env' < pe_end env + 1000 * ttl_seconds (IDEMPOTENCY_TTL_MS (xe_cfg x))"
    and "xe_ops x' = xe_ops x" "xe_cfg x' = xe_cfg x" "xe_sha256 x' = xe_sha256 x"
  shows "controller_predict x' env' uu' http s' w2 =
    (sendOutcome (OutReplay (response_json (xe_describe x) resp)) (pi_traceId (http_invocation uu' http)), s', w2)"
proof -
  have k: "truthy_str (Some key) = Some key" using assms(7) by (cases key) simp_all
  have inv: "pi_idempotencyKey (http_invocation u http) = Some key" "pi_request (http_invocation u http) = ph_body http"
    "tenant_or_default (http_invocation u http) = tenant_or_default (http_invocation uu http)"
    "pi_apiKeyId (http_invocation u http) = pi_apiKeyId (http_invocation uu http)" for u
    by (simp_all add: http_invocation_def assms(6) k tenant_or_default_def del: truthy_str.simps)
  have ex: "executeWithIdempotencyKey x env (http_invocation uu http) key s w = (Inr (OutOk resp l), s', w')"
    using run by (simp add: executePrediction_def inv(1) k del: truthy_str.simps)
  have "executeWithIdempotencyKey x' env' (http_invocation uu' http) key s' w2 =
      (Inr (OutReplay (response_json (xe_describe x) resp)), s', w2)"
    using keyed_replay [OF assms(1-5) ex assms(10-15) inv(3) inv(4)] by (simp only: inv(2) simp_thms if_True)
  then show ?thesis using assms(8)
    by (simp add: controller_predict_def executePrediction_def inv(1) k IDEMPOTENCY_KEY_MAX_LENGTH_def Let_def del: truthy_str.simps)
qed

lemma read_replay:
  assumes "json_plain (response_json describe resp)"
  shows "bind_r (read_answer dp (wire_of describe' (sendOutcome (OutReplay (response_json describe resp)) trace)) t) predict_answer =
    Inr \<lparr>sp_decision = response_json describe resp, sp_replayed = True, sp_correlationId = Some trace\<rparr>"
proof -
  let ?j = "response_json describe resp"
  have "json_text ?j \<noteq> []" using text_starts [OF assms] by (simp add: starts_value_def)
  then have p: "parseBody (json_text ?j) = (?j, True)" by (simp add: parseBody_def parse_text [OF assms])
  have low: "to_lower ''X-Correlation-ID'' = ''x-correlation-id''" "to_lower ''Idempotency-Replay'' = ''idempotency-replay''"
    by code_simp+
  obtain fs d where "?j = JObj fs" "field fs ''decision'' = JStr d" by (simp add: response_json_def field_def)
  then have "assertDecision ?j 200 = Inr ()" by (simp add: assertDecision_def)
  then show ?thesis
    by (simp add: read_answer_def wire_of_def sendOutcome_def p predict_answer_def header_get_def low Let_def)
qed

lemma quick_attempt:
  assumes "rs_abortAt spec = None" and "rs_timeoutMs spec = None" and "sw_net sw n now = (el, ev)"
    and "el < tc_timeoutMs cfg" and "now + el < deadline" and "0 \<le> el"
  shows "attempt_request cfg spec sw deadline n now =
    (case ev of Broken \<Rightarrow> (Inl NetworkError, now + el, True) | Answered r \<Rightarrow> (read_answer (sw_dateParse sw) r (now + el), now + el, True))"
  using assms by (simp add: attempt_request_def Let_def min_def split: fetch_event.split)


section \<open>Witnesses\<close>

definition sample_cfg :: transport_cfg where
  "sample_cfg = \<lparr>tc_timeoutMs = 1000, tc_deadlineMs = 3000, tc_maxRetries = 2, tc_retryBaseDelayMs = 200, tc_userAgent = ''ua''\<rparr>"

definition sample_creds :: sdk_credentials where
  "sample_creds = \<lparr>sc_apiKey = None, sc_tenantId = Some ''acme''\<rparr>"

definition sample_options :: predict_options where
  "sample_options = \<lparr>po_idempotencyKey = Some ''k'', po_correlationId = Some ''1'', po_tenantId = None, po_abortAt = None, po_timeoutMs = None\<rparr>"

text \<open>The first attempt breaks after five milliseconds; later ones answer at once with what the platform replies.\<close>

definition sample_net :: "wire_response \<Rightarrow> sdk_world" where
  "sample_net r = \<lparr>sw_net = (\<lambda>n t. if n = 0 then (5, Broken) else (5, Answered r)), sw_random = (\<lambda>n. 1 / 2), sw_dateParse = (\<lambda>s. None)\<rparr>"

lemma sample_world [simp]: "sound_world (sample_net r)" "sound_cfg sample_cfg"
  by (simp_all add: sound_world_def sound_cfg_def sample_net_def sample_cfg_def)

definition sample_hs :: "(string \<times> string) list" where
  "sample_hs = [(''X-Tenant-ID'', ''acme''), (''Idempotency-Key'', ''k''), (''X-Correlation-ID'', ''1'')]"

lemma sample_prepared:
  "prepare_predict sample_creds False [] sample_payment sample_options = Inr (predict_spec sample_payment sample_options (Some ''k'') sample_hs)"
  by (simp add: prepare_predict_def assertTransactionId_def rq_def sample_fields TRANSACTION_ID_MIN_LENGTH_def TRANSACTION_ID_MAX_LENGTH_def
      resolveIdempotencyKey_def sample_options_def assertHeaderValue_def SDK_IDEMPOTENCY_KEY_MAX_LENGTH_def is_control_def code_def
      credential_headers_def sample_creds_def TENANT_ID_MAX_LENGTH_def CORRELATION_ID_MAX_LENGTH_def sample_hs_def Let_def)

lemma sample_request_plain: "json_plain (JObj sample_payment)"
proof -
  have "short_decimal 90" "short_decimal 3" "short_decimal 1000"
    using Ints_of_int [of "90 * 10 ^ 17", where ?'a = real] Ints_of_int [of "3 * 10 ^ 17", where ?'a = real]
      Ints_of_int [of "1000 * 10 ^ 17", where ?'a = real] by (simp_all add: short_decimal_def)
  then show ?thesis by (simp add: sample_payment_def sample_request_def)
qed

lemma sample_http:
  "http_invocation uu (http_of \<lparr>cr_apiKey = None, cr_auth = Some (''u'', Some ''acme'')\<rparr>
     (sent_of sample_cfg (predict_spec sample_payment sample_options (Some ''k'') sample_hs) t)) = sample_invocation"
proof -
  have low: "to_lower ''Accept'' = ''accept''" "to_lower ''User-Agent'' = ''user-agent''"
    "to_lower ''X-Tenant-ID'' = ''x-tenant-id''" "to_lower ''Idempotency-Key'' = ''idempotency-key''"
    "to_lower ''X-Correlation-ID'' = ''x-correlation-id''" "to_lower ''Content-Type'' = ''content-type''"
    by code_simp+
  show ?thesis
    using parse_text [OF sample_request_plain]
    by (simp add: http_invocation_def http_of_def sent_of_def predict_spec_def buildHeaders_def sample_hs_def header_get_def low
        resolveTenantId_def sample_invocation_def sample_cfg_def Let_def del: json_plain.simps json_text.simps)
qed

theorem predict_sends_bounded_witness:
  "length (snd (snd (create sample_cfg sample_creds False [] (sample_net \<lparr>wr_status = 200, wr_headers = [], wr_body = ''{}''\<rparr>) 0 sample_payment
      sample_options))) \<le> 3"
proof -
  let ?w = "sample_net \<lparr>wr_status = 200, wr_headers = [], wr_body = ''{}''\<rparr>"
  obtain res t sent where c: "create sample_cfg sample_creds False [] ?w 0 sample_payment sample_options = (res, t, sent)" by (metis prod_cases3)
  have o: "case po_timeoutMs sample_options of Some u \<Rightarrow> 0 \<le> u | None \<Rightarrow> True" "0 \<le> tc_deadlineMs sample_cfg"
    by (simp_all add: sample_options_def sample_cfg_def)
  from predict_sends_bounded [OF sample_world o c] show ?thesis unfolding c by (simp add: sample_cfg_def split: if_splits)
qed

definition sample_spec_key :: request_spec where
  "sample_spec_key = predict_spec sample_payment sample_options (Some ''k'') sample_hs"

lemma sample_spec_simps [simp]:
  "rs_abortAt sample_spec_key = None" "rs_timeoutMs sample_spec_key = None" "is_retried sample_spec_key" "fair_timeout sample_spec_key"
  by (simp_all add: sample_spec_key_def predict_spec_def sample_options_def is_retried_def fair_timeout_def)

lemma sample_delay: "backoffDelayMs 0 (tc_retryBaseDelayMs sample_cfg) None (sw_random (sample_net r) 0) = 100"
  by (simp add: backoffDelayMs_def sample_cfg_def sample_net_def MAX_BACKOFF_MS_def js_round_def)


definition digest_crypto :: webhook_crypto where
  "digest_crypto = \<lparr>wc_sha256 = (\<lambda>s. s), wc_hmac = (\<lambda>k m. if m = [] then ''00'' else ''ab'')\<rparr>"

theorem signed_delivery_verifies_witness:
  "\<exists>r. wh_sent (deliverOne sample_platform digest_crypto 5000 (Response 200 (Inr [])) (sample_webhook, sample_subscription\<lparr>sb_secretHash := ''x''\<rparr>)
      \<lparr>wh_subscriptions = [], wh_deliveries = [], wh_sent = []\<rparr>) = [r]
    \<and> verifyWebhookSignature digest_crypto ''x'' (Some (rq_signature r)) (rq_body r) None 9000"
proof -
  let ?i = "\<lparr>wi_tenantId = ''acme'', wi_url = ''https://hooks.example/'', wi_events = [''rule.activated''], wi_secret = Some ''x'',
    wi_maxRetries = Some 2, wi_timeoutMs = None\<rparr>"
  let ?st0 = "\<lparr>wh_subscriptions = [], wh_deliveries = [], wh_sent = []\<rparr>"
  have safe: "isWebhookUrlSafe sample_platform ''https://hooks.example/'' = UrlSafe (Some ''8.8.8.8'')" by code_simp
  obtain st1 s where reg: "register_webhook sample_platform digest_crypto ''s1'' [] 1 ?i ?st0 = (Inr (''s1'', ''x''), st1)"
    "s \<in> set (wh_subscriptions st1)" "sb_id s = ''s1''" "sb_url s = ''https://hooks.example/''"
    by (simp add: register_webhook_def safe Let_def)
  have hash: "sb_secretHash s = ''x''" using registered_secret [OF reg(1-3)] by (simp add: digest_crypto_def)
  have hex: "hex_digest (wc_hmac digest_crypto k m)" for k m
    by (simp add: digest_crypto_def hex_digest_def is_digit_def code_def)
  let ?r = "\<lambda>h. \<lparr>rq_url = ''https://hooks.example/'', rq_event = ''rule.activated'', rq_delivery = ''d1'',
    rq_signature = signature_of digest_crypto h 5000 (json_text (JObj [])), rq_body = json_text (JObj [])\<rparr>"
  have sent: "wh_sent (deliverOne sample_platform digest_crypto 5000 (Response 200 (Inr [])) (sample_webhook, s') ?st0) = [?r (sb_secretHash s')]"
    if "sb_url s' = ''https://hooks.example/''" for s'
    using that by (simp add: deliverOne_def safe attempt_outcome_def recordAttempt_def sample_webhook_def Let_def)
  have "verifyWebhookSignature digest_crypto ''x'' (Some (rq_signature (?r ''x''))) (rq_body (?r ''x'')) None 9000"
    using signed_delivery_verifies [OF reg(1-3) _ _ hex, of sample_platform 5000 "Response 200 (Inr [])" sample_webhook ?st0 "?r ''x''" 9000 None]
      sent [OF reg(4)] hash by (simp add: DEFAULT_TOLERANCE_SECONDS_def)
  then show ?thesis using sent [of "sample_subscription\<lparr>sb_secretHash := ''x''\<rparr>"] by (simp add: sample_subscription_def)
qed


end
