(* ===== verification/EnvFile.thy ===== *)
theory EnvFile
  imports JsValue
begin

text \<open>
  The environment files of the deployment tool (\<open>packages/cli\<close>): how a \<open>.env\<close> file is read, how a
  manifest's references are resolved against it, how \<open>ojuri init\<close> edits the shipped example, and the
  lemmas that an edit is what a later reading finds. A file is its text; an object is a map in
  insertion order. The keys of an edit are words (letters, digits, underscores, no digit first), as all
  keys in the source are. The URL parser of the platform is an argument.
\<close>

section \<open>Looking up and parsing\<close>

record env_source =
  dotenv :: "(string, string) omap"
  process :: "string \<Rightarrow> string option"

definition lookup :: "env_source \<Rightarrow> string \<Rightarrow> string option" where
  "lookup env name =
     (case process env name of
        Some v \<Rightarrow> if v \<noteq> [] then Some v else om_get (dotenv env) name
      | None \<Rightarrow> om_get (dotenv env) name)"

definition is_word_char :: "char \<Rightarrow> bool" where
  "is_word_char c =
     (65 \<le> code c \<and> code c \<le> 90 \<or> 97 \<le> code c \<and> code c \<le> 122 \<or> is_digit c \<or> c = CHR ''_'')"

definition is_word :: "string \<Rightarrow> bool" where
  "is_word w = (w \<noteq> [] \<and> \<not> is_digit (hd w) \<and> list_all is_word_char w)"

definition newline :: char where "newline = CHR 10"
definition carriage_return :: char where "carriage_return = CHR 13"

text \<open>\<open>text.split(/\r?\n/)\<close>: every line but the last loses one carriage return at its end.\<close>

definition strip_cr :: "string \<Rightarrow> string" where
  "strip_cr l = (if l \<noteq> [] \<and> last l = carriage_return then butlast l else l)"

definition crlf_lines :: "string \<Rightarrow> string list" where
  "crlf_lines t = (let ls = split_on newline t in map strip_cr (butlast ls) @ [last ls])"

definition quoted_by :: "char \<Rightarrow> string \<Rightarrow> bool" where
  "quoted_by q v = (v \<noteq> [] \<and> hd v = q \<and> last v = q \<and> 2 \<le> length v)"

fun before_hash :: "string \<Rightarrow> string option" where
  "before_hash [] = None"
| "before_hash (c # cs) =
     (if starts_with (c # cs) '' #'' then Some [] else map_option ((#) c) (before_hash cs))"

definition dotenv_value :: "string \<Rightarrow> string" where
  "dotenv_value v =
     (if quoted_by CHR 34 v \<or> quoted_by CHR 39 v then butlast (tl v)
      else case before_hash v of Some w \<Rightarrow> js_trim w | None \<Rightarrow> v)"

definition parse_line :: "string \<Rightarrow> (string \<times> string) option" where
  "parse_line raw =
     (let line = js_trim raw in
      if line = [] \<or> starts_with line ''#'' then None
      else
        let withoutExport = (if starts_with line ''export '' then js_trim (drop 7 line) else line);
            name = takeWhile (\<lambda>c. c \<noteq> CHR ''='') withoutExport;
            rest = dropWhile (\<lambda>c. c \<noteq> CHR ''='') withoutExport;
            key = js_trim name
        in if rest = [] \<or> name = [] then None
           else if \<not> is_word key then None
           else Some (key, dotenv_value (js_trim (tl rest))))"

definition parseDotenv :: "string \<Rightarrow> (string, string) omap" where
  "parseDotenv t = fold (\<lambda>(k, v) m. om_set k v m) (List.map_filter parse_line (crlf_lines t)) []"

text \<open>A missing file is an empty environment.\<close>

definition loadDotenv :: "(string \<Rightarrow> string option) \<Rightarrow> string \<Rightarrow> (string, string) omap" where
  "loadDotenv files path = (case files path of None \<Rightarrow> [] | Some t \<Rightarrow> parseDotenv t)"

section \<open>References\<close>

text \<open>The expression \<open>\$\{([A-Za-z_][A-Za-z0-9_]*)\}\<close> at the head of a string: the name and what follows.\<close>

definition cut_reference :: "string \<Rightarrow> (string \<times> string) option" where
  "cut_reference s =
     (if starts_with s ''${''
      then let name = takeWhile is_word_char (drop 2 s);
               rest = dropWhile is_word_char (drop 2 s)
           in if is_word name \<and> rest \<noteq> [] \<and> hd rest = CHR ''}'' then Some (name, tl rest) else None
      else None)"

lemma cut_reference_shorter: "cut_reference s = Some (n, r) \<Longrightarrow> length r < length s"
  using length_dropWhile_le [of is_word_char "drop 2 s"]
  by (cases s) (auto simp: cut_reference_def Let_def split: if_splits)

text \<open>
  \<open>node.replace(REFERENCE, ...)\<close>: the text with every reference that resolves replaced, and the names
  that do not, in order.
\<close>

function replace_refs :: "(string \<Rightarrow> string option) \<Rightarrow> string \<Rightarrow> string \<times> string list" where
  "replace_refs env s =
     (case s of
        [] \<Rightarrow> ([], [])
      | c # cs \<Rightarrow>
          (case cut_reference s of
             Some (name, rest) \<Rightarrow>
               (let (out, unresolved) = replace_refs env rest
                in case env name of
                     Some v \<Rightarrow> (v @ out, unresolved)
                   | None \<Rightarrow> (''${'' @ name @ ''}'' @ out, name # unresolved))
           | None \<Rightarrow> (let (out, unresolved) = replace_refs env cs in (c # out, unresolved))))"
  by pat_completeness auto
termination
  by (relation "measure (\<lambda>(env, s). length s)") (auto dest: cut_reference_shorter)

declare replace_refs.simps [simp del]

function reference_names :: "string \<Rightarrow> string list" where
  "reference_names s =
     (case s of
        [] \<Rightarrow> []
      | c # cs \<Rightarrow> (case cut_reference s of Some (name, rest) \<Rightarrow> name # reference_names rest | None \<Rightarrow> reference_names cs))"
  by pat_completeness auto
termination
  by (relation "measure length") (auto dest: cut_reference_shorter)

declare reference_names.simps [simp del]

definition hasUnresolvedReference :: "string option \<Rightarrow> bool" where
  "hasUnresolvedReference v = (case v of None \<Rightarrow> False | Some s \<Rightarrow> reference_names s \<noteq> [])"

text \<open>The document with its references resolved, and the path and name of each that is not.\<close>

definition sub_path :: "string \<Rightarrow> string \<Rightarrow> string" where
  "sub_path path key = (if path = [] then key else path @ ''.'' @ key)"

function resolve_walk :: "(string \<Rightarrow> string option) \<Rightarrow> string \<Rightarrow> jval \<Rightarrow> jval \<times> (string \<times> string) list" where
  "resolve_walk env path (JStr s) =
     (let (out, names) = replace_refs env s in (JStr out, map (Pair path) names))"
| "resolve_walk env path (JArr vs) =
     (let rs = map (\<lambda>(i, v). resolve_walk env (path @ ''['' @ nat_to_str i @ '']'') v) (zip [0..<length vs] vs)
      in (JArr (map fst rs), concat (map snd rs)))"
| "resolve_walk env path (JObj fs) =
     (let rs = map (\<lambda>(k, v). (k, resolve_walk env (sub_path path k) v)) fs
      in (JObj (map (\<lambda>(k, r). (k, fst r)) rs), concat (map (\<lambda>(k, r). snd r) rs)))"
| "resolve_walk env path JUndef = (JUndef, [])"
| "resolve_walk env path JNull = (JNull, [])"
| "resolve_walk env path (JBool b) = (JBool b, [])"
| "resolve_walk env path (JNum n) = (JNum n, [])"
  by pat_completeness auto
termination
  by (relation "measure (\<lambda>(env, path, v). size v)")
    (auto dest!: set_zip_rightD simp: less_Suc_eq_le intro: size_list_estimation' dest: size_list_estimation')

definition resolveReferences :: "env_source \<Rightarrow> jval \<Rightarrow> jval \<times> (string \<times> string) list" where
  "resolveReferences env input = resolve_walk (lookup env) [] input"

section \<open>Editing a file in place\<close>

text \<open>What follows the equals sign of a line \<open>^\s*KEY\s*=\<close>.\<close>

definition assigned :: "string \<Rightarrow> string \<Rightarrow> string option" where
  "assigned key line =
     (let l = dropWhile is_ws line; r = dropWhile is_ws (drop (length key) l)
      in if starts_with l key \<and> r \<noteq> [] \<and> hd r = CHR ''='' then Some (tl r) else None)"

text \<open>A commented assignment \<open>^\s*#\s*KEY\s*=\<close>.\<close>

definition commented_out :: "string \<Rightarrow> string \<Rightarrow> bool" where
  "commented_out key line =
     (let l = dropWhile is_ws line in l \<noteq> [] \<and> hd l = CHR ''#'' \<and> assigned key (tl l) \<noteq> None)"

fun find_line :: "(string \<Rightarrow> bool) \<Rightarrow> string list \<Rightarrow> nat option" where
  "find_line P [] = None"
| "find_line P (l # ls) = (if P l then Some 0 else map_option Suc (find_line P ls))"

definition setEnvValue :: "string \<Rightarrow> string \<Rightarrow> string \<Rightarrow> string" where
  "setEnvValue t key v =
     (let assignment = key @ ''='' @ v; lines = split_on newline t
      in case find_line (\<lambda>l. assigned key l \<noteq> None) lines of
           Some i \<Rightarrow> join_with [newline] (lines[i := assignment])
         | None \<Rightarrow>
             (case find_line (commented_out key) lines of
                Some i \<Rightarrow> join_with [newline] (lines[i := assignment])
              | None \<Rightarrow>
                  (let trimmed = (if t \<noteq> [] \<and> last t = newline then butlast t else t)
                   in trimmed @ [newline] @ assignment @ [newline])))"

text \<open>The dot of the expression matches neither a newline nor a carriage return.\<close>

fun read_lines :: "string \<Rightarrow> string list \<Rightarrow> string option" where
  "read_lines key [] = None"
| "read_lines key (l # ls) =
     (case assigned key l of
        Some r \<Rightarrow> if carriage_return \<in> set r then read_lines key ls else Some (js_trim r)
      | None \<Rightarrow> read_lines key ls)"

definition readEnvValue :: "string \<Rightarrow> string \<Rightarrow> string option" where
  "readEnvValue t key = read_lines key (split_on newline t)"

text \<open>The parser reads a URL as its user name and what it prints with another password.\<close>

definition replaceUrlPassword :: "(string \<Rightarrow> (string \<times> (string \<Rightarrow> string)) option) \<Rightarrow> string \<Rightarrow> string \<Rightarrow> string" where
  "replaceUrlPassword parse url password =
     (case parse url of
        None \<Rightarrow> url
      | Some (username, print) \<Rightarrow> if username = [] then url else print password)"

section \<open>A fresh file\<close>

text \<open>The random values of one run of \<open>ojuri init\<close>, in the order they are drawn.\<close>

record generated =
  g_admin :: string
  g_jwt :: string
  g_service :: string
  g_grafana :: string
  g_postgres :: string

definition harden :: "(string \<Rightarrow> (string \<times> (string \<Rightarrow> string)) option) \<Rightarrow> generated \<Rightarrow> string \<Rightarrow> string" where
  "harden parse g t =
     (let t1 = setEnvValue t ''AUTH_JWT_SECRET'' (g_jwt g);
          t2 = setEnvValue t1 ''ADMIN_SEED_PASSWORD'' (g_admin g);
          t3 = setEnvValue t2 ''MLA_SERVICE_TOKEN'' (g_service g);
          t4 = setEnvValue t3 ''GRAFANA_PASSWORD'' (g_grafana g);
          t5 = setEnvValue t4 ''POSTGRES_PASSWORD'' (g_postgres g);
          t6 = setEnvValue t5 ''DB_PASSWORD'' (g_postgres g)
      in case readEnvValue t6 ''DB_URL'' of
           Some url \<Rightarrow> if url \<noteq> [] then setEnvValue t6 ''DB_URL'' (replaceUrlPassword parse url (g_postgres g)) else t6
         | None \<Rightarrow> t6)"

text \<open>
  \<open>ojuri init\<close> on the files of the project: neither the manifest nor the environment is overwritten.
  The outcome says whether it succeeded and which of the two it wrote.
\<close>

record project_files =
  f_manifest :: "string option"
  f_env :: "string option"

record init_result =
  ir_ok :: bool
  ir_wroteManifest :: bool
  ir_wroteEnv :: bool
  ir_adminPassword :: "string option"

definition cli_init ::
  "(string \<Rightarrow> (string \<times> (string \<Rightarrow> string)) option) \<Rightarrow> string \<Rightarrow> string option \<Rightarrow> bool \<Rightarrow> generated \<Rightarrow>
   project_files \<Rightarrow> init_result \<times> project_files" where
  "cli_init parse template example keepDevDefaults g fs =
     (let wroteManifest = (f_manifest fs = None);
          fs1 = (if wroteManifest then fs\<lparr>f_manifest := Some template\<rparr> else fs);
          result = (\<lambda>good wrote admin. \<lparr>ir_ok = good, ir_wroteManifest = wroteManifest, ir_wroteEnv = wrote, ir_adminPassword = admin\<rparr>)
      in if f_env fs \<noteq> None then (result True False None, fs1)
         else case example of
                None \<Rightarrow> (result False False None, fs1)
              | Some t \<Rightarrow>
                  if keepDevDefaults then (result True True None, fs1\<lparr>f_env := Some t\<rparr>)
                  else (result True True (Some (g_admin g)), fs1\<lparr>f_env := Some (harden parse g t)\<rparr>))"

section \<open>Lines and trimming\<close>

definition blank :: "string \<Rightarrow> bool" where
  "blank w = list_all is_ws w"

definition rtrim :: "string \<Rightarrow> string" where
  "rtrim s = rev (dropWhile is_ws (rev s))"

lemma js_trim_rtrim: "js_trim s = rtrim (dropWhile is_ws s)"
  by (simp add: js_trim_def rtrim_def)

lemma rtrim_stops: "\<not> is_ws c \<Longrightarrow> rtrim (us @ c # vs) = us @ c # rtrim vs"
  by (simp add: rtrim_def dropWhile_append)

lemma rtrim_blank: "blank w \<Longrightarrow> rtrim (s @ w) = rtrim s"
  by (simp add: rtrim_def blank_def list_all_iff dropWhile_append)

lemma rtrim_split: "\<exists>w. blank w \<and> s = rtrim s @ w"
  by (rule exI [of _ "rev (takeWhile is_ws (rev s))"])
    (metis blank_def list_all_iff rev_append rev_rev_ident rtrim_def set_rev set_takeWhileD takeWhile_dropWhile_id)

lemma dropWhile_blank: "blank w \<Longrightarrow> dropWhile is_ws (w @ s) = dropWhile is_ws s"
  by (simp add: blank_def list_all_iff)

lemma js_trim_blank: "blank w \<Longrightarrow> js_trim (w @ s) = js_trim s" "blank w \<Longrightarrow> js_trim (s @ w) = js_trim s"
proof -
  show "blank w \<Longrightarrow> js_trim (w @ s) = js_trim s" by (simp add: js_trim_rtrim dropWhile_blank)
  assume w: "blank w"
  show "js_trim (s @ w) = js_trim s"
  proof (cases "\<forall>c \<in> set s. is_ws c")
    case True
    then have "dropWhile is_ws s = []" "dropWhile is_ws (s @ w) = []" using w by (auto simp: blank_def list_all_iff)
    then show ?thesis by (simp only: js_trim_def)
  next
    case False
    then show ?thesis using w by (auto simp: js_trim_rtrim dropWhile_append rtrim_blank)
  qed
qed

lemma js_trim_split: "\<exists>u w. blank u \<and> blank w \<and> s = u @ js_trim s @ w"
proof -
  obtain w where "blank w" "dropWhile is_ws s = js_trim s @ w"
    using rtrim_split [of "dropWhile is_ws s"] by (auto simp: js_trim_rtrim)
  moreover have "blank (takeWhile is_ws s)" by (auto simp: blank_def list_all_iff dest: set_takeWhileD)
  ultimately show ?thesis by (metis takeWhile_dropWhile_id)
qed

lemma js_trim_ends: "s = [] \<or> \<not> is_ws (hd s) \<and> \<not> is_ws (last s) \<Longrightarrow> js_trim s = s"
proof (cases "s = []")
  case False
  moreover assume "s = [] \<or> \<not> is_ws (hd s) \<and> \<not> is_ws (last s)"
  ultimately have "dropWhile is_ws s = s" "dropWhile is_ws (rev s) = rev s"
    by (simp_all add: dropWhile_eq_self_iff hd_rev)
  then show ?thesis by (simp add: js_trim_def)
qed (simp add: js_trim_def)

lemma js_trim_fixed: "js_trim s = s \<Longrightarrow> s \<noteq> [] \<Longrightarrow> \<not> is_ws (hd s) \<and> \<not> is_ws (last s)"
proof -
  assume s: "js_trim s = s" "s \<noteq> []"
  have a: "rtrim (dropWhile is_ws s) = s" using s by (simp add: js_trim_rtrim)
  have "length s \<le> length (dropWhile is_ws s)"
    by (metis a length_dropWhile_le length_rev rtrim_def)
  then have d: "dropWhile is_ws s = s"
    by (metis append_eq_conv_conj append_self_conv2 length_append length_dropWhile_le le_antisym takeWhile_dropWhile_id length_0_conv add_cancel_left_left)
  then have r: "dropWhile is_ws (rev s) = rev s" using a by (metis rev_rev_ident rtrim_def)
  show ?thesis using d r s(2) by (metis hd_dropWhile hd_rev rev_is_Nil_conv)
qed

lemma js_trim_hd: "js_trim s \<noteq> [] \<Longrightarrow> \<not> is_ws (hd (js_trim s))"
proof -
  assume "js_trim s \<noteq> []"
  moreover have "js_trim (js_trim s) = js_trim s"
  proof -
    obtain u w where "blank u" "blank w" "s = u @ js_trim s @ w" using js_trim_split by blast
    then show ?thesis using js_trim_blank by metis
  qed
  ultimately show ?thesis using js_trim_fixed by blast
qed

lemma split_lines_no_newline: "l \<in> set (split_on d t) \<Longrightarrow> d \<notin> set l"
  by (induction t arbitrary: l) (auto split: if_splits list.splits)

lemma split_on_append: "split_on d (s @ d # t) = split_on d s @ split_on d t"
  by (induction s) (auto split: list.splits)

lemma split_join: "ls \<noteq> [] \<Longrightarrow> \<forall>l \<in> set ls. d \<notin> set l \<Longrightarrow> split_on d (join_with [d] ls) = ls"
proof (induction ls rule: induct_list012)
  case (3 a b ls)
  then show ?case using split_on_append [of d a "join_with [d] (b # ls)"] by (simp add: split_on_none)
qed (auto simp: split_on_none)

lemma blank_not_equals: "blank w \<Longrightarrow> CHR ''='' \<notin> set w"
  by (auto simp: blank_def list_all_iff is_ws_def code_def)

lemma word_chars:
  assumes "is_word k"
  shows "k \<noteq> []" "CHR ''='' \<notin> set k" "CHR '' '' \<notin> set k" "newline \<notin> set k" "\<not> is_ws (hd k)" "\<not> is_ws (last k)" "hd k \<noteq> CHR ''#''"
proof -
  have k: "k \<noteq> []" "\<forall>c \<in> set k. is_word_char c" using assms by (auto simp: is_word_def list_all_iff)
  show "k \<noteq> []" by (rule k)
  have n: "\<not> is_word_char (CHR ''='')" "\<not> is_word_char (CHR '' '')" "\<not> is_word_char newline" "\<not> is_word_char (CHR ''#'')"
    by (simp_all add: is_word_char_def code_def is_digit_def newline_def)
  have w: "is_word_char c \<Longrightarrow> \<not> is_ws c" for c by (auto simp: is_word_char_def is_ws_def is_digit_def code_def)
  show "CHR ''='' \<notin> set k" "CHR '' '' \<notin> set k" "newline \<notin> set k" using k n by auto
  show "\<not> is_ws (hd k)" "\<not> is_ws (last k)" "hd k \<noteq> CHR ''#''" using k n w by (metis hd_in_set, metis last_in_set, metis hd_in_set)
qed

section \<open>What a line means to each reader\<close>

text \<open>A value every reader takes as it stands: one line, no outer blanks or quotes, no comment.\<close>

definition plain_value :: "string \<Rightarrow> bool" where
  "plain_value v =
     (newline \<notin> set v \<and> carriage_return \<notin> set v \<and> js_trim v = v \<and>
      \<not> quoted_by CHR 34 v \<and> \<not> quoted_by CHR 39 v \<and> before_hash v = None)"

definition exported :: "string \<Rightarrow> bool" where
  "exported l = starts_with (js_trim l) ''export ''"

lemma take_to_equals:
  "CHR ''='' \<notin> set n \<Longrightarrow> takeWhile (\<lambda>c. c \<noteq> CHR ''='') (n @ CHR ''='' # r) = n"
  "CHR ''='' \<notin> set n \<Longrightarrow> dropWhile (\<lambda>c. c \<noteq> CHR ''='') (n @ CHR ''='' # r) = CHR ''='' # r"
  by (induction n) auto

lemma assigned_split:
  assumes "is_word k"
  shows "(\<exists>r. assigned k l = Some r) \<longleftrightarrow> (\<exists>u w r. blank u \<and> blank w \<and> l = u @ k @ w @ CHR ''='' # r)" (is "?A = ?B")
proof
  assume ?A
  then obtain r where a: "assigned k l = Some r" by blast
  define m where "m = dropWhile is_ws l"
  define d where "d = drop (length k) m"
  define n where "n = dropWhile is_ws d"
  define u where "u = takeWhile is_ws l"
  define w where "w = takeWhile is_ws d"
  have b: "blank u" "blank w" by (auto simp: u_def w_def blank_def list_all_iff dest: set_takeWhileD)
  have s: "starts_with m k \<and> n \<noteq> [] \<and> hd n = CHR ''='' \<and> tl n = r"
    using a unfolding assigned_def m_def n_def d_def Let_def by (simp split: if_splits)
  then have n: "n = CHR ''='' # r" by (cases n) simp_all
  have "m = k @ d" using s by (auto simp: starts_with_prefix d_def)
  moreover have "l = u @ m" "d = w @ n" unfolding u_def m_def w_def n_def by (rule takeWhile_dropWhile_id [symmetric])+
  ultimately have "l = u @ k @ w @ CHR ''='' # r" using n by simp
  with b show ?B by (intro exI [of _ u] exI [of _ w] exI [of _ r] conjI)
next
  assume ?B
  then obtain u w r where l: "blank u" "blank w" "l = u @ k @ w @ CHR ''='' # r" by blast
  have k: "dropWhile is_ws (k @ x) = k @ x" for x
    using word_chars(1,5) [OF assms] by (cases k) auto
  have "\<not> is_ws (CHR ''='')" by (simp add: is_ws_def code_def)
  then have "assigned k l = Some r" using l(1,3) dropWhile_blank [OF l(2), of "CHR ''='' # r"]
    by (simp add: assigned_def dropWhile_blank k)
  then show ?A by blast
qed

lemma trimmed_assignment:
  assumes "is_word k" "blank u" "blank w"
  shows "js_trim (u @ k @ w @ CHR ''='' # r) = k @ w @ CHR ''='' # rtrim r" "js_trim (k @ w) = k"
proof -
  have k: "dropWhile is_ws (k @ x) = k @ x" for x
    using word_chars(1,5) [OF assms(1)] by (cases k) auto
  have "\<not> is_ws (CHR ''='')" by (simp add: is_ws_def code_def)
  then have "rtrim ((k @ w) @ CHR ''='' # r) = (k @ w) @ CHR ''='' # rtrim r" by (rule rtrim_stops)
  then show "js_trim (u @ k @ w @ CHR ''='' # r) = k @ w @ CHR ''='' # rtrim r"
    using k assms(2) by (simp add: js_trim_rtrim dropWhile_blank)
  show "js_trim (k @ w) = k"
    using js_trim_blank(2) [OF assms(3)] js_trim_ends word_chars(5,6) [OF assms(1)] by metis
qed

lemma parse_assignment:
  assumes k: "is_word k" and b: "blank u" "blank w" and e: "\<not> exported (u @ k @ w @ CHR ''='' # r)"
  shows "parse_line (u @ k @ w @ CHR ''='' # r) = Some (k, dotenv_value (js_trim (rtrim r)))"
proof -
  note t = trimmed_assignment [OF k b]
  have n: "CHR ''='' \<notin> set (k @ w)" using word_chars(2) [OF k] blank_not_equals [OF b(2)] by simp
  note w = take_to_equals [OF n]
  have h: "\<not> starts_with (k @ x) ''#''" for x using word_chars(1,7) [OF k] by (cases k) auto
  have x: "\<not> starts_with (k @ w @ CHR ''='' # rtrim r) ''export ''" using e t(1) by (simp add: exported_def)
  show ?thesis
    unfolding parse_line_def t(1) Let_def
    using w [of "rtrim r"] t(2) k h x word_chars(1) [OF k] by auto
qed

lemma parse_iff_assigned:
  assumes "is_word k" "\<not> exported l"
  shows "(\<exists>v. parse_line l = Some (k, v)) = (assigned k l \<noteq> None)"
proof
  assume "assigned k l \<noteq> None"
  then show "\<exists>v. parse_line l = Some (k, v)"
    using assigned_split [OF assms(1), of l] parse_assignment [OF assms(1)] assms(2) by blast
next
  assume "\<exists>v. parse_line l = Some (k, v)"
  then obtain v where p: "parse_line l = Some (k, v)" by blast
  define n where "n = takeWhile (\<lambda>c. c \<noteq> CHR ''='') (js_trim l)"
  define r where "r = dropWhile (\<lambda>c. c \<noteq> CHR ''='') (js_trim l)"
  have q: "js_trim l \<noteq> []" "r \<noteq> []" "n \<noteq> []" "js_trim n = k"
    using p assms(2) by (auto simp: parse_line_def Let_def n_def r_def exported_def split: if_splits)
  have j: "js_trim l = n @ CHR ''='' # tl r"
    using q(2) hd_dropWhile [of "\<lambda>c. c \<noteq> CHR ''=''" "js_trim l"] unfolding n_def r_def
    by (metis (mono_tags, lifting) list.collapse takeWhile_dropWhile_id)
  obtain a b where ab: "blank a" "blank b" "n = a @ k @ b" using js_trim_split [of n] q(4) by blast
  have "a = []"
  proof (rule ccontr)
    assume "a \<noteq> []"
    then have "is_ws (hd (js_trim l))" using ab j by (cases a) (auto simp: blank_def)
    then show False using js_trim_hd q(1) by blast
  qed
  moreover obtain u w where "blank u" "blank w" "l = u @ js_trim l @ w" using js_trim_split by blast
  ultimately have "blank u" "l = u @ k @ b @ CHR ''='' # (tl r @ w)" using ab j by auto
  then show "assigned k l \<noteq> None" using assigned_split [OF assms(1), of l] ab(2) by blast
qed

lemma comment_parses_to_nothing: "commented_out k l \<Longrightarrow> parse_line l = None \<and> \<not> exported l"
proof -
  assume "commented_out k l"
  then obtain r where "dropWhile is_ws l = CHR ''#'' # r"
    by (auto simp: commented_out_def Let_def neq_Nil_conv)
  moreover have "\<not> is_ws (CHR ''#'')" by (simp add: is_ws_def code_def)
  ultimately have "js_trim l = CHR ''#'' # rtrim r" using rtrim_stops [of "CHR ''#''" "[]" r] by (simp add: js_trim_rtrim)
  then show ?thesis by (simp add: parse_line_def exported_def)
qed

lemma comment_is_not_assigned: "is_word k' \<Longrightarrow> commented_out k l \<Longrightarrow> assigned k' l = None"
proof (rule ccontr)
  assume "is_word k'" "commented_out k l" "assigned k' l \<noteq> None"
  then show False using parse_iff_assigned [of k' l] comment_parses_to_nothing [of k l] by auto
qed

lemma written_line:
  assumes "is_word k" "plain_value v"
  shows "parse_line (k @ ''='' @ v) = Some (k, v)" "\<not> exported (k @ ''='' @ v)"
    "assigned k (k @ ''='' @ v) = Some v" "newline \<notin> set (k @ ''='' @ v)"
proof -
  have r: "rtrim v = v"
  proof (cases "v = []")
    case False
    then have "\<not> is_ws (last v)" using assms(2) js_trim_fixed [of v] by (auto simp: plain_value_def)
    then have "dropWhile is_ws (rev v) = rev v" by (simp add: dropWhile_eq_self_iff hd_rev)
    then show ?thesis by (simp add: rtrim_def)
  qed (simp add: rtrim_def)
  have t: "js_trim (k @ ''='' @ v) = k @ ''='' @ v"
    using trimmed_assignment(1) [OF assms(1), of "[]" "[]" v] r by (simp add: blank_def)
  show e: "\<not> exported (k @ ''='' @ v)"
  proof
    assume "exported (k @ ''='' @ v)"
    then have "starts_with (k @ ''='' @ v) ''export ''" unfolding exported_def t .
    then obtain z where z: "k @ CHR ''='' # v = ''export '' @ z" unfolding starts_with_prefix by auto
    have a: "CHR ''='' \<notin> set ''export ''" "CHR '' '' \<in> set ''export ''" by simp_all
    show False using z a word_chars(2,3) [OF assms(1)]
      by (auto simp: append_eq_append_conv2 append_eq_Cons_conv)
  qed
  show "parse_line (k @ ''='' @ v) = Some (k, v)"
    using parse_assignment [OF assms(1), of "[]" "[]" v] e assms(2) r by (simp add: blank_def dotenv_value_def plain_value_def)
  show "assigned k (k @ ''='' @ v) = Some v"
  proof -
    have "dropWhile is_ws (k @ x) = k @ x" for x
      using word_chars(1,5) [OF assms(1)] by (cases k) auto
    then show ?thesis by (simp add: assigned_def is_ws_def code_def)
  qed
  show "newline \<notin> set (k @ ''='' @ v)"
    using word_chars(4) [OF assms(1)] assms(2) by (simp add: plain_value_def newline_def)
qed

section \<open>An edit\<close>

lemma find_line_split:
  "find_line P ls = Some i \<Longrightarrow> \<exists>us l vs. ls = us @ l # vs \<and> P l \<and> (\<forall>x \<in> set us. \<not> P x) \<and> i = length us"
proof (induction ls arbitrary: i)
  case (Cons a ls)
  show ?case
  proof (cases "P a")
    case True
    then show ?thesis using Cons.prems by (intro exI [of _ "[]"] exI [of _ a] exI [of _ ls]) auto
  next
    case False
    then obtain j where "find_line P ls = Some j" "i = Suc j" using Cons.prems by auto
    then obtain us l vs where "ls = us @ l # vs \<and> P l \<and> (\<forall>x \<in> set us. \<not> P x) \<and> j = length us"
      using Cons.IH by blast
    then show ?thesis using False \<open>i = Suc j\<close> by (intro exI [of _ "a # us"] exI [of _ l] exI [of _ vs]) auto
  qed
qed simp

lemma find_line_none: "find_line P ls = None \<longleftrightarrow> (\<forall>x \<in> set ls. \<not> P x)"
  by (induction ls) auto

text \<open>The one line an edit replaces or adds, with what stays before and after it.\<close>

lemma edit_shape:
  assumes k: "is_word k" and a: "newline \<notin> set (k @ ''='' @ v)"
  obtains us mid vs vs' where
    "split_on newline t = us @ mid @ vs" "split_on newline (setEnvValue t k v) = us @ (k @ ''='' @ v) # vs'"
    "vs' = vs \<or> vs' = [[]] \<and> set vs \<subseteq> {[]}"
    "\<forall>l \<in> set us. assigned k l = None"
    "(\<exists>l. mid = [l] \<and> assigned k l \<noteq> None) \<or>
     ((mid = [] \<or> (\<exists>l. mid = [l] \<and> commented_out k l)) \<and> (\<forall>l \<in> set vs. assigned k l = None))"
proof -
  define lines where "lines = split_on newline t"
  have clean: "\<forall>l \<in> set lines. newline \<notin> set l" by (simp add: lines_def split_lines_no_newline)
  have replaced: "split_on newline (join_with [newline] (lines[length us := k @ ''='' @ v])) = us @ (k @ ''='' @ v) # vs"
    if "lines = us @ l # vs" for us l vs
    using that clean a by (subst split_join) auto
  show thesis
  proof (cases "find_line (\<lambda>l. assigned k l \<noteq> None) lines")
    case (Some i)
    then obtain us l vs where s: "lines = us @ l # vs" "assigned k l \<noteq> None" "\<forall>x \<in> set us. assigned k x = None" "i = length us"
      by (auto dest: find_line_split)
    then have "split_on newline (setEnvValue t k v) = us @ (k @ ''='' @ v) # vs"
      using Some replaced [OF s(1)] by (simp add: setEnvValue_def lines_def Let_def)
    then show thesis using that [of us "[l]" vs vs] s lines_def by simp
  next
    case None
    then have no: "\<forall>l \<in> set lines. assigned k l = None" by (simp add: find_line_none)
    show thesis
    proof (cases "find_line (commented_out k) lines")
      case (Some i)
      then obtain us l vs where s: "lines = us @ l # vs" "commented_out k l" "i = length us"
        by (auto dest: find_line_split)
      then have "split_on newline (setEnvValue t k v) = us @ (k @ ''='' @ v) # vs"
        using None Some replaced [OF s(1)] by (simp add: setEnvValue_def lines_def Let_def)
      then show thesis using that [of us "[l]" vs vs] s no lines_def by simp
    next
      case none: None
      define trimmed where "trimmed = (if t \<noteq> [] \<and> last t = newline then butlast t else t)"
      have set: "setEnvValue t k v = trimmed @ newline # (k @ ''='' @ v) @ newline # []"
        using None none by (simp add: setEnvValue_def lines_def Let_def trimmed_def)
      have e: "split_on newline (setEnvValue t k v) = split_on newline trimmed @ [k @ ''='' @ v, []]"
        unfolding set split_on_append split_on_none [OF a] by simp
      have "\<exists>vs. lines = split_on newline trimmed @ vs \<and> set vs \<subseteq> {[]}"
      proof (cases "t \<noteq> [] \<and> last t = newline")
        case True
        then have "t = trimmed @ newline # []" using append_butlast_last_id [of t] by (simp add: trimmed_def)
        then have "lines = split_on newline trimmed @ [[]]" unfolding lines_def by (metis split_on.simps(1) split_on_append)
        then show ?thesis by simp
      qed (auto simp: trimmed_def lines_def)
      then obtain vs where vs: "lines = split_on newline trimmed @ vs" "set vs \<subseteq> {[]}" by blast
      then show thesis using that [of "split_on newline trimmed" "[]" vs "[[]]"] e no lines_def by simp
    qed
  qed
qed

lemma read_lines_append: "\<forall>l \<in> set us. assigned k l = None \<Longrightarrow> read_lines k (us @ vs) = read_lines k vs"
  by (induction us) auto

lemma read_lines_skip: "assigned k l = None \<Longrightarrow> read_lines k (us @ l # vs) = read_lines k (us @ vs)"
  by (induction us) (auto split: option.splits)

lemma read_lines_blank: "set vs \<subseteq> {[]} \<Longrightarrow> is_word k \<Longrightarrow> read_lines k (us @ vs) = read_lines k us"
proof (induction vs arbitrary: us)
  case (Cons l vs)
  have "assigned k [] = None" using word_chars(1) [OF Cons.prems(2)] by (cases k) (auto simp: assigned_def)
  then show ?case using Cons read_lines_skip [of k l us vs] by simp
qed simp

lemma other_key_not_assigned:
  assumes "is_word k" "is_word k'" "k' \<noteq> k" "assigned k l \<noteq> None"
  shows "assigned k' l = None"
proof (rule ccontr)
  assume "assigned k' l \<noteq> None"
  then obtain u w r u' w' r' where l: "blank w" "l = u @ k @ w @ CHR ''='' # r" "blank u" "blank u'" "blank w'" "l = u' @ k' @ w' @ CHR ''='' # r'"
    using assigned_split [OF assms(1), of l] assigned_split [OF assms(2), of l] assms(4) by blast
  have e: "CHR ''='' \<notin> set (u @ k @ w)" "CHR ''='' \<notin> set (u' @ k' @ w')"
    using l word_chars(2) [OF assms(1)] word_chars(2) [OF assms(2)] by (auto dest: blank_not_equals)
  have "u @ k @ w = u' @ k' @ w'"
    using take_to_equals(1) [OF e(1), of r] take_to_equals(1) [OF e(2), of r'] l(2,6) by (metis append.assoc)
  then have "js_trim (k @ w) = js_trim (k' @ w')" using js_trim_blank(1) l(3,4) by metis
  then show False using trimmed_assignment(2) assms(1-3) l(1,5) by metis
qed

lemma edit_reads_back: "is_word k \<Longrightarrow> plain_value v \<Longrightarrow> readEnvValue (setEnvValue t k v) k = Some v"
proof -
  assume a: "is_word k" "plain_value v"
  note w = written_line [OF a]
  obtain us mid vs vs' where s: "split_on newline (setEnvValue t k v) = us @ (k @ ''='' @ v) # vs'" "\<forall>l \<in> set us. assigned k l = None"
    using edit_shape [OF a(1) w(4), of t] by metis
  have "carriage_return \<notin> set v" "js_trim v = v" using a(2) by (simp_all add: plain_value_def)
  then show ?thesis using s read_lines_append [OF s(2)] w(3) by (simp add: readEnvValue_def)
qed

lemma edit_keeps_others:
  assumes "is_word k" "is_word k'" "k' \<noteq> k" "plain_value v"
  shows "readEnvValue (setEnvValue t k v) k' = readEnvValue t k'"
proof -
  note w = written_line [OF assms(1,4)]
  obtain us mid vs vs' where s: "split_on newline t = us @ mid @ vs"
    "split_on newline (setEnvValue t k v) = us @ (k @ ''='' @ v) # vs'"
    "vs' = vs \<or> vs' = [[]] \<and> set vs \<subseteq> {[]}"
    "(\<exists>l. mid = [l] \<and> assigned k l \<noteq> None) \<or> ((mid = [] \<or> (\<exists>l. mid = [l] \<and> commented_out k l)) \<and> (\<forall>l \<in> set vs. assigned k l = None))"
    by (rule edit_shape [OF assms(1) w(4), of t])
  have m: "\<forall>l \<in> set mid. assigned k' l = None"
    using s(4) other_key_not_assigned [OF assms(1-3)] comment_is_not_assigned [OF assms(2)] by auto
  have "assigned k' (k @ ''='' @ v) = None" using other_key_not_assigned [OF assms(1-3)] w(3) by simp
  then have "read_lines k' (us @ (k @ ''='' @ v) # vs') = read_lines k' (us @ vs)"
    using s(3) read_lines_skip read_lines_blank [OF _ assms(2)] by (metis empty_set insert_is_Un list.simps(15) subset_refl sup_bot_right)
  moreover have "read_lines k' (us @ mid @ vs) = read_lines k' (us @ vs)"
    using m s(4) read_lines_skip [of k'] by auto
  ultimately show ?thesis using s(1,2) by (simp add: readEnvValue_def)
qed

section \<open>What the parser finds\<close>

definition entries :: "string \<Rightarrow> (string \<times> string) list" where
  "entries t = List.map_filter parse_line (split_on newline t)"

definition plain_env :: "string \<Rightarrow> bool" where
  "plain_env t = ((\<forall>l \<in> set (split_on newline t). \<not> exported l) \<and> distinct (map fst (entries t)))"

lemma parse_strip_cr: "parse_line (strip_cr l) = parse_line l"
proof -
  have "js_trim (strip_cr l) = js_trim l"
  proof (cases "l \<noteq> [] \<and> last l = carriage_return")
    case True
    then have "l = butlast l @ [carriage_return]" using append_butlast_last_id [of l] by simp
    moreover have "blank [carriage_return]" by (simp add: blank_def is_ws_def code_def carriage_return_def)
    ultimately show ?thesis using js_trim_blank(2) True by (metis strip_cr_def)
  qed (auto simp: strip_cr_def)
  then show ?thesis by (simp add: parse_line_def)
qed

lemma map_filter_strip: "List.map_filter parse_line (map strip_cr ls) = List.map_filter parse_line ls"
  by (induction ls) (auto simp: map_filter_simps parse_strip_cr split: option.split)

lemma map_filter_append: "List.map_filter f (us @ vs) = List.map_filter f us @ List.map_filter f vs"
  by (simp add: List.map_filter_def)

lemma parse_crlf_lines: "List.map_filter parse_line (crlf_lines t) = entries t"
proof -
  have "List.map_filter parse_line (crlf_lines t) = List.map_filter parse_line (butlast (split_on newline t) @ [last (split_on newline t)])"
    unfolding crlf_lines_def Let_def map_filter_append map_filter_strip by simp
  then show ?thesis unfolding entries_def by (simp only: append_butlast_last_id [OF split_on_nonempty])
qed

lemma parseDotenv_get: "distinct (map fst (entries t)) \<Longrightarrow> om_get (parseDotenv t) k = map_of (entries t) k"
  using om_get_fold_set [of "entries t" "[]" k] unfolding parseDotenv_def parse_crlf_lines
  by (simp add: case_prod_unfold split: option.splits)

lemma map_filter_keys: "x \<in> set (List.map_filter parse_line ls) \<longleftrightarrow> (\<exists>l \<in> set ls. parse_line l = Some x)"
  by (force simp: List.map_filter_def)

text \<open>An edit is what the parser finds, and nothing else changes.\<close>

lemma edit_parses:
  assumes t: "plain_env t" and k: "is_word k" and v: "plain_value v"
  shows "om_get (parseDotenv (setEnvValue t k v)) = (om_get (parseDotenv t))(k \<mapsto> v)" "plain_env (setEnvValue t k v)"
proof -
  note w = written_line [OF k v]
  obtain us mid vs vs' where s: "split_on newline t = us @ mid @ vs"
    "split_on newline (setEnvValue t k v) = us @ (k @ ''='' @ v) # vs'"
    "vs' = vs \<or> vs' = [[]] \<and> set vs \<subseteq> {[]}" "\<forall>l \<in> set us. assigned k l = None"
    "(\<exists>l. mid = [l] \<and> assigned k l \<noteq> None) \<or> ((mid = [] \<or> (\<exists>l. mid = [l] \<and> commented_out k l)) \<and> (\<forall>l \<in> set vs. assigned k l = None))"
    by (rule edit_shape [OF k w(4), of t])
  let ?P = "List.map_filter parse_line"
  have x: "\<forall>l \<in> set us \<union> set mid \<union> set vs. \<not> exported l" and d: "distinct (map fst (?P us @ ?P mid @ ?P vs))"
    using t s(1) by (simp_all add: plain_env_def entries_def map_filter_append Un_assoc)
  have vs': "?P vs' = ?P vs"
  proof -
    have "parse_line [] = None" by (simp add: parse_line_def js_trim_def)
    moreover from this have "set zs' \<subseteq> {[]} \<Longrightarrow> ?P zs' = []" for zs' by (induction zs') (auto simp: map_filter_simps)
    ultimately show ?thesis using s(3) by (auto simp: map_filter_simps)
  qed
  have e: "entries t = ?P us @ ?P mid @ ?P vs" "entries (setEnvValue t k v) = ?P us @ (k, v) # ?P vs"
    using s(1,2) w(1) vs' by (simp_all add: entries_def map_filter_append map_filter_simps)
  have unassigned: "k \<notin> fst ` set (?P ls)" if "\<forall>l \<in> set ls. \<not> exported l \<and> assigned k l = None" for ls
    using that parse_iff_assigned [OF k] by (force simp: map_filter_keys)
  have us: "k \<notin> fst ` set (?P us)" using unassigned s(4) x by blast
  have mid: "(?P mid = [] \<and> k \<notin> fst ` set (?P vs)) \<or> (\<exists>u. ?P mid = [(k, u)])"
    using s(5)
  proof
    assume "\<exists>l. mid = [l] \<and> assigned k l \<noteq> None"
    then show ?thesis using parse_iff_assigned [OF k] x by (fastforce simp: map_filter_simps)
  next
    assume "(mid = [] \<or> (\<exists>l. mid = [l] \<and> commented_out k l)) \<and> (\<forall>l \<in> set vs. assigned k l = None)"
    then show ?thesis using comment_parses_to_nothing [of k] unassigned [of vs] x by (auto simp: map_filter_simps)
  qed
  have vs: "k \<notin> fst ` set (?P vs)" using mid d by (elim disjE exE conjE) simp_all
  have d': "distinct (map fst (entries (setEnvValue t k v)))" using d us vs by (auto simp: e(2))
  moreover have "\<forall>l \<in> set (split_on newline (setEnvValue t k v)). \<not> exported l"
    using x s(2,3) w(2) by (auto simp: exported_def js_trim_def)
  ultimately show "plain_env (setEnvValue t k v)" by (simp add: plain_env_def)
  have none: "map_of (?P us) k = None" "map_of (?P vs) k = None" using us vs by (simp_all add: map_of_eq_None_iff)
  show "om_get (parseDotenv (setEnvValue t k v)) = (om_get (parseDotenv t))(k \<mapsto> v)"
  proof
    fix q
    have "map_of (entries (setEnvValue t k v)) q = ((map_of (entries t))(k \<mapsto> v)) q"
      using mid map_of_eq_None_iff [of "?P vs" k] map_of_eq_None_iff [of "?P us" k] us vs unfolding e
      by (auto simp: map_add_def split: option.splits)
    then show "om_get (parseDotenv (setEnvValue t k v)) q = ((om_get (parseDotenv t))(k \<mapsto> v)) q"
      using parseDotenv_get [OF d'] parseDotenv_get t by (auto simp: plain_env_def)
  qed
qed

section \<open>The environment of a fresh project\<close>

lemma init_keys [simp]:
  "is_word ''AUTH_JWT_SECRET''" "is_word ''ADMIN_SEED_PASSWORD''" "is_word ''MLA_SERVICE_TOKEN''"
  "is_word ''GRAFANA_PASSWORD''" "is_word ''POSTGRES_PASSWORD''" "is_word ''DB_PASSWORD''" "is_word ''DB_URL''"
  by (simp_all add: is_word_def is_word_char_def is_digit_def code_def)

lemmas init_edits = edit_parses edit_keeps_others edit_reads_back

definition plain_generated :: "generated \<Rightarrow> bool" where
  "plain_generated g = list_all plain_value [g_admin g, g_jwt g, g_service g, g_grafana g, g_postgres g]"


definition sample_generated :: generated where
  "sample_generated = \<lparr>g_admin = ''adm'', g_jwt = ''jwt'', g_service = ''srv'', g_grafana = ''gra'', g_postgres = ''pg''\<rparr>"

definition sample_example :: string where
  "sample_example = ''# secrets'' @ [newline] @ ''AUTH_JWT_SECRET=dev'' @ [newline] @ ''# DB_PASSWORD=x'' @ [newline] @ ''DB_URL=old'' @ [newline]"

lemmas env_eval = sample_generated_def sample_example_def plain_generated_def plain_env_def entries_def plain_value_def
  exported_def js_trim_def is_ws_def code_def newline_def carriage_return_def quoted_by_def parse_line_def is_word_def
  is_word_char_def is_digit_def map_filter_simps dotenv_value_def readEnvValue_def assigned_def replaceUrlPassword_def


end
