(* ===== verification/Manifest.thy ===== *)
theory Manifest
  imports EnvFile
begin

text \<open>
  The deployment manifest of \<open>packages/cli\<close>: its fields with their defaults, the semantic rules, the
  loading of a file, and the guard of the decision service (\<open>server.ts\<close>) that the production rules mirror.
  A document that passes the schema is read through its TypeScript interface. The YAML parser, the JSON
  schema validator and the URL parser are arguments. Of a finding the severity, code and path are kept;
  messages and reports are not modelled.
\<close>

section \<open>Findings\<close>

datatype severity = SevError | SevWarning

record finding =
  fi_severity :: severity
  fi_code :: string
  fi_path :: string

definition error_finding :: "string \<Rightarrow> string \<Rightarrow> finding" where
  "error_finding c p = \<lparr>fi_severity = SevError, fi_code = c, fi_path = p\<rparr>"

definition warning_finding :: "string \<Rightarrow> string \<Rightarrow> finding" where
  "warning_finding c p = \<lparr>fi_severity = SevWarning, fi_code = c, fi_path = p\<rparr>"

definition countBySeverity :: "finding list \<Rightarrow> nat \<times> nat" where
  "countBySeverity fs =
     (length (filter (\<lambda>f. fi_severity f = SevError) fs), length (filter (\<lambda>f. fi_severity f \<noteq> SevError) fs))"

section \<open>The manifest and its defaults\<close>

datatype datastore_mode = Bundled | External

type_synonym resources = "string option \<times> string option"

record service_spec =
  sp_enabled :: "bool option"
  sp_replicas :: "nat option"
  sp_image :: "string option"
  sp_resources :: "resources option"

record postgres_spec =
  pg_mode :: "datastore_mode option"
  pg_url :: "string option"

record redis_spec =
  rs_mode :: "datastore_mode option"
  rs_host :: "string option"
  rs_port :: "nat option"
  rs_password :: "string option"

record kafka_spec =
  ks_mode :: "datastore_mode option"
  ks_brokers :: "string option"

record manifest =
  m_release :: "string option"
  m_postgres :: "postgres_spec option"
  m_redis :: "redis_spec option"
  m_kafka :: "kafka_spec option"
  m_rda :: "service_spec option"
  m_paa :: "service_spec option"
  m_mla :: "service_spec option"
  m_fia :: "service_spec option"
  m_sentinel :: "service_spec option"
  m_require_api_key :: "bool option"
  m_jwt_secret :: "string option"
  m_http_port :: "nat option"
  m_public_url :: "string option"
  m_observability :: "bool option"

fun as_string :: "jval \<Rightarrow> string option" where
  "as_string (JStr s) = Some s"
| "as_string _ = None"

fun as_bool :: "jval \<Rightarrow> bool option" where
  "as_bool (JBool b) = Some b"
| "as_bool _ = None"

fun as_count :: "jval \<Rightarrow> nat option" where
  "as_count (JNum (Fin r)) = Some (nat \<lfloor>r\<rfloor>)"
| "as_count _ = None"

definition as_mode :: "jval \<Rightarrow> datastore_mode option" where
  "as_mode v = (if v = JStr ''external'' then Some External else if v = JStr ''bundled'' then Some Bundled else None)"

fun sub :: "jval \<Rightarrow> string \<Rightarrow> jval" where
  "sub (JObj fs) k = field fs k"
| "sub _ k = JUndef"

definition as_object :: "(jval \<Rightarrow> 'a) \<Rightarrow> jval \<Rightarrow> 'a option" where
  "as_object f v = (case v of JObj fs \<Rightarrow> Some (f v) | _ \<Rightarrow> None)"

definition as_resources :: "jval \<Rightarrow> resources" where
  "as_resources v = (as_string (sub v ''cpu''), as_string (sub v ''memory''))"

definition as_service :: "jval \<Rightarrow> service_spec" where
  "as_service v =
     \<lparr>sp_enabled = as_bool (sub v ''enabled''), sp_replicas = as_count (sub v ''replicas''),
      sp_image = as_string (sub v ''image''), sp_resources = as_object as_resources (sub v ''resources'')\<rparr>"

definition as_manifest :: "jval \<Rightarrow> manifest" where
  "as_manifest v =
     (let d = sub v ''datastores''; s = sub v ''services'' in
      \<lparr>m_release = as_string (sub v ''release''),
       m_postgres = as_object (\<lambda>p. \<lparr>pg_mode = as_mode (sub p ''mode''), pg_url = as_string (sub p ''url'')\<rparr>) (sub d ''postgres''),
       m_redis = as_object (\<lambda>p. \<lparr>rs_mode = as_mode (sub p ''mode''), rs_host = as_string (sub p ''host''),
         rs_port = as_count (sub p ''port''), rs_password = as_string (sub p ''password'')\<rparr>) (sub d ''redis''),
       m_kafka = as_object (\<lambda>p. \<lparr>ks_mode = as_mode (sub p ''mode''), ks_brokers = as_string (sub p ''brokers'')\<rparr>) (sub d ''kafka''),
       m_rda = as_object as_service (sub s ''rda''), m_paa = as_object as_service (sub s ''paa''),
       m_mla = as_object as_service (sub s ''mla''), m_fia = as_object as_service (sub s ''fia''),
       m_sentinel = as_object as_service (sub s ''sentinel''),
       m_require_api_key = as_bool (sub (sub v ''auth'') ''require_api_key''),
       m_jwt_secret = as_string (sub (sub v ''auth'') ''jwt_secret''),
       m_http_port = as_count (sub (sub v ''network'') ''http_port''),
       m_public_url = as_string (sub (sub v ''network'') ''public_url''),
       m_observability = as_bool (sub (sub v ''observability'') ''enabled'')\<rparr>)"

record config =
  c_release :: string
  c_postgres_mode :: datastore_mode
  c_postgres_url :: "string option"
  c_redis_mode :: datastore_mode
  c_redis_host :: "string option"
  c_redis_port :: "nat option"
  c_redis_password :: "string option"
  c_kafka_mode :: datastore_mode
  c_kafka_brokers :: "string option"
  c_rda_replicas :: nat
  c_paa_replicas :: nat
  c_mla_enabled :: bool
  c_mla_replicas :: nat
  c_fia_enabled :: bool
  c_fia_replicas :: nat
  c_sentinel_enabled :: bool
  c_requireApiKey :: bool
  c_jwtSecret :: string
  c_httpPort :: nat
  c_publicUrl :: string
  c_observability :: bool

definition or_else :: "'a option \<Rightarrow> 'a \<Rightarrow> 'a" where
  "or_else v d = (case v of Some x \<Rightarrow> x | None \<Rightarrow> d)"

definition stripTrailingSlash :: "string \<Rightarrow> string" where
  "stripTrailingSlash url = (if url \<noteq> [] \<and> last url = CHR ''/'' then butlast url else url)"

definition effective :: "manifest \<Rightarrow> config" where
  "effective m =
     (let pg = m_postgres m; rs = m_redis m; ks = m_kafka m in
      \<lparr>c_release = or_else (m_release m) ''v1'',
       c_postgres_mode = or_else (Option.bind pg pg_mode) Bundled, c_postgres_url = Option.bind pg pg_url,
       c_redis_mode = or_else (Option.bind rs rs_mode) Bundled, c_redis_host = Option.bind rs rs_host,
       c_redis_port = Option.bind rs rs_port, c_redis_password = Option.bind rs rs_password,
       c_kafka_mode = or_else (Option.bind ks ks_mode) Bundled, c_kafka_brokers = Option.bind ks ks_brokers,
       c_rda_replicas = or_else (Option.bind (m_rda m) sp_replicas) 1,
       c_paa_replicas = or_else (Option.bind (m_paa m) sp_replicas) 1,
       c_mla_enabled = or_else (Option.bind (m_mla m) sp_enabled) True,
       c_mla_replicas = or_else (Option.bind (m_mla m) sp_replicas) 1,
       c_fia_enabled = or_else (Option.bind (m_fia m) sp_enabled) False,
       c_fia_replicas = or_else (Option.bind (m_fia m) sp_replicas) 1,
       c_sentinel_enabled = or_else (Option.bind (m_sentinel m) sp_enabled) True,
       c_requireApiKey = or_else (m_require_api_key m) False,
       c_jwtSecret = or_else (m_jwt_secret m) [],
       c_httpPort = or_else (m_http_port m) 80,
       c_publicUrl = stripTrailingSlash (or_else (m_public_url m) ''http://localhost''),
       c_observability = or_else (m_observability m) True\<rparr>)"

section \<open>The allowed origins\<close>

record conn_url =
  cu_hostname :: string
  cu_port :: string
  cu_pathname :: string
  cu_username :: string
  cu_password :: string

definition LOCAL_DEV_ORIGINS :: string where
  "LOCAL_DEV_ORIGINS = ''http://localhost:5173,http://localhost:3000''"

definition isLocal :: "(string \<Rightarrow> conn_url option) \<Rightarrow> string \<Rightarrow> bool" where
  "isLocal parse url =
     (case parse url of
        None \<Rightarrow> False
      | Some u \<Rightarrow> cu_hostname u \<in> {''localhost'', ''127.0.0.1'', ''::1'', ''[::1]''})"

definition derivedCorsOrigins :: "(string \<Rightarrow> conn_url option) \<Rightarrow> string \<Rightarrow> string" where
  "derivedCorsOrigins parse publicUrl = (if isLocal parse publicUrl then LOCAL_DEV_ORIGINS else publicUrl)"

section \<open>The rules\<close>

definition paaSingleton :: "config \<Rightarrow> finding list" where
  "paaSingleton cfg = (if c_paa_replicas cfg \<le> 1 then [] else [error_finding ''paa-replicas'' ''services.paa.replicas''])"

definition mlaSingleton :: "config \<Rightarrow> finding list" where
  "mlaSingleton cfg =
     (if \<not> c_mla_enabled cfg \<or> c_mla_replicas cfg \<le> 1 then [] else [error_finding ''mla-replicas'' ''services.mla.replicas''])"

definition fiaScaleOut :: "config \<Rightarrow> finding list" where
  "fiaScaleOut cfg =
     (if \<not> c_fia_enabled cfg \<or> c_fia_replicas cfg \<le> 1 then [] else [warning_finding ''fia-replicas'' ''services.fia.replicas''])"

definition fiaFootprint :: "config \<Rightarrow> finding list" where
  "fiaFootprint cfg = (if \<not> c_fia_enabled cfg then [] else [warning_finding ''fia-enabled'' ''services.fia.enabled''])"

definition mlaServiceToken :: "manifest \<Rightarrow> config \<Rightarrow> env_source \<Rightarrow> finding list" where
  "mlaServiceToken m cfg env =
     (if \<not> c_mla_enabled cfg then []
      else if \<not> starts_with (or_else (lookup env ''MLA_SERVICE_TOKEN'') []) ''dev-only'' then []
      else if Option.bind (m_mla m) sp_enabled = Some True \<and> lookup env ''NODE_ENV'' = Some ''production''
      then [error_finding ''mla-service-token'' ''services.mla.enabled'']
      else [warning_finding ''mla-service-token'' ''services.mla.enabled''])"

definition openPredictEndpoint :: "config \<Rightarrow> env_source \<Rightarrow> finding list" where
  "openPredictEndpoint cfg env =
     (if c_requireApiKey cfg then []
      else if lookup env ''NODE_ENV'' = Some ''production'' then []
      else [warning_finding ''predict-unauthenticated'' ''auth.require_api_key''])"

record violation =
  vi_code :: string
  vi_path :: string
  vi_duplicate :: bool

definition production_violations :: "(string \<Rightarrow> conn_url option) \<Rightarrow> config \<Rightarrow> violation list" where
  "production_violations parse cfg =
     (if \<not> c_requireApiKey cfg then [\<lparr>vi_code = ''prod-api-key'', vi_path = ''auth.require_api_key'', vi_duplicate = True\<rparr>] else [])
     @ (if hasUnresolvedReference (Some (c_jwtSecret cfg)) then [\<lparr>vi_code = ''prod-jwt-secret'', vi_path = ''auth.jwt_secret'', vi_duplicate = False\<rparr>]
        else if starts_with (c_jwtSecret cfg) ''dev-only-secret'' \<or> length (c_jwtSecret cfg) < 32
        then [\<lparr>vi_code = ''prod-jwt-secret'', vi_path = ''auth.jwt_secret'', vi_duplicate = False\<rparr>] else [])
     @ (let cors = derivedCorsOrigins parse (c_publicUrl cfg)
        in if length cors = 0 \<or> str_includes cors ''localhost''
           then [\<lparr>vi_code = ''prod-cors'', vi_path = ''network.public_url'', vi_duplicate = False\<rparr>] else [])"

definition productionDefaults :: "(string \<Rightarrow> conn_url option) \<Rightarrow> config \<Rightarrow> env_source \<Rightarrow> finding list" where
  "productionDefaults parse cfg env =
     (let isProduction = (lookup env ''NODE_ENV'' = Some ''production'');
          override = (to_lower (or_else (lookup env ''ALLOW_UNSAFE_PROD_DEFAULTS'') []) = ''true'');
          violations = production_violations parse cfg
      in if violations = [] then []
         else if \<not> isProduction
         then map (\<lambda>v. warning_finding (vi_code v) (vi_path v)) (filter (\<lambda>v. \<not> vi_duplicate v) violations)
         else if override then map (\<lambda>v. warning_finding (vi_code v) (vi_path v)) violations
         else map (\<lambda>v. error_finding (vi_code v) (vi_path v)) violations)"

definition unresolvedNames :: "string option \<Rightarrow> string list" where
  "unresolvedNames v = (if \<not> hasUnresolvedReference v then [] else reference_names (or_else v []))"

definition externalDatastoreReferences :: "config \<Rightarrow> finding list" where
  "externalDatastoreReferences cfg =
     (let required =
            (if c_postgres_mode cfg = External then [(''datastores.postgres.url'', c_postgres_url cfg)] else [])
            @ (if c_redis_mode cfg = External then [(''datastores.redis.host'', c_redis_host cfg)] else [])
            @ (if c_kafka_mode cfg = External then [(''datastores.kafka.brokers'', c_kafka_brokers cfg)] else []);
          optional = (if c_redis_mode cfg = External then [(''datastores.redis.password'', c_redis_password cfg)] else [])
      in concat (map (\<lambda>(p, v). map (\<lambda>n. error_finding ''unresolved-reference'' p) (unresolvedNames v)) required)
         @ concat (map (\<lambda>(p, v). map (\<lambda>n. warning_finding ''unresolved-reference-optional'' p) (unresolvedNames v)) optional))"

definition applyRules :: "(string \<Rightarrow> conn_url option) \<Rightarrow> manifest \<Rightarrow> env_source \<Rightarrow> finding list" where
  "applyRules parse m env =
     (let cfg = effective m in
      paaSingleton cfg @ mlaSingleton cfg @ fiaScaleOut cfg @ fiaFootprint cfg @ mlaServiceToken m cfg env
      @ openPredictEndpoint cfg env @ productionDefaults parse cfg env @ externalDatastoreReferences cfg)"

section \<open>Loading and validating\<close>

text \<open>The files beside the manifest: its text, the text of \<open>.env\<close>; absent files are \<open>None\<close>.\<close>

definition loadManifest ::
  "(string \<Rightarrow> jval option) \<Rightarrow> string option \<Rightarrow> string option \<Rightarrow> (string \<Rightarrow> string option) \<Rightarrow>
   jval option \<times> env_source \<times> finding list" where
  "loadManifest yaml file envfile processEnv =
     (let env = \<lparr>dotenv = (case envfile of None \<Rightarrow> [] | Some t \<Rightarrow> parseDotenv t), process = processEnv\<rparr> in
      case file of
        None \<Rightarrow> (None, env, [error_finding ''missing-manifest'' []])
      | Some t \<Rightarrow>
          (case yaml t of
             None \<Rightarrow> (None, env, [error_finding ''unparseable-manifest'' []])
           | Some parsed \<Rightarrow>
               if nullish parsed then (None, env, [error_finding ''empty-manifest'' []])
               else case parsed of
                      JObj fs \<Rightarrow> (Some (fst (resolveReferences env parsed)), env, [])
                    | _ \<Rightarrow> (None, env, [error_finding ''unparseable-manifest'' []])))"

definition validateManifest ::
  "(string \<Rightarrow> jval option) \<Rightarrow> (jval \<Rightarrow> finding list) \<Rightarrow> (string \<Rightarrow> conn_url option) \<Rightarrow>
   string option \<Rightarrow> string option \<Rightarrow> (string \<Rightarrow> string option) \<Rightarrow> finding list \<times> bool" where
  "validateManifest yaml schema parse file envfile processEnv =
     (case loadManifest yaml file envfile processEnv of
        (None, env, findings) \<Rightarrow> (findings, False)
      | (Some doc, env, _) \<Rightarrow>
          if schema doc \<noteq> [] then (schema doc, False)
          else let findings = applyRules parse (as_manifest doc) env
               in (findings, fst (countBySeverity findings) = 0))"

section \<open>The guard of the decision service\<close>

text \<open>The variables that break a default, on the environment of the process.\<close>

definition unsafe_defaults :: "(string \<Rightarrow> string option) \<Rightarrow> string list" where
  "unsafe_defaults penv =
     (let requireApiKey = (to_lower (or_else (penv ''RDA_REQUIRE_API_KEY'') ''false'') = ''true'');
          jwtSecret = or_else (penv ''AUTH_JWT_SECRET'') [];
          corsOrigins = or_else (penv ''SENTINEL_CORS_ORIGINS'') []
      in (if \<not> requireApiKey then [''RDA_REQUIRE_API_KEY''] else [])
         @ (if starts_with jwtSecret ''dev-only-secret'' \<or> length jwtSecret < 32 then [''AUTH_JWT_SECRET''] else [])
         @ (if length corsOrigins = 0 \<or> str_includes corsOrigins ''localhost'' then [''SENTINEL_CORS_ORIGINS''] else []))"

text \<open>Whether the process goes on: it exits when a default is unsafe in production and not overridden.\<close>

definition warnIfUnsafeDefaults :: "(string \<Rightarrow> string option) \<Rightarrow> bool" where
  "warnIfUnsafeDefaults penv =
     (let isProduction = (penv ''NODE_ENV'' = Some ''production'');
          allowProdUnsafe = (to_lower (or_else (penv ''ALLOW_UNSAFE_PROD_DEFAULTS'') []) = ''true'')
      in if unsafe_defaults penv = [] then True
         else \<not> (isProduction \<and> \<not> allowProdUnsafe))"

lemma to_lower_bool: "(to_lower (if b then ''true'' else ''false'') = ''true'') = b"
  by (simp add: to_lower_def to_lower_char_def code_def)

text \<open>The rules mirror the guard on the environment the manifest describes.\<close>

lemma violations_mirror_guard:
  assumes "penv ''RDA_REQUIRE_API_KEY'' = Some (if c_requireApiKey cfg then ''true'' else ''false'')"
    "or_else (penv ''AUTH_JWT_SECRET'') [] = c_jwtSecret cfg"
    "penv ''SENTINEL_CORS_ORIGINS'' = Some (derivedCorsOrigins parse (c_publicUrl cfg))"
    "reference_names (c_jwtSecret cfg) = []"
  shows "(production_violations parse cfg = []) = (unsafe_defaults penv = [])"
  using assms to_lower_bool [of "c_requireApiKey cfg"]
  by (simp add: production_violations_def unsafe_defaults_def Let_def or_else_def hasUnresolvedReference_def)

lemma production_error_iff:
  "(\<exists>f \<in> set (productionDefaults parse cfg env). fi_severity f = SevError) \<longleftrightarrow>
     production_violations parse cfg \<noteq> [] \<and> lookup env ''NODE_ENV'' = Some ''production''
     \<and> to_lower (or_else (lookup env ''ALLOW_UNSAFE_PROD_DEFAULTS'') []) \<noteq> ''true''"
proof (cases "production_violations parse cfg")
  case (Cons v vs)
  then show ?thesis
    by (auto simp: productionDefaults_def Let_def error_finding_def warning_finding_def)
qed (simp add: productionDefaults_def)

end
