(* ===== verification/ComposePlan.thy ===== *)
theory ComposePlan
  imports Manifest JsonRoundTrip
begin

text \<open>
  How \<open>packages/cli\<close> turns a manifest into what Compose is given: the plan with its overlay, the rendered
  environment file, the overlay's text and the command line. The base project is the one of
  \<open>docker-compose.yml\<close>; the overlay's merge into it follows the two tags the overlay is written with
  (\<open>!reset\<close> removes, \<open>!override\<close> replaces). The file system and the URL parser are arguments, and so is
  the place the stack is found at.
\<close>

section \<open>The base project\<close>

definition BASE_DEPENDS_ON :: "(string, (string, string) omap) omap" where
  "BASE_DEPENDS_ON =
     [(''rda'', [(''redis'', ''service_healthy''), (''kafka'', ''service_healthy''), (''postgres'', ''service_healthy''),
                 (''db-migrate'', ''service_completed_successfully'')]),
      (''paa-1'', [(''redis'', ''service_healthy''), (''kafka'', ''service_healthy''), (''postgres'', ''service_healthy''),
                   (''db-migrate'', ''service_completed_successfully'')]),
      (''fia'', [(''kafka'', ''service_healthy''), (''postgres'', ''service_healthy'')]),
      (''mla'', [(''kafka'', ''service_healthy''), (''postgres'', ''service_healthy''),
                 (''db-migrate'', ''service_completed_successfully'')]),
      (''db-migrate'', [(''postgres'', ''service_healthy'')])]"

definition PUBLISHED_HOST_PORTS :: "(string, string list) omap" where
  "PUBLISHED_HOST_PORTS = [(''paa-1'', [''9091:9090'']), (''fia'', [''9094:9094'']), (''mla'', [''9095:9095''])]"

definition OBSERVABILITY_SERVICES :: "string list" where
  "OBSERVABILITY_SERVICES = [''prometheus'', ''grafana'']"

definition NGINX_CONFIG_TARGET :: string where "NGINX_CONFIG_TARGET = ''/etc/nginx/nginx.conf''"
definition NGINX_CONFIG_SENTINEL :: string where "NGINX_CONFIG_SENTINEL = ''./nginx/nginx.sentinel.conf''"
definition COMPOSE_FILE :: string where "COMPOSE_FILE = ''docker-compose.yml''"
definition COMPOSE_FILE_GHCR :: string where "COMPOSE_FILE_GHCR = ''docker-compose.ghcr.yml''"
definition OVERLAY_FILENAME :: string where "OVERLAY_FILENAME = ''docker-compose.override.ojuri.yml''"
definition ENV_FILENAME :: string where "ENV_FILENAME = ''.env.rendered''"

section \<open>The plan\<close>

record service_override =
  so_reset :: bool
  so_environment :: "(string, string) omap option"
  so_dependsOn :: "(string, string) omap option option"
  so_replicas :: "nat option"
  so_resetPorts :: bool
  so_ports :: "string list option"
  so_volumes :: "string list option"
  so_image :: "string option"
  so_resources :: "resources option"

type_synonym overlay = "(string, service_override) omap"

definition empty_override :: service_override where
  "empty_override =
     \<lparr>so_reset = False, so_environment = None, so_dependsOn = None, so_replicas = None, so_resetPorts = False,
      so_ports = None, so_volumes = None, so_image = None, so_resources = None\<rparr>"

text \<open>The entry of a service, created when absent, and changed in place.\<close>

definition override_of :: "overlay \<Rightarrow> string \<Rightarrow> service_override" where
  "override_of services name = or_else (om_get services name) empty_override"

definition override :: "string \<Rightarrow> (service_override \<Rightarrow> service_override) \<Rightarrow> overlay \<Rightarrow> overlay" where
  "override name f services = om_set name (f (override_of services name)) services"

definition mkEnv :: "string \<Rightarrow> (string, string) omap \<Rightarrow> overlay \<Rightarrow> overlay" where
  "mkEnv name vars =
     override name (\<lambda>e. e\<lparr>so_environment := Some (fold (\<lambda>(k, v). om_set k v) vars (or_else (so_environment e) []))\<rparr>)"

record render_plan =
  rp_cfg :: config
  rp_env :: "(string, string) omap"
  rp_profiles :: "string list"
  rp_dropped :: "string list"
  rp_overlay :: overlay

definition buildEnv :: "(string \<Rightarrow> conn_url option) \<Rightarrow> config \<Rightarrow> (string, string) omap" where
  "buildEnv parse cfg =
     [(''OJURI_VERSION'', c_release cfg), (''RDA_REPLICAS'', nat_to_str (c_rda_replicas cfg)),
      (''RDA_REQUIRE_API_KEY'', if c_requireApiKey cfg then ''true'' else ''false''),
      (''SENTINEL_CORS_ORIGINS'', derivedCorsOrigins parse (c_publicUrl cfg))]
     @ (if c_mla_enabled cfg then [(''MLA_HEALTH_URL'', ''http://mla:9095'')] else [])"

definition buildProfiles :: "config \<Rightarrow> string list" where
  "buildProfiles cfg =
     (if c_mla_enabled cfg then [''mla''] else []) @ (if c_fia_enabled cfg then [''fia''] else [])
     @ (if c_sentinel_enabled cfg then [''sentinel''] else [])"

definition droppedServices :: "config \<Rightarrow> string list" where
  "droppedServices cfg =
     (if c_postgres_mode cfg = External then [''postgres''] else [])
     @ (if c_redis_mode cfg = External then [''redis''] else [])
     @ (if c_kafka_mode cfg = External then [''kafka'', ''zookeeper''] else [])
     @ (if \<not> c_observability cfg then OBSERVABILITY_SERVICES else [])"

definition applyDependsOn :: "string list \<Rightarrow> overlay \<Rightarrow> overlay" where
  "applyDependsOn dropped services =
     (if dropped = [] then services
      else fold (\<lambda>(service, deps) services.
             if service \<in> set dropped then services
             else let remaining = filter (\<lambda>(name, c). name \<notin> set dropped) deps in
               if length remaining = length deps then services
               else override service (\<lambda>e. e\<lparr>so_dependsOn := Some (if remaining = [] then None else Some remaining)\<rparr>) services)
           BASE_DEPENDS_ON services)"

text \<open>
  \<open>decodeURIComponent\<close>: percent sequences are UTF-8, and one that is not throws. Characters of this model
  end at 255, so a valid sequence for a later one is not represented and counts as thrown.
\<close>

fun decodeURIComponent :: "string \<Rightarrow> string option" where
  "decodeURIComponent [] = Some []"
| "decodeURIComponent (c # cs) =
     (if c \<noteq> CHR ''%'' then map_option ((#) c) (decodeURIComponent cs)
      else case cs of
        a # b # cs' \<Rightarrow>
          (case radix_nat 16 0 [a, b] of
             None \<Rightarrow> None
           | Some n \<Rightarrow>
               if n < 128 then map_option ((#) (char_of n)) (decodeURIComponent cs')
               else case cs' of
                 p # a' # b' # cs'' \<Rightarrow>
                   (case radix_nat 16 0 [a', b'] of
                      None \<Rightarrow> None
                    | Some n' \<Rightarrow>
                        if p = CHR ''%'' \<and> 194 \<le> n \<and> n \<le> 195 \<and> 128 \<le> n' \<and> n' \<le> 191
                        then map_option ((#) (char_of ((n - 192) * 64 + (n' - 128)))) (decodeURIComponent cs'')
                        else None)
               | _ \<Rightarrow> None)
      | _ \<Rightarrow> None)"

record postgres_parts =
  pp_host :: string
  pp_port :: string
  pp_database :: string
  pp_username :: string
  pp_password :: string

definition nonempty_or :: "string \<Rightarrow> string \<Rightarrow> string" where
  "nonempty_or s d = (if s \<noteq> [] then s else d)"

text \<open>A component that cannot be decoded throws \<open>URIError\<close> past the fallback (\<open>None\<close>).\<close>

definition parsePostgresUrl :: "(string \<Rightarrow> conn_url option) \<Rightarrow> string \<Rightarrow> postgres_parts option" where
  "parsePostgresUrl parse url =
     (case parse url of
        None \<Rightarrow> Some \<lparr>pp_host = ''postgres'', pp_port = ''5432'', pp_database = ''fraud_db'', pp_username = ''postgres'', pp_password = []\<rparr>
      | Some parsed \<Rightarrow>
          let path = cu_pathname parsed;
              bare = (if path \<noteq> [] \<and> hd path = CHR ''/'' then tl path else path)
          in Option.bind (decodeURIComponent bare) (\<lambda>database.
             Option.bind (decodeURIComponent (cu_username parsed)) (\<lambda>username.
             Option.bind (decodeURIComponent (cu_password parsed)) (\<lambda>password.
               Some \<lparr>pp_host = nonempty_or (cu_hostname parsed) ''postgres'', pp_port = nonempty_or (cu_port parsed) ''5432'',
                     pp_database = nonempty_or database ''fraud_db'', pp_username = nonempty_or username ''postgres'',
                     pp_password = password\<rparr>))))"

definition db_vars :: "postgres_parts \<Rightarrow> (string, string) omap" where
  "db_vars p =
     [(''DB_HOST'', pp_host p), (''DB_PORT'', pp_port p), (''DB_DATABASE'', pp_database p),
      (''DB_USERNAME'', pp_username p), (''DB_PASSWORD'', pp_password p)]"

definition python_vars :: "postgres_parts \<Rightarrow> (string, string) omap" where
  "python_vars p =
     [(''POSTGRES_HOST'', pp_host p), (''POSTGRES_PORT'', pp_port p), (''POSTGRES_DB'', pp_database p),
      (''POSTGRES_USER'', pp_username p), (''POSTGRES_PASSWORD'', pp_password p)]"

definition applyExternalPostgres :: "(string \<Rightarrow> conn_url option) \<Rightarrow> config \<Rightarrow> overlay \<Rightarrow> overlay option" where
  "applyExternalPostgres parse cfg services =
     (let url = or_else (c_postgres_url cfg) [] in
      if c_postgres_mode cfg \<noteq> External \<or> url = [] then Some services
      else map_option (\<lambda>parts.
        (let s1 = mkEnv ''rda'' ((''DB_URL'', url) # db_vars parts) services;
             s2 = mkEnv ''paa-1'' [(''DB_URL'', url)] s1;
             s3 = mkEnv ''db-migrate'' (db_vars parts) s2;
             s4 = (if c_fia_enabled cfg then mkEnv ''fia'' (python_vars parts) s3 else s3)
         in if c_mla_enabled cfg then mkEnv ''mla'' (python_vars parts) s4 else s4))
        (parsePostgresUrl parse url))"

definition applyExternalRedis :: "config \<Rightarrow> overlay \<Rightarrow> overlay" where
  "applyExternalRedis cfg services =
     (let host = or_else (c_redis_host cfg) [] in
      if c_redis_mode cfg \<noteq> External \<or> host = [] then services
      else
        let vars = [(''REDIS_HOST'', host), (''REDIS_PORT'', nat_to_str (or_else (c_redis_port cfg) 6379))]
              @ (case c_redis_password cfg of Some p \<Rightarrow> [(''REDIS_PASSWORD'', p)] | None \<Rightarrow> [])
        in mkEnv ''paa-1'' vars (mkEnv ''rda'' vars services))"

definition applyExternalKafka :: "config \<Rightarrow> overlay \<Rightarrow> overlay" where
  "applyExternalKafka cfg services =
     (let brokers = or_else (c_kafka_brokers cfg) [] in
      if c_kafka_mode cfg \<noteq> External \<or> brokers = [] then services
      else
        let vars = [(''KAFKA_BROKERS'', brokers)];
            s2 = mkEnv ''paa-1'' vars (mkEnv ''rda'' vars services);
            s3 = (if c_fia_enabled cfg then mkEnv ''fia'' vars s2 else s2)
        in if c_mla_enabled cfg then mkEnv ''mla'' vars s3 else s3)"

definition applyReplicas :: "config \<Rightarrow> overlay \<Rightarrow> overlay" where
  "applyReplicas cfg services =
     fold (\<lambda>(name, replicas, enabled) services.
        if \<not> enabled \<or> replicas \<le> 1 then services
        else override name (\<lambda>e. e\<lparr>so_replicas := Some replicas,
               so_resetPorts := (so_resetPorts e \<or> om_get PUBLISHED_HOST_PORTS name \<noteq> None)\<rparr>) services)
      [(''paa-1'', c_paa_replicas cfg, True), (''mla'', c_mla_replicas cfg, c_mla_enabled cfg),
       (''fia'', c_fia_replicas cfg, c_fia_enabled cfg)] services"

definition applyPerServiceOverrides :: "manifest \<Rightarrow> overlay \<Rightarrow> overlay" where
  "applyPerServiceOverrides m services =
     fold (\<lambda>(name, spec) services.
        case spec of
          None \<Rightarrow> services
        | Some sp \<Rightarrow>
            let s1 = (case sp_image sp of Some i \<Rightarrow> override name (\<lambda>e. e\<lparr>so_image := Some i\<rparr>) services | None \<Rightarrow> services)
            in case sp_resources sp of Some r \<Rightarrow> override name (\<lambda>e. e\<lparr>so_resources := Some r\<rparr>) s1 | None \<Rightarrow> s1)
      [(''rda'', m_rda m), (''paa-1'', m_paa m), (''mla'', m_mla m), (''fia'', m_fia m), (''sentinel'', m_sentinel m)] services"

definition applyNginx :: "config \<Rightarrow> overlay \<Rightarrow> overlay" where
  "applyNginx cfg services =
     (let s1 = (if c_sentinel_enabled cfg
                then override ''nginx'' (\<lambda>e. e\<lparr>so_volumes := Some [NGINX_CONFIG_SENTINEL @ '':'' @ NGINX_CONFIG_TARGET @ '':ro'']\<rparr>) services
                else services)
      in if c_httpPort cfg \<noteq> 80 then override ''nginx'' (\<lambda>e. e\<lparr>so_ports := Some [nat_to_str (c_httpPort cfg) @ '':80'']\<rparr>) s1 else s1)"

text \<open>The plan of a manifest; \<open>None\<close> when the exception of a malformed URL escapes.\<close>

definition buildPlan :: "(string \<Rightarrow> conn_url option) \<Rightarrow> manifest \<Rightarrow> render_plan option" where
  "buildPlan parse m =
     (let cfg = effective m; dropped = droppedServices cfg;
          s0 = fold (\<lambda>name. override name (\<lambda>e. e\<lparr>so_reset := True\<rparr>)) dropped []
      in map_option (\<lambda>s1.
           \<lparr>rp_cfg = cfg, rp_env = buildEnv parse cfg, rp_profiles = buildProfiles cfg, rp_dropped = dropped,
            rp_overlay = applyNginx cfg (applyPerServiceOverrides m (applyReplicas cfg
              (applyDependsOn dropped (applyExternalKafka cfg (applyExternalRedis cfg s1)))))\<rparr>)
           (applyExternalPostgres parse cfg s0))"

section \<open>Text of the rendered files\<close>

definition lines_of :: "string list \<Rightarrow> string" where
  "lines_of = join_with [newline]"

definition ENV_HEADER :: "string list" where
  "ENV_HEADER =
     [''# .env.rendered'',
      ''#'',
      ''# Generated by `ojuri render`. Do not edit: the next render overwrites'',
      ''# it. Change ojuri.yaml instead.'',
      ''#'',
      ''# These are the variables Compose substitutes that the manifest'',
      ''# controls. Everything else stays in your own .env, which this does not'',
      ''# touch. Pass both files to Compose, this one last so it wins:'',
      ''#'',
      ''#   docker compose --env-file .env --env-file .ojuri/.env.rendered ...'',
      ''#'',
      ''# `ojuri up` does that for you.'']"

definition OVERLAY_HEADER :: "string list" where
  "OVERLAY_HEADER =
     [''# docker-compose.override.ojuri.yml'',
      ''#'',
      ''# Generated by `ojuri render`. Do not edit: the next render overwrites'',
      ''# it. Change ojuri.yaml instead.'',
      ''#'',
      ''# Compose merges this over docker-compose.yml, so it only carries what'',
      ''# the manifest changes. A manifest holding the compose defaults renders'',
      ''# nothing here at all; the shipped one renders the nginx config that'',
      ''# fronts Sentinel, and nothing else.'',
      ''#'',
      ''# `!reset` removes a key the base file set; `!override` replaces one'',
      ''# rather than merging into it. Both need Compose 2.24 or newer, which is'',
      ''# already the floor for docker-compose.ghcr.yml.'']"

definition renderEnvFile :: "render_plan \<Rightarrow> string" where
  "renderEnvFile p = lines_of ((ENV_HEADER @ [[]]) @ map (\<lambda>(k, v). k @ ''='' @ v) (rp_env p) @ [[]])"

fun escape_with :: "(char \<Rightarrow> bool) \<Rightarrow> string \<Rightarrow> string" where
  "escape_with P [] = []"
| "escape_with P (c # cs) = (if P c then CHR 92 # c # escape_with P cs else c # escape_with P cs)"

definition scalar :: "string \<Rightarrow> string" where
  "scalar v = [CHR 34] @ escape_with (\<lambda>c. c = CHR 92 \<or> c = CHR 34) v @ [CHR 34]"

definition deployLines :: "service_override \<Rightarrow> string list" where
  "deployLines s =
     (case so_replicas s of Some n \<Rightarrow> [''      replicas: '' @ nat_to_str n] | None \<Rightarrow> [])
     @ (case so_resources s of
          None \<Rightarrow> []
        | Some (cpu, memory) \<Rightarrow>
            let cpu' = or_else cpu []; memory' = or_else memory [] in
            if cpu' = [] \<and> memory' = [] then []
            else [''      resources:'', ''        limits:'']
                 @ (if cpu' \<noteq> [] then [''          cpus: '' @ scalar cpu'] else [])
                 @ (if memory' \<noteq> [] then [''          memory: '' @ scalar memory'] else []))"

definition serviceLines :: "string \<Rightarrow> service_override \<Rightarrow> string list" where
  "serviceLines name s =
     (if so_reset s then [[], ''  '' @ name @ '': !reset null'']
      else [[], ''  '' @ name @ '':'']
        @ (case so_dependsOn s of
             None \<Rightarrow> []
           | Some None \<Rightarrow> [''    depends_on: !override {}'']
           | Some (Some deps) \<Rightarrow>
               if deps = [] then [''    depends_on: !override {}'']
               else ''    depends_on: !override'' # concat (map (\<lambda>(dep, condition). [''      '' @ dep @ '':'', ''        condition: '' @ condition]) deps))
        @ (if so_resetPorts s then [''    ports: !reset null'']
           else case so_ports s of Some ps \<Rightarrow> ''    ports: !override'' # map (\<lambda>p. ''      - '' @ scalar p) ps | None \<Rightarrow> [])
        @ (case so_volumes s of Some vs \<Rightarrow> ''    volumes: !override'' # map (\<lambda>v. ''      - '' @ scalar v) vs | None \<Rightarrow> [])
        @ (case so_image s of Some i \<Rightarrow> [''    image: '' @ scalar i] | None \<Rightarrow> [])
        @ (case so_environment s of
             Some env \<Rightarrow> if env \<noteq> [] then ''    environment:'' # map (\<lambda>(k, v). ''      '' @ k @ '': '' @ scalar v) env else []
           | None \<Rightarrow> [])
        @ (let deploy = deployLines s in if deploy \<noteq> [] then ''    deploy:'' # deploy else []))"

definition renderOverlay :: "render_plan \<Rightarrow> string" where
  "renderOverlay p =
     (if rp_overlay p = [] then lines_of ((OVERLAY_HEADER @ [[]]) @ [''# Nothing to override.'', ''services: {}'', []])
      else lines_of ((OVERLAY_HEADER @ [[]]) @ [''services:''] @ concat (map (\<lambda>(name, s). serviceLines name s) (rp_overlay p)) @ [[]]))"

definition isNoOp :: "overlay \<Rightarrow> bool" where
  "isNoOp o' = (o' = [])"

section \<open>The command\<close>

record command_options =
  co_stackDir :: "string option"
  co_projectName :: "string option"
  co_build :: bool
  co_outDir :: string
  co_envFile :: "string option"
  co_args :: "string list"

definition join_path :: "string \<Rightarrow> string \<Rightarrow> string" where
  "join_path dir file =
     (let trimmed = stripTrailingSlash dir in if trimmed = [] \<or> trimmed = ''.'' then file else trimmed @ ''/'' @ file)"

definition composeCommand :: "render_plan \<Rightarrow> command_options \<Rightarrow> string list" where
  "composeCommand p opts =
     (let stack = or_else (co_stackDir opts) ''.''; project = or_else (co_projectName opts) [];
          envFile = or_else (co_envFile opts) [] in
      [''docker'', ''compose'']
      @ (if project \<noteq> [] then [''-p'', project] else [])
      @ (if stack \<noteq> ''.'' then [''--project-directory'', stack] else [])
      @ (if envFile \<noteq> [] then [''--env-file'', envFile] else [])
      @ [''--env-file'', join_path (co_outDir opts) ENV_FILENAME, ''-f'', join_path stack COMPOSE_FILE]
      @ (if \<not> co_build opts then [''-f'', join_path stack COMPOSE_FILE_GHCR] else [])
      @ [''-f'', join_path (co_outDir opts) OVERLAY_FILENAME]
      @ concat (map (\<lambda>profile. [''--profile'', profile]) (rp_profiles p))
      @ co_args opts)"

definition is_shell_char :: "char \<Rightarrow> bool" where
  "is_shell_char c = (is_word_char c \<or> c \<in> set ''./:=-'')"

fun quote_inner :: "string \<Rightarrow> string" where
  "quote_inner [] = []"
| "quote_inner (c # cs) = (if c = CHR 39 then [CHR 39, CHR 92, CHR 39, CHR 39] @ quote_inner cs else c # quote_inner cs)"

definition quote_arg :: "string \<Rightarrow> string" where
  "quote_arg a = (if a \<noteq> [] \<and> list_all is_shell_char a then a else [CHR 39] @ quote_inner a @ [CHR 39])"

definition formatCommand :: "string list \<Rightarrow> string" where
  "formatCommand argv = join_with '' '' (map quote_arg argv)"

section \<open>Rendering\<close>

record render_result =
  rr_plan :: "render_plan option"
  rr_findings :: "finding list"
  rr_ok :: bool
  rr_env_file :: "string option"
  rr_overlay_file :: "string option"

text \<open>
  \<open>render\<close> with the outcome of its two writes, the environment file first; the last two fields are what is
  now on disk, \<open>None\<close> for a file left as it was. \<open>None\<close> as a result is the escaped exception.
\<close>

definition render ::
  "(string \<Rightarrow> jval option) \<Rightarrow> (jval \<Rightarrow> finding list) \<Rightarrow> (string \<Rightarrow> conn_url option) \<Rightarrow>
   string option \<Rightarrow> string option \<Rightarrow> (string \<Rightarrow> string option) \<Rightarrow> bool \<Rightarrow> bool \<times> bool \<Rightarrow> render_result option" where
  "render yaml schema parse file envfile processEnv dryRun writable =
     (let result = (\<lambda>p fs good e ov. \<lparr>rr_plan = p, rr_findings = fs, rr_ok = good, rr_env_file = e, rr_overlay_file = ov\<rparr>);
          empty = (\<lambda>fs. Some (result None fs False None None)) in
      case loadManifest yaml file envfile processEnv of
        (None, env, findings) \<Rightarrow> empty findings
      | (Some doc, env, _) \<Rightarrow>
          if schema doc \<noteq> [] then empty (schema doc)
          else
            let m = as_manifest doc; findings = applyRules parse m env in
            if fst (countBySeverity findings) > 0 then empty findings
            else map_option (\<lambda>p.
              let failed = findings @ [error_finding ''write-failed'' []]; e = renderEnvFile p; ov = renderOverlay p in
              if dryRun then result (Some p) findings True None None
              else if \<not> fst writable then result (Some p) failed False None None
              else if \<not> snd writable then result (Some p) failed False (Some e) None
              else result (Some p) findings True (Some e) (Some ov))
              (buildPlan parse m))"

section \<open>The project after the overlay\<close>

text \<open>Every service of \<open>docker-compose.yml\<close> with the services it depends on.\<close>

definition COMPOSE_SERVICES :: "(string, string list) omap" where
  "COMPOSE_SERVICES =
     [(''nginx'', [''rda'']), (''sentinel'', []), (''rda'', [''redis'', ''kafka'', ''postgres'', ''db-migrate'']),
      (''paa-1'', [''redis'', ''kafka'', ''postgres'', ''db-migrate'']), (''fia'', [''kafka'', ''postgres'']),
      (''mla'', [''kafka'', ''postgres'', ''db-migrate'']), (''redis'', []), (''zookeeper'', []), (''kafka'', [''zookeeper'']),
      (''postgres'', []), (''db-migrate'', [''postgres'']), (''demo-seed'', [''rda'']), (''prometheus'', []), (''grafana'', [''prometheus''])]"

definition merged_services :: "overlay \<Rightarrow> string list" where
  "merged_services ov = filter (\<lambda>s. \<not> so_reset (override_of ov s)) (om_keys COMPOSE_SERVICES)"

definition base_depends :: "string \<Rightarrow> string list" where
  "base_depends s = or_else (om_get COMPOSE_SERVICES s) []"

definition merged_depends :: "overlay \<Rightarrow> string \<Rightarrow> string list" where
  "merged_depends ov s =
     (case so_dependsOn (override_of ov s) of
        None \<Rightarrow> base_depends s
      | Some None \<Rightarrow> []
      | Some (Some deps) \<Rightarrow> om_keys deps)"

lemma override_of_override [simp]:
  "override_of (override n f ov) s = (if s = n then f (override_of ov s) else override_of ov s)"
  by (simp add: override_of_def override_def or_else_def)

lemma override_of_empty [simp]: "override_of [] s = empty_override"
  by (simp add: override_of_def or_else_def)

lemma empty_override_simps [simp]:
  "so_reset empty_override = False" "so_dependsOn empty_override = None" "so_resetPorts empty_override = False"
  "so_replicas empty_override = None"
  by (simp_all add: empty_override_def)

text \<open>What each step leaves alone.\<close>

lemma fold_keeps: "(\<And>x ov. g (f x ov) = g ov) \<Longrightarrow> g (fold f xs ov) = g ov"
  by (induction xs arbitrary: ov) auto

lemma mkEnv_keeps [simp]:
  "so_reset (override_of (mkEnv n vars ov) s) = so_reset (override_of ov s)"
  "so_dependsOn (override_of (mkEnv n vars ov) s) = so_dependsOn (override_of ov s)"
  "so_replicas (override_of (mkEnv n vars ov) s) = so_replicas (override_of ov s)"
  by (simp_all add: mkEnv_def)

lemma external_keeps:
  "applyExternalPostgres parse cfg ov = Some ov' \<Longrightarrow> so_reset (override_of ov' s) = so_reset (override_of ov s)"
  "applyExternalPostgres parse cfg ov = Some ov' \<Longrightarrow> so_dependsOn (override_of ov' s) = so_dependsOn (override_of ov s)"
  "applyExternalPostgres parse cfg ov = Some ov' \<Longrightarrow> so_replicas (override_of ov' s) = so_replicas (override_of ov s)"
  by (auto simp: applyExternalPostgres_def Let_def split: if_splits)

lemma redis_keeps [simp]:
  "so_reset (override_of (applyExternalRedis cfg ov) s) = so_reset (override_of ov s)"
  "so_dependsOn (override_of (applyExternalRedis cfg ov) s) = so_dependsOn (override_of ov s)"
  "so_replicas (override_of (applyExternalRedis cfg ov) s) = so_replicas (override_of ov s)"
  by (simp_all add: applyExternalRedis_def Let_def)

lemma kafka_keeps [simp]:
  "so_reset (override_of (applyExternalKafka cfg ov) s) = so_reset (override_of ov s)"
  "so_dependsOn (override_of (applyExternalKafka cfg ov) s) = so_dependsOn (override_of ov s)"
  "so_replicas (override_of (applyExternalKafka cfg ov) s) = so_replicas (override_of ov s)"
  by (simp_all add: applyExternalKafka_def Let_def)

lemma replicas_keeps [simp]:
  "so_reset (override_of (applyReplicas cfg ov) s) = so_reset (override_of ov s)"
  "so_dependsOn (override_of (applyReplicas cfg ov) s) = so_dependsOn (override_of ov s)"
  by (simp_all add: applyReplicas_def)

lemma per_service_keeps [simp]:
  "so_reset (override_of (applyPerServiceOverrides m ov) s) = so_reset (override_of ov s)"
  "so_dependsOn (override_of (applyPerServiceOverrides m ov) s) = so_dependsOn (override_of ov s)"
  "so_replicas (override_of (applyPerServiceOverrides m ov) s) = so_replicas (override_of ov s)"
  "so_resetPorts (override_of (applyPerServiceOverrides m ov) s) = so_resetPorts (override_of ov s)"
  unfolding applyPerServiceOverrides_def
  by (rule fold_keeps [where g = "\<lambda>ov. so_reset (override_of ov s)"], simp add: Let_def split: prod.split option.split)
    (rule fold_keeps [where g = "\<lambda>ov. so_dependsOn (override_of ov s)"], simp add: Let_def split: prod.split option.split,
     rule fold_keeps [where g = "\<lambda>ov. so_replicas (override_of ov s)"], simp add: Let_def split: prod.split option.split,
     rule fold_keeps [where g = "\<lambda>ov. so_resetPorts (override_of ov s)"], simp add: Let_def split: prod.split option.split)

lemma nginx_keeps [simp]:
  "so_reset (override_of (applyNginx cfg ov) s) = so_reset (override_of ov s)"
  "so_dependsOn (override_of (applyNginx cfg ov) s) = so_dependsOn (override_of ov s)"
  "so_replicas (override_of (applyNginx cfg ov) s) = so_replicas (override_of ov s)"
  "so_resetPorts (override_of (applyNginx cfg ov) s) = so_resetPorts (override_of ov s)"
  by (simp_all add: applyNginx_def Let_def)

lemma reset_fold: "so_reset (override_of (fold (\<lambda>name. override name (\<lambda>e. e\<lparr>so_reset := True\<rparr>)) ns ov) s) =
    (s \<in> set ns \<or> so_reset (override_of ov s))"
  "so_dependsOn (override_of (fold (\<lambda>name. override name (\<lambda>e. e\<lparr>so_reset := True\<rparr>)) ns ov) s) = so_dependsOn (override_of ov s)"
  "so_replicas (override_of (fold (\<lambda>name. override name (\<lambda>e. e\<lparr>so_reset := True\<rparr>)) ns ov) s) = so_replicas (override_of ov s)"
  by (induction ns arbitrary: ov) auto

lemma depends_keeps [simp]:
  "so_reset (override_of (applyDependsOn d ov) s) = so_reset (override_of ov s)"
  "so_replicas (override_of (applyDependsOn d ov) s) = so_replicas (override_of ov s)"
  unfolding applyDependsOn_def
  by (split if_split, intro conjI impI refl, rule fold_keeps [where g = "\<lambda>ov. so_reset (override_of ov s)"], simp add: Let_def split: prod.split)
    (split if_split, intro conjI impI refl, rule fold_keeps [where g = "\<lambda>ov. so_replicas (override_of ov s)"], simp add: Let_def split: prod.split)

lemma base_services: "om_keys BASE_DEPENDS_ON = [''rda'', ''paa-1'', ''fia'', ''mla'', ''db-migrate'']"
  by (simp add: BASE_DEPENDS_ON_def om_keys_def)

text \<open>A rewritten block is the base block without what was dropped.\<close>

lemma depends_fold:
  assumes "distinct (map fst bs)" "\<And>s. s \<in> fst ` set bs \<Longrightarrow> so_dependsOn (override_of ov s) = None"
  shows "so_dependsOn (override_of (fold (\<lambda>(service, deps) services.
             if service \<in> set d then services
             else let remaining = filter (\<lambda>(name, c). name \<notin> set d) deps in
               if length remaining = length deps then services
               else override service (\<lambda>e. e\<lparr>so_dependsOn := Some (if remaining = [] then None else Some remaining)\<rparr>) services) bs ov) s)
    = (case map_of bs s of
         None \<Rightarrow> so_dependsOn (override_of ov s)
       | Some deps \<Rightarrow>
           let remaining = filter (\<lambda>(name, c). name \<notin> set d) deps in
           if s \<in> set d \<or> length remaining = length deps then None else Some (if remaining = [] then None else Some remaining))"
  using assms
proof (induction bs arbitrary: ov)
  case (Cons b bs)
  obtain n deps where b: "b = (n, deps)" by (cases b)
  have n: "n \<notin> fst ` set bs" using Cons.prems by (simp add: b)
  then have m: "map_of bs n = None" by (simp add: map_of_eq_None_iff)
  define ov' where "ov' = (if n \<in> set d then ov
      else let remaining = filter (\<lambda>(name, c). name \<notin> set d) deps in
        if length remaining = length deps then ov
        else override n (\<lambda>e. e\<lparr>so_dependsOn := Some (if remaining = [] then None else Some remaining)\<rparr>) ov)"
  have "so_dependsOn (override_of ov' s) = None" if "s \<in> fst ` set bs" for s
    using that n Cons.prems(2) by (auto simp: ov'_def b Let_def)
  note i = Cons.IH [OF _ this]
  have "so_dependsOn (override_of ov n) = None" using Cons.prems(2) by (simp add: b)
  then show ?case using i m Cons.prems(1) by (auto simp: b ov'_def Let_def split: option.splits)
qed simp

section \<open>A plan leaves a project that runs\<close>

lemma plan_shape:
  assumes "buildPlan parse m = Some p"
  obtains ov where
    "rp_overlay p = applyNginx (effective m) (applyPerServiceOverrides m (applyReplicas (effective m)
       (applyDependsOn (droppedServices (effective m)) ov)))"
    "\<And>s. so_reset (override_of ov s) = (s \<in> set (droppedServices (effective m)))"
    "\<And>s. so_dependsOn (override_of ov s) = None" "\<And>s. so_replicas (override_of ov s) = None"
proof -
  let ?c = "effective m"
  obtain s1 where s1: "applyExternalPostgres parse ?c (fold (\<lambda>name. override name (\<lambda>e. e\<lparr>so_reset := True\<rparr>)) (droppedServices ?c) []) = Some s1"
    "rp_overlay p = applyNginx ?c (applyPerServiceOverrides m (applyReplicas ?c (applyDependsOn (droppedServices ?c)
       (applyExternalKafka ?c (applyExternalRedis ?c s1)))))"
    using assms by (auto simp: buildPlan_def Let_def)
  show thesis
    by (rule that [OF s1(2)]) (simp_all add: external_keeps [OF s1(1)] reset_fold)
qed

lemma plan_parts:
  assumes "buildPlan parse m = Some p"
  shows "rp_cfg p = effective m" "rp_env p = buildEnv parse (effective m)" "rp_dropped p = droppedServices (effective m)"
    "so_reset (override_of (rp_overlay p) s) = (s \<in> set (droppedServices (effective m)))"
proof -
  show "rp_cfg p = effective m" "rp_env p = buildEnv parse (effective m)" "rp_dropped p = droppedServices (effective m)"
    using assms by (auto simp: buildPlan_def Let_def)
  show "so_reset (override_of (rp_overlay p) s) = (s \<in> set (droppedServices (effective m)))"
    by (rule plan_shape [OF assms]) simp
qed

lemma plan_depends:
  assumes "buildPlan parse m = Some p"
  shows "so_dependsOn (override_of (rp_overlay p) s) =
    (case om_get BASE_DEPENDS_ON s of
       None \<Rightarrow> None
     | Some deps \<Rightarrow>
         let remaining = filter (\<lambda>(name, c). name \<notin> set (droppedServices (effective m))) deps in
         if s \<in> set (droppedServices (effective m)) \<or> length remaining = length deps then None
         else Some (if remaining = [] then None else Some remaining))"
proof -
  let ?d = "droppedServices (effective m)"
  obtain ov where o1: "rp_overlay p = applyNginx (effective m) (applyPerServiceOverrides m (applyReplicas (effective m)
       (applyDependsOn (droppedServices (effective m)) ov)))"
    and ov: "\<And>s. so_dependsOn (override_of ov s) = None"
    by (rule plan_shape [OF assms]) blast
  note ov = ov o1
  show ?thesis
  proof (cases "?d = []")
    case True
    then show ?thesis using ov by (simp add: applyDependsOn_def Let_def split: option.split)
  next
    case False
    have "distinct (map fst BASE_DEPENDS_ON)" by (simp add: BASE_DEPENDS_ON_def)
    then show ?thesis
      using depends_fold [of BASE_DEPENDS_ON ov ?d s] False ov by (simp add: applyDependsOn_def om_get_def cong: option.case_cong)
  qed
qed

lemma base_edges: "om_get BASE_DEPENDS_ON s = Some deps \<Longrightarrow> base_depends s = map fst deps"
  by (auto simp: BASE_DEPENDS_ON_def base_depends_def COMPOSE_SERVICES_def or_else_def om_get_def split: if_splits)

lemma remaining_edges:
  assumes "buildPlan parse m = Some p" "om_get BASE_DEPENDS_ON s = Some deps" "s \<notin> set (droppedServices (effective m))"
  shows "merged_depends (rp_overlay p) s = filter (\<lambda>n. n \<notin> set (droppedServices (effective m))) (base_depends s)"
proof -
  let ?d = "droppedServices (effective m)"
  have f: "map fst (filter (\<lambda>(n, c). n \<notin> set ?d) deps) = filter (\<lambda>n. n \<notin> set ?d) (map fst deps)"
    by (simp add: filter_map o_def case_prod_unfold)
  have "length (filter (\<lambda>(n, c). n \<notin> set ?d) deps) = length deps \<Longrightarrow> filter (\<lambda>(n, c). n \<notin> set ?d) deps = deps"
    by (metis length_filter_less less_irrefl filter_True)
  then show ?thesis
    using plan_depends [OF assms(1), of s] assms(2,3) base_edges [OF assms(2)] f
    by (auto simp: merged_depends_def Let_def om_keys_def)
qed

lemma services_listed: "d \<in> set (base_depends s) \<Longrightarrow> d \<in> set (om_keys COMPOSE_SERVICES)"
  by (auto simp: base_depends_def COMPOSE_SERVICES_def om_get_def om_keys_def or_else_def split: if_splits)

text \<open>The edges the rewritten blocks leave out stay inside what is dropped or kept together.\<close>

lemma other_edges:
  assumes "om_get BASE_DEPENDS_ON s = None" "s \<in> set (om_keys COMPOSE_SERVICES)" "s \<notin> set (droppedServices cfg)"
  shows "set (base_depends s) \<inter> set (droppedServices cfg) = {}"
  using assms
  by (auto simp: BASE_DEPENDS_ON_def COMPOSE_SERVICES_def base_depends_def om_get_def om_keys_def or_else_def
      droppedServices_def OBSERVABILITY_SERVICES_def split: if_splits)

lemma no_errors: "fst (countBySeverity fs) = 0 \<longleftrightarrow> (\<forall>f \<in> set fs. fi_severity f \<noteq> SevError)"
  by (auto simp: countBySeverity_def filter_empty_conv)

lemma valid_singletons:
  assumes "fst (countBySeverity (applyRules parse m env)) = 0"
  shows "c_paa_replicas (effective m) \<le> 1" "c_mla_enabled (effective m) \<Longrightarrow> c_mla_replicas (effective m) \<le> 1"
  using assms
  by (auto simp: no_errors applyRules_def Let_def paaSingleton_def mlaSingleton_def error_finding_def split: if_splits)

lemma plan_replicas:
  assumes "buildPlan parse m = Some p"
  shows "so_replicas (override_of (rp_overlay p) s) =
    (if s = ''fia'' \<and> c_fia_enabled (effective m) \<and> 1 < c_fia_replicas (effective m) then Some (c_fia_replicas (effective m))
     else if s = ''mla'' \<and> c_mla_enabled (effective m) \<and> 1 < c_mla_replicas (effective m) then Some (c_mla_replicas (effective m))
     else if s = ''paa-1'' \<and> 1 < c_paa_replicas (effective m) then Some (c_paa_replicas (effective m))
     else None)"
proof -
  obtain ov where "rp_overlay p = applyNginx (effective m) (applyPerServiceOverrides m (applyReplicas (effective m)
       (applyDependsOn (droppedServices (effective m)) ov)))" "\<And>s. so_replicas (override_of ov s) = None"
    by (rule plan_shape [OF assms]) blast
  then show ?thesis by (auto simp: applyReplicas_def)
qed

lemma scaled_ports:
  assumes "buildPlan parse m = Some p" "so_replicas (override_of (rp_overlay p) s) = Some n"
  shows "so_resetPorts (override_of (rp_overlay p) s)"
proof -
  obtain ov where "rp_overlay p = applyNginx (effective m) (applyPerServiceOverrides m (applyReplicas (effective m)
       (applyDependsOn (droppedServices (effective m)) ov)))"
    by (rule plan_shape [OF assms(1)]) blast
  then show ?thesis using assms(2) plan_replicas [OF assms(1), of s]
    by (auto simp: applyReplicas_def PUBLISHED_HOST_PORTS_def om_get_def split: if_splits)
qed

text \<open>
  C30: The plan of a manifest without errors leaves a project Compose accepts and the agents tolerate: a
  service that remains depends on exactly those of its services that remain (none dangles, none is lost,
  including the edges of \<open>docker-compose.yml\<close> the renderer does not rewrite), the two agents that must be
  alone are not scaled, and a service that is scaled gives up its fixed host port.
\<close>

theorem plan_leaves_sound_project:
  assumes plan: "buildPlan parse m = Some p" and valid: "fst (countBySeverity (applyRules parse m env)) = 0"
    and s: "s \<in> set (merged_services (rp_overlay p))"
  shows "set (merged_depends (rp_overlay p) s) = set (base_depends s) \<inter> set (merged_services (rp_overlay p)) \<and>
    (s \<in> {''paa-1'', ''mla''} \<longrightarrow> so_replicas (override_of (rp_overlay p) s) = None) \<and>
    (so_replicas (override_of (rp_overlay p) s) \<noteq> None \<longrightarrow> so_resetPorts (override_of (rp_overlay p) s))"
proof -
  let ?d = "droppedServices (effective m)"
  have kept: "s \<notin> set ?d" "s \<in> set (om_keys COMPOSE_SERVICES)"
    using s plan_parts(4) [OF plan] by (auto simp: merged_services_def)
  have edges: "set (base_depends s) \<inter> set (merged_services (rp_overlay p)) = set (base_depends s) - set ?d"
    using services_listed [of _ s] plan_parts(4) [OF plan] by (auto simp: merged_services_def)
  have "set (merged_depends (rp_overlay p) s) = set (base_depends s) \<inter> set (merged_services (rp_overlay p))"
  proof (cases "om_get BASE_DEPENDS_ON s")
    case None
    then show ?thesis using plan_depends [OF plan, of s] other_edges [OF None kept(2,1)] edges by (auto simp: merged_depends_def)
  next
    case (Some deps)
    then show ?thesis unfolding edges remaining_edges [OF plan Some kept(1)] by auto
  qed
  then show ?thesis using plan_replicas [OF plan, of s] valid_singletons [OF valid] scaled_ports [OF plan, of s] by auto
qed

section \<open>What the rendered file says\<close>

lemma header_parses_to_nothing: "l \<in> set ENV_HEADER \<Longrightarrow> parse_line l = None \<and> newline \<notin> set l \<and> \<not> exported l"
proof -
  assume l: "l \<in> set ENV_HEADER"
  then obtain r where "l = CHR ''#'' # r" by (auto simp: ENV_HEADER_def)
  moreover have "\<not> is_ws (CHR ''#'')" by (simp add: is_ws_def code_def)
  ultimately have "js_trim l = CHR ''#'' # rtrim r" using rtrim_stops [of "CHR ''#''" "[]" r] by (simp add: js_trim_rtrim)
  moreover have "newline \<notin> set l" using l by (auto simp: ENV_HEADER_def newline_def)
  ultimately show ?thesis by (simp add: parse_line_def exported_def)
qed

lemma env_keys [simp]:
  "is_word ''OJURI_VERSION''" "is_word ''RDA_REPLICAS''" "is_word ''RDA_REQUIRE_API_KEY''" "is_word ''SENTINEL_CORS_ORIGINS''"
  "is_word ''MLA_HEALTH_URL''"
  by (simp_all add: is_word_def is_word_char_def is_digit_def code_def)

lemma digits_plain: "plain_value (nat_to_str n)"
proof -
  have d: "\<forall>c \<in> set (nat_to_str n). is_digit c" "nat_to_str n \<noteq> []" using nat_to_str_digits [of n] by (auto simp: list_all_iff)
  have x: "is_digit c \<Longrightarrow> \<not> is_ws c \<and> c \<noteq> newline \<and> c \<noteq> carriage_return \<and> c \<noteq> CHR 34 \<and> c \<noteq> CHR 39 \<and> c \<noteq> CHR '' ''" for c
    by (auto simp: is_digit_def is_ws_def code_def newline_def carriage_return_def)
  have "before_hash s = None" if "\<forall>c \<in> set s. is_digit c" for s
    using that x by (induction s) auto
  then show ?thesis using d x js_trim_ends [of "nat_to_str n"]
    by (auto simp: plain_value_def quoted_by_def)
qed

text \<open>The release and the public URL hold nothing a reader of the file would change; the schema's patterns see to it.\<close>

definition plain_config :: "(string \<Rightarrow> conn_url option) \<Rightarrow> config \<Rightarrow> bool" where
  "plain_config parse cfg = (plain_value (c_release cfg) \<and> plain_value (derivedCorsOrigins parse (c_publicUrl cfg)))"

lemma env_plain:
  assumes "plain_config parse cfg" "(k, v) \<in> set (buildEnv parse cfg)"
  shows "is_word k \<and> plain_value v"
proof -
  have "plain_value ''true''" "plain_value ''false''" "plain_value ''http://mla:9095''"
    by (simp_all add: env_eval)
  then show ?thesis using assms digits_plain by (auto simp: buildEnv_def plain_config_def split: if_splits)
qed

lemma env_distinct: "distinct (map fst (buildEnv parse cfg))"
  by (simp add: buildEnv_def)

lemma rendered_lines:
  assumes "plain_config parse cfg" "rp_env p = buildEnv parse cfg"
  shows "entries (renderEnvFile p) = rp_env p"
proof -
  let ?w = "\<lambda>(k, v). k @ ''='' @ v"
  have w: "newline \<notin> set (?w e) \<and> parse_line (?w e) = Some e" if "e \<in> set (rp_env p)" for e
  proof -
    obtain k v where e: "e = (k, v)" by (cases e)
    have "is_word k" "plain_value v" using env_plain [OF assms(1), of k v] that assms(2) by (simp_all add: e)
    then show ?thesis using written_line(1,4) [of k v] by (simp add: e)
  qed
  have n: "parse_line [] = None" by (simp add: parse_line_def js_trim_def)
  have "split_on newline (renderEnvFile p) = (ENV_HEADER @ [[]]) @ map ?w (rp_env p) @ [[]]"
    unfolding renderEnvFile_def lines_of_def
    by (rule split_join) (use w header_parses_to_nothing in \<open>auto simp: newline_def\<close>)
  moreover have "List.map_filter parse_line ENV_HEADER = []"
    using header_parses_to_nothing by (auto simp: List.map_filter_def filter_empty_conv)
  moreover have "List.map_filter parse_line (map ?w es) = es" if "set es \<subseteq> set (rp_env p)" for es
    using that w by (induction es) (auto simp: map_filter_simps)
  ultimately show ?thesis by (simp add: entries_def map_filter_append map_filter_simps n)
qed

text \<open>
  The environment file a plan is rendered to reads back as the plan's own variables, whatever follows
  in the process environment: the next run finds the replica count this one wrote, and Compose the origins
  that were validated.
\<close>

theorem rendered_env_reads_back:
  assumes "buildPlan parse m = Some p" "plain_config parse (effective m)"
  shows "om_get (parseDotenv (renderEnvFile p)) = om_get (rp_env p)"
proof -
  have e: "entries (renderEnvFile p) = rp_env p"
    using rendered_lines [OF assms(2)] plan_parts(2) [OF assms(1)] by simp
  then show ?thesis
    using parseDotenv_get [of "renderEnvFile p"] env_distinct [of parse "effective m"] plan_parts(2) [OF assms(1)]
    by (auto simp: om_get_def)
qed

section \<open>The production guard\<close>

text \<open>
  How Compose resolves a variable: the process environment first, then the files of the command line with
  the last one winning. \<open>${X:-d}\<close> is \<open>d\<close> when the variable is unset or empty.
\<close>

definition compose_resolves ::
  "(string \<Rightarrow> string option) \<Rightarrow> (string, string) omap list \<Rightarrow> (string \<Rightarrow> string option) \<Rightarrow> bool" where
  "compose_resolves processEnv files subst =
     (\<forall>n. subst n = (case processEnv n of
                        Some v \<Rightarrow> Some v
                      | None \<Rightarrow> fold (\<lambda>f found. case om_get f n of Some v \<Rightarrow> Some v | None \<Rightarrow> found) files None))"

definition with_default :: "(string \<Rightarrow> string option) \<Rightarrow> string \<Rightarrow> string \<Rightarrow> string" where
  "with_default subst n d = nonempty_or (or_else (subst n) []) d"

text \<open>What the guard's variables are in the container of the decision service.\<close>

definition rda_container :: "(string \<Rightarrow> string option) \<Rightarrow> string \<Rightarrow> string option" where
  "rda_container subst n =
     (if n = ''NODE_ENV'' then Some (with_default subst n ''development'')
      else if n = ''AUTH_JWT_SECRET'' then Some (or_else (subst n) [])
      else if n = ''RDA_REQUIRE_API_KEY'' then Some (with_default subst n ''false'')
      else if n = ''SENTINEL_CORS_ORIGINS'' then Some (with_default subst n [])
      else None)"

lemma mirrored_environment:
  assumes plan: "buildPlan parse m = Some p"
    and compose: "compose_resolves (process env) [dotenv env, rp_env p] subst"
    and unset: "process env ''RDA_REQUIRE_API_KEY'' = None" "process env ''SENTINEL_CORS_ORIGINS'' = None"
    and blank: "process env ''NODE_ENV'' \<noteq> Some []" "process env ''AUTH_JWT_SECRET'' \<noteq> Some []"
  shows "rda_container subst ''RDA_REQUIRE_API_KEY'' = Some (if c_requireApiKey (effective m) then ''true'' else ''false'')"
    "rda_container subst ''SENTINEL_CORS_ORIGINS'' = Some (derivedCorsOrigins parse (c_publicUrl (effective m)))"
    "rda_container subst ''AUTH_JWT_SECRET'' = Some (or_else (lookup env ''AUTH_JWT_SECRET'') [])"
    "(rda_container subst ''NODE_ENV'' = Some ''production'') = (lookup env ''NODE_ENV'' = Some ''production'')"
  using compose unset blank
  by (auto simp: compose_resolves_def rda_container_def with_default_def nonempty_or_def or_else_def lookup_def
      plan_parts(2) [OF plan] buildEnv_def om_get_def split: option.splits)


text \<open>The override the rules accept never reaches the container: the stack they let through does not run.\<close>

lemma override_never_reaches_guard:
  assumes "buildPlan parse m = Some p" "compose_resolves (process env) [dotenv env, rp_env p] subst"
    "process env ''RDA_REQUIRE_API_KEY'' = None" "process env ''SENTINEL_CORS_ORIGINS'' = None"
    "process env ''NODE_ENV'' \<noteq> Some []" "process env ''AUTH_JWT_SECRET'' \<noteq> Some []"
    and prod: "lookup env ''NODE_ENV'' = Some ''production''" "lookup env ''ALLOW_UNSAFE_PROD_DEFAULTS'' = Some ''true''"
    and key: "\<not> c_requireApiKey (effective m)"
  shows "\<not> warnIfUnsafeDefaults (rda_container subst) \<and>
    (\<forall>f \<in> set (productionDefaults parse (effective m) env). fi_severity f = SevWarning)"
proof -
  note mirror = mirrored_environment [OF assms(1-6)]
  have "unsafe_defaults (rda_container subst) \<noteq> []"
    using mirror(1) key by (simp add: unsafe_defaults_def or_else_def Let_def to_lower_def to_lower_char_def code_def)
  moreover have "rda_container subst ''ALLOW_UNSAFE_PROD_DEFAULTS'' = None" by (simp add: rda_container_def)
  ultimately have "\<not> warnIfUnsafeDefaults (rda_container subst)"
    using mirror(4) prod(1) by (simp add: warnIfUnsafeDefaults_def Let_def or_else_def to_lower_def)
  then show ?thesis
    using prod by (auto simp: productionDefaults_def Let_def or_else_def to_lower_def to_lower_char_def code_def warning_finding_def)
qed

section \<open>Concrete stacks\<close>

definition sample_parse :: "string \<Rightarrow> conn_url option" where
  "sample_parse u =
     Some \<lparr>cu_hostname = ''db.internal'', cu_port = ''6000'', cu_pathname = ''/frauds'', cu_username = ''me'', cu_password = ''pass''\<rparr>"

definition sample_manifest :: manifest where
  "sample_manifest =
     \<lparr>m_release = None, m_postgres = Some \<lparr>pg_mode = Some External, pg_url = Some ''postgres://db''\<rparr>, m_redis = None, m_kafka = None,
      m_rda = None, m_paa = None, m_mla = None, m_fia = None, m_sentinel = None, m_require_api_key = Some True,
      m_jwt_secret = Some (replicate 32 CHR ''s''), m_http_port = None, m_public_url = Some ''https://sentinel.example.com'',
      m_observability = None\<rparr>"

definition sample_env :: env_source where
  "sample_env =
     \<lparr>dotenv = [(''AUTH_JWT_SECRET'', replicate 32 CHR ''s''), (''NODE_ENV'', ''production'')], process = (\<lambda>n. None)\<rparr>"

lemma sample_plan: "\<exists>p. buildPlan sample_parse sample_manifest = Some p"
proof -
  have d: "decodeURIComponent ''frauds'' = Some ''frauds''" "decodeURIComponent ''me'' = Some ''me''"
    "decodeURIComponent ''pass'' = Some ''pass''"
    by (simp_all add: radix_digit_def is_digit_def to_lower_char_def code_def)
  have "\<exists>parts. parsePostgresUrl sample_parse ''postgres://db'' = Some parts"
    by (simp add: parsePostgresUrl_def sample_parse_def d Let_def)
  then show ?thesis
    by (auto simp: buildPlan_def Let_def applyExternalPostgres_def effective_def sample_manifest_def or_else_def)
qed

lemma sample_config:
  "c_paa_replicas (effective sample_manifest) = 1" "c_mla_enabled (effective sample_manifest)" "c_mla_replicas (effective sample_manifest) = 1"
  "\<not> c_fia_enabled (effective sample_manifest)" "c_requireApiKey (effective sample_manifest)"
  "c_jwtSecret (effective sample_manifest) = replicate 32 CHR ''s''" "c_postgres_mode (effective sample_manifest) = External"
  "c_postgres_url (effective sample_manifest) = Some ''postgres://db''" "c_redis_mode (effective sample_manifest) = Bundled"
  "c_kafka_mode (effective sample_manifest) = Bundled" "c_release (effective sample_manifest) = ''v1''"
  "c_observability (effective sample_manifest)" "c_publicUrl (effective sample_manifest) = ''https://sentinel.example.com''"
  by (simp_all add: effective_def Let_def sample_manifest_def or_else_def stripTrailingSlash_def)

lemma sample_origins: "derivedCorsOrigins sample_parse ''https://sentinel.example.com'' = ''https://sentinel.example.com''"
  by (simp add: derivedCorsOrigins_def isLocal_def sample_parse_def)

lemma no_reference: "CHR ''$'' \<notin> set s \<Longrightarrow> reference_names s = []"
proof (induction s)
  case Nil
  show ?case by (subst reference_names.simps) simp
next
  case (Cons c s)
  have "cut_reference (c # s) = None" using Cons.prems by (auto simp: cut_reference_def)
  then show ?case using Cons by (subst reference_names.simps) simp
qed

lemma sample_safe: "production_violations sample_parse (effective sample_manifest) = []"
  by (simp add: production_violations_def sample_config sample_origins hasUnresolvedReference_def no_reference Let_def)
    (simp add: numeral_eq_Suc)

lemma sample_valid: "fst (countBySeverity (applyRules sample_parse sample_manifest sample_env)) = 0"
proof -
  have l: "lookup sample_env ''MLA_SERVICE_TOKEN'' = None" by (simp add: lookup_def sample_env_def om_get_def)
  show ?thesis
    unfolding applyRules_def Let_def no_errors
    by (simp add: paaSingleton_def mlaSingleton_def fiaScaleOut_def fiaFootprint_def mlaServiceToken_def l or_else_def
        openPredictEndpoint_def productionDefaults_def sample_safe externalDatastoreReferences_def sample_config
        unresolvedNames_def hasUnresolvedReference_def no_reference)
qed

lemma plan_leaves_sound_project_witness:
  "\<exists>p. buildPlan sample_parse sample_manifest = Some p \<and> set (merged_depends (rp_overlay p) ''rda'') = {''redis'', ''kafka'', ''db-migrate''}"
proof -
  obtain p where p: "buildPlan sample_parse sample_manifest = Some p" using sample_plan by blast
  have d: "droppedServices (effective sample_manifest) = [''postgres'']" by (simp add: droppedServices_def sample_config)
  have k: "set (merged_services (rp_overlay p)) = set (om_keys COMPOSE_SERVICES) - {''postgres''}"
    using plan_parts(4) [OF p] by (auto simp: merged_services_def d)
  have "''rda'' \<in> set (merged_services (rp_overlay p))" unfolding k by (simp add: om_keys_def COMPOSE_SERVICES_def)
  then have "set (merged_depends (rp_overlay p) ''rda'') = set (base_depends ''rda'') \<inter> set (merged_services (rp_overlay p))"
    using plan_leaves_sound_project [OF p sample_valid] by simp
  then show ?thesis using p unfolding k
    by (auto simp: base_depends_def COMPOSE_SERVICES_def om_keys_def om_get_def or_else_def)
qed

lemma rendered_env_reads_back_witness:
  "\<exists>p. buildPlan sample_parse sample_manifest = Some p \<and> om_get (parseDotenv (renderEnvFile p)) ''RDA_REQUIRE_API_KEY'' = Some ''true''"
proof -
  obtain p where p: "buildPlan sample_parse sample_manifest = Some p" using sample_plan by blast
  have "plain_config sample_parse (effective sample_manifest)"
    by (simp add: plain_config_def sample_config sample_origins) (simp add: env_eval)
  then show ?thesis
    using rendered_env_reads_back [OF p] p plan_parts(2) [OF p] by (auto simp: buildEnv_def sample_config om_get_def [of "_ # _"])
qed


text \<open>
  A password whose percent sign starts no sequence: the exception of the decoder escapes the fallback, and
  no plan is made.
\<close>

lemma undecodable_password_stops_plan:
  "buildPlan (\<lambda>u. map_option (\<lambda>c. c\<lparr>cu_password := ''100%''\<rparr>) (sample_parse u)) sample_manifest = None"
proof -
  have "decodeURIComponent ''100%'' = None" "decodeURIComponent ''frauds'' = Some ''frauds''" "decodeURIComponent ''me'' = Some ''me''"
    by simp_all
  then show ?thesis
    by (simp add: buildPlan_def Let_def applyExternalPostgres_def sample_config parsePostgresUrl_def sample_parse_def or_else_def)
qed

end
