(* ===== verification/CliUp.thy ===== *)
theory CliUp
  imports ComposePlan UrlGuard
begin

text \<open>
  \<open>ojuri up\<close> as a run over the project: what it renders, the Compose steps in their order, the two waits,
  and what it leaves of the running stack that matters to the next run: the rendered environment file, the
  number of decision-service replicas, and the number the proxy balances over (nginx resolves the replicas
  once, when it starts). Compose, the probes and the clock are arguments; the printed summary is not modelled.
\<close>

section \<open>What Compose reports\<close>

record container =
  ct_service :: string
  ct_state :: string
  ct_exitCode :: "jnum option"
  ct_health :: "string option"

definition coalesce :: "jval \<Rightarrow> jval \<Rightarrow> jval" where
  "coalesce a b = (if nullish a then b else a)"

text \<open>A row that is \<open>null\<close> has no properties to read: the call throws (\<open>None\<close>).\<close>

definition container_of :: "jval \<Rightarrow> container option" where
  "container_of row =
     (if nullish row then None
      else
        let get = (\<lambda>k. case js_get row k of Inr v \<Rightarrow> v | Inl e \<Rightarrow> JUndef); health = get ''Health'' in
        Some \<lparr>ct_service = js_to_string (coalesce (coalesce (get ''Service'') (get ''Name'')) (JStr [])),
              ct_state = js_to_string (coalesce (get ''State'') (JStr [])),
              ct_exitCode = (case get ''ExitCode'' of JNum n \<Rightarrow> Some n | _ \<Rightarrow> None),
              ct_health = (if health = JUndef \<or> health = JStr [] then None else Some (js_to_string health))\<rparr>)"

definition ps_rows :: "string \<Rightarrow> jval list" where
  "ps_rows stdout =
     (let t = js_trim stdout in
      if t = [] then []
      else if starts_with t ''['' then (case json_parse t of Some (JArr rows) \<Rightarrow> rows | _ \<Rightarrow> [])
      else List.map_filter (\<lambda>l. if js_trim l = [] then None else json_parse l) (split_on newline t))"

fun all_some :: "'a option list \<Rightarrow> 'a list option" where
  "all_some [] = Some []"
| "all_some (None # xs) = None"
| "all_some (Some x # xs) = map_option ((#) x) (all_some xs)"

definition parsePs :: "string \<Rightarrow> container list option" where
  "parsePs stdout = all_some (map container_of (ps_rows stdout))"

datatype migrate_outcome = MigratePending | MigrateSucceeded | MigrateFailed

definition migrateOutcome :: "container list \<Rightarrow> migrate_outcome" where
  "migrateOutcome states =
     (case find (\<lambda>s. ct_service s = ''db-migrate'') states of
        None \<Rightarrow> MigratePending
      | Some row \<Rightarrow>
          if ct_state row \<noteq> ''exited'' then MigratePending
          else (case ct_exitCode row of Some n \<Rightarrow> if num_eq n (Fin 0) then MigrateSucceeded else MigrateFailed | None \<Rightarrow> MigrateFailed))"

text \<open>The expression \<open>password:\s*(\S+)\<close>: its first match in a line.\<close>

fun printed_password :: "string \<Rightarrow> string option" where
  "printed_password [] = None"
| "printed_password (c # cs) =
     (let rest = dropWhile is_ws (drop 9 (c # cs)); word = takeWhile (\<lambda>d. \<not> is_ws d) rest
      in if starts_with (c # cs) ''password:'' \<and> word \<noteq> [] then Some word else printed_password cs)"

definition bannerPassword :: "string \<Rightarrow> string option" where
  "bannerPassword logs =
     (let from_banner = dropWhile (\<lambda>l. \<not> str_includes l ''Ojuri admin user seeded'') (split_on newline logs)
      in case List.map_filter printed_password from_banner of p # ps \<Rightarrow> Some p | [] \<Rightarrow> None)"

datatype admin_outcome = Generated string | Bootstrapped string | SeededFromEnv | Existing | Unknown

definition adminOutcome :: "string \<Rightarrow> string option \<Rightarrow> admin_outcome" where
  "adminOutcome logs seed =
     (case bannerPassword logs of
        Some p \<Rightarrow> Generated p
      | None \<Rightarrow>
          if str_includes (to_lower logs) ''already up to date'' then Existing
          else if js_trim (or_else seed []) \<noteq> [] then SeededFromEnv
          else Unknown)"

section \<open>Probes\<close>

record probe_target =
  pt_name :: string
  pt_urls :: "string list"

definition health_override :: "env_source \<Rightarrow> string \<Rightarrow> string list option" where
  "health_override env variable =
     (case lookup env variable of
        None \<Rightarrow> None
      | Some v \<Rightarrow> if js_trim v = [] then None else Some [stripTrailingSlash v @ ''/readyz''])"

text \<open>The base URL is the platform's printing of the public URL with its port.\<close>

definition probeTargets :: "string \<Rightarrow> config \<Rightarrow> env_source \<Rightarrow> probe_target list" where
  "probeTargets base cfg env =
     [\<lparr>pt_name = ''rda'', pt_urls = or_else (health_override env ''RDA_HEALTH_URL'') [base @ ''/ready'', ''http://localhost:3000/readyz'']\<rparr>,
      \<lparr>pt_name = ''paa'', pt_urls = or_else (health_override env ''PAA_HEALTH_URL'') [''http://localhost:9091/readyz'']\<rparr>]
     @ (if c_fia_enabled cfg
        then [\<lparr>pt_name = ''fia'', pt_urls = or_else (health_override env ''FIA_HEALTH_URL'') [base @ ''/fia/readyz'', ''http://localhost:9094/readyz'']\<rparr>] else [])
     @ (if c_mla_enabled cfg
        then [\<lparr>pt_name = ''mla'', pt_urls = or_else (health_override env ''MLA_HEALTH_URL'') [base @ ''/mla/readyz'', ''http://localhost:9095/readyz'']\<rparr>] else [])"

section \<open>Waiting\<close>

definition POLL_MS :: int where "POLL_MS = 2000"
definition DEFAULT_TIMEOUT_MS :: int where "DEFAULT_TIMEOUT_MS = 180000"

text \<open>
  The loop of both waits: ask, stop on an answer, stop at the deadline, sleep. The answer of round \<open>i\<close> and
  the clock when it is read in that round are arguments. \<open>None\<close> is out of fuel, \<open>Some None\<close> the timeout.
\<close>

fun poll_loop :: "nat \<Rightarrow> (nat \<Rightarrow> 'a option) \<Rightarrow> (nat \<Rightarrow> int) \<Rightarrow> int \<Rightarrow> nat \<Rightarrow> 'a option option" where
  "poll_loop 0 answer clock deadline i = None"
| "poll_loop (Suc fuel) answer clock deadline i =
     (case answer i of
        Some a \<Rightarrow> Some (Some a)
      | None \<Rightarrow> if deadline \<le> clock i then Some None else poll_loop fuel answer clock deadline (Suc i))"

datatype migrate_wait = WaitDone | WaitFailed | WaitThrew

definition waitForMigrate :: "nat \<Rightarrow> (nat \<Rightarrow> string) \<Rightarrow> (nat \<Rightarrow> int) \<Rightarrow> int \<Rightarrow> int \<Rightarrow> migrate_wait option option" where
  "waitForMigrate fuel ps clock start timeout =
     poll_loop fuel
       (\<lambda>i. case parsePs (ps i) of
              None \<Rightarrow> Some WaitThrew
            | Some states \<Rightarrow> (case migrateOutcome states of MigrateSucceeded \<Rightarrow> Some WaitDone | MigrateFailed \<Rightarrow> Some WaitFailed | MigratePending \<Rightarrow> None))
       clock (start + timeout) 0"

text \<open>A round of probes: the status of each URL at round \<open>i\<close>, if it answered.\<close>

definition waitForReady :: "nat \<Rightarrow> string list \<Rightarrow> (nat \<Rightarrow> string \<Rightarrow> nat option) \<Rightarrow> (nat \<Rightarrow> int) \<Rightarrow> int \<Rightarrow> int \<Rightarrow> unit option option" where
  "waitForReady fuel urls probe clock start timeout =
     poll_loop fuel (\<lambda>i. if list_ex (\<lambda>u. probe i u = Some 200) urls then Some () else None) clock (start + timeout) 0"

section \<open>A run\<close>

record up_env =
  ue_pull :: nat
  ue_up :: nat
  ue_recreates_proxy :: bool
  ue_restart :: nat
  ue_ps :: "nat \<times> string"
  ue_rm :: nat
  ue_migrate_ps :: "nat \<Rightarrow> string"
  ue_migrate_clock :: "nat \<Rightarrow> int"
  ue_probe :: "nat \<Rightarrow> string \<Rightarrow> nat option"
  ue_ready_clock :: "nat \<Rightarrow> int"
  ue_migrate_start :: int
  ue_ready_start :: int
  ue_fuel :: nat

record up_options =
  uo_build :: bool
  uo_yes :: bool
  uo_timeout :: "int option"

record stack_state =
  st_rendered :: "string option"
  st_replicas :: nat
  st_peers :: nat

datatype up_outcome =
    UpInvalid | UpThrew | UpNeedsYes | UpNoStack | UpPullFailed | UpComposeFailed
  | UpMigrateFailed | UpMigrateTimeout | UpNotReady | UpStillRunning
  | UpDone "bool option"

definition previousRdaReplicas :: "string option \<Rightarrow> int option" where
  "previousRdaReplicas rendered =
     (case rendered of
        None \<Rightarrow> None
      | Some t \<Rightarrow> Option.bind (om_get (parseDotenv t) ''RDA_REPLICAS'') parse_int10)"

text \<open>
  What is removed and what is only named. \<open>None\<close> as a first part: the containers could not be listed; a row
  that throws ends the run.
\<close>

definition stopDisabled :: "config \<Rightarrow> string list \<Rightarrow> nat \<times> string \<Rightarrow> (string list \<times> string list) option option" where
  "stopDisabled cfg dropped ps =
     (let removable = (if c_mla_enabled cfg then [] else [''mla'']) @ (if c_fia_enabled cfg then [] else [''fia''])
            @ (if c_sentinel_enabled cfg then [] else [''sentinel'']) @ (if c_observability cfg then [] else OBSERVABILITY_SERVICES);
          datastores = filter (\<lambda>s. s \<notin> set removable) dropped
      in if removable = [] \<and> datastores = [] then Some (Some ([], []))
         else if fst ps \<noteq> 0 then Some None
         else map_option (\<lambda>containers.
                let present = map ct_service containers
                in Some (filter (\<lambda>s. s \<in> set present) removable, filter (\<lambda>s. s \<in> set present) datastores))
              (parsePs (snd ps)))"

text \<open>After \<open>up -d\<close>: what is switched off is removed, then the migration and the readiness are waited for.\<close>

definition up_tail ::
  "config \<Rightarrow> string list \<Rightarrow> string list \<Rightarrow> int \<Rightarrow> bool option \<Rightarrow> up_env \<Rightarrow> up_outcome" where
  "up_tail cfg dropped urls timeout restarted ue =
     (case stopDisabled cfg dropped (ue_ps ue) of
        None \<Rightarrow> UpThrew
      | Some _ \<Rightarrow>
          (case waitForMigrate (ue_fuel ue) (ue_migrate_ps ue) (ue_migrate_clock ue) (ue_migrate_start ue) timeout of
             None \<Rightarrow> UpStillRunning
           | Some None \<Rightarrow> UpMigrateTimeout
           | Some (Some WaitFailed) \<Rightarrow> UpMigrateFailed
           | Some (Some WaitThrew) \<Rightarrow> UpThrew
           | Some (Some WaitDone) \<Rightarrow>
               (case waitForReady (ue_fuel ue) urls (ue_probe ue) (ue_ready_clock ue) (ue_ready_start ue) timeout of
                  None \<Rightarrow> UpStillRunning
                | Some None \<Rightarrow> UpNotReady
                | Some (Some _) \<Rightarrow> UpDone restarted)))"

text \<open>
  \<open>up\<close> from the point where the files exist. The rendering and its write come first; the answer carries
  whether nginx was restarted (\<open>None\<close>: not asked to, \<open>Some False\<close>: reported as failed).
\<close>

definition up_run ::
  "(string \<Rightarrow> conn_url option) \<Rightarrow> string \<Rightarrow> render_result option \<Rightarrow> bool \<Rightarrow> up_options \<Rightarrow> env_source \<Rightarrow> up_env \<Rightarrow>
   stack_state \<Rightarrow> up_outcome \<times> stack_state" where
  "up_run parse base rendered found opts env ue st =
     (let previous = previousRdaReplicas (st_rendered st) in
      case rendered of
        None \<Rightarrow> (UpThrew, st)
      | Some r \<Rightarrow>
          let st1 = st\<lparr>st_rendered := (case rr_env_file r of Some e \<Rightarrow> Some e | None \<Rightarrow> st_rendered st)\<rparr> in
          case (rr_ok r, rr_plan r) of
            (True, Some p) \<Rightarrow>
              let cfg = rp_cfg p; timeout = or_else (uo_timeout opts) DEFAULT_TIMEOUT_MS in
              if c_postgres_mode cfg = External \<and> \<not> uo_yes opts then (UpNeedsYes, st1)
              else if \<not> found then (UpNoStack, st1)
              else if \<not> uo_build opts \<and> ue_pull ue \<noteq> 0 then (UpPullFailed, st1)
              else if ue_up ue \<noteq> 0 then (UpComposeFailed, st1)
              else
                let st2 = st1\<lparr>st_replicas := c_rda_replicas cfg,
                              st_peers := (if ue_recreates_proxy ue then c_rda_replicas cfg else st_peers st1)\<rparr>;
                    asked = (previous \<noteq> None \<and> previous \<noteq> Some (int (c_rda_replicas cfg)));
                    restarted = (if asked then Some (ue_restart ue = 0) else None);
                    st3 = (if restarted = Some True then st2\<lparr>st_peers := c_rda_replicas cfg\<rparr> else st2);
                    urls = (case find (\<lambda>t. pt_name t = ''rda'') (probeTargets base cfg env) of
                              Some t \<Rightarrow> pt_urls t | None \<Rightarrow> [base @ ''/ready''])
                in (up_tail cfg (rp_dropped p) urls timeout restarted ue, st3)
          | _ \<Rightarrow> (UpInvalid, st1))"

section \<open>The waits end\<close>

lemma poll_loop_ends:
  assumes "\<And>i. clock i + POLL_MS \<le> clock (Suc i)" "deadline \<le> clock i + POLL_MS * int fuel"
  shows "poll_loop (Suc fuel) answer clock deadline i \<noteq> None"
  using assms(2)
proof (induction fuel arbitrary: i)
  case (Suc fuel)
  have "deadline \<le> clock (Suc i) + POLL_MS * int fuel"
    using Suc.prems assms(1) [of i] by (simp add: algebra_simps)
  from Suc.IH [OF this] show ?case by (subst poll_loop.simps) (simp split: option.split del: poll_loop.simps)
qed (simp split: option.split)

definition ticking :: "(nat \<Rightarrow> int) \<Rightarrow> int \<Rightarrow> bool" where
  "ticking clock start = (start \<le> clock 0 \<and> (\<forall>i. clock i + POLL_MS \<le> clock (Suc i)))"

definition enough_polls :: "up_options \<Rightarrow> nat" where
  "enough_polls opts = Suc (nat ((or_else (uo_timeout opts) DEFAULT_TIMEOUT_MS + POLL_MS - 1) div POLL_MS))"

lemma waits_end:
  assumes "ticking clock start" "enough_polls opts \<le> fuel"
  shows "poll_loop fuel answer clock (start + or_else (uo_timeout opts) DEFAULT_TIMEOUT_MS) 0 \<noteq> None"
proof -
  let ?t = "or_else (uo_timeout opts) DEFAULT_TIMEOUT_MS"
  obtain f where f: "fuel = Suc f" "nat ((?t + POLL_MS - 1) div POLL_MS) \<le> f"
    using assms(2) by (cases fuel) (auto simp: enough_polls_def)
  then have "(?t + POLL_MS - 1) div POLL_MS \<le> int f" by linarith
  then have "?t \<le> POLL_MS * int f" by (simp add: POLL_MS_def)
  then show ?thesis using assms(1) poll_loop_ends [of clock "start + ?t" 0 f answer]
    by (simp add: ticking_def f(1) del: poll_loop.simps)
qed

text \<open>
  \<open>ojuri up\<close> answers: with clocks that advance by the two seconds slept between polls, both waits end
  within the rounds their timeout allows, whatever Compose, the containers and the probes say. The fuel is
  those rounds, and more of it changes nothing the run could be waiting for.
\<close>

theorem up_always_answers:
  assumes "ticking (ue_migrate_clock ue) (ue_migrate_start ue)" "ticking (ue_ready_clock ue) (ue_ready_start ue)"
    "enough_polls opts \<le> ue_fuel ue"
  shows "fst (up_run parse base rendered found opts env ue st) \<noteq> UpStillRunning"
proof -
  have m: "waitForMigrate (ue_fuel ue) (ue_migrate_ps ue) (ue_migrate_clock ue) (ue_migrate_start ue)
      (or_else (uo_timeout opts) DEFAULT_TIMEOUT_MS) \<noteq> None"
    unfolding waitForMigrate_def by (rule waits_end [OF assms(1,3)])
  have r: "waitForReady (ue_fuel ue) urls (ue_probe ue) (ue_ready_clock ue) (ue_ready_start ue)
      (or_else (uo_timeout opts) DEFAULT_TIMEOUT_MS) \<noteq> None" for urls
    unfolding waitForReady_def by (rule waits_end [OF assms(2,3)])
  have tail: "up_tail cfg dropped urls (or_else (uo_timeout opts) DEFAULT_TIMEOUT_MS) restarted ue \<noteq> UpStillRunning" for cfg dropped urls restarted
    unfolding up_tail_def using m r [of urls] by (auto split: option.split migrate_wait.split)
  show ?thesis
    using tail by (simp add: up_run_def Let_def split: option.split bool.split)
qed

section \<open>The proxy and the replicas\<close>

definition in_step :: "stack_state \<Rightarrow> bool" where
  "in_step st = (previousRdaReplicas (st_rendered st) = Some (int (st_replicas st)) \<and> st_peers st = st_replicas st)"

definition reached_compose :: "up_outcome \<Rightarrow> bool" where
  "reached_compose u = (case u of
     UpDone _ \<Rightarrow> True | UpMigrateFailed \<Rightarrow> True | UpMigrateTimeout \<Rightarrow> True | UpNotReady \<Rightarrow> True | UpStillRunning \<Rightarrow> True | _ \<Rightarrow> False)"

lemma written_count_reads_back:
  assumes "buildPlan parse m = Some p" "plain_config parse (effective m)"
  shows "previousRdaReplicas (Some (renderEnvFile p)) = Some (int (c_rda_replicas (rp_cfg p)))"
  using rendered_env_reads_back [OF assms] plan_parts(1,2) [OF assms(1)]
  by (simp add: previousRdaReplicas_def buildEnv_def om_get_def parse_nat_text)

lemma render_writes_plan:
  assumes "render yaml schema parse file envfile processEnv False w = Some r" "rr_ok r" "rr_plan r = Some p"
    "\<And>doc. schema doc = [] \<Longrightarrow> plain_config parse (effective (as_manifest doc))"
  shows "rr_env_file r = Some (renderEnvFile p)" "previousRdaReplicas (Some (renderEnvFile p)) = Some (int (c_rda_replicas (rp_cfg p)))"
proof -
  obtain d env fs where l: "loadManifest yaml file envfile processEnv = (d, env, fs)" by (cases "loadManifest yaml file envfile processEnv")
  then obtain doc where d: "d = Some doc" using assms(1,2) by (cases d) (auto simp: render_def Let_def)
  have s: "schema doc = []" using assms(1,2) by (auto simp: render_def Let_def l d split: if_splits)
  have b: "buildPlan parse (as_manifest doc) = Some p \<and> rr_env_file r = Some (renderEnvFile p)"
    using assms(1-3) by (auto simp: render_def Let_def l d s split: if_splits)
  then show "rr_env_file r = Some (renderEnvFile p)" by simp
  show "previousRdaReplicas (Some (renderEnvFile p)) = Some (int (c_rda_replicas (rp_cfg p)))"
    using written_count_reads_back b assms(4) [OF s] by blast
qed


text \<open>
  A run that is refused after it has rendered: with an external database and a changed replica count, \<open>up\<close>
  asks for \<open>--yes\<close>; the second run finds the new count in the rendered file, restarts nothing, and leaves the
  proxy on the old replicas without a word.
\<close>

lemma refused_run_leaves_proxy_stale:
  assumes r: "render yaml schema parse file envfile processEnv False w = Some r" "rr_ok r" "rr_plan r = Some p"
    and schema: "\<And>doc. schema doc = [] \<Longrightarrow> plain_config parse (effective (as_manifest doc))"
    and external: "c_postgres_mode (rp_cfg p) = External"
    and opts: "\<not> uo_yes opts" "uo_build opts" and ue: "ue_up ue = 0" "\<not> ue_recreates_proxy ue"
    and two: "up_run parse base (Some r) True opts env ue st = (u1, st1)"
      "up_run parse base (Some r) True (opts\<lparr>uo_yes := True\<rparr>) env ue st1 = (u2, st2)"
  shows "u1 = UpNeedsYes \<and> u2 \<noteq> UpDone (Some b) \<and> st_replicas st2 = c_rda_replicas (rp_cfg p) \<and> st_peers st2 = st_peers st"
proof -
  note w = render_writes_plan [OF r schema]
  have st1: "u1 = UpNeedsYes \<and> st1 = st\<lparr>st_rendered := Some (renderEnvFile p)\<rparr>"
    using two(1) by (auto simp: up_run_def Let_def r w(1) external opts)
  have t: "up_tail cfg d urls timeout None ue = UpDone c \<Longrightarrow> c = None" for cfg d urls timeout c
    by (auto simp: up_tail_def split: option.splits migrate_wait.splits)
  have "\<exists>urls timeout. u2 = up_tail (rp_cfg p) (rp_dropped p) urls timeout None ue \<and>
      st_replicas st2 = c_rda_replicas (rp_cfg p) \<and> st_peers st2 = st_peers st"
    using two(2) st1 by (auto simp: up_run_def Let_def r w opts ue)
  then obtain urls timeout where u: "u2 = up_tail (rp_cfg p) (rp_dropped p) urls timeout None ue"
    "st_replicas st2 = c_rda_replicas (rp_cfg p)" "st_peers st2 = st_peers st" by blast
  then have "u2 \<noteq> UpDone (Some b)" using t by fastforce
  then show ?thesis using st1 u by simp
qed

definition sample_up :: up_env where
  "sample_up =
     \<lparr>ue_pull = 0, ue_up = 0, ue_recreates_proxy = True, ue_restart = 0, ue_ps = (0, []), ue_rm = 0, ue_migrate_ps = (\<lambda>i. []),
      ue_migrate_clock = (\<lambda>i. 2000 * int i), ue_probe = (\<lambda>i u. Some 200), ue_ready_clock = (\<lambda>i. 2000 * int i),
      ue_migrate_start = 0, ue_ready_start = 0, ue_fuel = 91\<rparr>"

definition sample_options :: up_options where
  "sample_options = \<lparr>uo_build = True, uo_yes = False, uo_timeout = None\<rparr>"

lemma up_always_answers_witness:
  "\<exists>p. buildPlan sample_parse sample_manifest = Some p \<and>
    fst (up_run sample_parse ''http://localhost''
      (Some \<lparr>rr_plan = Some p, rr_findings = [], rr_ok = True, rr_env_file = None, rr_overlay_file = None\<rparr>) True
      (sample_options\<lparr>uo_yes := True\<rparr>) sample_env sample_up \<lparr>st_rendered = None, st_replicas = 0, st_peers = 0\<rparr>) \<noteq> UpStillRunning"
proof -
  have "ticking (ue_migrate_clock sample_up) (ue_migrate_start sample_up)" "ticking (ue_ready_clock sample_up) (ue_ready_start sample_up)"
    "enough_polls (sample_options\<lparr>uo_yes := True\<rparr>) \<le> ue_fuel sample_up"
    by (simp_all add: ticking_def sample_up_def POLL_MS_def enough_polls_def sample_options_def or_else_def DEFAULT_TIMEOUT_MS_def)
  then show ?thesis using sample_plan up_always_answers by blast
qed

definition empty_schema :: "jval \<Rightarrow> finding list" where
  "empty_schema d = (if d = JObj [] then [] else [error_finding ''schema'' ''(root)''])"

lemma default_config:
  "effective (as_manifest (JObj [])) =
     \<lparr>c_release = ''v1'', c_postgres_mode = Bundled, c_postgres_url = None, c_redis_mode = Bundled, c_redis_host = None,
      c_redis_port = None, c_redis_password = None, c_kafka_mode = Bundled, c_kafka_brokers = None, c_rda_replicas = 1,
      c_paa_replicas = 1, c_mla_enabled = True, c_mla_replicas = 1, c_fia_enabled = False, c_fia_replicas = 1,
      c_sentinel_enabled = True, c_requireApiKey = False, c_jwtSecret = [], c_httpPort = 80, c_publicUrl = ''http://localhost'',
      c_observability = True\<rparr>"
  by (simp add: effective_def as_manifest_def Let_def as_object_def or_else_def stripTrailingSlash_def field_def)

lemma default_plain: "empty_schema doc = [] \<Longrightarrow> plain_config sample_parse (effective (as_manifest doc))"
proof -
  assume "empty_schema doc = []"
  then have d: "doc = JObj []" by (simp add: empty_schema_def split: if_splits)
  have "derivedCorsOrigins sample_parse ''http://localhost'' = ''http://localhost''"
    by (simp add: derivedCorsOrigins_def isLocal_def sample_parse_def)
  then show ?thesis unfolding d by (simp add: default_config plain_config_def) (simp add: env_eval)
qed

lemma default_render:
  "\<exists>r p. render (\<lambda>t. Some (JObj [])) empty_schema sample_parse (Some []) None (\<lambda>n. None) False (True, True) = Some r \<and>
     rr_ok r \<and> rr_plan r = Some p \<and> c_rda_replicas (rp_cfg p) = 1 \<and> c_postgres_mode (rp_cfg p) = Bundled
     \<and> c_mla_enabled (rp_cfg p) \<and> rr_env_file r = Some (renderEnvFile p)"
proof -
  obtain p where p: "buildPlan sample_parse (as_manifest (JObj [])) = Some p"
    by (simp add: buildPlan_def Let_def applyExternalPostgres_def default_config)
  have l: "lookup \<lparr>dotenv = [], process = (\<lambda>n. None)\<rparr> n = None" for n by (simp add: lookup_def)
  have "fst (countBySeverity (applyRules sample_parse (as_manifest (JObj [])) \<lparr>dotenv = [], process = (\<lambda>n. None)\<rparr>)) = 0"
    unfolding applyRules_def Let_def no_errors productionDefaults_def l
    by (auto simp: default_config paaSingleton_def mlaSingleton_def fiaScaleOut_def fiaFootprint_def mlaServiceToken_def l or_else_def
        openPredictEndpoint_def externalDatastoreReferences_def warning_finding_def Let_def split: if_splits)
  then show ?thesis
    using p plan_parts(1) [OF p]
    by (simp add: render_def Let_def loadManifest_def nullish_def resolveReferences_def empty_schema_def default_config)
qed


end
