(* ===== verification/Spec2Isabelle.thy ===== *)
theory Spec2Isabelle
  imports RulesService VelocityService GraphService LeaderLease ProcessedEvents ModelRegistry Scoring Idempotency PredictExecution PaaWorker KafkaProducer Webhooks Authorization UserRoles ApiKeys Sdk CliUp
begin

text \<open>
  Verification library of the fraud decision platform.
\<close>

end
